(* ===== verification/Go_Prelude.thy ===== *)
theory Go_Prelude
  imports Main "HOL-Library.AList" "HOL-Library.Char_ord" "HOL-Library.List_Lexorder"
begin

text \<open>
  What the components share of the Go language and of its standard library.

  A Go string or byte slice is a \<^typ>\<open>string\<close>: one \<^typ>\<open>char\<close> is one byte.  Functions of
  \<^verbatim>\<open>strings\<close> that Go defines on Unicode code points (\<open>ToLower\<close>, \<open>ToUpper\<close>, \<open>EqualFold\<close>,
  \<open>TrimSpace\<close>) are modelled on their ASCII range, bytes from 128 on are left alone.
  An index that Go reports as \<open>-1\<close> is \<^const>\<open>None\<close>.  Go's \<open>int\<close> and \<open>int64\<close> are mathematical
  integers with the 64-bit two's complement wrap-around written out (\<open>wrap64\<close>) where a result may leave
  the range, and \<open>strconv\<close> refuses what is out of range, as the library does.
  A Go map is an association list with distinct keys (library theory \<open>AList\<close>).
\<close>

named_theorems go_simps \<open>evaluation rules of the Go library model\<close>

section \<open>Bytes and strings\<close>

abbreviation CR :: char where "CR \<equiv> CHR 0x0D"
abbreviation LF :: char where "LF \<equiv> CHR 0x0A"

definition crlf :: string where
  "crlf = [CR, LF]"

definition is_space :: "char \<Rightarrow> bool" where
  "is_space c \<longleftrightarrow> c \<in> {CHR 0x09, CHR 0x0A, CHR 0x0B, CHR 0x0C, CHR 0x0D, CHR '' ''}"

definition lower_char :: "char \<Rightarrow> char" where
  "lower_char c = (let n = (of_char c :: nat) in if 65 \<le> n \<and> n \<le> 90 then char_of (n + 32) else c)"

definition upper_char :: "char \<Rightarrow> char" where
  "upper_char c = (let n = (of_char c :: nat) in if 97 \<le> n \<and> n \<le> 122 then char_of (n - 32) else c)"

definition go_ToLower :: "string \<Rightarrow> string" where
  "go_ToLower s = map lower_char s"

definition go_ToUpper :: "string \<Rightarrow> string" where
  "go_ToUpper s = map upper_char s"

definition go_EqualFold :: "string \<Rightarrow> string \<Rightarrow> bool" where
  "go_EqualFold a b \<longleftrightarrow> go_ToLower a = go_ToLower b"

definition trim_right :: "(char \<Rightarrow> bool) \<Rightarrow> string \<Rightarrow> string" where
  "trim_right p s = rev (dropWhile p (rev s))"

definition go_TrimSpace :: "string \<Rightarrow> string" where
  "go_TrimSpace s = trim_right is_space (dropWhile is_space s)"

definition go_TrimByte :: "string \<Rightarrow> char \<Rightarrow> string" where
  \<comment> \<open>\<open>strings.Trim(s, cutset)\<close> for a cutset of one byte\<close>
  "go_TrimByte s c = trim_right (\<lambda>x. x = c) (dropWhile (\<lambda>x. x = c) s)"

definition go_HasPrefix :: "string \<Rightarrow> string \<Rightarrow> bool" where
  "go_HasPrefix s p \<longleftrightarrow> take (length p) s = p"

definition go_HasSuffix :: "string \<Rightarrow> string \<Rightarrow> bool" where
  "go_HasSuffix s p \<longleftrightarrow> length p \<le> length s \<and> drop (length s - length p) s = p"

definition go_TrimPrefix :: "string \<Rightarrow> string \<Rightarrow> string" where
  "go_TrimPrefix s p = (if go_HasPrefix s p then drop (length p) s else s)"

definition go_TrimSuffix :: "string \<Rightarrow> string \<Rightarrow> string" where
  "go_TrimSuffix s p = (if go_HasSuffix s p then take (length s - length p) s else s)"

fun go_IndexByte :: "string \<Rightarrow> char \<Rightarrow> nat option" where
  "go_IndexByte [] c = None"
| "go_IndexByte (x # xs) c = (if x = c then Some 0 else map_option Suc (go_IndexByte xs c))"

fun go_Index :: "string \<Rightarrow> string \<Rightarrow> nat option" where
  "go_Index [] sub = (if sub = [] then Some 0 else None)"
| "go_Index (x # xs) sub =
     (if go_HasPrefix (x # xs) sub then Some 0 else map_option Suc (go_Index xs sub))"

definition go_Contains :: "string \<Rightarrow> string \<Rightarrow> bool" where
  "go_Contains s sub \<longleftrightarrow> go_Index s sub \<noteq> None"

text \<open>\<open>strings.Split\<close>, \<open>strings.SplitN\<close> and \<open>strings.Cut\<close> for a separator of one byte.\<close>

fun go_Split :: "string \<Rightarrow> char \<Rightarrow> string list" where
  "go_Split [] c = [[]]"
| "go_Split (x # xs) c =
     (if x = c then [] # go_Split xs c
      else (case go_Split xs c of [] \<Rightarrow> [[x]] | p # ps \<Rightarrow> (x # p) # ps))"

definition go_Cut :: "string \<Rightarrow> char \<Rightarrow> string \<times> string \<times> bool" where
  "go_Cut s c = (case go_IndexByte s c of
       None \<Rightarrow> (s, [], False)
     | Some i \<Rightarrow> (take i s, drop (Suc i) s, True))"

fun go_SplitN :: "string \<Rightarrow> char \<Rightarrow> nat \<Rightarrow> string list" where
  "go_SplitN s c 0 = []"
| "go_SplitN s c (Suc 0) = [s]"
| "go_SplitN s c (Suc (Suc n)) =
     (case go_IndexByte s c of
        None \<Rightarrow> [s]
      | Some i \<Rightarrow> take i s # go_SplitN (drop (Suc i) s) c (Suc n))"

fun go_Join :: "string list \<Rightarrow> string \<Rightarrow> string" where
  "go_Join [] sep = []"
| "go_Join [x] sep = x"
| "go_Join (x # y # ys) sep = x @ sep @ go_Join (y # ys) sep"

section \<open>Integers and their text\<close>

definition MaxInt64 :: int where "MaxInt64 = 2 ^ 63 - 1"
definition MinInt64 :: int where "MinInt64 = - (2 ^ 63)"

definition in_int64 :: "int \<Rightarrow> bool" where
  "in_int64 x \<longleftrightarrow> MinInt64 \<le> x \<and> x \<le> MaxInt64"

definition wrap64 :: "int \<Rightarrow> int" where
  "wrap64 x = (x + 2 ^ 63) mod 2 ^ 64 - 2 ^ 63"

definition digit_val :: "char \<Rightarrow> nat option" where
  "digit_val c = (let n = (of_char c :: nat) in
     if 48 \<le> n \<and> n \<le> 57 then Some (n - 48)
     else if 97 \<le> n \<and> n \<le> 122 then Some (n - 97 + 10)
     else if 65 \<le> n \<and> n \<le> 90 then Some (n - 65 + 10)
     else None)"

fun digits_val :: "nat \<Rightarrow> nat \<Rightarrow> string \<Rightarrow> nat option" where
  "digits_val b acc [] = Some acc"
| "digits_val b acc (c # cs) =
     (case digit_val c of
        None \<Rightarrow> None
      | Some d \<Rightarrow> if d < b then digits_val b (acc * b + d) cs else None)"

definition parse_nat :: "nat \<Rightarrow> string \<Rightarrow> nat option" where
  "parse_nat b s = (if s = [] then None else digits_val b 0 s)"

text \<open>\<open>strconv.ParseInt(s, base, 64)\<close>; \<open>strconv.Atoi\<close> is base 10.  \<^const>\<open>None\<close> is the error return.\<close>

definition go_ParseInt :: "string \<Rightarrow> nat \<Rightarrow> int option" where
  "go_ParseInt s b =
     (case s of
        [] \<Rightarrow> None
      | c # cs \<Rightarrow>
          (let neg = (c = CHR ''-''); body = (if c = CHR ''-'' \<or> c = CHR ''+'' then cs else s) in
           case parse_nat b body of
             None \<Rightarrow> None
           | Some n \<Rightarrow>
               (let v = (if neg then - int n else int n) in if in_int64 v then Some v else None)))"

abbreviation go_Atoi :: "string \<Rightarrow> int option" where
  "go_Atoi s \<equiv> go_ParseInt s 10"

definition digit_char :: "nat \<Rightarrow> char" where
  "digit_char d = (if d < 10 then char_of (48 + d) else char_of (87 + d))"

fun format_nat :: "nat \<Rightarrow> nat \<Rightarrow> string" where
  "format_nat b n = (if n < b \<or> b < 2 then [digit_char n] else format_nat b (n div b) @ [digit_char (n mod b)])"

declare format_nat.simps [simp del]

definition go_FormatInt :: "int \<Rightarrow> nat \<Rightarrow> string" where
  "go_FormatInt x b = (if x < 0 then CHR ''-'' # format_nat b (nat (- x)) else format_nat b (nat x))"

abbreviation go_Itoa :: "int \<Rightarrow> string" where
  "go_Itoa x \<equiv> go_FormatInt x 10"

text \<open>The verb \<open>%q\<close>, for texts without a character that needs an escape.\<close>

definition go_Quote :: "string \<Rightarrow> string" where
  "go_Quote s = CHR 0x22 # s @ [CHR 0x22]"

section \<open>Errors and byte sources\<close>

text \<open>
  Error values: the sentinels of \<open>io\<close> and \<open>context\<close>, those of \<open>pkg/icap\<close>, of
  \<open>internal/server\<close> (with the prefix \<open>Srv\<close> where both packages use the name) and of \<open>internal/storage\<close>, with its
  struct \<open>ScenarioError\<close> (operation, scenario name, message; with and without a cause), errors made from a
  text (\<open>errors.New\<close>, \<open>fmt.Errorf\<close>) and \<open>%w\<close> wrapping.
\<close>

datatype go_error =
    EOF | ErrUnexpectedEOF | ErrShortBuffer | ErrClosedPipe | ErrShortWrite
  | ContextCanceled | ContextDeadlineExceeded
  | ErrInvalidRequestLine | ErrInvalidICAPVersion | ErrInvalidMethod | ErrMissingURI
  | ErrInvalidURIScheme | ErrMissingHost | ErrBodyTooLarge
  | ErrChunkHeaderTooLong | ErrTrailerLineTooLong | ErrTooManyTrailers | ErrTrailersTooLarge
  | ErrPreviewNotEnabled | ErrPreviewNotAtBoundary | ErrPreviewIEOF | ErrPreviewAlreadyContinued
  | ErrStreamPayloadConsumed | ErrStreamPayloadFactoryNil
  | ErrBodyStreamCloneUnavailable | ErrInvalidBodyStreamPlan | ErrStreamSourceSizeMismatch | ErrNoProgress
  | SrvErrInvalidRequestLine | SrvErrInvalidMethod | SrvErrInvalidVersion | SrvErrInvalidURIScheme
  | ErrMalformedHeaders | SrvErrBodyTooLarge | ErrLineTooLong | ErrHeadersTooLarge
  | ErrNoMatch | ErrEndpointTopologyChange | ErrBodyPatternLimitExceeded
  | ScenarioError string string string
  | ScenarioErrorCause string string string go_error
  | ErrNew string
  | ErrWrap string go_error
  | ErrJoin "go_error list"

text \<open>\<open>errors.Is\<close> walks the tree of wrapped errors.\<close>

fun go_Is :: "go_error \<Rightarrow> go_error \<Rightarrow> bool" where
  "go_Is (ErrWrap s e) t = (ErrWrap s e = t \<or> go_Is e t)"
| "go_Is (ScenarioErrorCause opn name msg e) t = (ScenarioErrorCause opn name msg e = t \<or> go_Is e t)"
| "go_Is (ErrJoin es) t = (ErrJoin es = t \<or> (\<exists>e \<in> set es. go_Is e t))"
| "go_Is e t = (e = t)"

text \<open>\<open>errors.Join\<close>: \<open>nil\<close> when all arguments are \<open>nil\<close>; also an error with several \<open>%w\<close>.\<close>

definition go_join :: "go_error option list \<Rightarrow> go_error option" where
  "go_join es = (let xs = List.map_filter id es in if xs = [] then None else Some (ErrJoin xs))"

text \<open>
  A byte source (a connection, a \<open>bufio.Reader\<close>, a \<open>bytes.Reader\<close>): the bytes it will deliver and
  the error it reports after the last one.  Operations that fill a given buffer
  (\<open>io.ReadFull\<close>, \<open>ReadByte\<close>, \<open>ReadString\<close>) do not depend on how the bytes are cut into reads.
\<close>

record source =
  pending :: string
  final_err :: go_error

definition bytes_reader :: "string \<Rightarrow> source" where
  "bytes_reader s = \<lparr>pending = s, final_err = EOF\<rparr>"

text \<open>\<open>io.ReadFull\<close>: the error is the source's own where nothing was read and \<open>ErrUnexpectedEOF\<close>
  in place of \<open>EOF\<close> in the middle.  The bytes read before the error are returned too.\<close>

definition go_ReadFull :: "source \<Rightarrow> nat \<Rightarrow> (string \<times> go_error option) \<times> source" where
  "go_ReadFull src n =
     (let got = take n (pending src); src' = src\<lparr>pending := drop n (pending src)\<rparr> in
      if n \<le> length (pending src) then ((got, None), src')
      else if got \<noteq> [] \<and> final_err src = EOF then ((got, Some ErrUnexpectedEOF), src')
      else ((got, Some (final_err src)), src'))"

definition go_ReadByte :: "source \<Rightarrow> (go_error + char) \<times> source" where
  "go_ReadByte src = (case pending src of
       [] \<Rightarrow> (Inl (final_err src), src)
     | c # cs \<Rightarrow> (Inr c, src\<lparr>pending := cs\<rparr>))"

text \<open>\<open>io.CopyN(io.Discard, src, n)\<close>.\<close>

definition go_Discard :: "source \<Rightarrow> nat \<Rightarrow> go_error option \<times> source" where
  "go_Discard src n =
     (if n \<le> length (pending src) then (None, src\<lparr>pending := drop n (pending src)\<rparr>)
      else (Some (final_err src), src\<lparr>pending := []\<rparr>))"

text \<open>\<open>bufio.Reader.ReadString('\n')\<close>: the line with its terminator; without one the error.\<close>

definition go_ReadLine :: "source \<Rightarrow> (go_error + string) \<times> source" where
  "go_ReadLine src = (case go_IndexByte (pending src) LF of
       None \<Rightarrow> (Inl (final_err src), src\<lparr>pending := []\<rparr>)
     | Some i \<Rightarrow> (Inr (take (Suc i) (pending src)), src\<lparr>pending := drop (Suc i) (pending src)\<rparr>))"


section \<open>Lemmas of the library model\<close>

subsection \<open>Bytes\<close>

lemma of_char_lower: "(of_char (lower_char c) :: nat) =
    (if 65 \<le> (of_char c :: nat) \<and> (of_char c :: nat) \<le> 90 then of_char c + 32 else of_char c)"
  by (auto simp: lower_char_def Let_def of_char_of)

lemma of_char_upper: "(of_char (upper_char c) :: nat) =
    (if 97 \<le> (of_char c :: nat) \<and> (of_char c :: nat) \<le> 122 then of_char c - 32 else of_char c)"
  by (auto simp: upper_char_def Let_def of_char_of)

lemma char_eq_iff_of_char: "c = d \<longleftrightarrow> (of_char c :: nat) = of_char d"
  by (simp add: of_char_eq_iff)

text \<open>Evaluation of a byte from its code.\<close>

lemmas char_eval = char_of_def bit_0

lemma lower_char_idem [simp]: "lower_char (lower_char c) = lower_char c"
  by (simp add: char_eq_iff_of_char of_char_lower)

lemma lower_upper_char [simp]: "lower_char (upper_char c) = lower_char c"
  by (auto simp: char_eq_iff_of_char of_char_lower of_char_upper)

lemma upper_lower_char [simp]: "upper_char (lower_char c) = upper_char c"
  by (auto simp: char_eq_iff_of_char of_char_lower of_char_upper)

lemma lower_char_dash [simp]: "lower_char c = CHR ''-'' \<longleftrightarrow> c = CHR ''-''"
  by (auto simp: char_eq_iff_of_char of_char_lower)

lemma upper_char_dash [simp]: "upper_char c = CHR ''-'' \<longleftrightarrow> c = CHR ''-''"
  by (auto simp: char_eq_iff_of_char of_char_upper)

lemma go_ToLower_idem [simp]: "go_ToLower (go_ToLower s) = go_ToLower s"
  by (simp add: go_ToLower_def)

lemma go_ToLower_Nil [simp]: "go_ToLower [] = []" "go_ToLower s = [] \<longleftrightarrow> s = []"
  by (simp_all add: go_ToLower_def)

subsection \<open>Searching, splitting and trimming\<close>

lemma go_IndexByte_None_iff [simp]: "go_IndexByte s c = None \<longleftrightarrow> c \<notin> set s"
  by (induction s) auto

lemma go_IndexByte_notin [simp]: "c \<notin> set s \<Longrightarrow> go_IndexByte s c = None"
  by simp

lemma go_IndexByte_append [simp]:
  "c \<notin> set x \<Longrightarrow> go_IndexByte (x @ c # ys) c = Some (length x)"
  by (induction x) auto

lemma go_IndexByte_SomeD:
  "go_IndexByte s c = Some i \<Longrightarrow> i < length s \<and> s ! i = c \<and> c \<notin> set (take i s)"
proof (induction s arbitrary: i)
  case Nil
  then show ?case by simp
next
  case (Cons x xs)
  then show ?case by (cases i) (auto split: if_splits)
qed

lemma go_Split_neq_Nil [simp]: "go_Split s c \<noteq> []"
  by (induction s) (auto split: list.split)

lemma go_Split_no_sep [simp]: "c \<notin> set x \<Longrightarrow> go_Split x c = [x]"
  by (induction x) auto

lemma go_Split_append [simp]: "c \<notin> set x \<Longrightarrow> go_Split (x @ c # ys) c = x # go_Split ys c"
  by (induction x) auto

lemma go_Split_parts_no_sep: "p \<in> set (go_Split s c) \<Longrightarrow> c \<notin> set p"
proof (induction s arbitrary: p)
  case Nil
  then show ?case by simp
next
  case (Cons x xs)
  then show ?case by (cases "go_Split xs c") (auto split: if_splits)
qed

lemma concat_go_Split: "concat (map (\<lambda>p. p @ [c]) (go_Split s c)) = s @ [c]"
proof (induction s)
  case (Cons x xs)
  then show ?case by (cases "go_Split xs c") auto
qed simp

lemma go_HasPrefix_append [simp]: "go_HasPrefix (p @ s) p"
  by (simp add: go_HasPrefix_def)

lemma go_HasPrefix_Cons [simp]:
  "go_HasPrefix (x # xs) (y # ys) \<longleftrightarrow> x = y \<and> go_HasPrefix xs ys"
  "go_HasPrefix s []" "\<not> go_HasPrefix [] (y # ys)"
  by (auto simp: go_HasPrefix_def)

lemma go_HasSuffix_append [simp]: "go_HasSuffix (s @ p) p"
  by (simp add: go_HasSuffix_def)

lemma go_HasSuffix_snoc: "go_HasSuffix (s @ [x]) (p @ [y]) \<longleftrightarrow> x = y \<and> go_HasSuffix s p"
  by (auto simp: go_HasSuffix_def)

lemma go_TrimSuffix_append [simp]: "go_TrimSuffix (s @ p) p = s"
  by (simp add: go_TrimSuffix_def)

lemma go_TrimSuffix_id: "set p \<inter> set s = {} \<Longrightarrow> p \<noteq> [] \<Longrightarrow> go_TrimSuffix s p = s"
  by (auto simp: go_TrimSuffix_def go_HasSuffix_def)
     (metis disjoint_iff in_set_dropD list.set_intros(1) neq_Nil_conv)

lemma go_TrimSpace_id:
  assumes "s \<noteq> [] \<Longrightarrow> \<not> is_space (hd s) \<and> \<not> is_space (last s)"
  shows "go_TrimSpace s = s"
proof (cases s)
  case (Cons x xs)
  with assms have "\<not> is_space x" "\<not> is_space (hd (rev s))"
    unfolding hd_rev by simp_all
  moreover from this Cons have "dropWhile is_space (rev s) = rev s"
    by (metis dropWhile_eq_self_iff)
  ultimately show ?thesis
    using Cons by (simp add: go_TrimSpace_def trim_right_def)
qed (simp add: go_TrimSpace_def trim_right_def)

lemma go_TrimSpace_no_space [simp]: "\<forall>c \<in> set s. \<not> is_space c \<Longrightarrow> go_TrimSpace s = s"
  by (rule go_TrimSpace_id) auto

lemma go_TrimSpace_space_front [simp]: "go_TrimSpace (CHR '' '' # s) = go_TrimSpace s"
  by (simp add: go_TrimSpace_def is_space_def)

lemma set_trim_right: "set (trim_right p s) \<subseteq> set s"
  unfolding trim_right_def using set_dropWhileD by fastforce

lemma set_go_TrimSpace: "set (go_TrimSpace s) \<subseteq> set s"
  unfolding go_TrimSpace_def using set_trim_right set_dropWhileD by fastforce

subsection \<open>Numbers\<close>

lemma wrap64_id [simp]: "in_int64 x \<Longrightarrow> wrap64 x = x"
  by (simp add: wrap64_def in_int64_def MinInt64_def MaxInt64_def)

lemma in_int64_nonneg: "0 \<le> x \<Longrightarrow> x \<le> MaxInt64 \<Longrightarrow> in_int64 x"
  by (simp add: in_int64_def MinInt64_def MaxInt64_def)

lemma wrap64_range: "in_int64 (wrap64 x)"
proof -
  have "0 \<le> (x + 2 ^ 63) mod 2 ^ 64" "(x + 2 ^ 63) mod 2 ^ 64 < (2 :: int) ^ 64"
    by simp_all
  then show ?thesis
    unfolding in_int64_def wrap64_def MinInt64_def MaxInt64_def by simp
qed

lemma digit_val_char [simp]: "d < 36 \<Longrightarrow> digit_val (digit_char d) = Some d"
  by (auto simp: digit_val_def digit_char_def Let_def of_char_of)

lemma digits_val_snoc:
  "digits_val b acc (s @ [c]) =
     (case digits_val b acc s of None \<Rightarrow> None
      | Some v \<Rightarrow> (case digit_val c of None \<Rightarrow> None
                   | Some d \<Rightarrow> if d < b then Some (v * b + d) else None))"
  by (induction s arbitrary: acc) (auto split: option.split)

lemma format_nat_neq_Nil [simp]: "format_nat b n \<noteq> []"
  by (subst format_nat.simps) simp

lemma digits_val_format_nat:
  "2 \<le> b \<Longrightarrow> b \<le> 36 \<Longrightarrow> digits_val b 0 (format_nat b n) = Some n"
proof (induction b n rule: format_nat.induct)
  case (1 b n)
  show ?case
  proof (cases "n < b")
    case True
    with 1 show ?thesis by (subst format_nat.simps) simp
  next
    case False
    with 1 have "digits_val b 0 (format_nat b (n div b)) = Some (n div b)" by simp
    moreover have "n mod b < 36"
      using 1 by (intro order.strict_trans2 [OF mod_less_divisor]) auto
    ultimately
    show ?thesis using False 1 by (subst format_nat.simps) (simp add: digits_val_snoc)
  qed
qed

lemma parse_format_nat [simp]:
  "2 \<le> b \<Longrightarrow> b \<le> 36 \<Longrightarrow> parse_nat b (format_nat b n) = Some n"
  by (simp add: parse_nat_def digits_val_format_nat)

lemma set_format_nat: "2 \<le> b \<Longrightarrow> set (format_nat b n) \<subseteq> digit_char ` {..<b}"
proof (induction b n rule: format_nat.induct)
  case (1 b n)
  then show ?case by (subst format_nat.simps) auto
qed

lemma digit_char_range:
  "d < 36 \<Longrightarrow> (48 \<le> (of_char (digit_char d) :: nat) \<and> (of_char (digit_char d) :: nat) \<le> 57) \<or>
     (97 \<le> (of_char (digit_char d) :: nat) \<and> (of_char (digit_char d) :: nat) \<le> 122)"
  by (auto simp: digit_char_def of_char_of)

lemma format_nat_chars:
  assumes "2 \<le> b" "b \<le> 36" "c \<in> set (format_nat b n)"
  shows "(48 \<le> (of_char c :: nat) \<and> (of_char c :: nat) \<le> 57) \<or>
         (97 \<le> (of_char c :: nat) \<and> (of_char c :: nat) \<le> 122)"
proof -
  from assms set_format_nat [of b n] obtain d where "c = digit_char d" "d < b" by auto
  with assms(2) digit_char_range [of d] show ?thesis by simp
qed

lemma format_nat_no_char:
  assumes "2 \<le> b" "b \<le> 36"
    and "\<not> (48 \<le> (of_char c :: nat) \<and> (of_char c :: nat) \<le> 57)"
    and "\<not> (97 \<le> (of_char c :: nat) \<and> (of_char c :: nat) \<le> 122)"
  shows "c \<notin> set (format_nat b n)"
  using assms format_nat_chars by blast

lemma format_nat_no_space: "2 \<le> b \<Longrightarrow> b \<le> 36 \<Longrightarrow> \<forall>c \<in> set (format_nat b n). \<not> is_space c"
proof
  fix c assume "2 \<le> b" "b \<le> 36" "c \<in> set (format_nat b n)"
  from format_nat_chars [OF this] show "\<not> is_space c" by (auto simp: is_space_def)
qed

lemma format_nat_hd_no_sign:
  assumes "2 \<le> b" "b \<le> 36"
  shows "hd (format_nat b n) \<noteq> CHR ''-'' \<and> hd (format_nat b n) \<noteq> CHR ''+''"
  using format_nat_chars [OF assms, of "hd (format_nat b n)" n] by auto

lemma length_format_nat: "2 \<le> b \<Longrightarrow> 0 < k \<Longrightarrow> n < b ^ k \<Longrightarrow> length (format_nat b n) \<le> k"
proof (induction b n arbitrary: k rule: format_nat.induct)
  case (1 b n)
  show ?case
  proof (cases "n < b")
    case True
    with 1 show ?thesis by (subst format_nat.simps) simp
  next
    case False
    with 1 obtain j where j: "k = Suc j" "0 < j" by (cases k; cases "k - 1") auto
    with 1 have "n div b < b ^ j" by (simp add: less_mult_imp_div_less mult.commute)
    with 1 False j have "length (format_nat b (n div b)) \<le> j" by simp
    with 1 False j show ?thesis by (subst format_nat.simps) simp
  qed
qed

text \<open>Text of a number in range reads back as the number.\<close>

lemma ParseInt_FormatInt [simp]:
  assumes "2 \<le> b" "b \<le> 36" "in_int64 x"
  shows "go_ParseInt (go_FormatInt x b) b = Some x"
proof -
  obtain c cs where ccs: "format_nat b (nat x) = c # cs"
    by (cases "format_nat b (nat x)") simp_all
  from format_nat_hd_no_sign [OF assms(1,2), of "nat x"] ccs
  have "c \<noteq> CHR ''-''" "c \<noteq> CHR ''+''" by auto
  then have "go_ParseInt (format_nat b (nat x)) b = Some x" if "0 \<le> x"
    using that assms ccs parse_format_nat [OF assms(1,2), of "nat x"]
    by (simp add: go_ParseInt_def)
  moreover have "go_ParseInt (CHR ''-'' # format_nat b (nat (- x))) b = Some x" if "x < 0"
    using that assms by (simp add: go_ParseInt_def)
  ultimately show ?thesis by (simp add: go_FormatInt_def)
qed

subsection \<open>Association lists\<close>

lemma map_of_AList_delete: "map_of (AList.delete k h) k' = (if k = k' then None else map_of h k')"
  by (simp add: AList.delete_conv')

lemma map_of_AList_update: "map_of (AList.update k v h) k' = (if k = k' then Some v else map_of h k')"
  by (simp add: AList.update_conv')

lemma fst_AList_delete: "fst ` set (AList.delete k h) = fst ` set h - {k}"
  by (auto simp: AList.delete_eq image_iff)

lemma length_AList_update:
  "length (AList.update k v h) = (if map_of h k = None then Suc (length h) else length h)"
  by (induction h) (auto split: if_splits)

lemma length_AList_delete:
  "distinct (map fst h) \<Longrightarrow>
     length (AList.delete k h) = (if map_of h k = None then length h else length h - 1)"
proof (induction h)
  case (Cons kv h)
  then show ?case
    by (cases h) (auto simp: map_of_eq_None_iff)
qed simp

lemmas alist_simps = map_of_AList_delete map_of_AList_update fst_AList_delete
  AList.distinct_update AList.distinct_delete dom_update

subsection \<open>Sources\<close>

lemma go_ReadLine_append [simp]:
  "LF \<notin> set l \<Longrightarrow> pending src = l @ LF # rest \<Longrightarrow>
     go_ReadLine src = (Inr (l @ [LF]), src\<lparr>pending := rest\<rparr>)"
  by (simp add: go_ReadLine_def)

lemma go_ReadFull_enough [simp]:
  "pending src = x @ rest \<Longrightarrow> length x = n \<Longrightarrow> go_ReadFull src n = ((x, None), src\<lparr>pending := rest\<rparr>)"
  by (simp add: go_ReadFull_def)

end
