(* ===== verification/Icap_Header.thy ===== *)
theory Icap_Header
  imports Go_Prelude
begin

text \<open>
  \<^verbatim>\<open>pkg/icap/header.go\<close>: ICAP headers, a map from canonical keys to value lists.

  A header is an association list with distinct keys (\<open>header_ok\<close>); a nil header reads like the empty
  one.  \<open>textCanonicalize_cached\<close> is the memoising function of the source, with the process-wide cache
  passed along; \<open>textCanonicalize\<close> is the computation inside it.  The locale \<open>ci_multimap\<close> states
  what the readers and writers of a header rely on, and \<open>hdr\<close> interprets it on the operations
  of the source.
\<close>

section \<open>Canonical keys\<close>

definition canonicalHeaderKeys :: "(string \<times> string) list" where
  "canonicalHeaderKeys =
    [(''host'', ''Host''),
     (''encapsulated'', ''Encapsulated''),
     (''istag'', ''ISTag''),
     (''service'', ''Service''),
     (''service-id'', ''Service-ID''),
     (''max-connections'', ''Max-Connections''),
     (''options-ttl'', ''Options-TTL''),
     (''date'', ''Date''),
     (''allow'', ''Allow''),
     (''preview'', ''Preview''),
     (''x-client-ip'', ''X-Client-IP''),
     (''x-authenticated-user'', ''X-Authenticated-User''),
     (''content-type'', ''Content-Type''),
     (''content-length'', ''Content-Length''),
     (''transfer-encoding'', ''Transfer-Encoding''),
     (''connection'', ''Connection''),
     (''cache-control'', ''Cache-Control''),
     (''etag'', ''ETag''),
     (''te'', ''TE''),
     (''methods'', ''Methods'')]"

text \<open>The byte loop: the flag says whether the next letter is capitalised.\<close>

fun canonicalize_bytes :: "bool \<Rightarrow> string \<Rightarrow> string" where
  "canonicalize_bytes upper [] = []"
| "canonicalize_bytes upper (c # cs) =
     (let c' = (if upper then upper_char c else lower_char c)
      in c' # canonicalize_bytes (c' = CHR ''-'') cs)"

definition textCanonicalize :: "string \<Rightarrow> string" where
  "textCanonicalize s = (if s = [] then [] else canonicalize_bytes True s)"

definition textCanonicalize_cached ::
  "(string \<times> string) list \<Rightarrow> string \<Rightarrow> string \<times> (string \<times> string) list" where
  "textCanonicalize_cached cache s =
     (if s = [] then ([], cache)
      else case map_of cache s of
             Some v \<Rightarrow> (v, cache)
           | None \<Rightarrow> (let canonical = canonicalize_bytes True s
                      in (canonical, AList.update s canonical cache)))"

definition CanonicalHeaderKey :: "string \<Rightarrow> string" where
  "CanonicalHeaderKey key =
     (case map_of canonicalHeaderKeys (go_ToLower key) of
        Some v \<Rightarrow> v
      | None \<Rightarrow> textCanonicalize key)"

section \<open>Operations\<close>

type_synonym header = "(string \<times> string list) list"

definition NewHeader :: header where
  "NewHeader = []"

definition Header_Values :: "header \<Rightarrow> string \<Rightarrow> string list" where
  "Header_Values h key = (case map_of h (CanonicalHeaderKey key) of None \<Rightarrow> [] | Some v \<Rightarrow> v)"

definition Header_Get :: "header \<Rightarrow> string \<Rightarrow> string option" where
  "Header_Get h key = (case Header_Values h key of [] \<Rightarrow> None | v # _ \<Rightarrow> Some v)"

definition Header_Set :: "header \<Rightarrow> string \<Rightarrow> string \<Rightarrow> header" where
  "Header_Set h key v = AList.update (CanonicalHeaderKey key) [v] h"

definition Header_Add :: "header \<Rightarrow> string \<Rightarrow> string \<Rightarrow> header" where
  "Header_Add h key v =
     (let k = CanonicalHeaderKey key;
          old = (case map_of h k of None \<Rightarrow> [] | Some vs \<Rightarrow> vs)
      in AList.update k (old @ [v]) h)"

definition Header_Del :: "header \<Rightarrow> string \<Rightarrow> header" where
  "Header_Del h key = AList.delete (CanonicalHeaderKey key) h"

definition Header_Clone :: "header option \<Rightarrow> header option" where
  "Header_Clone h = (case h of None \<Rightarrow> None | Some m \<Rightarrow> Some (map (\<lambda>(k, v). (k, [] @ v)) m))"

definition Header_Has :: "header \<Rightarrow> string \<Rightarrow> bool" where
  "Header_Has h key \<longleftrightarrow> Header_Get h key \<noteq> None"

definition Header_Len :: "header \<Rightarrow> nat" where
  "Header_Len h = length h"

definition sortedKeys :: "header \<Rightarrow> string list" where
  "sortedKeys h = sort (map fst h)"

text \<open>\<open>Walk\<close> threads the state of the callback and stops when it returns false.\<close>

fun walk_values :: "(string \<Rightarrow> string \<Rightarrow> 's \<Rightarrow> bool \<times> 's) \<Rightarrow> string \<Rightarrow> string list \<Rightarrow> 's \<Rightarrow> bool \<times> 's" where
  "walk_values fn k [] s = (True, s)"
| "walk_values fn k (v # vs) s =
     (case fn k v s of (go_on, s') \<Rightarrow> if go_on then walk_values fn k vs s' else (False, s'))"

fun walk_keys :: "(string \<Rightarrow> string \<Rightarrow> 's \<Rightarrow> bool \<times> 's) \<Rightarrow> header \<Rightarrow> string list \<Rightarrow> 's \<Rightarrow> 's" where
  "walk_keys fn h [] s = s"
| "walk_keys fn h (k # ks) s =
     (case walk_values fn k (case map_of h k of None \<Rightarrow> [] | Some vs \<Rightarrow> vs) s of
        (go_on, s') \<Rightarrow> if go_on then walk_keys fn h ks s' else s')"

definition Header_Walk :: "(string \<Rightarrow> string \<Rightarrow> 's \<Rightarrow> bool \<times> 's) \<Rightarrow> header \<Rightarrow> 's \<Rightarrow> 's" where
  "Header_Walk fn h s = walk_keys fn h (sortedKeys h) s"

definition Header_SetAll :: "header \<Rightarrow> (string \<times> string) list \<Rightarrow> header" where
  \<comment> \<open>the list is the order in which Go ranges over the argument\<close>
  "Header_SetAll h kvs = fold (\<lambda>(k, v) m. Header_Set m k v) kvs h"

definition Header_ToMap :: "header \<Rightarrow> (string \<times> string) list" where
  "Header_ToMap h = concat (map (\<lambda>(k, v). case v of [] \<Rightarrow> [] | x # _ \<Rightarrow> [(k, x)]) h)"

definition header_line :: "string \<Rightarrow> string \<Rightarrow> string" where
  "header_line k v = k @ '': '' @ v @ crlf"

definition Header_WriteToBuffer :: "header \<Rightarrow> string \<Rightarrow> string" where
  "Header_WriteToBuffer h buf =
     buf @ concat (map (\<lambda>k. concat (map (header_line k) (case map_of h k of None \<Rightarrow> [] | Some vs \<Rightarrow> vs)))
                       (sortedKeys h))"

definition Header_String :: "header \<Rightarrow> string" where
  "Header_String h = Header_WriteToBuffer h []"

section \<open>Canonicalisation is a case-insensitive normal form\<close>

lemma canonicalize_bytes_lower:
  "canonicalize_bytes u (go_ToLower s) = canonicalize_bytes u s"
  by (induction s arbitrary: u) (simp_all add: go_ToLower_def Let_def)

lemma ToLower_canonicalize_bytes [simp]:
  "go_ToLower (canonicalize_bytes u s) = go_ToLower s"
  by (induction u s rule: canonicalize_bytes.induct) (simp_all add: go_ToLower_def Let_def)

lemma textCanonicalize_lower: "textCanonicalize (go_ToLower s) = textCanonicalize s"
  by (simp add: textCanonicalize_def canonicalize_bytes_lower)

lemma ToLower_textCanonicalize [simp]: "go_ToLower (textCanonicalize s) = go_ToLower s"
  by (simp add: textCanonicalize_def)

lemma canonicalHeaderKeys_lower:
  "map_of canonicalHeaderKeys k = Some v \<Longrightarrow> go_ToLower v = k"
  by (auto simp: canonicalHeaderKeys_def go_ToLower_def lower_char_def char_eval split: if_splits)

lemma ToLower_CanonicalHeaderKey: "go_ToLower (CanonicalHeaderKey k) = go_ToLower k"
  by (auto simp: CanonicalHeaderKey_def canonicalHeaderKeys_lower split: option.split)

lemma CanonicalHeaderKey_cong:
  assumes "go_ToLower a = go_ToLower b"
  shows "CanonicalHeaderKey a = CanonicalHeaderKey b"
proof -
  have "textCanonicalize a = textCanonicalize b"
    by (metis assms textCanonicalize_lower)
  then show ?thesis by (simp add: CanonicalHeaderKey_def assms split: option.split)
qed

lemma CanonicalHeaderKey_idem [simp]:
  "CanonicalHeaderKey (CanonicalHeaderKey k) = CanonicalHeaderKey k"
  by (rule CanonicalHeaderKey_cong) (rule ToLower_CanonicalHeaderKey)

lemma CanonicalHeaderKey_eq_iff:
  "CanonicalHeaderKey a = CanonicalHeaderKey b \<longleftrightarrow> go_EqualFold a b"
  by (metis CanonicalHeaderKey_cong ToLower_CanonicalHeaderKey go_EqualFold_def)


section \<open>The memoised canonicalisation\<close>

definition canonicalCache_ok :: "(string \<times> string) list \<Rightarrow> bool" where
  "canonicalCache_ok cache \<longleftrightarrow> (\<forall>(s, v) \<in> set cache. v = textCanonicalize s)"

lemma canonicalCache_ok_map_of:
  "canonicalCache_ok cache \<Longrightarrow> map_of cache s = Some v \<Longrightarrow> v = textCanonicalize s"
  by (auto simp: canonicalCache_ok_def dest!: map_of_SomeD)

lemma canonicalCache_ok_update:
  assumes "canonicalCache_ok cache"
  shows "canonicalCache_ok (AList.update s (textCanonicalize s) cache)"
proof -
  have "set (AList.update s v cache) \<subseteq> insert (s, v) (set cache)" for v
    by (induction cache) auto
  with assms show ?thesis unfolding canonicalCache_ok_def by fastforce
qed

lemma textCanonicalize_cached_correct:
  assumes "canonicalCache_ok cache"
  shows "fst (textCanonicalize_cached cache s) = textCanonicalize s"
    and "canonicalCache_ok (snd (textCanonicalize_cached cache s))"
  using assms canonicalCache_ok_map_of [OF assms, of s] canonicalCache_ok_update [OF assms, of s]
  by (auto simp: textCanonicalize_cached_def textCanonicalize_def Let_def split: option.split)

section \<open>The contract of a header map\<close>

text \<open>
  What clients of a header rely on: keys equal up to case name the same values, writing replaces,
  adding appends, deleting removes, and no operation touches another key.
\<close>

locale ci_multimap =
  fixes fold_eq :: "'k \<Rightarrow> 'k \<Rightarrow> bool"
    and invar :: "'m \<Rightarrow> bool"
    and vals :: "'m \<Rightarrow> 'k \<Rightarrow> 'v list"
    and put :: "'m \<Rightarrow> 'k \<Rightarrow> 'v \<Rightarrow> 'm"
    and append1 :: "'m \<Rightarrow> 'k \<Rightarrow> 'v \<Rightarrow> 'm"
    and del :: "'m \<Rightarrow> 'k \<Rightarrow> 'm"
  assumes fold_eq_equiv: "equivp fold_eq"
    and vals_fold: "fold_eq a b \<Longrightarrow> vals m a = vals m b"
    and vals_put: "invar m \<Longrightarrow> vals (put m a v) b = (if fold_eq a b then [v] else vals m b)"
    and vals_append1:
      "invar m \<Longrightarrow> vals (append1 m a v) b = (if fold_eq a b then vals m b @ [v] else vals m b)"
    and vals_del: "invar m \<Longrightarrow> vals (del m a) b = (if fold_eq a b then [] else vals m b)"
    and invar_put: "invar m \<Longrightarrow> invar (put m a v)"
    and invar_append1: "invar m \<Longrightarrow> invar (append1 m a v)"
    and invar_del: "invar m \<Longrightarrow> invar (del m a)"
begin

lemmas specs = vals_put vals_append1 vals_del invar_put invar_append1 invar_del

lemma fold_eq_refl [simp]: "fold_eq a a"
  using fold_eq_equiv by (simp add: equivp_reflp)

lemma invar_fold_append1: "invar m \<Longrightarrow> invar (fold (\<lambda>v m. append1 m a v) vs m)"
  by (induction vs arbitrary: m) (auto simp: specs)

lemma vals_fold_append1:
  "invar m \<Longrightarrow> vals (fold (\<lambda>v m. append1 m a v) vs m) b =
     (if fold_eq a b then vals m b @ vs else vals m b)"
  by (induction vs arbitrary: m) (auto simp: specs)

lemma invar_fold_pairs: "invar m \<Longrightarrow> invar (fold (\<lambda>(k, v) m. append1 m k v) kvs m)"
  by (induction kvs arbitrary: m) (auto simp: specs)

lemma vals_fold_pairs:
  "invar m \<Longrightarrow> vals (fold (\<lambda>(k, v) m. append1 m k v) kvs m) b =
     vals m b @ map snd (filter (\<lambda>(k, v). fold_eq k b) kvs)"
  by (induction kvs arbitrary: m) (auto simp: specs)

lemma invar_fold_put: "invar m \<Longrightarrow> invar (fold (\<lambda>(k, v) m. put m k v) kvs m)"
  by (induction kvs arbitrary: m) (auto simp: specs)

text \<open>Writing a list of pairs: the last pair whose key folds to the key asked for wins.\<close>

lemma vals_fold_put:
  "invar m \<Longrightarrow> vals (fold (\<lambda>(k, v) m. put m k v) kvs m) b =
     (case find (\<lambda>(k, v). fold_eq k b) (rev kvs) of None \<Rightarrow> vals m b | Some (k, v) \<Rightarrow> [v])"
proof (induction kvs rule: rev_induct)
  case (snoc kv kvs)
  then show ?case
    by (cases kv) (auto simp: specs invar_fold_put)
qed simp

end

definition header_ok :: "header \<Rightarrow> bool" where
  "header_ok h \<longleftrightarrow> distinct (map fst h) \<and> (\<forall>k \<in> set (map fst h). CanonicalHeaderKey k = k)"

lemma header_ok_update:
  "header_ok h \<Longrightarrow> CanonicalHeaderKey k = k \<Longrightarrow> header_ok (AList.update k vs h)"
  by (auto simp: header_ok_def alist_simps)

lemma header_ok_delete: "header_ok h \<Longrightarrow> header_ok (AList.delete k h)"
  by (auto simp: header_ok_def alist_simps)

interpretation hdr: ci_multimap go_EqualFold header_ok Header_Values Header_Set Header_Add Header_Del
proof unfold_locales
  show "equivp go_EqualFold"
    by (rule equivpI) (auto simp: go_EqualFold_def reflp_def symp_def transp_def)
qed (auto simp: Header_Values_def Header_Set_def Header_Add_def Header_Del_def Let_def
       CanonicalHeaderKey_eq_iff [symmetric] alist_simps
       header_ok_update header_ok_delete)

lemma header_ok_New [simp]: "header_ok NewHeader"
  by (simp add: header_ok_def NewHeader_def)


section \<open>Iteration and the wire form\<close>

definition header_entries :: "header \<Rightarrow> (string \<times> string) list" where
  "header_entries h =
     concat (map (\<lambda>k. map (Pair k) (case map_of h k of None \<Rightarrow> [] | Some vs \<Rightarrow> vs)) (sortedKeys h))"

lemma walk_values_total:
  "walk_values (\<lambda>k v s. (True, f k v s)) k vs s = (True, fold (f k) vs s)"
  by (induction vs arbitrary: s) auto

lemma walk_keys_total:
  "walk_keys (\<lambda>k v s. (True, f k v s)) h ks s =
     fold (\<lambda>(k, v). f k v)
       (concat (map (\<lambda>k. map (Pair k) (case map_of h k of None \<Rightarrow> [] | Some vs \<Rightarrow> vs)) ks)) s"
  by (induction ks arbitrary: s) (auto simp: walk_values_total fold_map comp_def)

lemma Header_Walk_total:
  "Header_Walk (\<lambda>k v s. (True, f k v s)) h s = fold (\<lambda>(k, v). f k v) (header_entries h) s"
  by (simp add: Header_Walk_def header_entries_def walk_keys_total)

lemma concat_header_lines:
  "concat (map (\<lambda>(k, v). header_line k v) (concat (map (\<lambda>k. map (Pair k) (f k)) ks))) =
     concat (map (\<lambda>k. concat (map (header_line k) (f k))) ks)"
  by (induction ks) (simp_all add: comp_def)

lemma Header_WriteToBuffer_entries:
  "Header_WriteToBuffer h buf = buf @ concat (map (\<lambda>(k, v). header_line k v) (header_entries h))"
  by (simp only: Header_WriteToBuffer_def header_entries_def concat_header_lines)

lemma Header_WriteToBuffer_String: "Header_WriteToBuffer h buf = buf @ Header_String h"
  by (simp add: Header_String_def Header_WriteToBuffer_entries)

lemma concat_map_single:
  "distinct ks \<Longrightarrow> concat (map (\<lambda>k. if k = c then f k else []) ks) = (if c \<in> set ks then f c else [])"
  by (induction ks) auto

lemma filter_header_entries:
  assumes "header_ok h"
  shows "map snd (filter (\<lambda>(k, v). go_EqualFold k b) (header_entries h)) = Header_Values h b"
proof -
  let ?f = "\<lambda>k. case map_of h k of None \<Rightarrow> [] | Some vs \<Rightarrow> vs" and ?c = "CanonicalHeaderKey b"
  have key: "go_EqualFold k b \<longleftrightarrow> k = ?c" if "k \<in> set (sortedKeys h)" for k
    using assms that CanonicalHeaderKey_eq_iff [of k b] by (auto simp: header_ok_def sortedKeys_def)
  have "map snd (filter (\<lambda>(k, v). go_EqualFold k b) (header_entries h)) =
      concat (map (\<lambda>k. if go_EqualFold k b then ?f k else []) (sortedKeys h))"
    unfolding header_entries_def filter_concat map_concat
    by (simp add: comp_def filter_map case_prod_beta cong: map_cong) (rule arg_cong [where f = concat], auto)
  also have "\<dots> = concat (map (\<lambda>k. if k = ?c then ?f k else []) (sortedKeys h))"
    by (rule arg_cong [where f = concat], rule map_cong) (use key in auto)
  also have "\<dots> = (if ?c \<in> set (sortedKeys h) then ?f ?c else [])"
    using assms by (intro concat_map_single) (simp add: header_ok_def sortedKeys_def)
  also have "\<dots> = Header_Values h b"
    by (auto simp: Header_Values_def sortedKeys_def map_of_eq_None_iff split: option.split)
       (metis map_of_SomeD image_eqI fst_conv)
  finally show ?thesis .
qed

text \<open>Adding the entries of a header one by one gives a header with the same values.\<close>

lemma readd_entries:
  assumes "header_ok h"
  shows "header_ok (fold (\<lambda>(k, v) m. Header_Add m k v) (header_entries h) NewHeader)"
    and "Header_Values (fold (\<lambda>(k, v) m. Header_Add m k v) (header_entries h) NewHeader) b = Header_Values h b"
  using hdr.invar_fold_pairs [OF header_ok_New] hdr.vals_fold_pairs [OF header_ok_New] filter_header_entries [OF assms]
  by (auto simp: Header_Values_def NewHeader_def)

lemma length_header_line [simp]: "length (header_line k v) = length k + 2 + length v + 2"
  by (simp add: header_line_def crlf_def)

lemma fold_size_entries:
  "fold (\<lambda>(k, v) n. n + (length k + 2 + length v + 2)) es n =
     n + length (concat (map (\<lambda>(k, v). header_line k v) es))"
  by (induction es arbitrary: n) auto

text \<open>Summing the sizes seen by \<open>Walk\<close> gives the number of bytes \<open>WriteToBuffer\<close> appends.\<close>

lemma Header_Walk_size:
  "Header_Walk (\<lambda>k v n. (True, n + (length k + 2 + length v + 2))) h n = n + length (Header_String h)"
  by (simp only: Header_Walk_total fold_size_entries Header_String_def Header_WriteToBuffer_entries append_Nil)

lemma sortedKeys_perm:
  assumes "header_ok h" "header_ok h'" "set h = set h'"
  shows "sortedKeys h = sortedKeys h'"
proof -
  have "set (map fst h) = set (map fst h')" using assms(3) by simp
  with assms(1,2) show ?thesis
    unfolding sortedKeys_def header_ok_def
    by (metis sorted_list_of_set_sort_remdups distinct_remdups_id)
qed

lemma header_entries_perm:
  assumes "header_ok h" "header_ok h'" "set h = set h'"
  shows "header_entries h = header_entries h'"
proof -
  have "map_of h = map_of h'"
    using assms map_of_inject_set unfolding header_ok_def by blast
  with sortedKeys_perm [OF assms] show ?thesis by (simp add: header_entries_def)
qed


section \<open>Properties\<close>

text \<open>
  canonicalisation is exactly the normal form of case-insensitive comparison: two keys have the
  same canonical form if and only if they are equal up to case, the canonical form is a fixed point, and
  the memoising cache never changes the result.
\<close>

theorem canonical_key_normal_form:
  assumes "canonicalCache_ok cache"
  shows "(CanonicalHeaderKey a = CanonicalHeaderKey b \<longleftrightarrow> go_EqualFold a b) \<and>
     CanonicalHeaderKey (CanonicalHeaderKey a) = CanonicalHeaderKey a \<and>
     fst (textCanonicalize_cached cache a) = textCanonicalize a \<and>
     canonicalCache_ok (snd (textCanonicalize_cached cache a))"
  using assms by (simp add: CanonicalHeaderKey_eq_iff textCanonicalize_cached_correct)

theorem canonical_key_normal_form_witness:
  "canonicalCache_ok [(''x-scan-id'', ''X-Scan-Id'')] \<and>
   CanonicalHeaderKey ''iSTAG'' = CanonicalHeaderKey ''istag'' \<and>
   fst (textCanonicalize_cached [(''x-scan-id'', ''X-Scan-Id'')] ''x-scan-id'') = ''X-Scan-Id''"
proof -
  have h: "canonicalCache_ok [(''x-scan-id'', ''X-Scan-Id'')]" by code_simp
  have "go_EqualFold ''iSTAG'' ''istag''" "textCanonicalize ''x-scan-id'' = ''X-Scan-Id''"
    by code_simp+
  with h canonical_key_normal_form [OF h] show ?thesis by simp
qed

text \<open>
  A header behaves as a case-insensitive multimap: \<open>Get\<close> after \<open>Set\<close>, \<open>Values\<close>
  after \<open>Add\<close> and \<open>Del\<close> see the change under every spelling of the key and nothing under
  any other key, and every operation keeps the representation invariant (one entry per canonical key).
\<close>

theorem header_map_laws:
  assumes "header_ok h"
  shows "Header_Get (Header_Set h a v) b = (if go_EqualFold a b then Some v else Header_Get h b) \<and>
     Header_Values (Header_Add h a v) b =
       (if go_EqualFold a b then Header_Values h b @ [v] else Header_Values h b) \<and>
     Header_Has (Header_Del h a) b = (\<not> go_EqualFold a b \<and> Header_Has h b) \<and>
     header_ok (Header_Set h a v) \<and> header_ok (Header_Add h a v) \<and> header_ok (Header_Del h a)"
  using assms by (simp add: Header_Get_def Header_Has_def hdr.specs)

theorem header_map_laws_witness:
  "header_ok [(''ISTag'', [''t1''])] \<and>
   Header_Get (Header_Set [(''ISTag'', [''t1''])] ''istag'' ''t2'') ''IsTaG'' = Some ''t2'' \<and>
   Header_Values (Header_Add [(''ISTag'', [''t1''])] ''istag'' ''t2'') ''ISTAG'' = [''t1'', ''t2'']"
proof -
  have h: "header_ok [(''ISTag'', [''t1''])]" by code_simp
  have e: "go_EqualFold ''istag'' ''IsTaG''" "go_EqualFold ''istag'' ''ISTAG''"
    "Header_Values [(''ISTag'', [''t1''])] ''ISTAG'' = [''t1'']" by code_simp+
  show ?thesis
    using h e header_map_laws [OF h, of "''istag''" "''t2''" "''IsTaG''"]
      header_map_laws [OF h, of "''istag''" "''t2''" "''ISTAG''"] by simp
qed

text \<open>
  The bytes a header contributes to a message do not depend on the order in which Go ranges over
  the map, and their number is the sum that \<open>calculateHTTPMessageSize\<close> accumulates with \<open>Walk\<close>.
\<close>

lemma header_wire_form:
  assumes "header_ok h" "header_ok h'" "set h = set h'"
  shows "Header_String h = Header_String h' \<and>
     Header_Walk (\<lambda>k v n. (True, n + (length k + 2 + length v + 2))) h n = n + length (Header_String h')"
  using header_entries_perm [OF assms]
  by (simp only: Header_Walk_size Header_String_def Header_WriteToBuffer_entries)

end
