(* ===== verification/Go_IO.thy ===== *)
theory Go_IO
  imports Go_Prelude
begin

text \<open>
  The contracts of \<open>io.Writer\<close> and \<open>io.Reader\<close> as locales.

  A reader is a function from its state and a buffer size to the bytes read, the error and the new
  state; \<open>delivers r s\<close> says that \<open>r\<close> will hand out exactly \<open>s\<close>, in pieces of its own
  choice, and then report \<open>EOF\<close>.  \<open>io.ReadAll\<close> over any reader is a partial function: \<^const>\<open>None\<close> is
  not returning, and the locale proves that it returns.

  The writer contract serves the components that write to a connection or to a buffer.  A writer is a function on its own state; what reached it is its \<open>contents\<close>.
  A successful \<open>Write\<close> delivers all of its argument, a failed one a prefix of it and reports how long
  it was.  \<open>bytes.Buffer\<close> is the first instance.
\<close>

type_synonym 'w writer = "'w \<Rightarrow> string \<Rightarrow> (nat \<times> go_error option) \<times> 'w"

locale io_writer =
  fixes wr :: "'w writer"
    and contents :: "'w \<Rightarrow> string"
  assumes write_contents:
      "wr w p = ((n, e), w') \<Longrightarrow> n \<le> length p \<and> contents w' = contents w @ take n p"
    and write_ok: "wr w p = ((n, None), w') \<Longrightarrow> n = length p"
begin

lemma write_ok_contents: "wr w p = ((n, None), w') \<Longrightarrow> contents w' = contents w @ p"
  using write_contents write_ok by fastforce

text \<open>Writing a list of slices one after the other, stopping at the first error.\<close>

fun write_all :: "'w \<Rightarrow> string list \<Rightarrow> go_error option \<times> 'w" where
  "write_all w [] = (None, w)"
| "write_all w (p # ps) =
     (case wr w p of ((n, None), w') \<Rightarrow> write_all w' ps | ((n, Some e), w') \<Rightarrow> (Some e, w'))"

lemma write_all_contents:
  "write_all w ps = (e, w') \<Longrightarrow>
     \<exists>k. contents w' = contents w @ take k (concat ps) \<and> (e = None \<longrightarrow> contents w' = contents w @ concat ps)"
proof (induction ps arbitrary: w)
  case (Cons p ps)
  obtain n e1 w1 where w1: "wr w p = ((n, e1), w1)" by (metis prod.exhaust)
  show ?case
  proof (cases e1)
    case None
    with w1 Cons.prems have "write_all w1 ps = (e, w')" by simp
    from Cons.IH [OF this] obtain k where "contents w' = contents w1 @ take k (concat ps)"
      "e = None \<longrightarrow> contents w' = contents w1 @ concat ps" by blast
    with write_ok_contents [OF w1 [unfolded None]] show ?thesis
      by (intro exI [of _ "length p + k"]) auto
  next
    case (Some e2)
    with w1 Cons.prems write_contents [OF w1] show ?thesis
      by (intro exI [of _ n]) auto
  qed
qed (simp add: exI [of _ 0])

end

definition buffer_write :: "string writer" where
  "buffer_write buf p = ((length p, None), buf @ p)"

interpretation buffer: io_writer buffer_write "\<lambda>buf. buf"
  by unfold_locales (auto simp: buffer_write_def)


section \<open>Readers\<close>

type_synonym 'r reader = "'r \<Rightarrow> nat \<Rightarrow> (string \<times> go_error option) \<times> 'r"

text \<open>\<open>io.ReadAll\<close>; the buffer of the \<open>i\<close>-th call has \<open>Suc (sz i)\<close> bytes.\<close>

partial_function (option) io_ReadAll ::
  "'r reader \<Rightarrow> (nat \<Rightarrow> nat) \<Rightarrow> 'r \<Rightarrow> string \<Rightarrow> ((string \<times> go_error option) \<times> 'r) option" where
  "io_ReadAll rd sz r acc =
     (case rd r (Suc (sz 0)) of
        ((got, Some e), r') \<Rightarrow> Some ((acc @ got, if e = EOF then None else Some e), r')
      | ((got, None), r') \<Rightarrow> io_ReadAll rd (\<lambda>i. sz (Suc i)) r' (acc @ got))"

declare io_ReadAll.simps [code]

text \<open>\<open>io.LimitReader\<close>: the state is the reader below and the number of bytes still allowed.\<close>

definition limited_read :: "'r reader \<Rightarrow> ('r \<times> int) reader" where
  "limited_read rd = (\<lambda>(r, N) k.
     if N \<le> 0 then (([], Some EOF), (r, N))
     else (case rd r (min k (nat N)) of ((got, e), r') \<Rightarrow> ((got, e), (r', N - int (length got)))))"

text \<open>
  The contract: \<open>delivers r s\<close>, the reader will hand out \<open>s\<close>; \<open>at_end r\<close>, what holds once it has
  reported \<open>EOF\<close>.
\<close>

locale io_reader =
  fixes rd :: "'r reader"
    and delivers :: "'r \<Rightarrow> string \<Rightarrow> bool"
    and at_end :: "'r \<Rightarrow> bool"
  assumes read_data:
      "delivers r s \<Longrightarrow> rd r (Suc k) = ((got, None), r') \<Longrightarrow>
         got \<noteq> [] \<and> length got \<le> Suc k \<and> (\<exists>s'. s = got @ s' \<and> delivers r' s')"
    and read_end:
      "delivers r s \<Longrightarrow> rd r (Suc k) = ((got, Some e), r') \<Longrightarrow>
         e = EOF \<and> got = s \<and> length got \<le> Suc k \<and> delivers r' [] \<and> at_end r'"
begin

lemma ReadAll_delivers:
  "delivers r s \<Longrightarrow>
     \<exists>r'. io_ReadAll rd sz r acc = Some ((acc @ s, None), r') \<and> delivers r' [] \<and> at_end r'"
proof (induction "length s" arbitrary: r s sz acc rule: less_induct)
  case less
  obtain got e r1 where step: "rd r (Suc (sz 0)) = ((got, e), r1)" by (metis prod.exhaust)
  show ?case
  proof (cases e)
    case None
    then obtain s' where s': "got \<noteq> []" "s = got @ s'" "delivers r1 s'"
      using read_data less.prems step by blast
    with less.hyps [of s' r1 "\<lambda>i. sz (Suc i)" "acc @ got"] show ?thesis
      using step None by (subst io_ReadAll.simps) auto
  next
    case (Some x)
    with read_end [OF less.prems] step show ?thesis
      by (subst io_ReadAll.simps) auto
  qed
qed

text \<open>
  A limit of \<open>N\<close> bytes: the reader hands out the first \<open>N\<close> bytes and keeps the others.  The counter
  left at the end is \<open>c\<close>; if it is positive, the reader below has reported its own end.
\<close>

definition delivers_limited :: "string \<Rightarrow> int \<Rightarrow> 'r \<times> int \<Rightarrow> string \<Rightarrow> bool" where
  "delivers_limited u c = (\<lambda>(r, N) s.
     \<exists>t. delivers r t \<and> s = take (nat N) t \<and> u = drop (nat N) t \<and> c = N - int (length s))"

definition limited_end :: "string \<Rightarrow> int \<Rightarrow> 'r \<times> int \<Rightarrow> bool" where
  "limited_end u c = (\<lambda>(r, N). delivers r u \<and> (0 < c \<longrightarrow> at_end r))"

lemma limited_reader: "io_reader (limited_read rd) (delivers_limited u c) (limited_end u c)"
proof (unfold_locales, goal_cases)
  case (1 rN s k got rN')
  obtain r N where rN: "rN = (r, N)" by force
  obtain t where t: "delivers r t" "s = take (nat N) t" "u = drop (nat N) t" "c = N - int (length s)"
    using 1(1) by (auto simp: rN delivers_limited_def)
  have pos: "0 < N" using 1(2) by (auto simp: rN limited_read_def split: if_splits)
  then have "0 < min (Suc k) (nat N)" by simp
  then obtain j where j: "min (Suc k) (nat N) = Suc j" using gr0_implies_Suc by blast
  obtain r' where r': "rd r (Suc j) = ((got, None), r')" "rN' = (r', N - int (length got))"
    using 1(2) pos j by (auto simp: rN limited_read_def split: prod.splits)
  from read_data [OF t(1) r'(1)] obtain t' where t': "got \<noteq> []" "length got \<le> Suc j" "t = got @ t'" "delivers r' t'"
    by blast
  have s: "s = got @ take (nat (N - int (length got))) t'" and "u = drop (nat (N - int (length got))) t'"
    using t t' j pos by (simp_all add: nat_diff_distrib)
  moreover have "c = N - int (length got) - int (length (take (nat (N - int (length got))) t'))"
    using t(4) s by simp
  ultimately show ?case using r' j t' by (auto simp: delivers_limited_def)
next
  case (2 rN s k got e rN')
  obtain r N where rN: "rN = (r, N)" by force
  obtain t where t: "delivers r t" "s = take (nat N) t" "u = drop (nat N) t" "c = N - int (length s)"
    using 2(1) by (auto simp: rN delivers_limited_def)
  show ?case
  proof (cases "N \<le> 0")
    case True
    with 2 t show ?thesis by (auto simp: rN limited_read_def delivers_limited_def limited_end_def)
  next
    case False
    then have "0 < min (Suc k) (nat N)" by simp
    then obtain j where j: "min (Suc k) (nat N) = Suc j" using gr0_implies_Suc by blast
    obtain r' where r': "rd r (Suc j) = ((got, Some e), r')" "rN' = (r', N - int (length got))"
      using 2(2) False j by (auto simp: rN limited_read_def split: prod.splits)
    from read_end [OF t(1) r'(1)] t j r' show ?thesis
      by (auto simp: delivers_limited_def limited_end_def intro!: exI [of _ "[]"])
  qed
qed

lemma ReadAll_limited:
  assumes "delivers r s"
  shows "\<exists>r' N'. io_ReadAll (limited_read rd) sz (r, N) [] = Some ((take (nat N) s, None), (r', N')) \<and>
     delivers r' (drop (nat N) s) \<and> (int (length s) < N \<longrightarrow> at_end r')"
proof -
  let ?c = "N - int (length (take (nat N) s))"
  have "delivers_limited (drop (nat N) s) ?c (r, N) (take (nat N) s)"
    using assms by (auto simp: delivers_limited_def)
  from io_reader.ReadAll_delivers [OF limited_reader this, of sz "[]"] show ?thesis
    by (fastforce simp: limited_end_def)
qed

end

text \<open>\<open>bytes.Reader\<close>.\<close>

definition bytes_read :: "string reader" where
  "bytes_read s k = (if s = [] then (([], Some EOF), []) else ((take k s, None), drop k s))"

interpretation bytes: io_reader bytes_read "(=)" "\<lambda>s. s = []"
  by unfold_locales (auto simp: bytes_read_def split: if_splits)

text \<open>
  \<open>io.MultiReader(bytes.NewReader(p), r)\<close>, nested as often as the code does it: the buffered bytes
  first, then the reader below; once that one has reported \<open>EOF\<close> it is dropped.
\<close>

datatype 'r multi_reader = Single 'r | Multi string "'r multi_reader" bool

primrec multi_read :: "'r reader \<Rightarrow> 'r multi_reader \<Rightarrow> nat \<Rightarrow> (string \<times> go_error option) \<times> 'r multi_reader" where
  "multi_read rd (Single r) k = (case rd r k of (res, r') \<Rightarrow> (res, Single r'))"
| "multi_read rd (Multi p m done) k =
     (if p \<noteq> [] then ((take k p, None), Multi (drop k p) m done)
      else if done then (([], Some EOF), Multi [] m True)
      else (case multi_read rd m k of ((got, e), m') \<Rightarrow> ((got, e), Multi [] m' (e = Some EOF))))"

primrec multi_base :: "'r multi_reader \<Rightarrow> 'r" where
  "multi_base (Single r) = r"
| "multi_base (Multi p m done) = multi_base m"

context io_reader
begin

primrec multi_end :: "'r multi_reader \<Rightarrow> bool" where
  "multi_end (Single r) = at_end r"
| "multi_end (Multi p m done) = multi_end m"

primrec delivers_multi :: "'r multi_reader \<Rightarrow> string \<Rightarrow> bool" where
  "delivers_multi (Single r) s = delivers r s"
| "delivers_multi (Multi p m done) s =
     (\<exists>t. s = p @ t \<and> delivers_multi m t \<and> (done \<longrightarrow> t = [] \<and> p = [] \<and> multi_end m))"

lemma multi_end_base: "multi_end m \<longleftrightarrow> at_end (multi_base m)"
  by (induction m) auto

lemma multi_read_data:
  "delivers_multi m s \<Longrightarrow> multi_read rd m (Suc k) = ((got, None), m') \<Longrightarrow>
     got \<noteq> [] \<and> length got \<le> Suc k \<and> (\<exists>s'. s = got @ s' \<and> delivers_multi m' s')"
proof (induction m arbitrary: s m')
  case (Single r)
  then show ?case using read_data by (auto split: prod.splits)
next
  case (Multi p m d)
  show ?case
  proof (cases "p = []")
    case True
    with Multi.prems obtain m1 where m1: "\<not> d" "delivers_multi m s"
      "multi_read rd m (Suc k) = ((got, None), m1)" "m' = Multi [] m1 False"
      by (auto split: prod.splits if_splits)
    with Multi.IH show ?thesis by fastforce
  next
    case False
    with Multi.prems obtain t where t: "s = p @ t" "delivers_multi m t" "\<not> d" "got = take (Suc k) p"
      "m' = Multi (drop (Suc k) p) m d" by auto
    moreover have "s = take (Suc k) p @ drop (Suc k) p @ t" using t by simp
    ultimately show ?thesis using False by (auto intro!: exI [of _ "drop (Suc k) p @ t"] simp del: append_assoc)
  qed
qed

lemma multi_read_end:
  "delivers_multi m s \<Longrightarrow> multi_read rd m (Suc k) = ((got, Some e), m') \<Longrightarrow>
     e = EOF \<and> got = s \<and> length got \<le> Suc k \<and> delivers_multi m' [] \<and> multi_end m'"
proof (induction m arbitrary: s m')
  case (Single r)
  then show ?case using read_end by (auto split: prod.splits)
next
  case (Multi p m d)
  then have p: "p = []" by (auto split: if_splits)
  show ?case
  proof (cases d)
    case True
    with Multi.prems p show ?thesis by auto
  next
    case False
    with Multi.prems p Multi.IH [of s] show ?thesis by (auto split: prod.splits)
  qed
qed

lemma multi_reader: "io_reader (multi_read rd) delivers_multi multi_end"
  using multi_read_data multi_read_end by unfold_locales blast+

end

end
