(* ===== verification/Chunked.thy ===== *)
theory Chunked
  imports Go_IO
begin

text \<open>
  \<^verbatim>\<open>pkg/icap/encoding.go\<close>: the chunked transfer encoding, reader and writer.

  \<open>chunked_reader\<close> is the struct \<open>ChunkedReader\<close> with its underlying byte source; the bytes are
  taken with \<open>io.ReadFull\<close> and \<open>ReadByte\<close> only, so that how the connection cuts them does not
  matter.  \<open>Chunked_Read\<close> is \<open>Read\<close> for a buffer of the given size and \<open>ReadAll\<close> is
  \<open>io.ReadAll\<close> over it, for arbitrary buffer sizes.  The writer is generic in the \<open>io.Writer\<close> below it.
\<close>

section \<open>The reader\<close>

definition MaxChunkSize :: int where "MaxChunkSize = 2 ^ 20"
definition MaxChunkHeaderLength :: nat where "MaxChunkHeaderLength = 4096"
definition MaxTrailerLineLength :: nat where "MaxTrailerLineLength = 8192"
definition MaxTrailerCount :: nat where "MaxTrailerCount = 100"
definition MaxTrailerBytes :: nat where "MaxTrailerBytes = 32 * 1024"

record chunked_reader =
  cr_err :: "go_error option"
  cr_src :: source
  cr_n :: nat
  finished :: bool
  previewEnabled :: bool
  previewBoundary :: bool
  previewIEOF :: bool
  previewContinued :: bool

definition NewChunkedReader :: "source \<Rightarrow> chunked_reader" where
  "NewChunkedReader r =
     \<lparr>cr_err = None, cr_src = r, cr_n = 0, finished = False, previewEnabled = False,
      previewBoundary = False, previewIEOF = False, previewContinued = False\<rparr>"

definition EnablePreview :: "chunked_reader \<Rightarrow> chunked_reader" where
  "EnablePreview cr = cr\<lparr>previewEnabled := True\<rparr>"

definition PreviewBoundary :: "chunked_reader \<Rightarrow> bool \<times> bool" where
  "PreviewBoundary cr = (previewBoundary cr, previewIEOF cr)"

definition ContinueAfterPreview :: "chunked_reader \<Rightarrow> go_error option \<times> chunked_reader" where
  "ContinueAfterPreview cr =
     (if \<not> previewEnabled cr then (Some ErrPreviewNotEnabled, cr)
      else if previewContinued cr then (Some ErrPreviewAlreadyContinued, cr)
      else if \<not> previewBoundary cr then (Some ErrPreviewNotAtBoundary, cr)
      else if previewIEOF cr then (Some ErrPreviewIEOF, cr)
      else (None, cr\<lparr>previewBoundary := False, previewContinued := True\<rparr>))"

definition ParseChunkSize :: "string \<Rightarrow> go_error + int" where
  "ParseChunkSize s0 =
     (let s = go_TrimSpace s0 in
      if s = [] then Inl (ErrNew ''empty chunk size'')
      else
        (let s' = (case go_IndexByte s (CHR '';'') of Some idx \<Rightarrow> take idx s | None \<Rightarrow> s) in
         case go_ParseInt s' 16 of
           None \<Rightarrow> Inl (ErrNew (''invalid chunk size: '' @ s'))
         | Some n \<Rightarrow>
             if n < 0 then Inl (ErrNew ''invalid chunk size: negative value'') else Inr n))"

definition FormatChunkSize :: "int \<Rightarrow> string" where
  "FormatChunkSize n = go_FormatInt n 16"

record parsedChunkHeader =
  extensions :: "string list"
  hdr_size :: int

definition hasExtension :: "parsedChunkHeader \<Rightarrow> string \<Rightarrow> bool" where
  "hasExtension h name \<longleftrightarrow>
     (\<exists>extension \<in> set (extensions h).
        go_EqualFold (go_TrimSpace (fst (go_Cut (go_TrimSpace extension) (CHR ''='')))) name)"

text \<open>The byte loop of \<open>readBoundedLine\<close>; the first argument is the room left in the line.\<close>

fun line_loop :: "nat \<Rightarrow> string \<Rightarrow> go_error \<Rightarrow> source \<Rightarrow> (go_error + string) \<times> source" where
  "line_loop 0 line limitErr src = (Inl limitErr, src)"
| "line_loop (Suc room) line limitErr src =
     (case go_ReadByte src of
        (Inl e, src') \<Rightarrow> (Inl e, src')
      | (Inr b, src') \<Rightarrow>
          if b = LF then (Inr (line @ [b]), src') else line_loop room (line @ [b]) limitErr src')"

definition readBoundedLine :: "nat \<Rightarrow> go_error \<Rightarrow> source \<Rightarrow> (go_error + string) \<times> source" where
  "readBoundedLine limit limitErr src = line_loop limit [] limitErr src"

definition readChunkHeader :: "source \<Rightarrow> (go_error + parsedChunkHeader) \<times> source" where
  "readChunkHeader src =
     (case readBoundedLine MaxChunkHeaderLength ErrChunkHeaderTooLong src of
        (Inl e, src') \<Rightarrow> (Inl e, src')
      | (Inr line0, src') \<Rightarrow>
          (let line = go_TrimSuffix (go_TrimSuffix line0 crlf) [LF];
               parts = go_Split line (CHR '';'') in
           case ParseChunkSize (hd parts) of
             Inl e \<Rightarrow> (Inl e, src')
           | Inr n \<Rightarrow>
               if n > MaxChunkSize then (Inl (ErrNew ''chunk size exceeds maximum''), src')
               else (Inr \<lparr>extensions = tl parts, hdr_size = n\<rparr>, src')))"

definition readCRLF :: "source \<Rightarrow> go_error option \<times> source" where
  "readCRLF src =
     (case go_ReadFull src 2 of
        ((b, Some e), src') \<Rightarrow> (Some e, src')
      | ((b, None), src') \<Rightarrow>
          if b ! 0 \<noteq> CR \<or> b ! 1 \<noteq> LF then (Some (ErrNew ''malformed chunk terminator''), src')
          else (None, src'))"

function readTrailer :: "nat \<Rightarrow> nat \<Rightarrow> source \<Rightarrow> go_error option \<times> source" where
  "readTrailer trailerCount trailerBytes src =
     (case readBoundedLine MaxTrailerLineLength ErrTrailerLineTooLong src of
        (Inl e, src') \<Rightarrow> (Some (if go_Is e EOF then ErrUnexpectedEOF else e), src')
      | (Inr line, src') \<Rightarrow>
          if line = crlf \<or> line = [LF] then (None, src')
          else if Suc trailerCount > MaxTrailerCount then (Some ErrTooManyTrailers, src')
          else if trailerBytes + length line > MaxTrailerBytes then (Some ErrTrailersTooLarge, src')
          else readTrailer (Suc trailerCount) (trailerBytes + length line) src')"
  by pat_completeness auto
termination
  by (relation "measure (\<lambda>(tc, tb, src). Suc MaxTrailerCount - tc)") auto

declare readTrailer.simps [simp del]

definition finishZeroChunk :: "parsedChunkHeader \<Rightarrow> chunked_reader \<Rightarrow> go_error \<times> chunked_reader" where
  "finishZeroChunk header cr =
     (case readTrailer 0 0 (cr_src cr) of
        (Some e, src') \<Rightarrow> (e, cr\<lparr>cr_src := src'\<rparr>)
      | (None, src') \<Rightarrow>
          (let cr1 = cr\<lparr>cr_src := src'\<rparr> in
           if previewEnabled cr \<and> \<not> previewContinued cr
           then (let ieof = hasExtension header ''ieof''
                 in (EOF, cr1\<lparr>previewBoundary := True, previewIEOF := ieof, finished := ieof\<rparr>))
           else (EOF, cr1\<lparr>finished := True\<rparr>)))"

definition startChunk :: "chunked_reader \<Rightarrow> go_error option \<times> chunked_reader" where
  "startChunk cr =
     (case readChunkHeader (cr_src cr) of
        (Inl e, src') \<Rightarrow> (Some e, cr\<lparr>cr_src := src'\<rparr>)
      | (Inr header, src') \<Rightarrow>
          (let cr1 = cr\<lparr>cr_src := src'\<rparr> in
           if hdr_size header > 0 then (None, cr1\<lparr>cr_n := nat (hdr_size header)\<rparr>)
           else (case finishZeroChunk header cr1 of (e, cr2) \<Rightarrow> (Some e, cr2))))"

definition readChunkData :: "nat \<Rightarrow> chunked_reader \<Rightarrow> (string \<times> go_error option) \<times> chunked_reader" where
  "readChunkData plen cr =
     (let toRead = min plen (cr_n cr) in
      case go_ReadFull (cr_src cr) toRead of
        ((got, err), src') \<Rightarrow>
          (let cr1 = cr\<lparr>cr_src := src', cr_n := cr_n cr - length got\<rparr> in
           if cr_n cr1 = 0 \<and> err = None
           then (case readCRLF src' of
                   (Some e, src'') \<Rightarrow> ((got, Some e), cr1\<lparr>cr_src := src'', cr_err := Some e\<rparr>)
                 | (None, src'') \<Rightarrow> ((got, None), cr1\<lparr>cr_src := src''\<rparr>))
           else ((got, err), cr1)))"

definition Chunked_Read :: "nat \<Rightarrow> chunked_reader \<Rightarrow> (string \<times> go_error option) \<times> chunked_reader" where
  "Chunked_Read plen cr =
     (case cr_err cr of
        Some e \<Rightarrow> (([], Some e), cr)
      | None \<Rightarrow>
          if finished cr \<or> previewBoundary cr then (([], Some EOF), cr)
          else if cr_n cr = 0 then
            (case startChunk cr of
               (Some e, cr1) \<Rightarrow> (([], Some e), if go_Is e EOF then cr1 else cr1\<lparr>cr_err := Some e\<rparr>)
             | (None, cr1) \<Rightarrow> readChunkData plen cr1)
          else readChunkData plen cr)"

subsection \<open>Every read makes progress\<close>

abbreviation left :: "chunked_reader \<Rightarrow> nat" where
  "left cr \<equiv> length (pending (cr_src cr))"

lemma go_ReadByte_left: "go_ReadByte src = (r, src') \<Longrightarrow> length (pending src') \<le> length (pending src)"
  by (auto simp: go_ReadByte_def split: list.splits)

lemma line_loop_left:
  "line_loop room line e src = (r, src') \<Longrightarrow> length (pending src') \<le> length (pending src) \<and>
     (\<forall>l. r = Inr l \<longrightarrow> length (pending src') < length (pending src))"
proof (induction room arbitrary: line src)
  case (Suc room)
  then show ?case
    by (fastforce simp: go_ReadByte_def split: list.splits if_splits)
qed auto

lemma readChunkHeader_left:
  "readChunkHeader src = (Inr h, src') \<Longrightarrow> length (pending src') < length (pending src)"
  by (auto simp: readChunkHeader_def readBoundedLine_def Let_def dest!: line_loop_left
      split: prod.splits sum.splits if_splits)

lemma go_ReadFull_left:
  "go_ReadFull src n = ((got, e), src') \<Longrightarrow> length (pending src') = length (pending src) - n \<and>
     (e = None \<longrightarrow> length got = n \<and> n \<le> length (pending src))"
  by (auto simp: go_ReadFull_def Let_def split: if_splits)

lemma readCRLF_left: "readCRLF src = (r, src') \<Longrightarrow> length (pending src') \<le> length (pending src)"
  by (auto simp: readCRLF_def split: prod.splits option.splits if_splits dest!: go_ReadFull_left)

lemma startChunk_left: "startChunk cr = (None, cr') \<Longrightarrow> left cr' < left cr"
  by (auto simp: startChunk_def Let_def dest!: readChunkHeader_left split: prod.splits sum.splits if_splits)

lemma readChunkData_left:
  "readChunkData plen cr = ((got, e), cr') \<Longrightarrow> left cr' \<le> left cr \<and>
     (e = None \<longrightarrow> 0 < plen \<longrightarrow> 0 < cr_n cr \<longrightarrow> left cr' < left cr)"
  by (force simp: readChunkData_def Let_def dest!: go_ReadFull_left readCRLF_left
      split: prod.splits option.splits if_splits)

lemma Chunked_Read_left:
  assumes "Chunked_Read (Suc k) cr = ((got, None), cr')"
  shows "left cr' < left cr"
proof (cases "cr_n cr = 0")
  case True
  with assms obtain cr1 where "startChunk cr = (None, cr1)" "readChunkData (Suc k) cr1 = ((got, None), cr')"
    by (auto simp: Chunked_Read_def split: option.splits if_splits prod.splits)
  with startChunk_left readChunkData_left show ?thesis by (metis order.strict_trans1)
next
  case False
  with assms have "readChunkData (Suc k) cr = ((got, None), cr')"
    by (auto simp: Chunked_Read_def split: option.splits if_splits)
  with False readChunkData_left show ?thesis by blast
qed

text \<open>
  \<open>io.ReadAll\<close>: read until an error, \<open>EOF\<close> being the normal end.  The buffer of the \<open>i\<close>-th
  call has \<open>Suc (sz i)\<close> bytes: its size depends on how Go grows the slice, it is never zero.
\<close>

function ReadAll_loop :: "(nat \<Rightarrow> nat) \<Rightarrow> chunked_reader \<Rightarrow> string \<Rightarrow> (string \<times> go_error option) \<times> chunked_reader" where
  "ReadAll_loop sz cr acc =
     (case Chunked_Read (Suc (sz 0)) cr of
        ((got, Some e), cr') \<Rightarrow> ((acc @ got, if e = EOF then None else Some e), cr')
      | ((got, None), cr') \<Rightarrow> ReadAll_loop (\<lambda>i. sz (Suc i)) cr' (acc @ got))"
  by pat_completeness auto
termination
  by (relation "measure (\<lambda>(sz, cr, acc). left cr)") (auto dest!: Chunked_Read_left [OF sym])

declare ReadAll_loop.simps [simp del]

definition ReadChunkedBody :: "(nat \<Rightarrow> nat) \<Rightarrow> source \<Rightarrow> (string \<times> go_error option) \<times> chunked_reader" where
  "ReadChunkedBody sz r = ReadAll_loop sz (NewChunkedReader r) []"

section \<open>The writer\<close>

record 'w chunked_writer =
  cw_w :: 'w
  cw_closed :: bool

definition NewChunkedWriter :: "'w \<Rightarrow> 'w chunked_writer" where
  "NewChunkedWriter w = \<lparr>cw_w = w, cw_closed = False\<rparr>"

definition Chunked_Write ::
  "'w writer \<Rightarrow> 'w chunked_writer \<Rightarrow> string \<Rightarrow> (nat \<times> go_error option) \<times> 'w chunked_writer" where
  "Chunked_Write wr cw p =
     (if cw_closed cw then ((0, Some (ErrNew ''write on closed ChunkedWriter'')), cw)
      else if p = [] then ((0, None), cw)
      else
        (case wr (cw_w cw) (go_FormatInt (int (length p)) 16 @ crlf) of
           ((_, Some e), w1) \<Rightarrow> ((0, Some e), cw\<lparr>cw_w := w1\<rparr>)
         | ((_, None), w1) \<Rightarrow>
             (case wr w1 p of
                ((n, Some e), w2) \<Rightarrow> ((n, Some e), cw\<lparr>cw_w := w2\<rparr>)
              | ((_, None), w2) \<Rightarrow>
                  (case wr w2 crlf of
                     ((_, Some e), w3) \<Rightarrow> ((0, Some e), cw\<lparr>cw_w := w3\<rparr>)
                   | ((_, None), w3) \<Rightarrow> ((length p, None), cw\<lparr>cw_w := w3\<rparr>)))))"

definition Chunked_Close :: "'w writer \<Rightarrow> 'w chunked_writer \<Rightarrow> go_error option \<times> 'w chunked_writer" where
  "Chunked_Close wr cw =
     (if cw_closed cw then (None, cw)
      else (case wr (cw_w cw) (''0'' @ crlf @ crlf) of
              ((_, e), w') \<Rightarrow> (e, cw\<lparr>cw_w := w', cw_closed := True\<rparr>)))"

definition WriteChunkedBody :: "'w writer \<Rightarrow> 'w \<Rightarrow> string \<Rightarrow> go_error option \<times> 'w" where
  "WriteChunkedBody wr w data =
     (case Chunked_Write wr (NewChunkedWriter w) data of
        ((_, Some e), cw) \<Rightarrow> (Some e, cw_w cw)
      | ((_, None), cw) \<Rightarrow> (case Chunked_Close wr cw of (e, cw') \<Rightarrow> (e, cw_w cw')))"


section \<open>Reading what was written\<close>

definition chunk :: "string \<Rightarrow> string" where
  "chunk p = go_FormatInt (int (length p)) 16 @ crlf @ p @ crlf"

definition idle :: "chunked_reader \<Rightarrow> bool" where
  "idle cr \<longleftrightarrow> cr_err cr = None \<and> \<not> finished cr \<and> \<not> previewBoundary cr \<and> cr_n cr = 0"

abbreviation set_pending :: "string \<Rightarrow> chunked_reader \<Rightarrow> chunked_reader" where
  "set_pending s cr \<equiv> cr\<lparr>cr_src := (cr_src cr)\<lparr>pending := s\<rparr>\<rparr>"

lemma FormatInt_hex_chars:
  assumes "0 \<le> n" "c \<in> set (go_FormatInt n 16)"
  shows "c \<noteq> CR" "c \<noteq> LF" "c \<noteq> CHR '';''" "\<not> is_space c"
proof -
  from assms have c: "c \<in> set (format_nat 16 (nat n))" by (simp add: go_FormatInt_def)
  with format_nat_no_space [of 16 "nat n"] show "\<not> is_space c" by simp
  then show "c \<noteq> CR" "c \<noteq> LF" by (auto simp: is_space_def)
  show "c \<noteq> CHR '';''" using format_nat_no_char [of 16 "CHR '';''" "nat n"] c by auto
qed

lemma ParseChunkSize_Format:
  assumes "0 \<le> n" "n \<le> MaxInt64"
  shows "ParseChunkSize (FormatChunkSize n) = Inr n"
proof -
  let ?s = "go_FormatInt n 16"
  have "go_TrimSpace ?s = ?s" using FormatInt_hex_chars(4) [OF assms(1)] by simp
  moreover have "go_IndexByte ?s (CHR '';'') = None" using FormatInt_hex_chars(3) [OF assms(1)] by auto
  moreover have "?s \<noteq> []" by (simp add: go_FormatInt_def)
  ultimately show ?thesis
    using assms by (simp add: ParseChunkSize_def FormatChunkSize_def in_int64_nonneg Let_def)
qed

lemma line_loop_line:
  "LF \<notin> set l \<Longrightarrow> length l < room \<Longrightarrow> pending src = l @ LF # rest \<Longrightarrow>
     line_loop room acc e src = (Inr (acc @ l @ [LF]), src\<lparr>pending := rest\<rparr>)"
proof (induction l arbitrary: room acc src)
  case Nil
  then show ?case by (cases room) (auto simp: go_ReadByte_def)
next
  case (Cons c l)
  then show ?case by (cases room) (auto simp: go_ReadByte_def)
qed

lemma readBoundedLine_crlf:
  assumes "LF \<notin> set l" "Suc (length l) < limit" "pending src = l @ crlf @ rest"
  shows "readBoundedLine limit e src = (Inr (l @ crlf), src\<lparr>pending := rest\<rparr>)"
  unfolding readBoundedLine_def
  using line_loop_line [of "l @ [CR]" limit src rest "[]" e] assms by (simp add: crlf_def)

lemma go_Split_extensions:
  "c \<notin> set x \<Longrightarrow> \<forall>e \<in> set es. c \<notin> set e \<Longrightarrow> go_Split (x @ concat (map (Cons c) es)) c = x # es"
proof (induction es arbitrary: x)
  case (Cons e es)
  then show ?case using go_Split_append [of c x "e @ concat (map (Cons c) es)"] by simp
qed simp

text \<open>A chunk-size line with extensions, as the reader parses it.\<close>

lemma readChunkHeader_line:
  assumes n: "0 \<le> n" "n \<le> MaxChunkSize"
    and es: "\<forall>e \<in> set es. LF \<notin> set e \<and> CHR '';'' \<notin> set e"
    and len: "length (concat (map (Cons (CHR '';'')) es)) < 4000"
    and src: "pending src = go_FormatInt n 16 @ concat (map (Cons (CHR '';'')) es) @ crlf @ rest"
  shows "readChunkHeader src = (Inr \<lparr>extensions = es, hdr_size = n\<rparr>, src\<lparr>pending := rest\<rparr>)"
proof -
  let ?h = "go_FormatInt n 16" and ?x = "concat (map (Cons (CHR '';'')) es)"
  have "nat n < 16 ^ 6" using n by (simp add: MaxChunkSize_def)
  then have "length ?h \<le> 6" using n length_format_nat [of 16 6 "nat n"] by (simp add: go_FormatInt_def)
  moreover have "LF \<notin> set ?h" using FormatInt_hex_chars(2) [OF n(1), of LF] by blast
  moreover have "LF \<notin> set ?x" using es by auto
  moreover from calculation(2,3) have lf: "LF \<notin> set (?h @ ?x)" by simp
  ultimately have "readBoundedLine MaxChunkHeaderLength ErrChunkHeaderTooLong src =
      (Inr ((?h @ ?x) @ crlf), src\<lparr>pending := rest\<rparr>)"
    using len src by (intro readBoundedLine_crlf) (simp_all add: MaxChunkHeaderLength_def)
  moreover have "go_TrimSuffix (?h @ ?x) [LF] = ?h @ ?x"
    by (rule go_TrimSuffix_id) (use lf in auto)
  moreover have "CHR '';'' \<notin> set ?h" using FormatInt_hex_chars(3) [OF n(1)] by auto
  then have "go_Split (?h @ ?x) (CHR '';'') = ?h # es" using es by (intro go_Split_extensions) auto
  moreover have "ParseChunkSize ?h = Inr n"
    using ParseChunkSize_Format [of n] n by (simp add: FormatChunkSize_def MaxChunkSize_def MaxInt64_def)
  ultimately show ?thesis
    using n unfolding readChunkHeader_def by (simp add: Let_def go_TrimSuffix_append [of "?h @ ?x"] del: append_assoc)
qed

lemma readTrailer_empty:
  "pending src = crlf @ rest \<Longrightarrow> readTrailer 0 0 src = (None, src\<lparr>pending := rest\<rparr>)"
  using readBoundedLine_crlf [of "[]" MaxTrailerLineLength src rest ErrTrailerLineTooLong]
  by (subst readTrailer.simps) (simp add: MaxTrailerLineLength_def)

lemma readCRLF_ok: "pending src = crlf @ rest \<Longrightarrow> readCRLF src = (None, src\<lparr>pending := rest\<rparr>)"
  by (simp add: readCRLF_def go_ReadFull_def crlf_def)

lemma startChunk_chunk:
  assumes "p \<noteq> []" "int (length p) \<le> MaxChunkSize" "pending (cr_src cr) = chunk p @ rest"
  shows "startChunk cr = (None, (set_pending (p @ crlf @ rest) cr)\<lparr>cr_n := length p\<rparr>)"
  using readChunkHeader_line [of "int (length p)" "[]" "cr_src cr" "p @ crlf @ rest"] assms
  by (simp add: startChunk_def chunk_def)


lemma readChunkData_all:
  assumes "cr_n cr = length d" "length d \<le> plen" "pending (cr_src cr) = d @ crlf @ rest"
  shows "readChunkData plen cr = ((d, None), (set_pending rest cr)\<lparr>cr_n := 0\<rparr>)"
  using assms readCRLF_ok [of "(cr_src cr)\<lparr>pending := crlf @ rest\<rparr>" rest]
  by (simp add: readChunkData_def go_ReadFull_enough [of _ d])

lemma readChunkData_part:
  assumes "cr_n cr = length d" "plen < length d" "pending (cr_src cr) = d @ tail"
  shows "readChunkData plen cr =
     ((take plen d, None), (set_pending (drop plen d @ tail) cr)\<lparr>cr_n := length d - plen\<rparr>)"
  using assms
  by (simp add: readChunkData_def go_ReadFull_enough [of _ "take plen d" "drop plen d @ tail"])

lemma ReadAll_in_chunk:
  assumes "cr_err cr = None" "\<not> finished cr" "\<not> previewBoundary cr"
    and "cr_n cr = length d" "d \<noteq> []" "pending (cr_src cr) = d @ crlf @ rest"
  shows "\<exists>sz'. ReadAll_loop sz cr acc = ReadAll_loop sz' ((set_pending rest cr)\<lparr>cr_n := 0\<rparr>) (acc @ d)"
  using assms
proof (induction "length d" arbitrary: d cr sz acc rule: less_induct)
  case less
  let ?k = "Suc (sz 0)"
  have rd: "Chunked_Read ?k cr = readChunkData ?k cr"
    using less.prems by (simp add: Chunked_Read_def)
  show ?case
  proof (cases "length d \<le> ?k")
    case True
    then show ?thesis
      using readChunkData_all [OF less.prems(4) True less.prems(6)] rd
      by (subst ReadAll_loop.simps) auto
  next
    case False
    let ?cr = "(set_pending (drop ?k d @ crlf @ rest) cr)\<lparr>cr_n := length d - ?k\<rparr>"
    have "ReadAll_loop sz cr acc = ReadAll_loop (\<lambda>i. sz (Suc i)) ?cr (acc @ take ?k d)"
      using readChunkData_part [OF less.prems(4) _ less.prems(6), of ?k] rd False
      by (subst ReadAll_loop.simps) auto
    moreover have "\<exists>sz'. ReadAll_loop (\<lambda>i. sz (Suc i)) ?cr (acc @ take ?k d) =
        ReadAll_loop sz' ((set_pending rest ?cr)\<lparr>cr_n := 0\<rparr>) ((acc @ take ?k d) @ drop ?k d)"
      by (rule less.hyps) (use False less.prems in auto)
    ultimately show ?thesis by simp
  qed
qed

lemma ReadAll_chunk:
  assumes "idle cr" "p \<noteq> []" "int (length p) \<le> MaxChunkSize" "pending (cr_src cr) = chunk p @ rest"
  shows "\<exists>sz'. ReadAll_loop sz cr acc = ReadAll_loop sz' (set_pending rest cr) (acc @ p)"
proof -
  let ?cr1 = "(set_pending (p @ crlf @ rest) cr)\<lparr>cr_n := length p\<rparr>"
  have "Chunked_Read k cr = Chunked_Read k ?cr1" for k
    using assms(1,2) startChunk_chunk [OF assms(2-4)] by (simp add: Chunked_Read_def idle_def)
  then have eq: "ReadAll_loop sz cr acc = ReadAll_loop sz ?cr1 acc"
    by (subst ReadAll_loop.simps, subst (2) ReadAll_loop.simps) simp
  have "\<exists>sz'. ReadAll_loop sz ?cr1 acc = ReadAll_loop sz' ((set_pending rest ?cr1)\<lparr>cr_n := 0\<rparr>) (acc @ p)"
    using assms by (intro ReadAll_in_chunk) (auto simp: idle_def)
  moreover have "(set_pending rest ?cr1)\<lparr>cr_n := 0\<rparr> = set_pending rest cr"
    using assms(1) by (simp add: idle_def)
  ultimately show ?thesis using eq by simp
qed

text \<open>A terminating chunk, possibly with extensions, ends the read: at a preview boundary, or for good.\<close>

definition after_zero :: "string list \<Rightarrow> chunked_reader \<Rightarrow> chunked_reader" where
  "after_zero es cr =
     (if previewEnabled cr \<and> \<not> previewContinued cr
      then (let ieof = hasExtension \<lparr>extensions = es, hdr_size = 0\<rparr> ''ieof''
            in cr\<lparr>previewBoundary := True, previewIEOF := ieof, finished := ieof\<rparr>)
      else cr\<lparr>finished := True\<rparr>)"

definition zero_chunk :: "string list \<Rightarrow> string" where
  "zero_chunk es = ''0'' @ concat (map (Cons (CHR '';'')) es) @ crlf @ crlf"

definition ext_ok :: "string list \<Rightarrow> bool" where
  "ext_ok es \<longleftrightarrow> (\<forall>e \<in> set es. LF \<notin> set e \<and> CHR '';'' \<notin> set e) \<and>
     length (concat (map (Cons (CHR '';'')) es)) < 4000"

lemma FormatInt_0: "go_FormatInt 0 16 = ''0''"
  by (simp add: go_FormatInt_def format_nat.simps digit_char_def char_eval)

lemma startChunk_zero:
  assumes "ext_ok es" "pending (cr_src cr) = zero_chunk es @ rest"
  shows "startChunk cr = (Some EOF, after_zero es (set_pending rest cr))"
proof -
  have "readChunkHeader (cr_src cr) =
      (Inr \<lparr>extensions = es, hdr_size = 0\<rparr>, (cr_src cr)\<lparr>pending := crlf @ rest\<rparr>)"
    using assms by (intro readChunkHeader_line) (auto simp: ext_ok_def zero_chunk_def FormatInt_0 MaxChunkSize_def)
  then show ?thesis
    using readTrailer_empty [of "(cr_src cr)\<lparr>pending := crlf @ rest\<rparr>" rest]
    by (simp add: startChunk_def finishZeroChunk_def after_zero_def Let_def)
qed

lemma ReadAll_zero:
  assumes "idle cr" "ext_ok es" "pending (cr_src cr) = zero_chunk es @ rest"
  shows "ReadAll_loop sz cr acc = ((acc, None), after_zero es (set_pending rest cr))"
  using assms startChunk_zero [OF assms(2,3)]
  by (subst ReadAll_loop.simps) (simp add: Chunked_Read_def idle_def)

definition chunks_ok :: "string list \<Rightarrow> bool" where
  "chunks_ok ps \<longleftrightarrow> (\<forall>p \<in> set ps. p \<noteq> [] \<and> int (length p) \<le> MaxChunkSize)"

lemma ReadAll_chunks:
  assumes "idle cr" "chunks_ok ps" "ext_ok es"
    and "pending (cr_src cr) = concat (map chunk ps) @ zero_chunk es @ rest"
  shows "ReadAll_loop sz cr acc = ((acc @ concat ps, None), after_zero es (set_pending rest cr))"
  using assms
proof (induction ps arbitrary: cr sz acc)
  case Nil
  then show ?case by (simp add: ReadAll_zero)
next
  case (Cons p ps)
  let ?more = "concat (map chunk ps) @ zero_chunk es @ rest"
  obtain sz' where "ReadAll_loop sz cr acc = ReadAll_loop sz' (set_pending ?more cr) (acc @ p)"
    using ReadAll_chunk [of cr p ?more sz acc] Cons.prems by (auto simp: chunks_ok_def)
  moreover have "ReadAll_loop sz' (set_pending ?more cr) (acc @ p) =
      (((acc @ p) @ concat ps, None), after_zero es (set_pending rest (set_pending ?more cr)))"
    by (rule Cons.IH) (use Cons.prems in \<open>auto simp: idle_def chunks_ok_def\<close>)
  ultimately show ?case by simp
qed


lemma WriteChunkedBody_buffer:
  "WriteChunkedBody buffer_write w data =
     (None, w @ (if data = [] then [] else chunk data) @ zero_chunk [])"
  by (simp add: WriteChunkedBody_def Chunked_Write_def Chunked_Close_def NewChunkedWriter_def
      buffer_write_def chunk_def zero_chunk_def)

lemma WriteChunkedBody_chunks:
  "snd (WriteChunkedBody buffer_write [] data) =
     concat (map chunk (if data = [] then [] else [data])) @ zero_chunk []"
  by (simp add: WriteChunkedBody_buffer)

lemma idle_New [simp]: "idle (NewChunkedReader r)"
  by (simp add: idle_def NewChunkedReader_def)

lemma New_simps [simp]:
  "cr_src (NewChunkedReader r) = r" "\<not> previewEnabled (NewChunkedReader r)"
  "\<not> previewContinued (NewChunkedReader r)"
  by (simp_all add: NewChunkedReader_def)

lemma ext_ok_Nil [simp]: "ext_ok []"
  by (simp add: ext_ok_def)

lemma hasExtension_Nil [simp]: "\<not> hasExtension \<lparr>extensions = [], hdr_size = n\<rparr> name"
  by (simp add: hasExtension_def)

section \<open>Writing through any writer\<close>

text \<open>
  Over any \<open>io.Writer\<close>: what reached the writer is a prefix of the encoding, all of it when no error is
  reported.
\<close>

context io_writer
begin

lemma WriteChunkedBody_as_write_all:
  "WriteChunkedBody wr w data =
     write_all w ((if data = [] then [] else [go_FormatInt (int (length data)) 16 @ crlf, data, crlf]) @ [zero_chunk []])"
  by (auto simp: WriteChunkedBody_def Chunked_Write_def Chunked_Close_def NewChunkedWriter_def zero_chunk_def
      split: prod.splits option.splits if_splits)

lemma WriteChunkedBody_contents:
  assumes "WriteChunkedBody wr w data = (e, w')"
  shows "\<exists>k. contents w' = contents w @ take k ((if data = [] then [] else chunk data) @ zero_chunk []) \<and>
     (e = None \<longrightarrow> contents w' = contents w @ (if data = [] then [] else chunk data) @ zero_chunk [])"
  using write_all_contents [OF assms [unfolded WriteChunkedBody_as_write_all]]
  by (cases "data = []") (simp_all add: chunk_def)

end

section \<open>The chunked reader keeps the reader contract\<close>

text \<open>
  Over a well-formed stream with \<open>rest\<close> behind it the chunked reader delivers the decoded body and ends
  with exactly \<open>rest\<close> left in the source.
\<close>

definition chunked_end :: "string \<Rightarrow> chunked_reader \<Rightarrow> bool" where
  "chunked_end rest cr \<longleftrightarrow>
     cr_err cr = None \<and> (finished cr \<or> previewBoundary cr) \<and> pending (cr_src cr) = rest"

definition delivers_chunked :: "string \<Rightarrow> chunked_reader \<Rightarrow> string \<Rightarrow> bool" where
  "delivers_chunked rest cr s \<longleftrightarrow>
     chunked_end rest cr \<and> s = [] \<or>
     cr_err cr = None \<and> \<not> finished cr \<and> \<not> previewBoundary cr \<and>
     (\<exists>d ps es. cr_n cr = length d \<and> chunks_ok ps \<and> ext_ok es \<and> s = d @ concat ps \<and>
        pending (cr_src cr) = (if d = [] then [] else d @ crlf) @ concat (map chunk ps) @ zero_chunk es @ rest)"

lemma delivers_chunkedI:
  assumes "cr_err cr = None" "\<not> finished cr" "\<not> previewBoundary cr" "cr_n cr = length d"
    "chunks_ok ps" "ext_ok es"
    "pending (cr_src cr) = (if d = [] then [] else d @ crlf) @ concat (map chunk ps) @ zero_chunk es @ rest"
  shows "delivers_chunked rest cr (d @ concat ps)"
  using assms unfolding delivers_chunked_def by blast

lemma delivers_chunked_New:
  "chunks_ok ps \<Longrightarrow> ext_ok es \<Longrightarrow> pending src = concat (map chunk ps) @ zero_chunk es @ rest \<Longrightarrow>
     delivers_chunked rest (NewChunkedReader src) (concat ps)"
  using delivers_chunkedI [of "NewChunkedReader src" "[]" ps es rest] by (simp add: NewChunkedReader_def)

lemma chunked_read_in_chunk:
  assumes "cr_err cr = None" "\<not> finished cr" "\<not> previewBoundary cr" "cr_n cr = length d" "d \<noteq> []"
    "chunks_ok ps" "ext_ok es" "pending (cr_src cr) = d @ crlf @ concat (map chunk ps) @ zero_chunk es @ rest"
  shows "\<exists>cr'. readChunkData (Suc k) cr = ((take (Suc k) d, None), cr') \<and>
     delivers_chunked rest cr' (drop (Suc k) d @ concat ps)"
proof (cases "length d \<le> Suc k")
  case True
  let ?cr = "(set_pending (concat (map chunk ps) @ zero_chunk es @ rest) cr)\<lparr>cr_n := 0\<rparr>"
  have "delivers_chunked rest ?cr ([] @ concat ps)" by (rule delivers_chunkedI) (use assms in simp_all)
  with readChunkData_all [OF assms(4) True assms(8)] True show ?thesis by simp
next
  case False
  let ?cr = "(set_pending (drop (Suc k) d @ crlf @ concat (map chunk ps) @ zero_chunk es @ rest) cr)
    \<lparr>cr_n := length d - Suc k\<rparr>"
  have "delivers_chunked rest ?cr (drop (Suc k) d @ concat ps)"
    by (rule delivers_chunkedI) (use assms False in simp_all)
  with readChunkData_part [OF assms(4) _ assms(8), of "Suc k"] False show ?thesis by simp
qed

lemma chunked_read_cases:
  assumes "delivers_chunked rest cr s"
  shows "(\<exists>cr'. Chunked_Read (Suc k) cr = (([], Some EOF), cr') \<and> s = [] \<and> chunked_end rest cr') \<or>
     (\<exists>got cr' s'. Chunked_Read (Suc k) cr = ((got, None), cr') \<and> s = got @ s' \<and> got \<noteq> [] \<and>
        length got \<le> Suc k \<and> delivers_chunked rest cr' s')"
proof (cases "chunked_end rest cr \<and> s = []")
  case True
  then show ?thesis by (auto simp: Chunked_Read_def chunked_end_def)
next
  case False
  then obtain d ps es where st: "cr_err cr = None" "\<not> finished cr" "\<not> previewBoundary cr"
    "cr_n cr = length d" "chunks_ok ps" "ext_ok es" "s = d @ concat ps"
    "pending (cr_src cr) = (if d = [] then [] else d @ crlf) @ concat (map chunk ps) @ zero_chunk es @ rest"
    using assms by (auto simp: delivers_chunked_def)
  show ?thesis
  proof (cases "d = []")
    case False
    then obtain cr' where "readChunkData (Suc k) cr = ((take (Suc k) d, None), cr')"
      "delivers_chunked rest cr' (drop (Suc k) d @ concat ps)"
      using chunked_read_in_chunk [of cr d ps es rest k] st by auto
    with st False show ?thesis
      by (intro disjI2 exI [of _ "take (Suc k) d"] exI [of _ cr'] exI [of _ "drop (Suc k) d @ concat ps"])
         (auto simp: Chunked_Read_def)
  next
    case True
    show ?thesis
    proof (cases ps)
      case Nil
      with startChunk_zero [OF st(6), of cr rest] st True show ?thesis
        by (auto simp: Chunked_Read_def chunked_end_def after_zero_def Let_def)
    next
      case (Cons p qs)
      let ?cr = "(set_pending (p @ crlf @ concat (map chunk qs) @ zero_chunk es @ rest) cr)\<lparr>cr_n := length p\<rparr>"
      have p: "p \<noteq> []" "int (length p) \<le> MaxChunkSize" "chunks_ok qs" using st(5) Cons by (auto simp: chunks_ok_def)
      then obtain cr' where "readChunkData (Suc k) ?cr = ((take (Suc k) p, None), cr')"
        "delivers_chunked rest cr' (drop (Suc k) p @ concat qs)"
        using chunked_read_in_chunk [of ?cr p qs es rest k] st by auto
      moreover have "startChunk cr = (None, ?cr)"
        using startChunk_chunk [OF p(1,2), of cr] st True Cons by simp
      ultimately show ?thesis using st True Cons p
        by (intro disjI2 exI [of _ "take (Suc k) p"] exI [of _ cr'] exI [of _ "drop (Suc k) p @ concat qs"])
           (auto simp: Chunked_Read_def)
    qed
  qed
qed

interpretation chunked: io_reader "\<lambda>cr k. Chunked_Read k cr" "delivers_chunked rest" "chunked_end rest" for rest
proof (unfold_locales, goal_cases)
  case (1 r s k got r')
  then show ?case using chunked_read_cases [OF 1(1), of k] by auto
next
  case (2 r s k got e r')
  then show ?case using chunked_read_cases [OF 2(1), of k] by (auto simp: delivers_chunked_def)
qed

text \<open>\<open>ReadAll_loop\<close> is \<open>io.ReadAll\<close> over the chunked reader: it always returns.\<close>

lemma ReadAll_loop_total: "io_ReadAll (\<lambda>cr k. Chunked_Read k cr) sz cr acc = Some (ReadAll_loop sz cr acc)"
proof (induction sz cr acc rule: ReadAll_loop.induct)
  case (1 sz cr acc)
  show ?case
    by (subst io_ReadAll.simps, subst ReadAll_loop.simps) (auto simp: 1 split: prod.split option.split)
qed

section \<open>Bounds on what a malformed stream can make the reader consume\<close>

lemma line_loop_consumed:
  "line_loop room line e src = (r, src') \<Longrightarrow>
     length (pending src) \<le> length (pending src') + room \<and>
     (\<forall>l. r = Inr l \<longrightarrow> length (pending src) + length line = length (pending src') + length l)"
proof (induction room arbitrary: line src)
  case (Suc room)
  show ?case
  proof (cases "pending src")
    case Nil
    with Suc.prems show ?thesis by (auto simp: go_ReadByte_def)
  next
    case (Cons c cs)
    show ?thesis
    proof (cases "c = LF")
      case True
      with Suc.prems Cons show ?thesis by (auto simp: go_ReadByte_def)
    next
      case False
      with Suc.prems Cons have "line_loop room (line @ [c]) e (src\<lparr>pending := cs\<rparr>) = (r, src')"
        by (simp add: go_ReadByte_def)
      from Suc.IH [OF this] Cons show ?thesis by auto
    qed
  qed
qed auto

lemma readTrailer_consumed:
  "readTrailer tc tb src = (r, src') \<Longrightarrow> tb \<le> MaxTrailerBytes \<Longrightarrow>
     length (pending src) + tb \<le> length (pending src') + MaxTrailerBytes + MaxTrailerLineLength"
proof (induction tc tb src rule: readTrailer.induct)
  case (1 tc tb src)
  obtain q src1 where q: "readBoundedLine MaxTrailerLineLength ErrTrailerLineTooLong src = (q, src1)"
    by (metis prod.exhaust)
  have used: "length (pending src) \<le> length (pending src1) + MaxTrailerLineLength"
    using line_loop_consumed q unfolding readBoundedLine_def by blast
  show ?case
  proof (cases "\<exists>line. q = Inr line \<and> line \<noteq> crlf \<and> line \<noteq> [LF] \<and> Suc tc \<le> MaxTrailerCount \<and>
      tb + length line \<le> MaxTrailerBytes")
    case True
    then obtain line where line: "q = Inr line" "line \<noteq> crlf" "line \<noteq> [LF]" "Suc tc \<le> MaxTrailerCount"
      "tb + length line \<le> MaxTrailerBytes" by blast
    then have "readTrailer (Suc tc) (tb + length line) src1 = (r, src')"
      using 1(2) q by (subst (asm) readTrailer.simps) simp
    moreover have "length (pending src) = length (pending src1) + length line"
      using line_loop_consumed q line(1) unfolding readBoundedLine_def by fastforce
    ultimately show ?thesis using 1(1) [OF q [symmetric] line(1)] line by simp
  next
    case False
    then have "src' = src1"
      using 1(2) q by (subst (asm) readTrailer.simps) (auto split: sum.splits if_splits)
    with used 1(3) show ?thesis by simp
  qed
qed


section \<open>Properties\<close>

text \<open>
  C13: a body of at most 1 MiB written with \<open>WriteChunkedBody\<close> and followed by arbitrary bytes
  is read back unchanged by \<open>ReadChunkedBody\<close>, whatever buffer sizes \<open>io.ReadAll\<close> uses, and the
  reader stops exactly after the encoding: the bytes of the next request stay in the connection.
\<close>

theorem chunked_roundtrip:
  assumes "int (length data) \<le> MaxChunkSize"
    and "pending src = snd (WriteChunkedBody buffer_write [] data) @ rest"
  shows "\<exists>cr. ReadChunkedBody sz src = ((data, None), cr) \<and> pending (cr_src cr) = rest \<and> finished cr"
proof -
  let ?ps = "if data = [] then [] else [data]" and ?cr = "NewChunkedReader src"
  have "chunks_ok ?ps" using assms(1) by (simp add: chunks_ok_def)
  moreover have "pending (cr_src ?cr) = concat (map chunk ?ps) @ zero_chunk [] @ rest"
    using assms(2) by (simp add: WriteChunkedBody_buffer)
  ultimately have "ReadChunkedBody sz src = (([] @ concat ?ps, None), after_zero [] (set_pending rest ?cr))"
    unfolding ReadChunkedBody_def by (intro ReadAll_chunks) simp_all
  then show ?thesis by (simp add: after_zero_def)
qed

theorem chunked_roundtrip_witness:
  "\<exists>cr. ReadChunkedBody (\<lambda>i. 1) (bytes_reader (snd (WriteChunkedBody buffer_write [] ''hello'') @ ''NEXT'')) =
     ((''hello'', None), cr) \<and> pending (cr_src cr) = ''NEXT'' \<and> finished cr"
  by (rule chunked_roundtrip) (simp_all add: MaxChunkSize_def bytes_reader_def)

text \<open>
  the writer and the reader disagree above 1 MiB: \<open>WriteChunkedBody\<close> emits the whole body as
  one chunk, and the package's own reader rejects every chunk of more than \<open>MaxChunkSize\<close> bytes, so
  a longer body never reads back.
\<close>

theorem oversized_chunk_rejected:
  assumes "MaxChunkSize < int (length data)" and "int (length data) < 2 ^ 62"
    and "pending src = snd (WriteChunkedBody buffer_write [] data) @ rest"
  shows "fst (ReadChunkedBody sz src) = ([], Some (ErrNew ''chunk size exceeds maximum''))"
proof -
  let ?n = "int (length data)" and ?h = "go_FormatInt (int (length data)) 16"
  let ?rest = "data @ crlf @ zero_chunk [] @ rest"
  have ne: "data \<noteq> []" using assms(1) by (auto simp: MaxChunkSize_def)
  then have src: "pending src = ?h @ crlf @ ?rest"
    using assms(3) by (simp add: WriteChunkedBody_buffer chunk_def)
  have "length data < 2 ^ 62" using assms(2) by (metis of_nat_less_iff of_nat_numeral of_nat_power)
  then have "length data < 16 ^ 16" by simp
  then have "length ?h \<le> 16" using length_format_nat [of 16 16 "length data"] by (simp add: go_FormatInt_def)
  moreover have lf: "LF \<notin> set ?h" using FormatInt_hex_chars(2) [of ?n LF] by auto
  ultimately have "readBoundedLine MaxChunkHeaderLength ErrChunkHeaderTooLong src =
      (Inr (?h @ crlf), src\<lparr>pending := ?rest\<rparr>)"
    using src by (intro readBoundedLine_crlf) (simp_all add: MaxChunkHeaderLength_def)
  moreover have "go_TrimSuffix ?h [LF] = ?h" by (rule go_TrimSuffix_id) (use lf in auto)
  moreover have "go_Split ?h (CHR '';'') = [?h]" using FormatInt_hex_chars(3) [of ?n] by (intro go_Split_no_sep) auto
  moreover have "ParseChunkSize ?h = Inr ?n"
    using ParseChunkSize_Format [of ?n] assms(2) by (simp add: FormatChunkSize_def MaxInt64_def)
  ultimately have "readChunkHeader src = (Inl (ErrNew ''chunk size exceeds maximum''), src\<lparr>pending := ?rest\<rparr>)"
    using assms(1) by (simp add: readChunkHeader_def Let_def)
  then show ?thesis
    unfolding ReadChunkedBody_def
    by (subst ReadAll_loop.simps) (simp add: Chunked_Read_def startChunk_def NewChunkedReader_def)
qed

theorem oversized_chunk_rejected_witness:
  "fst (ReadChunkedBody (\<lambda>i. 511) (bytes_reader (snd (WriteChunkedBody buffer_write []
     (replicate (2 ^ 20 + 1) (CHR ''a'')))))) = ([], Some (ErrNew ''chunk size exceeds maximum''))"
  by (rule oversized_chunk_rejected [where rest = "[]"])
     (simp_all add: MaxChunkSize_def bytes_reader_def)

text \<open>
  a stream that ends after complete chunks, without the terminating chunk, is reported as
  a complete body: \<open>ReadChunkedBody\<close> returns the chunks seen so far with no error (the end of the
  connection inside a chunk-size line reads as the end of the body).
\<close>

theorem truncated_body_accepted:
  assumes "chunks_ok ps" and "src = bytes_reader (concat (map chunk ps))"
  shows "fst (ReadChunkedBody sz src) = (concat ps, None)"
proof -
  have "\<exists>cr'. ReadAll_loop sz cr acc = ((acc @ concat ps, None), cr')"
    if "idle cr" "cr_src cr = bytes_reader (concat (map chunk ps))" for cr acc sz
    using assms(1) that
  proof (induction ps arbitrary: cr acc sz)
    case Nil
    then show ?case
      by (subst ReadAll_loop.simps)
         (simp add: Chunked_Read_def idle_def startChunk_def readChunkHeader_def readBoundedLine_def
           MaxChunkHeaderLength_def go_ReadByte_def bytes_reader_def numeral_eq_Suc)
  next
    case (Cons p ps)
    let ?more = "concat (map chunk ps)"
    obtain sz' where "ReadAll_loop sz cr acc = ReadAll_loop sz' (set_pending ?more cr) (acc @ p)"
      using ReadAll_chunk [of cr p ?more sz acc] Cons.prems by (auto simp: chunks_ok_def bytes_reader_def)
    moreover have "\<exists>cr'. ReadAll_loop sz' (set_pending ?more cr) (acc @ p) = (((acc @ p) @ concat ps, None), cr')"
      by (rule Cons.IH) (use Cons.prems in \<open>auto simp: idle_def chunks_ok_def bytes_reader_def\<close>)
    ultimately show ?case by simp
  qed
  from this [of "NewChunkedReader src" sz "[]"] assms(2) show ?thesis
    unfolding ReadChunkedBody_def by (metis append_Nil fst_conv idle_New New_simps(1))
qed

theorem truncated_body_accepted_witness:
  "fst (ReadChunkedBody (\<lambda>i. 511) (bytes_reader (concat (map chunk [''hello''])))) = (''hello'', None)"
  using truncated_body_accepted [of "[''hello'']" _ "\<lambda>i. 511", OF _ refl] by (simp add: chunks_ok_def MaxChunkSize_def)

text \<open>
  C36: the preview protocol.  With preview enabled, reading stops at the first terminating chunk and
  leaves the rest of the connection alone; a terminator with the \<open>ieof\<close> extension makes the preview the
  whole body and refuses a continuation; otherwise \<open>ContinueAfterPreview\<close> succeeds exactly once and
  the next read returns the remaining body, so that preview and continuation together are the body.
\<close>

theorem preview_protocol:
  assumes "chunks_ok pre" "chunks_ok post" "ext_ok es"
    and "pending src = concat (map chunk pre) @ zero_chunk es @ tail"
  shows "\<exists>cr1. ReadAll_loop sz (EnablePreview (NewChunkedReader src)) [] = ((concat pre, None), cr1) \<and>
     pending (cr_src cr1) = tail \<and> Chunked_Read k cr1 = (([], Some EOF), cr1) \<and>
     PreviewBoundary cr1 = (True, hasExtension \<lparr>extensions = es, hdr_size = 0\<rparr> ''ieof'') \<and>
     (if hasExtension \<lparr>extensions = es, hdr_size = 0\<rparr> ''ieof''
      then finished cr1 \<and> ContinueAfterPreview cr1 = (Some ErrPreviewIEOF, cr1)
      else \<exists>cr2. ContinueAfterPreview cr1 = (None, cr2) \<and>
        ContinueAfterPreview cr2 = (Some ErrPreviewAlreadyContinued, cr2) \<and>
        (tail = concat (map chunk post) @ zero_chunk [] @ rest \<longrightarrow>
           (\<exists>cr3. ReadAll_loop sz cr2 [] = ((concat post, None), cr3) \<and>
              pending (cr_src cr3) = rest \<and> finished cr3)))"
proof -
  let ?cr0 = "EnablePreview (NewChunkedReader src)"
  let ?ieof = "hasExtension \<lparr>extensions = es, hdr_size = 0\<rparr> ''ieof''"
  let ?cr1 = "after_zero es (set_pending tail ?cr0)"
  have "idle ?cr0" by (simp add: idle_def EnablePreview_def NewChunkedReader_def)
  then have first: "ReadAll_loop sz ?cr0 [] = ((concat pre, None), ?cr1)"
    using ReadAll_chunks [of ?cr0 pre es tail sz "[]"] assms by (simp add: EnablePreview_def)
  have st: "previewEnabled ?cr1" "\<not> previewContinued ?cr1" "previewBoundary ?cr1"
    "previewIEOF ?cr1 = ?ieof" "finished ?cr1 = ?ieof" "cr_err ?cr1 = None" "cr_n ?cr1 = 0"
    "pending (cr_src ?cr1) = tail"
    by (simp_all add: after_zero_def EnablePreview_def NewChunkedReader_def Let_def)
  let ?cr2 = "?cr1\<lparr>previewBoundary := False, previewContinued := True\<rparr>"
  have cont: "ReadAll_loop sz ?cr2 [] = ((concat post, None), after_zero [] (set_pending rest ?cr2))"
    if "\<not> ?ieof" "tail = concat (map chunk post) @ zero_chunk [] @ rest"
    using ReadAll_chunks [of ?cr2 post "[]" rest sz "[]"] assms(2) st that by (simp add: idle_def)
  show ?thesis
    using first st cont
    by (intro exI [of _ ?cr1])
       (auto simp: Chunked_Read_def PreviewBoundary_def ContinueAfterPreview_def after_zero_def)
qed

theorem preview_protocol_witness:
  "\<exists>cr1. ReadAll_loop (\<lambda>i. 511) (EnablePreview (NewChunkedReader (bytes_reader
       (concat (map chunk [''hel'']) @ zero_chunk [] @ concat (map chunk [''lo'']) @ zero_chunk [] @ ''NEXT'')))) [] =
     ((''hel'', None), cr1) \<and> PreviewBoundary cr1 = (True, False)"
proof -
  let ?tail = "concat (map chunk [''lo'']) @ zero_chunk [] @ ''NEXT''"
  have h: "chunks_ok [''hel'']" "chunks_ok [''lo'']" "ext_ok []"
    by (simp_all add: chunks_ok_def MaxChunkSize_def)
  have p: "pending (bytes_reader (concat (map chunk [''hel'']) @ zero_chunk [] @ ?tail)) =
      concat (map chunk [''hel'']) @ zero_chunk [] @ ?tail" by (simp add: bytes_reader_def)
  show ?thesis using preview_protocol [OF h p, of "\<lambda>i. 511" 0 "''NEXT''"] by auto
qed

text \<open>
  Whatever the peer sends, one chunk header costs at most 4096 bytes of the connection and
  the trailer section at most 40960 (32768 counted bytes and one more line), so that a malformed stream
  cannot make the reader consume or hold an unbounded line.
\<close>

theorem chunk_framing_bounded:
  "length (pending src) - length (pending (snd (readChunkHeader src))) \<le> 4096 \<and>
   length (pending src) - length (pending (snd (readTrailer 0 0 src))) \<le> 40960"
proof
  obtain q src1 where q: "line_loop MaxChunkHeaderLength [] ErrChunkHeaderTooLong src = (q, src1)"
    by (metis prod.exhaust)
  then have "snd (readChunkHeader src) = src1"
    by (auto simp: readChunkHeader_def readBoundedLine_def Let_def split: sum.split)
  with line_loop_consumed [OF q, THEN conjunct1] show
    "length (pending src) - length (pending (snd (readChunkHeader src))) \<le> 4096"
    by (simp add: MaxChunkHeaderLength_def)
  obtain r src2 where r: "readTrailer 0 0 src = (r, src2)" by (metis prod.exhaust)
  from readTrailer_consumed [OF r] show
    "length (pending src) - length (pending (snd (readTrailer 0 0 src))) \<le> 40960"
    by (simp add: r MaxTrailerBytes_def MaxTrailerLineLength_def)
qed

end
