(* ===== verification/Icap_Message.thy ===== *)
theory Icap_Message
  imports Icap_Header Chunked
begin

text \<open>
  \<^verbatim>\<open>pkg/icap/request.go\<close>, \<^verbatim>\<open>body_read.go\<close>, \<^verbatim>\<open>release.go\<close>: requests, embedded HTTP messages
  and their lazily loaded bodies.

  \<open>lazy_body\<close> holds the five fields that \<open>Request\<close> and \<open>HTTPMessage\<close> pass to
  \<open>lazyLoadBodyLimitedWithCapacity\<close>; both records extend it.  A body that is \<open>nil\<close> is \<^const>\<open>None\<close>.
  The reader is any \<open>io.Reader\<close>; the sizes of Go's growing buffers are parameters (\<open>sz\<close> for
  \<open>io.ReadAll\<close>, \<open>grow\<close> for \<open>append\<close>).  Reading may not return, which is \<^const>\<open>None\<close>; under the
  contract of the reader it does.
\<close>

section \<open>Streaming bodies\<close>

record 'r streaming_body =
  sb_reader :: 'r
  sb_length :: int
  sb_closed :: bool
  sb_consumed :: bool

definition NewStreamingBody :: "'r \<Rightarrow> int \<Rightarrow> 'r streaming_body" where
  "NewStreamingBody r n = \<lparr>sb_reader = r, sb_length = n, sb_closed = False, sb_consumed = False\<rparr>"

definition StreamingBody_Read :: "'r reader \<Rightarrow> 'r streaming_body reader" where
  "StreamingBody_Read rd sb k =
     (if sb_closed sb then (([], Some EOF), sb)
      else (case rd (sb_reader sb) k of
              ((got, e), r') \<Rightarrow>
                ((got, e), if e = Some EOF then sb\<lparr>sb_reader := r', sb_consumed := True\<rparr> else sb\<lparr>sb_reader := r'\<rparr>)))"

definition StreamingBody_Close :: "'r streaming_body \<Rightarrow> 'r streaming_body" where
  "StreamingBody_Close sb = sb\<lparr>sb_closed := True\<rparr>"

definition ContentLength :: "'r streaming_body \<Rightarrow> int" where
  "ContentLength sb = sb_length sb"

definition IsConsumed :: "'r streaming_body \<Rightarrow> bool" where
  "IsConsumed sb \<longleftrightarrow> sb_consumed sb \<or> sb_closed sb"

context io_reader
begin

definition delivers_streaming :: "'r streaming_body \<Rightarrow> string \<Rightarrow> bool" where
  "delivers_streaming sb s \<longleftrightarrow> (if sb_closed sb then s = [] else delivers (sb_reader sb) s)"

lemma streaming_reader: "io_reader (StreamingBody_Read rd) delivers_streaming IsConsumed"
proof (unfold_locales, goal_cases)
  case (1 r s k got r')
  then show ?case using read_data [of "sb_reader r" s k got]
    by (fastforce simp: StreamingBody_Read_def delivers_streaming_def split: if_splits prod.splits)
next
  case (2 r s k got e r')
  then show ?case using read_end [of "sb_reader r" s k got e]
    by (fastforce simp: StreamingBody_Read_def delivers_streaming_def IsConsumed_def split: if_splits prod.splits)
qed

end

section \<open>Methods, versions and the Encapsulated and Preview headers\<close>

definition MethodREQMOD :: string where "MethodREQMOD = ''REQMOD''"
definition MethodRESPMOD :: string where "MethodRESPMOD = ''RESPMOD''"
definition MethodOPTIONS :: string where "MethodOPTIONS = ''OPTIONS''"
definition Version :: string where "Version = ''ICAP/1.0''"
definition DefaultMaxPreviewBytes :: int where "DefaultMaxPreviewBytes = 1 * 1024 * 1024"

lemmas method_defs = MethodREQMOD_def MethodRESPMOD_def MethodOPTIONS_def

definition isValidMethod :: "string \<Rightarrow> bool" where
  "isValidMethod m \<longleftrightarrow> m \<in> {MethodREQMOD, MethodRESPMOD, MethodOPTIONS}"

definition isValidVersion :: "string \<Rightarrow> bool" where
  "isValidVersion v \<longleftrightarrow> v = ''ICAP/1.0''"

definition encapNotSet :: int where "encapNotSet = -1"

record encapsulated =
  ReqHdr :: int
  ReqBody :: int
  ResHdr :: int
  ResBody :: int
  NullBody :: int

definition NewEncapsulated :: encapsulated where
  "NewEncapsulated = \<lparr>ReqHdr = encapNotSet, ReqBody = encapNotSet, ResHdr = encapNotSet,
     ResBody = encapNotSet, NullBody = encapNotSet\<rparr>"

definition IsEmpty :: "encapsulated \<Rightarrow> bool" where
  "IsEmpty e \<longleftrightarrow> ReqHdr e = encapNotSet \<and> ReqBody e = encapNotSet \<and> ResHdr e = encapNotSet \<and>
     ResBody e = encapNotSet \<and> NullBody e = encapNotSet"

definition HasReqBody :: "encapsulated \<Rightarrow> bool" where
  "HasReqBody e \<longleftrightarrow> ReqBody e \<noteq> encapNotSet"

definition HasResBody :: "encapsulated \<Rightarrow> bool" where
  "HasResBody e \<longleftrightarrow> ResBody e \<noteq> encapNotSet"

definition set_offset :: "string \<Rightarrow> int \<Rightarrow> encapsulated \<Rightarrow> encapsulated" where
  "set_offset key v e =
     (if key = ''req-hdr'' then e\<lparr>ReqHdr := v\<rparr>
      else if key = ''req-body'' then e\<lparr>ReqBody := v\<rparr>
      else if key = ''res-hdr'' then e\<lparr>ResHdr := v\<rparr>
      else if key = ''res-body'' then e\<lparr>ResBody := v\<rparr>
      else if key = ''null-body'' then e\<lparr>NullBody := v\<rparr>
      else e)"

fun encap_parts :: "encapsulated \<Rightarrow> string list \<Rightarrow> go_error + encapsulated" where
  "encap_parts encap [] = Inr encap"
| "encap_parts encap (p # ps) =
     (let part = go_TrimSpace p in
      case go_SplitN part (CHR ''='') 2 of
        [k, v] \<Rightarrow>
          (case go_Atoi (go_TrimSpace v) of
             None \<Rightarrow> Inl (ErrNew (''invalid offset value: '' @ v))
           | Some value \<Rightarrow> encap_parts (set_offset (go_ToLower (go_TrimSpace k)) value encap) ps)
      | _ \<Rightarrow> Inl (ErrNew (''invalid encapsulated part: '' @ part)))"

definition ParseEncapsulatedHeader :: "string \<Rightarrow> go_error + encapsulated" where
  "ParseEncapsulatedHeader s = encap_parts NewEncapsulated (go_Split s (CHR '',''))"

definition ParsePreviewHeader :: "string \<Rightarrow> go_error + int" where
  "ParsePreviewHeader s0 =
     (let s = go_TrimSpace s0 in
      if s = [] then Inl (ErrNew ''empty preview value'')
      else (case go_Atoi s of
              None \<Rightarrow> Inl (ErrNew (''invalid preview value: '' @ s))
            | Some value \<Rightarrow>
                if value < 0 then Inl (ErrNew (''preview value must be non-negative: '' @ go_Itoa value))
                else if value > DefaultMaxPreviewBytes
                then Inl (ErrNew (''preview value exceeds maximum 1048576 bytes: '' @ go_Itoa value))
                else Inr value))"

section \<open>Reading a body with a limit\<close>

definition stackReadBufferSize :: nat where "stackReadBufferSize = 512"
definition maxInitialBodyReadCapacity :: int where "maxInitialBodyReadCapacity = 1 * 1024 * 1024"

definition readCapacityWithinLimit :: "int \<Rightarrow> int \<Rightarrow> bool" where
  "readCapacityWithinLimit maxBytes capacity \<longleftrightarrow> maxBytes < 0 \<or> capacity \<le> maxBytes"

definition initialReadCapacity :: "int \<Rightarrow> int \<Rightarrow> nat" where
  "initialReadCapacity maxBytes capacity =
     (if capacity \<le> 0 \<or> \<not> readCapacityWithinLimit maxBytes capacity then 0
      else if capacity > maxInitialBodyReadCapacity then 0
      else if wrap64 capacity \<noteq> capacity then 0
      else nat capacity)"

definition normalizeReadAllError :: "go_error \<Rightarrow> go_error option" where
  "normalizeReadAllError e = (if go_Is e EOF then None else Some e)"

definition tooLarge :: "int \<Rightarrow> go_error" where
  "tooLarge maxBytes = ErrWrap ('': max '' @ go_Itoa maxBytes @ '' bytes'') ErrBodyTooLarge"

definition bodyWithinLimit :: "string \<Rightarrow> int \<Rightarrow> string option \<times> go_error option" where
  "bodyWithinLimit data maxBytes =
     (if int (length data) > maxBytes then (None, Some (tooLarge maxBytes)) else (Some data, None))"

text \<open>A slice under construction: its bytes and its capacity.  \<open>append\<close> picks a new capacity with \<open>grow\<close>.\<close>

definition go_append :: "(nat \<Rightarrow> nat \<Rightarrow> nat) \<Rightarrow> string \<times> nat \<Rightarrow> string \<Rightarrow> string \<times> nat" where
  "go_append grow = (\<lambda>(data, cap) got.
     (data @ got, if length data + length got \<le> cap then cap
        else max (grow cap (length data + length got)) (length data + length got)))"

definition readNextBodyBytes ::
  "'r reader \<Rightarrow> (nat \<Rightarrow> nat \<Rightarrow> nat) \<Rightarrow> 'r \<Rightarrow> string \<times> nat \<Rightarrow> (nat \<times> go_error option) \<times> (string \<times> nat) \<times> 'r" where
  "readNextBodyBytes rd grow r = (\<lambda>(data, cap).
     if length data = cap
     then (case rd r stackReadBufferSize of ((got, e), r') \<Rightarrow> ((length got, e), go_append grow (data, cap) got, r'))
     else (case rd r (cap - length data) of ((got, e), r') \<Rightarrow> ((length got, e), (data @ got, cap), r')))"

partial_function (option) read_loop ::
  "'r reader \<Rightarrow> (nat \<Rightarrow> nat \<Rightarrow> nat) \<Rightarrow> int \<Rightarrow> 'r \<Rightarrow> string \<times> nat \<Rightarrow> ((string option \<times> go_error option) \<times> 'r) option" where
  "read_loop rd grow maxBytes r slice =
     (case readNextBodyBytes rd grow r slice of
        ((n, err), slice', r') \<Rightarrow>
          if n > 0 \<and> maxBytes \<ge> 0 \<and> int (length (fst slice')) > maxBytes
          then Some ((None, Some (tooLarge maxBytes)), r')
          else (case err of
                  Some e \<Rightarrow> Some ((Some (fst slice'), normalizeReadAllError e), r')
                | None \<Rightarrow> read_loop rd grow maxBytes r' slice'))"

declare read_loop.simps [code]

definition readAllLimitedDefault ::
  "'r reader \<Rightarrow> (nat \<Rightarrow> nat) \<Rightarrow> 'r \<Rightarrow> int \<Rightarrow> ((string option \<times> go_error option) \<times> 'r) option" where
  "readAllLimitedDefault rd sz r maxBytes =
     (if maxBytes < 0
      then (case io_ReadAll rd sz r [] of
              None \<Rightarrow> None
            | Some ((data, e), r') \<Rightarrow> Some ((Some data, e), r'))
      else (case io_ReadAll (limited_read rd) sz (r, wrap64 (maxBytes + 1)) [] of
              None \<Rightarrow> None
            | Some ((data, Some e), (r', N)) \<Rightarrow> Some ((None, Some e), r')
            | Some ((data, None), (r', N)) \<Rightarrow> Some (bodyWithinLimit data maxBytes, r')))"

definition readAllLimitedWithCapacity ::
  "'r reader \<Rightarrow> (nat \<Rightarrow> nat) \<Rightarrow> (nat \<Rightarrow> nat \<Rightarrow> nat) \<Rightarrow> 'r \<Rightarrow> int \<Rightarrow> int \<Rightarrow>
     ((string option \<times> go_error option) \<times> 'r) option" where
  "readAllLimitedWithCapacity rd sz grow r maxBytes capacity =
     (let initialCapacity = initialReadCapacity maxBytes capacity in
      if initialCapacity = 0 then readAllLimitedDefault rd sz r maxBytes
      else read_loop rd grow maxBytes r ([], initialCapacity))"

section \<open>Lazily loaded bodies\<close>

record 'r lazy_body =
  BodyReader :: "'r option"
  Body :: "string option"
  bodyLoaded :: bool
  bodyErr :: "go_error option"
  bodyOnce :: bool

definition no_body :: "'r lazy_body" where
  "no_body = \<lparr>BodyReader = None, Body = None, bodyLoaded = False, bodyErr = None, bodyOnce = False\<rparr>"

definition body_bytes :: "('r, 'z) lazy_body_scheme \<Rightarrow> string" where
  "body_bytes m = (case Body m of None \<Rightarrow> [] | Some b \<Rightarrow> b)"

definition load_once ::
  "'r reader \<Rightarrow> (nat \<Rightarrow> nat) \<Rightarrow> (nat \<Rightarrow> nat \<Rightarrow> nat) \<Rightarrow> int \<Rightarrow> int \<Rightarrow> string \<Rightarrow>
     ('r, 'z) lazy_body_scheme \<Rightarrow> ('r, 'z) lazy_body_scheme option" where
  "load_once rd sz grow maxBytes capacity errFmt m =
     (if bodyOnce m then Some m
      else (case BodyReader m of
              None \<Rightarrow> Some (m\<lparr>bodyOnce := True\<rparr>)
            | Some r \<Rightarrow>
                (case readAllLimitedWithCapacity rd sz grow r maxBytes capacity of
                   None \<Rightarrow> None
                 | Some ((data, Some e), r') \<Rightarrow>
                     Some (m\<lparr>bodyOnce := True, BodyReader := Some r', bodyErr := Some (ErrWrap errFmt e), Body := None\<rparr>)
                 | Some ((data, None), r') \<Rightarrow>
                     Some (m\<lparr>bodyOnce := True, BodyReader := Some r', Body := data, bodyLoaded := True\<rparr>))))"

definition lazyLoadBodyLimitedWithCapacity ::
  "'r reader \<Rightarrow> (nat \<Rightarrow> nat) \<Rightarrow> (nat \<Rightarrow> nat \<Rightarrow> nat) \<Rightarrow> int \<Rightarrow> int \<Rightarrow> string \<Rightarrow>
     ('r, 'z) lazy_body_scheme \<Rightarrow> ((string option \<times> go_error option) \<times> ('r, 'z) lazy_body_scheme) option" where
  "lazyLoadBodyLimitedWithCapacity rd sz grow maxBytes capacity errFmt m =
     (case load_once rd sz grow maxBytes capacity errFmt m of
        None \<Rightarrow> None
      | Some m' \<Rightarrow>
          Some (case bodyErr m' of
                  Some e \<Rightarrow> ((None, Some e), m')
                | None \<Rightarrow>
                    if maxBytes \<ge> 0 \<and> int (length (body_bytes m')) > maxBytes
                    then ((None, Some (tooLarge maxBytes)), m')
                    else ((Body m', None), m')))"

definition lazyLoadBodyLimited ::
  "'r reader \<Rightarrow> (nat \<Rightarrow> nat) \<Rightarrow> (nat \<Rightarrow> nat \<Rightarrow> nat) \<Rightarrow> int \<Rightarrow> string \<Rightarrow>
     ('r, 'z) lazy_body_scheme \<Rightarrow> ((string option \<times> go_error option) \<times> ('r, 'z) lazy_body_scheme) option" where
  "lazyLoadBodyLimited rd sz grow maxBytes errFmt m =
     lazyLoadBodyLimitedWithCapacity rd sz grow maxBytes (-1) errFmt m"

definition lazyLoadBody ::
  "'r reader \<Rightarrow> (nat \<Rightarrow> nat) \<Rightarrow> (nat \<Rightarrow> nat \<Rightarrow> nat) \<Rightarrow> string \<Rightarrow>
     ('r, 'z) lazy_body_scheme \<Rightarrow> ((string option \<times> go_error option) \<times> ('r, 'z) lazy_body_scheme) option" where
  "lazyLoadBody rd sz grow errFmt m = lazyLoadBodyLimited rd sz grow (-1) errFmt m"

definition IsBodyLoaded :: "('r, 'z) lazy_body_scheme \<Rightarrow> bool" where
  "IsBodyLoaded m = bodyLoaded m"

definition SetLoadedBody :: "string option \<Rightarrow> ('r, 'z) lazy_body_scheme \<Rightarrow> ('r, 'z) lazy_body_scheme" where
  "SetLoadedBody b m = m\<lparr>bodyLoaded := True, Body := b, BodyReader := None, bodyErr := None\<rparr>"

definition releaseBody :: "('r, 'z) lazy_body_scheme \<Rightarrow> ('r, 'z) lazy_body_scheme" where
  "releaseBody m = m\<lparr>Body := None, BodyReader := None, bodyErr := None, bodyLoaded := False, bodyOnce := False\<rparr>"

section \<open>Embedded HTTP messages\<close>

text \<open>The type \<open>'b\<close> stands for the planned body stream of a response.\<close>

record ('r, 'b) http_message = "'r lazy_body" +
  BodyStream :: "'b option"
  m_Header :: "header option"
  m_Method :: string
  m_URI :: string
  m_Status :: string
  m_StatusText :: string
  m_Proto :: string

definition UnknownStreamPayloadSize :: int where "UnknownStreamPayloadSize = -1"

definition parseContentLengthHint :: "string \<Rightarrow> int" where
  "parseContentLengthHint v =
     (case go_ParseInt v 10 of
        None \<Rightarrow> UnknownStreamPayloadSize
      | Some n \<Rightarrow> if n < 0 then UnknownStreamPayloadSize else n)"

definition contentLengthHint :: "('r, 'b) http_message \<Rightarrow> int" where
  "contentLengthHint m =
     (case m_Header m of
        None \<Rightarrow> UnknownStreamPayloadSize
      | Some h \<Rightarrow>
          (case Header_Get h ''Content-Length'' of
             None \<Rightarrow> UnknownStreamPayloadSize
           | Some v \<Rightarrow> parseContentLengthHint v))"

definition GetBody ::
  "'r reader \<Rightarrow> (nat \<Rightarrow> nat) \<Rightarrow> (nat \<Rightarrow> nat \<Rightarrow> nat) \<Rightarrow> ('r, 'b) http_message \<Rightarrow>
     ((string option \<times> go_error option) \<times> ('r, 'b) http_message) option" where
  "GetBody rd sz grow m =
     lazyLoadBodyLimitedWithCapacity rd sz grow (-1) (contentLengthHint m) ''loading body: '' m"

definition GetBodyLimited ::
  "'r reader \<Rightarrow> (nat \<Rightarrow> nat) \<Rightarrow> (nat \<Rightarrow> nat \<Rightarrow> nat) \<Rightarrow> int \<Rightarrow> ('r, 'b) http_message \<Rightarrow>
     ((string option \<times> go_error option) \<times> ('r, 'b) http_message) option" where
  "GetBodyLimited rd sz grow maxBytes m =
     lazyLoadBodyLimitedWithCapacity rd sz grow maxBytes (contentLengthHint m) ''loading body: '' m"

definition HasBody :: "('r, 'b) http_message \<Rightarrow> bool" where
  "HasBody m \<longleftrightarrow> (bodyLoaded m \<and> length (body_bytes m) > 0) \<or> BodyReader m \<noteq> None"

text \<open>The type assertion on the reader is the parameter \<open>snapshot\<close>.\<close>

definition PreviewBodySnapshot ::
  "('r \<Rightarrow> string option) \<Rightarrow> ('r, 'b) http_message option \<Rightarrow> string option \<times> bool" where
  "PreviewBodySnapshot snapshot m =
     (case m of
        None \<Rightarrow> (None, False)
      | Some m \<Rightarrow>
          (case BodyReader m of
             None \<Rightarrow> (None, False)
           | Some r \<Rightarrow> (case snapshot r of None \<Rightarrow> (None, False) | Some b \<Rightarrow> (Some b, True))))"

text \<open>
  \<open>GetPreviewBody\<close> leaves a \<open>MultiReader\<close> of the bytes read and the reader behind them, so the
  message reads through \<open>multi_read\<close>.
\<close>

definition GetPreviewBody ::
  "'r reader \<Rightarrow> (nat \<Rightarrow> nat) \<Rightarrow> (nat \<Rightarrow> nat \<Rightarrow> nat) \<Rightarrow> int \<Rightarrow> ('r multi_reader, 'b) http_message \<Rightarrow>
     ((string option \<times> go_error option) \<times> ('r multi_reader, 'b) http_message) option" where
  "GetPreviewBody rd sz grow previewSize m =
     (if previewSize \<le> 0 then GetBody (multi_read rd) sz grow m
      else if previewSize > DefaultMaxPreviewBytes
      then Some ((None, Some (ErrNew (''preview size exceeds maximum 1048576 bytes: '' @ go_Itoa previewSize))), m)
      else if bodyLoaded m \<and> Body m \<noteq> None
      then (if int (length (body_bytes m)) \<le> previewSize then Some ((Body m, None), m)
            else Some ((Some (take (nat previewSize) (body_bytes m)), None), m))
      else (case BodyReader m of
              None \<Rightarrow> Some ((None, None), m)
            | Some reader \<Rightarrow>
                (case io_ReadAll (limited_read (multi_read rd)) sz (reader, previewSize) [] of
                   None \<Rightarrow> None
                 | Some ((preview, err), (reader', N)) \<Rightarrow>
                     (let m' = m\<lparr>BodyReader := Some (Multi preview reader' False)\<rparr> in
                      case err of
                        Some e \<Rightarrow> Some ((None, Some (ErrWrap ''reading preview body: '' e)), m')
                      | None \<Rightarrow> Some ((Some preview, None), m')))))"

text \<open>The stream on which \<open>Release\<close> is called is returned beside the message.\<close>

definition HTTPMessage_ReleaseBodies ::
  "('r, 'b) http_message option \<Rightarrow> ('r, 'b) http_message option \<times> 'b option" where
  "HTTPMessage_ReleaseBodies m =
     (case m of
        None \<Rightarrow> (None, None)
      | Some m \<Rightarrow> (Some ((releaseBody m)\<lparr>BodyStream := None\<rparr>), BodyStream m))"

section \<open>Requests\<close>

record ('q, 'r, 'b) request = "'q lazy_body" +
  r_Header :: "header option"
  HTTPRequest :: "('r, 'b) http_message option"
  HTTPResponse :: "('r, 'b) http_message option"
  Captures :: "(string \<times> string) list"
  RemoteAddr :: string
  r_URI :: string
  r_Proto :: string
  r_Method :: string
  ClientIP :: string
  r_Encapsulated :: encapsulated
  Preview :: int
  PreviewSet :: bool
  matchedBranch :: int
  matchedBranchSet :: bool

definition zero_encapsulated :: encapsulated where
  \<comment> \<open>Go's zero value of the struct\<close>
  "zero_encapsulated = \<lparr>ReqHdr = 0, ReqBody = 0, ResHdr = 0, ResBody = 0, NullBody = 0\<rparr>"

definition zero_request :: "('q, 'r, 'b) request" where
  "zero_request = \<lparr>BodyReader = None, Body = None, bodyLoaded = False, bodyErr = None, bodyOnce = False,
     r_Header = None, HTTPRequest = None, HTTPResponse = None, Captures = [], RemoteAddr = [], r_URI = [],
     r_Proto = [], r_Method = [], ClientIP = [], r_Encapsulated = zero_encapsulated, Preview = 0,
     PreviewSet = False, matchedBranch = 0, matchedBranchSet = False\<rparr>"

definition SetMatchedBranch :: "int \<Rightarrow> ('q, 'r, 'b) request \<Rightarrow> ('q, 'r, 'b) request" where
  "SetMatchedBranch index r = r\<lparr>matchedBranch := index, matchedBranchSet := index \<ge> 0\<rparr>"

definition MatchedBranch :: "('q, 'r, 'b) request \<Rightarrow> int \<times> bool" where
  "MatchedBranch r = (matchedBranch r, matchedBranchSet r)"

definition ClearMatchedBranch :: "('q, 'r, 'b) request \<Rightarrow> ('q, 'r, 'b) request" where
  "ClearMatchedBranch r = r\<lparr>matchedBranch := 0, matchedBranchSet := False\<rparr>"

definition NewRequest :: "string \<Rightarrow> string \<Rightarrow> go_error + ('q, 'r, 'b) request" where
  "NewRequest method uri =
     (if \<not> isValidMethod method then Inl ErrInvalidMethod
      else if uri = [] then Inl ErrMissingURI
      else Inr (zero_request\<lparr>r_Method := method, r_URI := uri, r_Proto := Version,
                  r_Header := Some NewHeader, r_Encapsulated := NewEncapsulated\<rparr>))"

definition Request_GetBody ::
  "'q reader \<Rightarrow> (nat \<Rightarrow> nat) \<Rightarrow> (nat \<Rightarrow> nat \<Rightarrow> nat) \<Rightarrow> ('q, 'r, 'b) request \<Rightarrow>
     ((string option \<times> go_error option) \<times> ('q, 'r, 'b) request) option" where
  "Request_GetBody rd sz grow r = lazyLoadBody rd sz grow ''loading ICAP body: '' r"

definition Validate :: "('q, 'r, 'b) request \<Rightarrow> go_error option" where
  "Validate r =
     (if \<not> isValidMethod (r_Method r) then Some ErrInvalidMethod
      else if r_URI r = [] then Some ErrMissingURI
      else if length (r_URI r) < 7 \<or> \<not> go_EqualFold (take 7 (r_URI r)) ''icap://'' then Some ErrInvalidURIScheme
      else None)"

definition GetHeader :: "('q, 'r, 'b) request \<Rightarrow> string \<Rightarrow> string option" where
  "GetHeader r key = (case r_Header r of None \<Rightarrow> None | Some h \<Rightarrow> Header_Get h key)"

definition SetHeader :: "string \<Rightarrow> string \<Rightarrow> ('q, 'r, 'b) request \<Rightarrow> ('q, 'r, 'b) request" where
  "SetHeader key v r = r\<lparr>r_Header := Some (Header_Set (case r_Header r of None \<Rightarrow> NewHeader | Some h \<Rightarrow> h) key v)\<rparr>"

definition SetClientIP :: "string \<Rightarrow> ('q, 'r, 'b) request \<Rightarrow> ('q, 'r, 'b) request" where
  "SetClientIP ip r = r\<lparr>ClientIP := ip\<rparr>"

definition Request_HasBody :: "('q, 'r, 'b) request \<Rightarrow> bool" where
  "Request_HasBody r \<longleftrightarrow> HasReqBody (r_Encapsulated r) \<or> HasResBody (r_Encapsulated r)"

definition IsOPTIONS :: "('q, 'r, 'b) request \<Rightarrow> bool" where
  "IsOPTIONS r \<longleftrightarrow> r_Method r = MethodOPTIONS"

definition IsREQMOD :: "('q, 'r, 'b) request \<Rightarrow> bool" where
  "IsREQMOD r \<longleftrightarrow> r_Method r = MethodREQMOD"

definition IsRESPMOD :: "('q, 'r, 'b) request \<Rightarrow> bool" where
  "IsRESPMOD r \<longleftrightarrow> r_Method r = MethodRESPMOD"

definition HasPreview :: "('q, 'r, 'b) request \<Rightarrow> bool" where
  "HasPreview r \<longleftrightarrow> PreviewSet r \<or> Preview r > 0"

definition IsPreviewMode :: "('q, 'r, 'b) request \<Rightarrow> bool" where
  "IsPreviewMode r = HasPreview r"

definition Request_GetPreviewBody ::
  "'r reader \<Rightarrow> (nat \<Rightarrow> nat) \<Rightarrow> (nat \<Rightarrow> nat \<Rightarrow> nat) \<Rightarrow> ('q, 'r multi_reader, 'b) request \<Rightarrow>
     ((string option \<times> go_error option) \<times> ('q, 'r multi_reader, 'b) request) option" where
  "Request_GetPreviewBody rd sz grow r =
     (if \<not> IsPreviewMode r then Some ((None, None), r)
      else if Preview r = 0 then Some ((Some [], None), r)
      else if r_Method r = MethodREQMOD \<and> HTTPRequest r \<noteq> None
      then (case GetPreviewBody rd sz grow (Preview r) (the (HTTPRequest r)) of
              None \<Rightarrow> None
            | Some (res, m) \<Rightarrow> Some (res, r\<lparr>HTTPRequest := Some m\<rparr>))
      else if r_Method r = MethodRESPMOD \<and> HTTPResponse r \<noteq> None
      then (case GetPreviewBody rd sz grow (Preview r) (the (HTTPResponse r)) of
              None \<Rightarrow> None
            | Some (res, m) \<Rightarrow> Some (res, r\<lparr>HTTPResponse := Some m\<rparr>))
      else Some ((None, None), r))"

definition Request_WriteTo :: "'w writer \<Rightarrow> ('q, 'r, 'b) request \<Rightarrow> 'w \<Rightarrow> (nat \<times> go_error option) \<times> 'w" where
  "Request_WriteTo wr r w =
     (let line = r_Method r @ '' '' @ r_URI r @ '' '' @ (if r_Proto r = [] then Version else r_Proto r) @ crlf;
          buf = (case r_Header r of None \<Rightarrow> line | Some h \<Rightarrow> Header_WriteToBuffer h line);
          buf = buf @ crlf;
          buf = (if length (body_bytes r) > 0 then buf @ body_bytes r else buf)
      in case wr w buf of
           ((n, Some e), w') \<Rightarrow> ((n, Some e), w')
         | ((n, None), w') \<Rightarrow> ((n, if n \<noteq> length buf then Some ErrShortWrite else None), w'))"

definition Request_ReleaseBodies ::
  "('q, 'r, 'b) request option \<Rightarrow> ('q, 'r, 'b) request option \<times> 'b list" where
  "Request_ReleaseBodies r =
     (case r of
        None \<Rightarrow> (None, [])
      | Some r \<Rightarrow>
          (case (HTTPMessage_ReleaseBodies (HTTPRequest r), HTTPMessage_ReleaseBodies (HTTPResponse r)) of
             ((q, sq), (p, sp)) \<Rightarrow>
               (Some ((releaseBody r)\<lparr>HTTPRequest := q, HTTPResponse := p\<rparr>),
                (case sq of None \<Rightarrow> [] | Some b \<Rightarrow> [b]) @ (case sp of None \<Rightarrow> [] | Some b \<Rightarrow> [b]))))"

section \<open>Bodies over a reader that keeps the contract\<close>

definition over_limit :: "int \<Rightarrow> string \<Rightarrow> bool" where
  "over_limit maxBytes s \<longleftrightarrow> maxBytes \<ge> 0 \<and> int (length s) > maxBytes"

definition body_result :: "int \<Rightarrow> string \<Rightarrow> string option \<times> go_error option" where
  "body_result maxBytes s = (if over_limit maxBytes s then (None, Some (tooLarge maxBytes)) else (Some s, None))"

lemma go_append_simps [simp]:
  "fst (go_append grow (data, cap) got) = data @ got"
  "length data \<le> cap \<Longrightarrow> length (data @ got) \<le> snd (go_append grow (data, cap) got)"
  by (auto simp: go_append_def)

context io_reader
begin

lemma readNextBodyBytes_step:
  assumes "length data \<le> cap"
  shows "\<exists>k. \<forall>got e r'. rd r (Suc k) = ((got, e), r') \<longrightarrow> length got \<le> Suc k \<longrightarrow>
     (\<exists>cap'. length (data @ got) \<le> cap' \<and>
        readNextBodyBytes rd grow r (data, cap) = ((length got, e), (data @ got, cap'), r'))"
proof (cases "length data = cap")
  case True
  then show ?thesis
    by (intro exI [of _ 511]) (auto simp: readNextBodyBytes_def go_append_def stackReadBufferSize_def)
next
  case False
  with assms have "Suc (cap - length data - 1) = cap - length data" by simp
  with False show ?thesis
    by (intro exI [of _ "cap - length data - 1"]) (auto simp: readNextBodyBytes_def)
qed

lemma read_loop_delivers:
  assumes "delivers r s" "length data \<le> cap" "\<not> over_limit maxBytes data"
  shows "\<exists>r'. read_loop rd grow maxBytes r (data, cap) = Some (body_result maxBytes (data @ s), r') \<and>
     (\<not> over_limit maxBytes (data @ s) \<longrightarrow> at_end r' \<and> delivers r' [])"
  using assms
proof (induction "length s" arbitrary: r s data cap rule: less_induct)
  case less
  obtain k where k: "\<forall>got e r'. rd r (Suc k) = ((got, e), r') \<longrightarrow> length got \<le> Suc k \<longrightarrow>
     (\<exists>cap'. length (data @ got) \<le> cap' \<and>
        readNextBodyBytes rd grow r (data, cap) = ((length got, e), (data @ got, cap'), r'))"
    using readNextBodyBytes_step [OF less.prems(2)] by blast
  obtain got e r1 where rd: "rd r (Suc k) = ((got, e), r1)" by (metis prod.exhaust)
  moreover have "length got \<le> Suc k"
    using read_data [OF less.prems(1)] read_end [OF less.prems(1)] rd by (cases e) blast+
  ultimately obtain cap' where step: "rd r (Suc k) = ((got, e), r1)" "length (data @ got) \<le> cap'"
    "readNextBodyBytes rd grow r (data, cap) = ((length got, e), (data @ got, cap'), r1)" using k by blast
  show ?case
  proof (cases e)
    case None
    then obtain s' where s': "got \<noteq> []" "s = got @ s'" "delivers r1 s'"
      using read_data [OF less.prems(1)] step(1) by blast
    show ?thesis
    proof (cases "over_limit maxBytes (data @ got)")
      case True
      then have "over_limit maxBytes (data @ s)" using s' by (auto simp: over_limit_def)
      with True s' step None show ?thesis
        by (subst read_loop.simps) (auto simp: over_limit_def body_result_def)
    next
      case False
      then have "read_loop rd grow maxBytes r (data, cap) = read_loop rd grow maxBytes r1 (data @ got, cap')"
        using step None by (subst read_loop.simps) (auto simp: over_limit_def)
      moreover have "\<exists>r'. read_loop rd grow maxBytes r1 (data @ got, cap') =
          Some (body_result maxBytes ((data @ got) @ s'), r') \<and>
          (\<not> over_limit maxBytes ((data @ got) @ s') \<longrightarrow> at_end r' \<and> delivers r' [])"
        using s' step(2) False by (intro less.hyps) auto
      ultimately show ?thesis using s' by simp
    qed
  next
    case (Some x)
    with read_end [OF less.prems(1)] step(1) have x: "x = EOF" "got = s" "delivers r1 []" "at_end r1" by blast+
    with Some step less.prems(3) show ?thesis
      by (subst read_loop.simps) (auto simp: over_limit_def body_result_def normalizeReadAllError_def)
  qed
qed

lemma readAllLimited_delivers:
  assumes "delivers r s" "maxBytes < MaxInt64"
  shows "\<exists>r'. readAllLimitedWithCapacity rd sz grow r maxBytes capacity = Some (body_result maxBytes s, r') \<and>
     (\<not> over_limit maxBytes s \<longrightarrow> at_end r' \<and> delivers r' [])"
proof (cases "initialReadCapacity maxBytes capacity = 0")
  case False
  with read_loop_delivers [OF assms(1), of "[]"] show ?thesis
    by (simp add: readAllLimitedWithCapacity_def over_limit_def)
next
  case True
  show ?thesis
  proof (cases "maxBytes < 0")
    case True
    with ReadAll_delivers [OF assms(1), of sz "[]"] \<open>initialReadCapacity maxBytes capacity = 0\<close> show ?thesis
      by (auto simp: readAllLimitedWithCapacity_def readAllLimitedDefault_def body_result_def over_limit_def)
  next
    case False
    then have "in_int64 (maxBytes + 1)" using assms(2) by (intro in_int64_nonneg) auto
    then have w: "wrap64 (maxBytes + 1) = maxBytes + 1" by simp
    obtain r' N' where r': "io_ReadAll (limited_read rd) sz (r, maxBytes + 1) [] =
        Some ((take (nat (maxBytes + 1)) s, None), (r', N'))" "delivers r' (drop (nat (maxBytes + 1)) s)"
        "int (length s) < maxBytes + 1 \<longrightarrow> at_end r'"
      using ReadAll_limited [OF assms(1)] by blast
    then show ?thesis using False w \<open>initialReadCapacity maxBytes capacity = 0\<close>
      by (auto simp: readAllLimitedWithCapacity_def readAllLimitedDefault_def body_result_def over_limit_def
          bodyWithinLimit_def)
  qed
qed

text \<open>A body that was not touched yet and whose reader will deliver \<open>s\<close>.\<close>

definition fresh_body :: "string \<Rightarrow> ('r, 'z) lazy_body_scheme \<Rightarrow> bool" where
  "fresh_body s m \<longleftrightarrow> \<not> bodyOnce m \<and> bodyErr m = None \<and> Body m = None \<and> \<not> bodyLoaded m \<and>
     (\<exists>r. BodyReader m = Some r \<and> delivers r s)"

lemma load_once_fresh:
  assumes "fresh_body s m" "maxBytes < MaxInt64"
  shows "\<exists>r'. (\<not> over_limit maxBytes s \<longrightarrow> at_end r' \<and> delivers r' []) \<and>
     load_once rd sz grow maxBytes capacity errFmt m =
       Some (if over_limit maxBytes s
             then m\<lparr>bodyOnce := True, BodyReader := Some r', bodyErr := Some (ErrWrap errFmt (tooLarge maxBytes)), Body := None\<rparr>
             else m\<lparr>bodyOnce := True, BodyReader := Some r', Body := Some s, bodyLoaded := True\<rparr>)"
proof -
  obtain r where r: "BodyReader m = Some r" "delivers r s" using assms(1) by (auto simp: fresh_body_def)
  from readAllLimited_delivers [OF r(2) assms(2), of sz grow capacity] show ?thesis
    using r(1) assms(1) by (auto simp: load_once_def fresh_body_def body_result_def)
qed

end

lemma load_once_again: "bodyOnce m \<Longrightarrow> load_once rd sz grow maxBytes capacity errFmt m = Some m"
  by (simp add: load_once_def)

text \<open>Every later call, with whatever limit, works on the outcome of the first one and leaves it alone.\<close>

lemma lazyLoad_again:
  "bodyOnce m \<Longrightarrow> lazyLoadBodyLimitedWithCapacity rd sz grow maxBytes capacity errFmt m =
     Some (case bodyErr m of
             Some e \<Rightarrow> ((None, Some e), m)
           | None \<Rightarrow> if over_limit maxBytes (body_bytes m) then ((None, Some (tooLarge maxBytes)), m) else ((Body m, None), m))"
  by (simp add: lazyLoadBodyLimitedWithCapacity_def load_once_again over_limit_def split: option.split)

section \<open>Previews\<close>

context io_reader
begin

lemma GetPreviewBody_fresh:
  assumes "io_reader.fresh_body delivers_multi s m" "0 < n" "n \<le> DefaultMaxPreviewBytes"
  shows "\<exists>m'. GetPreviewBody rd sz grow n m = Some ((Some (take (nat n) s), None), m') \<and>
     io_reader.fresh_body delivers_multi s m'"
proof -
  note fresh_def = io_reader.fresh_body_def [OF multi_reader]
  obtain r where r: "BodyReader m = Some r" "delivers_multi r s" using assms(1) by (auto simp: fresh_def)
  obtain r' N' where read: "io_ReadAll (limited_read (multi_read rd)) sz (r, n) [] = Some ((take (nat n) s, None), (r', N'))"
    "delivers_multi r' (drop (nat n) s)"
    using io_reader.ReadAll_limited [OF multi_reader r(2), of sz n] by blast
  have "delivers_multi (Multi (take (nat n) s) r' False) s"
    using read(2) by (auto intro!: exI [of _ "drop (nat n) s"])
  then show ?thesis
    using assms r(1) read(1) by (auto simp: GetPreviewBody_def fresh_def DefaultMaxPreviewBytes_def)
qed

lemma GetBodyLimited_fresh:
  assumes "fresh_body s m" "maxBytes < MaxInt64"
  shows "\<exists>m'. GetBodyLimited rd sz grow maxBytes m =
       Some (if over_limit maxBytes s then (None, Some (ErrWrap ''loading body: '' (tooLarge maxBytes)))
             else (Some s, None), m') \<and>
     bodyOnce m' \<and> bodyErr m' = (if over_limit maxBytes s then Some (ErrWrap ''loading body: '' (tooLarge maxBytes)) else None) \<and>
     (\<not> over_limit maxBytes s \<longrightarrow> Body m' = Some s \<and> (\<exists>r'. BodyReader m' = Some r' \<and> at_end r'))"
  using load_once_fresh [OF assms, of sz grow "contentLengthHint m" "''loading body: ''"] assms(1)
  by (auto simp: GetBodyLimited_def lazyLoadBodyLimitedWithCapacity_def fresh_body_def body_bytes_def over_limit_def)

end

abbreviation chunked_rd :: "chunked_reader reader" where
  "chunked_rd \<equiv> \<lambda>cr k. Chunked_Read k cr"

interpretation msg: io_reader "multi_read chunked_rd" "chunked.delivers_multi rest" "chunked.multi_end rest" for rest
  by (rule chunked.multi_reader)

text \<open>A message as the parser leaves it: nothing read yet, the body behind \<open>r\<close>.\<close>

definition unread :: "'r \<Rightarrow> ('r, 'z) lazy_body_scheme \<Rightarrow> bool" where
  "unread r m \<longleftrightarrow> BodyReader m = Some r \<and> Body m = None \<and> \<not> bodyLoaded m \<and> bodyErr m = None \<and> \<not> bodyOnce m"

lemma unread_fresh:
  assumes "unread (Single (NewChunkedReader src)) m" "chunks_ok ps" "ext_ok es"
    "pending src = concat (map chunk ps) @ zero_chunk es @ rest"
  shows "msg.fresh_body rest (concat ps) m"
  using assms delivers_chunked_New [OF assms(2-4)] by (simp add: msg.fresh_body_def unread_def)

definition conn_left :: "(chunked_reader multi_reader, 'z) lazy_body_scheme \<Rightarrow> string" where
  "conn_left m = (case BodyReader m of None \<Rightarrow> [] | Some r \<Rightarrow> pending (cr_src (multi_base r)))"

section \<open>Properties\<close>

text \<open>
  C15: loading an embedded body.  For a chunked body on the connection followed by other bytes,
  \<open>GetBodyLimited\<close> returns the whole body exactly when it is within the limit, whatever the
  \<open>Content-Length\<close> hint, the buffer sizes and the chunking; it leaves the connection at the first
  byte behind the body.  A longer body gives \<open>ErrBodyTooLarge\<close>.  The body is loaded once: every later call
  returns the stored outcome (subject to its own limit) and leaves the message unchanged.
\<close>

theorem body_limit_exact:
  assumes "unread (Single (NewChunkedReader src)) m" and "chunks_ok ps" and "ext_ok es"
    and "pending src = concat (map chunk ps) @ zero_chunk es @ rest"
    and "maxBytes < MaxInt64"
  shows "\<exists>m'. GetBodyLimited (multi_read chunked_rd) sz grow maxBytes m =
       Some (if 0 \<le> maxBytes \<and> maxBytes < int (length (concat ps))
             then (None, Some (ErrWrap ''loading body: '' (tooLarge maxBytes))) else (Some (concat ps), None), m') \<and>
     (int (length (concat ps)) \<le> maxBytes \<or> maxBytes < 0 \<longrightarrow> conn_left m' = rest) \<and>
     (\<forall>sz' grow' n. GetBodyLimited (multi_read chunked_rd) sz' grow' n m' =
        Some (if 0 \<le> maxBytes \<and> maxBytes < int (length (concat ps))
              then (None, Some (ErrWrap ''loading body: '' (tooLarge maxBytes)))
              else if 0 \<le> n \<and> n < int (length (concat ps)) then (None, Some (tooLarge n))
              else (Some (concat ps), None), m'))"
proof -
  let ?s = "concat ps"
  obtain m' where m': "GetBodyLimited (multi_read chunked_rd) sz grow maxBytes m =
       Some (if over_limit maxBytes ?s then (None, Some (ErrWrap ''loading body: '' (tooLarge maxBytes)))
             else (Some ?s, None), m')"
    "bodyOnce m'"
    "bodyErr m' = (if over_limit maxBytes ?s then Some (ErrWrap ''loading body: '' (tooLarge maxBytes)) else None)"
    "\<not> over_limit maxBytes ?s \<longrightarrow> Body m' = Some ?s \<and> (\<exists>r'. BodyReader m' = Some r' \<and> chunked.multi_end rest r')"
    using msg.GetBodyLimited_fresh [OF unread_fresh [OF assms(1-4)] assms(5), of sz grow] by blast
  have "conn_left m' = rest" if "\<not> over_limit maxBytes ?s"
    using m'(4) that by (auto simp: conn_left_def chunked.multi_end_base chunked_end_def)
  then show ?thesis
    using m' by (intro exI [of _ m'])
      (auto simp: GetBodyLimited_def lazyLoad_again over_limit_def body_bytes_def)
qed

definition sample_message :: "'r \<Rightarrow> header option \<Rightarrow> ('r, 'b) http_message" where
  "sample_message r h = \<lparr>BodyReader = Some r, Body = None, bodyLoaded = False, bodyErr = None, bodyOnce = False,
     BodyStream = None, m_Header = h, m_Method = ''POST'', m_URI = ''/upload'', m_Status = [], m_StatusText = [],
     m_Proto = ''HTTP/1.1''\<rparr>"

lemma unread_sample [simp]: "unread r (sample_message r h)"
  by (simp add: unread_def sample_message_def)

theorem body_limit_exact_witness:
  "\<exists>m'. GetBodyLimited (multi_read chunked_rd) (\<lambda>i. 511) (\<lambda>c n. 2 * n) 4
       (sample_message (Single (NewChunkedReader (bytes_reader (chunk ''hel'' @ chunk ''lo'' @ zero_chunk [] @ ''NEXT'')))) None) =
     Some ((None, Some (ErrWrap ''loading body: '' (tooLarge 4))), m') \<and>
   (\<exists>m''. GetBodyLimited (multi_read chunked_rd) (\<lambda>i. 511) (\<lambda>c n. 2 * n) 5
       (sample_message (Single (NewChunkedReader (bytes_reader (chunk ''hel'' @ chunk ''lo'' @ zero_chunk [] @ ''NEXT'')))) None) =
     Some ((Some ''hello'', None), m'') \<and> conn_left m'' = ''NEXT'')"
proof -
  let ?src = "bytes_reader (chunk ''hel'' @ chunk ''lo'' @ zero_chunk [] @ ''NEXT'')"
  have h: "chunks_ok [''hel'', ''lo'']" "ext_ok []"
    "pending ?src = concat (map chunk [''hel'', ''lo'']) @ zero_chunk [] @ ''NEXT''"
    by (simp_all add: chunks_ok_def MaxChunkSize_def bytes_reader_def)
  have lt: "(4::int) < MaxInt64" "(5::int) < MaxInt64" by (simp_all add: MaxInt64_def)
  show ?thesis
    using body_limit_exact [OF unread_sample [where h = None] h lt(1), of "\<lambda>i. 511" "\<lambda>c n. 2 * n"]
      body_limit_exact [OF unread_sample [where h = None] h lt(2), of "\<lambda>i. 511" "\<lambda>c n. 2 * n"]
    by (simp del: fun_upd_apply) blast
qed

text \<open>
  previews.  \<open>GetPreviewBody\<close> of \<open>n\<close> bytes returns the first \<open>n\<close> bytes of the body (all of it
  when it is shorter) and loses nothing: a second preview of another size and then the full body
  still see the body from its first byte, and the connection ends up behind it.
\<close>

theorem preview_then_body:
  assumes "unread (Single (NewChunkedReader src)) m" and "chunks_ok ps" and "ext_ok es"
    and "pending src = concat (map chunk ps) @ zero_chunk es @ rest"
    and "0 < n1" "n1 \<le> DefaultMaxPreviewBytes" and "0 < n2" "n2 \<le> DefaultMaxPreviewBytes"
  shows "\<exists>m1 m2 m3. GetPreviewBody chunked_rd sz grow n1 m = Some ((Some (take (nat n1) (concat ps)), None), m1) \<and>
     GetPreviewBody chunked_rd sz grow n2 m1 = Some ((Some (take (nat n2) (concat ps)), None), m2) \<and>
     GetBody (multi_read chunked_rd) sz grow m2 = Some ((Some (concat ps), None), m3) \<and>
     conn_left m3 = rest"
proof -
  obtain m1 where m1: "GetPreviewBody chunked_rd sz grow n1 m = Some ((Some (take (nat n1) (concat ps)), None), m1)"
    "msg.fresh_body rest (concat ps) m1"
    using chunked.GetPreviewBody_fresh [OF unread_fresh [OF assms(1-4)] assms(5,6)] by blast
  obtain m2 where m2: "GetPreviewBody chunked_rd sz grow n2 m1 = Some ((Some (take (nat n2) (concat ps)), None), m2)"
    "msg.fresh_body rest (concat ps) m2"
    using chunked.GetPreviewBody_fresh [OF m1(2) assms(7,8)] by blast
  obtain m3 r' where "GetBody (multi_read chunked_rd) sz grow m2 = Some ((Some (concat ps), None), m3)"
    "BodyReader m3 = Some r'" "chunked.multi_end rest r'"
    using msg.GetBodyLimited_fresh [OF m2(2), of "-1" sz grow] by (auto simp: MaxInt64_def over_limit_def GetBody_def GetBodyLimited_def)
  with m1 m2 show ?thesis by (auto simp: conn_left_def chunked.multi_end_base chunked_end_def)
qed

theorem preview_then_body_witness:
  "\<exists>m1 m2 m3. GetPreviewBody chunked_rd (\<lambda>i. 511) (\<lambda>c n. 2 * n) 3
       (sample_message (Single (NewChunkedReader (bytes_reader (chunk ''hello'' @ zero_chunk [] @ ''NEXT'')))) None) =
     Some ((Some ''hel'', None), m1) \<and>
   GetPreviewBody chunked_rd (\<lambda>i. 511) (\<lambda>c n. 2 * n) 4 m1 = Some ((Some ''hell'', None), m2) \<and>
   GetBody (multi_read chunked_rd) (\<lambda>i. 511) (\<lambda>c n. 2 * n) m2 = Some ((Some ''hello'', None), m3) \<and>
   conn_left m3 = ''NEXT''"
proof -
  let ?src = "bytes_reader (chunk ''hello'' @ zero_chunk [] @ ''NEXT'')"
  have "chunks_ok [''hello'']" "ext_ok []"
    "pending ?src = concat (map chunk [''hello'']) @ zero_chunk [] @ ''NEXT''"
    "(0::int) < 3" "(3::int) \<le> DefaultMaxPreviewBytes" "(0::int) < 4" "(4::int) \<le> DefaultMaxPreviewBytes"
    by (simp_all add: chunks_ok_def MaxChunkSize_def bytes_reader_def DefaultMaxPreviewBytes_def)
  from preview_then_body [OF unread_sample this, of "\<lambda>i. 511" "\<lambda>c n. 2 * n"] show ?thesis by simp
qed

text \<open>
  with a \<open>Content-Length\<close> equal to the limit, \<open>GetBodyLimited\<close> takes 512 bytes more than
  the limit from the reader before it reports the body as too large; its comment promises that no more than
  \<open>maxBytes+1\<close> bytes are read.
\<close>

theorem limit_overread:
  assumes "unread s m" and "contentLengthHint m = maxBytes" and "0 < maxBytes" and "maxBytes \<le> 1048576"
    and "nat maxBytes + 512 \<le> length s"
  shows "\<exists>m'. GetBodyLimited bytes_read sz grow maxBytes m =
       Some ((None, Some (ErrWrap ''loading body: '' (tooLarge maxBytes))), m') \<and>
     BodyReader m' = Some (drop (nat maxBytes + 512) s)"
proof -
  let ?n = "nat maxBytes"
  have "in_int64 maxBytes" using assms(3,4) by (intro in_int64_nonneg) (auto simp: MaxInt64_def)
  then have cap: "initialReadCapacity maxBytes maxBytes = ?n" "?n \<noteq> 0"
    using assms(3,4) by (auto simp: initialReadCapacity_def readCapacityWithinLimit_def maxInitialBodyReadCapacity_def)
  have len: "length (take ?n s) = ?n" "s \<noteq> []" "drop ?n s \<noteq> []" using assms(3,5) by auto
  have "read_loop bytes_read grow maxBytes s ([], ?n) = read_loop bytes_read grow maxBytes (drop ?n s) (take ?n s, ?n)"
    using cap len assms(3) by (subst read_loop.simps) (simp add: readNextBodyBytes_def bytes_read_def)
  also have "\<dots> = Some ((None, Some (tooLarge maxBytes)), drop 512 (drop ?n s))"
    using cap len assms(3,5)
    by (subst read_loop.simps) (simp add: readNextBodyBytes_def bytes_read_def stackReadBufferSize_def)
  finally have "readAllLimitedWithCapacity bytes_read sz grow s maxBytes maxBytes =
      Some ((None, Some (tooLarge maxBytes)), drop (?n + 512) s)"
    using cap by (simp add: readAllLimitedWithCapacity_def add.commute)
  with assms(1,2) show ?thesis
    by (simp add: GetBodyLimited_def lazyLoadBodyLimitedWithCapacity_def load_once_def unread_def)
qed

theorem limit_overread_witness:
  "\<exists>m'. GetBodyLimited bytes_read (\<lambda>i. 511) (\<lambda>c n. 2 * n) 10
       (sample_message (replicate 600 (CHR ''a'')) (Some [(''Content-Length'', [''10''])])) =
     Some ((None, Some (ErrWrap ''loading body: '' (tooLarge 10))), m') \<and>
   BodyReader m' = Some (drop 522 (replicate 600 (CHR ''a'')))"
proof -
  have "contentLengthHint (sample_message (replicate 600 (CHR ''a'')) (Some [(''Content-Length'', [''10''])])) = 10"
    by code_simp
  from limit_overread [OF unread_sample this] show ?thesis by simp
qed

text \<open>
  The limit \<open>MaxInt64\<close> overflows: \<open>maxBytes + 1\<close> wraps around to a negative count, so that,
  without a \<open>Content-Length\<close> hint that selects the other path, \<open>GetBodyLimited\<close> reports success with an
  empty body and takes nothing from the reader, whatever the body is.
\<close>

theorem limit_overflow_loses_body:
  assumes "unread r m" and "initialReadCapacity MaxInt64 (contentLengthHint m) = 0"
  shows "\<exists>m'. GetBodyLimited rd sz grow MaxInt64 m = Some ((Some [], None), m') \<and>
     BodyReader m' = Some r \<and> bodyLoaded m'"
proof -
  have w: "wrap64 (MaxInt64 + 1) \<le> 0" by (simp add: wrap64_def MaxInt64_def)
  have "io_ReadAll (limited_read rd) sz (r, wrap64 (MaxInt64 + 1)) [] =
      Some (([], None), (r, wrap64 (MaxInt64 + 1)))"
    using w by (subst io_ReadAll.simps) (simp add: limited_read_def)
  then have "readAllLimitedWithCapacity rd sz grow r MaxInt64 (contentLengthHint m) = Some ((Some [], None), r)"
    using assms(2) by (simp add: readAllLimitedWithCapacity_def readAllLimitedDefault_def bodyWithinLimit_def MaxInt64_def)
  with assms(1) show ?thesis
    by (simp add: GetBodyLimited_def lazyLoadBodyLimitedWithCapacity_def load_once_def unread_def body_bytes_def MaxInt64_def)
qed

theorem limit_overflow_loses_body_witness:
  "\<exists>m'. GetBodyLimited bytes_read (\<lambda>i. 511) (\<lambda>c n. 2 * n) MaxInt64 (sample_message ''hello'' None) =
     Some ((Some [], None), m') \<and> BodyReader m' = Some ''hello'' \<and> bodyLoaded m'"
  by (rule limit_overflow_loses_body) (simp, code_simp)

end
