(* ===== verification/Server_Protocol.thy ===== *)
theory Server_Protocol
  imports Icap_Message
begin

text \<open>
  \<^verbatim>\<open>internal/server/protocol.go\<close> and \<^verbatim>\<open>protocol_respmod.go\<close>: parsing of an ICAP request from the
  connection.

  Every parser takes the byte source of the connection and returns the rest of it.  The code keeps
  pointers to the same buffered reader in \<open>req.BodyReader\<close> and inside the \<open>ChunkedReader\<close>s of the
  embedded messages; in the model a body refers to its source by a \<open>body_ref\<close>, which makes the sharing of the
  connection explicit, and \<open>attach\<close> turns it into a reader once the connection is known.
\<close>

section \<open>Lines and headers\<close>

definition maxProtocolRequestLineBytes :: nat where "maxProtocolRequestLineBytes = 8 * 1024"
definition maxProtocolStatusLineBytes :: nat where "maxProtocolStatusLineBytes = 4 * 1024"
definition maxProtocolHeaderLineBytes :: nat where "maxProtocolHeaderLineBytes = 8 * 1024"
definition maxProtocolHeaderBytes :: nat where "maxProtocolHeaderBytes = 64 * 1024"
definition maxHeaders :: nat where "maxHeaders = 1000"

lemmas protocol_limits = maxProtocolRequestLineBytes_def maxProtocolStatusLineBytes_def
  maxProtocolHeaderLineBytes_def maxProtocolHeaderBytes_def maxHeaders_def

definition max_bytes_text :: "nat \<Rightarrow> string" where
  "max_bytes_text n = '': max '' @ go_Itoa (int n) @ '' bytes''"

definition appendProtocolLineByte :: "string \<Rightarrow> char \<Rightarrow> nat \<Rightarrow> string \<times> bool \<times> go_error option" where
  "appendProtocolLineByte buf b maxBytes =
     (if b = LF then (buf, True, None)
      else if length buf \<ge> maxBytes then (buf, False, Some (ErrWrap (max_bytes_text maxBytes) ErrLineTooLong))
      else (buf @ [b], False, None))"

definition trimProtocolLineEnding :: "string \<Rightarrow> string" where
  "trimProtocolLineEnding line = (if length line > 0 \<and> last line = CR then butlast line else line)"

text \<open>The byte loop; its last argument is what the source still has.\<close>

fun protocol_line_loop :: "nat \<Rightarrow> go_error \<Rightarrow> string \<Rightarrow> string \<Rightarrow> (go_error + string) \<times> string" where
  "protocol_line_loop maxBytes err buf [] =
     (if go_Is err EOF \<and> length buf > 0 then (Inr (trimProtocolLineEnding buf), []) else (Inl err, []))"
| "protocol_line_loop maxBytes err buf (b # bs) =
     (case appendProtocolLineByte buf b maxBytes of
        (line, _, Some e) \<Rightarrow> (Inl e, bs)
      | (line, True, None) \<Rightarrow> (Inr (trimProtocolLineEnding line), bs)
      | (line, False, None) \<Rightarrow> protocol_line_loop maxBytes err line bs)"

definition readProtocolLine :: "source \<Rightarrow> nat \<Rightarrow> (go_error + string) \<times> source" where
  "readProtocolLine src maxBytes =
     (case protocol_line_loop maxBytes (final_err src) [] (pending src) of
        (res, rest) \<Rightarrow> (res, src\<lparr>pending := rest\<rparr>))"

definition parseHeaderLine :: "string \<Rightarrow> go_error + string \<times> string" where
  "parseHeaderLine line =
     (case go_IndexByte line (CHR '':'') of
        None \<Rightarrow> Inl ErrMalformedHeaders
      | Some idx \<Rightarrow>
          (let key = go_TrimSpace (take idx line); v = go_TrimSpace (drop (Suc idx) line) in
           if key = [] then Inl ErrMalformedHeaders else Inr (key, v)))"

lemma protocol_line_loop_shorter:
  "protocol_line_loop mx err buf bs = (Inr line, rest) \<Longrightarrow> buf = [] \<or> bs \<noteq> [] \<Longrightarrow> length rest < length bs"
proof (induction mx err buf bs rule: protocol_line_loop.induct)
  case (2 mx err buf b bs)
  show ?case
  proof (cases "bs = []")
    case True
    with 2(2) show ?thesis
      by (auto simp: appendProtocolLineByte_def split: if_splits)
  next
    case False
    with 2 show ?thesis
      by (fastforce simp: appendProtocolLineByte_def split: if_splits)
  qed
qed (auto split: if_splits)

lemma readProtocolLine_shorter:
  "readProtocolLine src mx = (Inr line, src') \<Longrightarrow> length (pending src') < length (pending src)"
  by (auto simp: readProtocolLine_def split: prod.splits dest!: protocol_line_loop_shorter)

function header_loop :: "header \<Rightarrow> nat \<Rightarrow> nat \<Rightarrow> source \<Rightarrow> (go_error + header) \<times> source" where
  "header_loop headers count totalBytes src =
     (case readProtocolLine src maxProtocolHeaderLineBytes of
        (Inl e, src') \<Rightarrow>
          if go_Is e EOF then (Inr headers, src') else (Inl (ErrWrap ''reading headers: '' e), src')
      | (Inr line, src') \<Rightarrow>
          (let totalBytes' = totalBytes + length line + 2 in
           if totalBytes' > maxProtocolHeaderBytes
           then (Inl (ErrWrap (max_bytes_text maxProtocolHeaderBytes) ErrHeadersTooLarge), src')
           else if line = [] then (Inr headers, src')
           else (case parseHeaderLine line of
                   Inl e \<Rightarrow> (Inl e, src')
                 | Inr (key, v) \<Rightarrow>
                     if Suc count > maxHeaders then (Inl (ErrNew ''too many headers (max 1000)''), src')
                     else header_loop (Header_Add headers key v) (Suc count) totalBytes' src')))"
  by pat_completeness auto
termination
  by (relation "measure (\<lambda>(h, c, t, src). length (pending src))")
     (auto dest!: readProtocolLine_shorter [OF sym])

declare header_loop.simps [simp del]

definition parseHeaders :: "source \<Rightarrow> (go_error + header) \<times> source" where
  "parseHeaders src = header_loop NewHeader 0 0 src"

section \<open>The request line\<close>

definition isValidICAPMethod :: "string \<Rightarrow> bool" where
  "isValidICAPMethod m \<longleftrightarrow> m \<in> {MethodREQMOD, MethodRESPMOD, MethodOPTIONS}"

definition isValidICAPVersion :: "string \<Rightarrow> bool" where
  "isValidICAPVersion v \<longleftrightarrow> v = ''ICAP/1.0''"

definition parseRequestLine :: "source \<Rightarrow> (go_error + string \<times> string \<times> string) \<times> source" where
  "parseRequestLine src =
     (case readProtocolLine src maxProtocolRequestLineBytes of
        (Inl e, src') \<Rightarrow> (Inl (ErrWrap ''reading request line: '' e), src')
      | (Inr line, src') \<Rightarrow>
          (case go_Split line (CHR '' '') of
             [meth, uri, version] \<Rightarrow>
               if \<not> isValidICAPMethod meth then (Inl SrvErrInvalidMethod, src')
               else if length uri < 7 \<or> \<not> go_EqualFold (take 7 uri) ''icap://'' then (Inl SrvErrInvalidURIScheme, src')
               else if \<not> isValidICAPVersion version then (Inl SrvErrInvalidVersion, src')
               else (Inr (meth, uri, version), src')
           | _ \<Rightarrow> (Inl SrvErrInvalidRequestLine, src')))"

section \<open>Embedded HTTP messages\<close>

datatype body_ref = ConnStream | ChunkedOnConn | ChunkedOnBytes string

type_synonym 'b parsed_message = "(body_ref, 'b) http_message"
type_synonym 'b parsed_request = "(body_ref, body_ref, 'b) request"

definition zero_message :: "('r, 'b) http_message" where
  "zero_message = \<lparr>BodyReader = None, Body = None, bodyLoaded = False, bodyErr = None, bodyOnce = False,
     BodyStream = None, m_Header = None, m_Method = [], m_URI = [], m_Status = [], m_StatusText = [], m_Proto = []\<rparr>"

definition newRequestSectionMessage :: "string \<Rightarrow> go_error + 'b parsed_message" where
  "newRequestSectionMessage line =
     (case go_Split line (CHR '' '') of
        meth # uri # proto # _ \<Rightarrow>
          Inr (zero_message\<lparr>m_Method := meth, m_URI := uri, m_Proto := proto, m_Header := Some NewHeader\<rparr>)
      | _ \<Rightarrow> Inl (ErrNew ''invalid HTTP request line''))"

definition newResponseSectionMessage :: "string \<Rightarrow> go_error + 'b parsed_message" where
  "newResponseSectionMessage line =
     (case go_SplitN line (CHR '' '') 3 of
        [proto, status, text] \<Rightarrow>
          Inr (zero_message\<lparr>m_Proto := proto, m_Status := status, m_StatusText := text, m_Header := Some NewHeader\<rparr>)
      | _ \<Rightarrow> Inl (ErrNew ''invalid HTTP response line''))"

definition parseEmbeddedHTTPRequestStreaming ::
  "'b parsed_request \<Rightarrow> source \<Rightarrow> (go_error + 'b parsed_request) \<times> source" where
  "parseEmbeddedHTTPRequestStreaming req src =
     (case readProtocolLine src maxProtocolRequestLineBytes of
        (Inl e, src1) \<Rightarrow>
          if go_Is e EOF then (Inr req, src1) else (Inl (ErrWrap ''reading HTTP request line: '' e), src1)
      | (Inr line, src1) \<Rightarrow>
          (case go_Split line (CHR '' '') of
             meth # uri # proto # _ \<Rightarrow>
               (case parseHeaders src1 of
                  (Inl e, src2) \<Rightarrow> (Inl (ErrWrap ''parsing HTTP headers: '' e), src2)
                | (Inr h, src2) \<Rightarrow>
                    (Inr (req\<lparr>HTTPRequest := Some (zero_message\<lparr>m_Method := meth, m_URI := uri, m_Proto := proto,
                            m_Header := Some h,
                            BodyReader := if HasReqBody (r_Encapsulated req) then Some ChunkedOnConn else None\<rparr>)\<rparr>), src2))
           | _ \<Rightarrow> (Inl (ErrNew ''invalid embedded HTTP request line''), src1)))"

definition parseEmbeddedHTTPResponseStreaming ::
  "'b parsed_request \<Rightarrow> source \<Rightarrow> (go_error + 'b parsed_request) \<times> source" where
  "parseEmbeddedHTTPResponseStreaming req src =
     (case readProtocolLine src maxProtocolStatusLineBytes of
        (Inl e, src1) \<Rightarrow>
          if go_Is e EOF then (Inr req, src1) else (Inl (ErrWrap ''reading HTTP response line: '' e), src1)
      | (Inr line, src1) \<Rightarrow>
          (case go_SplitN line (CHR '' '') 3 of
             [proto, status, text] \<Rightarrow>
               (case parseHeaders src1 of
                  (Inl e, src2) \<Rightarrow> (Inl (ErrWrap ''parsing HTTP headers: '' e), src2)
                | (Inr h, src2) \<Rightarrow>
                    (Inr (req\<lparr>HTTPResponse := Some (zero_message\<lparr>m_Proto := proto, m_Status := status, m_StatusText := text,
                            m_Header := Some h,
                            BodyReader := if HasResBody (r_Encapsulated req) then Some ChunkedOnConn else None\<rparr>)\<rparr>), src2))
           | _ \<Rightarrow> (Inl (ErrNew ''invalid embedded HTTP response line''), src1)))"

section \<open>RESPMOD with a request body in front of the response\<close>

definition maxSegmentedRESPMODRequestBodyBytes :: nat where
  "maxSegmentedRESPMODRequestBodyBytes = 10 * 1024 * 1024"

definition needsSegmentedRESPMODParsing :: "'b parsed_request \<Rightarrow> bool" where
  "needsSegmentedRESPMODParsing req \<longleftrightarrow>
     r_Method req = MethodRESPMOD \<and> HasReqBody (r_Encapsulated req) \<and> ResHdr (r_Encapsulated req) \<ge> 0"

definition validateSegmentedRESPMODOffsets :: "encapsulated \<Rightarrow> go_error option" where
  "validateSegmentedRESPMODOffsets e =
     (if ReqHdr e < 0 \<or> ReqBody e < ReqHdr e \<or> ResHdr e < ReqBody e
      then Some (ErrNew ''invalid RESPMOD encapsulated offsets'')
      else if HasResBody e \<and> ResBody e < ResHdr e then Some (ErrNew ''invalid RESPMOD response body offset'')
      else if NullBody e \<ge> 0 \<and> NullBody e < ResHdr e then Some (ErrNew ''invalid RESPMOD null body offset'')
      else None)"

definition segmentedRESPMODResponseEnd :: "encapsulated \<Rightarrow> int" where
  "segmentedRESPMODResponseEnd e = (if HasResBody e then ResBody e else NullBody e)"

definition readRESPMODSection :: "source \<Rightarrow> int \<Rightarrow> nat \<Rightarrow> string \<Rightarrow> (go_error + string) \<times> source" where
  "readRESPMODSection src size' maxSize name =
     (if size' < 0 then (Inl (ErrNew (''invalid '' @ name @ '' section size: '' @ go_Itoa size')), src)
      else if size' > int maxSize
      then (Inl (ErrWrap ('': '' @ name @ '' max '' @ go_Itoa (int maxSize) @ '' bytes'') SrvErrBodyTooLarge), src)
      else (case go_ReadFull src (nat size') of
              ((_, Some e), src') \<Rightarrow> (Inl (ErrWrap (''reading '' @ name @ '' section: '') e), src')
            | ((data, None), src') \<Rightarrow> (Inr data, src')))"

definition discardRESPMODSection :: "source \<Rightarrow> int \<Rightarrow> string \<Rightarrow> go_error option \<times> source" where
  "discardRESPMODSection src size' name =
     (if size' < 0 then (Some (ErrNew (''invalid '' @ name @ '' section size: '' @ go_Itoa size')), src)
      else (case go_Discard src (nat size') of
              (Some e, src') \<Rightarrow> (Some (ErrWrap (''reading '' @ name @ '' section: '') e), src')
            | (None, src') \<Rightarrow> (None, src')))"

definition ensureSectionConsumed :: "source \<Rightarrow> string \<Rightarrow> go_error option" where
  "ensureSectionConsumed src name =
     (if pending src = []
      then (if go_Is (final_err src) EOF then None
            else Some (ErrWrap (''checking '' @ name @ '' section: '') (final_err src)))
      else Some (ErrNew (''invalid '' @ name @ '' offset: section contains extra data'')))"

definition parseHTTPRequestSection :: "string \<Rightarrow> go_error + 'b parsed_message" where
  "parseHTTPRequestSection data =
     (case readProtocolLine (bytes_reader data) maxProtocolRequestLineBytes of
        (Inl e, _) \<Rightarrow> Inl (ErrWrap ''reading HTTP request line: '' e)
      | (Inr line, src1) \<Rightarrow>
          (case newRequestSectionMessage line of
             Inl e \<Rightarrow> Inl e
           | Inr message \<Rightarrow>
               (case parseHeaders src1 of
                  (Inl e, _) \<Rightarrow> Inl (ErrWrap ''parsing HTTP headers: '' e)
                | (Inr h, src2) \<Rightarrow>
                    (case ensureSectionConsumed src2 ''HTTP request header'' of
                       Some e \<Rightarrow> Inl e
                     | None \<Rightarrow> Inr (message\<lparr>m_Header := Some h\<rparr>)))))"

definition parseHTTPResponseSection :: "string \<Rightarrow> go_error + 'b parsed_message" where
  "parseHTTPResponseSection data =
     (case readProtocolLine (bytes_reader data) maxProtocolStatusLineBytes of
        (Inl e, _) \<Rightarrow> Inl (ErrWrap ''reading HTTP response line: '' e)
      | (Inr line, src1) \<Rightarrow>
          (case newResponseSectionMessage line of
             Inl e \<Rightarrow> Inl e
           | Inr message \<Rightarrow>
               (case parseHeaders src1 of
                  (Inl e, _) \<Rightarrow> Inl (ErrWrap ''parsing HTTP headers: '' e)
                | (Inr h, src2) \<Rightarrow>
                    (case ensureSectionConsumed src2 ''HTTP response header'' of
                       Some e \<Rightarrow> Inl e
                     | None \<Rightarrow> Inr (message\<lparr>m_Header := Some h\<rparr>)))))"

definition attachSegmentedRequestBody ::
  "'b parsed_request \<Rightarrow> 'b parsed_message \<Rightarrow> source \<Rightarrow> (go_error + 'b parsed_request) \<times> source" where
  "attachSegmentedRequestBody req message src =
     (case readRESPMODSection src (ResHdr (r_Encapsulated req) - ReqBody (r_Encapsulated req))
             maxSegmentedRESPMODRequestBodyBytes ''HTTP request body'' of
        (Inl e, src') \<Rightarrow> (Inl e, src')
      | (Inr body, src') \<Rightarrow>
          (Inr (req\<lparr>HTTPRequest := Some (if length body > 0 then message\<lparr>BodyReader := Some (ChunkedOnBytes body)\<rparr> else message)\<rparr>), src'))"

definition parseSegmentedRESPMODRequest ::
  "'b parsed_request \<Rightarrow> source \<Rightarrow> (go_error + 'b parsed_request) \<times> source" where
  "parseSegmentedRESPMODRequest req src =
     (case readRESPMODSection src (ReqBody (r_Encapsulated req) - ReqHdr (r_Encapsulated req))
             maxProtocolHeaderBytes ''HTTP request header'' of
        (Inl e, src') \<Rightarrow> (Inl e, src')
      | (Inr hdr, src') \<Rightarrow>
          (case parseHTTPRequestSection hdr of
             Inl e \<Rightarrow> (Inl e, src')
           | Inr message \<Rightarrow> attachSegmentedRequestBody req message src'))"

definition parseSegmentedRESPMODResponse ::
  "'b parsed_request \<Rightarrow> source \<Rightarrow> (go_error + 'b parsed_request) \<times> source" where
  "parseSegmentedRESPMODResponse req src =
     (let responseEnd = segmentedRESPMODResponseEnd (r_Encapsulated req) in
      if responseEnd < 0 then parseEmbeddedHTTPResponseStreaming req src
      else
        (case readRESPMODSection src (responseEnd - ResHdr (r_Encapsulated req)) maxProtocolHeaderBytes
                ''HTTP response header'' of
           (Inl e, src') \<Rightarrow> (Inl e, src')
         | (Inr hdr, src') \<Rightarrow>
             (case parseHTTPResponseSection hdr of
                Inl e \<Rightarrow> (Inl e, src')
              | Inr message \<Rightarrow>
                  (Inr (req\<lparr>HTTPResponse := Some (if HasResBody (r_Encapsulated req)
                       then message\<lparr>BodyReader := Some ChunkedOnConn\<rparr> else message)\<rparr>), src'))))"

definition parseSegmentedRESPMOD :: "'b parsed_request \<Rightarrow> source \<Rightarrow> (go_error + 'b parsed_request) \<times> source" where
  "parseSegmentedRESPMOD req src =
     (case validateSegmentedRESPMODOffsets (r_Encapsulated req) of
        Some e \<Rightarrow> (Inl e, src)
      | None \<Rightarrow>
          (case discardRESPMODSection src (ReqHdr (r_Encapsulated req)) ''request offset'' of
             (Some e, src1) \<Rightarrow> (Inl e, src1)
           | (None, src1) \<Rightarrow>
               (case parseSegmentedRESPMODRequest req src1 of
                  (Inl e, src2) \<Rightarrow> (Inl e, src2)
                | (Inr req', src2) \<Rightarrow> parseSegmentedRESPMODResponse req' src2)))"

section \<open>The whole request\<close>

definition parseEmbeddedHTTP :: "'b parsed_request \<Rightarrow> source \<Rightarrow> (go_error + 'b parsed_request) \<times> source" where
  "parseEmbeddedHTTP req src =
     (let encap = r_Encapsulated req in
      if IsEmpty encap then (Inr req, src)
      else if BodyReader req = None then (Inr req, src)
      else if needsSegmentedRESPMODParsing req then parseSegmentedRESPMOD req src
      else if r_Method req = MethodREQMOD \<and> ReqHdr encap \<ge> 0
      then parseEmbeddedHTTPRequestStreaming req src
      else if r_Method req = MethodRESPMOD \<and> ReqHdr encap \<ge> 0
      then (case parseEmbeddedHTTPRequestStreaming req src of
              (Inl e, src') \<Rightarrow> (Inl e, src')
            | (Inr req', src') \<Rightarrow>
                if ResHdr encap > 0 then parseEmbeddedHTTPResponseStreaming req' src' else (Inr req', src'))
      else (Inr req, src))"

definition parseICAPRequest :: "source \<Rightarrow> (go_error + 'b parsed_request) \<times> source" where
  "parseICAPRequest src =
     (case parseRequestLine src of
        (Inl e, src1) \<Rightarrow> (Inl e, src1)
      | (Inr (meth, uri, proto), src1) \<Rightarrow>
          (case parseHeaders src1 of
             (Inl e, src2) \<Rightarrow> (Inl e, src2)
           | (Inr headers, src2) \<Rightarrow>
               (let req = zero_request\<lparr>r_Method := meth, r_URI := uri, r_Proto := proto, r_Header := Some headers\<rparr> in
                case (case Header_Get headers ''Preview'' of
                        None \<Rightarrow> Inr req
                      | Some previewStr \<Rightarrow>
                          (case ParsePreviewHeader previewStr of
                             Inl e \<Rightarrow> Inl (ErrWrap ''parsing Preview header: '' e)
                           | Inr v \<Rightarrow> Inr (req\<lparr>Preview := v, PreviewSet := True\<rparr>))) of
                  Inl e \<Rightarrow> (Inl e, src2)
                | Inr req1 \<Rightarrow>
                    (case Header_Get headers ''Encapsulated'' of
                       None \<Rightarrow> (Inr req1, src2)
                     | Some encapStr \<Rightarrow>
                         (case ParseEncapsulatedHeader encapStr of
                            Inl e \<Rightarrow> (Inl (ErrWrap ''parsing Encapsulated header: '' e), src2)
                          | Inr encap \<Rightarrow>
                              parseEmbeddedHTTP (req1\<lparr>r_Encapsulated := encap, BodyReader := Some ConnStream\<rparr>) src2)))))"

section \<open>Reading well-formed lines\<close>

lemma protocol_line_loop_line:
  "LF \<notin> set l \<Longrightarrow> length buf + length l \<le> mx \<Longrightarrow>
     protocol_line_loop mx err buf (l @ LF # rest) = (Inr (trimProtocolLineEnding (buf @ l)), rest)"
proof (induction l arbitrary: buf)
  case (Cons c l)
  then show ?case by (auto simp: appendProtocolLineByte_def)
qed (simp add: appendProtocolLineByte_def)

lemma readProtocolLine_crlf:
  assumes "LF \<notin> set l" "length l < mx" "pending src = l @ crlf @ rest"
  shows "readProtocolLine src mx = (Inr l, src\<lparr>pending := rest\<rparr>)"
  using protocol_line_loop_line [of "l @ [CR]" "[]" mx "final_err src" rest] assms
  by (simp add: readProtocolLine_def crlf_def trimProtocolLineEnding_def)

text \<open>A header field that survives the wire: what \<open>parseHeaderLine\<close> gives back unchanged.\<close>

definition field_ok :: "string \<times> string \<Rightarrow> bool" where
  "field_ok = (\<lambda>(k, v). k \<noteq> [] \<and> CHR '':'' \<notin> set k \<and> LF \<notin> set k \<and> LF \<notin> set v \<and>
     go_TrimSpace k = k \<and> go_TrimSpace v = v \<and> length k + length v + 2 < maxProtocolHeaderLineBytes)"

lemma parseHeaderLine_field:
  assumes "field_ok (k, v)"
  shows "parseHeaderLine (k @ '': '' @ v) = Inr (k, v)"
  using assms by (auto simp: parseHeaderLine_def field_ok_def go_IndexByte_append)

lemma header_loop_fields:
  assumes "\<forall>kv \<in> set kvs. field_ok kv" "count + length kvs \<le> maxHeaders"
    and "tb + length (concat (map (\<lambda>(k, v). header_line k v) kvs)) + 2 \<le> maxProtocolHeaderBytes"
    and "pending src = concat (map (\<lambda>(k, v). header_line k v) kvs) @ crlf @ rest"
  shows "header_loop h count tb src =
     (Inr (fold (\<lambda>(k, v) m. Header_Add m k v) kvs h), src\<lparr>pending := rest\<rparr>)"
  using assms
proof (induction kvs arbitrary: h count tb src)
  case Nil
  then show ?case
    using readProtocolLine_crlf [of "[]" maxProtocolHeaderLineBytes src rest]
    by (subst header_loop.simps) (simp add: protocol_limits)
next
  case (Cons kv kvs)
  obtain k v where kv: "kv = (k, v)" by force
  let ?more = "concat (map (\<lambda>(k, v). header_line k v) kvs) @ crlf @ rest"
  let ?line = "k @ '': '' @ v"
  have ok: "field_ok (k, v)" using Cons.prems(1) kv by simp
  then have "readProtocolLine src maxProtocolHeaderLineBytes = (Inr ?line, src\<lparr>pending := ?more\<rparr>)"
    using Cons.prems(4) kv by (intro readProtocolLine_crlf) (auto simp: field_ok_def header_line_def)
  then have "header_loop h count tb src =
      header_loop (Header_Add h k v) (Suc count) (tb + length ?line + 2) (src\<lparr>pending := ?more\<rparr>)"
    using parseHeaderLine_field [OF ok] Cons.prems(2,3) ok kv
    by (subst header_loop.simps) (simp add: Let_def field_ok_def)
  also have "\<dots> = (Inr (fold (\<lambda>(k, v) m. Header_Add m k v) kvs (Header_Add h k v)),
      (src\<lparr>pending := ?more\<rparr>)\<lparr>pending := rest\<rparr>)"
    by (rule Cons.IH) (use Cons.prems kv in auto)
  finally show ?case using kv by simp
qed

lemma parseHeaders_fields:
  assumes "\<forall>kv \<in> set kvs. field_ok kv" "length kvs \<le> maxHeaders"
    and "length (concat (map (\<lambda>(k, v). header_line k v) kvs)) + 2 \<le> maxProtocolHeaderBytes"
    and "pending src = concat (map (\<lambda>(k, v). header_line k v) kvs) @ crlf @ rest"
  shows "parseHeaders src = (Inr (fold (\<lambda>(k, v) m. Header_Add m k v) kvs NewHeader), src\<lparr>pending := rest\<rparr>)"
  using header_loop_fields [of kvs 0 0 src rest NewHeader] assms by (simp add: parseHeaders_def)

section \<open>What a malformed header section can cost\<close>

lemma protocol_line_loop_consumed:
  "protocol_line_loop mx err buf bs = (res, rest) \<Longrightarrow> length buf \<le> mx \<Longrightarrow>
     length bs + length buf \<le> length rest + mx + 1 \<and> length rest \<le> length bs \<and>
     (\<forall>line. res = Inr line \<longrightarrow> length bs + length buf \<le> length rest + length line + 2)"
proof (induction mx err buf bs rule: protocol_line_loop.induct)
  case (1 mx err buf)
  then show ?case by (auto simp: trimProtocolLineEnding_def split: if_splits)
next
  case (2 mx err buf b bs)
  show ?case
  proof (cases "b = LF \<or> length buf \<ge> mx")
    case True
    with 2(2,3) show ?thesis
      by (auto simp: appendProtocolLineByte_def trimProtocolLineEnding_def split: if_splits)
  next
    case False
    with 2(2) have "protocol_line_loop mx err (buf @ [b]) bs = (res, rest)"
      by (simp add: appendProtocolLineByte_def)
    moreover have "length (buf @ [b]) \<le> mx" using False by simp
    ultimately have "length bs + length (buf @ [b]) \<le> length rest + mx + 1 \<and> length rest \<le> length bs \<and>
        (\<forall>line. res = Inr line \<longrightarrow> length bs + length (buf @ [b]) \<le> length rest + length line + 2)"
      using 2(1) [of "buf @ [b]" "(False, None)" False None] False by (simp add: appendProtocolLineByte_def)
    then show ?thesis by auto
  qed
qed

lemma readProtocolLine_consumed:
  assumes "readProtocolLine src mx = (res, src')"
  shows "length (pending src) \<le> length (pending src') + mx + 1"
    and "res = Inr line \<Longrightarrow> length (pending src) \<le> length (pending src') + length line + 2"
  using assms protocol_line_loop_consumed [of mx "final_err src" "[]" "pending src"]
  by (auto simp: readProtocolLine_def split: prod.splits)

lemma header_loop_consumed:
  "header_loop h count tb src = (res, src') \<Longrightarrow> tb \<le> maxProtocolHeaderBytes \<Longrightarrow>
     length (pending src) + tb \<le> length (pending src') + maxProtocolHeaderBytes + maxProtocolHeaderLineBytes + 1"
proof (induction h count tb src rule: header_loop.induct)
  case (1 h count tb src)
  obtain q src1 where q: "readProtocolLine src maxProtocolHeaderLineBytes = (q, src1)" by (metis prod.exhaust)
  note used = readProtocolLine_consumed [OF q]
  show ?case
  proof (cases "\<exists>line k v. q = Inr line \<and> tb + length line + 2 \<le> maxProtocolHeaderBytes \<and> line \<noteq> [] \<and>
      parseHeaderLine line = Inr (k, v) \<and> Suc count \<le> maxHeaders")
    case True
    then obtain line k v where l: "q = Inr line" "tb + length line + 2 \<le> maxProtocolHeaderBytes" "line \<noteq> []"
      "parseHeaderLine line = Inr (k, v)" "Suc count \<le> maxHeaders" by blast
    then have "header_loop (Header_Add h k v) (Suc count) (tb + length line + 2) src1 = (res, src')"
      using 1(2) q by (subst (asm) header_loop.simps) (simp add: Let_def)
    from 1(1) [OF q [symmetric] l(1) refl _ l(3) l(4) refl _ this] l used(2) [OF l(1)] show ?thesis by simp
  next
    case False
    then have "src' = src1"
      using 1(2) q by (subst (asm) header_loop.simps)
        (auto simp: Let_def not_less split: sum.splits if_splits prod.splits)
    with used(1) 1(3) show ?thesis by simp
  qed
qed

section \<open>What a successful parse guarantees\<close>

lemma header_loop_ok:
  "header_loop h count tb src = (Inr h', src') \<Longrightarrow> header_ok h \<Longrightarrow> length h \<le> count \<Longrightarrow> count \<le> maxHeaders \<Longrightarrow>
     header_ok h' \<and> length h' \<le> maxHeaders"
proof (induction h count tb src rule: header_loop.induct)
  case (1 h count tb src)
  obtain q src1 where q: "readProtocolLine src maxProtocolHeaderLineBytes = (q, src1)" by (metis prod.exhaust)
  show ?case
  proof (cases "\<exists>line k v. q = Inr line \<and> tb + length line + 2 \<le> maxProtocolHeaderBytes \<and> line \<noteq> [] \<and>
      parseHeaderLine line = Inr (k, v) \<and> Suc count \<le> maxHeaders")
    case True
    then obtain line k v where l: "q = Inr line" "tb + length line + 2 \<le> maxProtocolHeaderBytes" "line \<noteq> []"
      "parseHeaderLine line = Inr (k, v)" "Suc count \<le> maxHeaders" by blast
    then have "header_loop (Header_Add h k v) (Suc count) (tb + length line + 2) src1 = (Inr h', src')"
      using 1(2) q by (subst (asm) header_loop.simps) (simp add: Let_def)
    moreover have "header_ok (Header_Add h k v)" using 1(3) by (rule hdr.invar_append1)
    moreover have "length (Header_Add h k v) \<le> Suc count"
      using 1(4) by (auto simp: Header_Add_def Let_def length_AList_update)
    ultimately show ?thesis using 1(1) [OF q [symmetric] l(1) refl _ l(3) l(4) refl _] l by simp
  next
    case False
    then have "h' = h"
      using 1(2) q by (subst (asm) header_loop.simps)
        (auto simp: Let_def not_less split: sum.splits if_splits prod.splits)
    with 1 show ?thesis by simp
  qed
qed

lemma parseHeaders_ok: "parseHeaders src = (Inr h, src') \<Longrightarrow> header_ok h \<and> length h \<le> maxHeaders"
  using header_loop_ok [of NewHeader 0 0 src h src', OF _ header_ok_New] by (simp add: parseHeaders_def NewHeader_def)

lemma ParsePreviewHeader_iff:
  "ParsePreviewHeader s = Inr v \<longleftrightarrow> go_Atoi (go_TrimSpace s) = Some v \<and> 0 \<le> v \<and> v \<le> DefaultMaxPreviewBytes"
proof -
  have "go_Atoi (go_TrimSpace s) = Some v \<Longrightarrow> go_TrimSpace s \<noteq> []" by (auto simp: go_ParseInt_def)
  then show ?thesis by (auto simp: ParsePreviewHeader_def Let_def split: option.splits)
qed

lemma parseRequestLine_ok:
  assumes "parseRequestLine src = (Inr (meth, uri, proto), src')"
  shows "isValidMethod meth" "7 \<le> length uri" "go_EqualFold (take 7 uri) ''icap://''" "proto = ''ICAP/1.0''"
  using assms
  by (auto simp: parseRequestLine_def isValidMethod_def isValidICAPMethod_def isValidICAPVersion_def
      split: prod.splits sum.splits list.splits if_splits)

text \<open>The fields that the parse of the embedded message leaves alone.\<close>

definition same_envelope :: "'b parsed_request \<Rightarrow> 'b parsed_request \<Rightarrow> bool" where
  "same_envelope r s \<longleftrightarrow> r_Method r = r_Method s \<and> r_URI r = r_URI s \<and> r_Proto r = r_Proto s \<and>
     r_Header r = r_Header s \<and> Preview r = Preview s \<and> PreviewSet r = PreviewSet s \<and>
     r_Encapsulated r = r_Encapsulated s"

definition on_conn :: "'b parsed_message option \<Rightarrow> bool" where
  "on_conn m \<longleftrightarrow> (\<exists>x. m = Some x \<and> BodyReader x = Some ChunkedOnConn)"

lemma on_conn_None [simp]: "\<not> on_conn None"
  by (simp add: on_conn_def)

lemma request_streaming_ok:
  assumes "parseEmbeddedHTTPRequestStreaming req src = (Inr req', src')"
  shows "same_envelope req' req" "HTTPResponse req' = HTTPResponse req"
    "on_conn (HTTPRequest req') \<Longrightarrow> on_conn (HTTPRequest req) \<or> HasReqBody (r_Encapsulated req)"
  using assms
  by (auto simp: parseEmbeddedHTTPRequestStreaming_def same_envelope_def on_conn_def
      split: prod.splits sum.splits list.splits if_splits)

lemma response_streaming_ok:
  assumes "parseEmbeddedHTTPResponseStreaming req src = (Inr req', src')"
  shows "same_envelope req' req" "HTTPRequest req' = HTTPRequest req"
  using assms
  by (auto simp: parseEmbeddedHTTPResponseStreaming_def same_envelope_def
      split: prod.splits sum.splits list.splits if_splits)

lemma request_section_reader:
  "parseHTTPRequestSection data = Inr m \<Longrightarrow> BodyReader m = None"
  by (auto simp: parseHTTPRequestSection_def newRequestSectionMessage_def zero_message_def
      split: prod.splits sum.splits list.splits option.splits)

lemma segmented_ok:
  assumes "parseSegmentedRESPMOD req src = (Inr req', src')" "HTTPRequest req = None"
  shows "same_envelope req' req" "\<not> on_conn (HTTPRequest req')"
proof -
  obtain req1 src1 src2 where r1: "parseSegmentedRESPMODRequest req src1 = (Inr req1, src2)"
    "parseSegmentedRESPMODResponse req1 src2 = (Inr req', src')"
    using assms(1) by (auto simp: parseSegmentedRESPMOD_def split: option.splits prod.splits sum.splits)
  then have "same_envelope req1 req" "\<not> on_conn (HTTPRequest req1)"
    by (auto simp: parseSegmentedRESPMODRequest_def attachSegmentedRequestBody_def same_envelope_def on_conn_def
        dest: request_section_reader split: prod.splits sum.splits if_splits)
  moreover have "same_envelope req' req1" "HTTPRequest req' = HTTPRequest req1"
    using r1(2) response_streaming_ok [of req1 src2 req' src']
    by (auto simp: parseSegmentedRESPMODResponse_def same_envelope_def Let_def
        split: prod.splits sum.splits if_splits)
  ultimately show "same_envelope req' req" "\<not> on_conn (HTTPRequest req')" by (auto simp: same_envelope_def)
qed

lemma parseEmbeddedHTTP_ok:
  assumes "parseEmbeddedHTTP req src = (Inr req', src')" "HTTPRequest req = None" "HTTPResponse req = None"
  shows "same_envelope req' req \<and> \<not> (on_conn (HTTPRequest req') \<and> on_conn (HTTPResponse req'))"
proof (cases "IsEmpty (r_Encapsulated req) \<or> BodyReader req = None")
  case True
  then have "parseEmbeddedHTTP req src = (Inr req, src)" by (auto simp: parseEmbeddedHTTP_def Let_def)
  with assms show ?thesis by (simp add: same_envelope_def)
next
  case False
  note ne = this
  show ?thesis
  proof (cases "needsSegmentedRESPMODParsing req")
    case True
    with ne assms segmented_ok [of req src req' src'] show ?thesis by (auto simp: parseEmbeddedHTTP_def Let_def)
  next
    case False
    consider (reqmod) "r_Method req = MethodREQMOD" "ReqHdr (r_Encapsulated req) \<ge> 0"
      | (respmod) "r_Method req = MethodRESPMOD" "ReqHdr (r_Encapsulated req) \<ge> 0"
      | (other) "\<not> (r_Method req = MethodREQMOD \<and> ReqHdr (r_Encapsulated req) \<ge> 0)"
          "\<not> (r_Method req = MethodRESPMOD \<and> ReqHdr (r_Encapsulated req) \<ge> 0)" by blast
    then show ?thesis
    proof cases
      case reqmod
      with ne False assms have "parseEmbeddedHTTPRequestStreaming req src = (Inr req', src')"
        by (auto simp: parseEmbeddedHTTP_def Let_def)
      with request_streaming_ok [OF this] assms show ?thesis by simp
    next
      case respmod
      then have "parseEmbeddedHTTP req src = (case parseEmbeddedHTTPRequestStreaming req src of
              (Inl e, src') \<Rightarrow> (Inl e, src')
            | (Inr req', src') \<Rightarrow>
                if ResHdr (r_Encapsulated req) > 0 then parseEmbeddedHTTPResponseStreaming req' src' else (Inr req', src'))"
        using ne False by (auto simp: parseEmbeddedHTTP_def Let_def method_defs)
      with assms(1) obtain req1 src1 where r1: "parseEmbeddedHTTPRequestStreaming req src = (Inr req1, src1)"
        "if ResHdr (r_Encapsulated req) > 0 then parseEmbeddedHTTPResponseStreaming req1 src1 = (Inr req', src')
         else req' = req1"
        by (auto split: prod.splits sum.splits if_splits)
      have no_body: "\<not> HasReqBody (r_Encapsulated req)" if "ResHdr (r_Encapsulated req) > 0"
        using False respmod that by (auto simp: needsSegmentedRESPMODParsing_def)
      show ?thesis
      proof (cases "ResHdr (r_Encapsulated req) > 0")
        case True
        with r1(2) response_streaming_ok [of req1 src1 req' src'] request_streaming_ok [OF r1(1)] no_body assms
        show ?thesis by (auto simp: same_envelope_def)
      next
        case False
        with r1(2) request_streaming_ok [OF r1(1)] assms show ?thesis by simp
      qed
    next
      case other
      with ne False assms show ?thesis by (auto simp: parseEmbeddedHTTP_def Let_def same_envelope_def)
    qed
  qed
qed

section \<open>Readers of a parsed request\<close>

fun attach :: "source \<Rightarrow> body_ref \<Rightarrow> chunked_reader multi_reader" where
  "attach src (ChunkedOnBytes s) = Single (NewChunkedReader (bytes_reader s))"
| "attach src _ = Single (NewChunkedReader src)"

definition attach_message :: "source \<Rightarrow> 'b parsed_message \<Rightarrow> (chunked_reader multi_reader, 'b) http_message" where
  "attach_message src m =
     \<lparr>BodyReader = map_option (attach src) (BodyReader m), Body = Body m, bodyLoaded = bodyLoaded m,
      bodyErr = bodyErr m, bodyOnce = bodyOnce m, BodyStream = BodyStream m, m_Header = m_Header m,
      m_Method = m_Method m, m_URI = m_URI m, m_Status = m_Status m, m_StatusText = m_StatusText m, m_Proto = m_Proto m\<rparr>"

text \<open>A header that fits the limits and survives the wire.\<close>

definition wire_header :: "header \<Rightarrow> bool" where
  "wire_header h \<longleftrightarrow> header_ok h \<and> (\<forall>kv \<in> set (header_entries h). field_ok kv) \<and>
     length (header_entries h) \<le> maxHeaders \<and> length (Header_String h) + 2 \<le> maxProtocolHeaderBytes"

definition same_values :: "header \<Rightarrow> header \<Rightarrow> bool" where
  "same_values h h' \<longleftrightarrow> header_ok h' \<and> (\<forall>k. Header_Values h' k = Header_Values h k)"

lemma parseHeaders_wire:
  assumes "wire_header h" "pending src = Header_String h @ crlf @ rest"
  shows "\<exists>h'. parseHeaders src = (Inr h', src\<lparr>pending := rest\<rparr>) \<and> same_values h h'"
  using parseHeaders_fields [of "header_entries h" src rest] assms readd_entries [of h]
  by (auto simp: wire_header_def same_values_def Header_String_def Header_WriteToBuffer_entries)

lemma parseRequestLine_wire:
  assumes "isValidMethod meth" "7 \<le> length uri" "go_EqualFold (take 7 uri) ''icap://''"
    "CHR '' '' \<notin> set uri" "LF \<notin> set uri" "length uri \<le> 8000"
    and "pending src = meth @ '' '' @ uri @ '' ICAP/1.0'' @ crlf @ rest"
  shows "parseRequestLine src = (Inr (meth, uri, ''ICAP/1.0''), src\<lparr>pending := rest\<rparr>)"
proof -
  let ?line = "meth @ '' '' @ uri @ '' ICAP/1.0''"
  have m: "CHR '' '' \<notin> set meth" "LF \<notin> set meth" "length meth \<le> 7"
    using assms(1) by (auto simp: isValidMethod_def method_defs)
  have "readProtocolLine src maxProtocolRequestLineBytes = (Inr ?line, src\<lparr>pending := rest\<rparr>)"
    using assms m by (intro readProtocolLine_crlf) (auto simp: protocol_limits)
  moreover have "go_Split ?line (CHR '' '') = [meth, uri, ''ICAP/1.0'']"
    using go_Split_append [of "CHR '' ''" meth "uri @ '' ICAP/1.0''"]
      go_Split_append [of "CHR '' ''" uri "''ICAP/1.0''"] m(1) assms(4) by simp
  ultimately show ?thesis
    using assms by (simp add: parseRequestLine_def isValidICAPMethod_def isValidMethod_def isValidICAPVersion_def)
qed

lemma parseHTTPRequest_wire:
  assumes "CHR '' '' \<notin> set meth" "LF \<notin> set meth" "CHR '' '' \<notin> set uri" "LF \<notin> set uri"
    "CHR '' '' \<notin> set proto" "LF \<notin> set proto" "length meth + length uri + length proto \<le> 8000"
    and "wire_header h" "pending src = meth @ '' '' @ uri @ '' '' @ proto @ crlf @ Header_String h @ crlf @ rest"
  shows "\<exists>h'. same_values h h' \<and> parseEmbeddedHTTPRequestStreaming req src =
     (Inr (req\<lparr>HTTPRequest := Some (zero_message\<lparr>m_Method := meth, m_URI := uri, m_Proto := proto,
          m_Header := Some h', BodyReader := if HasReqBody (r_Encapsulated req) then Some ChunkedOnConn else None\<rparr>)\<rparr>),
      src\<lparr>pending := rest\<rparr>)"
proof -
  let ?line = "meth @ '' '' @ uri @ '' '' @ proto"
  have "readProtocolLine src maxProtocolRequestLineBytes =
      (Inr ?line, src\<lparr>pending := Header_String h @ crlf @ rest\<rparr>)"
    using assms by (intro readProtocolLine_crlf) (auto simp: protocol_limits)
  moreover have "go_Split ?line (CHR '' '') = [meth, uri, proto]"
    using go_Split_append [of "CHR '' ''" meth "uri @ '' '' @ proto"]
      go_Split_append [of "CHR '' ''" uri proto] assms(1,3,5) by simp
  ultimately show ?thesis
    using parseHeaders_wire [OF assms(8), of "src\<lparr>pending := Header_String h @ crlf @ rest\<rparr>" rest]
    by (auto simp: parseEmbeddedHTTPRequestStreaming_def)
qed

definition token :: "string \<Rightarrow> bool" where
  "token s \<longleftrightarrow> CHR '' '' \<notin> set s \<and> LF \<notin> set s \<and> length s \<le> 2000"

definition icap_uri :: "string \<Rightarrow> bool" where
  "icap_uri u \<longleftrightarrow> token u \<and> 7 \<le> length u \<and> go_EqualFold (take 7 u) ''icap://''"

lemma same_values_Get: "same_values h h' \<Longrightarrow> Header_Get h' k = Header_Get h k"
  by (simp add: same_values_def Header_Get_def)

section \<open>Properties\<close>

text \<open>
  a header written with \<open>Header.WriteToBuffer\<close> and a blank line is read back by \<open>parseHeaders\<close>
  with the same values under every key, and the reader stops at the first byte after the blank line.
\<close>

theorem header_section_roundtrip:
  assumes "wire_header h" and "pending src = Header_WriteToBuffer h [] @ crlf @ rest"
  shows "\<exists>h'. parseHeaders src = (Inr h', src\<lparr>pending := rest\<rparr>) \<and> header_ok h' \<and>
     (\<forall>k. Header_Values h' k = Header_Values h k)"
  using parseHeaders_wire [of h src rest] assms by (auto simp: Header_String_def same_values_def)

definition sample_header :: header where
  "sample_header = [(''Host'', [''a.b'']), (''Via'', [''x'', ''y''])]"

lemma sample_header_wire: "wire_header sample_header"
proof -
  have "header_entries sample_header = [(''Host'', ''a.b''), (''Via'', ''x''), (''Via'', ''y'')]" by code_simp
  moreover have "header_ok sample_header" by code_simp
  moreover have "Header_String sample_header =
      ''Host: a.b'' @ crlf @ ''Via: x'' @ crlf @ ''Via: y'' @ crlf" by code_simp
  ultimately show ?thesis
    by (simp add: wire_header_def field_ok_def protocol_limits is_space_def crlf_def)
qed

theorem header_section_roundtrip_witness:
  "\<exists>h'. parseHeaders (bytes_reader (Header_WriteToBuffer sample_header [] @ crlf @ ''BODY'')) =
     (Inr h', bytes_reader ''BODY'') \<and> Header_Values h' ''via'' = [''x'', ''y'']"
proof -
  have v: "Header_Values sample_header ''via'' = [''x'', ''y'']" by code_simp
  from header_section_roundtrip [OF sample_header_wire,
      of "bytes_reader (Header_WriteToBuffer sample_header [] @ crlf @ ''BODY'')" "''BODY''"] v
  show ?thesis by (auto simp: bytes_reader_def)
qed

text \<open>
  whatever arrives, \<open>parseHeaders\<close> consumes at most 73729 bytes (the limit of 65536 and one more
  line), and the header it returns has at most 1000 keys, each once and in canonical form.
\<close>

theorem header_section_bounded:
  "length (pending src) - length (pending (snd (parseHeaders src))) \<le> 73729 \<and>
   (\<forall>h. fst (parseHeaders src) = Inr h \<longrightarrow> Header_Len h \<le> 1000 \<and> header_ok h)"
proof -
  obtain res src' where p: "parseHeaders src = (res, src')" by (metis prod.exhaust)
  have "length (pending src) + 0 \<le> length (pending src') + maxProtocolHeaderBytes + maxProtocolHeaderLineBytes + 1"
    using header_loop_consumed [of NewHeader 0 0 src res src'] p by (simp add: parseHeaders_def)
  moreover have "Header_Len h \<le> 1000 \<and> header_ok h" if "res = Inr h" for h
    using parseHeaders_ok [of src h src'] p that by (simp add: Header_Len_def maxHeaders_def)
  ultimately show ?thesis using p by (simp add: protocol_limits)
qed

theorem header_section_bounded_witness:
  "\<exists>h. fst (parseHeaders (bytes_reader (Header_String sample_header @ crlf))) = Inr h \<and> Header_Len h \<le> 1000 \<and> header_ok h"
proof -
  let ?src = "bytes_reader (Header_String sample_header @ crlf)"
  obtain h where "parseHeaders ?src = (Inr h, ?src\<lparr>pending := []\<rparr>)"
    using parseHeaders_wire [OF sample_header_wire, of ?src "[]"] by (auto simp: bytes_reader_def)
  then have "fst (parseHeaders ?src) = Inr h" by simp
  with header_section_bounded [of ?src] show ?thesis by blast
qed

text \<open>
  C14: a request that parses has one of the three ICAP methods, a URI with the scheme
  \<open>icap://\<close> in any case, the version \<open>ICAP/1.0\<close>, well-formed headers and a preview size between 0
  and 1 MiB that comes from its \<open>Preview\<close> header; and at most one of its two embedded messages reads its body from the
  connection, so that no two readers compete for it.
\<close>

theorem request_parse_sound:
  assumes "parseICAPRequest src = (Inr req, src')"
  shows "isValidMethod (r_Method req) \<and> Validate req = None \<and> r_Proto req = Version \<and>
     (\<exists>h. r_Header req = Some h \<and> header_ok h \<and> Header_Len h \<le> 1000 \<and>
        (case Header_Get h ''Preview'' of
           None \<Rightarrow> \<not> PreviewSet req \<and> Preview req = 0
         | Some p \<Rightarrow> PreviewSet req \<and> go_Atoi (go_TrimSpace p) = Some (Preview req) \<and>
             0 \<le> Preview req \<and> Preview req \<le> 1048576)) \<and>
     \<not> (on_conn (HTTPRequest req) \<and> on_conn (HTTPResponse req))"
proof -
  obtain meth uri proto src1 where l: "parseRequestLine src = (Inr (meth, uri, proto), src1)"
    using assms by (auto simp: parseICAPRequest_def split: prod.splits sum.splits)
  obtain h src2 where h: "parseHeaders src1 = (Inr h, src2)"
    using assms l by (auto simp: parseICAPRequest_def split: prod.splits sum.splits)
  let ?req = "zero_request\<lparr>r_Method := meth, r_URI := uri, r_Proto := proto, r_Header := Some h\<rparr>"
  obtain req1 where p: "(case Header_Get h ''Preview'' of
           None \<Rightarrow> Inr ?req
         | Some previewStr \<Rightarrow> (case ParsePreviewHeader previewStr of
              Inl e \<Rightarrow> Inl (ErrWrap ''parsing Preview header: '' e)
            | Inr v \<Rightarrow> Inr (?req\<lparr>Preview := v, PreviewSet := True\<rparr>))) = Inr req1"
    "(case Header_Get h ''Encapsulated'' of
        None \<Rightarrow> (Inr req1, src2)
      | Some encapStr \<Rightarrow> (case ParseEncapsulatedHeader encapStr of
            Inl e \<Rightarrow> (Inl (ErrWrap ''parsing Encapsulated header: '' e), src2)
          | Inr encap \<Rightarrow> parseEmbeddedHTTP (req1\<lparr>r_Encapsulated := encap, BodyReader := Some ConnStream\<rparr>) src2)) = (Inr req, src')"
    using assms l h by (auto simp: parseICAPRequest_def Let_def split: sum.splits)
  have req1: "r_Method req1 = meth" "r_URI req1 = uri" "r_Proto req1 = proto" "r_Header req1 = Some h"
    "HTTPRequest req1 = None" "HTTPResponse req1 = None"
    "case Header_Get h ''Preview'' of None \<Rightarrow> \<not> PreviewSet req1 \<and> Preview req1 = 0
     | Some p \<Rightarrow> PreviewSet req1 \<and> ParsePreviewHeader p = Inr (Preview req1)"
    using p(1) by (auto simp: zero_request_def split: option.splits sum.splits)
  have "r_Method req = meth \<and> r_URI req = uri \<and> r_Proto req = proto \<and> r_Header req = Some h \<and>
      Preview req = Preview req1 \<and> PreviewSet req = PreviewSet req1 \<and>
      \<not> (on_conn (HTTPRequest req) \<and> on_conn (HTTPResponse req))"
    using p(2) req1 by (fastforce simp: same_envelope_def dest!: parseEmbeddedHTTP_ok split: option.splits sum.splits)
  with parseRequestLine_ok [OF l] parseHeaders_ok [OF h] req1(7) show ?thesis
    by (auto simp: Validate_def Version_def Header_Len_def maxHeaders_def ParsePreviewHeader_iff
        DefaultMaxPreviewBytes_def split: option.splits)
qed

lemma sample_options_parse:
  "\<exists>req :: 'b parsed_request. parseICAPRequest (bytes_reader (''OPTIONS icap://h/s ICAP/1.0'' @ crlf @
     Header_String sample_header @ crlf @ ''NEXT'')) = (Inr req, bytes_reader ''NEXT'') \<and> r_Method req = ''OPTIONS''"
proof -
  let ?src = "bytes_reader (''OPTIONS icap://h/s ICAP/1.0'' @ crlf @ Header_String sample_header @ crlf @ ''NEXT'')"
  let ?src1 = "bytes_reader (Header_String sample_header @ crlf @ ''NEXT'')"
  have "parseRequestLine ?src = (Inr (''OPTIONS'', ''icap://h/s'', ''ICAP/1.0''), ?src1)"
    using parseRequestLine_wire [of "''OPTIONS''" "''icap://h/s''" ?src "pending ?src1"]
    by (simp add: bytes_reader_def isValidMethod_def method_defs go_EqualFold_def)
  moreover obtain h where h: "parseHeaders ?src1 = (Inr h, bytes_reader ''NEXT'')" "same_values sample_header h"
    using parseHeaders_wire [OF sample_header_wire, of ?src1 "''NEXT''"] by (auto simp: bytes_reader_def)
  moreover have "Header_Get sample_header ''Preview'' = None" "Header_Get sample_header ''Encapsulated'' = None"
    by code_simp+
  ultimately show ?thesis by (simp add: parseICAPRequest_def same_values_Get)
qed

theorem request_parse_sound_witness:
  "\<exists>req :: unit parsed_request. r_Method req = ''OPTIONS'' \<and> Validate req = None \<and> r_Proto req = Version \<and>
     \<not> (on_conn (HTTPRequest req) \<and> on_conn (HTTPResponse req))"
  using sample_options_parse request_parse_sound by blast

text \<open>
  C5: a REQMOD request as \<open>Request.WriteTo\<close> writes it, with an embedded HTTP request and its chunked body,
  followed by the bytes of the next request.  The server parses it to the same envelope and the same
  embedded request line and headers, \<open>GetBody\<close> then returns the decoded body, and the connection is left exactly
  at the next request.
\<close>

theorem reqmod_pipeline:
  assumes r: "r_Method r = MethodREQMOD" "icap_uri (r_URI r)" "r_Proto r = Version" "r_Header r = Some h" "wire_header h"
    and encap: "Header_Get h ''Preview'' = None" "Header_Get h ''Encapsulated'' = Some es"
      "ParseEncapsulatedHeader es = Inr encap" "0 \<le> ReqHdr encap" "HasReqBody encap"
    and http: "token meth" "token uri" "token proto" "wire_header hh" "chunks_ok ps"
    and body: "Body r = Some (meth @ '' '' @ uri @ '' '' @ proto @ crlf @ Header_String hh @ crlf @
                 concat (map chunk ps) @ zero_chunk [])"
    and src: "pending src = snd (Request_WriteTo buffer_write r []) @ rest"
  shows "\<exists>(req :: 'b parsed_request) src' m h' hh' m'. parseICAPRequest src = (Inr req, src') \<and>
     r_Method req = MethodREQMOD \<and> r_URI req = r_URI r \<and> r_Header req = Some h' \<and> same_values h h' \<and>
     HTTPRequest req = Some m \<and> m_Method m = meth \<and> m_URI m = uri \<and> m_Proto m = proto \<and>
     m_Header m = Some hh' \<and> same_values hh hh' \<and>
     GetBody (multi_read chunked_rd) sz grow (attach_message src' m) = Some ((Some (concat ps), None), m') \<and>
     conn_left m' = rest"
proof -
  let ?chunks = "concat (map chunk ps) @ zero_chunk [] @ rest"
  let ?http = "meth @ '' '' @ uri @ '' '' @ proto @ crlf @ Header_String hh @ crlf @ ?chunks"
  let ?head = "Header_String h @ crlf @ ?http"
  have "pending src = ''REQMOD'' @ '' '' @ r_URI r @ '' ICAP/1.0'' @ crlf @ ?head"
    using src r body by (simp add: Request_WriteTo_def Header_WriteToBuffer_String buffer_write_def body_bytes_def
        Version_def method_defs)
  then have line: "parseRequestLine src = (Inr (''REQMOD'', r_URI r, ''ICAP/1.0''), src\<lparr>pending := ?head\<rparr>)"
    using r(2) by (intro parseRequestLine_wire) (simp_all add: icap_uri_def token_def isValidMethod_def method_defs)
  obtain h' where h': "parseHeaders (src\<lparr>pending := ?head\<rparr>) = (Inr h', src\<lparr>pending := ?http\<rparr>)" "same_values h h'"
    using parseHeaders_wire [OF r(5), of "src\<lparr>pending := ?head\<rparr>" ?http] by auto
  let ?req = "zero_request\<lparr>r_Method := ''REQMOD'', r_URI := r_URI r, r_Proto := ''ICAP/1.0'', r_Header := Some h',
    r_Encapsulated := encap, BodyReader := Some ConnStream\<rparr> :: 'b parsed_request"
  obtain hh' where hh': "same_values hh hh'" "parseEmbeddedHTTPRequestStreaming ?req (src\<lparr>pending := ?http\<rparr>) =
      (Inr (?req\<lparr>HTTPRequest := Some (zero_message\<lparr>m_Method := meth, m_URI := uri, m_Proto := proto,
          m_Header := Some hh', BodyReader := Some ChunkedOnConn\<rparr>)\<rparr>), src\<lparr>pending := ?chunks\<rparr>)"
    using parseHTTPRequest_wire [of meth uri proto hh "src\<lparr>pending := ?http\<rparr>" ?chunks ?req] http encap(5)
    by (auto simp: token_def)
  let ?m = "zero_message\<lparr>m_Method := meth, m_URI := uri, m_Proto := proto,
          m_Header := Some hh', BodyReader := Some ChunkedOnConn\<rparr> :: 'b parsed_message"
  have "\<not> IsEmpty encap" "r_Method ?req = MethodREQMOD" "\<not> needsSegmentedRESPMODParsing ?req"
    using encap(5) by (auto simp: IsEmpty_def HasReqBody_def needsSegmentedRESPMODParsing_def method_defs)
  then have "parseEmbeddedHTTP ?req (src\<lparr>pending := ?http\<rparr>) = (Inr (?req\<lparr>HTTPRequest := Some ?m\<rparr>), src\<lparr>pending := ?chunks\<rparr>)"
    using encap(4) hh'(2) by (simp add: parseEmbeddedHTTP_def Let_def method_defs)
  then have parsed: "parseICAPRequest src = (Inr (?req\<lparr>HTTPRequest := Some ?m\<rparr>), src\<lparr>pending := ?chunks\<rparr>)"
    using line h' encap(1-3) by (simp add: parseICAPRequest_def Let_def same_values_Get)
  let ?src = "src\<lparr>pending := ?chunks\<rparr>"
  have "unread (Single (NewChunkedReader ?src)) (attach_message ?src ?m)"
    by (simp add: unread_def attach_message_def zero_message_def)
  from msg.GetBodyLimited_fresh [OF unread_fresh [OF this http(5) ext_ok_Nil], of rest "-1" sz grow]
  obtain m' where "GetBody (multi_read chunked_rd) sz grow (attach_message ?src ?m) = Some ((Some (concat ps), None), m')"
    "conn_left m' = rest"
    by (auto simp: MaxInt64_def over_limit_def GetBody_def GetBodyLimited_def conn_left_def chunked.multi_end_base
        chunked_end_def)
  with parsed h'(2) hh'(1) show ?thesis
    by (intro exI [of _ "?req\<lparr>HTTPRequest := Some ?m\<rparr>"] exI [of _ ?src] exI [of _ ?m] exI [of _ h'] exI [of _ hh'] exI [of _ m'])
       (simp add: method_defs)
qed

definition sample_reqmod_header :: header where
  "sample_reqmod_header = [(''Encapsulated'', [''req-hdr=0, req-body=22'']), (''Host'', [''h''])]"

lemma encapsulated_header_wire:
  assumes "h = [(''Encapsulated'', [v]), (''Host'', [''h''])]" "go_TrimSpace v = v" "LF \<notin> set v" "length v \<le> 100"
  shows "wire_header h" "Header_Get h ''Encapsulated'' = Some v" "Header_Get h ''Preview'' = None"
proof -
  have keys: "CanonicalHeaderKey ''Encapsulated'' = ''Encapsulated''" "CanonicalHeaderKey ''Host'' = ''Host''"
    "CanonicalHeaderKey ''Preview'' = ''Preview''" "sort [''Encapsulated'', ''Host''] = [''Encapsulated'', ''Host'']"
    by code_simp+
  have e: "header_entries h = [(''Encapsulated'', v), (''Host'', ''h'')]"
    using keys by (simp add: header_entries_def sortedKeys_def assms(1))
  then have "Header_String h = header_line ''Encapsulated'' v @ header_line ''Host'' ''h''"
    by (simp add: Header_String_def Header_WriteToBuffer_entries)
  with e assms keys show "wire_header h"
    by (simp add: wire_header_def field_ok_def protocol_limits is_space_def header_ok_def)
  show "Header_Get h ''Encapsulated'' = Some v" "Header_Get h ''Preview'' = None"
    using keys by (simp_all add: Header_Get_def Header_Values_def assms(1))
qed

lemma sample_reqmod_wire: "wire_header sample_reqmod_header"
  "Header_Get sample_reqmod_header ''Encapsulated'' = Some ''req-hdr=0, req-body=22''"
  "Header_Get sample_reqmod_header ''Preview'' = None"
  using encapsulated_header_wire [of sample_reqmod_header "''req-hdr=0, req-body=22''"]
    go_TrimSpace_id [of "''req-hdr=0, req-body=22''"]
  by (simp_all add: sample_reqmod_header_def is_space_def)

theorem reqmod_pipeline_witness:
  "\<exists>(req :: unit parsed_request) src' m m'.
     parseICAPRequest (bytes_reader (snd (Request_WriteTo buffer_write
       (zero_request\<lparr>r_Method := MethodREQMOD, r_URI := ''icap://h/scan'', r_Proto := Version,
          r_Header := Some sample_reqmod_header,
          Body := Some (''POST / HTTP/1.1'' @ crlf @ Header_String sample_header @ crlf @ chunk ''hello'' @ zero_chunk [])\<rparr> ::
        (unit, unit, unit) request) []) @ ''NEXT'')) = (Inr req, src') \<and>
     HTTPRequest req = Some m \<and> m_Method m = ''POST'' \<and>
     GetBody (multi_read chunked_rd) (\<lambda>i. 511) (\<lambda>c n. 2 * n) (attach_message src' m) = Some ((Some ''hello'', None), m') \<and>
     conn_left m' = ''NEXT''"
proof -
  let ?r = "zero_request\<lparr>r_Method := MethodREQMOD, r_URI := ''icap://h/scan'', r_Proto := Version,
    r_Header := Some sample_reqmod_header,
    Body := Some (''POST / HTTP/1.1'' @ crlf @ Header_String sample_header @ crlf @ chunk ''hello'' @ zero_chunk [])\<rparr> ::
    (unit, unit, unit) request"
  let ?src = "bytes_reader (snd (Request_WriteTo buffer_write ?r []) @ ''NEXT'')"
  have e: "ParseEncapsulatedHeader ''req-hdr=0, req-body=22'' =
      Inr \<lparr>ReqHdr = 0, ReqBody = 22, ResHdr = -1, ResBody = -1, NullBody = -1\<rparr>" by code_simp
  show ?thesis
    using reqmod_pipeline [of ?r sample_reqmod_header _ _ "''POST''" "''/''" "''HTTP/1.1''" sample_header "[''hello'']"
        ?src "''NEXT''" "\<lambda>i. 511" "\<lambda>c n. 2 * n", OF _ _ _ _ sample_reqmod_wire(1,3,2) e _ _ _ _ _ sample_header_wire]
    by (fastforce simp: bytes_reader_def icap_uri_def token_def go_EqualFold_def HasReqBody_def encapNotSet_def chunks_ok_def
        MaxChunkSize_def)
qed

text \<open>
  a RESPMOD request whose \<open>Encapsulated\<close> header names a response but no request headers
  (\<open>res-hdr=0, res-body=N\<close>, which RFC 3507 allows) is accepted, but its embedded response is
  never parsed: the request has no HTTP message at all and the response bytes stay unread in the connection.
\<close>

theorem respmod_without_request_skips_response:
  assumes "icap_uri uri" "wire_header h" "Header_Get h ''Preview'' = None"
    and "Header_Get h ''Encapsulated'' = Some es" "ParseEncapsulatedHeader es = Inr encap"
    and "ReqHdr encap < 0" "\<not> HasReqBody encap"
    and "pending src = ''RESPMOD '' @ uri @ '' ICAP/1.0'' @ crlf @ Header_String h @ crlf @ response"
  shows "\<exists>(req :: 'b parsed_request) src'. parseICAPRequest src = (Inr req, src') \<and>
     HTTPRequest req = None \<and> HTTPResponse req = None \<and> pending src' = response"
proof -
  let ?head = "Header_String h @ crlf @ response"
  have line: "parseRequestLine src = (Inr (''RESPMOD'', uri, ''ICAP/1.0''), src\<lparr>pending := ?head\<rparr>)"
    using assms(1,8) by (intro parseRequestLine_wire) (simp_all add: icap_uri_def token_def isValidMethod_def method_defs)
  obtain h' where h': "parseHeaders (src\<lparr>pending := ?head\<rparr>) = (Inr h', src\<lparr>pending := response\<rparr>)" "same_values h h'"
    using parseHeaders_wire [OF assms(2), of "src\<lparr>pending := ?head\<rparr>" response] by auto
  let ?req = "zero_request\<lparr>r_Method := ''RESPMOD'', r_URI := uri, r_Proto := ''ICAP/1.0'', r_Header := Some h',
    r_Encapsulated := encap, BodyReader := Some ConnStream\<rparr> :: 'b parsed_request"
  have "parseEmbeddedHTTP ?req (src\<lparr>pending := response\<rparr>) = (Inr ?req, src\<lparr>pending := response\<rparr>)"
    using assms(6,7) by (simp add: parseEmbeddedHTTP_def Let_def needsSegmentedRESPMODParsing_def)
  then have "parseICAPRequest src = (Inr ?req, src\<lparr>pending := response\<rparr>)"
    using line h' assms(3-5) by (simp add: parseICAPRequest_def Let_def same_values_Get)
  then show ?thesis by (intro exI [of _ ?req] exI [of _ "src\<lparr>pending := response\<rparr>"]) (simp add: zero_request_def)
qed

theorem respmod_without_request_skips_response_witness:
  "\<exists>(req :: unit parsed_request) src'.
     parseICAPRequest (bytes_reader (''RESPMOD icap://h/scan ICAP/1.0'' @ crlf @
       Header_String [(''Encapsulated'', [''res-hdr=0, res-body=19'']), (''Host'', [''h''])] @ crlf @
       ''HTTP/1.1 200 OK'' @ crlf @ crlf @ ''0'' @ crlf @ crlf)) = (Inr req, src') \<and>
     HTTPRequest req = None \<and> HTTPResponse req = None \<and>
     pending src' = ''HTTP/1.1 200 OK'' @ crlf @ crlf @ ''0'' @ crlf @ crlf"
proof -
  let ?h = "[(''Encapsulated'', [''res-hdr=0, res-body=19'']), (''Host'', [''h''])]"
  have h: "wire_header ?h" "Header_Get ?h ''Preview'' = None" "Header_Get ?h ''Encapsulated'' = Some ''res-hdr=0, res-body=19''"
    using encapsulated_header_wire [of ?h "''res-hdr=0, res-body=19''"] go_TrimSpace_id [of "''res-hdr=0, res-body=19''"]
    by (simp_all add: is_space_def)
  have e: "ParseEncapsulatedHeader ''res-hdr=0, res-body=19'' =
      Inr \<lparr>ReqHdr = -1, ReqBody = -1, ResHdr = 0, ResBody = 19, NullBody = -1\<rparr>" by code_simp
  have u: "icap_uri ''icap://h/scan''" by (simp add: icap_uri_def token_def go_EqualFold_def)
  show ?thesis
    by (rule respmod_without_request_skips_response [OF u h e])
       (simp_all add: bytes_reader_def HasReqBody_def encapNotSet_def)
qed

text \<open>
  a request without an \<open>Encapsulated\<close> header keeps Go's zero value in that field, in which every
  offset is 0 and not the sentinel \<open>-1\<close> of an absent part: the parsed request claims to have a body and
  all five sections, while \<open>NewRequest\<close> builds the same request with none.
\<close>

theorem no_encapsulated_header_claims_body:
  assumes "icap_uri uri" "isValidMethod meth" "wire_header h" "Header_Get h ''Preview'' = None" "Header_Get h ''Encapsulated'' = None"
    and "pending src = meth @ '' '' @ uri @ '' ICAP/1.0'' @ crlf @ Header_String h @ crlf @ rest"
  shows "\<exists>(req :: 'b parsed_request) src'. parseICAPRequest src = (Inr req, src') \<and>
     Request_HasBody req \<and> \<not> IsEmpty (r_Encapsulated req) \<and>
     (\<exists>req0 :: 'b parsed_request. NewRequest meth uri = Inr req0 \<and>
        \<not> Request_HasBody req0 \<and> IsEmpty (r_Encapsulated req0))"
proof -
  let ?head = "Header_String h @ crlf @ rest"
  have line: "parseRequestLine src = (Inr (meth, uri, ''ICAP/1.0''), src\<lparr>pending := ?head\<rparr>)"
    using assms(1,2,6) by (intro parseRequestLine_wire) (simp_all add: icap_uri_def token_def)
  obtain h' where h': "parseHeaders (src\<lparr>pending := ?head\<rparr>) = (Inr h', src\<lparr>pending := rest\<rparr>)" "same_values h h'"
    using parseHeaders_wire [OF assms(3), of "src\<lparr>pending := ?head\<rparr>" rest] by auto
  let ?req = "zero_request\<lparr>r_Method := meth, r_URI := uri, r_Proto := ''ICAP/1.0'', r_Header := Some h'\<rparr> :: 'b parsed_request"
  have "parseICAPRequest src = (Inr ?req, src\<lparr>pending := rest\<rparr>)"
    using line h' assms(4,5) by (simp add: parseICAPRequest_def Let_def same_values_Get)
  moreover have "uri \<noteq> []" using assms(1) by (auto simp: icap_uri_def)
  ultimately show ?thesis using assms(2)
    by (intro exI [of _ ?req] exI [of _ "src\<lparr>pending := rest\<rparr>"])
       (simp add: zero_request_def zero_encapsulated_def Request_HasBody_def HasReqBody_def HasResBody_def IsEmpty_def
         encapNotSet_def NewRequest_def NewEncapsulated_def)
qed

theorem no_encapsulated_header_claims_body_witness:
  "\<exists>(req :: unit parsed_request) src'. parseICAPRequest (bytes_reader (''OPTIONS icap://h/s ICAP/1.0'' @ crlf @
     Header_String sample_header @ crlf @ ''NEXT'')) = (Inr req, src') \<and> Request_HasBody req \<and> \<not> IsEmpty (r_Encapsulated req)"
proof -
  have "Header_Get sample_header ''Preview'' = None" "Header_Get sample_header ''Encapsulated'' = None" by code_simp+
  from no_encapsulated_header_claims_body [of "''icap://h/s''" "''OPTIONS''", OF _ _ sample_header_wire this,
      of "bytes_reader (''OPTIONS icap://h/s ICAP/1.0'' @ crlf @ Header_String sample_header @ crlf @ ''NEXT'')" "''NEXT''"]
  show ?thesis
    by (auto simp: bytes_reader_def icap_uri_def token_def go_EqualFold_def isValidMethod_def method_defs)
qed

end
