(* ===== verification/Route_Cache.thy ===== *)
theory Route_Cache
  imports Go_Prelude "HOL-Library.Multiset"
begin

text \<open>
  The LRU cache of route lookups (\<^verbatim>\<open>internal/router/cache.go\<close>).

  The nodes of the doubly linked list live in an explicit store (\<open>rc_heap\<close>, an address to a node), so
  that the pointer surgery of \<open>removeNode\<close>, \<open>addToFront\<close> and \<open>moveToFront\<close> is the one of the code,
  aliasing included.  An entry is only reached through its node, it is kept inside it.  \<open>time.Now()\<close> is an
  argument, in nanoseconds.  \<open>Get\<close> takes the lock several times: each of its critical sections is a definition
  of its own (\<open>Get_read\<close>, \<open>Get_evict\<close>, \<open>Get_count\<close>, \<open>Get_promote\<close>), \<open>Get\<close> is their
  composition for a caller that is not interrupted, and theory \<open>Router\<close> interleaves them.

  The specification is a plain list of entries, most recently used first (\<open>lru_get\<close>, \<open>lru_put\<close>,
  \<open>lru_delete\<close>).  \<open>lru_view\<close> reads that list off the pointers; the refinement lemmas show that
  every operation commutes with it and keeps \<open>wf_cache\<close>.
\<close>

section \<open>State\<close>

type_synonym addr = nat

record 'h CacheEntry =
  Handler :: 'h
  Timestamp :: int
  AccessCount :: int

record 'h LRUNode =
  n_prev :: "addr option"
  n_next :: "addr option"
  n_entry :: "'h CacheEntry"
  n_key :: string

record CacheMetrics =
  hits :: int
  misses :: int
  evictions :: int

record 'h RouteCache =
  rc_cache :: "(string \<times> addr) list"
  rc_head :: "addr option"
  rc_tail :: "addr option"
  rc_metrics :: CacheMetrics
  maxEntries :: int
  ttl :: int
  rc_heap :: "addr \<Rightarrow> 'h LRUNode"
  rc_fresh :: addr

definition DefaultMaxEntries :: int where "DefaultMaxEntries = 1000"
definition DefaultTTL :: int where "DefaultTTL = 5 * 60 * 1000000000"

definition NewRouteCache :: "int \<Rightarrow> int \<Rightarrow> 'h RouteCache" where
  "NewRouteCache entries life =
     \<lparr>rc_cache = [], rc_head = None, rc_tail = None,
      rc_metrics = \<lparr>hits = 0, misses = 0, evictions = 0\<rparr>,
      maxEntries = (if entries \<le> 0 then DefaultMaxEntries else entries), ttl = life,
      rc_heap = (\<lambda>_. undefined), rc_fresh = 0\<rparr>"

definition buildKey :: "string \<Rightarrow> string \<Rightarrow> string" where
  "buildKey meth path = meth @ '':'' @ path"

section \<open>The doubly linked list\<close>

definition heap_upd :: "addr \<Rightarrow> ('h LRUNode \<Rightarrow> 'h LRUNode) \<Rightarrow> 'h RouteCache \<Rightarrow> 'h RouteCache" where
  "heap_upd a f c = c\<lparr>rc_heap := (rc_heap c)(a := f (rc_heap c a))\<rparr>"

definition removeNode :: "addr \<Rightarrow> 'h RouteCache \<Rightarrow> 'h RouteCache" where
  "removeNode a c =
     (let nprev = n_prev (rc_heap c a);
          c1 = (case nprev of
                  Some p \<Rightarrow> heap_upd p (n_next_update (\<lambda>_. n_next (rc_heap c a))) c
                | None \<Rightarrow> c\<lparr>rc_head := n_next (rc_heap c a)\<rparr>);
          c2 = (case n_next (rc_heap c1 a) of
                  Some q \<Rightarrow> heap_upd q (n_prev_update (\<lambda>_. n_prev (rc_heap c1 a))) c1
                | None \<Rightarrow> c1\<lparr>rc_tail := n_prev (rc_heap c1 a)\<rparr>)
      in heap_upd a (\<lambda>nd. nd\<lparr>n_prev := None, n_next := None\<rparr>) c2)"

definition addToFront :: "addr \<Rightarrow> 'h RouteCache \<Rightarrow> 'h RouteCache" where
  "addToFront a c =
     (let c1 = heap_upd a (\<lambda>nd. nd\<lparr>n_prev := None, n_next := rc_head c\<rparr>) c;
          c2 = (case rc_head c1 of Some h \<Rightarrow> heap_upd h (n_prev_update (\<lambda>_. Some a)) c1 | None \<Rightarrow> c1);
          c3 = c2\<lparr>rc_head := Some a\<rparr>
      in if rc_tail c3 = None then c3\<lparr>rc_tail := Some a\<rparr> else c3)"

definition moveToFront :: "addr \<Rightarrow> 'h RouteCache \<Rightarrow> 'h RouteCache" where
  "moveToFront a c = (if rc_head c = Some a then c else addToFront a (removeNode a c))"

section \<open>Eviction\<close>

definition count_eviction :: "'h RouteCache \<Rightarrow> 'h RouteCache" where
  "count_eviction c = c\<lparr>rc_metrics := (rc_metrics c)\<lparr>evictions := wrap64 (evictions (rc_metrics c) + 1)\<rparr>\<rparr>"

definition count_hit :: "'h RouteCache \<Rightarrow> 'h RouteCache" where
  "count_hit c = c\<lparr>rc_metrics := (rc_metrics c)\<lparr>hits := wrap64 (hits (rc_metrics c) + 1)\<rparr>\<rparr>"

definition count_miss :: "'h RouteCache \<Rightarrow> 'h RouteCache" where
  "count_miss c = c\<lparr>rc_metrics := (rc_metrics c)\<lparr>misses := wrap64 (misses (rc_metrics c) + 1)\<rparr>\<rparr>"

definition evictLRU :: "'h RouteCache \<Rightarrow> 'h RouteCache" where
  "evictLRU c =
     (case rc_tail c of
        None \<Rightarrow> c
      | Some t \<Rightarrow>
          (let key = n_key (rc_heap c t);
               c1 = removeNode t c
           in count_eviction (c1\<lparr>rc_cache := AList.delete key (rc_cache c1)\<rparr>)))"

definition evictKeyLocked :: "string \<Rightarrow> 'h RouteCache \<Rightarrow> 'h RouteCache" where
  "evictKeyLocked key c =
     (case map_of (rc_cache c) key of
        None \<Rightarrow> c
      | Some a \<Rightarrow>
          (let c1 = removeNode a c
           in count_eviction (c1\<lparr>rc_cache := AList.delete key (rc_cache c1)\<rparr>)))"

definition evictKey :: "string \<Rightarrow> 'h RouteCache \<Rightarrow> 'h RouteCache" where
  "evictKey key c = evictKeyLocked key c"

section \<open>The operations\<close>

text \<open>
  The critical sections of \<open>Get\<close>: the lookup under the read lock, the eviction of an expired key under the
  write lock, the atomic increment of the access count, and the promotion under the write lock.
\<close>

datatype 'h get_result = GetMiss | GetExpired | GetHit addr 'h

definition entry_expired :: "int \<Rightarrow> int \<Rightarrow> 'h CacheEntry \<Rightarrow> bool" where
  "entry_expired life now e \<longleftrightarrow> 0 < life \<and> life < now - Timestamp e"

definition Get_read :: "int \<Rightarrow> string \<Rightarrow> 'h RouteCache \<Rightarrow> 'h get_result" where
  "Get_read now key c =
     (case map_of (rc_cache c) key of
        None \<Rightarrow> GetMiss
      | Some a \<Rightarrow>
          if entry_expired (ttl c) now (n_entry (rc_heap c a)) then GetExpired
          else GetHit a (Handler (n_entry (rc_heap c a))))"

definition Get_evict :: "string \<Rightarrow> 'h RouteCache \<Rightarrow> 'h RouteCache" where
  "Get_evict key c = (if map_of (rc_cache c) key \<noteq> None then evictKeyLocked key c else c)"

definition bump :: "'h LRUNode \<Rightarrow> 'h LRUNode" where
  "bump nd = nd\<lparr>n_entry := (n_entry nd)\<lparr>AccessCount := wrap64 (AccessCount (n_entry nd) + 1)\<rparr>\<rparr>"

definition Get_count :: "addr \<Rightarrow> 'h RouteCache \<Rightarrow> int \<times> 'h RouteCache" where
  "Get_count a c = (let c' = heap_upd a bump c in (AccessCount (n_entry (rc_heap c' a)), c'))"

definition Get_promote :: "string \<Rightarrow> addr \<Rightarrow> 'h RouteCache \<Rightarrow> 'h RouteCache" where
  "Get_promote key a c = (if map_of (rc_cache c) key \<noteq> None then moveToFront a c else c)"

definition Get :: "int \<Rightarrow> string \<Rightarrow> string \<Rightarrow> 'h RouteCache \<Rightarrow> 'h option \<times> 'h RouteCache" where
  "Get now meth path c =
     (let key = buildKey meth path in
      case Get_read now key c of
        GetMiss \<Rightarrow> (None, count_miss c)
      | GetExpired \<Rightarrow> (None, count_miss (Get_evict key c))
      | GetHit a h \<Rightarrow>
          (let (count, c1) = Get_count a c;
               c2 = (if count mod 10 = 0 then Get_promote key a c1 else c1)
           in (Some h, count_hit c2)))"

definition Put_entry :: "int \<Rightarrow> string \<Rightarrow> 'h \<Rightarrow> 'h RouteCache \<Rightarrow> 'h RouteCache" where
  "Put_entry now key h c =
     (case map_of (rc_cache c) key of
        Some a \<Rightarrow>
          moveToFront a
            (heap_upd a (\<lambda>nd. bump (nd\<lparr>n_entry := (n_entry nd)\<lparr>Handler := h, Timestamp := now\<rparr>\<rparr>)) c)
      | None \<Rightarrow>
          (let c1 = (if maxEntries c \<le> int (length (rc_cache c)) then evictLRU c else c);
               a = rc_fresh c1;
               nd = \<lparr>n_prev = None, n_next = None,
                     n_entry = \<lparr>Handler = h, Timestamp = now, AccessCount = 1\<rparr>, n_key = key\<rparr>
           in addToFront a
                (c1\<lparr>rc_heap := (rc_heap c1)(a := nd), rc_fresh := Suc a,
                    rc_cache := AList.update key a (rc_cache c1)\<rparr>)))"

text \<open>A nil handler is \<^const>\<open>None\<close>.\<close>

definition Put :: "int \<Rightarrow> string \<Rightarrow> string \<Rightarrow> 'h option \<Rightarrow> 'h RouteCache \<Rightarrow> 'h RouteCache" where
  "Put now meth path h c =
     (case h of None \<Rightarrow> c | Some h' \<Rightarrow> Put_entry now (buildKey meth path) h' c)"

definition Delete :: "string \<Rightarrow> string \<Rightarrow> 'h RouteCache \<Rightarrow> 'h RouteCache" where
  "Delete meth path c = evictKey (buildKey meth path) c"

definition Clear :: "'h RouteCache \<Rightarrow> 'h RouteCache" where
  "Clear c = c\<lparr>rc_cache := [], rc_head := None, rc_tail := None\<rparr>"

definition Size :: "'h RouteCache \<Rightarrow> int" where
  "Size c = int (length (rc_cache c))"

definition Hits :: "'h RouteCache \<Rightarrow> int" where "Hits c = hits (rc_metrics c)"
definition Misses :: "'h RouteCache \<Rightarrow> int" where "Misses c = misses (rc_metrics c)"
definition Evictions :: "'h RouteCache \<Rightarrow> int" where "Evictions c = evictions (rc_metrics c)"

definition ResetMetrics :: "'h RouteCache \<Rightarrow> 'h RouteCache" where
  "ResetMetrics c = c\<lparr>rc_metrics := \<lparr>hits = 0, misses = 0, evictions = 0\<rparr>\<rparr>"

section \<open>The specification: a list of entries, most recently used first\<close>

type_synonym 'h lru = "(string \<times> 'h CacheEntry) list"

definition touch :: "'h CacheEntry \<Rightarrow> 'h CacheEntry" where
  "touch e = e\<lparr>AccessCount := wrap64 (AccessCount e + 1)\<rparr>"

definition lru_get :: "int \<Rightarrow> int \<Rightarrow> string \<Rightarrow> 'h lru \<Rightarrow> 'h option \<times> 'h lru" where
  "lru_get life now key xs =
     (case map_of xs key of
        None \<Rightarrow> (None, xs)
      | Some e \<Rightarrow>
          if entry_expired life now e then (None, AList.delete key xs)
          else (Some (Handler e),
                if AccessCount (touch e) mod 10 = 0 then (key, touch e) # AList.delete key xs
                else AList.update key (touch e) xs))"

definition lru_put :: "int \<Rightarrow> int \<Rightarrow> string \<Rightarrow> 'h \<Rightarrow> 'h lru \<Rightarrow> 'h lru" where
  "lru_put cap now key h xs =
     (case map_of xs key of
        Some e \<Rightarrow> (key, touch (e\<lparr>Handler := h, Timestamp := now\<rparr>)) # AList.delete key xs
      | None \<Rightarrow> (key, \<lparr>Handler = h, Timestamp = now, AccessCount = 1\<rparr>) #
                  (if cap \<le> int (length xs) then butlast xs else xs))"

definition lru_delete :: "string \<Rightarrow> 'h lru \<Rightarrow> 'h lru" where
  "lru_delete key xs = AList.delete key xs"

section \<open>Reading the list off the pointers\<close>

primrec walk :: "(addr \<Rightarrow> 'h LRUNode) \<Rightarrow> nat \<Rightarrow> addr option \<Rightarrow> addr list" where
  "walk h 0 a = []"
| "walk h (Suc n) a = (case a of None \<Rightarrow> [] | Some x \<Rightarrow> x # walk h n (n_next (h x)))"

definition nodes :: "'h RouteCache \<Rightarrow> addr list" where
  "nodes c = walk (rc_heap c) (length (rc_cache c)) (rc_head c)"

abbreviation item :: "'h RouteCache \<Rightarrow> addr \<Rightarrow> string \<times> 'h CacheEntry" where
  "item c a \<equiv> (n_key (rc_heap c a), n_entry (rc_heap c a))"

definition lru_view :: "'h RouteCache \<Rightarrow> 'h lru" where
  "lru_view c = map (item c) (nodes c)"

definition first_or :: "addr list \<Rightarrow> addr option \<Rightarrow> addr option" where
  "first_or xs q = (case xs of [] \<Rightarrow> q | y # _ \<Rightarrow> Some y)"

definition last_or :: "addr option \<Rightarrow> addr list \<Rightarrow> addr option" where
  "last_or p xs = (if xs = [] then p else Some (last xs))"

primrec dll :: "(addr \<Rightarrow> 'h LRUNode) \<Rightarrow> addr option \<Rightarrow> addr list \<Rightarrow> addr option \<Rightarrow> bool" where
  "dll h p [] q \<longleftrightarrow> True"
| "dll h p (x # xs) q \<longleftrightarrow> n_prev (h x) = p \<and> n_next (h x) = first_or xs q \<and> dll h (Some x) xs q"

definition linked :: "'h RouteCache \<Rightarrow> addr list \<Rightarrow> bool" where
  "linked c xs \<longleftrightarrow> dll (rc_heap c) None xs None \<and> rc_head c = first_or xs None \<and>
     rc_tail c = last_or None xs \<and> distinct xs"

definition indexed :: "'h RouteCache \<Rightarrow> addr list \<Rightarrow> bool" where
  "indexed c xs \<longleftrightarrow> distinct (map (\<lambda>a. n_key (rc_heap c a)) xs) \<and> distinct (map fst (rc_cache c)) \<and>
     set (rc_cache c) = (\<lambda>a. (n_key (rc_heap c a), a)) ` set xs \<and> (\<forall>a \<in> set xs. a < rc_fresh c)"

definition wf_cache :: "'h RouteCache \<Rightarrow> bool" where
  "wf_cache c \<longleftrightarrow> linked c (nodes c) \<and> indexed c (nodes c) \<and> 0 < maxEntries c \<and> Size c \<le> maxEntries c"

section \<open>Pointer lemmas\<close>

lemma first_or_simps [simp]: "first_or [] q = q" "first_or (x # xs) q = Some x"
  "first_or (xs @ ys) q = first_or xs (first_or ys q)"
  by (auto simp: first_or_def split: list.split)

lemma last_or_simps [simp]: "last_or p [] = p" "last_or p (xs @ [x]) = Some x" "last_or p (x # xs) = last_or (Some x) xs"
  "last_or p (xs @ ys) = last_or (last_or p xs) ys"
  by (auto simp: last_or_def)

lemma first_or_None [simp]: "first_or xs None = None \<longleftrightarrow> xs = []"
  by (cases xs) auto

lemma last_or_None [simp]: "last_or None xs = None \<longleftrightarrow> xs = []"
  by (auto simp: last_or_def)

lemma last_or_Some [simp]: "last_or (Some x) xs \<noteq> None" "\<exists>y. last_or (Some x) xs = Some y"
  by (auto simp: last_or_def)

lemma dll_append [simp]: "dll h p (xs @ ys) q \<longleftrightarrow> dll h p xs (first_or ys q) \<and> dll h (last_or p xs) ys q"
  by (induction xs arbitrary: p) auto

lemma dll_upd [simp]: "a \<notin> set xs \<Longrightarrow> dll (h(a := nd)) p xs q = dll h p xs q"
  by (induction xs arbitrary: p) auto

lemma dll_cong: "(\<And>x. x \<in> set xs \<Longrightarrow> n_prev (h x) = n_prev (h' x) \<and> n_next (h x) = n_next (h' x)) \<Longrightarrow>
    dll h p xs q = dll h' p xs q"
  by (induction xs arbitrary: p) auto

lemma walk_dll: "dll h p xs None \<Longrightarrow> length xs \<le> n \<Longrightarrow> walk h n (first_or xs None) = xs"
proof (induction xs arbitrary: n p)
  case Nil
  then show ?case by (cases n) auto
next
  case (Cons x xs)
  then show ?case by (cases n) (auto)
qed

lemmas ptr_defs = removeNode_def addToFront_def moveToFront_def heap_upd_def

lemma rc_fields [simp]:
  "rc_cache (heap_upd a f c) = rc_cache c" "rc_cache (removeNode a c) = rc_cache c"
  "rc_cache (addToFront a c) = rc_cache c" "rc_cache (moveToFront a c) = rc_cache c"
  "maxEntries (heap_upd a f c) = maxEntries c" "maxEntries (removeNode a c) = maxEntries c"
  "maxEntries (addToFront a c) = maxEntries c" "maxEntries (moveToFront a c) = maxEntries c"
  "ttl (heap_upd a f c) = ttl c" "ttl (removeNode a c) = ttl c"
  "ttl (addToFront a c) = ttl c" "ttl (moveToFront a c) = ttl c"
  "rc_fresh (heap_upd a f c) = rc_fresh c" "rc_fresh (removeNode a c) = rc_fresh c"
  "rc_fresh (addToFront a c) = rc_fresh c" "rc_fresh (moveToFront a c) = rc_fresh c"
  by (auto simp: ptr_defs Let_def split: option.split)

lemma rc_data [simp]:
  "n_key (rc_heap (removeNode a c) x) = n_key (rc_heap c x)"
  "n_entry (rc_heap (removeNode a c) x) = n_entry (rc_heap c x)"
  "n_key (rc_heap (addToFront a c) x) = n_key (rc_heap c x)"
  "n_entry (rc_heap (addToFront a c) x) = n_entry (rc_heap c x)"
  "n_key (rc_heap (moveToFront a c) x) = n_key (rc_heap c x)"
  "n_entry (rc_heap (moveToFront a c) x) = n_entry (rc_heap c x)"
  by (auto simp: ptr_defs Let_def split: option.split)

lemma removeNode_linked:
  assumes "linked c (xs @ a # ys)"
  shows "linked (removeNode a c) (xs @ ys)"
proof (cases xs rule: rev_cases)
  case Nil
  then show ?thesis using assms
    by (cases ys) (auto simp: linked_def removeNode_def heap_upd_def Let_def)
next
  case (snoc xs' p)
  then show ?thesis using assms
    by (cases ys) (auto simp: linked_def removeNode_def heap_upd_def Let_def)
qed

lemma addToFront_linked:
  assumes "linked c xs" "a \<notin> set xs"
  shows "linked (addToFront a c) (a # xs)"
  using assms by (cases xs) (auto simp: linked_def addToFront_def heap_upd_def Let_def)

lemma moveToFront_linked:
  assumes "linked c (xs @ a # ys)"
  shows "linked (moveToFront a c) (a # xs @ ys)"
proof (cases "rc_head c = Some a")
  case True
  with assms have "xs = []" by (cases xs) (auto simp: linked_def)
  with assms True show ?thesis by (simp add: moveToFront_def)
next
  case False
  have "a \<notin> set (xs @ ys)" using assms by (auto simp: linked_def)
  then show ?thesis
    using False addToFront_linked [OF removeNode_linked [OF assms]] by (simp add: moveToFront_def)
qed

section \<open>The invariant and the view\<close>

lemma linked_fields [simp]:
  "linked (c\<lparr>rc_cache := m\<rparr>) xs = linked c xs" "linked (c\<lparr>rc_metrics := ms\<rparr>) xs = linked c xs"
  "linked (c\<lparr>rc_fresh := n\<rparr>) xs = linked c xs"
  by (auto simp: linked_def)

lemma linked_alloc: "linked c xs \<Longrightarrow> a \<notin> set xs \<Longrightarrow> linked (c\<lparr>rc_heap := (rc_heap c)(a := nd)\<rparr>) xs"
  by (simp add: linked_def)

lemma linked_data:
  assumes "linked c xs" "\<And>nd. n_prev (f nd) = n_prev nd" "\<And>nd. n_next (f nd) = n_next nd"
  shows "linked (heap_upd a f c) xs"
proof -
  have "dll (rc_heap (heap_upd a f c)) None xs None = dll (rc_heap c) None xs None"
    using assms(2,3) by (intro dll_cong) (auto simp: heap_upd_def)
  then show ?thesis using assms(1) by (simp add: linked_def heap_upd_def)
qed

lemma indexed_length: "indexed c xs \<Longrightarrow> length (rc_cache c) = length xs"
proof -
  assume ix: "indexed c xs"
  then have "length (rc_cache c) = card (set (map fst (rc_cache c)))"
    by (metis distinct_card indexed_def length_map)
  also have "set (map fst (rc_cache c)) = set (map (\<lambda>a. n_key (rc_heap c a)) xs)"
    using ix by (auto simp: indexed_def image_image)
  also have "card \<dots> = length xs" using ix by (metis distinct_card indexed_def length_map)
  finally show ?thesis .
qed

lemma nodes_unique: "linked c xs \<Longrightarrow> indexed c xs \<Longrightarrow> nodes c = xs"
  by (auto simp: nodes_def linked_def indexed_length intro: walk_dll)

lemma wf_cacheI:
  assumes "linked c xs" "indexed c xs" "0 < maxEntries c" "int (length xs) \<le> maxEntries c"
  shows "wf_cache c" "lru_view c = map (item c) xs"
  using assms by (simp_all add: wf_cache_def nodes_unique Size_def indexed_length lru_view_def)

lemma wf_cacheD:
  assumes "wf_cache c"
  shows "linked c (nodes c)" "indexed c (nodes c)" "0 < maxEntries c" "int (length (nodes c)) \<le> maxEntries c"
  using assms by (auto simp: wf_cache_def Size_def dest: indexed_length)

lemma map_of_indexed: "indexed c xs \<Longrightarrow> map_of (rc_cache c) k = Some a \<longleftrightarrow> a \<in> set xs \<and> n_key (rc_heap c a) = k"
  by (auto simp: indexed_def map_of_eq_Some_iff)

lemma map_of_items:
  assumes "indexed c xs"
  shows "map_of (map (item c) xs) k = map_option (\<lambda>a. n_entry (rc_heap c a)) (map_of (rc_cache c) k)"
proof (cases "map_of (rc_cache c) k")
  case None
  then have "k \<notin> fst ` set (rc_cache c)" by (simp add: map_of_eq_None_iff)
  then have "k \<notin> fst ` set (map (item c) xs)" using assms by (auto simp: indexed_def image_iff)
  then have "map_of (map (item c) xs) k = None" by (simp only: map_of_eq_None_iff) simp
  then show ?thesis using None by simp
next
  case (Some a)
  have "distinct (map fst (map (item c) xs))" using assms by (simp add: indexed_def comp_def)
  moreover have "(k, n_entry (rc_heap c a)) \<in> set (map (item c) xs)"
    using Some assms map_of_indexed by fastforce
  ultimately show ?thesis using Some by (metis map_of_eq_Some_iff option.simps(9))
qed

lemma delete_mid: "k \<notin> fst ` set xs \<Longrightarrow> k \<notin> fst ` set ys \<Longrightarrow> AList.delete k (xs @ (k, e) # ys) = xs @ ys"
  by (induction xs) (auto simp: AList.delete_idem)

lemma update_mid: "k \<notin> fst ` set xs \<Longrightarrow> AList.update k e' (xs @ (k, e) # ys) = xs @ (k, e') # ys"
  by (induction xs) auto

lemma update_new: "k \<notin> fst ` set xs \<Longrightarrow> AList.update k e xs = xs @ [(k, e)]"
  by (induction xs) auto

lemma indexed_mid:
  assumes "indexed c (xs @ a # ys)"
  shows "n_key (rc_heap c a) \<notin> fst ` set (map (item c) xs)" "n_key (rc_heap c a) \<notin> fst ` set (map (item c) ys)"
  using assms by (auto simp: indexed_def image_image)

lemma indexed_delete:
  assumes "indexed c (xs @ a # ys)" "distinct (xs @ a # ys)"
    and "\<And>x. n_key (rc_heap c' x) = n_key (rc_heap c x)"
    and "rc_cache c' = AList.delete (n_key (rc_heap c a)) (rc_cache c)" "rc_fresh c' = rc_fresh c"
  shows "indexed c' (xs @ ys)"
proof -
  have "set (rc_cache c') = (\<lambda>b. (n_key (rc_heap c b), b)) ` set (xs @ ys)"
    using assms(1,2,4) indexed_mid [OF assms(1)]
    by (auto simp: AList.delete_eq indexed_def image_iff)
  then show ?thesis using assms by (auto simp: indexed_def distinct_delete)
qed

lemma indexed_perm:
  assumes "indexed c xs" "mset ys = mset xs"
    and "\<And>x. n_key (rc_heap c' x) = n_key (rc_heap c x)" "rc_cache c' = rc_cache c" "rc_fresh c' = rc_fresh c"
  shows "indexed c' ys"
proof -
  have "mset (map (\<lambda>a. n_key (rc_heap c a)) ys) = mset (map (\<lambda>a. n_key (rc_heap c a)) xs)" using assms(2) by simp
  then have "distinct (map (\<lambda>a. n_key (rc_heap c a)) ys)"
    using assms(1) by (metis indexed_def mset_eq_imp_distinct_iff)
  then show ?thesis using assms mset_eq_setD [OF assms(2)] by (auto simp: indexed_def)
qed

section \<open>Every operation refines its list counterpart\<close>

lemma evict_refines:
  assumes wf: "wf_cache c" and at: "nodes c = xs @ a # ys"
    and c': "c' = count_eviction ((removeNode a c)\<lparr>rc_cache := AList.delete (n_key (rc_heap c a)) (rc_cache (removeNode a c))\<rparr>)"
  shows "wf_cache c'" "lru_view c' = map (item c) (xs @ ys)" "nodes c' = xs @ ys"
    "maxEntries c' = maxEntries c" "ttl c' = ttl c" "rc_fresh c' = rc_fresh c"
proof -
  note D = wf_cacheD [OF wf, unfolded at]
  have l: "linked c' (xs @ ys)" using removeNode_linked [OF D(1)] by (simp add: c' count_eviction_def)
  have i: "indexed c' (xs @ ys)"
    using D(1) by (intro indexed_delete [OF D(2)]) (auto simp: c' count_eviction_def linked_def)
  have f: "maxEntries c' = maxEntries c" "ttl c' = ttl c" "rc_fresh c' = rc_fresh c"
    by (simp_all add: c' count_eviction_def)
  have it: "item c' = item c" by (simp add: c' count_eviction_def fun_eq_iff)
  show "wf_cache c'" "lru_view c' = map (item c) (xs @ ys)" "nodes c' = xs @ ys"
    using wf_cacheI [OF l i] D(3,4) nodes_unique [OF l i] by (simp_all add: f it)
qed (simp_all add: c' count_eviction_def)

lemma move_refines:
  assumes wf: "wf_cache c" and at: "nodes c = xs @ a # ys"
  shows "wf_cache (moveToFront a c)" "lru_view (moveToFront a c) = item c a # map (item c) (xs @ ys)"
proof -
  note D = wf_cacheD [OF wf, unfolded at]
  have l: "linked (moveToFront a c) (a # xs @ ys)" by (rule moveToFront_linked [OF D(1)])
  have i: "indexed (moveToFront a c) (a # xs @ ys)" by (rule indexed_perm [OF D(2)]) simp_all
  show "wf_cache (moveToFront a c)" "lru_view (moveToFront a c) = item c a # map (item c) (xs @ ys)"
    using wf_cacheI [OF l i] D(3,4) by simp_all
qed

lemma data_refines:
  assumes wf: "wf_cache c" and at: "nodes c = xs @ a # ys"
    and f: "\<And>nd. n_prev (f nd) = n_prev nd" "\<And>nd. n_next (f nd) = n_next nd" "\<And>nd. n_key (f nd) = n_key nd"
  shows "wf_cache (heap_upd a f c)" "nodes (heap_upd a f c) = xs @ a # ys"
    "lru_view (heap_upd a f c) =
       map (item c) xs @ (n_key (rc_heap c a), n_entry (f (rc_heap c a))) # map (item c) ys"
proof -
  note D = wf_cacheD [OF wf, unfolded at]
  have l: "linked (heap_upd a f c) (xs @ a # ys)" by (rule linked_data [OF D(1) f(1,2)])
  have i: "indexed (heap_upd a f c) (xs @ a # ys)"
    using f(3) by (intro indexed_perm [OF D(2)]) (simp_all add: heap_upd_def)
  have it: "x \<noteq> a \<Longrightarrow> item (heap_upd a f c) x = item c x" for x by (simp add: heap_upd_def)
  have "a \<notin> set xs" "a \<notin> set ys" using D(1) by (auto simp: linked_def)
  then have "map (item (heap_upd a f c)) xs = map (item c) xs" "map (item (heap_upd a f c)) ys = map (item c) ys"
    by (auto simp: heap_upd_def)
  then show "wf_cache (heap_upd a f c)" "nodes (heap_upd a f c) = xs @ a # ys"
    "lru_view (heap_upd a f c) =
       map (item c) xs @ (n_key (rc_heap c a), n_entry (f (rc_heap c a))) # map (item c) ys"
    using wf_cacheI [OF l i] D(3,4) nodes_unique [OF l i] f(3) by (simp_all add: heap_upd_def)
qed

lemma lookup_at:
  assumes "wf_cache c" "map_of (rc_cache c) key = Some a"
  obtains xs ys where "nodes c = xs @ a # ys" "n_key (rc_heap c a) = key"
    "key \<notin> fst ` set (map (item c) xs)" "key \<notin> fst ` set (map (item c) ys)"
    "lru_view c = map (item c) xs @ (key, n_entry (rc_heap c a)) # map (item c) ys"
proof -
  have "a \<in> set (nodes c)" and k: "n_key (rc_heap c a) = key"
    using assms map_of_indexed [OF wf_cacheD(2) [OF assms(1)]] by auto
  then obtain xs ys where at: "nodes c = xs @ a # ys" by (meson split_list)
  from that [OF at k] indexed_mid [OF wf_cacheD(2) [OF assms(1), unfolded at], unfolded k] show thesis
    by (simp add: lru_view_def at k)
qed

lemma map_of_view:
  "wf_cache c \<Longrightarrow> map_of (lru_view c) key = map_option (\<lambda>a. n_entry (rc_heap c a)) (map_of (rc_cache c) key)"
  unfolding lru_view_def by (rule map_of_items [OF wf_cacheD(2)])

lemma wf_metrics [simp]:
  "wf_cache (c\<lparr>rc_metrics := m\<rparr>) = wf_cache c" "lru_view (c\<lparr>rc_metrics := m\<rparr>) = lru_view c"
  by (auto simp: wf_cache_def lru_view_def nodes_def linked_def indexed_def Size_def)

lemma evictKeyLocked_refines:
  assumes "wf_cache c"
  shows "wf_cache (evictKeyLocked key c) \<and> lru_view (evictKeyLocked key c) = AList.delete key (lru_view c)"
proof (cases "map_of (rc_cache c) key")
  case None
  then have "map_of (lru_view c) key = None" using map_of_view [OF assms, of key] by simp
  then have "key \<notin> fst ` set (lru_view c)" by (simp add: map_of_eq_None_iff)
  then show ?thesis
    using None assms by (simp add: evictKeyLocked_def AList.delete_idem)
next
  case (Some a)
  obtain xs ys where at: "nodes c = xs @ a # ys" and k: "n_key (rc_heap c a) = key"
    and out: "key \<notin> fst ` set (map (item c) xs)" "key \<notin> fst ` set (map (item c) ys)"
    and v: "lru_view c = map (item c) xs @ (key, n_entry (rc_heap c a)) # map (item c) ys"
    by (rule lookup_at [OF assms Some])
  have e: "evictKeyLocked key c = count_eviction ((removeNode a c)
      \<lparr>rc_cache := AList.delete (n_key (rc_heap c a)) (rc_cache (removeNode a c))\<rparr>)"
    using Some k by (simp add: evictKeyLocked_def Let_def)
  show ?thesis
    using evict_refines [OF assms at e] delete_mid [OF out] by (simp add: v)
qed

lemma evictLRU_refines:
  assumes "wf_cache c" "nodes c \<noteq> []"
  shows "wf_cache (evictLRU c)" "lru_view (evictLRU c) = butlast (lru_view c)" "length (nodes (evictLRU c)) < length (nodes c)"
    "maxEntries (evictLRU c) = maxEntries c" "ttl (evictLRU c) = ttl c" "nodes (evictLRU c) = butlast (nodes c)"
    "rc_fresh (evictLRU c) = rc_fresh c"
proof -
  obtain xs a where at: "nodes c = xs @ a # []" using assms(2) by (metis append_Cons append_Nil rev_exhaust)
  then have "rc_tail c = Some a" using wf_cacheD(1) [OF assms(1)] by (simp add: linked_def)
  then have e: "evictLRU c = count_eviction ((removeNode a c)
      \<lparr>rc_cache := AList.delete (n_key (rc_heap c a)) (rc_cache (removeNode a c))\<rparr>)"
    by (simp add: evictLRU_def Let_def)
  from evict_refines [OF assms(1) at e]
  show "wf_cache (evictLRU c)" "lru_view (evictLRU c) = butlast (lru_view c)" "length (nodes (evictLRU c)) < length (nodes c)"
    "maxEntries (evictLRU c) = maxEntries c" "ttl (evictLRU c) = ttl c" "nodes (evictLRU c) = butlast (nodes c)"
    "rc_fresh (evictLRU c) = rc_fresh c"
    by (simp_all add: lru_view_def at)
qed

lemma bump_simps [simp]: "n_prev (bump nd) = n_prev nd" "n_next (bump nd) = n_next nd" "n_key (bump nd) = n_key nd"
  "n_entry (bump nd) = touch (n_entry nd)"
  by (simp_all add: bump_def touch_def)

lemma Get_refines:
  assumes wf: "wf_cache c"
  shows "wf_cache (snd (Get now meth path c)) \<and>
    (fst (Get now meth path c), lru_view (snd (Get now meth path c))) = lru_get (ttl c) now (buildKey meth path) (lru_view c)"
proof (cases "map_of (rc_cache c) (buildKey meth path)")
  case None
  then show ?thesis
    using wf map_of_view [OF wf, of "buildKey meth path"]
    by (simp add: Get_def Get_read_def count_miss_def lru_get_def Let_def)
next
  case (Some a)
  let ?k = "buildKey meth path" and ?e = "n_entry (rc_heap c a)"
  obtain xs ys where at: "nodes c = xs @ a # ys" and k: "n_key (rc_heap c a) = ?k"
    and out: "?k \<notin> fst ` set (map (item c) xs)" "?k \<notin> fst ` set (map (item c) ys)"
    and v: "lru_view c = map (item c) xs @ (?k, ?e) # map (item c) ys"
    by (rule lookup_at [OF wf Some])
  have m: "map_of (lru_view c) ?k = Some ?e" using map_of_view [OF wf, of ?k] Some by simp
  let ?c1 = "heap_upd a bump c"
  note B = data_refines [OF wf at, of bump, simplified]
  have v1: "lru_view ?c1 = map (item c) xs @ (?k, touch ?e) # map (item c) ys" using B(3) k by simp
  have at1: "item ?c1 a = (?k, touch ?e)" "map (item ?c1) (xs @ ys) = map (item c) (xs @ ys)"
    using v1 B(2) k by (simp_all add: lru_view_def heap_upd_def)
  have count: "Get_count a c = (AccessCount (touch ?e), ?c1)" by (simp add: Get_count_def heap_upd_def)
  show ?thesis
  proof (cases "entry_expired (ttl c) now ?e")
    case True
    then show ?thesis
      using evictKeyLocked_refines [OF wf, of ?k] Some
      by (simp add: Get_def Get_read_def Get_evict_def count_miss_def lru_get_def m Let_def)
  next
    case False
    have "Get_promote ?k a ?c1 = moveToFront a ?c1" using Some by (simp add: Get_promote_def)
    moreover have "lru_view (moveToFront a ?c1) = (?k, touch ?e) # AList.delete ?k (lru_view c)"
      using move_refines(2) [OF B(1,2)] unfolding at1 v delete_mid [OF out] by simp
    moreover have "lru_view ?c1 = AList.update ?k (touch ?e) (lru_view c)"
      unfolding v v1 update_mid [OF out(1)] by simp
    ultimately show ?thesis
      using False Some move_refines(1) [OF B(1,2)] B(1)
      by (simp add: Get_def Get_read_def count_hit_def lru_get_def m count Let_def)
  qed
qed

lemma insert_refines:
  assumes wf: "wf_cache c" and out: "map_of (rc_cache c) key = None" and room: "int (length (nodes c)) < maxEntries c"
    and c': "c' = addToFront (rc_fresh c) (c\<lparr>rc_heap := (rc_heap c)(rc_fresh c := nd), rc_fresh := Suc (rc_fresh c),
                rc_cache := AList.update key (rc_fresh c) (rc_cache c)\<rparr>)"
    and nd: "n_key nd = key"
  shows "wf_cache c'" "lru_view c' = (key, n_entry nd) # lru_view c"
proof -
  note D = wf_cacheD [OF wf]
  let ?a = "rc_fresh c" and ?xs = "nodes c"
  let ?c1 = "c\<lparr>rc_heap := (rc_heap c)(?a := nd), rc_fresh := Suc ?a, rc_cache := AList.update key ?a (rc_cache c)\<rparr>"
  have new: "?a \<notin> set ?xs" using D(2) by (auto simp: indexed_def)
  have keys: "key \<notin> fst ` set (rc_cache c)" using out by (simp add: map_of_eq_None_iff)
  have l: "linked c' (?a # ?xs)"
    using linked_alloc [OF D(1) new, of nd] new unfolding c' by (intro addToFront_linked) (simp_all add: linked_def)
  have fresh: "x \<in> set ?xs \<Longrightarrow> x \<noteq> ?a" for x using new by auto
  have al: "rc_cache c' = rc_cache c @ [(key, ?a)]" using keys by (simp add: c' update_new)
  have fr: "rc_fresh c' = Suc ?a" by (simp add: c')
  have it: "n_key (rc_heap c' x) = (if x = ?a then key else n_key (rc_heap c x))"
    "n_entry (rc_heap c' x) = (if x = ?a then n_entry nd else n_entry (rc_heap c x))" for x
    by (simp_all add: c' nd)
  have i: "indexed c' (?a # ?xs)"
  proof -
    have 1: "map (\<lambda>x. n_key (rc_heap c' x)) ?xs = map (\<lambda>x. n_key (rc_heap c x)) ?xs" "n_key (rc_heap c' ?a) = key"
      using it new by auto
    have 4: "distinct (map (\<lambda>x. n_key (rc_heap c' x)) ?xs)" "\<forall>x \<in> set ?xs. n_key (rc_heap c' x) = n_key (rc_heap c x)"
      using D(2) it new unfolding 1(1) by (auto simp: indexed_def)
    have 2: "key \<notin> set (map (\<lambda>x. n_key (rc_heap c x)) ?xs)" using keys D(2) by (auto simp: indexed_def image_image)
    have 3: "(\<lambda>x. (n_key (rc_heap c' x), x)) ` set ?xs = (\<lambda>x. (n_key (rc_heap c x), x)) ` set ?xs"
      using it new by (intro image_cong) auto
    show ?thesis
      using D(2) 1(2) 2 3 4 keys by (auto simp: indexed_def al fr)
  qed
  have "map (item c') ?xs = lru_view c" using it new by (auto simp: lru_view_def)
  then show "wf_cache c'" "lru_view c' = (key, n_entry nd) # lru_view c"
    using wf_cacheI [OF l i] room D(3) it [of ?a] by (simp_all add: c')
qed

lemma Put_entry_refines:
  assumes wf: "wf_cache c"
  shows "wf_cache (Put_entry now key h c) \<and> lru_view (Put_entry now key h c) = lru_put (maxEntries c) now key h (lru_view c)"
proof (cases "map_of (rc_cache c) key")
  case None
  let ?full = "maxEntries c \<le> int (length (rc_cache c))"
  let ?c1 = "if ?full then evictLRU c else c"
  have len: "length (rc_cache c) = length (nodes c)" "length (lru_view c) = length (nodes c)"
    by (simp_all add: indexed_length [OF wf_cacheD(2) [OF wf]] lru_view_def)
  have ne: "?full \<Longrightarrow> nodes c \<noteq> []" using wf_cacheD(3) [OF wf] len by auto
  have c1: "wf_cache ?c1" "int (length (nodes ?c1)) < maxEntries ?c1" "maxEntries ?c1 = maxEntries c"
    "lru_view ?c1 = (if ?full then butlast (lru_view c) else lru_view c)"
    using evictLRU_refines [OF wf ne] wf_cacheD(4) [OF wf] wf len by (auto split: if_splits)
  have m: "map_of (lru_view c) key = None" using None map_of_view [OF wf, of key] by simp
  then have "key \<notin> fst ` set (lru_view ?c1)" unfolding c1(4) by (auto simp: map_of_eq_None_iff dest: in_set_butlastD)
  then have "map_of (lru_view ?c1) key = None" by (simp add: map_of_eq_None_iff)
  then have out: "map_of (rc_cache ?c1) key = None" using map_of_view [OF c1(1), of key] by simp
  show ?thesis
    using insert_refines [OF c1(1) out c1(2) refl, of "\<lparr>n_prev = None, n_next = None,
        n_entry = \<lparr>Handler = h, Timestamp = now, AccessCount = 1\<rparr>, n_key = key\<rparr>"] c1(4)
    by (simp add: Put_entry_def None lru_put_def m len Let_def)
next
  case (Some a)
  obtain xs ys where at: "nodes c = xs @ a # ys" and k: "n_key (rc_heap c a) = key"
    and out: "key \<notin> fst ` set (map (item c) xs)" "key \<notin> fst ` set (map (item c) ys)"
    and v: "lru_view c = map (item c) xs @ (key, n_entry (rc_heap c a)) # map (item c) ys"
    by (rule lookup_at [OF wf Some])
  let ?f = "\<lambda>nd. bump (nd\<lparr>n_entry := (n_entry nd)\<lparr>Handler := h, Timestamp := now\<rparr>\<rparr>)"
  let ?e = "touch ((n_entry (rc_heap c a))\<lparr>Handler := h, Timestamp := now\<rparr>)"
  note B = data_refines [OF wf at, of ?f, simplified]
  have "map (item (heap_upd a ?f c)) (xs @ a # ys) = map (item c) xs @ (key, ?e) # map (item c) ys"
    using B(2,3) k by (simp add: lru_view_def)
  then have "map (item (heap_upd a ?f c)) (xs @ ys) = map (item c) (xs @ ys)" "item (heap_upd a ?f c) a = (key, ?e)"
    by simp_all
  then have "lru_view (moveToFront a (heap_upd a ?f c)) = (key, ?e) # AList.delete key (lru_view c)"
    using move_refines(2) [OF B(1,2)] unfolding v delete_mid [OF out] by simp
  moreover have "map_of (lru_view c) key = Some (n_entry (rc_heap c a))" using Some map_of_view [OF wf, of key] by simp
  ultimately show ?thesis using move_refines(1) [OF B(1,2)] by (simp add: Put_entry_def Some lru_put_def)
qed

lemma config_kept [simp]:
  "maxEntries (evictKeyLocked key c) = maxEntries c" "ttl (evictKeyLocked key c) = ttl c"
  "maxEntries (evictLRU c) = maxEntries c" "ttl (evictLRU c) = ttl c"
  "maxEntries (snd (Get now meth path c)) = maxEntries c" "ttl (snd (Get now meth path c)) = ttl c"
  "maxEntries (Put_entry now key h c) = maxEntries c" "ttl (Put_entry now key h c) = ttl c"
  "maxEntries (Put now meth path ho c) = maxEntries c" "ttl (Put now meth path ho c) = ttl c"
  "maxEntries (Clear c) = maxEntries c" "ttl (Clear c) = ttl c"
proof -
  show ev: "maxEntries (evictKeyLocked key c) = maxEntries c" "ttl (evictKeyLocked key c) = ttl c"
    "maxEntries (evictLRU c) = maxEntries c" "ttl (evictLRU c) = ttl c" for key
    by (auto simp: evictKeyLocked_def evictLRU_def count_eviction_def Let_def split: option.split)
  show "maxEntries (snd (Get now meth path c)) = maxEntries c" "ttl (snd (Get now meth path c)) = ttl c"
    using ev by (auto simp: Get_def Get_evict_def Get_count_def Get_promote_def count_hit_def count_miss_def Let_def
        split: get_result.split)
  show put: "maxEntries (Put_entry now key h c) = maxEntries c" "ttl (Put_entry now key h c) = ttl c" for key h
    using ev by (auto simp: Put_entry_def Let_def split: option.split)
  show "maxEntries (Put now meth path ho c) = maxEntries c" "ttl (Put now meth path ho c) = ttl c"
    using put by (auto simp: Put_def split: option.split)
qed (simp_all add: Clear_def)

lemma Clear_refines:
  assumes "wf_cache c"
  shows "wf_cache (Clear c)" "lru_view (Clear c) = []"
  using assms by (auto simp: wf_cache_def Clear_def lru_view_def nodes_def linked_def indexed_def Size_def)

lemma NewRouteCache_refines: "wf_cache (NewRouteCache entries life)" "lru_view (NewRouteCache entries life) = []"
  by (auto simp: wf_cache_def NewRouteCache_def lru_view_def nodes_def linked_def indexed_def Size_def DefaultMaxEntries_def)

section \<open>Sequences of operations\<close>

datatype 'h cache_op =
    OpGet int string string
  | OpPut int string string "'h option"
  | OpDelete string string
  | OpClear

fun exec_op :: "'h cache_op \<Rightarrow> 'h RouteCache \<Rightarrow> 'h option \<times> 'h RouteCache" where
  "exec_op (OpGet now meth path) c = Get now meth path c"
| "exec_op (OpPut now meth path h) c = (None, Put now meth path h c)"
| "exec_op (OpDelete meth path) c = (None, Delete meth path c)"
| "exec_op OpClear c = (None, Clear c)"

fun spec_op :: "int \<Rightarrow> int \<Rightarrow> 'h cache_op \<Rightarrow> 'h lru \<Rightarrow> 'h option \<times> 'h lru" where
  "spec_op cap life (OpGet now meth path) xs = lru_get life now (buildKey meth path) xs"
| "spec_op cap life (OpPut now meth path h) xs =
     (None, case h of None \<Rightarrow> xs | Some h' \<Rightarrow> lru_put cap now (buildKey meth path) h' xs)"
| "spec_op cap life (OpDelete meth path) xs = (None, lru_delete (buildKey meth path) xs)"
| "spec_op cap life OpClear xs = (None, [])"

fun run_ops :: "('o \<Rightarrow> 's \<Rightarrow> 'r \<times> 's) \<Rightarrow> 'o list \<Rightarrow> 's \<Rightarrow> 'r list \<times> 's" where
  "run_ops step [] s = ([], s)"
| "run_ops step (op # rest) s =
     (let (r, s1) = step op s; (rs, s2) = run_ops step rest s1 in (r # rs, s2))"

lemma exec_op_refines:
  assumes "wf_cache c"
  shows "wf_cache (snd (exec_op op c)) \<and> maxEntries (snd (exec_op op c)) = maxEntries c \<and> ttl (snd (exec_op op c)) = ttl c \<and>
    (fst (exec_op op c), lru_view (snd (exec_op op c))) = spec_op (maxEntries c) (ttl c) op (lru_view c)"
proof (cases op)
  case (OpGet now meth path)
  then show ?thesis using Get_refines [OF assms] by simp
next
  case (OpPut now meth path ho)
  then show ?thesis using Put_entry_refines [OF assms] assms by (cases ho) (simp_all add: Put_def)
next
  case (OpDelete meth path)
  then show ?thesis using evictKeyLocked_refines [OF assms] by (simp add: Delete_def evictKey_def lru_delete_def)
next
  case OpClear
  then show ?thesis using Clear_refines [OF assms] by simp
qed

lemma run_ops_refines:
  "wf_cache c \<Longrightarrow>
    wf_cache (snd (run_ops exec_op ops c)) \<and> maxEntries (snd (run_ops exec_op ops c)) = maxEntries c \<and>
    (fst (run_ops exec_op ops c), lru_view (snd (run_ops exec_op ops c))) =
      run_ops (spec_op (maxEntries c) (ttl c)) ops (lru_view c)"
proof (induction ops arbitrary: c)
  case (Cons op ops)
  from exec_op_refines [OF Cons.prems, of op] Cons.IH [of "snd (exec_op op c)"] show ?case
    by (auto simp: split_beta Let_def prod_eq_iff)
qed simp

section \<open>What the cache may answer, under any interleaving\<close>

text \<open>
  \<open>cached c\<close> is the handler the cache holds for a key.  It is read through the map alone, so it
  makes sense even where the linked list and the map disagree.  \<open>store_ok\<close> is the part of the
  invariant that every critical section keeps on its own, whatever the others did in between.
\<close>

definition cached :: "'h RouteCache \<Rightarrow> string \<Rightarrow> 'h option" where
  "cached c key = map_option (\<lambda>a. Handler (n_entry (rc_heap c a))) (map_of (rc_cache c) key)"

definition store_ok :: "'h RouteCache \<Rightarrow> bool" where
  "store_ok c \<longleftrightarrow> (\<forall>k a. map_of (rc_cache c) k = Some a \<longrightarrow> a < rc_fresh c \<and> n_key (rc_heap c a) = k)"

lemma map_of_delete_le: "map_of (AList.delete k al) \<subseteq>\<^sub>m map_of al"
  by (auto simp: map_le_def delete_conv')

lemma store_shrink:
  assumes "store_ok c" "map_of (rc_cache c') \<subseteq>\<^sub>m map_of (rc_cache c)" "rc_fresh c' = rc_fresh c"
    and "\<And>a. n_key (rc_heap c' a) = n_key (rc_heap c a)" "\<And>a. Handler (n_entry (rc_heap c' a)) = Handler (n_entry (rc_heap c a))"
  shows "store_ok c'" "cached c' \<subseteq>\<^sub>m cached c"
proof -
  have sub: "map_of (rc_cache c') k = Some a \<Longrightarrow> map_of (rc_cache c) k = Some a" for k a
    using assms(2) by (metis domI map_le_def)
  show "store_ok c'" unfolding store_ok_def assms(3,4) using assms(1) sub by (auto simp: store_ok_def dest!: sub)
  show "cached c' \<subseteq>\<^sub>m cached c" using sub assms(5) by (auto simp: map_le_def cached_def)
qed

lemma evictKeyLocked_shrinks:
  assumes "store_ok c"
  shows "store_ok (evictKeyLocked key c)" "cached (evictKeyLocked key c) \<subseteq>\<^sub>m cached c"
  by (rule store_shrink [OF assms];
      auto simp: evictKeyLocked_def count_eviction_def Let_def map_of_delete_le split: option.split)+

lemma evictLRU_shrinks:
  assumes "store_ok c"
  shows "store_ok (evictLRU c)" "cached (evictLRU c) \<subseteq>\<^sub>m cached c"
  by (rule store_shrink [OF assms];
      auto simp: evictLRU_def count_eviction_def Let_def map_of_delete_le split: option.split)+

lemma Get_count_shrinks:
  assumes "store_ok c" "Get_count a c = (n, c')"
  shows "store_ok c'" "cached c' \<subseteq>\<^sub>m cached c"
proof -
  have c': "c' = heap_upd a bump c" using assms(2) by (simp add: Get_count_def Let_def)
  show "store_ok c'" "cached c' \<subseteq>\<^sub>m cached c"
    by (rule store_shrink [OF assms(1)]; auto simp: c' heap_upd_def touch_def)+
qed

lemma Get_promote_shrinks:
  assumes "store_ok c"
  shows "store_ok (Get_promote key a c)" "cached (Get_promote key a c) \<subseteq>\<^sub>m cached c"
  by (rule store_shrink [OF assms]; simp add: Get_promote_def)+

lemma Get_evict_shrinks:
  assumes "store_ok c"
  shows "store_ok (Get_evict key c)" "cached (Get_evict key c) \<subseteq>\<^sub>m cached c"
  using evictKeyLocked_shrinks [OF assms] assms by (auto simp: Get_evict_def)

lemma metrics_shrink [simp]:
  "store_ok (count_hit c) = store_ok c" "cached (count_hit c) = cached c"
  "store_ok (count_miss c) = store_ok c" "cached (count_miss c) = cached c"
  by (auto simp: store_ok_def cached_def count_hit_def count_miss_def fun_eq_iff)

lemma Get_read_sound: "Get_read now key c = GetHit a h \<Longrightarrow> cached c key = Some h"
  by (auto simp: Get_read_def cached_def split: option.splits if_splits)

lemma Get_shrinks:
  assumes "store_ok c"
  shows "store_ok (snd (Get now meth path c)) \<and> cached (snd (Get now meth path c)) \<subseteq>\<^sub>m cached c"
proof (cases "Get_read now (buildKey meth path) c")
  case (GetHit a h)
  obtain n c1 where c1: "Get_count a c = (n, c1)" by fastforce
  note s1 = Get_count_shrinks [OF assms c1]
  show ?thesis
    using s1 Get_promote_shrinks [OF s1(1), of "buildKey meth path" a] GetHit c1
    by (auto simp: Get_def Let_def intro: map_le_trans)
qed (use assms Get_evict_shrinks [OF assms] in \<open>simp_all add: Get_def Let_def\<close>)

lemma Put_entry_grows:
  assumes "store_ok c"
  shows "store_ok (Put_entry now key h c) \<and> cached (Put_entry now key h c) \<subseteq>\<^sub>m (cached c)(key \<mapsto> h)"
proof (cases "map_of (rc_cache c) key")
  case None
  define c1 where "c1 = (if maxEntries c \<le> int (length (rc_cache c)) then evictLRU c else c)"
  have s: "store_ok c1" "cached c1 \<subseteq>\<^sub>m cached c" using evictLRU_shrinks [OF assms] assms by (auto simp: c1_def)
  have "map_of (rc_cache c1) k \<noteq> Some (rc_fresh c1)" for k using s(1) by (auto simp: store_ok_def)
  then have "store_ok (Put_entry now key h c)" "cached (Put_entry now key h c) \<subseteq>\<^sub>m (cached c1)(key \<mapsto> h)"
    using s(1) by (auto simp: Put_entry_def None c1_def [symmetric] Let_def store_ok_def cached_def map_le_def AList.update_conv'
        less_Suc_eq split: if_splits)
  moreover have "(cached c1)(key \<mapsto> h) \<subseteq>\<^sub>m (cached c)(key \<mapsto> h)" using s(2) by (auto simp: map_le_def)
  ultimately show ?thesis by (blast intro: map_le_trans)
next
  case (Some a)
  then have uniq: "k \<noteq> key \<Longrightarrow> map_of (rc_cache c) k \<noteq> Some a" for k using assms by (metis store_ok_def)
  let ?c1 = "heap_upd a (\<lambda>nd. bump (nd\<lparr>n_entry := (n_entry nd)\<lparr>Handler := h, Timestamp := now\<rparr>\<rparr>)) c"
  have p: "Put_entry now key h c = moveToFront a ?c1" by (simp add: Put_entry_def Some)
  have heap: "n_key (rc_heap ?c1 x) = n_key (rc_heap c x)"
    "Handler (n_entry (rc_heap ?c1 x)) = (if x = a then h else Handler (n_entry (rc_heap c x)))" for x
    by (simp_all add: heap_upd_def touch_def)
  have "cached (Put_entry now key h c) k = ((cached c)(key \<mapsto> h)) k" for k
    using uniq [of k] Some by (cases "map_of (rc_cache c) k") (auto simp: cached_def p heap)
  then show ?thesis using assms by (auto simp: p store_ok_def heap map_le_def)
qed

lemma buildKey_inj:
  "CHR '':'' \<notin> set m1 \<Longrightarrow> CHR '':'' \<notin> set m2 \<Longrightarrow> buildKey m1 p1 = buildKey m2 p2 \<longleftrightarrow> m1 = m2 \<and> p1 = p2"
  using append_eq_append_conv2 [of m1 "'':'' @ p1" m2 "'':'' @ p2"]
  by (auto simp: buildKey_def append_eq_Cons_conv Cons_eq_append_conv)

section \<open>The contract the router relies on\<close>

text \<open>
  A lookup cache may forget, but it never invents: a hit is the handler stored last for the key, a
  lookup keeps nothing new, storing changes one key only, and clearing forgets everything.  The client lemma
  is the transparency of a cached lookup: over a coherent cache it answers exactly what the table answers.
\<close>

locale lookup_cache =
  fixes valid :: "'c \<Rightarrow> bool"
    and held :: "'c \<Rightarrow> string \<Rightarrow> 'h option"
    and key :: "string \<Rightarrow> string \<Rightarrow> string"
    and admissible :: "string \<Rightarrow> bool"
    and get :: "int \<Rightarrow> string \<Rightarrow> string \<Rightarrow> 'c \<Rightarrow> 'h option \<times> 'c"
    and put :: "int \<Rightarrow> string \<Rightarrow> string \<Rightarrow> 'h option \<Rightarrow> 'c \<Rightarrow> 'c"
    and clear :: "'c \<Rightarrow> 'c"
  assumes key_inj: "admissible m \<Longrightarrow> admissible m' \<Longrightarrow> key m p = key m' p' \<Longrightarrow> p = p'"
    and get_sound: "valid c \<Longrightarrow> get now m p c = (Some h, c') \<Longrightarrow> held c (key m p) = Some h"
    and get_keeps: "valid c \<Longrightarrow> get now m p c = (r, c') \<Longrightarrow> valid c' \<and> held c' \<subseteq>\<^sub>m held c"
    and put_keeps: "valid c \<Longrightarrow> valid (put now m p (Some h) c) \<and> held (put now m p (Some h) c) \<subseteq>\<^sub>m (held c)(key m p \<mapsto> h)"
    and clear_keeps: "valid c \<Longrightarrow> valid (clear c) \<and> held (clear c) = Map.empty"
begin

definition coherent :: "(string \<Rightarrow> 'h option) \<Rightarrow> 'c \<Rightarrow> bool" where
  "coherent table c \<longleftrightarrow> valid c \<and> (\<forall>m p h. admissible m \<longrightarrow> held c (key m p) = Some h \<longrightarrow> table p = Some h)"

lemma coherent_shrink: "coherent table c \<Longrightarrow> valid c' \<Longrightarrow> held c' \<subseteq>\<^sub>m held c \<Longrightarrow> coherent table c'"
  unfolding coherent_def by (metis domI map_le_def)

lemma coherent_put:
  assumes "coherent table c" "admissible m" "table p = Some h"
  shows "coherent table (put now m p (Some h) c)"
proof -
  have v: "valid (put now m p (Some h) c)" and le: "held (put now m p (Some h) c) \<subseteq>\<^sub>m (held c)(key m p \<mapsto> h)"
    using assms(1) put_keeps [of c now m p h] by (auto simp: coherent_def)
  have "table p' = Some h'" if a: "admissible m'" and s: "held (put now m p (Some h) c) (key m' p') = Some h'" for m' p' h'
  proof -
    have "((held c)(key m p \<mapsto> h)) (key m' p') = Some h'" using le s by (metis domI map_le_def)
    then show ?thesis using key_inj [OF a assms(2), of p' p] assms a by (auto simp: coherent_def split: if_splits)
  qed
  with v show ?thesis by (auto simp: coherent_def)
qed

lemma coherent_clear: "valid c \<Longrightarrow> coherent table (clear c)"
  using clear_keeps by (simp add: coherent_def)

lemma coherent_get: "coherent table c \<Longrightarrow> get now m p c = (r, c') \<Longrightarrow> coherent table c'"
  using get_keeps coherent_shrink by (metis coherent_def)

lemma transparent_hit: "coherent table c \<Longrightarrow> admissible m \<Longrightarrow> get now m p c = (Some h, c') \<Longrightarrow> table p = Some h"
  using get_sound by (auto simp: coherent_def)

end

lemma Get_sound: "fst (Get now meth path c) = Some h \<Longrightarrow> cached c (buildKey meth path) = Some h"
  by (auto simp: Get_def Let_def split_beta split: get_result.splits dest: Get_read_sound)

interpretation route_cache: lookup_cache store_ok cached buildKey "\<lambda>m. CHR '':'' \<notin> set m" Get Put Clear
proof (unfold_locales, goal_cases)
  case (1 m m' p p')
  then show ?case by (simp add: buildKey_inj)
next
  case (2 c now m p h c')
  then show ?case using Get_sound [of now m p c h] by simp
next
  case (3 c now m p r c')
  then show ?case using Get_shrinks [of c now m p] by simp
next
  case (4 c now m p h)
  then show ?case using Put_entry_grows by (simp add: Put_def)
next
  case (5 c)
  then show ?case by (simp add: store_ok_def cached_def Clear_def fun_eq_iff)
qed

section \<open>Properties\<close>

text \<open>
  C11: \<^bold>\<open>The pointer structure is an LRU cache.\<close>  Whatever sequence of \<open>Get\<close>, \<open>Put\<close>, \<open>Delete\<close> and
  \<open>Clear\<close> runs on a new cache, at whatever times, the answers are those of the list specification (hits
  answer the stored handler until its TTL, \<open>Put\<close> on a full cache drops the entry at the end of the list, every
  tenth access moves an entry to the front), the entries read off the linked list are those of the
  specification in its order, the doubly linked list and the map agree with each other, and the number of
  entries never exceeds \<open>maxEntries\<close>.
\<close>

theorem route_cache_is_lru:
  "let c0 = (NewRouteCache entries life :: 'h RouteCache);
       (answers, c) = run_ops exec_op ops c0;
       (expected, xs) = run_ops (spec_op (maxEntries c0) life) ops []
   in answers = expected \<and> lru_view c = xs \<and> wf_cache c \<and> Size c \<le> maxEntries c0"
proof -
  let ?c0 = "NewRouteCache entries life :: 'h RouteCache"
  have t: "ttl ?c0 = life" by (simp add: NewRouteCache_def)
  have "lru_view ?c0 = []" by (rule NewRouteCache_refines)
  with run_ops_refines [OF NewRouteCache_refines(1), of ops entries life]
  show ?thesis by (auto simp: t Let_def split_beta prod_eq_iff wf_cache_def)
qed

end
