(* ===== verification/Stream_Plan.thy ===== *)
theory Stream_Plan
  imports Go_Prelude
begin

text \<open>
  \<^verbatim>\<open>pkg/icap/stream_plan.go\<close>: the delivery schedule of a streamed body.

  \<open>PlanBodyStream\<close> turns validated options into a \<open>plan\<close>; \<open>ChunkSize\<close> and \<open>ChunkOffset\<close> derive
  the size and the start time of each chunk from it.  Durations are \<open>int64\<close> nanoseconds; the products and sums of
  the schedule are computed with the wrap-around of \<open>int64\<close>, and the properties show that it never occurs.
  Divisions have non-negative operands once the options are validated, where Go's truncating division is the one of HOL.
\<close>

definition StreamFinishComplete :: string where "StreamFinishComplete = ''complete''"
definition StreamFinishFIN :: string where "StreamFinishFIN = ''fin''"
definition StreamFinishTerm :: string where "StreamFinishTerm = ''term''"

lemmas finish_defs = StreamFinishComplete_def StreamFinishFIN_def StreamFinishTerm_def

definition automaticStreamCadence :: int where "automaticStreamCadence = 100 * 1000000"
definition defaultStreamChunkSize :: int where "defaultStreamChunkSize = 16 * 1024"
definition maxStreamChunks :: int where "maxStreamChunks = 1000"

record plan_options =
  opt_FinishMode :: string
  opt_SourceSize :: int
  opt_SelectedBytes :: int
  opt_TargetChunkSize :: int
  opt_Duration :: int
  opt_Every :: int
  opt_TargetChunks :: int
  opt_SelectedBytesSet :: bool

record plan =
  finishMode :: string
  sourceSize :: int
  bodyBytes :: int
  targetChunkSize :: int
  duration :: int
  every :: int
  chunkCount :: int
  targetChunks :: int

definition ceilPositive :: "int \<Rightarrow> int \<Rightarrow> int" where
  "ceilPositive v divisor = (let result = v div divisor in if v mod divisor \<noteq> 0 then wrap64 (result + 1) else result)"

fun minInt64 :: "int \<Rightarrow> int list \<Rightarrow> int" where
  "minInt64 v [] = v"
| "minInt64 v (other # others) = minInt64 (if other < v then other else v) others"

definition maxInt64 :: "int \<Rightarrow> int \<Rightarrow> int" where
  "maxInt64 left right = (if left > right then left else right)"

definition validSelectedFinishMode :: "string \<Rightarrow> bool" where
  "validSelectedFinishMode mode \<longleftrightarrow> mode = StreamFinishComplete \<or> mode = StreamFinishFIN \<or> mode = StreamFinishTerm"

definition validateSelectedBodyBytes :: "plan_options \<Rightarrow> go_error option" where
  "validateSelectedBodyBytes opt =
     (if \<not> validSelectedFinishMode (opt_FinishMode opt)
      then Some (ErrNew (''unsupported stream finish mode '' @ opt_FinishMode opt))
      else if opt_SelectedBytesSet opt \<and> (opt_SelectedBytes opt < 0 \<or> opt_SelectedBytes opt > opt_SourceSize opt)
      then Some (ErrNew ''selected stream bytes must be between zero and source size'')
      else if opt_FinishMode opt = StreamFinishComplete \<and> opt_SelectedBytesSet opt \<and> opt_SelectedBytes opt \<noteq> opt_SourceSize opt
      then Some (ErrNew ''complete stream selected bytes must equal source size'')
      else None)"

definition validateBodyStreamPlanOptions :: "plan_options \<Rightarrow> go_error option" where
  "validateBodyStreamPlanOptions opt =
     (if opt_SourceSize opt < 0 then Some (ErrNew ''stream source size must be known and non-negative'')
      else if opt_Duration opt < 0 \<or> opt_Every opt < 0
      then Some (ErrNew ''stream duration and cadence must be non-negative'')
      else if opt_TargetChunkSize opt < 0 \<or> opt_TargetChunks opt < 0
      then Some (ErrNew ''stream target chunk values must be non-negative'')
      else if opt_TargetChunkSize opt > 0 \<and> opt_TargetChunks opt > 0
      then Some (ErrNew ''target chunk size and target chunks are mutually exclusive'')
      else validateSelectedBodyBytes opt)"

definition selectedBodyBytes :: "plan_options \<Rightarrow> int" where
  "selectedBodyBytes opt = (if opt_SelectedBytesSet opt then opt_SelectedBytes opt else opt_SourceSize opt)"

definition preferredChunkCount :: "plan_options \<Rightarrow> int \<Rightarrow> int" where
  "preferredChunkCount opt body =
     (if opt_TargetChunkSize opt > 0 then ceilPositive body (opt_TargetChunkSize opt)
      else if opt_TargetChunks opt > 0 then opt_TargetChunks opt
      else if opt_Duration opt > 0 then wrap64 (ceilPositive (opt_Duration opt) automaticStreamCadence + 1)
      else ceilPositive body defaultStreamChunkSize)"

definition cadenceSlots :: "int \<Rightarrow> int \<Rightarrow> int" where
  "cadenceSlots dur ev =
     (let intervals = dur div ev in if intervals \<ge> maxStreamChunks - 1 then maxStreamChunks else intervals + 1)"

definition plannedChunkCount :: "plan_options \<Rightarrow> int \<Rightarrow> int" where
  "plannedChunkCount opt body =
     (if body = 0 then 0
      else
        (let preferred = minInt64 (preferredChunkCount opt body) [body, maxStreamChunks];
             preferred = (if opt_Duration opt > 0 \<and> opt_Every opt > 0
               then minInt64 preferred [cadenceSlots (opt_Duration opt) (opt_Every opt)] else preferred)
         in maxInt64 preferred 1))"

definition validateCadenceRange :: "int \<Rightarrow> int \<Rightarrow> go_error option" where
  "validateCadenceRange ev chunks =
     (if ev = 0 \<or> chunks \<le> 1 then None
      else if ev > MaxInt64 div (chunks - 1)
      then Some (ErrNew ''stream cadence schedule exceeds time duration range'')
      else None)"

definition newBodyStreamPlan :: "plan_options \<Rightarrow> int \<Rightarrow> int \<Rightarrow> plan" where
  "newBodyStreamPlan opt body chunks =
     \<lparr>finishMode = opt_FinishMode opt, sourceSize = opt_SourceSize opt, bodyBytes = body,
      targetChunkSize = opt_TargetChunkSize opt, duration = opt_Duration opt, every = opt_Every opt,
      chunkCount = chunks, targetChunks = opt_TargetChunks opt\<rparr>"

definition PlanBodyStream :: "plan_options \<Rightarrow> go_error + plan" where
  "PlanBodyStream opt0 =
     (let opt = (if opt_FinishMode opt0 = [] then opt0\<lparr>opt_FinishMode := StreamFinishComplete\<rparr> else opt0) in
      case validateBodyStreamPlanOptions opt of
        Some e \<Rightarrow> Inl e
      | None \<Rightarrow>
          (let body = selectedBodyBytes opt; chunks = plannedChunkCount opt body in
           case validateCadenceRange (opt_Every opt) chunks of
             Some e \<Rightarrow> Inl e
           | None \<Rightarrow> Inr (newBodyStreamPlan opt body chunks)))"

definition EffectiveChunkSize :: "plan \<Rightarrow> int" where
  "EffectiveChunkSize p = (if chunkCount p = 0 then 0 else ceilPositive (bodyBytes p) (chunkCount p))"

definition ChunkSize :: "plan \<Rightarrow> int \<Rightarrow> int option" where
  "ChunkSize p index =
     (if index < 0 \<or> index \<ge> chunkCount p then None
      else
        (let base = bodyBytes p div chunkCount p in
         Some (if index < bodyBytes p mod chunkCount p then wrap64 (base + 1) else base)))"

definition durationChunkOffset :: "int \<Rightarrow> int \<Rightarrow> int \<Rightarrow> int" where
  "durationChunkOffset dur chunks index =
     (if chunks = 1 then dur
      else
        (let intervals = chunks - 1; whole = dur div intervals; remainder = dur mod intervals in
         wrap64 (wrap64 (whole * index) + wrap64 (remainder * index) div intervals)))"

definition ChunkOffset :: "plan \<Rightarrow> int \<Rightarrow> int option" where
  "ChunkOffset p index =
     (if index < 0 \<or> index \<ge> chunkCount p then None
      else if duration p > 0 then Some (durationChunkOffset (duration p) (chunkCount p) index)
      else Some (wrap64 (index * every p)))"

section \<open>The number of chunks\<close>

lemma minInt64_le: "minInt64 v xs \<le> v" "x \<in> set xs \<Longrightarrow> minInt64 v xs \<le> x"
proof (induction xs arbitrary: v)
  case (Cons y ys)
  { case 1 then show ?case using Cons.IH(1) [of "if y < v then y else v"] by (auto split: if_splits) }
  { case 2 then show ?case using Cons.IH [of "if y < v then y else v"] by (auto split: if_splits) }
qed auto

text \<open>The values of the Go struct: every number is an \<open>int64\<close>.\<close>

definition options_int64 :: "plan_options \<Rightarrow> bool" where
  "options_int64 opt \<longleftrightarrow> in_int64 (opt_SourceSize opt) \<and> in_int64 (opt_SelectedBytes opt) \<and>
     in_int64 (opt_TargetChunkSize opt) \<and> in_int64 (opt_Duration opt) \<and> in_int64 (opt_Every opt) \<and> in_int64 (opt_TargetChunks opt)"

text \<open>What a plan promises about its numbers.\<close>

definition plan_ok :: "plan \<Rightarrow> bool" where
  "plan_ok p \<longleftrightarrow> 0 \<le> bodyBytes p \<and> bodyBytes p \<le> sourceSize p \<and> sourceSize p \<le> MaxInt64 \<and>
     0 \<le> duration p \<and> duration p \<le> MaxInt64 \<and> 0 \<le> every p \<and>
     0 \<le> chunkCount p \<and> chunkCount p \<le> 1000 \<and> chunkCount p \<le> bodyBytes p \<and> (chunkCount p = 0 \<longleftrightarrow> bodyBytes p = 0) \<and>
     validSelectedFinishMode (finishMode p) \<and> (finishMode p = StreamFinishComplete \<longrightarrow> bodyBytes p = sourceSize p) \<and>
     (1 < chunkCount p \<longrightarrow> every p * (chunkCount p - 1) \<le> (if 0 < duration p then duration p else MaxInt64))"

lemma plannedChunkCount_range:
  assumes "0 \<le> body"
  shows "0 \<le> plannedChunkCount opt body" "plannedChunkCount opt body \<le> body" "plannedChunkCount opt body \<le> 1000"
    "plannedChunkCount opt body = 0 \<longleftrightarrow> body = 0"
proof -
  let ?m = "minInt64 (preferredChunkCount opt body) [body, maxStreamChunks]"
  have "?m \<le> body" "?m \<le> maxStreamChunks" by (auto intro: minInt64_le(2))
  then show "0 \<le> plannedChunkCount opt body" "plannedChunkCount opt body \<le> body" "plannedChunkCount opt body \<le> 1000"
    "plannedChunkCount opt body = 0 \<longleftrightarrow> body = 0"
    using assms by (auto simp: plannedChunkCount_def Let_def maxInt64_def maxStreamChunks_def)
qed

lemma plannedChunkCount_cadence:
  assumes "0 < opt_Duration opt" "0 < opt_Every opt" "1 < plannedChunkCount opt body"
  shows "opt_Every opt * (plannedChunkCount opt body - 1) \<le> opt_Duration opt"
proof -
  let ?n = "plannedChunkCount opt body" and ?q = "opt_Duration opt div opt_Every opt"
  have "?n \<le> cadenceSlots (opt_Duration opt) (opt_Every opt)"
    using assms by (auto simp: plannedChunkCount_def Let_def maxInt64_def split: if_splits)
  then have "?n - 1 \<le> ?q" by (auto simp: cadenceSlots_def Let_def split: if_splits)
  then have "opt_Every opt * (?n - 1) \<le> opt_Every opt * ?q" using assms(2) by (intro mult_left_mono) auto
  also have "\<dots> \<le> opt_Duration opt" using assms(2) by (metis mult_div_mod_eq pos_mod_sign le_add_same_cancel1)
  finally show ?thesis .
qed

lemma PlanBodyStream_ok:
  assumes "PlanBodyStream opt0 = Inr p" "options_int64 opt0"
  shows "plan_ok p"
proof -
  define opt where "opt = (if opt_FinishMode opt0 = [] then opt0\<lparr>opt_FinishMode := StreamFinishComplete\<rparr> else opt0)"
  let ?body = "selectedBodyBytes opt"
  let ?n = "plannedChunkCount opt ?body"
  have v: "validateBodyStreamPlanOptions opt = None" "validateCadenceRange (opt_Every opt) ?n = None"
    "p = newBodyStreamPlan opt ?body ?n"
    using assms(1) by (auto simp: PlanBodyStream_def Let_def opt_def split: option.splits)
  have int: "options_int64 opt" using assms(2) by (auto simp: options_int64_def opt_def)
  have opt: "0 \<le> opt_SourceSize opt" "0 \<le> opt_Duration opt" "0 \<le> opt_Every opt"
    "validSelectedFinishMode (opt_FinishMode opt)"
    "opt_SelectedBytesSet opt \<Longrightarrow> 0 \<le> opt_SelectedBytes opt \<and> opt_SelectedBytes opt \<le> opt_SourceSize opt"
    "opt_FinishMode opt = StreamFinishComplete \<Longrightarrow> opt_SelectedBytesSet opt \<Longrightarrow> opt_SelectedBytes opt = opt_SourceSize opt"
    using v(1) by (auto simp: validateBodyStreamPlanOptions_def validateSelectedBodyBytes_def split: if_splits)
  have body: "0 \<le> ?body" "?body \<le> opt_SourceSize opt" using opt by (auto simp: selectedBodyBytes_def)
  have cadence: "opt_Every opt * (?n - 1) \<le> (if 0 < opt_Duration opt then opt_Duration opt else MaxInt64)" if "1 < ?n"
  proof (cases "opt_Every opt = 0 \<or> 0 < opt_Duration opt")
    case True
    then show ?thesis using plannedChunkCount_cadence [of opt ?body] that opt(2,3)
      by (cases "opt_Every opt = 0") (auto simp: MaxInt64_def)
  next
    case False
    with v(2) that have "opt_Every opt \<le> MaxInt64 div (?n - 1)" by (auto simp: validateCadenceRange_def split: if_splits)
    then have "opt_Every opt * (?n - 1) \<le> MaxInt64 div (?n - 1) * (?n - 1)" using that by (intro mult_right_mono) auto
    also have "\<dots> \<le> MaxInt64" using that by (metis div_mult_mod_eq diff_gt_0_iff_gt le_add_same_cancel1 pos_mod_sign)
    finally show ?thesis using False opt(2) by simp
  qed
  have "?body = opt_SourceSize opt" if "opt_FinishMode opt = StreamFinishComplete"
    using opt(6) that by (auto simp: selectedBodyBytes_def)
  with body plannedChunkCount_range [OF body(1), of opt] opt int cadence v(3) show ?thesis
    by (auto simp: plan_ok_def newBodyStreamPlan_def options_int64_def in_int64_def)
qed

section \<open>Sizes and offsets\<close>

lemma wrap64_nonneg [simp]: "0 \<le> x \<Longrightarrow> x \<le> MaxInt64 \<Longrightarrow> wrap64 x = x"
  by (simp add: in_int64_nonneg)

lemma ChunkSize_exact:
  assumes "plan_ok p" "0 \<le> i" "i < chunkCount p"
  shows "ChunkSize p i = Some (bodyBytes p div chunkCount p + (if i < bodyBytes p mod chunkCount p then 1 else 0))"
proof -
  let ?b = "bodyBytes p" and ?n = "chunkCount p"
  have n: "0 < ?n" "0 \<le> ?b" "?b \<le> MaxInt64" using assms by (auto simp: plan_ok_def)
  have "?b div ?n + 1 \<le> MaxInt64" if "i < ?b mod ?n"
  proof -
    have "?b = ?b div ?n * ?n + ?b mod ?n" by simp
    then have "?b div ?n * ?n \<le> ?b - 1" using that assms(2) by linarith
    moreover have "?b div ?n * 1 \<le> ?b div ?n * ?n"
      using n by (intro mult_left_mono) (auto simp: pos_imp_zdiv_nonneg_iff)
    ultimately show ?thesis using n by linarith
  qed
  then show ?thesis using assms n by (auto simp: ChunkSize_def Let_def pos_imp_zdiv_nonneg_iff)
qed

lemma sum_less_indicator: "0 \<le> m \<Longrightarrow> m \<le> int n \<Longrightarrow> (\<Sum>i<n. if int i < m then 1 else 0 :: int) = m"
proof (induction n arbitrary: m)
  case (Suc n)
  show ?case
  proof (cases "m = int (Suc n)")
    case True
    then show ?thesis by (simp add: sum.If_cases)
  next
    case False
    with Suc show ?thesis by simp
  qed
qed simp

lemma ChunkSize_sum:
  assumes "plan_ok p"
  shows "(\<Sum>i<nat (chunkCount p). the (ChunkSize p (int i))) = bodyBytes p"
proof -
  let ?b = "bodyBytes p" and ?n = "chunkCount p"
  have n: "0 \<le> ?n" "?n = 0 \<longleftrightarrow> ?b = 0" "0 \<le> ?b" using assms by (auto simp: plan_ok_def)
  have "(\<Sum>i<nat ?n. the (ChunkSize p (int i))) = (\<Sum>i<nat ?n. ?b div ?n + (if int i < ?b mod ?n then 1 else 0))"
    by (rule sum.cong) (use ChunkSize_exact [OF assms] in auto)
  also have "\<dots> = int (nat ?n) * (?b div ?n) + (\<Sum>i<nat ?n. if int i < ?b mod ?n then 1 else 0)"
    by (simp add: sum.distrib)
  also have "\<dots> = ?n * (?b div ?n) + ?b mod ?n"
  proof (cases "?n = 0")
    case True
    then show ?thesis using n by simp
  next
    case False
    then have "0 \<le> ?b mod ?n" "?b mod ?n \<le> int (nat ?n)" using n by (auto simp: less_imp_le pos_mod_bound)
    then show ?thesis using n by (simp add: sum_less_indicator)
  qed
  finally show ?thesis by simp
qed

lemma durationChunkOffset_exact:
  assumes "0 \<le> dur" "dur \<le> MaxInt64" "1 < n" "n \<le> 1000" "0 \<le> i" "i < n"
  shows "durationChunkOffset dur n i = dur * i div (n - 1)"
proof -
  define k where "k = n - 1"
  have k: "0 < k" "k \<le> 999" "i \<le> k" using assms by (auto simp: k_def)
  have m: "0 \<le> dur mod k" "dur mod k < k" using k by auto
  have "dur div k * i \<le> dur div k * k" using k assms by (intro mult_left_mono) (auto simp: pos_imp_zdiv_nonneg_iff)
  also have "\<dots> \<le> dur" using k by (metis div_mult_mod_eq le_add_same_cancel1 pos_mod_sign)
  finally have w: "0 \<le> dur div k * i" "dur div k * i \<le> dur" using k assms by (auto simp: pos_imp_zdiv_nonneg_iff)
  have "dur mod k \<le> 999" using pos_mod_bound [of k dur] k by linarith
  moreover have "i \<le> 999" using k by simp
  ultimately have "dur mod k * i \<le> 999 * 999" using mult_mono [of "dur mod k" 999 i 999] assms(5) by simp
  then have r: "0 \<le> dur mod k * i" "dur mod k * i \<le> MaxInt64" using m assms by (auto simp: MaxInt64_def)
  have eq: "dur * i div k = dur div k * i + dur mod k * i div k"
  proof -
    have "dur * i = (dur div k * i) * k + dur mod k * i" by (metis div_mult_mod_eq distrib_right mult.commute mult.left_commute)
    then show ?thesis using k by simp
  qed
  have "dur * i div k \<le> dur * k div k" using k assms by (intro zdiv_mono1) (auto intro: mult_left_mono)
  then have "dur * i div k \<le> MaxInt64" using k assms by simp
  with w r eq assms k show ?thesis
    by (simp add: durationChunkOffset_def Let_def k_def [symmetric] pos_imp_zdiv_nonneg_iff)
qed

lemma le_div_int: "0 < k \<Longrightarrow> x * k \<le> y \<Longrightarrow> x \<le> y div (k :: int)"
  using zdiv_mono1 [of "x * k" y k] by simp

lemma div_step:
  assumes "0 < k" "0 \<le> dur" "0 \<le> (i::int)"
  shows "dur * i div k + dur div k \<le> dur * (i + 1) div k"
proof -
  have "(dur * i div k + dur div k) * k \<le> dur * i + dur"
    using assms(1) by (metis add_mono distrib_right div_mult_mod_eq le_add_same_cancel1 pos_mod_sign)
  also have "\<dots> = dur * (i + 1)" by (simp add: distrib_left)
  finally show ?thesis using assms(1) by (rule le_div_int [rotated])
qed

section \<open>Properties\<close>

text \<open>
  C23: a plan splits the selected bytes exactly: there are between 1 and 1000 chunks for a non-empty
  body (none for an empty one), every chunk has at least one byte, two chunks differ by at most one byte, none is longer
  than \<open>EffectiveChunkSize\<close>, and their sizes add up to the selected bytes, which never exceed the source
  and are all of it in the mode \<open>complete\<close>.
\<close>

theorem plan_splits_body:
  assumes "PlanBodyStream opt = Inr p" and "options_int64 opt"
  shows "(\<Sum>i<nat (chunkCount p). the (ChunkSize p (int i))) = bodyBytes p \<and>
     (0 < bodyBytes p \<longrightarrow> 1 \<le> chunkCount p) \<and> chunkCount p \<le> 1000 \<and>
     0 \<le> bodyBytes p \<and> bodyBytes p \<le> sourceSize p \<and> (finishMode p = StreamFinishComplete \<longrightarrow> bodyBytes p = sourceSize p) \<and>
     (\<forall>i j. 0 \<le> i \<and> i < chunkCount p \<and> 0 \<le> j \<and> j < chunkCount p \<longrightarrow>
        (\<exists>a b. ChunkSize p i = Some a \<and> ChunkSize p j = Some b \<and> 1 \<le> a \<and> \<bar>a - b\<bar> \<le> 1 \<and> a \<le> EffectiveChunkSize p))"
proof -
  have ok: "plan_ok p" using PlanBodyStream_ok assms by blast
  let ?b = "bodyBytes p" and ?n = "chunkCount p"
  have size: "\<exists>a b. ChunkSize p i = Some a \<and> ChunkSize p j = Some b \<and> 1 \<le> a \<and> \<bar>a - b\<bar> \<le> 1 \<and> a \<le> EffectiveChunkSize p"
    if "0 \<le> i" "i < ?n" "0 \<le> j" "j < ?n" for i j
  proof -
    have n: "0 < ?n" "?n \<le> ?b" "?b \<le> MaxInt64" using that ok by (auto simp: plan_ok_def)
    then have "1 \<le> ?b div ?n" by (metis div_self less_irrefl zdiv_mono1)
    moreover have "i < ?b mod ?n \<Longrightarrow> EffectiveChunkSize p = ?b div ?n + 1"
    proof -
      assume i: "i < ?b mod ?n"
      have "ChunkSize p i = Some (?b div ?n + 1)" using ChunkSize_exact [OF ok that(1,2)] i by simp
      moreover have "ChunkSize p i = Some (wrap64 (?b div ?n + 1))" using i that by (simp add: ChunkSize_def)
      ultimately show ?thesis using i that n by (simp add: EffectiveChunkSize_def ceilPositive_def Let_def)
    qed
    moreover have "?b div ?n \<le> EffectiveChunkSize p"
    proof (cases "?b mod ?n = 0")
      case True
      then show ?thesis using n by (simp add: EffectiveChunkSize_def ceilPositive_def)
    next
      case False
      then have "(0::int) < ?b mod ?n" using n by (simp add: order_less_le)
      moreover have "ChunkSize p 0 = Some (wrap64 (?b div ?n + 1))" using calculation n by (simp add: ChunkSize_def)
      ultimately show ?thesis using ChunkSize_exact [OF ok, of 0] n False
        by (simp add: EffectiveChunkSize_def ceilPositive_def Let_def)
    qed
    ultimately show ?thesis using ChunkSize_exact [OF ok that(1,2)] ChunkSize_exact [OF ok that(3,4)] by auto
  qed
  show ?thesis using ChunkSize_sum [OF ok] size ok by (auto simp: plan_ok_def)
qed

theorem plan_splits_body_witness:
  "\<exists>p. PlanBodyStream \<lparr>opt_FinishMode = [], opt_SourceSize = 10, opt_SelectedBytes = 0, opt_TargetChunkSize = 3,
       opt_Duration = 0, opt_Every = 0, opt_TargetChunks = 0, opt_SelectedBytesSet = False\<rparr> = Inr p \<and>
     chunkCount p = 4 \<and> (\<Sum>i<nat (chunkCount p). the (ChunkSize p (int i))) = 10"
proof -
  let ?o = "\<lparr>opt_FinishMode = [], opt_SourceSize = 10, opt_SelectedBytes = 0, opt_TargetChunkSize = 3,
       opt_Duration = 0, opt_Every = 0, opt_TargetChunks = 0, opt_SelectedBytesSet = False\<rparr>"
  let ?p = "\<lparr>finishMode = ''complete'', sourceSize = 10, bodyBytes = 10, targetChunkSize = 3, duration = 0,
       every = 0, chunkCount = 4, targetChunks = 0\<rparr>"
  have p: "PlanBodyStream ?o = Inr ?p" by code_simp
  have "options_int64 ?o" by code_simp
  from plan_splits_body [OF p this] p show ?thesis by auto
qed

text \<open>
  the schedule.  Chunk offsets never overflow and never go back; with a target duration the
  first of several chunks starts at 0 and the last one exactly at the duration; two consecutive chunks are at least
  the minimum interval apart, also when a duration is given.
\<close>

theorem plan_schedule:
  assumes "PlanBodyStream opt = Inr p" and "options_int64 opt"
  shows "(\<forall>i. 0 \<le> i \<and> i + 1 < chunkCount p \<longrightarrow>
        (\<exists>a b. ChunkOffset p i = Some a \<and> ChunkOffset p (i + 1) = Some b \<and> 0 \<le> a \<and> a + every p \<le> b \<and> b \<le> MaxInt64)) \<and>
     (0 < chunkCount p \<and> 0 < duration p \<longrightarrow> ChunkOffset p (chunkCount p - 1) = Some (duration p)) \<and>
     (1 < chunkCount p \<longrightarrow> ChunkOffset p 0 = Some 0)"
proof -
  have ok: "plan_ok p" using PlanBodyStream_ok assms by blast
  let ?n = "chunkCount p" and ?d = "duration p" and ?e = "every p"
  have n: "?n \<le> 1000" "0 \<le> ?d" "?d \<le> MaxInt64" "0 \<le> ?e" using ok by (auto simp: plan_ok_def)
  have off_d: "ChunkOffset p i = Some (?d * i div (?n - 1))" if "0 \<le> i" "i < ?n" "1 < ?n" "0 < ?d" for i
    using durationChunkOffset_exact [of ?d ?n i] n that by (simp add: ChunkOffset_def)
  have off_e: "ChunkOffset p i = Some (i * ?e) \<and> 0 \<le> i * ?e \<and> i * ?e \<le> MaxInt64" if "0 \<le> i" "i < ?n" "1 < ?n" "\<not> 0 < ?d" for i
  proof -
    have "i * ?e \<le> (?n - 1) * ?e" using that n by (intro mult_right_mono) auto
    also have "\<dots> \<le> MaxInt64" using ok that by (auto simp: plan_ok_def mult.commute)
    finally show ?thesis using that n by (simp add: ChunkOffset_def)
  qed
  have step: "\<exists>a b. ChunkOffset p i = Some a \<and> ChunkOffset p (i + 1) = Some b \<and> 0 \<le> a \<and> a + ?e \<le> b \<and> b \<le> MaxInt64"
    if i: "0 \<le> i" "i + 1 < ?n" for i
  proof (cases "0 < ?d")
    case True
    have "?e * (?n - 1) \<le> ?d" using ok i True by (auto simp: plan_ok_def)
    then have "?e \<le> ?d div (?n - 1)" using i by (intro le_div_int) auto
    moreover have "?d * i div (?n - 1) + ?d div (?n - 1) \<le> ?d * (i + 1) div (?n - 1)" using i n by (intro div_step) auto
    moreover have "?d * (i + 1) div (?n - 1) \<le> ?d * (?n - 1) div (?n - 1)" using i n by (intro zdiv_mono1 mult_left_mono) auto
    moreover have "0 \<le> ?d * i div (?n - 1)" using i n by (simp add: pos_imp_zdiv_nonneg_iff)
    ultimately show ?thesis using off_d [of i] off_d [of "i + 1"] i True n by auto
  next
    case False
    then show ?thesis using off_e [of i] off_e [of "i + 1"] i by (auto simp: distrib_right)
  qed
  have "ChunkOffset p (?n - 1) = Some ?d" if "0 < ?n" "0 < ?d"
    using off_d [of "?n - 1"] that by (cases "?n = 1") (auto simp: ChunkOffset_def durationChunkOffset_def)
  moreover have "ChunkOffset p 0 = Some 0" if "1 < ?n"
    using off_d [of 0] off_e [of 0] that by (cases "0 < ?d") auto
  ultimately show ?thesis using step by blast
qed

theorem plan_schedule_witness:
  "\<exists>p. PlanBodyStream \<lparr>opt_FinishMode = ''fin'', opt_SourceSize = 100, opt_SelectedBytes = 50, opt_TargetChunkSize = 0,
       opt_Duration = 1000, opt_Every = 300, opt_TargetChunks = 10, opt_SelectedBytesSet = True\<rparr> = Inr p \<and>
     chunkCount p = 4 \<and> ChunkOffset p 0 = Some 0 \<and> ChunkOffset p 3 = Some 1000 \<and>
     (\<exists>a b. ChunkOffset p 1 = Some a \<and> ChunkOffset p 2 = Some b \<and> a + 300 \<le> b)"
proof -
  let ?o = "\<lparr>opt_FinishMode = ''fin'', opt_SourceSize = 100, opt_SelectedBytes = 50, opt_TargetChunkSize = 0,
       opt_Duration = 1000, opt_Every = 300, opt_TargetChunks = 10, opt_SelectedBytesSet = True\<rparr>"
  let ?p = "\<lparr>finishMode = ''fin'', sourceSize = 100, bodyBytes = 50, targetChunkSize = 0, duration = 1000,
       every = 300, chunkCount = 4, targetChunks = 10\<rparr>"
  have p: "PlanBodyStream ?o = Inr ?p" by code_simp
  have o: "options_int64 ?o" by code_simp
  have s: "ChunkOffset ?p 0 = Some 0" "ChunkOffset ?p 3 = Some 1000"
    "\<forall>i. 0 \<le> i \<and> i + 1 < 4 \<longrightarrow> (\<exists>a b. ChunkOffset ?p i = Some a \<and> ChunkOffset ?p (i + 1) = Some b \<and> a + 300 \<le> b)"
    using plan_schedule [OF p o] by auto
  from s(3) [rule_format, of 1] s(1,2) p show ?thesis by auto
qed

end
