(* ===== verification/Body_Stream.thy ===== *)
theory Body_Stream
  imports Chunked Stream_Plan
begin

text \<open>
  \<^verbatim>\<open>pkg/icap/streaming.go\<close>: delivery of a planned body stream.

  Everything outside the stream is one state: the connection, the context, the clock.  \<open>stream_ops\<close> collects what
  the code calls on it: \<open>Write\<close>, \<open>ctx.Err\<close>, \<open>Now\<close>, the sleeper, \<open>Flush\<close>, the close of the payload and the
  start callback.  Since they all act on the state, a cancellation, a slow writer or a late wake-up may happen at
  every call.  The payload is a parameter too: \<open>Open\<close> and \<open>SizeHint\<close> of the \<open>StreamPayload\<close> interface.
  Time is in nanoseconds.
\<close>

section \<open>The world outside\<close>

record 'w stream_ops =
  op_write :: "'w writer"
  op_ctx_err :: "'w \<Rightarrow> go_error option"
  op_now :: "'w \<Rightarrow> int"
  op_sleep :: "'w \<Rightarrow> int \<Rightarrow> go_error option \<times> 'w"
  op_flush :: "'w \<Rightarrow> go_error option \<times> 'w"
  op_close :: "'w \<Rightarrow> go_error option \<times> 'w"
  op_start :: "'w \<Rightarrow> 'w"

text \<open>\<open>Open\<close> returns the reader, \<open>nil\<close> included; \<open>Release\<close> exists on some payloads only.\<close>

record ('p, 'w) payload_ops =
  op_open :: "'p \<Rightarrow> 'w \<Rightarrow> (go_error + source option) \<times> 'w"
  op_size_hint :: "'p \<Rightarrow> int \<times> bool"
  op_release :: "'p \<Rightarrow> ('w \<Rightarrow> go_error option \<times> 'w) option"

record 'p body_stream =
  st_Reader :: "source option"
  st_Payload :: "'p option"
  st_Plan :: plan

text \<open>The clone of a stream over a plain reader gets a payload that cannot be opened.\<close>

definition BodyStream_Clone :: "'p \<Rightarrow> 'p body_stream option \<Rightarrow> 'p body_stream option" where
  "BodyStream_Clone unavailable s =
     (case s of
        None \<Rightarrow> None
      | Some s \<Rightarrow>
          Some (if st_Payload s = None \<and> st_Reader s \<noteq> None
                then s\<lparr>st_Reader := None, st_Payload := Some unavailable\<rparr> else s))"

definition BodyStream_Release ::
  "('p, 'w) payload_ops \<Rightarrow> 'p body_stream option \<Rightarrow> 'w \<Rightarrow> go_error option \<times> 'w" where
  "BodyStream_Release pops s w =
     (case s of
        None \<Rightarrow> (None, w)
      | Some s \<Rightarrow>
          (case st_Payload s of
             None \<Rightarrow> (None, w)
           | Some pl \<Rightarrow> (case op_release pops pl of None \<Rightarrow> (None, w) | Some rel \<Rightarrow> rel w)))"

definition streamWriteBufferSize :: nat where "streamWriteBufferSize = 64 * 1024"

definition countingWrite :: "'w writer \<Rightarrow> ('w \<times> int) writer" where
  "countingWrite wr = (\<lambda>(w, c) p. case wr w p of ((n, e), w') \<Rightarrow> ((n, e), (w', wrap64 (c + int n))))"

section \<open>Writing chunks\<close>

function writeAll :: "'w writer \<Rightarrow> ('w \<Rightarrow> go_error option) \<Rightarrow> 'w \<Rightarrow> string \<Rightarrow> go_error option \<times> 'w" where
  "writeAll wr cerr w data =
     (if data = [] then (None, w)
      else (case cerr w of
              Some e \<Rightarrow> (Some e, w)
            | None \<Rightarrow>
                (case wr w data of
                   ((n, Some e), w') \<Rightarrow> (Some e, w')
                 | ((n, None), w') \<Rightarrow>
                     if n = 0 \<or> n > length data then (Some ErrShortWrite, w')
                     else writeAll wr cerr w' (drop n data))))"
  by pat_completeness auto
termination
  by (relation "measure (\<lambda>(wr, cerr, w, data). length data)") auto

declare writeAll.simps [simp del]

lemma writeAll_Nil [simp]: "writeAll wr cerr w [] = (None, w)"
  by (simp add: writeAll.simps)

abbreviation ops_writeAll :: "'w stream_ops \<Rightarrow> 'w \<times> int \<Rightarrow> string \<Rightarrow> go_error option \<times> 'w \<times> int" where
  "ops_writeAll ops \<equiv> writeAll (countingWrite (op_write ops)) (\<lambda>(w, c). op_ctx_err ops w)"

definition chunkHeader :: "int \<Rightarrow> string" where
  "chunkHeader n = go_FormatInt n 16 @ crlf"

definition flushContext :: "'w stream_ops \<Rightarrow> 'w \<times> int \<Rightarrow> go_error option \<times> 'w \<times> int" where
  "flushContext ops = (\<lambda>(w, c).
     case op_ctx_err ops w of
       Some e \<Rightarrow> (Some e, w, c)
     | None \<Rightarrow> (case op_flush ops w of (e, w') \<Rightarrow> (e, w', c)))"

definition streamReadError :: "go_error \<Rightarrow> go_error" where
  "streamReadError e =
     (if go_Is e EOF \<or> go_Is e ErrUnexpectedEOF then ErrJoin [ErrStreamSourceSizeMismatch, ErrUnexpectedEOF] else e)"

text \<open>The copy loop of \<open>writeChunkData\<close>; the buffer has \<open>buf\<close> bytes.\<close>

function copy_blocks ::
  "'w stream_ops \<Rightarrow> nat \<Rightarrow> nat \<Rightarrow> source \<Rightarrow> 'w \<times> int \<Rightarrow> go_error option \<times> source \<times> 'w \<times> int" where
  "copy_blocks ops buf remaining src w =
     (if remaining = 0 \<or> buf = 0 then (None, src, w)
      else
        (case go_ReadFull src (min remaining buf) of
           ((got, err), src') \<Rightarrow>
             (case (if got = [] then (None, w) else ops_writeAll ops w got) of
                (Some e, w') \<Rightarrow> (Some e, src', w')
              | (None, w') \<Rightarrow>
                  (case err of
                     Some e \<Rightarrow> (Some (streamReadError e), src', w')
                   | None \<Rightarrow> copy_blocks ops buf (remaining - length got) src' w'))))"
  by pat_completeness auto
termination
proof (relation "measure (\<lambda>(ops, buf, remaining, src, w). remaining)", simp, goal_cases)
  case (1 ops buf remaining src w x src' got err)
  then show ?case by (auto simp: go_ReadFull_def Let_def split: if_splits)
qed

declare copy_blocks.simps [simp del]

definition writeChunkData ::
  "'w stream_ops \<Rightarrow> nat \<Rightarrow> source \<Rightarrow> 'w \<times> int \<Rightarrow> go_error option \<times> source \<times> 'w \<times> int" where
  "writeChunkData ops n src w = copy_blocks ops (min n streamWriteBufferSize) n src w"

definition writeChunk ::
  "'w stream_ops \<Rightarrow> nat \<Rightarrow> source \<Rightarrow> 'w \<times> int \<Rightarrow> go_error option \<times> source \<times> 'w \<times> int" where
  "writeChunk ops n src w =
     (case ops_writeAll ops w (chunkHeader (int n)) of
        (Some e, w1) \<Rightarrow> (Some e, src, w1)
      | (None, w1) \<Rightarrow>
          (case writeChunkData ops n src w1 of
             (Some e, src', w2) \<Rightarrow> (Some e, src', w2)
           | (None, src', w2) \<Rightarrow>
               (case ops_writeAll ops w2 crlf of
                  (Some e, w3) \<Rightarrow> (Some e, src', w3)
                | (None, w3) \<Rightarrow> (case flushContext ops w3 of (e, w4) \<Rightarrow> (e, src', w4)))))"

section \<open>Pacing\<close>

definition partialFinishMode :: "string \<Rightarrow> bool" where
  "partialFinishMode mode \<longleftrightarrow> mode = StreamFinishFIN \<or> mode = StreamFinishTerm"

definition stream_partial :: "plan \<Rightarrow> bool" where
  "stream_partial p \<longleftrightarrow> partialFinishMode (finishMode p) \<and> duration p > 0"

definition deadlinePassed :: "plan \<Rightarrow> int \<Rightarrow> int \<Rightarrow> bool" where
  "deadlinePassed p started now \<longleftrightarrow> \<not> (now < started + duration p)"

definition partialDeadlinePassed :: "'w stream_ops \<Rightarrow> plan \<Rightarrow> int \<Rightarrow> 'w \<Rightarrow> bool" where
  "partialDeadlinePassed ops p started w \<longleftrightarrow> stream_partial p \<and> deadlinePassed p started (op_now ops w)"

definition stream_sleep :: "'w stream_ops \<Rightarrow> 'w \<Rightarrow> int \<Rightarrow> go_error option \<times> 'w" where
  "stream_sleep ops w delay = (if delay \<le> 0 then (op_ctx_err ops w, w) else op_sleep ops w delay)"

definition waitForChunk ::
  "'w stream_ops \<Rightarrow> plan \<Rightarrow> int \<Rightarrow> int \<Rightarrow> 'w \<times> int \<Rightarrow> (bool \<times> go_error option) \<times> 'w \<times> int" where
  "waitForChunk ops p started index = (\<lambda>(w, c).
     case op_ctx_err ops w of
       Some e \<Rightarrow> ((False, Some e), w, c)
     | None \<Rightarrow>
         if partialDeadlinePassed ops p started w then ((False, None), w, c)
         else
           (let offset = (case ChunkOffset p index of None \<Rightarrow> 0 | Some x \<Rightarrow> x);
                delay = started + offset - op_now ops w in
            case stream_sleep ops w delay of
              (err, w') \<Rightarrow>
                if err \<noteq> None \<and> delay > 0 then ((False, err), w', c)
                else if partialDeadlinePassed ops p started w' \<and> offset < duration p then ((False, None), w', c)
                else ((True, None), w', c)))"

text \<open>The loop of \<open>writeChunks\<close> from the given index, with the number of chunks still to come.\<close>

fun chunk_loop ::
  "'w stream_ops \<Rightarrow> plan \<Rightarrow> int \<Rightarrow> nat \<Rightarrow> int \<Rightarrow> source \<Rightarrow> 'w \<times> int \<Rightarrow>
     (bool \<times> go_error option) \<times> source \<times> 'w \<times> int" where
  "chunk_loop ops p started 0 index src w = ((True, None), src, w)"
| "chunk_loop ops p started (Suc todo) index src w =
     (case waitForChunk ops p started index w of
        ((proceed, err), w1) \<Rightarrow>
          if err \<noteq> None \<or> \<not> proceed then ((False, err), src, w1)
          else
            (case writeChunk ops (nat (case ChunkSize p index of None \<Rightarrow> 0 | Some n \<Rightarrow> n)) src w1 of
               (Some e, src', w2) \<Rightarrow> ((False, Some e), src', w2)
             | (None, src', w2) \<Rightarrow> chunk_loop ops p started todo (index + 1) src' w2))"

definition writeChunks ::
  "'w stream_ops \<Rightarrow> plan \<Rightarrow> int \<Rightarrow> source \<Rightarrow> 'w \<times> int \<Rightarrow> (bool \<times> go_error option) \<times> source \<times> 'w \<times> int" where
  "writeChunks ops p started src w = chunk_loop ops p started (nat (chunkCount p)) 0 src w"

section \<open>The end of the stream\<close>

definition read_one :: "source \<Rightarrow> (nat \<times> go_error option) \<times> source" where
  "read_one src = (case pending src of [] \<Rightarrow> ((0, Some (final_err src)), src) | c # cs \<Rightarrow> ((1, None), src\<lparr>pending := cs\<rparr>))"

fun probe_loop :: "'w stream_ops \<Rightarrow> nat \<Rightarrow> source \<Rightarrow> 'w \<Rightarrow> go_error option" where
  "probe_loop ops 0 src w = Some ErrNoProgress"
| "probe_loop ops (Suc k) src w =
     (case op_ctx_err ops w of
        Some e \<Rightarrow> Some e
      | None \<Rightarrow>
          (case read_one src of
             ((n, err), src') \<Rightarrow>
               if n > 0 then Some (ErrWrap '': source contains additional data'' ErrStreamSourceSizeMismatch)
               else (case err of
                       Some e \<Rightarrow> if go_Is e EOF then None else Some e
                     | None \<Rightarrow> probe_loop ops k src' w)))"

definition verifySourceEnd :: "'w stream_ops \<Rightarrow> source \<Rightarrow> 'w \<Rightarrow> go_error option" where
  "verifySourceEnd ops src w = probe_loop ops 100 src w"

definition verifyCompletedSource ::
  "'w stream_ops \<Rightarrow> plan \<Rightarrow> bool \<Rightarrow> go_error option \<Rightarrow> source \<Rightarrow> 'w \<Rightarrow> go_error option" where
  "verifyCompletedSource ops p completed err src w =
     (if err \<noteq> None \<or> \<not> completed \<or> bodyBytes p \<noteq> sourceSize p then err else verifySourceEnd ops src w)"

definition writeFinalChunkContext :: "'w stream_ops \<Rightarrow> 'w \<times> int \<Rightarrow> go_error option \<times> 'w \<times> int" where
  "writeFinalChunkContext ops w =
     (case ops_writeAll ops w (''0'' @ crlf @ crlf) of
        (Some e, w') \<Rightarrow> (Some e, w')
      | (None, w') \<Rightarrow> flushContext ops w')"

definition finishDelivery ::
  "'w stream_ops \<Rightarrow> plan \<Rightarrow> 'w \<times> int \<Rightarrow> go_error option \<Rightarrow> (int \<times> go_error option) \<times> 'w" where
  "finishDelivery ops p = (\<lambda>(w, c) err.
     if err \<noteq> None \<or> finishMode p = StreamFinishFIN then ((c, err), w)
     else (case writeFinalChunkContext ops (w, c) of (e, w', c') \<Rightarrow> ((c', e), w')))"

definition deliver :: "'w stream_ops \<Rightarrow> plan \<Rightarrow> source \<Rightarrow> 'w \<Rightarrow> (int \<times> go_error option) \<times> 'w" where
  "deliver ops p src w =
     (let w1 = op_start ops w; started = op_now ops w1 in
      case writeChunks ops p started src (w1, 0) of
        ((completed, err), src', w2, c) \<Rightarrow>
          (let err = verifyCompletedSource ops p completed err src' w2 in
           case op_close ops w2 of
             (cerr, w3) \<Rightarrow> finishDelivery ops p (w3, c) (go_join [err, cerr])))"

definition validateWrite :: "'w stream_ops \<Rightarrow> 'p body_stream option \<Rightarrow> 'w \<Rightarrow> go_error option" where
  "validateWrite ops s w =
     (case s of
        None \<Rightarrow> Some ErrInvalidBodyStreamPlan
      | Some s \<Rightarrow>
          if \<not> validSelectedFinishMode (finishMode (st_Plan s)) then Some ErrInvalidBodyStreamPlan
          else op_ctx_err ops w)"

definition openReader ::
  "('p, 'w) payload_ops \<Rightarrow> 'p body_stream \<Rightarrow> 'w \<Rightarrow> (go_error + source) \<times> 'w" where
  "openReader pops s w =
     (case st_Payload s of
        None \<Rightarrow>
          (case st_Reader s of
             None \<Rightarrow> (Inl (ErrNew ''stream reader is nil''), w)
           | Some r \<Rightarrow> (Inr r, w))
      | Some pl \<Rightarrow>
          (case op_open pops pl w of
             (Inl e, w') \<Rightarrow> (Inl e, w')
           | (Inr None, w') \<Rightarrow> (Inl (ErrNew ''stream payload reader is nil''), w')
           | (Inr (Some r), w') \<Rightarrow> (Inr r, w')))"

definition validateOpenedSource :: "('p, 'w) payload_ops \<Rightarrow> 'p body_stream \<Rightarrow> go_error option" where
  "validateOpenedSource pops s =
     (case st_Payload s of
        None \<Rightarrow> None
      | Some pl \<Rightarrow>
          (case op_size_hint pops pl of
             (n, known) \<Rightarrow>
               if known \<and> n \<noteq> sourceSize (st_Plan s)
               then Some (ErrWrap ('': payload is '' @ go_Itoa n @ '' bytes, plan is '' @ go_Itoa (sourceSize (st_Plan s)))
                      ErrStreamSourceSizeMismatch)
               else None))"

text \<open>A plain reader has nothing to close.\<close>

definition with_closer :: "'p body_stream \<Rightarrow> 'w stream_ops \<Rightarrow> 'w stream_ops" where
  "with_closer s ops = (case st_Payload s of None \<Rightarrow> ops\<lparr>op_close := \<lambda>w. (None, w)\<rparr> | Some _ \<Rightarrow> ops)"

definition writeOpened ::
  "'w stream_ops \<Rightarrow> ('p, 'w) payload_ops \<Rightarrow> 'p body_stream \<Rightarrow> source \<Rightarrow> 'w \<Rightarrow> (int \<times> go_error option) \<times> 'w" where
  "writeOpened ops pops s src w =
     (case validateOpenedSource pops s of
        Some e \<Rightarrow> (case op_close ops w of (ce, w') \<Rightarrow> ((0, go_join [Some e, ce]), w'))
      | None \<Rightarrow>
          (case op_ctx_err ops w of
             Some e \<Rightarrow> (case op_close ops w of (ce, w') \<Rightarrow> ((0, go_join [Some e, ce]), w'))
           | None \<Rightarrow> deliver ops (st_Plan s) src w))"

definition writeToContext ::
  "'w stream_ops \<Rightarrow> ('p, 'w) payload_ops \<Rightarrow> 'p body_stream option \<Rightarrow> 'w \<Rightarrow> (int \<times> go_error option) \<times> 'w" where
  "writeToContext ops pops s w =
     (case validateWrite ops s w of
        Some e \<Rightarrow> ((0, Some e), w)
      | None \<Rightarrow>
          (case openReader pops (the s) w of
             (Inl e, w') \<Rightarrow> ((0, Some e), w')
           | (Inr src, w') \<Rightarrow> writeOpened (with_closer (the s) ops) pops (the s) src w'))"

section \<open>What reaches the connection\<close>

lemma wrap64_wrap64_add [simp]: "wrap64 (wrap64 a + b) = wrap64 (a + b)"
  by (simp add: wrap64_def mod_simps algebra_simps)

lemma go_join_None [simp]: "go_join [a, b] = None \<longleftrightarrow> a = None \<and> b = None"
  by (cases a; cases b) (simp_all add: go_join_def)

lemma go_join_nil [simp]: "go_join [None, None] = None"
  by simp

fun pieces :: "nat list \<Rightarrow> string \<Rightarrow> string list" where
  "pieces [] s = []"
| "pieces (n # ns) s = take n s # pieces ns (drop n s)"

lemma concat_pieces: "sum_list ns \<le> length s \<Longrightarrow> concat (pieces ns s) = take (sum_list ns) s"
  by (induction ns arbitrary: s) (auto simp: take_add)

lemma take_pieces: "take j (pieces ns s) = pieces (take j ns) s"
  by (induction ns arbitrary: j s) (auto simp: take_Cons split: nat.splits)

definition plan_sizes :: "plan \<Rightarrow> int \<Rightarrow> nat \<Rightarrow> nat list" where
  "plan_sizes p i n = map (\<lambda>j. nat (case ChunkSize p (i + int j) of None \<Rightarrow> 0 | Some x \<Rightarrow> x)) [0..<n]"

lemma plan_sizes_Suc: "plan_sizes p i (Suc n) = nat (case ChunkSize p i of None \<Rightarrow> 0 | Some x \<Rightarrow> x) # plan_sizes p (i + 1) n"
  unfolding plan_sizes_def map_upt_Suc by (simp add: comp_def ac_simps)

text \<open>
  The contract of the outside world: a writer that keeps the \<open>io.Writer\<close> contract, and calls that do not write on
  their own.
\<close>

locale stream_world = io_writer "op_write ops" contents
  for ops :: "'w stream_ops" and contents :: "'w \<Rightarrow> string" +
  assumes sleep_contents: "op_sleep ops w d = (e, w') \<Longrightarrow> contents w' = contents w"
    and flush_contents: "op_flush ops w = (e, w') \<Longrightarrow> contents w' = contents w"
    and close_contents: "op_close ops w = (e, w') \<Longrightarrow> contents w' = contents w"
    and start_contents: "contents (op_start ops w) = contents w"
begin

text \<open>\<open>s\<close> was sent between two states, and the counter of the writer counted it.\<close>

definition sent :: "'w \<times> int \<Rightarrow> 'w \<times> int \<Rightarrow> string \<Rightarrow> bool" where
  "sent w w' s \<longleftrightarrow> contents (fst w') = contents (fst w) @ s \<and>
     (in_int64 (snd w) \<longrightarrow> snd w' = wrap64 (snd w + int (length s)))"

lemma sent_refl [simp, intro]: "sent w w []"
  by (simp add: sent_def)

lemma sent_same [intro]: "contents w' = contents w \<Longrightarrow> sent (w, c) (w', c) []"
  by (simp add: sent_def)

lemma sent_trans [trans]: "sent w w1 s \<Longrightarrow> sent w1 w2 t \<Longrightarrow> sent w w2 (s @ t)"
  by (auto simp: sent_def wrap64_range add.assoc)

lemma countingWrite_sent:
  assumes "countingWrite (op_write ops) w p = ((n, e), w')"
  shows "sent w w' (take n p)" "n \<le> length p" "e = None \<Longrightarrow> n = length p"
proof -
  obtain u c where w: "w = (u, c)" by force
  obtain u' where u': "op_write ops u p = ((n, e), u')" "w' = (u', wrap64 (c + int n))"
    using assms by (auto simp: countingWrite_def w split: prod.splits)
  note wc = write_contents [OF u'(1)]
  then show "sent w w' (take n p)" "n \<le> length p" using u'(2) w by (auto simp: sent_def min_absorb2)
  show "n = length p" if "e = None" using write_ok u'(1) that by blast
qed

lemma ops_writeAll_sent:
  assumes "ops_writeAll ops w data = (e, w')"
  shows "\<exists>k. sent w w' (take k data) \<and> (e = None \<longrightarrow> sent w w' data)"
proof (cases "data = [] \<or> op_ctx_err ops (fst w) \<noteq> None")
  case True
  have "w' = w \<and> (e = None \<longrightarrow> data = [])"
  proof (cases "data = []")
    case True
    with assms show ?thesis by (simp add: writeAll_Nil)
  next
    case False
    with True obtain x where "op_ctx_err ops (fst w) = Some x" by auto
    with False have "ops_writeAll ops w data = (Some x, w)"
      by (simp add: writeAll.simps [of _ _ w data] case_prod_beta)
    with assms show ?thesis by auto
  qed
  then show ?thesis by (intro exI [of _ 0]) auto
next
  case False
  then obtain n e1 w1 where s1: "countingWrite (op_write ops) w data = ((n, e1), w1)" by (metis prod.exhaust)
  note sent1 = countingWrite_sent [OF s1]
  show ?thesis
  proof (cases e1)
    case None
    with sent1 have "n = length data" by simp
    with False None s1 assms have "(e, w') = (None, w1)"
      by (simp add: writeAll.simps [of _ _ w data] writeAll.simps [of _ _ w1 "[]"] case_prod_beta)
    with sent1 \<open>n = length data\<close> show ?thesis by (intro exI [of _ n]) auto
  next
    case (Some x)
    with False s1 assms have "e = Some x" "w' = w1"
      by (simp_all add: writeAll.simps [of _ _ w data] case_prod_beta)
    with sent1 show ?thesis by auto
  qed
qed

lemma flushContext_sent: "flushContext ops w = (e, w') \<Longrightarrow> sent w w' []"
  using flush_contents by (cases w) (auto simp: flushContext_def split: option.splits prod.splits)

lemma copy_blocks_sent:
  "copy_blocks ops buf n src w = (e, src', w') \<Longrightarrow> 0 < buf \<or> n = 0 \<Longrightarrow>
     \<exists>s. sent w w' s \<and> (e = None \<longrightarrow> n \<le> length (pending src) \<and> s = take n (pending src) \<and>
       src' = src\<lparr>pending := drop n (pending src)\<rparr>)"
proof (induction n arbitrary: src w rule: less_induct)
  case (less n)
  show ?case
  proof (cases "n = 0")
    case True
    with less.prems(1) show ?thesis by (subst (asm) copy_blocks.simps) auto
  next
    case False
    with less.prems(2) have buf: "0 < buf" by simp
    obtain got err src1 where full: "go_ReadFull src (min n buf) = ((got, err), src1)" by (metis prod.exhaust)
    obtain e1 w1 where wr: "(if got = [] then (None, w) else ops_writeAll ops w got) = (e1, w1)" by (metis prod.exhaust)
    then have wr': "ops_writeAll ops w got = (e1, w1)" by (simp split: if_splits)
    obtain k where k: "sent w w1 (take k got)" "e1 = None \<longrightarrow> sent w w1 got"
      using ops_writeAll_sent [OF wr'] by blast
    show ?thesis
    proof (cases "e1 = None \<and> err = None")
      case True
      then have got: "got = take (min n buf) (pending src)" "min n buf \<le> length (pending src)"
        "src1 = src\<lparr>pending := drop (min n buf) (pending src)\<rparr>"
        using full by (auto simp: go_ReadFull_def Let_def split: if_splits)
      have rest: "copy_blocks ops buf (n - length got) src1 w1 = (e, src', w')"
        using less.prems(1) False buf full wr True by (subst (asm) copy_blocks.simps) simp
      obtain s where s: "sent w1 w' s" "e = None \<longrightarrow> n - length got \<le> length (pending src1) \<and>
          s = take (n - length got) (pending src1) \<and> src' = src1\<lparr>pending := drop (n - length got) (pending src1)\<rparr>"
        using less.IH [OF _ rest] \<open>n \<noteq> 0\<close> buf got by auto
      have "sent w w' (got @ s)" using k True s sent_trans by blast
      moreover have "n \<le> length (pending src) \<and> got @ s = take n (pending src) \<and>
          src' = src\<lparr>pending := drop n (pending src)\<rparr>" if "e = None"
      proof -
        have len: "length got = min n buf" using got by simp
        have "take n (pending src) = take (min n buf) (pending src) @ take (n - min n buf) (drop (min n buf) (pending src))"
          by (metis take_add le_add_diff_inverse min.cobounded1)
        then show ?thesis using s(2) that got len by (auto simp: add.commute)
      qed
      ultimately show ?thesis by blast
    next
      case False
      then have "w' = w1 \<and> e \<noteq> None"
        using less.prems(1) \<open>n \<noteq> 0\<close> buf full wr by (subst (asm) copy_blocks.simps) (auto split: option.splits)
      with k show ?thesis by blast
    qed
  qed
qed

lemma writeChunk_sent:
  assumes "writeChunk ops n src w = (e, src', w')"
  shows "\<exists>s. sent w w' s \<and> (e = None \<longrightarrow> n \<le> length (pending src) \<and> s = chunk (take n (pending src)) \<and>
     src' = src\<lparr>pending := drop n (pending src)\<rparr>)"
proof -
  obtain e1 w1 where w1: "ops_writeAll ops w (chunkHeader (int n)) = (e1, w1)" by (metis prod.exhaust)
  obtain e2 src2 w2 where w2: "writeChunkData ops n src w1 = (e2, src2, w2)" by (metis prod.exhaust)
  obtain e3 w3 where w3: "ops_writeAll ops w2 crlf = (e3, w3)" by (metis prod.exhaust)
  obtain e4 w4 where w4: "flushContext ops w3 = (e4, w4)" by (metis prod.exhaust)
  obtain s1 where s1: "sent w w1 s1" "e1 = None \<longrightarrow> s1 = chunkHeader (int n)" using ops_writeAll_sent [OF w1] by blast
  obtain s2 where s2: "sent w1 w2 s2" "e2 = None \<longrightarrow> n \<le> length (pending src) \<and> s2 = take n (pending src) \<and>
      src2 = src\<lparr>pending := drop n (pending src)\<rparr>"
    using copy_blocks_sent [OF w2 [unfolded writeChunkData_def]] by (auto simp: streamWriteBufferSize_def)
  obtain s3 where s3: "sent w2 w3 s3" "e3 = None \<longrightarrow> s3 = crlf" using ops_writeAll_sent [OF w3] by blast
  have s4: "sent w3 w4 []" using flushContext_sent [OF w4] .
  have all: "sent w w2 (s1 @ s2)" "sent w w3 ((s1 @ s2) @ s3)" "sent w w4 (((s1 @ s2) @ s3) @ [])"
    using s1 s2 s3 s4 sent_trans by blast+
  show ?thesis
    using assms w1 w2 w3 w4 s1 s2 s3 all
    by (cases e1; cases e2; cases e3) (auto simp: writeChunk_def chunk_def chunkHeader_def)
qed

lemma waitForChunk_sent:
  assumes "waitForChunk ops p started i w = ((go, err), w')"
  shows "sent w w' []" "\<not> go \<Longrightarrow> err = None \<Longrightarrow> stream_partial p"
  using assms sleep_contents
  by (cases w; auto simp: waitForChunk_def Let_def stream_sleep_def partialDeadlinePassed_def
      split: option.splits prod.splits if_splits)+

lemma chunk_loop_sent:
  assumes "chunk_loop ops p started n i src w = ((completed, err), src', w')"
  shows "\<exists>s. sent w w' s \<and>
     (err = None \<longrightarrow> (\<exists>j \<le> n. s = concat (map chunk (pieces (take j (plan_sizes p i n)) (pending src))) \<and>
        (completed \<longrightarrow> j = n \<and> sum_list (plan_sizes p i n) \<le> length (pending src) \<and>
           src' = src\<lparr>pending := drop (sum_list (plan_sizes p i n)) (pending src)\<rparr>))) \<and>
     (completed \<longrightarrow> err = None) \<and> (\<not> completed \<and> err = None \<longrightarrow> stream_partial p)"
  using assms
proof (induction n arbitrary: i src w)
  case 0
  then show ?case by (auto simp: plan_sizes_def)
next
  case (Suc n)
  obtain go err1 w1 where wt: "waitForChunk ops p started i w = ((go, err1), w1)" by (metis prod.exhaust)
  note sent1 = waitForChunk_sent [OF wt]
  show ?case
  proof (cases "err1 \<noteq> None \<or> \<not> go")
    case True
    with Suc.prems wt have r: "completed = False" "err = err1" "src' = src" "w' = w1" by auto
    have "sent w w' []" using sent1(1) r by simp
    moreover have "\<not> completed \<and> err = None \<longrightarrow> stream_partial p" using r True sent1(2) by auto
    ultimately show ?thesis using r by (intro exI [of _ "[]"]) (auto intro: exI [of _ 0])
  next
    case False
    let ?k = "nat (case ChunkSize p i of None \<Rightarrow> 0 | Some x \<Rightarrow> x)"
    obtain e2 src2 w2 where wc: "writeChunk ops ?k src w1 = (e2, src2, w2)" by (metis prod.exhaust)
    obtain s where s: "sent w1 w2 s" "e2 = None \<longrightarrow> ?k \<le> length (pending src) \<and> s = chunk (take ?k (pending src)) \<and>
        src2 = src\<lparr>pending := drop ?k (pending src)\<rparr>" using writeChunk_sent [OF wc] by blast
    have s02: "sent w w2 s" using sent_trans [OF sent1(1) s(1)] by simp
    show ?thesis
    proof (cases e2)
      case (Some x)
      with Suc.prems wt False wc s02 show ?thesis by auto
    next
      case None
      with Suc.prems wt False wc have rest: "chunk_loop ops p started n (i + 1) src2 w2 = ((completed, err), src', w')" by simp
      obtain t where t: "sent w2 w' t"
        "err = None \<longrightarrow> (\<exists>j \<le> n. t = concat (map chunk (pieces (take j (plan_sizes p (i + 1) n)) (pending src2))) \<and>
          (completed \<longrightarrow> j = n \<and> sum_list (plan_sizes p (i + 1) n) \<le> length (pending src2) \<and>
             src' = src2\<lparr>pending := drop (sum_list (plan_sizes p (i + 1) n)) (pending src2)\<rparr>))"
        "completed \<longrightarrow> err = None" "\<not> completed \<and> err = None \<longrightarrow> stream_partial p"
        using Suc.IH [OF rest] by blast
      have "sent w w' (s @ t)" using s02 t(1) by (rule sent_trans)
      moreover have "\<exists>j \<le> Suc n. s @ t = concat (map chunk (pieces (take j (plan_sizes p i (Suc n))) (pending src))) \<and>
          (completed \<longrightarrow> j = Suc n \<and> sum_list (plan_sizes p i (Suc n)) \<le> length (pending src) \<and>
             src' = src\<lparr>pending := drop (sum_list (plan_sizes p i (Suc n))) (pending src)\<rparr>)" if "err = None"
      proof -
        from t(2) that obtain j where j: "j \<le> n" "t = concat (map chunk (pieces (take j (plan_sizes p (i + 1) n)) (pending src2)))"
          "completed \<longrightarrow> j = n \<and> sum_list (plan_sizes p (i + 1) n) \<le> length (pending src2) \<and>
             src' = src2\<lparr>pending := drop (sum_list (plan_sizes p (i + 1) n)) (pending src2)\<rparr>" by blast
        with s(2) None show ?thesis
          by (intro exI [of _ "Suc j"]) (auto simp: plan_sizes_Suc add.commute)
      qed
      ultimately show ?thesis using t(3,4) by blast
    qed
  qed
qed

lemma deliver_sent:
  assumes "deliver ops p src w = ((n, None), w')"
  shows "\<exists>j \<le> nat (chunkCount p). \<exists>out.
     out = concat (map chunk (pieces (take j (plan_sizes p 0 (nat (chunkCount p)))) (pending src))) @
             (if finishMode p = StreamFinishFIN then [] else zero_chunk []) \<and>
     contents w' = contents w @ out \<and> n = wrap64 (int (length out)) \<and>
     (\<not> stream_partial p \<longrightarrow> j = nat (chunkCount p) \<and>
        sum_list (plan_sizes p 0 (nat (chunkCount p))) \<le> length (pending src) \<and>
        (bodyBytes p = sourceSize p \<longrightarrow> sum_list (plan_sizes p 0 (nat (chunkCount p))) = length (pending src)))"
proof -
  let ?w1 = "op_start ops w" and ?ns = "plan_sizes p 0 (nat (chunkCount p))"
  obtain completed err src' w2 c where wc: "writeChunks ops p (op_now ops ?w1) src (?w1, 0) = ((completed, err), src', w2, c)"
    by (metis prod.exhaust)
  obtain ce w3 where cl: "op_close ops w2 = (ce, w3)" by (metis prod.exhaust)
  let ?err = "verifyCompletedSource ops p completed err src' w2"
  have fin: "finishDelivery ops p (w3, c) (go_join [?err, ce]) = ((n, None), w')"
    using assms wc cl by (simp add: deliver_def Let_def)
  then have ok: "?err = None" "ce = None" by (auto simp: finishDelivery_def split: if_splits prod.splits)
  then have err: "err = None" by (auto simp: verifyCompletedSource_def split: if_splits)
  obtain s where s: "sent (?w1, 0) (w2, c) s"
    "\<exists>j \<le> nat (chunkCount p). s = concat (map chunk (pieces (take j ?ns) (pending src))) \<and>
        (completed \<longrightarrow> j = nat (chunkCount p) \<and> sum_list ?ns \<le> length (pending src) \<and>
           src' = src\<lparr>pending := drop (sum_list ?ns) (pending src)\<rparr>)"
    "\<not> completed \<longrightarrow> stream_partial p"
    using chunk_loop_sent [OF wc [unfolded writeChunks_def]] err by blast
  have "sent (w2, c) (w3, c) []" using close_contents [OF cl] by blast
  with s(1) have s3: "sent (?w1, 0) (w3, c) s" using sent_trans by fastforce
  have "\<exists>c'. sent (?w1, 0) (w', c') (s @ (if finishMode p = StreamFinishFIN then [] else zero_chunk [])) \<and> n = c'"
  proof (cases "finishMode p = StreamFinishFIN")
    case True
    then show ?thesis using fin ok s3 by (auto simp: finishDelivery_def)
  next
    case False
    then obtain c' where fc: "writeFinalChunkContext ops (w3, c) = (None, w', c')" "n = c'"
      using fin ok by (auto simp: finishDelivery_def split: prod.splits)
    then obtain w4 where w4: "ops_writeAll ops (w3, c) (''0'' @ crlf @ crlf) = (None, w4)" "flushContext ops w4 = (None, w', c')"
      by (auto simp: writeFinalChunkContext_def split: prod.splits option.splits)
    have "sent (w3, c) w4 (zero_chunk [])" using ops_writeAll_sent [OF w4(1)] by (simp add: zero_chunk_def)
    with flushContext_sent [OF w4(2)] have "sent (w3, c) (w', c') (zero_chunk [] @ [])" using sent_trans by blast
    with s3 have "sent (?w1, 0) (w', c') (s @ zero_chunk [] @ [])" using sent_trans by blast
    with False fc(2) show ?thesis by simp
  qed
  then obtain out where out: "out = s @ (if finishMode p = StreamFinishFIN then [] else zero_chunk [])"
    "contents w' = contents w @ out" "n = wrap64 (int (length out))"
    using start_contents by (auto simp: sent_def in_int64_def MinInt64_def MaxInt64_def)
  have "pending src' = []" if "completed" "bodyBytes p = sourceSize p"
  proof -
    have "verifySourceEnd ops src' w2 = None" using ok err that by (simp add: verifyCompletedSource_def)
    then show ?thesis
      by (auto simp: verifySourceEnd_def numeral_eq_Suc read_one_def split: option.splits list.splits)
  qed
  with s(2,3) out show ?thesis by fastforce
qed

end

section \<open>\<open>WriteTo\<close> a buffer\<close>

text \<open>
  \<open>BodyStream.WriteTo\<close>: the background context is never cancelled.  The state is a \<open>bytes.Buffer\<close> and the
  clock; sleeping takes at least the requested time, by an arbitrary overrun.
\<close>

definition background_ops :: "(int \<Rightarrow> int) \<Rightarrow> (string \<times> int) stream_ops" where
  "background_ops overrun =
     \<lparr>op_write = (\<lambda>(buf, t) p. case buffer_write buf p of (r, buf') \<Rightarrow> (r, (buf', t))),
      op_ctx_err = (\<lambda>_. None), op_now = snd, op_sleep = (\<lambda>(buf, t) d. (None, (buf, t + d + \<bar>overrun t\<bar>))),
      op_flush = (\<lambda>w. (None, w)), op_close = (\<lambda>w. (None, w)), op_start = id\<rparr>"

interpretation background: stream_world "background_ops overrun" fst for overrun
  by unfold_locales (auto simp: background_ops_def buffer_write_def)

section \<open>A delivery that nothing disturbs\<close>

text \<open>A world in which no call fails, as in a test or on a healthy connection.\<close>

locale healthy_world = stream_world ops contents
  for ops :: "'w stream_ops" and contents :: "'w \<Rightarrow> string" +
  assumes never_cancelled: "op_ctx_err ops w = None"
    and write_succeeds: "snd (fst (op_write ops w p)) = None"
    and sleep_succeeds: "fst (op_sleep ops w d) = None"
    and flush_succeeds: "fst (op_flush ops w) = None"
    and close_succeeds: "fst (op_close ops w) = None"
begin

lemma ops_writeAll_ok: "fst (ops_writeAll ops w data) = None"
proof (cases "data = []")
  case False
  obtain n e w1 where w1: "countingWrite (op_write ops) w data = ((n, e), w1)" by (metis prod.exhaust)
  then have "e = None" using write_succeeds [of "fst w" data]
    by (cases w) (auto simp: countingWrite_def split: prod.splits)
  moreover from this have "n = length data" using countingWrite_sent(3) [OF w1] by simp
  ultimately show ?thesis using w1 False never_cancelled
    by (subst writeAll.simps) (simp add: case_prod_beta)
qed simp

lemma flushContext_ok: "fst (flushContext ops w) = None"
  using flush_succeeds [of "fst w"] never_cancelled by (cases w) (auto simp: flushContext_def split: prod.splits)

lemma copy_blocks_ok:
  "n \<le> length (pending src) \<Longrightarrow> fst (copy_blocks ops buf n src w) = None"
proof (induction n arbitrary: src w rule: less_induct)
  case (less n)
  show ?case
  proof (cases "n = 0 \<or> buf = 0")
    case True
    then show ?thesis by (subst copy_blocks.simps) simp
  next
    case False
    define k got src1 where "k = min n buf" and "got = take k (pending src)" and "src1 = src\<lparr>pending := drop k (pending src)\<rparr>"
    have k: "k \<le> n" "0 < k" "k \<le> length (pending src)" using False less.prems by (auto simp: k_def)
    have full: "go_ReadFull src k = ((got, None), src1)" using k by (simp add: go_ReadFull_def Let_def got_def src1_def)
    obtain w1 where w1: "ops_writeAll ops w got = (None, w1)" using ops_writeAll_ok by (metis prod.collapse)
    have "got \<noteq> []" "length got = k" using k by (auto simp: got_def)
    then have "copy_blocks ops buf n src w = copy_blocks ops buf (n - k) src1 w1"
      using full w1 False by (subst copy_blocks.simps) (simp add: k_def [symmetric])
    moreover have "fst (copy_blocks ops buf (n - k) src1 w1) = None"
      using k less.prems by (intro less.IH) (auto simp: src1_def)
    ultimately show ?thesis by simp
  qed
qed

lemma writeChunk_ok:
  assumes "n \<le> length (pending src)"
  shows "fst (writeChunk ops n src w) = None"
proof -
  obtain w1 where w1: "ops_writeAll ops w (chunkHeader (int n)) = (None, w1)" using ops_writeAll_ok by (metis prod.collapse)
  obtain src2 w2 where w2: "writeChunkData ops n src w1 = (None, src2, w2)"
    using copy_blocks_ok [OF assms] unfolding writeChunkData_def by (metis prod.collapse)
  obtain w3 where w3: "ops_writeAll ops w2 crlf = (None, w3)" using ops_writeAll_ok by (metis prod.collapse)
  obtain w4 where w4: "flushContext ops w3 = (None, w4)" using flushContext_ok by (metis prod.collapse)
  show ?thesis using w1 w2 w3 w4 by (simp add: writeChunk_def)
qed

lemma waitForChunk_ok:
  assumes "\<not> stream_partial p"
  shows "fst (waitForChunk ops p started i w) = (True, None)"
proof -
  obtain u c where w: "w = (u, c)" by force
  let ?d = "started + (case ChunkOffset p i of None \<Rightarrow> 0 | Some x \<Rightarrow> x) - op_now ops u"
  have "fst (stream_sleep ops u ?d) = None" using sleep_succeeds never_cancelled by (simp add: stream_sleep_def)
  then obtain u' where "stream_sleep ops u ?d = (None, u')" by (metis prod.collapse)
  then show ?thesis
    using never_cancelled assms by (simp add: w waitForChunk_def Let_def partialDeadlinePassed_def)
qed

lemma chunk_loop_ok:
  assumes "\<not> stream_partial p" "sum_list (plan_sizes p i n) \<le> length (pending src)"
  shows "fst (chunk_loop ops p started n i src w) = (True, None)"
  using assms(2)
proof (induction n arbitrary: i src w)
  case (Suc n)
  let ?k = "nat (case ChunkSize p i of None \<Rightarrow> 0 | Some x \<Rightarrow> x)"
  obtain w1 where w1: "waitForChunk ops p started i w = ((True, None), w1)"
    using waitForChunk_ok [OF assms(1)] by (metis prod.collapse)
  have k: "?k \<le> length (pending src)" using Suc.prems by (simp add: plan_sizes_Suc)
  obtain src2 w2 where w2: "writeChunk ops ?k src w1 = (None, src2, w2)" using writeChunk_ok [OF k] by (metis prod.collapse)
  then have "src2 = src\<lparr>pending := drop ?k (pending src)\<rparr>" using writeChunk_sent [OF w2] by simp
  then have "fst (chunk_loop ops p started n (i + 1) src2 w2) = (True, None)"
    using Suc.prems by (intro Suc.IH) (simp add: plan_sizes_Suc)
  then show ?case using w1 w2 by simp
qed simp

lemma deliver_ok:
  assumes "\<not> stream_partial p" "sum_list (plan_sizes p 0 (nat (chunkCount p))) \<le> length (pending src)"
    and "bodyBytes p = sourceSize p \<longrightarrow>
      sum_list (plan_sizes p 0 (nat (chunkCount p))) = length (pending src) \<and> final_err src = EOF"
  shows "snd (fst (deliver ops p src w)) = None"
proof -
  let ?w1 = "op_start ops w"
  obtain src' w2 c where wc: "writeChunks ops p (op_now ops ?w1) src (?w1, 0) = ((True, None), src', w2, c)"
    using chunk_loop_ok [OF assms(1,2)] unfolding writeChunks_def by (metis prod.collapse)
  have src': "src' = src\<lparr>pending := drop (sum_list (plan_sizes p 0 (nat (chunkCount p)))) (pending src)\<rparr>"
    using chunk_loop_sent [OF wc [unfolded writeChunks_def]] by auto
  have "verifyCompletedSource ops p True None src' w2 = None"
    using assms(3) src' never_cancelled
    by (auto simp: verifyCompletedSource_def verifySourceEnd_def numeral_eq_Suc read_one_def)
  moreover obtain w3 where "op_close ops w2 = (None, w3)" using close_succeeds by (metis prod.collapse)
  moreover obtain w4 where w4: "ops_writeAll ops (w3, c) (''0'' @ crlf @ crlf) = (None, w4)"
    using ops_writeAll_ok by (metis prod.collapse)
  moreover obtain w5 c5 where "flushContext ops w4 = (None, w5, c5)" using flushContext_ok by (metis prod.collapse)
  ultimately show ?thesis using wc
    by (simp add: deliver_def Let_def finishDelivery_def writeFinalChunkContext_def)
qed

end

interpretation background: healthy_world "background_ops overrun" fst for overrun
  by unfold_locales (auto simp: background_ops_def buffer_write_def)

section \<open>Planned pieces\<close>

lemma plan_sizes_sum:
  assumes "plan_ok p"
  shows "sum_list (plan_sizes p 0 (nat (chunkCount p))) = nat (bodyBytes p)"
proof -
  let ?n = "nat (chunkCount p)"
  have "int (sum_list (plan_sizes p 0 ?n)) = (\<Sum>i<?n. int (nat (case ChunkSize p (int i) of None \<Rightarrow> 0 | Some x \<Rightarrow> x)))"
    unfolding plan_sizes_def by (simp add: interv_sum_list_conv_sum_set_nat atLeast0LessThan)
  also have "\<dots> = (\<Sum>i<?n. the (ChunkSize p (int i)))"
  proof (rule sum.cong [OF refl])
    fix i assume "i \<in> {..<?n}"
    then have "int i < chunkCount p" by auto
    with ChunkSize_exact [OF assms, of "int i"] assms
    show "int (nat (case ChunkSize p (int i) of None \<Rightarrow> 0 | Some x \<Rightarrow> x)) = the (ChunkSize p (int i))"
      by (auto simp: plan_ok_def pos_imp_zdiv_nonneg_iff)
  qed
  also have "\<dots> = bodyBytes p" by (rule ChunkSize_sum [OF assms])
  finally show ?thesis by simp
qed

lemma stream_world_closer:
  assumes "stream_world ops contents"
  shows "stream_world (with_closer s ops) contents"
proof -
  show ?thesis using assms
    by (auto simp: with_closer_def stream_world_def stream_world_axioms_def split: option.split)
qed

lemma healthy_world_closer:
  assumes "healthy_world ops contents"
  shows "healthy_world (with_closer s ops) contents"
  using assms stream_world_closer [of ops contents s]
  by (auto simp: healthy_world_def healthy_world_axioms_def with_closer_def split: option.split)

lemma writeToContext_opened:
  assumes "openReader pops s w = (Inr src, w1)" "writeToContext ops pops (Some s) w = ((n, None), w')"
  shows "deliver (with_closer s ops) (st_Plan s) src w1 = ((n, None), w')"
  using assms by (auto simp: writeToContext_def writeOpened_def go_join_def Let_def split: option.splits prod.splits)

lemma length_pieces: "sum_list ns \<le> length s \<Longrightarrow> map length (pieces ns s) = ns"
  by (induction ns arbitrary: s) auto

lemma plan_sizes_range:
  assumes "plan_ok p" "n \<in> set (plan_sizes p 0 (nat (chunkCount p)))"
  shows "0 < n" "int n \<le> EffectiveChunkSize p"
proof -
  obtain i where i: "i < nat (chunkCount p)" "n = nat (case ChunkSize p (int i) of None \<Rightarrow> 0 | Some x \<Rightarrow> x)"
    using assms(2) by (auto simp: plan_sizes_def)
  let ?b = "bodyBytes p" and ?n = "chunkCount p"
  have c: "0 \<le> int i" "int i < ?n" "0 < ?n" "?n \<le> ?b" using i(1) assms(1) by (auto simp: plan_ok_def)
  then have pos: "1 \<le> ?b div ?n" by (metis div_self less_irrefl zdiv_mono1)
  note size = ChunkSize_exact [OF assms(1) c(1,2)]
  then show "0 < n" using i(2) pos by simp
  have zero: "ChunkSize p 0 = Some (?b div ?n + (if 0 < ?b mod ?n then 1 else 0))"
    using ChunkSize_exact [OF assms(1), of 0] c(3) by simp
  moreover have "0 < ?b mod ?n \<Longrightarrow> ChunkSize p 0 = Some (wrap64 (?b div ?n + 1))" using c(3) by (simp add: ChunkSize_def)
  moreover have "?b mod ?n = 0 \<or> 0 < ?b mod ?n" using pos_mod_sign [OF c(3), of ?b] by linarith
  ultimately have "EffectiveChunkSize p = ?b div ?n + (if 0 < ?b mod ?n then 1 else 0)"
    using c(3) by (elim disjE) (auto simp: EffectiveChunkSize_def ceilPositive_def Let_def)
  moreover have "int i < ?b mod ?n \<Longrightarrow> 0 < ?b mod ?n" by linarith
  ultimately show "int n \<le> EffectiveChunkSize p" using i(2) size pos by auto
qed

lemma pieces_chunks_ok:
  assumes "plan_ok p" "EffectiveChunkSize p \<le> MaxChunkSize" "nat (bodyBytes p) \<le> length s"
  shows "chunks_ok (pieces (plan_sizes p 0 (nat (chunkCount p))) s)"
proof -
  let ?ns = "plan_sizes p 0 (nat (chunkCount p))"
  have len: "map length (pieces ?ns s) = ?ns" using plan_sizes_sum [OF assms(1)] assms(3) by (intro length_pieces) simp
  then have "length x \<in> set ?ns" if "x \<in> set (pieces ?ns s)" for x using that by (metis imageI set_map)
  then show ?thesis using plan_sizes_range [OF assms(1)] assms(2) by (fastforce simp: chunks_ok_def)
qed

lemma complete_not_partial: "finishMode p = StreamFinishComplete \<Longrightarrow> \<not> stream_partial p"
  by (simp add: stream_partial_def partialFinishMode_def finish_defs)

lemma healthy_writeToContext:
  assumes "healthy_world ops contents" "plan_ok (st_Plan s)" "finishMode (st_Plan s) = StreamFinishComplete"
    and "openReader pops s w = (Inr src, w1)" "validateOpenedSource pops s = None"
    and "int (length (pending src)) = sourceSize (st_Plan s)" "final_err src = EOF"
  shows "\<exists>n w'. writeToContext ops pops (Some s) w = ((n, None), w') \<and>
     deliver (with_closer s ops) (st_Plan s) src w1 = ((n, None), w')"
proof -
  let ?p = "st_Plan s"
  let ?ns = "plan_sizes ?p 0 (nat (chunkCount ?p))"
  have world: "healthy_world (with_closer s ops) contents" using healthy_world_closer assms(1) by blast
  have np: "\<not> stream_partial ?p" using complete_not_partial assms(3) .
  have "bodyBytes ?p = sourceSize ?p" using assms(2,3) by (simp add: plan_ok_def)
  then have sum: "sum_list ?ns = length (pending src)" using plan_sizes_sum [OF assms(2)] assms(6) by simp
  obtain n w' where d: "deliver (with_closer s ops) ?p src w1 = ((n, None), w')"
    using healthy_world.deliver_ok [OF world np, of src w1] sum assms(7) by (metis order_refl prod.collapse)
  have "op_ctx_err ops x = None" for x using assms(1) by (simp add: healthy_world_def healthy_world_axioms_def)
  then have "writeToContext ops pops (Some s) w = ((n, None), w')"
    using d assms(3-5) by (simp add: writeToContext_def validateWrite_def writeOpened_def validSelectedFinishMode_def
        with_closer_def split: option.split)
  with d show ?thesis by blast
qed

section \<open>Properties\<close>

text \<open>
  C18: when the delivery of a stream reports success, what reached the connection is a number of
  whole planned chunks of the source, in order and each framed, followed by the terminating chunk unless the finish mode is
  \<open>fin\<close>; the reported count is its length.  In the mode \<open>complete\<close> all chunks were sent
  and the source had exactly the planned size: a short or long source, a failed write or a cancelled context never
  passes for success.
\<close>

theorem stream_success_exact:
  assumes "stream_world ops contents" and "PlanBodyStream opt = Inr (st_Plan s)" and "options_int64 opt"
    and "openReader pops s w = (Inr src, w1)" and "writeToContext ops pops (Some s) w = ((n, None), w')"
  shows "\<exists>j \<le> nat (chunkCount (st_Plan s)). \<exists>out.
     out = concat (map chunk (take j (pieces (plan_sizes (st_Plan s) 0 (nat (chunkCount (st_Plan s)))) (pending src)))) @
             (if finishMode (st_Plan s) = StreamFinishFIN then [] else zero_chunk []) \<and>
     contents w' = contents w1 @ out \<and> n = wrap64 (int (length out)) \<and>
     (finishMode (st_Plan s) = StreamFinishComplete \<longrightarrow>
        j = nat (chunkCount (st_Plan s)) \<and> int (length (pending src)) = sourceSize (st_Plan s))"
proof -
  let ?p = "st_Plan s"
  have ok: "plan_ok ?p" using PlanBodyStream_ok assms(2,3) by blast
  have "stream_world (with_closer s ops) contents" using stream_world_closer assms(1) by blast
  from stream_world.deliver_sent [OF this writeToContext_opened [OF assms(4,5)]] obtain j out where j:
    "j \<le> nat (chunkCount ?p)"
    "out = concat (map chunk (pieces (take j (plan_sizes ?p 0 (nat (chunkCount ?p)))) (pending src))) @
             (if finishMode ?p = StreamFinishFIN then [] else zero_chunk [])"
    "contents w' = contents w1 @ out" "n = wrap64 (int (length out))"
    "\<not> stream_partial ?p \<longrightarrow> j = nat (chunkCount ?p) \<and>
       sum_list (plan_sizes ?p 0 (nat (chunkCount ?p))) \<le> length (pending src) \<and>
       (bodyBytes ?p = sourceSize ?p \<longrightarrow> sum_list (plan_sizes ?p 0 (nat (chunkCount ?p))) = length (pending src))"
    by blast
  moreover have "bodyBytes ?p = sourceSize ?p" if "finishMode ?p = StreamFinishComplete"
    using ok that by (simp add: plan_ok_def)
  moreover have "0 \<le> bodyBytes ?p" using ok by (simp add: plan_ok_def)
  ultimately show ?thesis
    using plan_sizes_sum [OF ok] complete_not_partial [of ?p]
    by (intro exI [of _ j] conjI exI [of _ out]) (auto simp: take_pieces)
qed

text \<open>
  C22: in a world where no call fails, a stream in the mode \<open>complete\<close> over a source of exactly the planned size
  is delivered without an error, however late the sleeps return; and when its chunks stay within the
  reader's limit of 1 MiB, \<open>ReadChunkedBody\<close> on the other side gives back the source byte for byte.
\<close>

theorem stream_delivers_source:
  assumes "healthy_world ops contents" and "PlanBodyStream opt = Inr (st_Plan s)" and "options_int64 opt"
    and "finishMode (st_Plan s) = StreamFinishComplete" and "EffectiveChunkSize (st_Plan s) \<le> MaxChunkSize"
    and "openReader pops s w = (Inr src, w1)" and "validateOpenedSource pops s = None"
    and "int (length (pending src)) = sourceSize (st_Plan s)" and "final_err src = EOF"
  shows "\<exists>n w' out. writeToContext ops pops (Some s) w = ((n, None), w') \<and> contents w' = contents w1 @ out \<and>
     n = wrap64 (int (length out)) \<and> fst (ReadChunkedBody sz (bytes_reader out)) = (pending src, None)"
proof -
  let ?p = "st_Plan s"
  let ?ns = "plan_sizes (st_Plan s) 0 (nat (chunkCount (st_Plan s)))"
  have ok: "plan_ok ?p" using PlanBodyStream_ok assms(2,3) by blast
  have sw: "stream_world (with_closer s ops) contents"
    using healthy_world_closer [OF assms(1), of s] by (simp add: healthy_world_def)
  have np: "\<not> stream_partial ?p" using complete_not_partial assms(4) .
  have body: "bodyBytes ?p = sourceSize ?p" using ok assms(4) by (simp add: plan_ok_def)
  have sum: "sum_list ?ns = length (pending src)" using plan_sizes_sum [OF ok] body assms(8) by simp
  obtain n w' where w': "writeToContext ops pops (Some s) w = ((n, None), w')"
    and d: "deliver (with_closer s ops) ?p src w1 = ((n, None), w')"
    using healthy_writeToContext [OF assms(1) ok assms(4,6-9)] by blast
  let ?ps = "pieces ?ns (pending src)" and ?out = "concat (map chunk (pieces ?ns (pending src))) @ zero_chunk []"
  have len: "length ?ns = nat (chunkCount ?p)" by (simp add: plan_sizes_def)
  have out: "contents w' = contents w1 @ ?out" "n = wrap64 (int (length ?out))"
    using stream_world.deliver_sent [OF sw d] np len assms(4) by (auto simp: finish_defs)
  have "chunks_ok ?ps" using pieces_chunks_ok [OF ok assms(5)] body assms(8) by simp
  then have "ReadChunkedBody sz (bytes_reader ?out) =
      (([] @ concat ?ps, None), after_zero [] (set_pending [] (NewChunkedReader (bytes_reader ?out))))"
    unfolding ReadChunkedBody_def by (intro ReadAll_chunks) (simp_all add: bytes_reader_def)
  moreover have "concat ?ps = pending src" using concat_pieces [of ?ns "pending src"] sum by simp
  ultimately show ?thesis using w' out by auto
qed

definition no_payload :: "(unit, 'w) payload_ops" where
  "no_payload = \<lparr>op_open = (\<lambda>_ w. (Inr None, w)), op_size_hint = (\<lambda>_. (-1, False)), op_release = (\<lambda>_. None)\<rparr>"

definition sample_stream :: "string \<Rightarrow> plan \<Rightarrow> unit body_stream" where
  "sample_stream body p = \<lparr>st_Reader = Some (bytes_reader body), st_Payload = None, st_Plan = p\<rparr>"

definition sample_options :: "int \<Rightarrow> plan_options" where
  "sample_options n = \<lparr>opt_FinishMode = [], opt_SourceSize = n, opt_SelectedBytes = 0, opt_TargetChunkSize = 2,
     opt_Duration = 300, opt_Every = 0, opt_TargetChunks = 0, opt_SelectedBytesSet = False\<rparr>"

definition sample_plan :: plan where
  "sample_plan = \<lparr>finishMode = ''complete'', sourceSize = 5, bodyBytes = 5, targetChunkSize = 2, duration = 300,
     every = 0, chunkCount = 3, targetChunks = 0\<rparr>"

lemma sample_plan_eq: "PlanBodyStream (sample_options 5) = Inr sample_plan" "options_int64 (sample_options 5)"
  by code_simp+

lemma sample_stream_open:
  "openReader no_payload (sample_stream body p) w = (Inr (bytes_reader body), w)"
  "validateOpenedSource no_payload (sample_stream body p) = None"
  "st_Plan (sample_stream body p) = p"
  by (simp_all add: openReader_def validateOpenedSource_def sample_stream_def)

lemma sample_plan_facts:
  "finishMode sample_plan = StreamFinishComplete" "EffectiveChunkSize sample_plan \<le> MaxChunkSize"
  "int (length (pending (bytes_reader ''hello''))) = sourceSize sample_plan" "final_err (bytes_reader ''hello'') = EOF"
  by code_simp+

theorem stream_success_exact_witness:
  "\<exists>n w'. writeToContext (background_ops (\<lambda>t. 7)) no_payload (Some (sample_stream ''hello'' sample_plan)) ([], 1000) = ((n, None), w') \<and>
     fst w' = concat (map chunk (pieces (plan_sizes sample_plan 0 3) ''hello'')) @ zero_chunk []"
proof -
  let ?s = "sample_stream ''hello'' sample_plan"
  note st = sample_stream_open(3) [of "''hello''" sample_plan]
  have "plan_ok sample_plan" using PlanBodyStream_ok sample_plan_eq by blast
  then obtain n w' where run: "writeToContext (background_ops (\<lambda>t. 7)) no_payload (Some ?s) ([], 1000) = ((n, None), w')"
    using healthy_writeToContext [OF background.healthy_world_axioms, where s = ?s, unfolded st, OF _ sample_plan_facts(1)
        sample_stream_open(1,2) sample_plan_facts(3,4)] by blast
  have "length (pieces (plan_sizes sample_plan 0 3) ''hello'') = 3" by code_simp
  moreover have "nat (chunkCount sample_plan) = 3" "finishMode sample_plan = StreamFinishComplete" by code_simp+
  ultimately show ?thesis
    using stream_success_exact [OF background.stream_world_axioms, where s = ?s, unfolded st,
        OF sample_plan_eq sample_stream_open(1) run] run
    by (auto simp: finish_defs bytes_reader_def)
qed

theorem stream_delivers_source_witness:
  "\<exists>n w' out. writeToContext (background_ops (\<lambda>t. t)) no_payload (Some (sample_stream ''hello'' sample_plan)) ([], 0) = ((n, None), w') \<and>
     fst w' = out \<and> n = wrap64 (int (length out)) \<and>
     fst (ReadChunkedBody (\<lambda>i. 511) (bytes_reader out)) = (''hello'', None)"
  using stream_delivers_source [OF background.healthy_world_axioms, where s = "sample_stream ''hello'' sample_plan",
      unfolded sample_stream_open(3), OF sample_plan_eq sample_plan_facts(1,2) sample_stream_open(1,2) sample_plan_facts(3,4),
      of "\<lambda>t. t" "([], 0)" "\<lambda>i. 511"]
  by (auto simp: bytes_reader_def)

end
