(* ===== verification/Icap_Response.thy ===== *)
theory Icap_Response
  imports Icap_Message Body_Stream
begin

text \<open>
  \<^verbatim>\<open>pkg/icap/response.go\<close> and \<^verbatim>\<open>response_write.go\<close>: building, cloning and writing an ICAP response.

  The direct writer stacks a counting writer on a context-checking writer on the connection; \<open>context_ops\<close> and
  \<open>counting_ops\<close> are these two layers over the outside world of \<open>Body_Stream\<close>, so that a body stream inside a
  response is delivered through them.  \<open>writeToBuffer\<close> (behind \<open>String\<close>) is the reference form of the wire text.
\<close>

section \<open>Responses\<close>

definition StatusText :: "int \<Rightarrow> string" where
  "StatusText code =
     (if code = 200 then ''OK''
      else if code = 204 then ''No Content Needed''
      else if code = 400 then ''Bad Request''
      else if code = 404 then ''ICAP Service not found''
      else if code = 405 then ''Method not allowed''
      else if code = 500 then ''Server error''
      else if code = 501 then ''Not implemented''
      else if code = 502 then ''Bad Gateway''
      else if code = 503 then ''Service overloaded''
      else if code = 505 then ''ICAP version not supported''
      else ''Unknown'')"

type_synonym ('r, 'p) stream_message = "('r, 'p body_stream) http_message"

record ('r, 'p) response =
  rs_BodyReader :: "'r option"
  rs_Header :: "header option"
  rs_HTTPRequest :: "('r, 'p) stream_message option"
  rs_HTTPResponse :: "('r, 'p) stream_message option"
  rs_Proto :: string
  rs_Body :: "string option"
  rs_StatusCode :: int
  rs_closeAfterWrite :: bool

definition NewResponse :: "int \<Rightarrow> ('r, 'p) response" where
  "NewResponse code = \<lparr>rs_BodyReader = None, rs_Header = Some NewHeader, rs_HTTPRequest = None, rs_HTTPResponse = None,
     rs_Proto = Version, rs_Body = None, rs_StatusCode = code, rs_closeAfterWrite = False\<rparr>"

definition rs_bytes :: "('r, 'p) response \<Rightarrow> string" where
  "rs_bytes r = (case rs_Body r of None \<Rightarrow> [] | Some b \<Rightarrow> b)"

definition Response_GetHeader :: "('r, 'p) response \<Rightarrow> string \<Rightarrow> string option" where
  "Response_GetHeader r key = (case rs_Header r of None \<Rightarrow> None | Some h \<Rightarrow> Header_Get h key)"

definition Response_SetHeader :: "string \<Rightarrow> string \<Rightarrow> ('r, 'p) response \<Rightarrow> ('r, 'p) response" where
  "Response_SetHeader key v r =
     r\<lparr>rs_Header := Some (Header_Set (case rs_Header r of None \<Rightarrow> NewHeader | Some h \<Rightarrow> h) key v)\<rparr>"

definition SetBody :: "string option \<Rightarrow> ('r, 'p) response \<Rightarrow> ('r, 'p) response" where
  "SetBody b r = r\<lparr>rs_Body := b\<rparr>"

definition SetHTTPRequest :: "('r, 'p) stream_message option \<Rightarrow> ('r, 'p) response \<Rightarrow> ('r, 'p) response" where
  "SetHTTPRequest m r = r\<lparr>rs_HTTPRequest := m\<rparr>"

definition SetHTTPResponse :: "('r, 'p) stream_message option \<Rightarrow> ('r, 'p) response \<Rightarrow> ('r, 'p) response" where
  "SetHTTPResponse m r = r\<lparr>rs_HTTPResponse := m\<rparr>"

definition MarkCloseAfterWrite :: "('r, 'p) response \<Rightarrow> ('r, 'p) response" where
  "MarkCloseAfterWrite r = r\<lparr>rs_closeAfterWrite := True\<rparr>"

definition CloseAfterWrite :: "('r, 'p) response option \<Rightarrow> bool" where
  "CloseAfterWrite r = (case r of None \<Rightarrow> False | Some r \<Rightarrow> rs_closeAfterWrite r)"

definition IsError :: "('r, 'p) response \<Rightarrow> bool" where
  "IsError r \<longleftrightarrow> rs_StatusCode r \<ge> 400"

definition NewOptionsResponse :: "string \<Rightarrow> string list \<Rightarrow> int \<Rightarrow> int \<Rightarrow> ('r, 'p) response" where
  "NewOptionsResponse istag methods maxConnections optionsTTL =
     Response_SetHeader ''Allow'' ''204''
       (Response_SetHeader ''Options-TTL'' (go_Itoa optionsTTL)
         (Response_SetHeader ''Max-Connections'' (go_Itoa maxConnections)
           (Response_SetHeader ''ISTag'' istag
             (Response_SetHeader ''Service'' ''ICAP-Mock-Server/1.0''
               (Response_SetHeader ''Methods'' (go_Join methods '', '') (NewResponse 200))))))"

text \<open>The status text of \<open>net/http\<close> is the argument \<open>httpStatusText\<close>, empty for an unknown code.\<close>

definition NewResponseError :: "(int \<Rightarrow> string) \<Rightarrow> int \<Rightarrow> string \<Rightarrow> ('r, 'p) response" where
  "NewResponseError httpStatusText statusCode message =
     (let body = message;
          statusText = (if httpStatusText statusCode = [] then StatusText statusCode else httpStatusText statusCode);
          h = Header_Set (Header_Set NewHeader ''Content-Type'' ''text/plain; charset=utf-8'')
                ''Content-Length'' (go_Itoa (int (length body)))
      in SetHTTPResponse
           (Some \<lparr>BodyReader = None, Body = Some body, bodyLoaded = False, bodyErr = None, bodyOnce = False,
              BodyStream = None, m_Header = Some h, m_Method = [], m_URI = [], m_Status = go_Itoa statusCode,
              m_StatusText = statusText, m_Proto = ''HTTP/1.1''\<rparr>)
           (NewResponse statusCode))"

definition cloneHTTPMessage :: "'p \<Rightarrow> ('r, 'p) stream_message \<Rightarrow> ('r, 'p) stream_message" where
  "cloneHTTPMessage unavailable m =
     \<lparr>BodyReader = None, Body = (if length (body_bytes m) > 0 then Some (body_bytes m) else None), bodyLoaded = False,
      bodyErr = None, bodyOnce = False, BodyStream = BodyStream_Clone unavailable (BodyStream m),
      m_Header = (case m_Header m of None \<Rightarrow> None | Some h \<Rightarrow> Header_Clone (Some h)),
      m_Method = m_Method m, m_URI = m_URI m, m_Status = m_Status m, m_StatusText = m_StatusText m, m_Proto = m_Proto m\<rparr>"

definition Response_Clone :: "'p \<Rightarrow> ('r, 'p) response \<Rightarrow> ('r, 'p) response" where
  "Response_Clone unavailable r =
     (NewResponse (rs_StatusCode r))
       \<lparr>rs_Proto := rs_Proto r, rs_closeAfterWrite := rs_closeAfterWrite r,
        rs_Header := (case rs_Header r of None \<Rightarrow> Some NewHeader | Some h \<Rightarrow> Header_Clone (Some h)),
        rs_Body := (if length (rs_bytes r) > 0 then Some (rs_bytes r) else None),
        rs_HTTPRequest := map_option (cloneHTTPMessage unavailable) (rs_HTTPRequest r),
        rs_HTTPResponse := map_option (cloneHTTPMessage unavailable) (rs_HTTPResponse r)\<rparr>"

definition Response_ReleaseBodies ::
  "('r, 'p) response option \<Rightarrow> ('r, 'p) response option \<times> 'p body_stream list" where
  "Response_ReleaseBodies r =
     (case r of
        None \<Rightarrow> (None, [])
      | Some r \<Rightarrow>
          (case (HTTPMessage_ReleaseBodies (rs_HTTPRequest r), HTTPMessage_ReleaseBodies (rs_HTTPResponse r)) of
             ((q, sq), (p, sp)) \<Rightarrow>
               (Some (r\<lparr>rs_Body := None, rs_BodyReader := None, rs_HTTPRequest := q, rs_HTTPResponse := p\<rparr>),
                (case sq of None \<Rightarrow> [] | Some b \<Rightarrow> [b]) @ (case sp of None \<Rightarrow> [] | Some b \<Rightarrow> [b]))))"

section \<open>The Encapsulated header and the wire form\<close>

definition writeHTTPMessageHead :: "string \<Rightarrow> ('r, 'b) http_message \<Rightarrow> bool \<Rightarrow> string" where
  "writeHTTPMessageHead buf m isRequest =
     (let line = (if isRequest then m_Method m @ '' '' @ m_URI m @ '' '' @ m_Proto m @ crlf
                  else m_Proto m @ '' '' @ m_Status m @ '' '' @ m_StatusText m @ crlf);
          buf = buf @ line;
          buf = (case m_Header m of None \<Rightarrow> buf | Some h \<Rightarrow> Header_WriteToBuffer h buf)
      in buf @ crlf)"

definition writeHTTPMessage :: "string \<Rightarrow> ('r, 'b) http_message \<Rightarrow> bool \<Rightarrow> string" where
  "writeHTTPMessage buf m isRequest =
     (let buf = writeHTTPMessageHead buf m isRequest in
      if length (body_bytes m) > 0 then snd (WriteChunkedBody buffer_write buf (body_bytes m)) else buf)"

definition calculateHTTPMessageSize :: "('r, 'b) http_message \<Rightarrow> bool \<Rightarrow> nat" where
  "calculateHTTPMessageSize m isRequest =
     (let line = (if isRequest then length (m_Method m) + 1 + length (m_URI m) + 1 + length (m_Proto m) + 2
                  else length (m_Proto m) + 1 + length (m_Status m) + 1 + length (m_StatusText m) + 2);
          hdrs = (case m_Header m of
                    None \<Rightarrow> line
                  | Some h \<Rightarrow> Header_Walk (\<lambda>k v n. (True, n + (length k + 2 + length v + 2))) h line)
      in hdrs + 2)"

definition hasHTTPMessageBody :: "('r, 'b) http_message \<Rightarrow> bool" where
  "hasHTTPMessageBody m \<longleftrightarrow> length (body_bytes m) > 0 \<or> BodyStream m \<noteq> None"

definition chunkedEncodedSize :: "nat \<Rightarrow> nat" where
  "chunkedEncodedSize bodySize = length (go_FormatInt (int bodySize) 16) + bodySize + length (crlf @ crlf @ ''0'' @ crlf @ crlf)"

definition calculateHTTPMessageBodySize :: "('r, 'b) http_message \<Rightarrow> nat" where
  "calculateHTTPMessageBodySize m =
     (if length (body_bytes m) > 0 then chunkedEncodedSize (length (body_bytes m)) else 0)"

text \<open>The parts of the \<open>Encapsulated\<close> header with their offsets, in the order they are appended.\<close>

definition encap_offsets :: "('r, 'p) response \<Rightarrow> (string \<times> nat) list" where
  "encap_offsets r =
     (let (parts, offset, finalSectionHasBody) =
            (case rs_HTTPRequest r of
               None \<Rightarrow> ([], 0, False)
             | Some m \<Rightarrow>
                 (let offset = calculateHTTPMessageSize m True in
                  if hasHTTPMessageBody m
                  then ([(''req-hdr'', 0), (''req-body'', offset)], offset + calculateHTTPMessageBodySize m, True)
                  else ([(''req-hdr'', 0)], offset, False)));
          (parts, offset, finalSectionHasBody) =
            (case rs_HTTPResponse r of
               None \<Rightarrow> (parts, offset, finalSectionHasBody)
             | Some m \<Rightarrow>
                 (let offset' = offset + calculateHTTPMessageSize m False in
                  if hasHTTPMessageBody m
                  then (parts @ [(''res-hdr'', offset), (''res-body'', offset')], offset', True)
                  else (parts @ [(''res-hdr'', offset)], offset', False)))
      in if \<not> finalSectionHasBody \<and> length (rs_bytes r) = 0
         then (if parts = [] then [(''null-body'', 0)] else parts @ [(''null-body'', offset)])
         else parts)"

definition BuildEncapsulatedHeader :: "('r, 'p) response \<Rightarrow> string" where
  "BuildEncapsulatedHeader r = go_Join (map (\<lambda>(k, n). k @ ''='' @ go_Itoa (int n)) (encap_offsets r)) '', ''"

definition writeEnvelopeToBuffer :: "('r, 'p) response \<Rightarrow> string \<Rightarrow> string" where
  "writeEnvelopeToBuffer r buf =
     (let proto = (if rs_Proto r = [] then Version else rs_Proto r);
          buf = buf @ proto @ '' '' @ go_Itoa (rs_StatusCode r) @ '' '' @ StatusText (rs_StatusCode r) @ crlf;
          buf = (case rs_Header r of None \<Rightarrow> buf | Some h \<Rightarrow> Header_WriteToBuffer h buf);
          encap = BuildEncapsulatedHeader r;
          buf = (if encap \<noteq> [] then buf @ ''Encapsulated: '' @ encap @ crlf else buf)
      in buf @ crlf)"

definition writeToBuffer :: "('r, 'p) response \<Rightarrow> string \<Rightarrow> string" where
  "writeToBuffer r buf =
     (let buf = writeEnvelopeToBuffer r buf;
          buf = (case rs_HTTPRequest r of None \<Rightarrow> buf | Some m \<Rightarrow> writeHTTPMessage buf m True);
          buf = (case rs_HTTPResponse r of None \<Rightarrow> buf | Some m \<Rightarrow> writeHTTPMessage buf m False)
      in if length (rs_bytes r) > 0 then buf @ rs_bytes r else buf)"

definition Response_String :: "('r, 'p) response \<Rightarrow> string" where
  "Response_String r = writeToBuffer r []"

definition Response_WriteChunkedBody :: "'w writer \<Rightarrow> ('r, 'p) response \<Rightarrow> 'w \<Rightarrow> (nat \<times> go_error option) \<times> 'w" where
  "Response_WriteChunkedBody wr r w =
     (if length (rs_bytes r) = 0 then wr w (''0'' @ crlf @ crlf)
      else (case Chunked_Write wr (NewChunkedWriter w) (rs_bytes r) of
              ((n, Some e), cw) \<Rightarrow> ((n, Some e), cw_w cw)
            | ((n, None), cw) \<Rightarrow> (case Chunked_Close wr cw of (e, cw') \<Rightarrow> ((n, e), cw_w cw'))))"

section \<open>The direct writer\<close>

definition context_ops :: "'w stream_ops \<Rightarrow> ('w \<times> bool) stream_ops" where
  \<comment> \<open>\<open>contextWriter\<close>; the flag is \<open>streamStartObserver.started\<close>\<close>
  "context_ops ops =
     \<lparr>op_write = (\<lambda>(w, b) p. case op_ctx_err ops w of
          Some e \<Rightarrow> ((0, Some e), (w, b))
        | None \<Rightarrow> (case op_write ops w p of (r, w') \<Rightarrow> (r, (w', b)))),
      op_ctx_err = (\<lambda>(w, b). op_ctx_err ops w),
      op_now = (\<lambda>(w, b). op_now ops w),
      op_sleep = (\<lambda>(w, b) d. case op_sleep ops w d of (e, w') \<Rightarrow> (e, (w', b))),
      op_flush = (\<lambda>(w, b). case op_ctx_err ops w of
          Some e \<Rightarrow> (Some e, (w, b))
        | None \<Rightarrow> (case op_flush ops w of (e, w') \<Rightarrow> (e, (w', b)))),
      op_close = (\<lambda>(w, b). case op_close ops w of (e, w') \<Rightarrow> (e, (w', b))),
      op_start = (\<lambda>(w, b). if b then (w, b) else (op_start ops w, True))\<rparr>"

definition counting_ops :: "'w stream_ops \<Rightarrow> ('w \<times> int) stream_ops" where
  \<comment> \<open>\<open>countingWriter\<close>, whose \<open>Flush\<close> is passed on\<close>
  "counting_ops ops =
     \<lparr>op_write = countingWrite (op_write ops),
      op_ctx_err = (\<lambda>(w, c). op_ctx_err ops w),
      op_now = (\<lambda>(w, c). op_now ops w),
      op_sleep = (\<lambda>(w, c) d. case op_sleep ops w d of (e, w') \<Rightarrow> (e, (w', c))),
      op_flush = (\<lambda>(w, c). case op_flush ops w of (e, w') \<Rightarrow> (e, (w', c))),
      op_close = (\<lambda>(w, c). case op_close ops w of (e, w') \<Rightarrow> (e, (w', c))),
      op_start = (\<lambda>(w, c). (op_start ops w, c))\<rparr>"

definition lift_payload :: "('p, 'w) payload_ops \<Rightarrow> ('p, ('w \<times> bool) \<times> int) payload_ops" where
  "lift_payload pops =
     \<lparr>op_open = (\<lambda>p ((w, b), c). case op_open pops p w of (r, w') \<Rightarrow> (r, ((w', b), c))),
      op_size_hint = op_size_hint pops,
      op_release = (\<lambda>p. map_option (\<lambda>f ((w, b), c). case f w of (e, w') \<Rightarrow> (e, ((w', b), c))) (op_release pops p))\<rparr>"

type_synonym 'w rstate = "('w \<times> bool) \<times> int"

abbreviation response_ops :: "'w stream_ops \<Rightarrow> 'w rstate stream_ops" where
  "response_ops ops \<equiv> counting_ops (context_ops ops)"

abbreviation rwriteAll :: "'w stream_ops \<Rightarrow> 'w rstate \<Rightarrow> string \<Rightarrow> go_error option \<times> 'w rstate" where
  "rwriteAll ops \<equiv> writeAll (op_write (response_ops ops)) (op_ctx_err (response_ops ops))"

definition flushResponseBuffer :: "'w stream_ops \<Rightarrow> 'w rstate \<Rightarrow> string \<Rightarrow> go_error option \<times> 'w rstate" where
  "flushResponseBuffer ops cw buf = (if length buf = 0 then (None, cw) else rwriteAll ops cw buf)"

definition writeHTTPBodyDirect ::
  "'w stream_ops \<Rightarrow> ('p, 'w) payload_ops \<Rightarrow> 'w rstate \<Rightarrow> ('r, 'p) stream_message \<Rightarrow> go_error option \<times> 'w rstate" where
  "writeHTTPBodyDirect ops pops cw m =
     (case BodyStream m of
        Some s \<Rightarrow> (case writeToContext (response_ops ops) (lift_payload pops) (Some s) cw of ((n, e), cw') \<Rightarrow> (e, cw'))
      | None \<Rightarrow>
          if length (body_bytes m) > 0 then WriteChunkedBody (op_write (response_ops ops)) cw (body_bytes m)
          else (None, cw))"

definition writeHTTPMessageDirect ::
  "'w stream_ops \<Rightarrow> ('p, 'w) payload_ops \<Rightarrow> 'w rstate \<Rightarrow> ('r, 'p) stream_message option \<Rightarrow> bool \<Rightarrow> go_error option \<times> 'w rstate" where
  "writeHTTPMessageDirect ops pops cw message isRequest =
     (case message of
        None \<Rightarrow> (None, cw)
      | Some m \<Rightarrow>
          (case flushResponseBuffer ops cw (writeHTTPMessageHead [] m isRequest) of
             (Some e, cw') \<Rightarrow> (Some e, cw')
           | (None, cw') \<Rightarrow> writeHTTPBodyDirect ops pops cw' m))"

definition writeICAPBodyDirect :: "'w stream_ops \<Rightarrow> 'w rstate \<Rightarrow> ('r, 'p) response \<Rightarrow> go_error option \<times> 'w rstate" where
  "writeICAPBodyDirect ops cw r = (if length (rs_bytes r) = 0 then (None, cw) else rwriteAll ops cw (rs_bytes r))"

definition writeResponseParts ::
  "'w stream_ops \<Rightarrow> ('p, 'w) payload_ops \<Rightarrow> ('r, 'p) response \<Rightarrow> 'w rstate \<Rightarrow> go_error option \<times> 'w rstate" where
  "writeResponseParts ops pops r cw =
     (case flushResponseBuffer ops cw (writeEnvelopeToBuffer r []) of
        (Some e, cw1) \<Rightarrow> (Some e, cw1)
      | (None, cw1) \<Rightarrow>
          (case writeHTTPMessageDirect ops pops cw1 (rs_HTTPRequest r) True of
             (Some e, cw2) \<Rightarrow> (Some e, cw2)
           | (None, cw2) \<Rightarrow>
               (case writeHTTPMessageDirect ops pops cw2 (rs_HTTPResponse r) False of
                  (Some e, cw3) \<Rightarrow> (Some e, cw3)
                | (None, cw3) \<Rightarrow> writeICAPBodyDirect ops cw3 r)))"

text \<open>A \<open>nil\<close> writer is \<open>is_nil\<close>.\<close>

definition validateResponseWriter :: "'w stream_ops \<Rightarrow> bool \<Rightarrow> 'w \<Rightarrow> go_error option" where
  "validateResponseWriter ops is_nil w = (if is_nil then Some ErrClosedPipe else op_ctx_err ops w)"

definition writeDirectToContext ::
  "'w stream_ops \<Rightarrow> ('p, 'w) payload_ops \<Rightarrow> bool \<Rightarrow> ('r, 'p) response \<Rightarrow> 'w \<Rightarrow> (int \<times> go_error option) \<times> 'w" where
  "writeDirectToContext ops pops is_nil r w =
     (case validateResponseWriter ops is_nil w of
        Some e \<Rightarrow> ((0, Some e), w)
      | None \<Rightarrow>
          (case writeResponseParts ops pops r ((w, False), 0) of
             (Some e, ((w', b), c)) \<Rightarrow> ((c, Some e), w')
           | (None, ((w', b), c)) \<Rightarrow>
               (case op_ctx_err (context_ops ops) (w', b) of
                  Some e \<Rightarrow> ((c, Some e), w')
                | None \<Rightarrow> (case op_flush (context_ops ops) (w', b) of (e, (w'', _)) \<Rightarrow> ((c, e), w'')))))"

section \<open>Sizes and sections\<close>

lemma length_head: "length (writeHTTPMessageHead [] m b) = calculateHTTPMessageSize m b"
proof -
  have "calculateHTTPMessageSize m b =
      (if b then length (m_Method m) + 1 + length (m_URI m) + 1 + length (m_Proto m) + 2
       else length (m_Proto m) + 1 + length (m_Status m) + 1 + length (m_StatusText m) + 2) +
      (case m_Header m of None \<Rightarrow> 0 | Some h \<Rightarrow> length (Header_String h)) + 2"
    unfolding calculateHTTPMessageSize_def Header_Walk_size Let_def by (simp split: option.split)
  then show ?thesis
    by (cases "m_Header m") (auto simp: writeHTTPMessageHead_def Header_WriteToBuffer_String Let_def crlf_def)
qed

definition body_section :: "('r, 'b) http_message \<Rightarrow> string" where
  "body_section m = (if length (body_bytes m) > 0 then chunk (body_bytes m) @ zero_chunk [] else [])"

lemma length_body_section: "length (body_section m) = calculateHTTPMessageBodySize m"
  by (simp add: body_section_def calculateHTTPMessageBodySize_def chunkedEncodedSize_def chunk_def zero_chunk_def crlf_def)

lemma zero_chunk_not_Nil [simp]: "zero_chunk es \<noteq> []"
  by (simp add: zero_chunk_def)

lemma chunkedEncodedSize_chunk: "chunkedEncodedSize (length d) = length (chunk d) + length (zero_chunk [])"
  by (simp add: chunkedEncodedSize_def chunk_def zero_chunk_def crlf_def)

lemma writeHTTPMessageHead_append: "writeHTTPMessageHead buf m b = buf @ writeHTTPMessageHead [] m b"
  by (auto simp: writeHTTPMessageHead_def Let_def Header_WriteToBuffer_String split: option.split)

lemma writeHTTPMessage_sections: "writeHTTPMessage buf m b = buf @ writeHTTPMessageHead [] m b @ body_section m"
  using writeHTTPMessageHead_append [of buf m b]
  by (simp add: writeHTTPMessage_def body_section_def WriteChunkedBody_buffer)

definition head_section :: "('r, 'b) http_message option \<Rightarrow> bool \<Rightarrow> string" where
  "head_section m b = (case m of None \<Rightarrow> [] | Some m \<Rightarrow> writeHTTPMessageHead [] m b)"

definition opt_body_section :: "('r, 'b) http_message option \<Rightarrow> string" where
  "opt_body_section m = (case m of None \<Rightarrow> [] | Some m \<Rightarrow> body_section m)"

lemma Response_String_sections:
  "Response_String r = writeEnvelopeToBuffer r [] @
     head_section (rs_HTTPRequest r) True @ opt_body_section (rs_HTTPRequest r) @
     head_section (rs_HTTPResponse r) False @ opt_body_section (rs_HTTPResponse r) @ rs_bytes r"
  by (auto simp: Response_String_def writeToBuffer_def Let_def head_section_def opt_body_section_def
      writeHTTPMessage_sections split: option.split)

section \<open>Parsing back the Encapsulated header\<close>

definition offset_name :: "string \<Rightarrow> bool" where
  "offset_name k \<longleftrightarrow> k \<in> {''req-hdr'', ''req-body'', ''res-hdr'', ''res-body'', ''null-body''}"

definition offset_text :: "string \<times> nat \<Rightarrow> string" where
  "offset_text = (\<lambda>(k, n). k @ ''='' @ go_Itoa (int n))"

lemma Itoa_nat: "go_Itoa (int n) = format_nat 10 n"
  by (simp add: go_FormatInt_def)

lemma offset_name_chars:
  assumes "offset_name k"
  shows "CHR ''='' \<notin> set k" "CHR '','' \<notin> set k" "\<forall>c \<in> set k. \<not> is_space c" "go_ToLower k = k"
  using assms by (auto simp: offset_name_def is_space_def go_ToLower_def lower_char_def)

lemma Itoa_chars: "\<forall>c \<in> set (go_Itoa (int n)). \<not> is_space c" "CHR '','' \<notin> set (go_Itoa (int n))"
  using format_nat_no_space [of 10 n] format_nat_no_char [of 10 "CHR '',''" n] by (auto simp: Itoa_nat)

lemma encap_parts_step:
  assumes "offset_name k" "int n \<le> MaxInt64" "p = offset_text (k, n) \<or> p = CHR '' '' # offset_text (k, n)"
  shows "encap_parts e (p # ps) = encap_parts (set_offset k (int n) e) ps"
proof -
  let ?d = "go_Itoa (int n)"
  note k = offset_name_chars [OF assms(1)]
  have nospace: "\<forall>c \<in> set (offset_text (k, n)). \<not> is_space c"
    using k(3) Itoa_chars(1) [of n] by (auto simp: offset_text_def is_space_def)
  then have "go_TrimSpace p = offset_text (k, n)"
    using assms(3) by auto
  moreover have "go_SplitN (offset_text (k, n)) (CHR ''='') 2 = [k, ?d]"
    using k(1) by (simp add: offset_text_def numeral_2_eq_2)
  moreover have "go_TrimSpace ?d = ?d" "go_TrimSpace k = k" using Itoa_chars(1) k(3) by simp_all
  moreover have "go_Atoi ?d = Some (int n)" using assms(2) by (simp add: in_int64_nonneg)
  ultimately show ?thesis using k(4) by (simp add: Let_def)
qed

lemma go_Split_Join:
  assumes "ps \<noteq> []" "\<forall>p \<in> set ps. CHR '','' \<notin> set p"
  shows "go_Split (go_Join ps '', '') (CHR '','') = hd ps # map (Cons (CHR '' '')) (tl ps)"
proof -
  show ?thesis using assms
  proof (induction ps)
    case (Cons p ps)
    show ?case
    proof (cases ps)
      case Nil
      with Cons.prems show ?thesis by simp
    next
      case (Cons q qs)
      have "go_Split (go_Join (p # ps) '', '') (CHR '','') = p # go_Split (CHR '' '' # go_Join ps '', '') (CHR '','')"
        using Cons Cons.prems go_Split_append [of "CHR '',''" p "CHR '' '' # go_Join ps '', ''"] by simp
      also have "go_Split (CHR '' '' # go_Join ps '', '') (CHR '','') =
          (CHR '' '' # hd (go_Split (go_Join ps '', '') (CHR '',''))) # tl (go_Split (go_Join ps '', '') (CHR '',''))"
        by (simp split: list.split)
      finally show ?thesis using Cons.IH Cons.prems Cons by simp
    qed
  qed simp
qed

lemma encap_parts_spaced:
  assumes "\<forall>(k, n) \<in> set kvs. offset_name k \<and> int n \<le> MaxInt64"
  shows "encap_parts e (map (\<lambda>kn. CHR '' '' # offset_text kn) kvs) = Inr (fold (\<lambda>(k, n). set_offset k (int n)) kvs e)"
  using assms
proof (induction kvs arbitrary: e)
  case (Cons kn kvs)
  obtain k n where kn: "kn = (k, n)" by force
  have "encap_parts e (map (\<lambda>kn. CHR '' '' # offset_text kn) (kn # kvs)) =
      encap_parts (set_offset k (int n) e) (map (\<lambda>kn. CHR '' '' # offset_text kn) kvs)"
    using encap_parts_step [of k n "CHR '' '' # offset_text kn"] Cons.prems kn by simp
  with Cons kn show ?case by simp
qed simp

lemma ParseEncapsulatedHeader_Build:
  assumes "encap_offsets r \<noteq> []" "\<forall>(k, n) \<in> set (encap_offsets r). offset_name k \<and> int n \<le> MaxInt64"
  shows "ParseEncapsulatedHeader (BuildEncapsulatedHeader r) =
     Inr (fold (\<lambda>(k, n). set_offset k (int n)) (encap_offsets r) NewEncapsulated)"
proof -
  obtain kn kvs where o: "encap_offsets r = kn # kvs" using assms(1) by (cases "encap_offsets r") auto
  obtain k n where kn: "kn = (k, n)" by force
  have comma: "CHR '','' \<notin> set (offset_text x)" if "x \<in> set (encap_offsets r)" for x
    using that assms(2) offset_name_chars(2) Itoa_chars(2) by (force simp: offset_text_def)
  have "BuildEncapsulatedHeader r = go_Join (map offset_text (encap_offsets r)) '', ''"
    by (simp add: BuildEncapsulatedHeader_def offset_text_def)
  then have "go_Split (BuildEncapsulatedHeader r) (CHR '','') =
      offset_text kn # map (\<lambda>kn. CHR '' '' # offset_text kn) kvs"
    using go_Split_Join [of "map offset_text (encap_offsets r)"] comma by (simp add: o comp_def)
  then show ?thesis
    using encap_parts_step [of k n "offset_text kn" NewEncapsulated] encap_parts_spaced [of kvs] assms(2)
    by (simp add: ParseEncapsulatedHeader_def o kn)
qed

section \<open>The layers of the direct writer\<close>

lemma context_world:
  assumes "stream_world ops contents"
  shows "stream_world (context_ops ops) (\<lambda>(w, b). contents w)"
proof -
  have w: "io_writer (op_write ops) contents" using assms by (simp add: stream_world_def)
  note wc = io_writer.write_contents [OF w] and wo = io_writer.write_ok [OF w]
  note ax = assms [unfolded stream_world_def stream_world_axioms_def, THEN conjunct2]
  show ?thesis
  proof (unfold_locales, goal_cases)
    case (1 w p n e w')
    then show ?case using wc by (auto simp: context_ops_def split: option.splits prod.splits)
  next
    case (2 w p n w')
    then show ?case using wo by (auto simp: context_ops_def split: option.splits prod.splits)
  next
    case (3 w d e w')
    then show ?case using ax by (auto simp: context_ops_def split: prod.splits)
  next
    case (4 w e w')
    then show ?case using ax by (auto simp: context_ops_def split: option.splits prod.splits)
  next
    case (5 w e w')
    then show ?case using ax by (auto simp: context_ops_def split: prod.splits)
  next
    case (6 w)
    then show ?case using ax by (auto simp: context_ops_def split: prod.splits)
  qed
qed

context stream_world
begin

text \<open>\<open>S\<close> was written in full, or a part of it and then an error.\<close>

definition sends :: "'w \<times> int \<Rightarrow> 'w \<times> int \<Rightarrow> go_error option \<Rightarrow> string \<Rightarrow> bool" where
  "sends w w' e S \<longleftrightarrow> (\<exists>k. sent w w' (take k S)) \<and> (e = None \<longrightarrow> sent w w' S)"

lemma sends_ok:
  assumes "sends w w1 None S" "sends w1 w2 e T"
  shows "sends w w2 e (S @ T)"
proof -
  obtain k where k: "sent w w1 S" "sent w1 w2 (take k T)" using assms by (auto simp: sends_def)
  have "sent w w2 (S @ take k T)" using sent_trans [OF k] .
  then have "sent w w2 (take (length S + k) (S @ T))" by simp
  moreover have "e = None \<longrightarrow> sent w w2 (S @ T)" using sent_trans [OF k(1)] assms(2) unfolding sends_def by blast
  ultimately show ?thesis unfolding sends_def by blast
qed

lemma sends_fail:
  assumes "sends w w1 (Some e) S"
  shows "sends w w1 (Some e) (S @ T)"
proof -
  obtain k where "sent w w1 (take k S)" using assms by (auto simp: sends_def)
  then have "sent w w1 (take (min k (length S)) (S @ T))" by (cases "k \<le> length S") (simp_all add: min_def)
  then show ?thesis unfolding sends_def by blast
qed

text \<open>One write after the other, the second only if the first reported no error.\<close>

lemma sends_seq:
  assumes "sends w w1 e1 S" "e1 = None \<Longrightarrow> sends w1 w2 e2 T"
  shows "sends w (if e1 = None then w2 else w1) (if e1 = None then e2 else e1) (S @ T)"
  using assms sends_ok [of w w1 S w2 e2 T] sends_fail [of w w1 _ S T] by (cases e1) simp_all

lemma sends_refl [simp]: "sends w w None []"
  by (simp add: sends_def)

lemma sends_writeAll: "ops_writeAll ops w data = (e, w') \<Longrightarrow> sends w w' e data"
  using ops_writeAll_sent [of w data e w'] by (auto simp: sends_def)

lemma sends_write: "countingWrite (op_write ops) w data = ((n, e), w') \<Longrightarrow> sends w w' e data"
  using countingWrite_sent [of w data n e w'] by (auto simp: sends_def)

lemma sends_WriteChunkedBody:
  assumes "WriteChunkedBody (countingWrite (op_write ops)) w data = (e, w')" "data \<noteq> []"
  shows "sends w w' e (chunk data @ zero_chunk [])"
proof -
  let ?wr = "countingWrite (op_write ops)" and ?h = "go_FormatInt (int (length data)) 16 @ crlf"
  obtain n1 e1 w1 where w1: "?wr w ?h = ((n1, e1), w1)" by (metis prod.exhaust)
  obtain n2 e2 w2 where w2: "?wr w1 data = ((n2, e2), w2)" by (metis prod.exhaust)
  obtain n3 e3 w3 where w3: "?wr w2 crlf = ((n3, e3), w3)" by (metis prod.exhaust)
  obtain n4 e4 w4 where w4: "?wr w3 (''0'' @ crlf @ crlf) = ((n4, e4), w4)" by (metis prod.exhaust)
  note s = sends_write [OF w1] sends_write [OF w2] sends_write [OF w3] sends_write [OF w4]
  define e12 w12 where d12: "e12 = (if e1 = None then e2 else e1)" "w12 = (if e1 = None then w2 else w1)"
  define e123 w123 where d123: "e123 = (if e12 = None then e3 else e12)" "w123 = (if e12 = None then w3 else w12)"
  have s12: "sends w w12 e12 (?h @ data)" unfolding d12 by (rule sends_seq [OF s(1) s(2)])
  have s123: "sends w w123 e123 ((?h @ data) @ crlf)"
    unfolding d123 by (rule sends_seq [OF s12]) (use s(3) d12 in \<open>auto split: if_splits\<close>)
  have "sends w (if e123 = None then w4 else w123) (if e123 = None then e4 else e123) (((?h @ data) @ crlf) @ ''0'' @ crlf @ crlf)"
    by (rule sends_seq [OF s123]) (use s(4) d12 d123 in \<open>auto split: if_splits\<close>)
  moreover have "w' = (if e123 = None then w4 else w123) \<and> e = (if e123 = None then e4 else e123)"
    using assms w1 w2 w3 w4 unfolding d123 d12
    by (cases e1; cases e2; cases e3)
       (auto simp: WriteChunkedBody_def Chunked_Write_def Chunked_Close_def NewChunkedWriter_def)
  ultimately show ?thesis by (simp add: chunk_def zero_chunk_def)
qed

end

definition no_streams :: "('r, 'p) response \<Rightarrow> bool" where
  "no_streams r \<longleftrightarrow> (\<forall>m. rs_HTTPRequest r = Some m \<or> rs_HTTPResponse r = Some m \<longrightarrow> BodyStream m = None)"

lemma response_writer_simps [simp]:
  "op_write (counting_ops ops) = countingWrite (op_write ops)"
  "op_ctx_err (counting_ops ops) = (\<lambda>(w, c). op_ctx_err ops w)"
  by (simp_all add: counting_ops_def)

lemma head_not_empty [simp]: "writeHTTPMessageHead [] m b \<noteq> []"
  using length_head [of m b] by (auto simp: calculateHTTPMessageSize_def Let_def simp del: length_0_conv)

lemma envelope_not_empty [simp]: "writeEnvelopeToBuffer r [] \<noteq> []"
  by (simp add: writeEnvelopeToBuffer_def Let_def crlf_def)

lemma sends_message:
  assumes "stream_world ops contents" "m = None \<or> BodyStream (the m) = None"
    "writeHTTPMessageDirect ops pops cw m b = (e, cw')"
  shows "stream_world.sends (\<lambda>(w, b). contents w) cw cw' e (head_section m b @ opt_body_section m)"
proof (cases m)
  case None
  with assms(3) show ?thesis
    using stream_world.sends_refl [OF context_world [OF assms(1)], of cw]
    by (simp add: writeHTTPMessageDirect_def head_section_def opt_body_section_def)
next
  case (Some x)
  note w = context_world [OF assms(1)]
  obtain e1 cw1 where f: "rwriteAll ops cw (writeHTTPMessageHead [] x b) = (e1, cw1)" by (metis prod.exhaust)
  obtain e2 cw2 where g: "(if length (body_bytes x) > 0
      then WriteChunkedBody (countingWrite (op_write (context_ops ops))) cw1 (body_bytes x) else (None, cw1)) = (e2, cw2)"
    by (metis prod.exhaust)
  have s1: "stream_world.sends (\<lambda>(w, b). contents w) cw cw1 e1 (writeHTTPMessageHead [] x b)"
    by (rule stream_world.sends_writeAll [OF w]) (use f in simp)
  have s2: "stream_world.sends (\<lambda>(w, b). contents w) cw1 cw2 e2 (body_section x)"
  proof (cases "body_bytes x = []")
    case True
    with g show ?thesis using stream_world.sends_refl [OF w] by (simp add: body_section_def)
  next
    case False
    with g show ?thesis using stream_world.sends_WriteChunkedBody [OF w] by (simp add: body_section_def)
  qed
  have "cw' = (if e1 = None then cw2 else cw1) \<and> e = (if e1 = None then e2 else e1)"
    using assms(2,3) f g Some
    by (cases e1) (auto simp: writeHTTPMessageDirect_def flushResponseBuffer_def writeHTTPBodyDirect_def split: if_splits)
  then show ?thesis
    using stream_world.sends_seq [OF w s1 s2] by (simp add: Some head_section_def opt_body_section_def)
qed

lemma sends_parts:
  assumes "stream_world ops contents" "no_streams r" "writeResponseParts ops pops r cw = (e, cw')"
  shows "stream_world.sends (\<lambda>(w, b). contents w) cw cw' e (Response_String r)"
proof -
  let ?S = "stream_world.sends (\<lambda>(w, b). contents w)"
  let ?A = "writeEnvelopeToBuffer r []"
  let ?Q = "head_section (rs_HTTPRequest r) True @ opt_body_section (rs_HTTPRequest r)"
  let ?P = "head_section (rs_HTTPResponse r) False @ opt_body_section (rs_HTTPResponse r)"
  note w = context_world [OF assms(1)]
  obtain e1 cw1 where f: "rwriteAll ops cw (writeEnvelopeToBuffer r []) = (e1, cw1)" by (metis prod.exhaust)
  obtain e2 cw2 where q: "writeHTTPMessageDirect ops pops cw1 (rs_HTTPRequest r) True = (e2, cw2)" by (metis prod.exhaust)
  obtain e3 cw3 where p: "writeHTTPMessageDirect ops pops cw2 (rs_HTTPResponse r) False = (e3, cw3)" by (metis prod.exhaust)
  obtain e4 cw4 where b: "rwriteAll ops cw3 (rs_bytes r) = (e4, cw4)" by (metis prod.exhaust)
  have s1: "?S cw cw1 e1 ?A" by (rule stream_world.sends_writeAll [OF w]) (use f in simp)
  have s2: "?S cw1 cw2 e2 (head_section (rs_HTTPRequest r) True @ opt_body_section (rs_HTTPRequest r))"
    using assms(2) by (intro sends_message [OF assms(1) _ q]) (cases "rs_HTTPRequest r", auto simp: no_streams_def)
  have s3: "?S cw2 cw3 e3 (head_section (rs_HTTPResponse r) False @ opt_body_section (rs_HTTPResponse r))"
    using assms(2) by (intro sends_message [OF assms(1) _ p]) (cases "rs_HTTPResponse r", auto simp: no_streams_def)
  have s4: "?S cw3 cw4 e4 (rs_bytes r)" by (rule stream_world.sends_writeAll [OF w]) (use b in simp)
  have bb: "writeICAPBodyDirect ops cw3 r = (e4, cw4)"
    using b by (cases "rs_bytes r = []") (auto simp: writeICAPBodyDirect_def)
  define e12 w12 where d12: "e12 = (if e1 = None then e2 else e1)" "w12 = (if e1 = None then cw2 else cw1)"
  define e123 w123 where d123: "e123 = (if e12 = None then e3 else e12)" "w123 = (if e12 = None then cw3 else w12)"
  note seq = stream_world.sends_seq [OF w]
  have s12: "?S cw w12 e12 (?A @ ?Q)" unfolding d12 by (rule seq [OF s1 s2])
  have s123: "?S cw w123 e123 ((?A @ ?Q) @ ?P)"
    unfolding d123 by (rule seq [OF s12]) (use s3 d12 in \<open>auto split: if_splits\<close>)
  have "?S cw (if e123 = None then cw4 else w123) (if e123 = None then e4 else e123) (((?A @ ?Q) @ ?P) @ rs_bytes r)"
    by (rule seq [OF s123]) (use s4 d12 d123 in \<open>auto split: if_splits\<close>)
  moreover have "cw' = (if e123 = None then cw4 else w123) \<and> e = (if e123 = None then e4 else e123)"
    using assms(3) f q p bb unfolding d123 d12
    by (cases e1; cases e2; cases e3) (auto simp: writeResponseParts_def flushResponseBuffer_def)
  ultimately show ?thesis by (simp add: Response_String_sections)
qed

section \<open>Properties\<close>

text \<open>
  C16: the \<open>Encapsulated\<close> header that \<open>BuildEncapsulatedHeader\<close> announces, read back with
  \<open>ParseEncapsulatedHeader\<close>, names exactly the byte positions of the sections that follow the ICAP
  headers on the wire: the embedded request head and its chunked body, the response head and its chunked body; sections that
  are not there have no offset, and \<open>null-body\<close> marks the end of the last head when no body follows.
\<close>

theorem encapsulated_offsets_exact:
  assumes "no_streams r" and "int (length (Response_String r)) \<le> MaxInt64"
    and "rs_HTTPRequest r \<noteq> None \<or> rs_HTTPResponse r \<noteq> None \<or> rs_bytes r = []"
  shows "\<exists>e qh qb ph pb. ParseEncapsulatedHeader (BuildEncapsulatedHeader r) = Inr e \<and>
     Response_String r = writeEnvelopeToBuffer r [] @ qh @ qb @ ph @ pb @ rs_bytes r \<and>
     (case rs_HTTPRequest r of
        None \<Rightarrow> qh = [] \<and> qb = [] \<and> ReqHdr e = -1 \<and> ReqBody e = -1
      | Some m \<Rightarrow> qh = writeHTTPMessageHead [] m True \<and> ReqHdr e = 0 \<and>
          (if body_bytes m = [] then qb = [] \<and> ReqBody e = -1
           else qb = chunk (body_bytes m) @ zero_chunk [] \<and> ReqBody e = int (length qh))) \<and>
     (case rs_HTTPResponse r of
        None \<Rightarrow> ph = [] \<and> pb = [] \<and> ResHdr e = -1 \<and> ResBody e = -1
      | Some m \<Rightarrow> ph = writeHTTPMessageHead [] m False \<and> ResHdr e = int (length (qh @ qb)) \<and>
          (if body_bytes m = [] then pb = [] \<and> ResBody e = -1
           else pb = chunk (body_bytes m) @ zero_chunk [] \<and> ResBody e = int (length (qh @ qb @ ph)))) \<and>
     NullBody e = (if pb = [] \<and> (ph \<noteq> [] \<or> qb = []) \<and> rs_bytes r = [] then int (length (qh @ qb @ ph)) else -1)"
proof -
  let ?qh = "head_section (rs_HTTPRequest r) True" and ?qb = "opt_body_section (rs_HTTPRequest r)"
  let ?ph = "head_section (rs_HTTPResponse r) False" and ?pb = "opt_body_section (rs_HTTPResponse r)"
  have len: "int (length ?qh + length ?qb + length ?ph) \<le> MaxInt64"
    using assms(2) by (simp add: Response_String_sections)
  have heads: "length (writeHTTPMessageHead [] m b) = calculateHTTPMessageSize m b" for m :: "('a, 'b) stream_message" and b
    by (rule length_head)
  have bodies: "length (body_section m) = calculateHTTPMessageBodySize m" for m :: "('a, 'b) stream_message"
    by (rule length_body_section)
  have ns: "BodyStream m = None" if "rs_HTTPRequest r = Some m \<or> rs_HTTPResponse r = Some m" for m
    using assms(1) that by (auto simp: no_streams_def)
  note sec = head_section_def opt_body_section_def heads bodies hasHTTPMessageBody_def
  have ok: "encap_offsets r \<noteq> []" "\<forall>(k, n) \<in> set (encap_offsets r). offset_name k \<and> int n \<le> MaxInt64"
    using assms(3) len ns
    by (cases "rs_HTTPRequest r"; cases "rs_HTTPResponse r"; auto simp: encap_offsets_def offset_name_def Let_def sec)+
  let ?e = "fold (\<lambda>(k, n). set_offset k (int n)) (encap_offsets r) NewEncapsulated"
  have e: "ParseEncapsulatedHeader (BuildEncapsulatedHeader r) = Inr ?e" by (rule ParseEncapsulatedHeader_Build [OF ok])
  have "(case rs_HTTPRequest r of
        None \<Rightarrow> ?qh = [] \<and> ?qb = [] \<and> ReqHdr ?e = -1 \<and> ReqBody ?e = -1
      | Some m \<Rightarrow> ?qh = writeHTTPMessageHead [] m True \<and> ReqHdr ?e = 0 \<and>
          (if body_bytes m = [] then ?qb = [] \<and> ReqBody ?e = -1
           else ?qb = chunk (body_bytes m) @ zero_chunk [] \<and> ReqBody ?e = int (length ?qh)))"
    using ns
    by (cases "rs_HTTPRequest r"; cases "rs_HTTPResponse r")
       (auto simp: encap_offsets_def Let_def sec set_offset_def NewEncapsulated_def encapNotSet_def body_section_def)
  moreover have "(case rs_HTTPResponse r of
        None \<Rightarrow> ?ph = [] \<and> ?pb = [] \<and> ResHdr ?e = -1 \<and> ResBody ?e = -1
      | Some m \<Rightarrow> ?ph = writeHTTPMessageHead [] m False \<and> ResHdr ?e = int (length (?qh @ ?qb)) \<and>
          (if body_bytes m = [] then ?pb = [] \<and> ResBody ?e = -1
           else ?pb = chunk (body_bytes m) @ zero_chunk [] \<and> ResBody ?e = int (length (?qh @ ?qb @ ?ph))))"
    using ns
    by (cases "rs_HTTPRequest r"; cases "rs_HTTPResponse r")
       (auto simp: encap_offsets_def Let_def sec set_offset_def NewEncapsulated_def encapNotSet_def body_section_def
         calculateHTTPMessageBodySize_def chunkedEncodedSize_chunk)
  moreover have "NullBody ?e =
      (if ?pb = [] \<and> (?ph \<noteq> [] \<or> ?qb = []) \<and> rs_bytes r = [] then int (length (?qh @ ?qb @ ?ph)) else -1)"
    using ns
    by (cases "rs_HTTPRequest r"; cases "rs_HTTPResponse r")
       (auto simp: encap_offsets_def Let_def sec set_offset_def NewEncapsulated_def encapNotSet_def body_section_def
         calculateHTTPMessageBodySize_def chunkedEncodedSize_chunk)
  ultimately show ?thesis
    using e Response_String_sections [of r]
    by (intro exI [of _ ?e] exI [of _ ?qh] exI [of _ ?qb] exI [of _ ?ph] exI [of _ ?pb]) blast
qed

text \<open>
  C34: writing a response without body streams straight to the connection produces the same
  bytes as \<open>String\<close>: all of them when no error is reported, and a prefix otherwise, whatever fails
  (a write, the context, the final flush); the reported count is the number of bytes that reached the connection.
\<close>

theorem response_write_exact:
  assumes "stream_world ops contents" and "no_streams r"
    and "writeDirectToContext ops pops is_nil r w = ((n, err), w')"
  shows "\<exists>k. contents w' = contents w @ take k (Response_String r) \<and>
     n = wrap64 (int (length (take k (Response_String r)))) \<and>
     (err = None \<longrightarrow> contents w' = contents w @ Response_String r \<and> n = wrap64 (int (length (Response_String r))))"
proof (cases "validateResponseWriter ops is_nil w")
  case (Some e)
  with assms(3) show ?thesis by (intro exI [of _ 0]) (auto simp: writeDirectToContext_def wrap64_def)
next
  case None
  obtain e1 w1 b1 c1 where parts: "writeResponseParts ops pops r ((w, False), 0) = (e1, ((w1, b1), c1))"
    by (metis prod.exhaust)
  have z: "in_int64 0" by (simp add: in_int64_def MinInt64_def MaxInt64_def)
  note world = context_world [OF assms(1)]
  let ?sent = "stream_world.sent (\<lambda>(w, b). contents w) ((w, False), 0) ((w1, b1), c1)"
  have sent: "contents w1 = contents w @ s \<and> c1 = wrap64 (int (length s))" if "?sent s" for s
    using that z by (simp add: stream_world.sent_def [OF world])
  obtain k where k: "?sent (take k (Response_String r))" "e1 = None \<longrightarrow> ?sent (Response_String r)"
    using sends_parts [OF assms(1,2) parts] unfolding stream_world.sends_def [OF world] by blast
  have "n = c1 \<and> contents w' = contents w1 \<and> (err = None \<longrightarrow> e1 = None)"
  proof (cases e1)
    case (Some x)
    with assms(3) None parts show ?thesis by (auto simp: writeDirectToContext_def)
  next
    case None
    obtain e2 w2 b2 where fl: "op_flush (context_ops ops) (w1, b1) = (e2, (w2, b2))" by (metis prod.exhaust)
    with stream_world.flush_contents [OF world fl] None assms(3) parts \<open>validateResponseWriter ops is_nil w = None\<close>
    show ?thesis by (auto simp: writeDirectToContext_def split: option.splits)
  qed
  then have n: "n = c1" "contents w' = contents w1" "err = None \<Longrightarrow> e1 = None" by simp_all
  have "err = None \<longrightarrow> contents w' = contents w @ Response_String r \<and> n = wrap64 (int (length (Response_String r)))"
    using n k(2) sent by metis
  moreover have "contents w' = contents w @ take k (Response_String r)" "n = wrap64 (int (length (take k (Response_String r))))"
    using sent [OF k(1)] n(1,2) by simp_all
  ultimately show ?thesis by blast
qed

text \<open>
  A clone of a response has the same wire text and the same \<open>Encapsulated\<close> header as the
  original, also when the original has nil headers or body streams.
\<close>

lemma clone_same_wire:
  fixes u :: 'p and r :: "('r, 'p) response"
  shows "Response_String (Response_Clone u r) = Response_String r \<and>
   BuildEncapsulatedHeader (Response_Clone u r) = BuildEncapsulatedHeader r"
proof -
  have bytes: "rs_bytes (Response_Clone u r) = rs_bytes r"
    by (auto simp: Response_Clone_def rs_bytes_def split: option.splits)
  have clone_h [simp]: "Header_Clone (Some h) = Some h" for h by (simp add: Header_Clone_def case_prod_beta)
  have b: "body_bytes (cloneHTTPMessage u m) = body_bytes m" for m :: "('r, 'p) stream_message"
    by (auto simp: cloneHTTPMessage_def body_bytes_def split: option.splits)
  have h: "m_Header (cloneHTTPMessage u m) = m_Header m" "m_Method (cloneHTTPMessage u m) = m_Method m"
    "m_URI (cloneHTTPMessage u m) = m_URI m" "m_Status (cloneHTTPMessage u m) = m_Status m"
    "m_StatusText (cloneHTTPMessage u m) = m_StatusText m" "m_Proto (cloneHTTPMessage u m) = m_Proto m"
    "(BodyStream (cloneHTTPMessage u m) = None) = (BodyStream m = None)" for m :: "('r, 'p) stream_message"
    by (auto simp: cloneHTTPMessage_def BodyStream_Clone_def split: option.splits)
  have msg: "writeHTTPMessage buf (cloneHTTPMessage u m) x = writeHTTPMessage buf m x"
    "calculateHTTPMessageSize (cloneHTTPMessage u m) x = calculateHTTPMessageSize m x"
    "hasHTTPMessageBody (cloneHTTPMessage u m) = hasHTTPMessageBody m"
    "calculateHTTPMessageBodySize (cloneHTTPMessage u m) = calculateHTTPMessageBodySize m"
    for buf x and m :: "('r, 'p) stream_message"
    using h(7) [of m]
    by (cases "m_Header m";
        auto simp: writeHTTPMessage_def writeHTTPMessageHead_def calculateHTTPMessageSize_def hasHTTPMessageBody_def
        calculateHTTPMessageBodySize_def b h Let_def)+
  have fields: "rs_HTTPRequest (Response_Clone u r) = map_option (cloneHTTPMessage u) (rs_HTTPRequest r)"
    "rs_HTTPResponse (Response_Clone u r) = map_option (cloneHTTPMessage u) (rs_HTTPResponse r)"
    "rs_Proto (Response_Clone u r) = rs_Proto r" "rs_StatusCode (Response_Clone u r) = rs_StatusCode r"
    "rs_Header (Response_Clone u r) = (case rs_Header r of None \<Rightarrow> Some NewHeader | Some h \<Rightarrow> Some h)"
    by (auto simp: Response_Clone_def NewResponse_def split: option.split)
  have offs: "encap_offsets (Response_Clone u r) = encap_offsets r"
    unfolding encap_offsets_def fields bytes by (simp add: msg option.case_eq_if option.map_sel cong: if_cong)
  then have enc: "BuildEncapsulatedHeader (Response_Clone u r) = BuildEncapsulatedHeader r"
    by (simp add: BuildEncapsulatedHeader_def)
  have "Header_WriteToBuffer NewHeader buf = buf" for buf by (simp add: Header_WriteToBuffer_def NewHeader_def sortedKeys_def)
  then have "writeEnvelopeToBuffer (Response_Clone u r) [] = writeEnvelopeToBuffer r []"
    by (auto simp: writeEnvelopeToBuffer_def enc fields split: option.split)
  then show ?thesis
    using enc by (auto simp: Response_String_def writeToBuffer_def fields bytes msg Let_def split: option.split)
qed

definition sample_response :: "(unit, unit) response" where
  "sample_response = NewResponseError (\<lambda>c. ''Forbidden'') 403 ''blocked''"

lemma sample_response_no_streams: "no_streams sample_response"
  by (simp add: no_streams_def sample_response_def NewResponseError_def SetHTTPResponse_def NewResponse_def Let_def)

theorem encapsulated_offsets_exact_witness:
  "\<exists>e ph. ParseEncapsulatedHeader (BuildEncapsulatedHeader sample_response) = Inr e \<and> ReqHdr e = -1 \<and> ResHdr e = 0 \<and>
     ResBody e = int (length ph) \<and> NullBody e = -1 \<and>
     Response_String sample_response = writeEnvelopeToBuffer sample_response [] @ ph @ chunk ''blocked'' @ zero_chunk []"
proof -
  have len: "int (length (Response_String sample_response)) \<le> MaxInt64" by code_simp
  have r: "rs_HTTPRequest sample_response = None" "\<exists>m. rs_HTTPResponse sample_response = Some m \<and> body_bytes m = ''blocked''"
    "rs_bytes sample_response = []"
    by (simp_all add: sample_response_def NewResponseError_def SetHTTPResponse_def NewResponse_def Let_def rs_bytes_def body_bytes_def)
  then show ?thesis
    using encapsulated_offsets_exact [OF sample_response_no_streams len] by (auto split: if_splits)
qed

theorem response_write_exact_witness:
  "\<exists>n err w' k. writeDirectToContext (background_ops (\<lambda>t. 0)) no_payload False sample_response ([], 0) = ((n, err), w') \<and>
     fst w' = take k (Response_String sample_response)"
proof -
  obtain n err w' where run: "writeDirectToContext (background_ops (\<lambda>t. 0)) no_payload False sample_response ([], 0) = ((n, err), w')"
    by (metis prod.exhaust)
  from response_write_exact [OF background.stream_world_axioms sample_response_no_streams run] run show ?thesis by auto
qed

end
