(* ===== verification/Router.thy ===== *)
theory Router
  imports Route_Cache Icap_Response
begin

text \<open>
  Request routing (\<^verbatim>\<open>internal/router/router.go\<close>): the table of exact paths, the ordered list of
  patterns tried after it, and the route cache in front of the table.

  A handler is an opaque value \<open>'h\<close>, a compiled regular expression an opaque value \<open>'re\<close>; what
  running a handler and matching a path yield are arguments (\<open>handle\<close>, \<open>matches\<close>).  Logging and
  metrics are not modelled.  The lemmas show that the cache is transparent: \<open>Serve\<close> answers as the
  table and the patterns alone would (\<open>routed\<close>), through the laws of the locale \<open>lookup_cache\<close>.  Calls
  that run concurrently are the subject of theory \<open>Router_Concurrency\<close>.
\<close>

section \<open>Paths\<close>

definition strip_query :: "string \<Rightarrow> string" where
  "strip_query path = (case go_IndexByte path (CHR ''?'') of Some q \<Rightarrow> take q path | None \<Rightarrow> path)"

definition extractPath :: "string \<Rightarrow> string" where
  "extractPath uri =
     (if uri = [] then ''/''
      else (case go_Index uri ''://'' of
        Some schemeEnd \<Rightarrow>
          (let rest = drop (schemeEnd + 3) uri in
           case go_IndexByte rest (CHR ''/'') of
             None \<Rightarrow> ''/''
           | Some slashIdx \<Rightarrow>
               (let path = strip_query (drop slashIdx rest) in if path = [] then ''/'' else path))
      | None \<Rightarrow>
          (let path = strip_query uri in
           if path = [] \<or> hd path \<noteq> CHR ''/'' then CHR ''/'' # path else path)))"

section \<open>The router\<close>

record ('re, 'h) router =
  rt_cache :: "'h RouteCache"
  rt_routes :: "(string \<times> 'h) list"
  rt_patterns :: "('re \<times> 'h) list"

definition NewRouterWithCache :: "int \<Rightarrow> int \<Rightarrow> ('re, 'h) router" where
  "NewRouterWithCache entries life =
     \<lparr>rt_cache = NewRouteCache entries life, rt_routes = [], rt_patterns = []\<rparr>"

definition NewRouter :: "('re, 'h) router" where
  "NewRouter = \<lparr>rt_cache = NewRouteCache DefaultMaxEntries DefaultTTL, rt_routes = [], rt_patterns = []\<rparr>"

definition Handle :: "string \<Rightarrow> 'h option \<Rightarrow> ('re, 'h) router \<Rightarrow> go_error option \<times> ('re, 'h) router" where
  "Handle path ho r =
     (if path = [] then (Some (ErrNew ''path cannot be empty''), r)
      else case ho of
        None \<Rightarrow> (Some (ErrNew ''handler cannot be nil''), r)
      | Some h \<Rightarrow>
          (None, r\<lparr>rt_routes := AList.update path h (rt_routes r), rt_cache := Clear (rt_cache r)\<rparr>))"

definition HandlePattern :: "'re option \<Rightarrow> 'h option \<Rightarrow> ('re, 'h) router \<Rightarrow> go_error option \<times> ('re, 'h) router" where
  "HandlePattern reo ho r =
     (case reo of
        None \<Rightarrow> (Some (ErrNew ''pattern cannot be nil''), r)
      | Some re \<Rightarrow>
          (case ho of
             None \<Rightarrow> (Some (ErrNew ''handler cannot be nil''), r)
           | Some h \<Rightarrow>
               (None, r\<lparr>rt_patterns := rt_patterns r @ [(re, h)], rt_cache := Clear (rt_cache r)\<rparr>)))"

text \<open>
  The cached lookups.  \<open>now\<close> and \<open>now'\<close> are the two clock readings, in \<open>Get\<close> and in \<open>Put\<close>.
  The result is the handler (\<^const>\<open>None\<close> for nil) and whether the cache answered.
\<close>

definition LookupHandlerFunc ::
  "int \<Rightarrow> int \<Rightarrow> (string \<Rightarrow> 'h option) \<Rightarrow> string \<Rightarrow> string \<Rightarrow> 'h RouteCache \<Rightarrow> ('h option \<times> bool) \<times> 'h RouteCache" where
  "LookupHandlerFunc now now' lookupFn meth uri c =
     (let path = extractPath uri in
      case Get now meth path c of
        (Some h, c1) \<Rightarrow> ((Some h, True), c1)
      | (None, c1) \<Rightarrow>
          (case lookupFn path of
             None \<Rightarrow> ((None, False), c1)
           | Some h \<Rightarrow> ((Some h, False), Put now' meth path (Some h) c1)))"

definition LookupHandler ::
  "int \<Rightarrow> int \<Rightarrow> (string \<times> 'h) list \<Rightarrow> string \<Rightarrow> string \<Rightarrow> 'h RouteCache \<Rightarrow> ('h option \<times> bool) \<times> 'h RouteCache" where
  "LookupHandler now now' routes meth uri c =
     (let path = extractPath uri;
          (ho, c1) = Get now meth path c
      in if ho \<noteq> None then ((ho, True), c1)
         else (case map_of routes path of
                 None \<Rightarrow> ((None, False), c1)
               | Some h \<Rightarrow> ((Some h, False), Put now' meth path (Some h) c1)))"

definition StatusNotFound :: int where "StatusNotFound = 404"

fun match_patterns :: "('re \<Rightarrow> string \<Rightarrow> bool) \<Rightarrow> string \<Rightarrow> ('re \<times> 'h) list \<Rightarrow> 'h option" where
  "match_patterns matches path [] = None"
| "match_patterns matches path ((re, h) # prs) =
     (if matches re path then Some h else match_patterns matches path prs)"

definition Serve ::
  "('re \<Rightarrow> string \<Rightarrow> bool) \<Rightarrow> ('h \<Rightarrow> ('q, 'r, 'b, 'z) request_scheme \<Rightarrow> go_error + ('s, 'p) response) \<Rightarrow> (int \<Rightarrow> string) \<Rightarrow>
   int \<Rightarrow> int \<Rightarrow> ('q, 'r, 'b, 'z) request_scheme \<Rightarrow> ('re, 'h) router \<Rightarrow>
   (go_error + ('s, 'p) response) \<times> ('re, 'h) router" where
  "Serve matches handle httpStatusText now now' req r =
     (let ((ho, _), c1) = LookupHandlerFunc now now' (map_of (rt_routes r)) (r_Method req) (r_URI req) (rt_cache r);
          ho' = (case ho of
                   Some h \<Rightarrow> Some h
                 | None \<Rightarrow> match_patterns matches (extractPath (r_URI req)) (rt_patterns r));
          res = (case ho' of
                   None \<Rightarrow> Inr (NewResponseError httpStatusText StatusNotFound ''ICAP service not found'')
                 | Some h \<Rightarrow> handle h req)
      in (res, r\<lparr>rt_cache := c1\<rparr>))"

definition CacheStats :: "('re, 'h) router \<Rightarrow> int \<times> int \<times> int \<times> int" where
  "CacheStats r = (Hits (rt_cache r), Misses (rt_cache r), Evictions (rt_cache r), Size (rt_cache r))"

definition CacheClear :: "('re, 'h) router \<Rightarrow> ('re, 'h) router" where
  "CacheClear r = r\<lparr>rt_cache := Clear (rt_cache r)\<rparr>"

definition CacheResetMetrics :: "('re, 'h) router \<Rightarrow> ('re, 'h) router" where
  "CacheResetMetrics r = r\<lparr>rt_cache := ResetMetrics (rt_cache r)\<rparr>"

section \<open>Paths, lemmas\<close>

lemma strip_query_no_query: "CHR ''?'' \<notin> set (strip_query p)"
  by (auto simp: strip_query_def split: option.split dest!: go_IndexByte_SomeD dest: in_set_takeD)

lemma extractPath_rooted: "hd (extractPath uri) = CHR ''/'' \<and> extractPath uri \<noteq> []"
proof -
  have q: "hd (strip_query (CHR ''/'' # s)) = CHR ''/''" for s
    by (auto simp: strip_query_def split: option.split)
  have "hd (strip_query (drop i s)) = CHR ''/''" if "go_IndexByte s (CHR ''/'') = Some i" for i s
    using go_IndexByte_SomeD [OF that] q by (metis Cons_nth_drop_Suc)
  then show ?thesis
    by (auto simp: extractPath_def Let_def simp del: drop_drop split: option.split)
qed

section \<open>Sequential use: the cache is transparent\<close>

text \<open>What the table and the patterns say, with no cache.\<close>

definition routed :: "('re \<Rightarrow> string \<Rightarrow> bool) \<Rightarrow> (string \<times> 'h) list \<Rightarrow> ('re \<times> 'h) list \<Rightarrow> string \<Rightarrow> 'h option" where
  "routed matches routes patterns path =
     (case map_of routes path of Some h \<Rightarrow> Some h | None \<Rightarrow> match_patterns matches path patterns)"

definition router_ok :: "('re, 'h) router \<Rightarrow> bool" where
  "router_ok r \<longleftrightarrow> route_cache.coherent (map_of (rt_routes r)) (rt_cache r)"

lemma LookupHandler_eq_Func: "LookupHandler now now' routes meth uri c = LookupHandlerFunc now now' (map_of routes) meth uri c"
  by (auto simp: LookupHandler_def LookupHandlerFunc_def Let_def split_beta split: option.split prod.split)

lemma LookupHandlerFunc_transparent:
  assumes "route_cache.coherent table c" "CHR '':'' \<notin> set meth"
    and "LookupHandlerFunc now now' table meth uri c = ((ho, hit), c')"
  shows "ho = table (extractPath uri) \<and> route_cache.coherent table c'"
proof -
  obtain g c1 where g: "Get now meth (extractPath uri) c = (g, c1)" by fastforce
  have c1: "route_cache.coherent table c1" by (rule route_cache.coherent_get [OF assms(1) g])
  show ?thesis
  proof (cases g)
    case None
    then show ?thesis
      using assms(3) g c1 route_cache.coherent_put [OF c1 assms(2), of "extractPath uri"]
      by (auto simp: LookupHandlerFunc_def Let_def split: option.splits)
  next
    case (Some h)
    then show ?thesis
      using assms(3) g c1 route_cache.transparent_hit [OF assms(1,2), of now "extractPath uri" h c1]
      by (auto simp: LookupHandlerFunc_def)
  qed
qed

lemma router_ok_Clear: "router_ok r \<Longrightarrow> route_cache.coherent table (Clear (rt_cache r))"
  by (rule route_cache.coherent_clear) (simp add: router_ok_def route_cache.coherent_def)

lemma router_ok_new: "router_ok (NewRouterWithCache entries life)"
  by (simp add: router_ok_def route_cache.coherent_def NewRouterWithCache_def NewRouteCache_def store_ok_def cached_def)

lemma router_ok_Handle: "router_ok r \<Longrightarrow> router_ok (snd (Handle path ho r))"
  using router_ok_Clear [of r] by (auto simp: Handle_def router_ok_def split: option.split)

lemma router_ok_HandlePattern: "router_ok r \<Longrightarrow> router_ok (snd (HandlePattern reo ho r))"
  using router_ok_Clear [of r] by (auto simp: HandlePattern_def router_ok_def split: option.split)

lemma router_ok_CacheClear: "router_ok r \<Longrightarrow> router_ok (CacheClear r)"
  using router_ok_Clear [of r] by (simp add: CacheClear_def router_ok_def)

lemma Serve_routed:
  assumes "router_ok r" "CHR '':'' \<notin> set (r_Method req)"
  shows "fst (Serve matches handle httpStatusText now now' req r) =
      (case routed matches (rt_routes r) (rt_patterns r) (extractPath (r_URI req)) of
         None \<Rightarrow> Inr (NewResponseError httpStatusText StatusNotFound ''ICAP service not found'')
       | Some h \<Rightarrow> handle h req) \<and>
    router_ok (snd (Serve matches handle httpStatusText now now' req r)) \<and>
    rt_routes (snd (Serve matches handle httpStatusText now now' req r)) = rt_routes r \<and>
    rt_patterns (snd (Serve matches handle httpStatusText now now' req r)) = rt_patterns r"
proof -
  obtain ho hit c1 where l: "LookupHandlerFunc now now' (map_of (rt_routes r)) (r_Method req) (r_URI req) (rt_cache r) = ((ho, hit), c1)"
    by (metis surj_pair)
  have "ho = map_of (rt_routes r) (extractPath (r_URI req))" "route_cache.coherent (map_of (rt_routes r)) c1"
    using LookupHandlerFunc_transparent [OF assms(1) [unfolded router_ok_def] assms(2) l] by auto
  then show ?thesis by (auto simp: Serve_def l routed_def router_ok_def split: option.split)
qed

datatype ('re, 'h, 'q) router_op =
    RHandle string "'h option"
  | RPattern "'re option" "'h option"
  | RServe int int 'q
  | RClear

fun router_exec where
  "router_exec matches handle stext (RHandle path ho) r = (None, snd (Handle path ho r))"
| "router_exec matches handle stext (RPattern reo ho) r = (None, snd (HandlePattern reo ho r))"
| "router_exec matches handle stext (RServe now now' req) r =
     (let (res, r') = Serve matches handle stext now now' req r in (Some res, r'))"
| "router_exec matches handle stext RClear r = (None, CacheClear r)"

text \<open>The specification keeps the table and the patterns only.\<close>

fun router_spec where
  "router_spec matches handle stext (RHandle path ho) (routes, patterns) =
     (None, case ho of Some h \<Rightarrow> if path = [] then (routes, patterns) else (AList.update path h routes, patterns)
                     | None \<Rightarrow> (routes, patterns))"
| "router_spec matches handle stext (RPattern reo ho) (routes, patterns) =
     (None, case (reo, ho) of (Some re, Some h) \<Rightarrow> (routes, patterns @ [(re, h)]) | _ \<Rightarrow> (routes, patterns))"
| "router_spec matches handle stext (RServe now now' req) (routes, patterns) =
     (Some (case routed matches routes patterns (extractPath (r_URI req)) of
              None \<Rightarrow> Inr (NewResponseError stext StatusNotFound ''ICAP service not found'')
            | Some h \<Rightarrow> handle h req), (routes, patterns))"
| "router_spec matches handle stext RClear (routes, patterns) = (None, (routes, patterns))"

abbreviation tables :: "('re, 'h) router \<Rightarrow> (string \<times> 'h) list \<times> ('re \<times> 'h) list" where
  "tables r \<equiv> (rt_routes r, rt_patterns r)"

fun served_ok :: "('re, 'h, ('q, 'r, 'b, 'z) request_scheme) router_op \<Rightarrow> bool" where
  "served_ok (RServe now now' req) \<longleftrightarrow> CHR '':'' \<notin> set (r_Method req)"
| "served_ok _ \<longleftrightarrow> True"

lemma router_exec_refines:
  assumes "router_ok r" "served_ok op"
  shows "router_ok (snd (router_exec matches handle stext op r)) \<and>
    router_spec matches handle stext op (tables r) =
      (fst (router_exec matches handle stext op r), tables (snd (router_exec matches handle stext op r)))"
proof (cases op)
  case (RHandle path ho)
  then show ?thesis using router_ok_Handle [OF assms(1), of path ho] by (auto simp: Handle_def split: option.split)
next
  case (RPattern reo ho)
  then show ?thesis
    using router_ok_HandlePattern [OF assms(1), of reo ho] by (auto simp: HandlePattern_def split: option.split)
next
  case (RServe now now' req)
  then show ?thesis using Serve_routed [OF assms(1), of req matches handle stext now now'] assms(2) by (auto simp: split_beta)
next
  case RClear
  then show ?thesis using router_ok_CacheClear [OF assms(1)] by (simp add: CacheClear_def)
qed

lemma run_router_refines:
  "router_ok r \<Longrightarrow> list_all served_ok ops \<Longrightarrow>
    fst (run_ops (router_exec matches handle stext) ops r) = fst (run_ops (router_spec matches handle stext) ops (tables r))"
proof (induction ops arbitrary: r)
  case (Cons op ops)
  then show ?case
    using router_exec_refines [OF Cons.prems(1), of op matches handle stext] Cons.IH [of "snd (router_exec matches handle stext op r)"]
    by (simp add: split_beta Let_def)
qed simp

section \<open>Properties\<close>

text \<open>
  C17: \<^bold>\<open>Routing.\<close>  For every sequence of \<open>Handle\<close>, \<open>HandlePattern\<close>, \<open>Serve\<close> and \<open>CacheClear\<close> calls on a new
  router, whatever the size and TTL of its cache and whatever the clock says: every \<open>Serve\<close> runs the handler
  registered last for the exact path of the request URI; if there is none, the handler of the first registered
  pattern that matches the path; and if there is none either it answers 404.  The cache never changes an
  answer.  (The methods of the requests contain no colon, which the request parser guarantees: it lets three methods
  through.  A colon could make two cache keys coincide.)
\<close>

theorem serve_routes_exactly:
  assumes "list_all served_ok ops"
  shows "fst (run_ops (router_exec matches handle stext) ops (NewRouterWithCache entries life)) =
         fst (run_ops (router_spec matches handle stext) ops ([], []))"
  using run_router_refines [OF router_ok_new assms, of matches handle stext entries life]
  by (simp add: NewRouterWithCache_def)

definition sample_icap :: "string \<Rightarrow> (unit, unit, unit) request" where
  "sample_icap uri = zero_request\<lparr>r_URI := uri, r_Method := MethodREQMOD\<rparr>"

definition sample_handle :: "string \<Rightarrow> (unit, unit, unit) request \<Rightarrow> go_error + (unit, unit) response" where
  "sample_handle h req = Inl (ErrNew h)"

definition sample_ops :: "(string, string, (unit, unit, unit) request) router_op list" where
  "sample_ops =
     [RHandle ''/a'' (Some ''one''), RServe 0 0 (sample_icap ''icap://h/a?x''), RServe 1 1 (sample_icap ''icap://h/a''),
      RHandle ''/a'' (Some ''two''), RServe 2 2 (sample_icap ''icap://h/a''),
      RPattern (Some ''/b'') (Some ''three''), RServe 3 3 (sample_icap ''/b'')]"

theorem serve_routes_exactly_witness:
  "fst (run_ops (router_exec (=) sample_handle (\<lambda>_. [])) sample_ops (NewRouterWithCache 1 0)) =
     [None, Some (Inl (ErrNew ''one'')), Some (Inl (ErrNew ''one'')), None, Some (Inl (ErrNew ''two'')), None,
      Some (Inl (ErrNew ''three''))]"
proof -
  have ok: "list_all served_ok sample_ops" by code_simp
  have "fst (run_ops (router_spec (=) sample_handle (\<lambda>_. [])) sample_ops ([], [])) =
     [None, Some (Inl (ErrNew ''one'')), Some (Inl (ErrNew ''one'')), None, Some (Inl (ErrNew ''two'')), None,
      Some (Inl (ErrNew ''three''))]"
    by (simp add: sample_ops_def sample_icap_def sample_handle_def extractPath_def strip_query_def routed_def)
  then show ?thesis using serve_routes_exactly [OF ok, of "(=)" sample_handle "\<lambda>_. []" 1 0] by simp
qed

end
