(* ===== verification/Router_Concurrency.thy ===== *)
theory Router_Concurrency
  imports Router
begin

text \<open>
  Concurrent \<open>Serve\<close> and \<open>Handle\<close> calls.

  A goroutine is a program counter \<open>pc\<close>.  \<open>thread_step\<close> is the code it runs up to the next point where
  another goroutine may come in between: one critical section of the cache lock, one atomic increment, or one operation on the
  \<open>sync.Map\<close> of routes.  (The hit and miss counters are atomic and independent of everything
  else: they are counted with the step next to them.)  \<open>rstep\<close> lets any goroutine start a call or take one
  step, at any clock reading; \<open>reach\<close> are the states that come about.  \<open>w_log\<close> records the registrations in
  the order in which they reached the table.
\<close>

section \<open>Goroutines\<close>

datatype 'h pc =
    Idle
  | Looking string string
  | Expiring string string
  | Counting string string addr 'h
  | Promoting string string addr 'h
  | Missed string string
  | Storing string string 'h
  | Answered string string "'h option"
  | Registering string 'h
  | Invalidating

record 'h world =
  w_cache :: "'h RouteCache"
  w_routes :: "(string \<times> 'h) list"
  w_log :: "(string \<times> 'h) list"
  w_threads :: "nat \<Rightarrow> 'h pc"

definition free :: "'h pc \<Rightarrow> bool" where
  "free p \<longleftrightarrow> (case p of Idle \<Rightarrow> True | Answered _ _ _ \<Rightarrow> True | _ \<Rightarrow> False)"

fun thread_step :: "int \<Rightarrow> 'h pc \<Rightarrow> 'h world \<Rightarrow> 'h pc \<times> 'h world" where
  "thread_step now (Looking m p) w =
     (case Get_read now (buildKey m p) (w_cache w) of
        GetMiss \<Rightarrow> (Missed m p, w)
      | GetExpired \<Rightarrow> (Expiring m p, w)
      | GetHit a h \<Rightarrow> (Counting m p a h, w))"
| "thread_step now (Expiring m p) w = (Missed m p, w\<lparr>w_cache := Get_evict (buildKey m p) (w_cache w)\<rparr>)"
| "thread_step now (Counting m p a h) w =
     (let (n, c) = Get_count a (w_cache w) in
      if n mod 10 = 0 then (Promoting m p a h, w\<lparr>w_cache := c\<rparr>)
      else (Answered m p (Some h), w\<lparr>w_cache := count_hit c\<rparr>))"
| "thread_step now (Promoting m p a h) w =
     (Answered m p (Some h), w\<lparr>w_cache := count_hit (Get_promote (buildKey m p) a (w_cache w))\<rparr>)"
| "thread_step now (Missed m p) w =
     (case map_of (w_routes w) p of
        None \<Rightarrow> (Answered m p None, w\<lparr>w_cache := count_miss (w_cache w)\<rparr>)
      | Some h \<Rightarrow> (Storing m p h, w\<lparr>w_cache := count_miss (w_cache w)\<rparr>))"
| "thread_step now (Storing m p h) w =
     (Answered m p (Some h), w\<lparr>w_cache := Put now m p (Some h) (w_cache w)\<rparr>)"
| "thread_step now (Registering p h) w =
     (Invalidating, w\<lparr>w_routes := AList.update p h (w_routes w), w_log := w_log w @ [(p, h)]\<rparr>)"
| "thread_step now Invalidating w = (Idle, w\<lparr>w_cache := Clear (w_cache w)\<rparr>)"
| "thread_step now Idle w = (Idle, w)"
| "thread_step now (Answered m p r) w = (Answered m p r, w)"

definition run_thread :: "nat \<Rightarrow> int \<Rightarrow> 'h world \<Rightarrow> 'h world" where
  "run_thread t now w =
     (let (p, w') = thread_step now (w_threads w t) w in w'\<lparr>w_threads := (w_threads w)(t := p)\<rparr>)"

definition start_thread :: "nat \<Rightarrow> 'h pc \<Rightarrow> 'h world \<Rightarrow> 'h world" where
  "start_thread t p w = w\<lparr>w_threads := (w_threads w)(t := p)\<rparr>"

inductive rstep :: "'h world \<Rightarrow> 'h world \<Rightarrow> bool" where
  serve: "free (w_threads w t) \<Longrightarrow> CHR '':'' \<notin> set m \<Longrightarrow> rstep w (start_thread t (Looking m p) w)"
| register: "free (w_threads w t) \<Longrightarrow> p \<noteq> [] \<Longrightarrow> rstep w (start_thread t (Registering p h) w)"
| run: "rstep w (run_thread t now w)"

definition initial :: "int \<Rightarrow> int \<Rightarrow> 'h world" where
  "initial entries life =
     \<lparr>w_cache = NewRouteCache entries life, w_routes = [], w_log = [], w_threads = (\<lambda>_. Idle)\<rparr>"

inductive reach :: "int \<Rightarrow> int \<Rightarrow> 'h world \<Rightarrow> bool" for entries life where
  init: "reach entries life (initial entries life)"
| step: "reach entries life w \<Longrightarrow> rstep w w' \<Longrightarrow> reach entries life w'"

text \<open>Schedules: an executable account of a run.\<close>

datatype 'h event = StartServe nat string string | StartHandle nat string 'h | Run nat int

fun apply_event :: "'h event \<Rightarrow> 'h world \<Rightarrow> 'h world option" where
  "apply_event (StartServe t m p) w =
     (if free (w_threads w t) \<and> CHR '':'' \<notin> set m then Some (start_thread t (Looking m p) w) else None)"
| "apply_event (StartHandle t p h) w =
     (if free (w_threads w t) \<and> p \<noteq> [] then Some (start_thread t (Registering p h) w) else None)"
| "apply_event (Run t now) w = Some (run_thread t now w)"

fun schedule :: "'h event list \<Rightarrow> 'h world \<Rightarrow> 'h world option" where
  "schedule [] w = Some w"
| "schedule (e # es) w = (case apply_event e w of None \<Rightarrow> None | Some w' \<Rightarrow> schedule es w')"

lemma apply_event_rstep: "apply_event e w = Some w' \<Longrightarrow> rstep w w'"
  by (cases e) (auto split: if_splits intro: rstep.intros)

lemma schedule_reach: "schedule es w = Some w' \<Longrightarrow> reach entries life w \<Longrightarrow> reach entries life w'"
  by (induction es arbitrary: w) (auto split: option.splits dest: apply_event_rstep intro: reach.step)

section \<open>An uninterrupted call is the sequential one\<close>

fun run_alone :: "nat \<Rightarrow> int \<Rightarrow> 'h pc \<Rightarrow> 'h world \<Rightarrow> 'h pc \<times> 'h world" where
  "run_alone 0 now p w = (p, w)"
| "run_alone (Suc n) now p w = (let (p', w') = thread_step now p w in run_alone n now p' w')"

lemma run_alone_LookupHandlerFunc:
  assumes "LookupHandlerFunc now now (map_of (w_routes w)) m uri (w_cache w) = ((ho, hit), c)"
  shows "run_alone 4 now (Looking m (extractPath uri)) w = (Answered m (extractPath uri) ho, w\<lparr>w_cache := c\<rparr>)"
  using assms
  by (auto simp: LookupHandlerFunc_def Get_def Let_def split_beta numeral_eq_Suc
      split: get_result.splits option.splits prod.splits if_splits)

section \<open>The answers of the past\<close>

text \<open>\<open>past log p r\<close>: the table, at some moment so far, answered \<open>r\<close> for the path \<open>p\<close>.\<close>

definition past :: "(string \<times> 'h) list \<Rightarrow> string \<Rightarrow> 'h option \<Rightarrow> bool" where
  "past log p r \<longleftrightarrow> (\<exists>k \<le> length log. map_of (rev (take k log)) p = r)"

lemma past_now: "past log p (map_of (rev log) p)"
  unfolding past_def by (rule exI [of _ "length log"]) simp

lemma past_snoc: "past log p r \<Longrightarrow> past (log @ [e]) p r"
proof -
  assume "past log p r"
  then obtain k where "k \<le> length log" "map_of (rev (take k log)) p = r" by (auto simp: past_def)
  then show ?thesis unfolding past_def by (intro exI [of _ k]) simp
qed

fun pc_past :: "(string \<times> 'h) list \<Rightarrow> 'h pc \<Rightarrow> bool" where
  "pc_past log (Looking m p) \<longleftrightarrow> CHR '':'' \<notin> set m"
| "pc_past log (Expiring m p) \<longleftrightarrow> CHR '':'' \<notin> set m"
| "pc_past log (Missed m p) \<longleftrightarrow> CHR '':'' \<notin> set m"
| "pc_past log (Counting m p a h) \<longleftrightarrow> CHR '':'' \<notin> set m \<and> past log p (Some h)"
| "pc_past log (Promoting m p a h) \<longleftrightarrow> CHR '':'' \<notin> set m \<and> past log p (Some h)"
| "pc_past log (Storing m p h) \<longleftrightarrow> CHR '':'' \<notin> set m \<and> past log p (Some h)"
| "pc_past log (Answered m p r) \<longleftrightarrow> past log p r"
| "pc_past log Idle \<longleftrightarrow> True"
| "pc_past log (Registering p h) \<longleftrightarrow> True"
| "pc_past log Invalidating \<longleftrightarrow> True"

definition cache_past :: "(string \<times> 'h) list \<Rightarrow> 'h RouteCache \<Rightarrow> bool" where
  "cache_past log c \<longleftrightarrow> store_ok c \<and>
     (\<forall>m p h. CHR '':'' \<notin> set m \<longrightarrow> cached c (buildKey m p) = Some h \<longrightarrow> past log p (Some h))"

definition world_past :: "'h world \<Rightarrow> bool" where
  "world_past w \<longleftrightarrow> cache_past (w_log w) (w_cache w) \<and> map_of (w_routes w) = map_of (rev (w_log w)) \<and>
     (\<forall>t. pc_past (w_log w) (w_threads w t))"

lemma pc_past_snoc: "pc_past log p \<Longrightarrow> pc_past (log @ [e]) p"
  by (cases p) (auto intro: past_snoc)

lemma cache_past_snoc: "cache_past log c \<Longrightarrow> cache_past (log @ [e]) c"
  by (auto simp: cache_past_def intro: past_snoc)

lemma cache_past_shrink: "cache_past log c \<Longrightarrow> store_ok c' \<Longrightarrow> cached c' \<subseteq>\<^sub>m cached c \<Longrightarrow> cache_past log c'"
  unfolding cache_past_def by (metis domI map_le_def)

lemma cache_past_metrics [simp]: "cache_past log (count_hit c) = cache_past log c" "cache_past log (count_miss c) = cache_past log c"
  by (simp_all add: cache_past_def)

lemma cache_past_put:
  assumes c: "cache_past log c" and m: "CHR '':'' \<notin> set m" and h: "past log p (Some h)"
  shows "cache_past log (Put now m p (Some h) c)"
proof -
  have ok: "store_ok (Put now m p (Some h) c)" and le: "cached (Put now m p (Some h) c) \<subseteq>\<^sub>m (cached c)(buildKey m p \<mapsto> h)"
    using c Put_entry_grows [of c now "buildKey m p" h] by (auto simp: cache_past_def Put_def)
  have "past log p' (Some h')" if m': "CHR '':'' \<notin> set m'" and s: "cached (Put now m p (Some h) c) (buildKey m' p') = Some h'" for m' p' h'
  proof -
    have "((cached c)(buildKey m p \<mapsto> h)) (buildKey m' p') = Some h'" using le s by (metis domI map_le_def)
    then show ?thesis using buildKey_inj [OF m' m] c m' h by (auto simp: cache_past_def split: if_splits)
  qed
  with ok show ?thesis by (simp add: cache_past_def)
qed

lemma thread_step_past:
  assumes w: "world_past w" and p: "pc_past (w_log w) p" and s: "thread_step now p w = (p', w')"
  shows "cache_past (w_log w') (w_cache w')" "map_of (w_routes w') = map_of (rev (w_log w'))"
    "pc_past (w_log w') p'" "w_threads w' = w_threads w" "\<exists>es. w_log w' = w_log w @ es \<and> length es \<le> 1"
proof -
  have c: "cache_past (w_log w) (w_cache w)" and r: "map_of (w_routes w) = map_of (rev (w_log w))"
    using w by (auto simp: world_past_def)
  have ok: "store_ok (w_cache w)" using c by (simp add: cache_past_def)
  have "cache_past (w_log w') (w_cache w') \<and> map_of (w_routes w') = map_of (rev (w_log w')) \<and>
    pc_past (w_log w') p' \<and> w_threads w' = w_threads w \<and> (\<exists>es. w_log w' = w_log w @ es \<and> length es \<le> 1)"
  proof (cases p)
    case (Looking m q)
    then show ?thesis using s p c r Get_read_sound [of now "buildKey m q" "w_cache w"]
      by (auto simp: cache_past_def split: get_result.splits)
  next
    case (Expiring m q)
    then show ?thesis using s p r cache_past_shrink [OF c Get_evict_shrinks [OF ok]] by auto
  next
    case (Counting m q a h)
    obtain n c1 where n: "Get_count a (w_cache w) = (n, c1)" by fastforce
    then show ?thesis
      using s p r Counting cache_past_shrink [OF c Get_count_shrinks [OF ok n]] by (auto split: if_splits)
  next
    case (Promoting m q a h)
    then show ?thesis using s p r cache_past_shrink [OF c Get_promote_shrinks [OF ok]] by auto
  next
    case (Missed m q)
    then show ?thesis using s p r c past_now [of "w_log w" q] by (auto split: option.splits)
  next
    case (Storing m q h)
    then show ?thesis using s p r cache_past_put [OF c] by auto
  next
    case (Registering q h)
    then show ?thesis using s p r cache_past_snoc [OF c] by (auto simp: AList.update_conv')
  next
    case Invalidating
    then show ?thesis using s p r route_cache.clear_keeps [OF ok] by (auto simp: cache_past_def)
  qed (use s p c r in auto)
  then show "cache_past (w_log w') (w_cache w')" "map_of (w_routes w') = map_of (rev (w_log w'))"
    "pc_past (w_log w') p'" "w_threads w' = w_threads w" "\<exists>es. w_log w' = w_log w @ es \<and> length es \<le> 1" by auto
qed

lemma run_thread_past:
  assumes "world_past w"
  shows "world_past (run_thread t now w)"
proof -
  obtain p' w' where s: "thread_step now (w_threads w t) w = (p', w')" by fastforce
  have "pc_past (w_log w) (w_threads w t')" for t' using assms by (simp add: world_past_def)
  note T = thread_step_past [OF assms this s]
  from T(5) obtain es where "w_log w' = w_log w @ es" "length es \<le> 1" by blast
  then consider "w_log w' = w_log w" | e where "w_log w' = w_log w @ [e]" by (cases es) auto
  then have "pc_past (w_log w') (w_threads w t')" for t'
    using assms by cases (auto simp: world_past_def intro: pc_past_snoc)
  then show ?thesis using T by (simp add: run_thread_def s world_past_def)
qed

lemma reach_past: "reach entries life w \<Longrightarrow> world_past w"
proof (induction rule: reach.induct)
  case init
  show ?case
    by (simp add: world_past_def initial_def cache_past_def NewRouteCache_def store_ok_def cached_def)
next
  case (step w w')
  from step.hyps(2) show ?case
  proof cases
    case (run t now)
    then show ?thesis using run_thread_past [OF step.IH] by simp
  qed (use step.IH in \<open>auto simp: world_past_def start_thread_def\<close>)
qed

section \<open>Properties\<close>

text \<open>
  C20: \<^bold>\<open>Concurrent routing.\<close>  However \<open>Serve\<close> and \<open>Handle\<close> calls interleave, at the granularity of the locks
  and atomics of the code, evictions, expiry and promotions included: the answer of every lookup is one
  that the route table gave for that path at some moment so far.  In particular no call ever gets the handler of
  another path, or one that was never registered, and a path registered once gets that handler or, before
  its registration, none.
\<close>

theorem concurrent_answers_were_routed:
  assumes "reach entries life w" "w_threads w t = Answered m p r"
  shows "\<exists>k \<le> length (w_log w). r = map_of (rev (take k (w_log w))) p"
proof -
  have "pc_past (w_log w) (w_threads w t)" using reach_past [OF assms(1)] by (simp add: world_past_def)
  then show ?thesis by (auto simp: assms(2) past_def)
qed

text \<open>A goroutine that starts a call and runs it to its end, with nobody in between.\<close>

definition serve_alone :: "nat \<Rightarrow> string \<Rightarrow> int \<Rightarrow> 'h event list" where
  "serve_alone t p now = StartServe t MethodREQMOD p # replicate 4 (Run t now)"

definition handle_alone :: "nat \<Rightarrow> string \<Rightarrow> 'h \<Rightarrow> 'h event list" where
  "handle_alone t p h = [StartHandle t p h, Run t 0, Run t 0]"

definition after :: "int \<Rightarrow> int \<Rightarrow> 'h event list \<Rightarrow> 'h world" where
  "after entries life es = (case schedule es (initial entries life) of Some w \<Rightarrow> w | None \<Rightarrow> initial entries life)"

lemma after_reach: "reach entries life (after entries life es)"
  by (auto simp: after_def intro: schedule_reach reach.init split: option.split)

text \<open>
  Goroutine 0 has looked up \<open>/a\<close> in the table and is about to store the answer; goroutine 1 registers
  a new handler for \<open>/a\<close> and returns; then goroutine 0 goes on.
\<close>

definition stale_schedule :: "nat event list" where
  "stale_schedule = handle_alone 1 ''/a'' 1 @ [StartServe 0 MethodREQMOD ''/a'', Run 0 0, Run 0 0] @
     handle_alone 1 ''/a'' 2 @ [Run 0 0] @ serve_alone 2 ''/a'' 1"

text \<open>
  Goroutine 0 is about to promote the entry of \<open>/a\<close>; goroutine 1 registers a route, which clears the cache, and \<open>/b\<close> and
  \<open>/a\<close> are cached again; then goroutine 0 promotes the node it still holds, which is no longer in the list.
  Later the entry of \<open>/a\<close> expires, and \<open>/c\<close> and \<open>/d\<close> are served.
\<close>

definition overflow_schedule :: "nat event list" where
  "overflow_schedule =
     concat (map (\<lambda>p. handle_alone 1 p 7) [''/a'', ''/b'', ''/c'', ''/d'']) @
     concat (replicate 9 (serve_alone 1 ''/a'' 0)) @ [StartServe 0 MethodREQMOD ''/a'', Run 0 0, Run 0 0] @
     handle_alone 1 ''/e'' 7 @ serve_alone 1 ''/b'' 0 @ serve_alone 1 ''/a'' 0 @ [Run 0 0] @
     [StartServe 2 MethodREQMOD ''/a'', Run 2 200, Run 2 200] @ serve_alone 1 ''/c'' 200 @ serve_alone 1 ''/d'' 200"

text \<open>
  \<^bold>\<open>A replaced handler can come back.\<close>  \<open>Handle\<close> stores the new handler and then clears the cache.  A \<open>Serve\<close>
  that read the old handler from the table before and stores it into the cache after the clearing leaves the old
  handler there: in the run above \<open>Handle(\<open>/a\<close>, 2)\<close> has returned and the table says 2, and a \<open>Serve\<close> that
  starts afterwards still gets 1, a handler that is no longer registered.
\<close>

theorem stale_handler_survives_register:
  "\<exists>w. reach 10 0 w \<and> w_log w = [(''/a'', 1), (''/a'', 2 :: nat)] \<and> map_of (w_routes w) ''/a'' = Some 2 \<and>
     w_threads w 1 = Idle \<and> w_threads w 2 = Answered MethodREQMOD ''/a'' (Some 1)"
proof (intro exI conjI)
  show "reach 10 0 (after 10 0 stale_schedule)" by (rule after_reach)
qed (code_simp)+

text \<open>
  \<^bold>\<open>The cache can outgrow its bound.\<close>  \<open>Get\<close> promotes the node it found under the read lock, after checking
  under the write lock that the key still exists, but not that it still belongs to that node.  When the
  key was evicted and cached again in between, the promotion splices a node into the list that is not in the map, and cuts the live nodes off;
  a later eviction removes that node and finds no key to delete.  In the run above a cache of at most 2 entries holds 3.
\<close>

theorem stale_promotion_breaks_bound:
  "\<exists>w. reach 2 100 w \<and> maxEntries (w_cache (w :: nat world)) = 2 \<and> Size (w_cache w) = 3"
proof (intro exI conjI)
  show "reach 2 100 (after 2 100 overflow_schedule)" by (rule after_reach)
qed (code_simp)+

theorem concurrent_answers_were_routed_witness:
  "\<exists>k \<le> length (w_log (after 10 0 stale_schedule)).
     Some (1 :: nat) = map_of (rev (take k (w_log (after 10 0 stale_schedule)))) ''/a''"
proof -
  have "w_threads (after 10 0 stale_schedule) 2 = Answered MethodREQMOD ''/a'' (Some 1)" by code_simp
  from concurrent_answers_were_routed [OF after_reach this] show ?thesis .
qed

end
