(* ===== verification/Stream_Config.thy ===== *)
theory Stream_Config
  imports Icap_Message
begin

text \<open>
  The streaming part of a response template (\<^verbatim>\<open>internal/storage/streaming.go\<close>,
  \<^verbatim>\<open>streaming_schema.go\<close>, \<^verbatim>\<open>streaming_controls.go\<close>): its configuration structs, the
  normalisation of the source shorthand, and the validation that every scenario goes through before it is
  registered.

  \<open>os.Stat\<close> and \<open>regexp.Compile\<close> are arguments (\<open>stat\<close>: the error for a path, if any; \<open>recompile\<close>).  A function that
  writes through its pointer argument returns the new struct; where it returns an error the caller drops
  the scenario, so the half-written struct is dropped too.  The YAML and JSON decoders that fill the structs
  are not modelled, the scalar parsers they call are.
\<close>

section \<open>Scalars\<close>

record SizeSpec =
  sz_Min :: int
  sz_Max :: int
  sz_IsSet :: bool

record DurationSpec =
  du_Min :: int
  du_Max :: int
  du_IsSet :: bool

record PercentSpec =
  pc_Min :: int
  pc_Max :: int
  pc_IsSet :: bool

definition validPercent :: "int \<Rightarrow> bool" where
  "validPercent v \<longleftrightarrow> 0 \<le> v \<and> v \<le> 100"

definition validatePercentRange :: "int \<Rightarrow> int \<Rightarrow> go_error + int \<times> int" where
  "validatePercentRange minVal maxVal =
     (if \<not> validPercent minVal \<or> \<not> validPercent maxVal then Inl (ErrNew ''percent must be between 0 and 100'')
      else if maxVal < minVal then Inl (ErrNew ''percent range min is greater than max'')
      else Inr (minVal, maxVal))"

definition parsePercentValue :: "string \<Rightarrow> go_error + int" where
  "parsePercentValue raw =
     (let trimmed = go_TrimSuffix (go_TrimSpace raw) ''%'' in
      case go_Atoi (go_TrimSpace trimmed) of
        None \<Rightarrow> Inl (ErrNew (''invalid percent '' @ go_Quote raw))
      | Some v \<Rightarrow> Inr v)"

definition parsePercentSpec :: "string \<Rightarrow> go_error + int \<times> int" where
  "parsePercentSpec raw =
     (let parts = go_Split (go_TrimSpace raw) (CHR ''-'') in
      if 2 < length parts then Inl (ErrNew (''invalid percent range '' @ go_Quote raw))
      else (case parsePercentValue (parts ! 0) of
        Inl e \<Rightarrow> Inl e
      | Inr minVal \<Rightarrow>
          if length parts = 1 then Inr (minVal, minVal)
          else (case parsePercentValue (parts ! 1) of
            Inl e \<Rightarrow> Inl e
          | Inr maxVal \<Rightarrow> validatePercentRange minVal maxVal)))"

section \<open>The configuration\<close>

record StreamSourceConfig =
  src_From :: string
  src_Body :: string
  src_BodyFile :: string

text \<open>The code converts a part to a source (\<open>StreamSourceConfig(part)\<close>): the structs have the same fields.\<close>

type_synonym StreamPartConfig = StreamSourceConfig

record StreamSendConfig =
  send_Percent :: PercentSpec
  send_Duration :: DurationSpec
  send_IsSet :: bool

record StreamThrottleConfig =
  TargetChunkSize :: SizeSpec
  Every :: DurationSpec
  TargetChunks :: int
  throttle_IsSet :: bool
  targetChunksSet :: bool

record StreamEndConfig =
  end_Mode :: string
  end_IsSet :: bool

record StreamChunksConfig =
  chunks_Size :: SizeSpec
  chunks_Delay :: DurationSpec

record StreamFINConfig =
  fin_Close :: string
  fin_AfterBytes :: SizeSpec
  fin_AfterTime :: DurationSpec

record StreamFinishConfig =
  fi_Mode :: string
  fi_Fin :: StreamFINConfig
  CompletePercent :: int
  FinPercent :: int

record StreamMultipartConfig =
  mp_Fields :: "string list"
  mp_Filename :: "string list"
  mp_FilesEnabled :: bool
  mp_FilesSet :: bool
  mp_AllowEmpty :: bool
  mp_IsSet :: bool

record StreamFallbackConfig =
  fb_Body :: string
  fb_BodyFile :: string
  fb_From :: string
  fb_RawFilename :: "string list"
  fb_RawEnabled :: bool
  fb_RawSet :: bool

record StreamConfig =
  sc_Fallback :: StreamFallbackConfig
  sc_Source :: StreamSourceConfig
  sc_Parts :: "StreamPartConfig list"
  sc_From :: string
  sc_Body :: string
  sc_BodyFile :: string
  sc_Multipart :: StreamMultipartConfig
  sc_Send :: StreamSendConfig
  sc_Throttle :: StreamThrottleConfig
  sc_End :: StreamEndConfig
  sc_Finish :: StreamFinishConfig
  sc_Chunks :: StreamChunksConfig
  sc_Duration :: DurationSpec
  sc_PartsSet :: bool

definition streamSourceRequestBody :: string where "streamSourceRequestBody = ''request_body''"
definition streamSourceResponseBody :: string where "streamSourceResponseBody = ''response_body''"
definition streamSourceRequestHTTPBody :: string where "streamSourceRequestHTTPBody = ''request_http_body''"
definition streamSourceResponseHTTPBody :: string where "streamSourceResponseHTTPBody = ''response_http_body''"
definition streamSourceAdaptedHTTPBody :: string where "streamSourceAdaptedHTTPBody = ''adapted_http_body''"
definition streamSourceBody :: string where "streamSourceBody = ''body''"
definition streamSourceBodyFile :: string where "streamSourceBodyFile = ''body_file''"
definition streamFinishComplete :: string where "streamFinishComplete = ''complete''"
definition streamFinishFIN :: string where "streamFinishFIN = ''fin''"
definition streamFinishTerm :: string where "streamFinishTerm = ''term''"
definition streamFinishWeighted :: string where "streamFinishWeighted = ''weighted''"

lemmas stream_consts = streamSourceRequestBody_def streamSourceResponseBody_def streamSourceRequestHTTPBody_def
  streamSourceResponseHTTPBody_def streamSourceAdaptedHTTPBody_def streamSourceBody_def streamSourceBodyFile_def
  streamFinishComplete_def streamFinishFIN_def streamFinishTerm_def streamFinishWeighted_def

section \<open>Normalisation\<close>

definition boolCount :: "bool list \<Rightarrow> nat" where
  "boolCount vs = length (filter id vs)"

definition countPartSources :: "StreamPartConfig \<Rightarrow> nat" where
  "countPartSources part =
     (if src_From part = streamSourceBody \<and> src_Body part \<noteq> [] \<and> src_BodyFile part = [] then 1
      else if src_From part = streamSourceBodyFile \<and> src_BodyFile part \<noteq> [] \<and> src_Body part = [] then 1
      else boolCount [src_From part \<noteq> [], src_Body part \<noteq> [], src_BodyFile part \<noteq> []])"

definition countFallbackSources :: "StreamFallbackConfig \<Rightarrow> nat" where
  "countFallbackSources f = boolCount [fb_RawSet f, fb_Body f \<noteq> [], fb_BodyFile f \<noteq> [], fb_From f \<noteq> []]"

definition hasTopLevelStreamSource :: "StreamConfig \<Rightarrow> bool" where
  "hasTopLevelStreamSource s \<longleftrightarrow> sc_From s \<noteq> [] \<or> sc_Body s \<noteq> [] \<or> sc_BodyFile s \<noteq> []"

definition streamSourceEmpty :: "StreamSourceConfig \<Rightarrow> bool" where
  "streamSourceEmpty src \<longleftrightarrow> src_From src = [] \<and> src_Body src = [] \<and> src_BodyFile src = []"

definition normalizeStreamPart :: "StreamPartConfig \<Rightarrow> go_error + StreamPartConfig" where
  "normalizeStreamPart part =
     (if countPartSources part \<noteq> 1
      then Inl (ErrNew ''each part must specify exactly one of from, body, or body_file'')
      else (let p1 = (if src_Body part \<noteq> [] then part\<lparr>src_From := streamSourceBody\<rparr> else part);
                p2 = (if src_BodyFile p1 \<noteq> [] then p1\<lparr>src_From := streamSourceBodyFile\<rparr> else p1)
            in Inr p2))"

fun normalizeParts_from :: "nat \<Rightarrow> StreamPartConfig list \<Rightarrow> go_error + StreamPartConfig list" where
  "normalizeParts_from i [] = Inr []"
| "normalizeParts_from i (p # ps) =
     (case normalizeStreamPart p of
        Inl e \<Rightarrow> Inl (ErrWrap (''parts['' @ go_Itoa (int i) @ '']: '') e)
      | Inr p' \<Rightarrow> map_sum id (\<lambda>ps'. p' # ps') (normalizeParts_from (Suc i) ps))"

definition normalizeStreamParts :: "StreamPartConfig list \<Rightarrow> go_error + StreamPartConfig list" where
  "normalizeStreamParts parts =
     (if parts = [] then Inl (ErrNew ''stream.parts must not be empty'') else normalizeParts_from 0 parts)"

definition normalizeSingleStreamSource :: "StreamSourceConfig \<Rightarrow> StreamSourceConfig" where
  "normalizeSingleStreamSource src =
     (let s1 = (if src_From src = [] \<and> src_Body src \<noteq> [] then src\<lparr>src_From := streamSourceBody\<rparr> else src)
      in if src_From s1 = [] \<and> src_BodyFile s1 \<noteq> [] then s1\<lparr>src_From := streamSourceBodyFile\<rparr> else s1)"

definition normalizeStreamSourceShape :: "StreamConfig \<Rightarrow> go_error + StreamConfig" where
  "normalizeStreamSourceShape s =
     (if sc_Parts s \<noteq> [] then map_sum id (\<lambda>ps. s\<lparr>sc_Parts := ps\<rparr>) (normalizeStreamParts (sc_Parts s))
      else (let src = (if streamSourceEmpty (sc_Source s)
                       then \<lparr>src_From = sc_From s, src_Body = sc_Body s, src_BodyFile = sc_BodyFile s\<rparr>
                       else sc_Source s)
            in Inr (s\<lparr>sc_Source := normalizeSingleStreamSource src\<rparr>)))"

definition normalizeStreamConfig :: "StreamConfig \<Rightarrow> go_error + StreamConfig" where
  "normalizeStreamConfig s =
     (if sc_PartsSet s \<and> sc_Parts s = [] then Inl (ErrNew ''stream.parts must not be empty'')
      else if hasTopLevelStreamSource s \<and> \<not> streamSourceEmpty (sc_Source s)
      then Inl (ErrNew ''stream top-level source and source block are mutually exclusive'')
      else if sc_PartsSet s \<and> (\<not> streamSourceEmpty (sc_Source s) \<or> hasTopLevelStreamSource s)
      then Inl (ErrNew ''stream.from and stream.parts are mutually exclusive'')
      else map_sum id (\<lambda>s'. s'\<lparr>sc_From := [], sc_Body := [], sc_BodyFile := []\<rparr>) (normalizeStreamSourceShape s))"

section \<open>Validation\<close>

definition methodSetAllows :: "string list \<Rightarrow> string \<Rightarrow> bool" where
  "methodSetAllows methods m \<longleftrightarrow> list_ex (\<lambda>item. go_EqualFold item m) methods"

definition hasImplicitAnyMethod :: "string list \<Rightarrow> bool" where
  "hasImplicitAnyMethod methods \<longleftrightarrow> methods = [] \<or> methodSetAllows methods ''*''"

definition validateBodyStreamMethods :: "string list \<Rightarrow> string \<Rightarrow> string \<Rightarrow> go_error option" where
  "validateBodyStreamMethods methods required source =
     (if hasImplicitAnyMethod methods
      then Some (ErrNew (''source.'' @ source @ '' requires an explicit '' @ required @ '' scenario method''))
      else if list_ex (\<lambda>m. \<not> go_EqualFold m required) methods
      then Some (ErrNew (''source.'' @ source @ '' requires only '' @ required @ '' scenario methods''))
      else None)"

definition validateAdaptedHTTPBodyMethods :: "string list \<Rightarrow> go_error option" where
  "validateAdaptedHTTPBodyMethods methods =
     (if hasImplicitAnyMethod methods
      then Some (ErrNew (''source.'' @ streamSourceAdaptedHTTPBody @ '' requires explicit REQMOD and/or RESPMOD scenario methods''))
      else (case find (\<lambda>m. \<not> go_EqualFold m MethodREQMOD \<and> \<not> go_EqualFold m MethodRESPMOD) methods of
        Some m \<Rightarrow> Some (ErrNew (''source.'' @ streamSourceAdaptedHTTPBody @ '' does not support '' @ m @ '' scenario methods''))
      | None \<Rightarrow> None))"

definition validateStreamSourceMethods :: "string \<Rightarrow> string list \<Rightarrow> go_error option" where
  "validateStreamSourceMethods source methods =
     (if source \<in> {streamSourceRequestBody, streamSourceRequestHTTPBody}
      then validateBodyStreamMethods methods MethodREQMOD source
      else if source \<in> {streamSourceResponseBody, streamSourceResponseHTTPBody}
      then validateBodyStreamMethods methods MethodRESPMOD source
      else if source = streamSourceAdaptedHTTPBody then validateAdaptedHTTPBodyMethods methods
      else if hasImplicitAnyMethod methods then None
      else if \<not> methodSetAllows methods MethodREQMOD \<and> \<not> methodSetAllows methods MethodRESPMOD
      then Some (ErrNew ''stream requires a REQMOD or RESPMOD scenario'')
      else None)"

definition validateStreamSource :: "(string \<Rightarrow> go_error option) \<Rightarrow> StreamSourceConfig \<Rightarrow> go_error option" where
  "validateStreamSource stat src =
     (if src_From src \<in> {streamSourceRequestBody, streamSourceResponseBody, streamSourceRequestHTTPBody,
                          streamSourceResponseHTTPBody, streamSourceAdaptedHTTPBody}
      then (if src_Body src \<noteq> [] \<or> src_BodyFile src \<noteq> []
            then Some (ErrNew (''source.'' @ src_From src @ '' cannot be combined with source.body or source.body_file''))
            else None)
      else if src_From src = streamSourceBody
      then (if src_Body src = [] then Some (ErrNew ''source.body is required when source.from is body'')
            else if src_BodyFile src \<noteq> [] then Some (ErrNew ''source.body_file is not allowed when source.from is body'')
            else None)
      else if src_From src = streamSourceBodyFile
      then (if src_Body src \<noteq> [] then Some (ErrNew ''source.body is not allowed when source.from is body_file'')
            else if src_BodyFile src = [] then Some (ErrNew ''source.body_file is required when source.from is body_file'')
            else stat (src_BodyFile src))
      else Some (ErrNew (''unsupported source.from '' @ go_Quote (src_From src))))"

definition validateStreamSourceWithMethods ::
  "(string \<Rightarrow> go_error option) \<Rightarrow> StreamSourceConfig \<Rightarrow> string list \<Rightarrow> go_error option" where
  "validateStreamSourceWithMethods stat src methods =
     (case validateStreamSource stat src of
        Some e \<Rightarrow> Some e
      | None \<Rightarrow> validateStreamSourceMethods (src_From src) methods)"

definition validateStreamPart :: "(string \<Rightarrow> go_error option) \<Rightarrow> StreamPartConfig \<Rightarrow> string list \<Rightarrow> go_error option" where
  "validateStreamPart stat part methods = validateStreamSourceWithMethods stat part methods"

fun validateParts_from :: "(string \<Rightarrow> go_error option) \<Rightarrow> nat \<Rightarrow> StreamPartConfig list \<Rightarrow> string list \<Rightarrow> go_error option" where
  "validateParts_from stat i [] methods = None"
| "validateParts_from stat i (p # ps) methods =
     (case validateStreamPart stat p methods of
        Some e \<Rightarrow> Some (ErrWrap (''parts['' @ go_Itoa (int i) @ '']: '') e)
      | None \<Rightarrow> validateParts_from stat (Suc i) ps methods)"

definition validateStreamSources :: "(string \<Rightarrow> go_error option) \<Rightarrow> StreamConfig \<Rightarrow> string list \<Rightarrow> go_error option" where
  "validateStreamSources stat s methods =
     (if sc_Parts s = [] then validateStreamSourceWithMethods stat (sc_Source s) methods
      else validateParts_from stat 0 (sc_Parts s) methods)"

fun validateRegexList :: "(string \<Rightarrow> go_error + 're) \<Rightarrow> string \<Rightarrow> string list \<Rightarrow> go_error option" where
  "validateRegexList recompile name [] = None"
| "validateRegexList recompile name (p # ps) =
     (case recompile p of
        Inl e \<Rightarrow> Some (ErrWrap (name @ '' '' @ go_Quote p @ '' is invalid: '') e)
      | Inr _ \<Rightarrow> validateRegexList recompile name ps)"

definition streamSourceSupportsMultipart :: "string \<Rightarrow> bool" where
  "streamSourceSupportsMultipart source \<longleftrightarrow>
     source = streamSourceRequestHTTPBody \<or> source = streamSourceResponseHTTPBody \<or> source = streamSourceAdaptedHTTPBody"

definition streamSourceCanFallbackFrom :: "string \<Rightarrow> bool" where
  "streamSourceCanFallbackFrom source \<longleftrightarrow>
     source = streamSourceRequestBody \<or> source = streamSourceResponseBody \<or>
     source = streamSourceRequestHTTPBody \<or> source = streamSourceResponseHTTPBody \<or> source = streamSourceAdaptedHTTPBody"

definition validateStreamMultipart :: "(string \<Rightarrow> go_error + 're) \<Rightarrow> StreamConfig \<Rightarrow> go_error option" where
  "validateStreamMultipart recompile s =
     (if \<not> mp_IsSet (sc_Multipart s) then None
      else if sc_Parts s \<noteq> [] \<or> \<not> streamSourceSupportsMultipart (src_From (sc_Source s))
      then Some (ErrNew ''multipart is only allowed with request_http_body, response_http_body, or adapted_http_body'')
      else validateRegexList recompile ''multipart.files.filename'' (mp_Filename (sc_Multipart s)))"

definition Fallback_IsSet :: "StreamFallbackConfig \<Rightarrow> bool" where
  "Fallback_IsSet f \<longleftrightarrow> fb_RawSet f \<or> fb_Body f \<noteq> [] \<or> fb_BodyFile f \<noteq> [] \<or> fb_From f \<noteq> []"

definition validateFallbackShape :: "StreamFallbackConfig \<Rightarrow> go_error option" where
  "validateFallbackShape f =
     (if countFallbackSources f \<noteq> 1
      then Some (ErrNew ''fallback must specify exactly one of raw_file, body, body_file, or from'')
      else if fb_From f \<noteq> [] \<and> \<not> streamSourceCanFallbackFrom (fb_From f)
      then Some (ErrNew (''unsupported fallback.from '' @ go_Quote (fb_From f)))
      else None)"

definition validateStreamFallback ::
  "(string \<Rightarrow> go_error option) \<Rightarrow> (string \<Rightarrow> go_error + 're) \<Rightarrow> StreamFallbackConfig \<Rightarrow> string list \<Rightarrow> go_error option" where
  "validateStreamFallback stat recompile f methods =
     (if \<not> Fallback_IsSet f then None
      else (case validateFallbackShape f of
        Some e \<Rightarrow> Some e
      | None \<Rightarrow>
          (case validateRegexList recompile ''fallback.raw_file.filename'' (fb_RawFilename f) of
             Some e \<Rightarrow> Some e
           | None \<Rightarrow>
               if fb_From f \<noteq> [] then validateStreamSourceMethods (fb_From f) methods
               else if fb_BodyFile f \<noteq> [] then stat (fb_BodyFile f)
               else None)))"

subsection \<open>Timing and the end of the stream\<close>

definition validateStreamTiming :: "StreamConfig \<Rightarrow> go_error option" where
  "validateStreamTiming s =
     (if sz_IsSet (chunks_Size (sc_Chunks s)) \<and> sz_Min (chunks_Size (sc_Chunks s)) \<le> 0
      then Some (ErrNew ''chunks.size must be positive'')
      else if du_IsSet (chunks_Delay (sc_Chunks s)) \<and> du_IsSet (sc_Duration s)
      then Some (ErrNew ''chunks.delay and duration are mutually exclusive'')
      else None)"

definition hasFinishFINConfig :: "StreamFINConfig \<Rightarrow> bool" where
  "hasFinishFINConfig fin \<longleftrightarrow> fin_Close fin \<noteq> [] \<or> sz_IsSet (fin_AfterBytes fin) \<or> du_IsSet (fin_AfterTime fin)"

definition validFinishMode :: "string \<Rightarrow> bool" where
  "validFinishMode m \<longleftrightarrow> m = streamFinishComplete \<or> m = streamFinishFIN \<or> m = streamFinishTerm \<or> m = streamFinishWeighted"

definition validateFINConfig :: "StreamFINConfig \<Rightarrow> go_error option" where
  "validateFINConfig fin =
     (if fin_Close fin \<noteq> [] \<and> fin_Close fin \<noteq> ''clean'' then Some (ErrNew ''finish.fin.close must be clean'')
      else if sz_IsSet (fin_AfterBytes fin) \<and> sz_Min (fin_AfterBytes fin) \<le> 0
      then Some (ErrNew ''finish.fin.after.bytes must be positive'')
      else None)"

definition validatePercentages :: "StreamFinishConfig \<Rightarrow> go_error option" where
  "validatePercentages f =
     (if \<not> validPercent (CompletePercent f) \<or> \<not> validPercent (FinPercent f)
      then Some (ErrNew ''finish percentages must be between 0 and 100'')
      else if fi_Mode f = streamFinishWeighted \<and> wrap64 (CompletePercent f + FinPercent f) \<noteq> 100
      then Some (ErrNew ''weighted finish percentages must sum to 100'')
      else None)"

definition validateTermFinish :: "go_error option" where
  "validateTermFinish = Some (ErrNew ''finish.mode term requires send/throttle/end controls'')"

definition validateCompleteFinish :: "StreamFinishConfig \<Rightarrow> go_error option" where
  "validateCompleteFinish f =
     (if hasFinishFINConfig (fi_Fin f) then Some (ErrNew ''finish.fin is only allowed for fin or weighted finish modes'')
      else if CompletePercent f \<noteq> 0 \<or> FinPercent f \<noteq> 0
      then Some (ErrNew ''finish percentages are only allowed for weighted finish mode'')
      else None)"

definition validateFINFinish :: "StreamFinishConfig \<Rightarrow> go_error option" where
  "validateFINFinish f =
     (if CompletePercent f \<noteq> 0 \<or> FinPercent f \<noteq> 0
      then Some (ErrNew ''finish percentages are only allowed for weighted finish mode'')
      else validateFINConfig (fi_Fin f))"

definition validateWeightedFinish :: "StreamFinishConfig \<Rightarrow> go_error option" where
  "validateWeightedFinish f =
     (case validatePercentages f of
        Some e \<Rightarrow> Some e
      | None \<Rightarrow>
          if 0 < FinPercent f \<and> \<not> hasFinishFINConfig (fi_Fin f)
          then Some (ErrNew ''weighted finish with fin_percent requires finish.fin configuration'')
          else validateFINConfig (fi_Fin f))"

definition validateStreamFinish :: "StreamConfig \<Rightarrow> go_error + StreamConfig" where
  "validateStreamFinish s =
     (let f = (if fi_Mode (sc_Finish s) = [] then (sc_Finish s)\<lparr>fi_Mode := streamFinishComplete\<rparr> else sc_Finish s);
          s' = s\<lparr>sc_Finish := f\<rparr>;
          err = (if \<not> validFinishMode (fi_Mode f) then Some (ErrNew ''finish.mode must be complete, fin, term, or weighted'')
                 else if fi_Mode f = streamFinishComplete then validateCompleteFinish f
                 else if fi_Mode f = streamFinishFIN then validateFINFinish f
                 else if fi_Mode f = streamFinishTerm then validateTermFinish
                 else validateWeightedFinish f)
      in case err of Some e \<Rightarrow> Inl e | None \<Rightarrow> Inr s')"

definition newStreamEndMode :: "StreamEndConfig \<Rightarrow> string" where
  "newStreamEndMode e = (if end_Mode e = [] then streamFinishComplete else end_Mode e)"

definition partialNewEndMode :: "string \<Rightarrow> bool" where
  "partialNewEndMode m \<longleftrightarrow> m = streamFinishFIN \<or> m = streamFinishTerm"

definition validNewEndMode :: "string \<Rightarrow> bool" where
  "validNewEndMode m \<longleftrightarrow> m = streamFinishComplete \<or> partialNewEndMode m"

definition partialPercentSpec :: "PercentSpec \<Rightarrow> bool" where
  "partialPercentSpec p \<longleftrightarrow> 1 \<le> pc_Min p \<and> pc_Max p \<le> 99"

definition positiveDurationSpec :: "DurationSpec \<Rightarrow> bool" where
  "positiveDurationSpec d \<longleftrightarrow> du_IsSet d \<and> 0 < du_Max d"

definition newFINHasPacing :: "StreamConfig \<Rightarrow> bool" where
  "newFINHasPacing s \<longleftrightarrow> positiveDurationSpec (send_Duration (sc_Send s)) \<or> positiveDurationSpec (Every (sc_Throttle s))"

definition hasNewStreamControls :: "StreamConfig \<Rightarrow> bool" where
  "hasNewStreamControls s \<longleftrightarrow>
     send_IsSet (sc_Send s) \<or> throttle_IsSet (sc_Throttle s) \<or> end_IsSet (sc_End s) \<or>
     pc_IsSet (send_Percent (sc_Send s)) \<or> du_IsSet (send_Duration (sc_Send s)) \<or>
     sz_IsSet (TargetChunkSize (sc_Throttle s)) \<or> targetChunksSet (sc_Throttle s) \<or>
     TargetChunks (sc_Throttle s) \<noteq> 0 \<or> du_IsSet (Every (sc_Throttle s)) \<or> end_Mode (sc_End s) \<noteq> []"

definition hasLegacyFinishConfig :: "StreamFinishConfig \<Rightarrow> bool" where
  "hasLegacyFinishConfig f \<longleftrightarrow>
     fi_Mode f \<noteq> [] \<or> hasFinishFINConfig (fi_Fin f) \<or> CompletePercent f \<noteq> 0 \<or> FinPercent f \<noteq> 0"

definition hasLegacyChunksConfig :: "StreamChunksConfig \<Rightarrow> bool" where
  "hasLegacyChunksConfig c \<longleftrightarrow> sz_IsSet (chunks_Size c) \<or> du_IsSet (chunks_Delay c)"

definition validateNewStreamConflicts :: "StreamConfig \<Rightarrow> go_error option" where
  "validateNewStreamConflicts s =
     (if \<not> hasNewStreamControls s then None
      else if du_IsSet (sc_Duration s) then Some (ErrNew ''send/throttle/end and duration are mutually exclusive'')
      else if hasLegacyChunksConfig (sc_Chunks s) then Some (ErrNew ''send/throttle/end and chunks are mutually exclusive'')
      else if hasLegacyFinishConfig (sc_Finish s) then Some (ErrNew ''send/throttle/end and finish are mutually exclusive'')
      else None)"

definition validateThrottleTargets :: "StreamThrottleConfig \<Rightarrow> go_error option" where
  "validateThrottleTargets t =
     (let tcs = (targetChunksSet t \<or> TargetChunks t \<noteq> 0) in
      if tcs \<and> TargetChunks t \<le> 0 then Some (ErrNew ''throttle.target_chunks must be positive'')
      else if sz_IsSet (TargetChunkSize t) \<and> sz_Min (TargetChunkSize t) \<le> 0
      then Some (ErrNew ''throttle.target_chunk_size must be positive'')
      else if sz_IsSet (TargetChunkSize t) \<and> tcs
      then Some (ErrNew ''throttle.target_chunk_size and throttle.target_chunks are mutually exclusive'')
      else None)"

definition validatePartialEndControls :: "StreamConfig \<Rightarrow> string \<Rightarrow> go_error option" where
  "validatePartialEndControls s mode =
     (if \<not> pc_IsSet (send_Percent (sc_Send s)) then Some (ErrNew (''end.mode '' @ mode @ '' requires send.percent''))
      else if \<not> partialPercentSpec (send_Percent (sc_Send s))
      then Some (ErrNew (''send.percent for '' @ mode @ '' must be between 1 and 99''))
      else if \<not> newFINHasPacing s
      then Some (ErrNew (''end.mode '' @ mode @ '' requires send.duration or throttle.every''))
      else None)"

definition validateNewStreamControls :: "StreamConfig \<Rightarrow> go_error option" where
  "validateNewStreamControls s =
     (case validateThrottleTargets (sc_Throttle s) of
        Some e \<Rightarrow> Some e
      | None \<Rightarrow>
          (let mode = newStreamEndMode (sc_End s) in
           if \<not> validNewEndMode mode then Some (ErrNew ''end.mode must be complete, fin, or term'')
           else if partialNewEndMode mode then validatePartialEndControls s mode
           else if pc_IsSet (send_Percent (sc_Send s))
           then Some (ErrNew ''send.percent is only allowed when end.mode is fin or term'')
           else None))"

definition validateStreamControls :: "StreamConfig \<Rightarrow> go_error + StreamConfig" where
  "validateStreamControls s =
     (case validateNewStreamConflicts s of
        Some e \<Rightarrow> Inl e
      | None \<Rightarrow>
          if hasNewStreamControls s
          then (case validateNewStreamControls s of Some e \<Rightarrow> Inl e | None \<Rightarrow> Inr s)
          else (case validateStreamTiming s of Some e \<Rightarrow> Inl e | None \<Rightarrow> validateStreamFinish s))"

definition validateStreamConfig ::
  "(string \<Rightarrow> go_error option) \<Rightarrow> (string \<Rightarrow> go_error + 're) \<Rightarrow> StreamConfig \<Rightarrow> string list \<Rightarrow> go_error + StreamConfig" where
  "validateStreamConfig stat recompile s methods =
     (case normalizeStreamConfig s of
        Inl e \<Rightarrow> Inl e
      | Inr s1 \<Rightarrow>
          (case validateStreamSources stat s1 methods of
             Some e \<Rightarrow> Inl e
           | None \<Rightarrow>
               (case validateStreamMultipart recompile s1 of
                  Some e \<Rightarrow> Inl e
                | None \<Rightarrow>
                    (case validateStreamFallback stat recompile (sc_Fallback s1) methods of
                       Some e \<Rightarrow> Inl e
                     | None \<Rightarrow> validateStreamControls s1))))"

definition validateStreamHTTPBodyConflict :: "string \<Rightarrow> string \<Rightarrow> go_error option" where
  "validateStreamHTTPBodyConflict httpBody httpBodyFile =
     (if httpBody = [] \<and> httpBodyFile = [] then None
      else Some (ErrNew ''stream cannot be combined with http_body or http_body_file''))"

section \<open>What an accepted configuration looks like\<close>

definition one_source :: "StreamSourceConfig \<Rightarrow> bool" where
  "one_source src \<longleftrightarrow>
     streamSourceCanFallbackFrom (src_From src) \<and> src_Body src = [] \<and> src_BodyFile src = [] \<or>
     src_From src = streamSourceBody \<and> src_Body src \<noteq> [] \<and> src_BodyFile src = [] \<or>
     src_From src = streamSourceBodyFile \<and> src_Body src = [] \<and> src_BodyFile src \<noteq> []"

lemma validateStreamSource_one: "validateStreamSource stat src = None \<Longrightarrow> one_source src"
  by (auto simp: validateStreamSource_def one_source_def streamSourceCanFallbackFrom_def split: if_splits)

lemma validateParts_one: "validateParts_from stat i ps methods = None \<Longrightarrow> \<forall>p \<in> set ps. one_source p"
  by (induction ps arbitrary: i)
     (auto simp: validateStreamPart_def validateStreamSourceWithMethods_def dest!: validateStreamSource_one split: option.splits)

lemma normalizeStreamPart_idem: "normalizeStreamPart p = Inr p' \<Longrightarrow> normalizeStreamPart p' = Inr p'"
  by (auto simp: normalizeStreamPart_def countPartSources_def boolCount_def stream_consts Let_def split: if_splits)

lemma normalizeParts_idem: "normalizeParts_from i ps = Inr ps' \<Longrightarrow> normalizeParts_from j ps' = Inr ps' \<and> (ps' = [] \<longleftrightarrow> ps = [])"
proof (induction ps arbitrary: i j ps')
  case (Cons p ps)
  then obtain p' qs where p: "normalizeStreamPart p = Inr p'" "normalizeParts_from (Suc i) ps = Inr qs" "ps' = p' # qs"
    by (cases "normalizeStreamPart p"; cases "normalizeParts_from (Suc i) ps") auto
  with Cons.IH [OF p(2)] normalizeStreamPart_idem [OF p(1)] show ?case by simp
qed simp

lemma normalizeSingle_idem [simp]:
  "normalizeSingleStreamSource (normalizeSingleStreamSource src) = normalizeSingleStreamSource src"
  by (simp add: normalizeSingleStreamSource_def Let_def stream_consts)

lemma normalizeStreamConfig_idem:
  assumes "normalizeStreamConfig s = Inr s1"
  shows "normalizeStreamConfig (s1\<lparr>sc_Finish := f\<rparr>) = Inr (s1\<lparr>sc_Finish := f\<rparr>)"
proof (cases "sc_Parts s = []")
  case True
  have e: "(if streamSourceEmpty src then \<lparr>src_From = [], src_Body = [], src_BodyFile = []\<rparr> else src) = src" for src
    by (simp add: streamSourceEmpty_def)
  obtain src where s1: "s1 = s\<lparr>sc_Source := normalizeSingleStreamSource src, sc_From := [], sc_Body := [], sc_BodyFile := []\<rparr>"
    and ps: "\<not> sc_PartsSet s"
    using assms True by (auto simp: normalizeStreamConfig_def normalizeStreamSourceShape_def Let_def split: if_splits)
  let ?n = "normalizeSingleStreamSource src"
  have "(if streamSourceEmpty ?n then \<lparr>src_From = [], src_Body = [], src_BodyFile = []\<rparr> else ?n) = ?n" by (rule e)
  then have "normalizeStreamSourceShape (s1\<lparr>sc_Finish := f\<rparr>) = Inr (s1\<lparr>sc_Finish := f\<rparr>)"
    using True by (simp add: s1 normalizeStreamSourceShape_def Let_def cong: if_cong split del: if_split)
  then show ?thesis using True ps by (simp add: s1 normalizeStreamConfig_def hasTopLevelStreamSource_def)
next
  case False
  then obtain ps where ps: "normalizeParts_from 0 (sc_Parts s) = Inr ps" "s1 = s\<lparr>sc_Parts := ps, sc_From := [], sc_Body := [], sc_BodyFile := []\<rparr>"
    using assms by (cases "normalizeParts_from 0 (sc_Parts s)")
      (auto simp: normalizeStreamConfig_def normalizeStreamSourceShape_def normalizeStreamParts_def split: if_splits)
  then show ?thesis using assms False normalizeParts_idem [OF ps(1), of 0]
    by (auto simp: normalizeStreamConfig_def normalizeStreamSourceShape_def normalizeStreamParts_def
        hasTopLevelStreamSource_def split: if_splits)
qed

lemma validateStreamFinish_cases:
  assumes "validateStreamFinish s = Inr s'"
  shows "\<exists>f. s' = s\<lparr>sc_Finish := f\<rparr> \<and> validateStreamFinish s' = Inr s'"
proof -
  define f where "f = (if fi_Mode (sc_Finish s) = [] then (sc_Finish s)\<lparr>fi_Mode := streamFinishComplete\<rparr> else sc_Finish s)"
  have s': "s' = s\<lparr>sc_Finish := f\<rparr>"
    using assms by (simp add: validateStreamFinish_def f_def [symmetric] Let_def split: option.splits)
  have "fi_Mode f \<noteq> []" by (simp add: f_def streamFinishComplete_def)
  then have "validateStreamFinish s' = Inr s'"
    using assms by (simp add: s' validateStreamFinish_def f_def [symmetric] Let_def split: option.splits)
  with s' show ?thesis by blast
qed

lemma validateStreamControls_idem:
  assumes "validateStreamControls s = Inr s'"
  shows "\<exists>f. s' = s\<lparr>sc_Finish := f\<rparr> \<and> validateStreamControls s' = Inr s'"
proof (cases "hasNewStreamControls s")
  case True
  then show ?thesis using assms
    by (intro exI [of _ "sc_Finish s"]) (auto simp: validateStreamControls_def split: option.splits)
next
  case False
  then have v: "validateStreamFinish s = Inr s'" "validateStreamTiming s = None"
    using assms by (auto simp: validateStreamControls_def split: option.splits)
  obtain f where f: "s' = s\<lparr>sc_Finish := f\<rparr>" "validateStreamFinish s' = Inr s'" using validateStreamFinish_cases [OF v(1)] by blast
  have "\<not> hasNewStreamControls s'" "validateStreamTiming s' = None"
    using False v(2) by (auto simp: f(1) hasNewStreamControls_def validateStreamTiming_def split: if_splits)
  then show ?thesis using f by (auto simp: validateStreamControls_def validateNewStreamConflicts_def intro: exI [of _ f])
qed

section \<open>Properties\<close>

text \<open>
  \<^bold>\<open>Stream configurations.\<close>  A configuration that validation accepts, as validation leaves it, names its bytes exactly
  once: either it has parts, each with exactly one source, or one source, of a known kind with the body or file
  that kind requires and nothing else, and the shorthand fields are empty.  A stream that is to stop early (\<open>end.mode\<close> \<open>fin\<close> or \<open>term\<close>) says how
  much to send, between 1 and 99 percent, and is paced; the old and the new controls are never mixed.
  Validating the result again, as happens when templates share a configuration, accepts it and changes nothing.
\<close>

theorem stream_config_accepted:
  assumes "validateStreamConfig stat recompile s methods = Inr s'"
  shows "(if sc_Parts s' = [] then one_source (sc_Source s') else (\<forall>p \<in> set (sc_Parts s'). one_source p)) \<and>
    sc_From s' = [] \<and> sc_Body s' = [] \<and> sc_BodyFile s' = [] \<and>
    (hasNewStreamControls s' \<longrightarrow> \<not> du_IsSet (sc_Duration s') \<and> \<not> hasLegacyChunksConfig (sc_Chunks s') \<and>
       \<not> hasLegacyFinishConfig (sc_Finish s')) \<and>
    (hasNewStreamControls s' \<and> end_Mode (sc_End s') \<notin> {[], streamFinishComplete} \<longrightarrow>
       1 \<le> pc_Min (send_Percent (sc_Send s')) \<and> pc_Max (send_Percent (sc_Send s')) \<le> 99 \<and> newFINHasPacing s') \<and>
    validateStreamConfig stat recompile s' methods = Inr s'"
proof -
  obtain s1 where n: "normalizeStreamConfig s = Inr s1" and src: "validateStreamSources stat s1 methods = None"
    and mp: "validateStreamMultipart recompile s1 = None" and fb: "validateStreamFallback stat recompile (sc_Fallback s1) methods = None"
    and ct: "validateStreamControls s1 = Inr s'"
    using assms by (auto simp: validateStreamConfig_def split: sum.splits option.splits)
  obtain f where f: "s' = s1\<lparr>sc_Finish := f\<rparr>" "validateStreamControls s' = Inr s'" using validateStreamControls_idem [OF ct] by blast
  have sources: "if sc_Parts s' = [] then one_source (sc_Source s') else (\<forall>p \<in> set (sc_Parts s'). one_source p)"
    using src validateStreamSource_one validateParts_one
    by (auto simp: f(1) validateStreamSources_def validateStreamSourceWithMethods_def split: if_splits option.splits)
  have top: "sc_From s' = []" "sc_Body s' = []" "sc_BodyFile s' = []"
    using n by (auto simp: f(1) normalizeStreamConfig_def map_sum_def split: if_splits sum.splits)
  have new: "hasNewStreamControls s' \<Longrightarrow> validateNewStreamConflicts s' = None \<and> validateNewStreamControls s' = None"
    using f(2) by (auto simp: validateStreamControls_def split: option.splits)
  have "validateStreamSources stat s' methods = validateStreamSources stat s1 methods"
    "validateStreamMultipart recompile s' = validateStreamMultipart recompile s1" "sc_Fallback s' = sc_Fallback s1"
    by (simp_all add: f(1) validateStreamSources_def validateStreamMultipart_def)
  then have again: "validateStreamConfig stat recompile s' methods = Inr s'"
    using normalizeStreamConfig_idem [OF n, of f] src mp fb f by (simp add: validateStreamConfig_def)
  show ?thesis
    using sources top again new
    by (auto simp: validateNewStreamConflicts_def validateNewStreamControls_def validNewEndMode_def newStreamEndMode_def
        validatePartialEndControls_def partialPercentSpec_def Let_def split: if_splits option.splits)
qed

definition plain_stream :: StreamConfig where
  "plain_stream =
     \<lparr>sc_Fallback = \<lparr>fb_Body = [], fb_BodyFile = [], fb_From = [], fb_RawFilename = [], fb_RawEnabled = False, fb_RawSet = False\<rparr>,
      sc_Source = \<lparr>src_From = [], src_Body = [], src_BodyFile = []\<rparr>, sc_Parts = [],
      sc_From = [], sc_Body = ''hello'', sc_BodyFile = [],
      sc_Multipart = \<lparr>mp_Fields = [], mp_Filename = [], mp_FilesEnabled = False, mp_FilesSet = False, mp_AllowEmpty = False,
                       mp_IsSet = False\<rparr>,
      sc_Send = \<lparr>send_Percent = \<lparr>pc_Min = 50, pc_Max = 60, pc_IsSet = True\<rparr>,
                  send_Duration = \<lparr>du_Min = 1, du_Max = 2, du_IsSet = True\<rparr>, send_IsSet = True\<rparr>,
      sc_Throttle = \<lparr>TargetChunkSize = \<lparr>sz_Min = 0, sz_Max = 0, sz_IsSet = False\<rparr>,
                      Every = \<lparr>du_Min = 0, du_Max = 0, du_IsSet = False\<rparr>, TargetChunks = 0, throttle_IsSet = False,
                      targetChunksSet = False\<rparr>,
      sc_End = \<lparr>end_Mode = streamFinishFIN, end_IsSet = True\<rparr>,
      sc_Finish = \<lparr>fi_Mode = [], fi_Fin = \<lparr>fin_Close = [], fin_AfterBytes = \<lparr>sz_Min = 0, sz_Max = 0, sz_IsSet = False\<rparr>,
                                             fin_AfterTime = \<lparr>du_Min = 0, du_Max = 0, du_IsSet = False\<rparr>\<rparr>,
                    CompletePercent = 0, FinPercent = 0\<rparr>,
      sc_Chunks = \<lparr>chunks_Size = \<lparr>sz_Min = 0, sz_Max = 0, sz_IsSet = False\<rparr>,
                    chunks_Delay = \<lparr>du_Min = 0, du_Max = 0, du_IsSet = False\<rparr>\<rparr>,
      sc_Duration = \<lparr>du_Min = 0, du_Max = 0, du_IsSet = False\<rparr>, sc_PartsSet = False\<rparr>"

theorem stream_config_accepted_witness:
  "\<exists>s'. validateStreamConfig (\<lambda>_. None) (\<lambda>p. Inr p) plain_stream [MethodREQMOD] = Inr s' \<and>
     one_source (sc_Source s') \<and> sc_Body s' = [] \<and> newFINHasPacing s'"
proof -
  define s' where "s' = plain_stream\<lparr>sc_Body := [], sc_Source := \<lparr>src_From = streamSourceBody, src_Body = ''hello'', src_BodyFile = []\<rparr>\<rparr>"
  have v: "validateStreamConfig (\<lambda>_. None) (\<lambda>p. Inr p) plain_stream [MethodREQMOD] = Inr s'"
    unfolding s'_def by code_simp
  have "sc_Parts s' = []" "hasNewStreamControls s'" "end_Mode (sc_End s') \<notin> {[], streamFinishComplete}"
    unfolding s'_def by code_simp+
  then show ?thesis using stream_config_accepted [OF v] v by (intro exI [of _ s']) simp
qed

end
