(* ===== verification/Scenario_Match.thy ===== *)
theory Scenario_Match
  imports Stream_Config
begin

text \<open>
  Scenarios and how a request is matched against one (\<^verbatim>\<open>internal/storage/scenario.go\<close>): the structs
  with the regular expressions and matchers that validation has compiled, \<open>matchesScenario\<close> with everything it
  calls, and the choice of a branch.

  Regular expressions, media types and addresses come from Go's library (\<open>regexp\<close>, \<open>mime\<close>, \<open>net\<close>); a
  record \<open>golib\<close> of functions stands for what the code calls, so that everything below holds for any such functions.  The
  request is threaded through, because matching writes to it: the captures of an endpoint, the loaded
  body, and the branch.  \<open>ctx k\<close> is what \<open>ctx.Err()\<close> answers at the \<open>k\<close>-th check inside one \<open>matchesScenario\<close>.  \<^const>\<open>None\<close> as the
  outcome means that a body reader never ended.  A Go pointer to a scenario is compared by identity:
  the field \<open>s_addr\<close> is that identity.
\<close>

section \<open>Library functions the matcher calls\<close>

record ('re, 'net, 'ip) golib =
  re_MatchString :: "'re \<Rightarrow> string \<Rightarrow> bool"
  re_FindStringSubmatch :: "'re \<Rightarrow> string \<Rightarrow> string list option"
  re_SubexpNames :: "'re \<Rightarrow> string list"
  re_Compile :: "string \<Rightarrow> go_error + 're"
  mime_ParseMediaType :: "string \<Rightarrow> go_error + (string \<times> (string \<times> string) list)"
  net_ParseIP :: "string \<Rightarrow> 'ip option"
  net_ParseCIDR :: "string \<Rightarrow> go_error + 'net"
  net_Contains :: "'net \<Rightarrow> 'ip \<Rightarrow> bool"

section \<open>Scenarios\<close>

record 're compiledEndpoint =
  ce_re :: "'re option"
  ce_raw :: string
  ce_captures :: "string list"

record contentTypeMatcher =
  ct_parameters :: "(string \<times> string) list"
  ct_mediaType :: string

record compiledHeaderListMatcher =
  hl_mediaTypes :: "string list"
  hl_parameterized :: "contentTypeMatcher list"
  hl_contains :: "string list"
  hl_isContentType :: bool

record MatchRule =
  Routes :: "(string \<times> string list) list"
  Path :: string
  Paths :: "string list"
  Methods :: "string list"
  HTTPMethod :: string
  HTTPURL :: string
  mr_Headers :: "(string \<times> string) list"
  HeaderContains :: "(string \<times> string list) list"
  HTTPHeaders :: "(string \<times> string) list"
  HTTPHeaderContains :: "(string \<times> string list) list"
  BodyPattern :: string
  mr_ClientIP :: string
  CIDRRanges :: "string list"

record DelayConfig =
  dl_Min :: int
  dl_Max :: int
  dl_IsRange :: bool

record ResponseTemplate =
  rp_Headers :: "(string \<times> string) list"
  rp_HTTPHeaders :: "(string \<times> string) list"
  rp_DelayRange :: "DelayConfig option"
  rp_Stream :: "StreamConfig option"
  rp_Block :: "bool option"
  rp_ResponseName :: string
  rp_Use :: string
  rp_Body :: string
  rp_BodyFile :: string
  rp_HTTPBody :: string
  rp_HTTPBodyFile :: string
  rp_Error :: string
  rp_Status :: int
  rp_ICAPStatus :: int
  rp_HTTPStatus :: int
  rp_Delay :: int

record WeightedResponse =
  wr_Headers :: "(string \<times> string) list"
  wr_HTTPHeaders :: "(string \<times> string) list"
  wr_Stream :: "StreamConfig option"
  wr_Block :: "bool option"
  wr_ResponseName :: string
  wr_Body :: string
  wr_BodyFile :: string
  wr_HTTPBody :: string
  wr_HTTPBodyFile :: string
  wr_Error :: string
  wr_Delay :: DelayConfig
  wr_Weight :: int
  wr_ICAPStatus :: int
  wr_HTTPStatus :: int

text \<open>What the conditions of a scenario and of a branch have in common: the rule and its compiled parts.\<close>

record 're conditions =
  c_Match :: MatchRule
  c_compiledHeaders :: "(string \<times> 're) list"
  c_compiledHeaderLists :: "(string \<times> compiledHeaderListMatcher) list"
  c_compiledHTTPHeaders :: "(string \<times> 're) list"
  c_compiledHTTPLists :: "(string \<times> compiledHeaderListMatcher) list"
  c_compiledHTTPURL :: "'re option"

record 're Branch = "'re conditions" +
  b_WeightedResponses :: "WeightedResponse list option"
  b_Response :: ResponseTemplate

record ('re, 'net) Scenario = "'re conditions" +
  s_addr :: nat
  s_compiledBody :: "'re option"
  s_compiledRoutes :: "(string \<times> 're compiledEndpoint list) list option"
  s_Name :: string
  s_WeightedResponses :: "WeightedResponse list option"
  s_Branches :: "'re Branch list"
  s_compiledCIDRs :: "'net list"
  s_compiledPaths :: "'re compiledEndpoint list"
  s_Response :: ResponseTemplate
  s_Priority :: int
  s_order :: int

section \<open>Header rules\<close>

definition isContentTypeHeader :: "string \<Rightarrow> bool" where
  "isContentTypeHeader key \<longleftrightarrow> go_EqualFold key ''Content-Type''"

definition containsAnyLower :: "string \<Rightarrow> string list \<Rightarrow> bool" where
  "containsAnyLower value alternatives \<longleftrightarrow> list_ex (go_Contains value) alternatives"

definition contentTypeParametersMatch :: "(string \<times> string) list \<Rightarrow> (string \<times> string) list \<Rightarrow> bool" where
  "contentTypeParametersMatch actual expected \<longleftrightarrow>
     list_all (\<lambda>(key, expectedValue).
       case map_of actual key of
         None \<Rightarrow> False
       | Some actualValue \<Rightarrow>
           if key = ''charset'' then go_EqualFold actualValue expectedValue else actualValue = expectedValue) expected"

definition matchesContentType :: "('re, 'net, 'ip) golib \<Rightarrow> compiledHeaderListMatcher \<Rightarrow> string \<Rightarrow> bool" where
  "matchesContentType lib m value \<longleftrightarrow>
     (let (prefix, _, _) = go_Cut value (CHR '';''); mediaTypePrefix = go_ToLower (go_TrimSpace prefix) in
      if mediaTypePrefix \<in> set (hl_mediaTypes m) then True
      else if hl_parameterized m = [] then False
      else (case mime_ParseMediaType lib value of
              Inl e \<Rightarrow> False
            | Inr (mediaType, parameters) \<Rightarrow>
                list_ex (\<lambda>expected. mediaType = ct_mediaType expected \<and>
                           contentTypeParametersMatch parameters (ct_parameters expected)) (hl_parameterized m)))"

definition list_matches :: "('re, 'net, 'ip) golib \<Rightarrow> compiledHeaderListMatcher \<Rightarrow> string \<Rightarrow> bool" where
  "list_matches lib m value \<longleftrightarrow>
     (if \<not> hl_isContentType m then containsAnyLower (go_ToLower value) (hl_contains m)
      else matchesContentType lib m value)"

definition headerRulesMatch ::
  "('re, 'net, 'ip) golib \<Rightarrow> (string \<times> string) list \<Rightarrow> (string \<times> 're) list \<Rightarrow>
   (string \<times> compiledHeaderListMatcher) list \<Rightarrow> (string \<Rightarrow> string option) \<Rightarrow> bool" where
  "headerRulesMatch lib exact compiledRegex compiledLists lookup \<longleftrightarrow>
     list_all (\<lambda>(key, value).
       case lookup key of
         None \<Rightarrow> False
       | Some header \<Rightarrow>
           (case map_of compiledRegex key of
              Some pattern \<Rightarrow> re_MatchString lib pattern header
            | None \<Rightarrow> header = value)) exact \<and>
     list_all (\<lambda>(key, matcher).
       case lookup key of None \<Rightarrow> False | Some header \<Rightarrow> list_matches lib matcher header) compiledLists"

definition message_header :: "('r, 'b) http_message \<Rightarrow> string \<Rightarrow> string option" where
  "message_header m key = (case m_Header m of None \<Rightarrow> None | Some h \<Rightarrow> Header_Get h key)"

definition httpHeaderLookup :: "('q, 'r, 'b) request \<Rightarrow> string \<Rightarrow> string option" where
  "httpHeaderLookup req key =
     (if r_Method req = MethodRESPMOD
      then (case (case HTTPResponse req of Some m \<Rightarrow> message_header m key | None \<Rightarrow> None) of
              Some v \<Rightarrow> Some v
            | None \<Rightarrow> (case HTTPRequest req of Some m \<Rightarrow> message_header m key | None \<Rightarrow> None))
      else (case HTTPRequest req of Some m \<Rightarrow> message_header m key | None \<Rightarrow> None))"

definition hasEncapsulatedHTTP :: "('q, 'r, 'b) request \<Rightarrow> bool" where
  "hasEncapsulatedHTTP req \<longleftrightarrow> HTTPRequest req \<noteq> None \<or> HTTPResponse req \<noteq> None"

text \<open>
  The checks on headers, HTTP method and URL.  The code has them twice, with the same clauses in the same order: in
  \<open>branchMatches\<close> and in \<open>matchesScenario\<close>.
\<close>

definition conditionsMatch :: "('re, 'net, 'ip) golib \<Rightarrow> ('re, 'z) conditions_scheme \<Rightarrow> ('q, 'r, 'b) request \<Rightarrow> bool" where
  "conditionsMatch lib b req \<longleftrightarrow>
     (if \<not> headerRulesMatch lib (mr_Headers (c_Match b)) (c_compiledHeaders b) (c_compiledHeaderLists b) (GetHeader req)
      then False
      else if HTTPMethod (c_Match b) \<noteq> [] \<and>
              (case HTTPRequest req of None \<Rightarrow> True | Some m \<Rightarrow> m_Method m \<noteq> HTTPMethod (c_Match b)) then False
      else if (HTTPHeaders (c_Match b) \<noteq> [] \<or> HTTPHeaderContains (c_Match b) \<noteq> []) \<and>
              (\<not> hasEncapsulatedHTTP req \<or>
               \<not> headerRulesMatch lib (HTTPHeaders (c_Match b)) (c_compiledHTTPHeaders b) (c_compiledHTTPLists b)
                  (httpHeaderLookup req)) then False
      else if HTTPURL (c_Match b) \<noteq> [] then
        (case HTTPRequest req of
           None \<Rightarrow> False
         | Some m \<Rightarrow>
             (case c_compiledHTTPURL b of
                Some re \<Rightarrow> re_MatchString lib re (m_URI m)
              | None \<Rightarrow> m_URI m = HTTPURL (c_Match b)))
      else True)"

definition branchMatches :: "('re, 'net, 'ip) golib \<Rightarrow> 're Branch \<Rightarrow> ('q, 'r, 'b) request \<Rightarrow> bool" where
  "branchMatches lib b req = conditionsMatch lib b req"

fun select_from :: "('re, 'net, 'ip) golib \<Rightarrow> int \<Rightarrow> 're Branch list \<Rightarrow> ('q, 'r, 'b) request \<Rightarrow> int" where
  "select_from lib i [] req = -1"
| "select_from lib i (b # bs) req = (if branchMatches lib b req then i else select_from lib (i + 1) bs req)"

definition SelectBranch :: "('re, 'net, 'ip) golib \<Rightarrow> ('re, 'net) Scenario \<Rightarrow> ('q, 'r, 'b) request \<Rightarrow> int" where
  "SelectBranch lib s req = select_from lib 0 (s_Branches s) req"

section \<open>Endpoints and addresses\<close>

definition methodMatches :: "string list \<Rightarrow> string \<Rightarrow> bool" where
  "methodMatches methods reqMethod \<longleftrightarrow> methods = [] \<or> reqMethod \<in> set methods"

definition storage_extractPath :: "string \<Rightarrow> string" where
  "storage_extractPath uri =
     (let u = go_TrimPrefix (go_TrimPrefix uri ''icap://'') ''icaps://'' in
      case go_IndexByte u (CHR ''/'') of None \<Rightarrow> ''/'' | Some i \<Rightarrow> drop i u)"

definition cut_at :: "string \<Rightarrow> char \<Rightarrow> string" where
  "cut_at s c = (case go_IndexByte s c of None \<Rightarrow> s | Some i \<Rightarrow> take i s)"

fun try_endpoints :: "('re, 'net, 'ip) golib \<Rightarrow> 're compiledEndpoint list \<Rightarrow> string \<Rightarrow> (string \<times> string) list option" where
  "try_endpoints lib [] reqPath = None"
| "try_endpoints lib (p # ps) reqPath =
     (case ce_re p of
        None \<Rightarrow> try_endpoints lib ps reqPath
      | Some re \<Rightarrow>
          (case re_FindStringSubmatch lib re reqPath of
             None \<Rightarrow> try_endpoints lib ps reqPath
           | Some m \<Rightarrow>
               if ce_captures p = [] then Some []
               else Some (fold (\<lambda>(i, name) caps. if i = 0 \<or> name = [] then caps else AList.update name (m ! i) caps)
                            (enumerate 0 (re_SubexpNames lib re)) [])))"

definition matchEndpoint :: "('re, 'net, 'ip) golib \<Rightarrow> 're compiledEndpoint list \<Rightarrow> string \<Rightarrow> (string \<times> string) list option" where
  "matchEndpoint lib paths reqPath = try_endpoints lib paths (cut_at (cut_at reqPath (CHR ''?'')) (CHR ''#''))"

definition matchClientIP :: "string \<Rightarrow> string \<Rightarrow> bool" where
  "matchClientIP pattern clientIP \<longleftrightarrow> pattern = clientIP"

definition matchByCIDR :: "('re, 'net, 'ip) golib \<Rightarrow> 'net list \<Rightarrow> string \<Rightarrow> bool" where
  "matchByCIDR lib cidrRanges clientIP \<longleftrightarrow>
     (if cidrRanges = [] then True
      else (case net_ParseIP lib clientIP of
              None \<Rightarrow> False
            | Some ip \<Rightarrow> list_ex (\<lambda>n. net_Contains lib n ip) cidrRanges))"

section \<open>Body patterns\<close>

record BodyPatternOptions =
  bp_LimitAction :: string
  bp_Limit :: int

definition defaultBodyPatternLimit :: int where "defaultBodyPatternLimit = 10 * 1024 * 1024"

definition BodyPatternLimitActionNoMatch :: string where "BodyPatternLimitActionNoMatch = ''no_match''"

definition DefaultBodyPatternOptions :: BodyPatternOptions where
  "DefaultBodyPatternOptions = \<lparr>bp_LimitAction = BodyPatternLimitActionNoMatch, bp_Limit = defaultBodyPatternLimit\<rparr>"

definition normalized :: "BodyPatternOptions \<Rightarrow> BodyPatternOptions" where
  "normalized opt =
     (let o1 = (if bp_Limit opt = 0 then opt\<lparr>bp_Limit := defaultBodyPatternLimit\<rparr> else opt);
          action = go_ToLower (go_TrimSpace (bp_LimitAction o1))
      in o1\<lparr>bp_LimitAction := (if action = [] then BodyPatternLimitActionNoMatch else action)\<rparr>)"

record 'r body_io =
  io_read :: "'r reader"
  io_size :: "nat \<Rightarrow> nat"
  io_grow :: "nat \<Rightarrow> nat \<Rightarrow> nat"

definition body_in_response :: "('q, 'r, 'b) request \<Rightarrow> bool" where
  "body_in_response req \<longleftrightarrow>
     (if r_Method req = MethodRESPMOD then True
      else if r_Method req = MethodREQMOD then False
      else HTTPRequest req = None)"

definition bodyPatternMessage :: "('q, 'r, 'b) request \<Rightarrow> ('r, 'b) http_message option" where
  "bodyPatternMessage req = (if body_in_response req then HTTPResponse req else HTTPRequest req)"

definition set_bodyPatternMessage :: "('r, 'b) http_message \<Rightarrow> ('q, 'r, 'b) request \<Rightarrow> ('q, 'r, 'b) request" where
  "set_bodyPatternMessage m req =
     (if body_in_response req then req\<lparr>HTTPResponse := Some m\<rparr> else req\<lparr>HTTPRequest := Some m\<rparr>)"

definition readBodyForPattern ::
  "'r body_io \<Rightarrow> ('r, 'b) http_message \<Rightarrow> BodyPatternOptions \<Rightarrow>
   ((string option \<times> go_error option) \<times> ('r, 'b) http_message) option" where
  "readBodyForPattern io msg opt =
     (if bp_Limit opt < 0 then GetBody (io_read io) (io_size io) (io_grow io) msg
      else GetBodyLimited (io_read io) (io_size io) (io_grow io) (bp_Limit opt) msg)"

definition handleBodyPatternReadError :: "go_error \<Rightarrow> BodyPatternOptions \<Rightarrow> go_error option" where
  "handleBodyPatternReadError err opt =
     (if go_Is err ErrBodyTooLarge
      then (if bp_LimitAction opt = BodyPatternLimitActionNoMatch then None
            else Some (ErrWrap ('': max '' @ go_Itoa (bp_Limit opt) @ '' bytes'') ErrBodyPatternLimitExceeded))
      else Some (ErrWrap ''reading body for body_pattern: '' err))"

definition bodyPatternMatches ::
  "('re, 'net, 'ip) golib \<Rightarrow> 'r body_io \<Rightarrow> (nat \<Rightarrow> go_error option) \<Rightarrow> 're \<Rightarrow> ('r, 'b) http_message \<Rightarrow> BodyPatternOptions \<Rightarrow>
   ((bool \<times> go_error option) \<times> ('r, 'b) http_message) option" where
  "bodyPatternMatches lib io ctx pattern msg opt =
     (case readBodyForPattern io msg (normalized opt) of
        None \<Rightarrow> None
      | Some ((body, err), msg') \<Rightarrow>
          Some (case ctx 2 of
                  Some e \<Rightarrow> ((False, Some e), msg')
                | None \<Rightarrow>
                    (case err of
                       Some e \<Rightarrow> ((False, handleBodyPatternReadError e (normalized opt)), msg')
                     | None \<Rightarrow> ((re_MatchString lib pattern (case body of None \<Rightarrow> [] | Some b \<Rightarrow> b), None), msg'))))"

section \<open>Matching one scenario\<close>

definition merge_captures :: "(string \<times> string) list \<Rightarrow> ('q, 'r, 'b) request \<Rightarrow> ('q, 'r, 'b) request" where
  "merge_captures caps req = req\<lparr>Captures := fold (\<lambda>(k, v) m. AList.update k v m) caps (Captures req)\<rparr>"

definition route_endpoints :: "('re, 'net) Scenario \<Rightarrow> string \<Rightarrow> 're compiledEndpoint list option" where
  "route_endpoints s meth =
     (case s_compiledRoutes s of
        Some routes \<Rightarrow> map_of routes meth
      | None \<Rightarrow> if methodMatches (Methods (c_Match s)) meth then Some (s_compiledPaths s) else None)"

definition route_captures ::
  "('re, 'net, 'ip) golib \<Rightarrow> ('re, 'net) Scenario \<Rightarrow> ('q, 'r, 'b) request \<Rightarrow> (string \<times> string) list option" where
  "route_captures lib s req =
     (case route_endpoints s (r_Method req) of
        None \<Rightarrow> None
      | Some eps \<Rightarrow> if eps = [] then Some [] else matchEndpoint lib eps (storage_extractPath (r_URI req)))"

definition check_body ::
  "('re, 'net, 'ip) golib \<Rightarrow> 'r body_io \<Rightarrow> (nat \<Rightarrow> go_error option) \<Rightarrow> BodyPatternOptions \<Rightarrow> ('re, 'net) Scenario \<Rightarrow>
   ('q, 'r, 'b) request \<Rightarrow> ((bool \<times> go_error option) \<times> ('q, 'r, 'b) request) option" where
  "check_body lib io ctx opt s req =
     (case s_compiledBody s of
        None \<Rightarrow> Some ((True, None), req)
      | Some pattern \<Rightarrow>
          (case ctx 1 of
             Some e \<Rightarrow> Some ((False, Some e), req)
           | None \<Rightarrow>
               (case bodyPatternMessage req of
                  None \<Rightarrow> Some ((False, None), req)
                | Some msg \<Rightarrow>
                    map_option (map_prod id (\<lambda>msg'. set_bodyPatternMessage msg' req))
                      (bodyPatternMatches lib io ctx pattern msg opt))))"

definition finish_match ::
  "('re, 'net, 'ip) golib \<Rightarrow> ('re, 'net) Scenario \<Rightarrow> ('q, 'r, 'b) request \<Rightarrow> bool \<times> ('q, 'r, 'b) request" where
  "finish_match lib s req =
     (if mr_ClientIP (c_Match s) \<noteq> [] \<and> \<not> matchClientIP (mr_ClientIP (c_Match s)) (ClientIP req) then (False, req)
      else if s_compiledCIDRs s \<noteq> [] \<and> \<not> matchByCIDR lib (s_compiledCIDRs s) (ClientIP req) then (False, req)
      else (let req1 = ClearMatchedBranch req in
            if s_Branches s = [] then (True, req1)
            else (let branch = SelectBranch lib s req1 in
                  if branch < 0 then (False, req1) else (True, SetMatchedBranch branch req1))))"

definition matchesScenario ::
  "('re, 'net, 'ip) golib \<Rightarrow> 'r body_io \<Rightarrow> (nat \<Rightarrow> go_error option) \<Rightarrow> BodyPatternOptions \<Rightarrow> ('re, 'net) Scenario \<Rightarrow>
   ('q, 'r, 'b) request \<Rightarrow> ((bool \<times> go_error option) \<times> ('q, 'r, 'b) request) option" where
  "matchesScenario lib io ctx opt s req =
     (case ctx 0 of
        Some e \<Rightarrow> Some ((False, Some e), req)
      | None \<Rightarrow>
          (case route_captures lib s req of
             None \<Rightarrow> Some ((False, None), req)
           | Some caps \<Rightarrow>
               (let req1 = merge_captures caps req in
                if \<not> conditionsMatch lib s req1 then Some ((False, None), req1)
                else (case check_body lib io ctx opt s req1 of
                        None \<Rightarrow> None
                      | Some ((ok, err), req2) \<Rightarrow>
                          if err \<noteq> None \<or> \<not> ok then Some ((False, err), req2)
                          else (case ctx 3 of
                                  Some e \<Rightarrow> Some ((False, Some e), req2)
                                | None \<Rightarrow>
                                    (let (m, req3) = finish_match lib s req2 in Some ((m, None), req3)))))))"

section \<open>What the outcome depends on\<close>

text \<open>The part of a request that matching reads and never writes.\<close>

definition message_view :: "('r, 'b) http_message \<Rightarrow> header option \<times> string \<times> string" where
  "message_view m = (m_Header m, m_Method m, m_URI m)"

definition request_view :: "('q, 'r, 'b) request \<Rightarrow>
    string \<times> string \<times> header option \<times> string \<times> (header option \<times> string \<times> string) option \<times> (header option \<times> string \<times> string) option" where
  "request_view req = (r_Method req, r_URI req, r_Header req, ClientIP req,
     map_option message_view (HTTPRequest req), map_option message_view (HTTPResponse req))"

definition body_reads :: "'r body_io \<Rightarrow> BodyPatternOptions \<Rightarrow> ('q, 'r, 'b) request \<Rightarrow> string option \<times> go_error option \<Rightarrow> bool" where
  "body_reads io opt req res \<longleftrightarrow>
     (case bodyPatternMessage req of
        None \<Rightarrow> True
      | Some msg \<Rightarrow> (\<exists>msg'. readBodyForPattern io msg (normalized opt) = Some (res, msg')))"

text \<open>
  The verdict on a scenario as a function of the request and of what reading its body yields: an error, or whether
  the scenario applies.
\<close>

definition verdict ::
  "('re, 'net, 'ip) golib \<Rightarrow> BodyPatternOptions \<Rightarrow> string option \<times> go_error option \<Rightarrow> ('re, 'net) Scenario \<Rightarrow>
   ('q, 'r, 'b) request \<Rightarrow> go_error + bool" where
  "verdict lib opt res s req =
     (if route_captures lib s req = None \<or> \<not> conditionsMatch lib s req then Inr False
      else (case (case s_compiledBody s of
                    None \<Rightarrow> Inr True
                  | Some pattern \<Rightarrow>
                      if bodyPatternMessage req = None then Inr False
                      else (case snd res of
                              Some e \<Rightarrow> (case handleBodyPatternReadError e (normalized opt) of None \<Rightarrow> Inr False | Some e' \<Rightarrow> Inl e')
                            | None \<Rightarrow> Inr (re_MatchString lib pattern (case fst res of None \<Rightarrow> [] | Some b \<Rightarrow> b)))) of
              Inl e \<Rightarrow> Inl e
            | Inr ok \<Rightarrow> Inr (ok \<and> fst (finish_match lib s req))))"

lemma request_view_D:
  assumes "request_view r' = request_view r"
  shows "r_Method r' = r_Method r" "r_URI r' = r_URI r" "r_Header r' = r_Header r" "ClientIP r' = ClientIP r"
    "map_option message_view (HTTPRequest r') = map_option message_view (HTTPRequest r)"
    "map_option message_view (HTTPResponse r') = map_option message_view (HTTPResponse r)"
  using assms by (simp_all add: request_view_def)

lemma view_option:
  "map_option message_view x = map_option message_view y \<Longrightarrow>
     (x = None \<longleftrightarrow> y = None) \<and> map_option m_Method x = map_option m_Method y \<and> map_option m_URI x = map_option m_URI y \<and>
     map_option m_Header x = map_option m_Header y"
  by (cases x; cases y) (auto simp: message_view_def)

lemma message_header_option:
  "map_option m_Header x = map_option m_Header y \<Longrightarrow>
     (case x of Some m \<Rightarrow> message_header m key | None \<Rightarrow> None) = (case y of Some m \<Rightarrow> message_header m key | None \<Rightarrow> None)"
  by (cases x; cases y) (auto simp: message_header_def)

lemma view_httpHeaderLookup: "request_view r' = request_view r \<Longrightarrow> httpHeaderLookup r' = httpHeaderLookup r"
  using request_view_D [of r' r] view_option [of "HTTPRequest r'" "HTTPRequest r"] view_option [of "HTTPResponse r'" "HTTPResponse r"]
    message_header_option [of "HTTPRequest r'" "HTTPRequest r"] message_header_option [of "HTTPResponse r'" "HTTPResponse r"]
  by (simp add: httpHeaderLookup_def fun_eq_iff cong: option.case_cong)

lemma view_conditionsMatch:
  assumes v: "request_view r' = request_view r"
  shows "conditionsMatch lib c r' = conditionsMatch lib c r"
proof -
  note D = request_view_D [OF v]
  have g: "GetHeader r' = GetHeader r" by (simp add: GetHeader_def D fun_eq_iff)
  have h: "hasEncapsulatedHTTP r' = hasEncapsulatedHTTP r"
    using view_option [OF D(5)] view_option [OF D(6)] by (simp add: hasEncapsulatedHTTP_def)
  show ?thesis
    using view_option [OF D(5)] view_httpHeaderLookup [OF v]
    by (cases "HTTPRequest r'"; cases "HTTPRequest r") (simp_all add: conditionsMatch_def g h cong: option.case_cong)
qed

lemma view_select_from:
  assumes "request_view r' = request_view r"
  shows "select_from lib i bs r' = select_from lib i bs r"
  by (induction bs arbitrary: i) (simp_all add: branchMatches_def view_conditionsMatch [OF assms])

lemma view_writes [simp]:
  "request_view (merge_captures caps r) = request_view r" "request_view (ClearMatchedBranch r) = request_view r"
  "request_view (SetMatchedBranch i r) = request_view r"
  by (simp_all add: request_view_def merge_captures_def ClearMatchedBranch_def SetMatchedBranch_def)

lemma message_writes [simp]:
  "bodyPatternMessage (merge_captures caps r) = bodyPatternMessage r" "bodyPatternMessage (ClearMatchedBranch r) = bodyPatternMessage r"
  "bodyPatternMessage (SetMatchedBranch i r) = bodyPatternMessage r"
  by (simp_all add: bodyPatternMessage_def body_in_response_def merge_captures_def ClearMatchedBranch_def SetMatchedBranch_def)

lemma view_finish:
  assumes "request_view r' = request_view r"
  shows "fst (finish_match lib s r') = fst (finish_match lib s r)"
proof -
  have "SelectBranch lib s (ClearMatchedBranch r') = SelectBranch lib s (ClearMatchedBranch r)"
    unfolding SelectBranch_def by (rule view_select_from) (simp add: assms)
  then show ?thesis by (simp add: finish_match_def request_view_D [OF assms] Let_def)
qed

lemma view_bodyPatternMessage:
  assumes "request_view r' = request_view r"
  shows "bodyPatternMessage r' = None \<longleftrightarrow> bodyPatternMessage r = None"
  using view_option [OF request_view_D(5) [OF assms]] view_option [OF request_view_D(6) [OF assms]]
  by (simp add: bodyPatternMessage_def body_in_response_def request_view_D(1) [OF assms])

lemma view_route_captures:
  assumes "request_view r' = request_view r"
  shows "route_captures lib s r' = route_captures lib s r"
  by (simp add: route_captures_def request_view_D(1,2) [OF assms] split: option.split)

lemma view_verdict:
  assumes "request_view r' = request_view r"
  shows "verdict lib opt res s r' = verdict lib opt res s r"
  by (simp add: verdict_def view_route_captures [OF assms] view_conditionsMatch [OF assms] view_finish [OF assms]
      view_bodyPatternMessage [OF assms] cong: option.case_cong sum.case_cong)

text \<open>Reading a body leaves the rest of the message alone, and reading it again gives the same outcome.\<close>

lemma load_once_keeps:
  assumes "load_once rd sz grow maxBytes capacity errFmt m = Some m'"
  shows "lazy_body.more m' = lazy_body.more m" "bodyOnce m'"
  using assms by (auto simp: load_once_def split: if_splits option.splits prod.splits)

lemma readBodyForPattern_again:
  assumes "readBodyForPattern io m opt = Some (res, m')"
  shows "readBodyForPattern io m' opt = Some (res, m')" "message_view m' = message_view m"
proof -
  obtain capacity maxBytes where r: "lazyLoadBodyLimitedWithCapacity (io_read io) (io_size io) (io_grow io) maxBytes capacity ''loading body: '' m = Some (res, m')"
    and mb: "maxBytes = (if bp_Limit opt < 0 then -1 else bp_Limit opt)"
    using assms by (auto simp: readBodyForPattern_def GetBody_def GetBodyLimited_def split: if_splits)
  then obtain m1 where m1: "load_once (io_read io) (io_size io) (io_grow io) maxBytes capacity ''loading body: '' m = Some m1"
    and out: "(res, m') = (case bodyErr m1 of Some e \<Rightarrow> ((None, Some e), m1)
        | None \<Rightarrow> if over_limit maxBytes (body_bytes m1) then ((None, Some (tooLarge maxBytes)), m1) else ((Body m1, None), m1))"
    by (auto simp: lazyLoadBodyLimitedWithCapacity_def over_limit_def split: option.splits if_splits)
  then have "m' = m1" by (auto split: option.splits if_splits)
  with out show "readBodyForPattern io m' opt = Some (res, m')"
    using load_once_keeps(2) [OF m1] mb
    by (auto simp: readBodyForPattern_def GetBody_def GetBodyLimited_def lazyLoad_again)
  show "message_view m' = message_view m"
    using load_once_keeps(1) [OF m1] \<open>m' = m1\<close> by (cases m; cases m1) (simp add: message_view_def)
qed

lemma set_bodyPatternMessage_simps:
  assumes "bodyPatternMessage r = Some m" "message_view m' = message_view m"
  shows "request_view (set_bodyPatternMessage m' r) = request_view r" "bodyPatternMessage (set_bodyPatternMessage m' r) = Some m'"
  using assms by (auto simp: set_bodyPatternMessage_def bodyPatternMessage_def request_view_def body_in_response_def split: if_splits)

text \<open>
  One match, not cancelled: its outcome is the verdict, the request keeps its view, and its body
  still reads as before.
\<close>

lemma matchesScenario_verdict:
  fixes req :: "('q, 'r, 'b) request"
  assumes ctx: "\<And>k. ctx k = None" and b: "body_reads io opt req res"
  shows "\<exists>req'. matchesScenario lib io ctx opt s req =
      Some (case verdict lib opt res s req of Inl e \<Rightarrow> ((False, Some e), req') | Inr m \<Rightarrow> ((m, None), req')) \<and>
    request_view req' = request_view req \<and> body_reads io opt req' res"
proof (cases "route_captures lib s req")
  case None
  then show ?thesis using b by (simp add: matchesScenario_def ctx verdict_def)
next
  case (Some caps)
  let ?r1 = "merge_captures caps req"
  have b1: "body_reads io opt ?r1 res" using b by (simp add: body_reads_def)
  have c1: "conditionsMatch lib s ?r1 = conditionsMatch lib s req" by (rule view_conditionsMatch) simp
  have fin: "request_view (snd (finish_match lib s r)) = request_view r \<and> bodyPatternMessage (snd (finish_match lib s r)) = bodyPatternMessage r" for r :: "('q, 'r, 'b) request"
    by (simp add: finish_match_def Let_def)
  have ending: "\<exists>req'. (let (m, req3) = finish_match lib s r2 in Some ((m, None), req3)) = Some ((fst (finish_match lib s req), None), req') \<and>
      request_view req' = request_view req \<and> body_reads io opt req' res"
    if "request_view r2 = request_view req" "body_reads io opt r2 res" for r2 :: "('q, 'r, 'b) request"
    using that fin [of r2] view_finish [OF that(1), of lib s] by (auto simp: split_beta body_reads_def)
  show ?thesis
  proof (cases "conditionsMatch lib s req")
    case False
    then show ?thesis using Some b1 c1 by (simp add: matchesScenario_def ctx verdict_def)
  next
    case cond: True
    show ?thesis
    proof (cases "s_compiledBody s")
      case None
      then show ?thesis using Some cond c1 ending [OF _ b1]
        by (simp add: matchesScenario_def ctx verdict_def check_body_def)
    next
      case pat: (Some pattern)
      show ?thesis
      proof (cases "bodyPatternMessage req")
        case None
        then show ?thesis using Some cond c1 pat b1 by (simp add: matchesScenario_def ctx verdict_def check_body_def)
      next
        case msg: (Some m)
        then obtain m' where m': "readBodyForPattern io m (normalized opt) = Some (res, m')" using b by (auto simp: body_reads_def)
        let ?r2 = "set_bodyPatternMessage m' ?r1"
        note again = readBodyForPattern_again [OF m']
        have r2: "request_view ?r2 = request_view req" "body_reads io opt ?r2 res"
          using set_bodyPatternMessage_simps [of ?r1 m m'] msg again by (simp_all add: body_reads_def)
        obtain body err where res: "res = (body, err)" by fastforce
        note run = matchesScenario_def ctx verdict_def check_body_def bodyPatternMatches_def Some cond c1 pat msg m' res Let_def
        show ?thesis
        proof (cases err)
          case (Some e)
          then show ?thesis using r2 by (auto simp: run split: option.split)
        next
          case None
          let ?ok = "re_MatchString lib pattern (case body of None \<Rightarrow> [] | Some b \<Rightarrow> b)"
          have "matchesScenario lib io ctx opt s req = (if \<not> ?ok then Some ((False, None), ?r2)
              else (let (m, req3) = finish_match lib s ?r2 in Some ((m, None), req3)))"
            using None by (simp add: run)
          moreover have "verdict lib opt res s req = Inr (?ok \<and> fst (finish_match lib s req))" using None by (simp add: run)
          ultimately show ?thesis using ending [OF r2] r2 by (cases ?ok) auto
        qed
      qed
    qed
  qed
qed

end
