(* ===== verification/Weight.thy ===== *)
theory Weight
  imports Go_Prelude
begin

text \<open>
  Response weights: \<^verbatim>\<open>internal/weight/percentage.go\<close> (exact fixed-point percentages), the total check
  of \<^verbatim>\<open>internal/storage/scenario.go\<close> and the choice of a variant of \<^verbatim>\<open>internal/processor/mock.go\<close>.

  A \<open>Percentage\<close> is an integer number of thousandths of a percent.  A variant is any value with
  a weight; the random number is an argument of the choice.
\<close>

section \<open>Fixed-point percentages\<close>

definition Scale :: int where "Scale = 1000"
definition TotalUnits :: int where "TotalUnits = 100 * Scale"

datatype weight_error =
    WeightRequired | WeightNotPositive | WeightNotDecimal string
  | WeightTooLarge | WeightRoundsToZero

definition is_digit :: "char \<Rightarrow> bool" where
  "is_digit c \<longleftrightarrow> 48 \<le> (of_char c :: nat) \<and> (of_char c :: nat) \<le> 57"

definition parseDecimalParts :: "string \<Rightarrow> weight_error + int \<times> string" where
  "parseDecimalParts value =
     (let normalized = go_TrimSpace value in
      if normalized = [] then Inl WeightRequired
      else if go_HasPrefix normalized ''-'' then Inl WeightNotPositive
      else if go_HasPrefix normalized ''+'' then Inl (WeightNotDecimal normalized)
      else
        (let parts = go_Split normalized (CHR ''.'') in
         if length parts > 2 \<or> parts ! 0 = [] \<or> (length parts = 2 \<and> parts ! 1 = [])
         then Inl (WeightNotDecimal normalized)
         else case go_Atoi (parts ! 0) of
                None \<Rightarrow> Inl (WeightNotDecimal normalized)
              | Some whole \<Rightarrow>
                  (let fraction = (if length parts = 2 then parts ! 1 else []) in
                   if \<forall>c \<in> set fraction. is_digit c then Inr (whole, fraction)
                   else Inl (WeightNotDecimal normalized))))"

definition roundedThousandths :: "string \<Rightarrow> int" where
  "roundedThousandths fraction =
     (let padded = fraction @ ''0000'';
          milli = (case go_Atoi (take 3 padded) of None \<Rightarrow> 0 | Some m \<Rightarrow> m)
      in if (of_char (padded ! 3) :: nat) \<ge> 53 then milli + 1 else milli)"

definition Parse :: "string \<Rightarrow> weight_error + int" where
  "Parse value =
     (case parseDecimalParts value of
        Inl e \<Rightarrow> Inl e
      | Inr (whole, fraction) \<Rightarrow>
          if whole > 100 \<or> (whole = 100 \<and> go_TrimByte fraction (CHR ''0'') \<noteq> [])
          then Inl WeightTooLarge
          else
            (let milli = roundedThousandths fraction;
                 units = whole * Scale + milli in
             if units = 0 then Inl WeightRoundsToZero
             else if units > TotalUnits then Inr TotalUnits
             else Inr units))"

text \<open>\<open>fmt.Sprintf("%d.%03d", p/Scale, p%Scale)\<close>; Go's division truncates towards zero and the
  width of \<open>%03d\<close> counts the sign.\<close>

definition pad_zeros :: "nat \<Rightarrow> string \<Rightarrow> string" where
  "pad_zeros n s = replicate (n - length s) (CHR ''0'') @ s"

definition fmt_03d :: "int \<Rightarrow> string" where
  "fmt_03d x = (if x < 0 then CHR ''-'' # pad_zeros 2 (format_nat 10 (nat (- x)))
                else pad_zeros 3 (format_nat 10 (nat x)))"

definition Percentage_String :: "int \<Rightarrow> string" where
  "Percentage_String p =
     (let q = sgn p * (\<bar>p\<bar> div Scale); r = sgn p * (\<bar>p\<bar> mod Scale)
      in go_Itoa q @ ''.'' @ fmt_03d r)"

text \<open>\<open>UnmarshalJSON\<close> refuses the JSON null and parses every other scalar.\<close>

definition UnmarshalJSON :: "string \<Rightarrow> weight_error + int" where
  "UnmarshalJSON data = (if data = ''null'' then Inl WeightRequired else Parse data)"

section \<open>The total of a list of variants and the choice of one\<close>

datatype weight_total_error = NoVariants | MixedWeights | WeightOutOfRange nat | WrongTotal int

fun first_out_of_range :: "nat \<Rightarrow> int list \<Rightarrow> nat option" where
  "first_out_of_range i [] = None"
| "first_out_of_range i (u # us) =
     (if u < 0 \<or> u > TotalUnits then Some i else first_out_of_range (Suc i) us)"

definition validateRuntimeWeightTotal :: "int list option \<Rightarrow> weight_total_error option" where
  \<comment> \<open>the argument is the weights of the variants, \<^const>\<open>None\<close> for a nil slice\<close>
  "validateRuntimeWeightTotal variants =
     (case variants of
        None \<Rightarrow> None
      | Some us \<Rightarrow>
          if us = [] then Some NoVariants
          else
            (let total = sum_list us; weightedCount = length (filter (\<lambda>u. u \<noteq> 0) us) in
             if weightedCount = 0 then None
             else if weightedCount \<noteq> length us then Some MixedWeights
             else case first_out_of_range 0 us of
                    Some i \<Rightarrow> Some (WeightOutOfRange (i + 1))
                  | None \<Rightarrow> if total \<noteq> TotalUnits then Some (WrongTotal total) else None))"

fun select_loop :: "int \<Rightarrow> int \<Rightarrow> nat \<Rightarrow> int list \<Rightarrow> nat option" where
  "select_loop n cumulative i [] = None"
| "select_loop n cumulative i (u # us) =
     (let cumulative' = cumulative + u
      in if n < cumulative' then Some i else select_loop n cumulative' (Suc i) us)"

definition selectWeightedResponseAt :: "int list \<Rightarrow> int \<Rightarrow> nat option" where
  \<comment> \<open>the index of the chosen variant; \<^const>\<open>None\<close> is Go's panic on an index out of range\<close>
  "selectWeightedResponseAt us n =
     (case us of
        [] \<Rightarrow> None
      | u # _ \<Rightarrow>
          if u = 0 then (if 0 \<le> n \<and> nat n < length us then Some (nat n) else None)
          else (case select_loop n 0 0 us of Some i \<Rightarrow> Some i | None \<Rightarrow> Some (length us - 1)))"

text \<open>\<open>rand.Intn(k)\<close> returns a number in \<open>[0, k)\<close>: the argument is that function.\<close>

definition selectWeightedResponse :: "(int \<Rightarrow> int) \<Rightarrow> int list \<Rightarrow> nat option" where
  "selectWeightedResponse intn us =
     (case us of
        [] \<Rightarrow> None
      | u # _ \<Rightarrow>
          if u = 0 then selectWeightedResponseAt us (intn (int (length us)))
          else selectWeightedResponseAt us (intn TotalUnits))"

section \<open>Parsing\<close>

lemma digit_val_digit: "is_digit c \<Longrightarrow> digit_val c = Some (of_char c - 48)"
  by (simp add: digit_val_def is_digit_def Let_def)

lemma digits_val_digits:
  "\<forall>c \<in> set s. is_digit c \<Longrightarrow> \<exists>v. digits_val 10 acc s = Some v"
  by (induction s arbitrary: acc) (auto simp: digit_val_digit is_digit_def)

lemma digits_val_acc:
  "digits_val b acc s = map_option (\<lambda>v. acc * b ^ length s + v) (digits_val b 0 s)"
proof (induction s arbitrary: acc)
  case (Cons c s)
  show ?case
  proof (cases "digit_val c")
    case (Some d)
    then show ?thesis
      using Cons.IH [of "acc * b + d"] Cons.IH [of d]
      by (cases "digits_val b 0 s") (auto simp: algebra_simps)
  qed simp
qed simp

lemma digits_val_append:
  "digits_val b acc (s @ t) = (case digits_val b acc s of None \<Rightarrow> None | Some v \<Rightarrow> digits_val b v t)"
  by (induction s arbitrary: acc) (auto split: option.split)

lemma digits_val_bound: "digits_val b 0 s = Some v \<Longrightarrow> v < b ^ length s"
proof (induction s arbitrary: v rule: rev_induct)
  case (snoc c s)
  then obtain w d where w: "digits_val b 0 s = Some w" and d: "d < b" and v: "v = w * b + d"
    by (auto simp: digits_val_snoc split: option.splits if_splits)
  from snoc.IH [OF w] have "Suc w * b \<le> b ^ length s * b" by (intro mult_le_mono1) simp
  with d v show ?case by (simp add: mult.commute)
qed simp


lemma is_digit_no_sign: "is_digit c \<Longrightarrow> c \<noteq> CHR ''-'' \<and> c \<noteq> CHR ''+''"
  by (auto simp: is_digit_def)

lemma Atoi_digits:
  assumes "s \<noteq> []" "\<forall>c \<in> set s. is_digit c" "digits_val 10 0 s = Some v" "int v \<le> MaxInt64"
  shows "go_Atoi s = Some (int v)"
proof -
  obtain c cs where s: "s = c # cs" using assms(1) by (cases s) auto
  with assms(2) have "c \<noteq> CHR ''-''" "c \<noteq> CHR ''+''" using is_digit_no_sign by auto
  then show ?thesis
    using s assms by (simp add: go_ParseInt_def parse_nat_def in_int64_nonneg)
qed

lemma is_digit_0 [simp]: "is_digit (CHR ''0'')"
  by (simp add: is_digit_def)

lemma digits_val_zeros: "digits_val 10 acc (s @ ''0000'') = map_option (\<lambda>v. v * 10 ^ 4) (digits_val 10 acc s)"
  by (auto simp: digits_val_append digit_val_digit split: option.split)

text \<open>The first four digits of the padded fraction decide the rounding.\<close>

lemma padded_split:
  assumes "\<forall>c \<in> set f. is_digit c" and N: "digits_val 10 0 f = Some N"
  obtains M d r where "digits_val 10 0 (take 3 (f @ ''0000'')) = Some M" "M < 1000"
    and "is_digit ((f @ ''0000'') ! 3)" "of_char ((f @ ''0000'') ! 3) = 48 + d" "d < 10"
    and "r < 10 ^ length f" "N * 10 ^ 4 = (M * 10 + d) * 10 ^ length f + r"
proof -
  let ?p = "f @ ''0000''"
  have dig: "\<forall>c \<in> set ?p. is_digit c" using assms(1) by auto
  have len: "length ?p = length f + 4" by simp
  have len4: "length (drop 4 ?p) = length f" by (simp del: drop_append)
  have split: "?p = (take 3 ?p @ [?p ! 3]) @ drop 4 ?p"
    using id_take_nth_drop [of 3 ?p] by simp
  obtain M where M: "digits_val 10 0 (take 3 ?p) = Some M"
    using digits_val_digits [of "take 3 ?p" 0] dig by (meson in_set_takeD)
  obtain r where r: "digits_val 10 0 (drop 4 ?p) = Some r"
    using digits_val_digits [of "drop 4 ?p" 0] dig by (meson in_set_dropD)
  have "?p ! 3 \<in> set ?p" by (rule nth_mem) simp
  with dig have dg: "is_digit (?p ! 3)" by blast
  define d where "d = of_char (?p ! 3) - (48 :: nat)"
  have d: "d < 10" "of_char (?p ! 3) = 48 + d" "digit_val (?p ! 3) = Some d"
    using dg digit_val_digit [OF dg] by (auto simp: d_def is_digit_def)
  have "digits_val 10 0 ?p = Some (N * 10 ^ 4)" using N digits_val_zeros by simp
  moreover have "digits_val 10 0 (take 3 ?p @ [?p ! 3]) = Some (M * 10 + d)"
    unfolding digits_val_snoc M d(3) using d(1) by simp
  then have "digits_val 10 0 ((take 3 ?p @ [?p ! 3]) @ drop 4 ?p) = digits_val 10 (M * 10 + d) (drop 4 ?p)"
    unfolding digits_val_append [of 10 0 "take 3 ?p @ [?p ! 3]"] by (simp del: drop_append)
  then have "digits_val 10 0 ?p = Some ((M * 10 + d) * 10 ^ length f + r)"
    unfolding split [symmetric] digits_val_acc [of 10 "M * 10 + d"] r len4 by simp
  ultimately have eq: "N * 10 ^ 4 = (M * 10 + d) * 10 ^ length f + r" by simp
  have "length (take 3 ?p) = 3" by (simp del: take_append)
  with digits_val_bound [OF M] have "M < 1000" by (simp del: take_append)
  moreover have "r < 10 ^ length f" using digits_val_bound [OF r] unfolding len4 .
  ultimately show ?thesis using that M dg d eq by blast
qed

lemma roundedThousandths_eq:
  assumes "\<forall>c \<in> set f. is_digit c" "digits_val 10 0 f = Some N"
  shows "roundedThousandths f = int ((10 ^ 4 * N + 5 * 10 ^ length f) div 10 ^ Suc (length f))"
proof -
  let ?p = "f @ ''0000''" and ?B = "10 ^ length f :: nat"
  obtain M d r where M: "digits_val 10 0 (take 3 ?p) = Some M" "M < 1000"
    and d: "of_char (?p ! 3) = 48 + d" "d < 10"
    and r: "r < ?B" "N * 10 ^ 4 = (M * 10 + d) * ?B + r"
    using padded_split [OF assms] by metis
  have "\<forall>c \<in> set (take 3 ?p). is_digit c" using assms(1) by (auto dest!: in_set_takeD)
  with M have "go_Atoi (take 3 ?p) = Some (int M)"
    by (intro Atoi_digits) (auto simp: MaxInt64_def)
  with d have lhs: "roundedThousandths f = int ((M * 10 + d + 5) div 10)"
    by (auto simp: roundedThousandths_def Let_def)
  have "(10 ^ 4 * N + 5 * ?B) div ?B = ((M * 10 + d + 5) * ?B + r) div ?B"
    using r by (simp add: algebra_simps)
  also have "\<dots> = M * 10 + d + 5" using r by simp
  finally have "(10 ^ 4 * N + 5 * ?B) div 10 ^ Suc (length f) = (M * 10 + d + 5) div 10"
    by (simp add: div_mult2_eq [of _ "?B" 10, simplified mult.commute])
  with lhs show ?thesis by simp
qed

lemma parseDecimalParts_ok:
  assumes "parseDecimalParts s = Inr (whole, fraction)"
  shows "\<forall>c \<in> set fraction. is_digit c" "0 \<le> whole"
proof -
  let ?t = "go_TrimSpace s"
  from assms show "\<forall>c \<in> set fraction. is_digit c"
    by (auto simp: parseDecimalParts_def Let_def split: if_splits option.splits)
  obtain p ps where w: "go_Split ?t (CHR ''.'') = p # ps"
    by (cases "go_Split ?t (CHR ''.'')") simp_all
  with assms have w2: "go_Atoi p = Some whole" and m: "\<not> go_HasPrefix ?t ''-''" "p \<noteq> []"
    by (auto simp: parseDecimalParts_def Let_def split: if_splits option.splits)
  from m(2) w have "hd p = hd ?t"
    by (cases ?t) (auto split: if_splits list.splits)
  moreover have "?t \<noteq> []" using w m(2) by auto
  ultimately have "hd p \<noteq> CHR ''-''" using m(1) by (cases ?t) auto
  with w2 m(2) show "0 \<le> whole"
    by (cases p) (auto simp: go_ParseInt_def Let_def split: option.splits if_splits)
qed

text \<open>A parsed weight is in range, and is the text's value times 1000 rounded half up.\<close>

lemma Parse_InrD:
  assumes "Parse s = Inr p"
  obtains whole f N where "parseDecimalParts s = Inr (whole, f)" "digits_val 10 0 f = Some N"
    "0 \<le> whole" "whole \<le> 100" "whole = 100 \<longrightarrow> go_TrimByte f (CHR ''0'') = []"
    "p = min TotalUnits (whole * Scale + roundedThousandths f)" "whole * Scale + roundedThousandths f \<noteq> 0"
proof -
  from assms obtain whole f where pd: "parseDecimalParts s = Inr (whole, f)"
    by (auto simp: Parse_def split: sum.splits)
  obtain N where "digits_val 10 0 f = Some N"
    using digits_val_digits parseDecimalParts_ok(1) [OF pd] by blast
  with assms pd parseDecimalParts_ok(2) [OF pd] show ?thesis
    by (intro that) (auto simp: Parse_def Let_def min_def split: if_splits)
qed


lemma roundedThousandths_range:
  assumes "\<forall>c \<in> set f. is_digit c" "digits_val 10 0 f = Some N"
  shows "0 \<le> roundedThousandths f" "roundedThousandths f \<le> 1000"
proof -
  have "N < 10 ^ length f" using digits_val_bound [OF assms(2)] .
  then have "10 ^ 4 * N + 5 * 10 ^ length f < 10 ^ Suc (length f) * (1001 :: nat)" by simp
  then have "(10 ^ 4 * N + 5 * 10 ^ length f) div 10 ^ Suc (length f) < (1001 :: nat)"
    by (simp add: less_mult_imp_div_less mult.commute)
  then show "0 \<le> roundedThousandths f" "roundedThousandths f \<le> 1000"
    by (simp_all only: roundedThousandths_eq [OF assms])
qed

lemma Parse_range: "Parse s = Inr p \<Longrightarrow> 1 \<le> p \<and> p \<le> TotalUnits"
proof (erule Parse_InrD)
  fix whole f N
  assume pd: "parseDecimalParts s = Inr (whole, f)" and N: "digits_val 10 0 f = Some N"
    and w: "0 \<le> whole" and p: "p = min TotalUnits (whole * Scale + roundedThousandths f)"
    and nz: "whole * Scale + roundedThousandths f \<noteq> 0"
  have "0 \<le> roundedThousandths f"
    by (rule roundedThousandths_range [OF parseDecimalParts_ok(1) [OF pd] N])
  with w nz have "1 \<le> whole * Scale + roundedThousandths f" by (simp add: Scale_def)
  with p show ?thesis by (simp add: TotalUnits_def Scale_def)
qed

lemma digits_val_replicate_0: "digits_val 10 0 (replicate k (CHR ''0'')) = Some 0"
  by (induction k) (simp_all add: digit_val_digit)

lemma digits_trim_zeros:
  assumes "go_TrimByte f (CHR ''0'') = []" "digits_val 10 0 f = Some N"
  shows "N = 0"
proof -
  have drop: "dropWhile (\<lambda>c. c = CHR ''0'') f = []"
  proof (rule ccontr)
    assume a: "dropWhile (\<lambda>c. c = CHR ''0'') f \<noteq> []"
    let ?d = "dropWhile (\<lambda>c. c = CHR ''0'') f"
    from hd_dropWhile [OF a] have "hd ?d \<in> set ?d" "hd ?d \<noteq> CHR ''0''" using a by simp_all
    moreover from assms(1) have "dropWhile (\<lambda>c. c = CHR ''0'') (rev ?d) = []"
      unfolding go_TrimByte_def trim_right_def by (simp only: rev_is_Nil_conv)
    then have "\<forall>c \<in> set ?d. c = CHR ''0''" by (simp only: dropWhile_eq_Nil_conv set_rev)
    ultimately show False by blast
  qed
  then have "\<forall>c \<in> set f. c = CHR ''0''" by (simp add: dropWhile_eq_Nil_conv)
  then have "f = replicate (length f) (CHR ''0'')"
    by (metis replicate_eqI)
  then have "digits_val 10 0 f = Some 0" by (metis digits_val_replicate_0)
  with assms(2) show ?thesis by simp
qed

lemma Parse_value:
  assumes "Parse s = Inr p" "parseDecimalParts s = Inr (whole, f)" "digits_val 10 0 f = Some N"
  shows "p = (10 ^ 4 * (whole * 10 ^ length f + int N) + 5 * 10 ^ length f) div 10 ^ Suc (length f)"
proof -
  let ?B = "10 ^ length f :: int"
  note dig = parseDecimalParts_ok(1) [OF assms(2)]
  note rt = roundedThousandths_eq [OF dig assms(3)]
  have "10 ^ 4 * (whole * ?B + int N) + 5 * ?B = (10 ^ 4 * int N + 5 * ?B) + (whole * 1000) * (10 * ?B)"
    by (simp add: algebra_simps)
  moreover have "10 * ?B \<noteq> 0" by simp
  ultimately have "(10 ^ 4 * (whole * ?B + int N) + 5 * ?B) div (10 * ?B) =
      whole * 1000 + (10 ^ 4 * int N + 5 * ?B) div (10 * ?B)"
    by (simp only: div_mult_self1 not_False_eq_True)
  also have "\<dots> = whole * Scale + roundedThousandths f"
    by (simp add: rt Scale_def zdiv_int)
  also have "\<dots> = p"
  proof -
    from assms(1) have "0 \<le> whole" "whole \<le> 100" "whole = 100 \<longrightarrow> go_TrimByte f (CHR ''0'') = []"
      and p: "p = min TotalUnits (whole * Scale + roundedThousandths f)"
      using assms(2) by (auto elim!: Parse_InrD)
    moreover have "roundedThousandths f = 0" if "whole = 100"
      using digits_trim_zeros [OF _ assms(3)] calculation(3) that by (simp add: rt)
    moreover have "roundedThousandths f \<le> 1000" by (rule roundedThousandths_range(2) [OF dig assms(3)])
    ultimately show ?thesis
      by (cases "whole = 100") (auto simp: TotalUnits_def Scale_def)
  qed
  finally show ?thesis by simp
qed


section \<open>Printing\<close>

lemma digits_val_pad:
  "digits_val 10 0 (pad_zeros n s) = digits_val 10 0 s"
  by (simp add: pad_zeros_def digits_val_append digits_val_replicate_0)

lemma is_digit_digit_char: "d < 10 \<Longrightarrow> is_digit (digit_char d)"
  by (simp add: is_digit_def digit_char_def of_char_of)

lemma is_digit_format_nat: "\<forall>c \<in> set (format_nat 10 n). is_digit c"
  using set_format_nat [of 10 n] is_digit_digit_char by auto

lemma digits_pad: "\<forall>c \<in> set (pad_zeros k (format_nat 10 n)). is_digit c"
  using is_digit_format_nat by (auto simp: pad_zeros_def)

lemma is_digit_no_space_dot: "is_digit c \<Longrightarrow> \<not> is_space c \<and> c \<noteq> CHR ''.''"
  by (auto simp: is_digit_def is_space_def)

lemma length_format_nat_le: "n < 1000 \<Longrightarrow> length (format_nat 10 n) \<le> 3"
  by (subst format_nat.simps, subst format_nat.simps, subst format_nat.simps) auto

lemma pad3_length: "n < 1000 \<Longrightarrow> length (pad_zeros 3 (format_nat 10 n)) = 3"
  using length_format_nat_le [of n] by (simp add: pad_zeros_def)

text \<open>The text of a percentage splits into its whole and its three decimals.\<close>

lemma parseDecimalParts_print:
  fixes w r :: nat
  assumes "w \<le> 100" "r < 1000"
  shows "parseDecimalParts (format_nat 10 w @ ''.'' @ pad_zeros 3 (format_nat 10 r)) =
           Inr (int w, pad_zeros 3 (format_nat 10 r))"
proof -
  let ?w = "format_nat 10 w" and ?f = "pad_zeros 3 (format_nat 10 r)"
  let ?s = "?w @ ''.'' @ ?f"
  have dw: "\<forall>c \<in> set ?w. is_digit c" and df: "\<forall>c \<in> set ?f. is_digit c"
    by (rule is_digit_format_nat, rule digits_pad)
  then have "\<forall>c \<in> set ?s. \<not> is_space c" using is_digit_no_space_dot by (auto simp: is_space_def)
  then have trim: "go_TrimSpace ?s = ?s" by simp
  have "go_Split ?s (CHR ''.'') = [?w, ?f]"
    using dw df is_digit_no_space_dot by (simp add: go_Split_append [of "CHR ''.''" ?w ?f]) force
  moreover obtain c cs where "?w = c # cs" by (cases ?w) simp_all
  moreover from this dw have "c \<noteq> CHR ''-''" "c \<noteq> CHR ''+''" using is_digit_no_sign by auto
  moreover have "?f \<noteq> []" using pad3_length [OF assms(2)] by auto
  moreover have "go_Atoi ?w = Some (int w)"
    using assms by (intro Atoi_digits dw) (simp_all add: digits_val_format_nat MaxInt64_def)
  ultimately show ?thesis
    unfolding parseDecimalParts_def trim Let_def using df by simp
qed

lemma roundedThousandths_three:
  assumes "r < 1000"
  shows "roundedThousandths (pad_zeros 3 (format_nat 10 r)) = int r"
proof -
  have "digits_val 10 0 (pad_zeros 3 (format_nat 10 r)) = Some r"
    by (simp add: digits_val_pad digits_val_format_nat)
  from roundedThousandths_eq [OF digits_pad this] show ?thesis
    by (simp add: pad3_length [OF assms])
qed

lemma Percentage_String_nonneg:
  "0 \<le> p \<Longrightarrow> Percentage_String p =
     format_nat 10 (nat p div 1000) @ ''.'' @ pad_zeros 3 (format_nat 10 (nat p mod 1000))"
  by (cases "p = 0")
     (auto simp: Percentage_String_def Let_def Scale_def go_FormatInt_def fmt_03d_def
        nat_div_distrib nat_mod_distrib)


lemma Parse_Percentage_String:
  assumes "1 \<le> p" "p \<le> TotalUnits"
  shows "Parse (Percentage_String p) = Inr p"
proof -
  define w r where "w = nat p div 1000" and "r = nat p mod 1000"
  then have wr: "w \<le> 100" "r < 1000" "nat p = w * 1000 + r"
    using assms by (auto simp: TotalUnits_def Scale_def)
  then have p: "p = int w * Scale + int r" using assms by (simp add: Scale_def)
  have trim: "go_TrimByte (pad_zeros 3 (format_nat 10 r)) (CHR ''0'') = []" if "w = 100"
  proof -
    from that wr assms have "r = 0" by (simp add: TotalUnits_def Scale_def p)
    moreover have "go_TrimByte (pad_zeros 3 (format_nat 10 0)) (CHR ''0'') = []" by code_simp
    ultimately show ?thesis by simp
  qed
  show ?thesis
    unfolding Percentage_String_nonneg [of p, OF order.trans [OF zero_le_one assms(1)]]
      w_def [symmetric] r_def [symmetric] Parse_def parseDecimalParts_print [OF wr(1,2)]
    using assms wr trim p by (auto simp: roundedThousandths_three TotalUnits_def Scale_def)
qed

lemma null_not_weight: "Parse ''null'' = Inl (WeightNotDecimal ''null'')"
  by code_simp

section \<open>Choosing a variant\<close>

lemma select_loop_Some:
  "select_loop n c i us = Some k \<longleftrightarrow>
     i \<le> k \<and> k < i + length us \<and> (\<forall>j < k - i. c + sum_list (take (Suc j) us) \<le> n) \<and>
     n < c + sum_list (take (Suc (k - i)) us)"
proof (induction us arbitrary: c i)
  case (Cons u us)
  show ?case
  proof (cases "n < c + u")
    case True
    then show ?thesis by (auto simp: Let_def dest: spec [of _ 0])
  next
    case False
    have shift: "(\<forall>j < k - i. c + sum_list (take (Suc j) (u # us)) \<le> n) \<longleftrightarrow>
        (\<forall>j < k - Suc i. c + u + sum_list (take (Suc j) us) \<le> n)" if "Suc i \<le> k"
    proof -
      have "k - i = Suc (k - Suc i)" using that by simp
      then show ?thesis using False by (auto simp: All_less_Suc2 add.assoc)
    qed
    have last: "take (Suc (k - i)) (u # us) = u # take (Suc (k - Suc i)) us" if "Suc i \<le> k"
      using that by (simp add: Suc_diff_Suc flip: take_Suc_Cons)
    show ?thesis
      using False shift last by (cases "Suc i \<le> k") (auto simp: Cons.IH Let_def not_le less_Suc_eq_le add.assoc)
  qed
qed simp


lemma first_out_of_range_None:
  "first_out_of_range i us = None \<longleftrightarrow> (\<forall>u \<in> set us. 0 \<le> u \<and> u \<le> TotalUnits)"
  by (induction us arbitrary: i) auto

lemma validateRuntimeWeightTotal_ok_iff:
  "validateRuntimeWeightTotal (Some us) = None \<longleftrightarrow>
     us \<noteq> [] \<and> ((\<forall>u \<in> set us. u = 0) \<or>
       ((\<forall>u \<in> set us. 0 < u \<and> u \<le> TotalUnits) \<and> sum_list us = TotalUnits))"
proof -
  have cnt: "length (filter (\<lambda>u. u \<noteq> 0) us) = length us \<longleftrightarrow> (\<forall>u \<in> set us. u \<noteq> 0)"
    using filter_id_conv [of "\<lambda>u. u \<noteq> 0" us] length_filter_less [of _ us "\<lambda>u. u \<noteq> 0"] by fastforce
  have zero: "length (filter (\<lambda>u. u \<noteq> 0) us) = 0 \<longleftrightarrow> (\<forall>u \<in> set us. u = 0)"
    by (auto simp: filter_empty_conv)
  show ?thesis
  proof (cases "us = [] \<or> (\<forall>u \<in> set us. u = 0)")
    case True
    then show ?thesis by (auto simp: validateRuntimeWeightTotal_def Let_def zero)
  next
    case False
    then have "validateRuntimeWeightTotal (Some us) = None \<longleftrightarrow>
        (\<forall>u \<in> set us. u \<noteq> 0) \<and> first_out_of_range 0 us = None \<and> sum_list us = TotalUnits"
      unfolding validateRuntimeWeightTotal_def
      by (auto simp: Let_def cnt filter_empty_conv split: option.split)
    with False show ?thesis
      by (auto simp: first_out_of_range_None order_less_le)
  qed
qed

lemma sum_take_mono:
  assumes "\<forall>u \<in> set us. (0 :: int) < u" "i \<le> j"
  shows "sum_list (take i us) \<le> sum_list (take j us)"
proof -
  have "take j us = take i us @ take (j - i) (drop i us)"
    using assms(2) by (metis le_add_diff_inverse take_add)
  moreover have "0 \<le> sum_list (take (j - i) (drop i us))"
    by (rule sum_list_nonneg) (meson assms(1) in_set_takeD in_set_dropD less_imp_le)
  ultimately show ?thesis by simp
qed

text \<open>With positive weights a number picks variant \<open>i\<close> exactly when it lies in the \<open>i\<close>-th slice.\<close>

lemma selectWeightedResponseAt_slice:
  assumes pos: "\<forall>u \<in> set us. 0 < u" and n: "0 \<le> n" "n < sum_list us" and i: "i < length us"
  shows "selectWeightedResponseAt us n = Some i \<longleftrightarrow>
           sum_list (take i us) \<le> n \<and> n < sum_list (take (Suc i) us)"
proof -
  have slice: "select_loop n 0 0 us = Some k \<longleftrightarrow>
      k < length us \<and> sum_list (take k us) \<le> n \<and> n < sum_list (take (Suc k) us)" for k
  proof -
    have "(\<forall>j < k. sum_list (take (Suc j) us) \<le> n) \<longleftrightarrow> sum_list (take k us) \<le> n"
    proof (cases k)
      case (Suc m)
      then show ?thesis
        using sum_take_mono [OF pos] by (meson Suc_leI lessI order.trans)
    qed (use n in simp)
    then show ?thesis by (auto simp: select_loop_Some)
  qed
  have "select_loop n 0 0 us \<noteq> None"
  proof -
    have "\<exists>k. n < sum_list (take k us)" using n by (intro exI [of _ "length us"]) simp
    then obtain k where k: "n < sum_list (take k us)" "\<forall>j < k. \<not> n < sum_list (take j us)"
      using exists_least_iff [of "\<lambda>k. n < sum_list (take k us)"] by blast
    then obtain m where m: "k = Suc m" using n by (cases k) auto
    have "m < length us"
    proof (rule ccontr)
      assume "\<not> m < length us"
      then have "take m us = us" by simp
      with k(2) n(2) show False by (metis m lessI)
    qed
    with k m have "select_loop n 0 0 us = Some m" unfolding slice by (metis lessI not_le)
    then show ?thesis by simp
  qed
  moreover have "us \<noteq> []" "hd us \<noteq> 0" using pos i by (cases us; force)+
  ultimately have "selectWeightedResponseAt us n = select_loop n 0 0 us"
    by (cases us) (auto simp: selectWeightedResponseAt_def simp del: select_loop.simps)
  with slice i show ?thesis by simp
qed

lemma selectWeightedResponseAt_weight:
  assumes "\<forall>u \<in> set us. 0 < u" "i < length us"
  shows "card {n. 0 \<le> n \<and> n < sum_list us \<and> selectWeightedResponseAt us n = Some i} = nat (us ! i)"
proof -
  have le: "sum_list (take (Suc i) us) \<le> sum_list us" "0 \<le> sum_list (take i us)"
    using sum_take_mono [OF assms(1), of "Suc i" "length us"] sum_take_mono [OF assms(1), of 0 i] assms(2)
    by simp_all
  have "{n. 0 \<le> n \<and> n < sum_list us \<and> selectWeightedResponseAt us n = Some i} =
      {sum_list (take i us) ..< sum_list (take (Suc i) us)}"
    using selectWeightedResponseAt_slice [OF assms(1) _ _ assms(2)] le by auto
  then show ?thesis using assms(2) by (simp add: take_Suc_conv_app_nth)
qed


section \<open>Properties\<close>

text \<open>
  What \<open>Parse\<close> accepts is a weight of at least one and at most 100000 units, and the
  number of units is the decimal value of the text times 1000, rounded half up (never a truncation,
  never a float artefact): with \<open>n\<close> fraction digits of value \<open>N\<close> it is
  \<open>(10^4 * (whole * 10^n + N) + 5 * 10^n) div 10^(n+1)\<close>.
\<close>

theorem weight_parse_exact:
  assumes "Parse s = Inr p"
  shows "1 \<le> p \<and> p \<le> TotalUnits \<and>
    (\<exists>whole f N. parseDecimalParts s = Inr (whole, f) \<and> digits_val 10 0 f = Some N \<and>
       p = (10 ^ 4 * (whole * 10 ^ length f + int N) + 5 * 10 ^ length f) div 10 ^ Suc (length f))"
proof -
  from assms obtain whole f N where "parseDecimalParts s = Inr (whole, f)" "digits_val 10 0 f = Some N"
    by (rule Parse_InrD) blast
  with Parse_range [OF assms] Parse_value [OF assms] show ?thesis by blast
qed

theorem weight_parse_exact_witness:
  "Parse ''33.33349'' = Inr 33333 \<and> (1 :: int) \<le> 33333 \<and> 33333 \<le> TotalUnits"
proof -
  have h: "Parse ''33.33349'' = Inr 33333" by code_simp
  show ?thesis using h weight_parse_exact [OF h] by simp
qed

text \<open>
  the canonical three-decimal text of every valid weight parses back to the same weight, so
  a scenario file written by the program reads back with the same probabilities.
\<close>

theorem weight_text_roundtrip:
  assumes "1 \<le> p" and "p \<le> TotalUnits"
  shows "Parse (Percentage_String p) = Inr p \<and> UnmarshalJSON (Percentage_String p) = Inr p"
proof -
  have "Percentage_String p \<noteq> ''null''"
    using Parse_Percentage_String [OF assms] by (metis Inl_Inr_False null_not_weight)
  with Parse_Percentage_String [OF assms] show ?thesis by (simp add: UnmarshalJSON_def)
qed

theorem weight_text_roundtrip_witness:
  "(1 :: int) \<le> 33333 \<and> 33333 \<le> TotalUnits \<and> Parse (Percentage_String 33333) = Inr 33333 \<and>
   Percentage_String 33333 = ''33.333''"
proof -
  have h: "(1 :: int) \<le> 33333" "33333 \<le> TotalUnits" by (simp_all add: TotalUnits_def Scale_def)
  have "Percentage_String 33333 = ''33.333''" by code_simp
  with h weight_text_roundtrip [OF h] show ?thesis by simp
qed

text \<open>
  C35: for a list of variants that the registry accepts and whose first weight is set, each
  variant \<open>i\<close> is chosen by exactly \<open>us ! i\<close> of the 100000 equally likely random numbers: the
  probability of a variant is its weight, exactly.  Where no weight is set, each variant is chosen by
  exactly one of the \<open>length us\<close> numbers.
\<close>

theorem weighted_choice_exact:
  assumes ok: "validateRuntimeWeightTotal (Some us) = None" and i: "i < length us"
  shows "if hd us = 0
    then card {n. 0 \<le> n \<and> n < int (length us) \<and> selectWeightedResponseAt us n = Some i} = 1
    else card {n. 0 \<le> n \<and> n < TotalUnits \<and> selectWeightedResponseAt us n = Some i} = nat (us ! i)"
proof (cases "hd us = 0")
  case True
  obtain u rest where us: "us = u # rest" using i by (cases us) auto
  have "{n. 0 \<le> n \<and> n < int (length us) \<and> selectWeightedResponseAt us n = Some i} = {int i}"
    using True i us by (auto simp: selectWeightedResponseAt_def)
  with True show ?thesis by simp
next
  case False
  moreover have "hd us \<in> set us" using i by (cases us) auto
  ultimately have "\<forall>u \<in> set us. 0 < u" "sum_list us = TotalUnits"
    using ok unfolding validateRuntimeWeightTotal_ok_iff by auto
  with False selectWeightedResponseAt_weight [OF _ i] show ?thesis by simp
qed

theorem weighted_choice_exact_witness:
  "validateRuntimeWeightTotal (Some [33333, 66667]) = None \<and>
   card {n. 0 \<le> n \<and> n < TotalUnits \<and> selectWeightedResponseAt [33333, 66667] n = Some 1} = 66667"
proof -
  have h: "validateRuntimeWeightTotal (Some [33333, 66667]) = None" by code_simp
  show ?thesis using h weighted_choice_exact [OF h, of 1] by simp
qed

end
