(* ===== verification/Scenario_Compile.thy ===== *)
theory Scenario_Compile
  imports Scenario_Match Weight
begin

text \<open>
  Validation and compilation of a scenario (\<open>validateAndCompile\<close> and what it calls in
  \<^verbatim>\<open>internal/storage/scenario.go\<close>, \<^verbatim>\<open>streaming.go\<close> and \<^verbatim>\<open>scenario_v2.go\<close>): endpoint patterns, exact routes,
  header rules, the response template and the branches.

  The code writes into the scenario it is given; the model returns the new scenario, or the error.  It keeps what the
  code keeps: regular expressions compiled by an earlier validation of the same scenario are added to, not replaced.
  A Go map is visited in the order of its association list.
\<close>

section \<open>Errors in sequence\<close>

definition sbind :: "'e + 'a \<Rightarrow> ('a \<Rightarrow> 'e + 'b) \<Rightarrow> 'e + 'b" where
  "sbind x f = (case x of Inl e \<Rightarrow> Inl e | Inr a \<Rightarrow> f a)"

definition nofail :: "'e option \<Rightarrow> 'e + 'a \<Rightarrow> 'e + 'a" where
  "nofail err k = (case err of Some e \<Rightarrow> Inl e | None \<Rightarrow> k)"

lemma sbind_Inr: "sbind x f = Inr b \<longleftrightarrow> (\<exists>a. x = Inr a \<and> f a = Inr b)"
  by (auto simp: sbind_def split: sum.split)

lemma nofail_Inr: "nofail err k = Inr b \<longleftrightarrow> err = None \<and> k = Inr b"
  by (auto simp: nofail_def split: option.split)

fun map_err :: "('a \<Rightarrow> 'e + 'b) \<Rightarrow> 'a list \<Rightarrow> 'e + 'b list" where
  "map_err f [] = Inr []"
| "map_err f (x # xs) = sbind (f x) (\<lambda>y. sbind (map_err f xs) (\<lambda>ys. Inr (y # ys)))"

lemma map_err_Inr: "map_err f xs = Inr ys \<Longrightarrow> list_all2 (\<lambda>x y. f x = Inr y) xs ys"
  by (induction xs arbitrary: ys) (auto simp: sbind_Inr)

section \<open>Endpoint patterns\<close>

definition is_meta :: "char \<Rightarrow> bool" where
  "is_meta c \<longleftrightarrow> c \<in> set (CHR 0x5C # ''.+*?()|[]{}^$'')"

fun QuoteMeta :: "string \<Rightarrow> string" where
  "QuoteMeta [] = []"
| "QuoteMeta (c # cs) = (if is_meta c then [CHR 0x5C, c] else [c]) @ QuoteMeta cs"

definition is_name_start :: "char \<Rightarrow> bool" where
  "is_name_start c \<longleftrightarrow> (let n = (of_char c :: nat) in 65 \<le> n \<and> n \<le> 90 \<or> 97 \<le> n \<and> n \<le> 122 \<or> n = 95)"

definition is_name_char :: "char \<Rightarrow> bool" where
  "is_name_char c \<longleftrightarrow> is_name_start c \<or> (let n = (of_char c :: nat) in 48 \<le> n \<and> n \<le> 57)"

text \<open>The name of a placeholder \<open>{name}\<close> at the front of a text: what \<open>endpointCapturePattern\<close> matches.\<close>

definition placeholder :: "string \<Rightarrow> string option" where
  "placeholder s =
     (case s of
        c # rest \<Rightarrow>
          (let name = takeWhile is_name_char rest in
           if c = CHR ''{'' \<and> name \<noteq> [] \<and> is_name_start (hd name) \<and>
              drop (length name) rest \<noteq> [] \<and> hd (drop (length name) rest) = CHR ''}''
           then Some name else None)
      | [] \<Rightarrow> None)"

text \<open>The text of the regular expression between \<open>^\<close> and \<open>$\<close>, and the names, from left to right.\<close>

function endpoint_regex :: "string \<Rightarrow> string \<Rightarrow> string \<times> string list" where
  "endpoint_regex lit [] = (QuoteMeta lit, [])"
| "endpoint_regex lit (c # rest) =
     (case placeholder (c # rest) of
        Some name \<Rightarrow>
          (let (r, names) = endpoint_regex [] (drop (length name + 1) rest)
           in (QuoteMeta lit @ ''(?P<'' @ name @ ''>[^/]+)'' @ r, name # names))
      | None \<Rightarrow> endpoint_regex (lit @ [c]) rest)"
  by pat_completeness auto

termination
  by (relation "measure (\<lambda>(lit, s). length s)") (auto simp: le_imp_less_Suc)

definition compileEndpoint :: "('re, 'net, 'ip) golib \<Rightarrow> string \<Rightarrow> go_error + 're compiledEndpoint" where
  "compileEndpoint lib raw =
     (if raw = [] then Inr \<lparr>ce_re = None, ce_raw = [], ce_captures = []\<rparr>
      else if go_HasPrefix raw ''re:''
      then sbind (re_Compile lib (go_TrimPrefix raw ''re:'')) (\<lambda>re. Inr \<lparr>ce_re = Some re, ce_raw = raw, ce_captures = []\<rparr>)
      else (let (body, captures) = endpoint_regex [] raw in
            sbind (re_Compile lib (''^'' @ body @ ''$''))
              (\<lambda>re. Inr \<lparr>ce_re = Some re, ce_raw = raw, ce_captures = captures\<rparr>)))"

definition CompileEndpointRegex :: "('re, 'net, 'ip) golib \<Rightarrow> string \<Rightarrow> go_error + 're option" where
  "CompileEndpointRegex lib raw = sbind (compileEndpoint lib raw) (\<lambda>ce. Inr (ce_re ce))"

section \<open>Exact routes\<close>

definition reservedICAPServicePaths :: "(string \<times> string) list" where
  "reservedICAPServicePaths =
     [(''/reqmod'', MethodREQMOD), (''/respmod'', MethodRESPMOD), (''/options'', MethodOPTIONS)]"

definition reserved_conflict ::
  "('re, 'net, 'ip) golib \<Rightarrow> string \<Rightarrow> string \<Rightarrow> 're compiledEndpoint \<Rightarrow> string \<times> string \<Rightarrow> go_error option" where
  "reserved_conflict lib meth raw compiled entry =
     (let (path, reservedMethod) = entry in
      if go_HasPrefix raw ''re:'' \<or> CHR ''{'' \<in> set raw
      then (case ce_re compiled of
              Some re \<Rightarrow>
                if re_MatchString lib re path
                then Some (ErrNew (''route pattern '' @ go_Quote raw @ '' matches reserved service path '' @ go_Quote path))
                else None
            | None \<Rightarrow> None)
      else if raw \<noteq> path then None
      else if reservedMethod = MethodOPTIONS \<or> meth \<noteq> reservedMethod
      then Some (ErrNew (''route '' @ meth @ '' -> '' @ raw @ '' conflicts with reserved service path''))
      else None)"

fun first_error :: "('a \<Rightarrow> 'e option) \<Rightarrow> 'a list \<Rightarrow> 'e option" where
  "first_error f [] = None"
| "first_error f (x # xs) = (case f x of Some e \<Rightarrow> Some e | None \<Rightarrow> first_error f xs)"

definition validateReservedExactRoute ::
  "('re, 'net, 'ip) golib \<Rightarrow> string \<Rightarrow> string \<Rightarrow> 're compiledEndpoint \<Rightarrow> go_error option" where
  "validateReservedExactRoute lib meth raw compiled =
     first_error (reserved_conflict lib meth raw compiled) reservedICAPServicePaths"

definition exactRouteMethodOrder :: "string list" where
  "exactRouteMethodOrder = [MethodREQMOD, MethodRESPMOD]"

definition orderedRouteMethods :: "(string \<times> string list) list \<Rightarrow> string list" where
  "orderedRouteMethods routes = filter (\<lambda>m. map_of routes m \<noteq> None) exactRouteMethodOrder"

fun endpoints_error :: "string \<Rightarrow> string list \<Rightarrow> string list \<Rightarrow> go_error option" where
  "endpoints_error prefix seen [] = None"
| "endpoints_error prefix seen (e # es) =
     (if go_TrimSpace e = [] then Some (ErrNew (prefix @ '' contains an empty endpoint''))
      else if e \<in> set seen then Some (ErrNew (prefix @ '' contains duplicate endpoint '' @ go_Quote e))
      else endpoints_error prefix (e # seen) es)"

definition validateRouteMap :: "string \<Rightarrow> (string \<times> string list) list \<Rightarrow> go_error option" where
  "validateRouteMap place routes =
     (if routes = [] then Some (ErrNew (place @ '' must not be empty''))
      else first_error (\<lambda>meth.
        if meth \<noteq> MethodREQMOD \<and> meth \<noteq> MethodRESPMOD
        then Some (ErrNew (place @ '': invalid route method '' @ go_Quote meth @ '' (allowed: REQMOD, RESPMOD)''))
        else (case map_of routes meth of
                Some (e # es) \<Rightarrow> endpoints_error (place @ ''.'' @ meth) [] (e # es)
              | _ \<Rightarrow> Some (ErrNew (place @ ''.'' @ meth @ '' must contain at least one endpoint''))))
        (sort (map fst routes)))"

definition compile_route ::
  "('re, 'net, 'ip) golib \<Rightarrow> string \<Rightarrow> string \<Rightarrow> string \<Rightarrow> go_error + 're compiledEndpoint" where
  "compile_route lib name meth endpoint =
     (case compileEndpoint lib endpoint of
        Inl e \<Rightarrow> Inl (ScenarioErrorCause ''compile'' name (''match.routes.'' @ meth) e)
      | Inr compiled \<Rightarrow>
          (case validateReservedExactRoute lib meth endpoint compiled of
             Some e \<Rightarrow> Inl (ErrWrap (''scenario '' @ go_Quote name @ '': '') e)
           | None \<Rightarrow> Inr compiled))"

definition compile_routes ::
  "('re, 'net, 'ip) golib \<Rightarrow> ('re, 'net) Scenario \<Rightarrow> go_error + ('re, 'net) Scenario" where
  "compile_routes lib s =
     (let routes = Routes (c_Match s); s0 = s\<lparr>s_compiledRoutes := None\<rparr> in
      if routes = [] then Inr s0
      else nofail (validateRouteMap (''scenario '' @ s_Name s @ '' routes'') routes)
        (sbind (map_err (\<lambda>meth. sbind (map_err (compile_route lib (s_Name s) meth) (the (map_of routes meth)))
                                  (\<lambda>ces. Inr (meth, ces))) (orderedRouteMethods routes))
           (\<lambda>compiled. Inr (s0\<lparr>s_compiledRoutes := Some compiled\<rparr>))))"

definition compile_paths :: "('re, 'net, 'ip) golib \<Rightarrow> ('re, 'net) Scenario \<Rightarrow> go_error + ('re, 'net) Scenario" where
  "compile_paths lib s =
     (if Paths (c_Match s) \<noteq> []
      then sbind (map_err (\<lambda>p. case compileEndpoint lib p of
                              Inl e \<Rightarrow> Inl (ScenarioErrorCause ''compile'' (s_Name s) ''match.endpoint'' e)
                            | Inr ce \<Rightarrow> Inr ce) (Paths (c_Match s)))
             (\<lambda>ces. Inr (s\<lparr>s_compiledPaths := ces\<rparr>))
      else if Path (c_Match s) \<noteq> []
      then (case re_Compile lib (Path (c_Match s)) of
              Inl e \<Rightarrow> Inl (ScenarioErrorCause ''compile'' (s_Name s) ''match.path_pattern'' e)
            | Inr re \<Rightarrow> Inr (s\<lparr>s_compiledPaths := [\<lparr>ce_re = Some re, ce_raw = Path (c_Match s), ce_captures = []\<rparr>]\<rparr>))
      else Inr s)"

section \<open>Header rules\<close>

definition normalize_rule :: "string \<Rightarrow> (string \<times> string) list \<Rightarrow> string \<times> string list \<Rightarrow> go_error + string \<times> string list" where
  "normalize_rule place exact rule =
     (let (key, items) = rule in
      if map_of exact key \<noteq> None then Inl (ErrNew (place @ ''.'' @ key @ '' cannot use both scalar and list matchers''))
      else if items = [] then Inl (ErrNew (place @ ''.'' @ key @ '' list must not be empty''))
      else sbind (map_err (\<lambda>(i, v).
             if go_TrimSpace v = []
             then Inl (ErrNew (place @ ''.'' @ key @ '' list item #'' @ go_Itoa (int i + 1) @ '' must not be empty''))
             else Inr (if isContentTypeHeader key then go_TrimSpace v else go_ToLower v)) (enumerate 0 items))
             (\<lambda>vs. Inr (key, vs)))"

definition normalizeHeaderContainsRules ::
  "string \<Rightarrow> (string \<times> string) list \<Rightarrow> (string \<times> string list) list \<Rightarrow> go_error + (string \<times> string list) list" where
  "normalizeHeaderContainsRules place exact rules = map_err (normalize_rule place exact) rules"

fun compile_media_types ::
  "('re, 'net, 'ip) golib \<Rightarrow> nat \<Rightarrow> string list \<Rightarrow> compiledHeaderListMatcher \<Rightarrow> go_error + compiledHeaderListMatcher" where
  "compile_media_types lib i [] m = Inr m"
| "compile_media_types lib i (v # vs) m =
     (case mime_ParseMediaType lib v of
        Inl e \<Rightarrow> Inl (ErrWrap (''list item #'' @ go_Itoa (int i + 1) @ '' '' @ go_Quote v @ '' is not a valid media type: '') e)
      | Inr (mediaType, parameters) \<Rightarrow>
          (let (name, subtype, hasSubtype) = go_Cut mediaType (CHR ''/'') in
           if \<not> hasSubtype \<or> name = [] \<or> subtype = []
           then Inl (ErrNew (''list item #'' @ go_Itoa (int i + 1) @ '' '' @ go_Quote v @ '' must use type/subtype media type syntax''))
           else if CHR '';'' \<in> set v
           then compile_media_types lib (Suc i) vs
                  (m\<lparr>hl_parameterized := hl_parameterized m @ [\<lparr>ct_parameters = parameters, ct_mediaType = mediaType\<rparr>]\<rparr>)
           else compile_media_types lib (Suc i) vs (m\<lparr>hl_mediaTypes := hl_mediaTypes m @ [mediaType]\<rparr>)))"

definition compileContentTypeListMatcher :: "('re, 'net, 'ip) golib \<Rightarrow> string list \<Rightarrow> go_error + compiledHeaderListMatcher" where
  "compileContentTypeListMatcher lib vs =
     compile_media_types lib 0 vs \<lparr>hl_mediaTypes = [], hl_parameterized = [], hl_contains = [], hl_isContentType = True\<rparr>"

definition compileHeaderListMatchers ::
  "('re, 'net, 'ip) golib \<Rightarrow> string \<Rightarrow> (string \<times> string list) list \<Rightarrow> go_error + (string \<times> compiledHeaderListMatcher) list" where
  "compileHeaderListMatchers lib place rules =
     map_err (\<lambda>(key, vs).
       if isContentTypeHeader key
       then (case compileContentTypeListMatcher lib vs of
               Inl e \<Rightarrow> Inl (ErrWrap (place @ ''.'' @ key @ '': '') e)
             | Inr m \<Rightarrow> Inr (key, m))
       else Inr (key, \<lparr>hl_mediaTypes = [], hl_parameterized = [], hl_contains = vs, hl_isContentType = False\<rparr>)) rules"

definition compile_lists ::
  "('re, 'net, 'ip) golib \<Rightarrow> string \<Rightarrow> string \<Rightarrow> ('re, 'z) conditions_scheme \<Rightarrow> go_error + ('re, 'z) conditions_scheme" where
  "compile_lists lib place httpPlace c =
     sbind (normalizeHeaderContainsRules place (mr_Headers (c_Match c)) (HeaderContains (c_Match c))) (\<lambda>hc.
     sbind (normalizeHeaderContainsRules httpPlace (HTTPHeaders (c_Match c)) (HTTPHeaderContains (c_Match c))) (\<lambda>hhc.
     sbind (compileHeaderListMatchers lib place hc) (\<lambda>cl.
     sbind (compileHeaderListMatchers lib httpPlace hhc) (\<lambda>chl.
     Inr (c\<lparr>c_Match := (c_Match c)\<lparr>HeaderContains := hc, HTTPHeaderContains := hhc\<rparr>,
            c_compiledHeaderLists := cl, c_compiledHTTPLists := chl\<rparr>)))))"

fun compile_regexes ::
  "('re, 'net, 'ip) golib \<Rightarrow> string \<Rightarrow> (string \<Rightarrow> string) \<Rightarrow> (string \<times> string) list \<Rightarrow> (string \<times> 're) list \<Rightarrow> go_error + (string \<times> 're) list" where
  "compile_regexes lib name field [] acc = Inr acc"
| "compile_regexes lib name field ((key, v) # rest) acc =
     (if \<not> go_HasPrefix v ''re:'' then compile_regexes lib name field rest acc
      else (case re_Compile lib (go_TrimPrefix v ''re:'') of
              Inl e \<Rightarrow> Inl (ScenarioErrorCause ''compile'' name (field key) e)
            | Inr re \<Rightarrow> compile_regexes lib name field rest (AList.update key re acc)))"

definition compile_url ::
  "('re, 'net, 'ip) golib \<Rightarrow> string \<Rightarrow> string \<Rightarrow> string \<Rightarrow> 're option \<Rightarrow> go_error + 're option" where
  "compile_url lib name field url old =
     (if go_HasPrefix url ''re:''
      then (case re_Compile lib (go_TrimPrefix url ''re:'') of
              Inl e \<Rightarrow> Inl (ScenarioErrorCause ''compile'' name field e)
            | Inr re \<Rightarrow> Inr (Some re))
      else Inr old)"

definition compile_patterns ::
  "('re, 'net, 'ip) golib \<Rightarrow> string \<Rightarrow> (string \<Rightarrow> string) \<Rightarrow> (string \<Rightarrow> string) \<Rightarrow> string \<Rightarrow>
   ('re, 'z) conditions_scheme \<Rightarrow> go_error + ('re, 'z) conditions_scheme" where
  "compile_patterns lib name field httpField urlField c =
     sbind (compile_regexes lib name field (mr_Headers (c_Match c)) (c_compiledHeaders c)) (\<lambda>ch.
     sbind (compile_regexes lib name httpField (HTTPHeaders (c_Match c)) (c_compiledHTTPHeaders c)) (\<lambda>chh.
     sbind (compile_url lib name urlField (HTTPURL (c_Match c)) (c_compiledHTTPURL c)) (\<lambda>url.
     Inr (c\<lparr>c_compiledHeaders := ch, c_compiledHTTPHeaders := chh, c_compiledHTTPURL := url\<rparr>))))"

section \<open>Responses\<close>

definition validateResponseStreaming ::
  "(string \<Rightarrow> go_error option) \<Rightarrow> (string \<Rightarrow> go_error + 're) \<Rightarrow> string \<Rightarrow> ResponseTemplate \<Rightarrow> string list \<Rightarrow>
   go_error + ResponseTemplate" where
  "validateResponseStreaming stat recompile place resp methods =
     (case rp_Stream resp of
        None \<Rightarrow> Inr resp
      | Some st \<Rightarrow>
          (case validateStreamHTTPBodyConflict (rp_HTTPBody resp) (rp_HTTPBodyFile resp) of
             Some e \<Rightarrow> Inl (ErrWrap (place @ '' stream: '') e)
           | None \<Rightarrow>
               (case validateStreamConfig stat recompile st methods of
                  Inl e \<Rightarrow> Inl (ErrWrap (place @ '' stream: '') e)
                | Inr st' \<Rightarrow> Inr (resp\<lparr>rp_Stream := Some st'\<rparr>))))"

definition validateWeightedStreaming ::
  "(string \<Rightarrow> go_error option) \<Rightarrow> (string \<Rightarrow> go_error + 're) \<Rightarrow> string \<Rightarrow> WeightedResponse list \<Rightarrow> string list \<Rightarrow>
   go_error + WeightedResponse list" where
  "validateWeightedStreaming stat recompile place weighted methods =
     map_err (\<lambda>(i, w).
       let prefix = place @ '' weighted response #'' @ go_Itoa (int i + 1) @ '' stream: '' in
       case wr_Stream w of
         None \<Rightarrow> Inr w
       | Some st \<Rightarrow>
           (case validateStreamHTTPBodyConflict (wr_HTTPBody w) (wr_HTTPBodyFile w) of
              Some e \<Rightarrow> Inl (ErrWrap prefix e)
            | None \<Rightarrow>
                (case validateStreamConfig stat recompile st methods of
                   Inl e \<Rightarrow> Inl (ErrWrap prefix e)
                 | Inr st' \<Rightarrow> Inr (w\<lparr>wr_Stream := Some st'\<rparr>)))) (enumerate 0 weighted)"

text \<open>The texts of the errors of \<open>validateRuntimeWeightTotal\<close>, which theory \<open>Weight\<close> models on the weights alone.\<close>

definition weight_error_text :: "string \<Rightarrow> weight_total_error \<Rightarrow> go_error" where
  "weight_error_text place e =
     (case e of
        NoVariants \<Rightarrow> ErrNew (place @ '': responses must contain at least one weighted variant'')
      | MixedWeights \<Rightarrow> ErrNew (place @ '': either all response variants must define weight or none of them'')
      | WeightOutOfRange i \<Rightarrow>
          ErrNew (place @ '' variant #'' @ go_Itoa (int i) @ '': weight must be greater than 0.000 and no greater than 100.000'')
      | WrongTotal t \<Rightarrow> ErrNew (place @ '': response weights total '' @ Percentage_String t @ '', want exactly 100.000''))"

definition weights_error :: "string \<Rightarrow> WeightedResponse list option \<Rightarrow> go_error option" where
  "weights_error place ws = map_option (weight_error_text place) (validateRuntimeWeightTotal (map_option (map wr_Weight) ws))"

definition opt_weighted ::
  "(WeightedResponse list \<Rightarrow> go_error + WeightedResponse list) \<Rightarrow> WeightedResponse list option \<Rightarrow> go_error + WeightedResponse list option" where
  "opt_weighted f ws = (case ws of None \<Rightarrow> Inr None | Some l \<Rightarrow> sbind (f l) (\<lambda>l'. Inr (Some l')))"

definition default_status :: "ResponseTemplate \<Rightarrow> ResponseTemplate" where
  "default_status r =
     (let r1 = (if rp_ICAPStatus r = 0 \<and> rp_Status r \<noteq> 0 then r\<lparr>rp_ICAPStatus := rp_Status r\<rparr> else r)
      in if rp_ICAPStatus r1 = 0 then r1\<lparr>rp_ICAPStatus := 204\<rparr> else r1)"

section \<open>The whole validation\<close>

definition compile_branch ::
  "('re, 'net, 'ip) golib \<Rightarrow> (string \<Rightarrow> go_error option) \<Rightarrow> string \<Rightarrow> string list \<Rightarrow> nat \<times> 're Branch \<Rightarrow> go_error + 're Branch" where
  "compile_branch lib stat name methods ib =
     (let (idx, b) = ib;
          place = name @ '' branch #'' @ go_Itoa (int idx + 1);
          field = (\<lambda>suffix. ''branches['' @ go_Itoa (int idx) @ '']'' @ suffix) in
      sbind (compile_lists lib (place @ '' when'') (place @ '' when_http.headers'') b) (\<lambda>b1.
      let r = b_Response b1;
          r1 = (if rp_ICAPStatus r = 0 \<and> rp_Status r \<noteq> 0 then r\<lparr>rp_ICAPStatus := rp_Status r\<rparr> else r) in
      sbind (validateResponseStreaming stat (re_Compile lib) place r1 methods) (\<lambda>r2.
      nofail (weights_error place (b_WeightedResponses b1))
      (sbind (opt_weighted (\<lambda>l. validateWeightedStreaming stat (re_Compile lib) place l methods) (b_WeightedResponses b1)) (\<lambda>ws.
      compile_patterns lib name (\<lambda>k. field (''.when.'' @ k)) (\<lambda>k. field (''.when_http.headers.'' @ k)) (field ''.when_http.url'')
        (b1\<lparr>b_Response := r2, b_WeightedResponses := ws\<rparr>))))))"

definition compile_cidrs :: "('re, 'net, 'ip) golib \<Rightarrow> ('re, 'net) Scenario \<Rightarrow> go_error + ('re, 'net) Scenario" where
  "compile_cidrs lib s =
     (if CIDRRanges (c_Match s) = [] then Inr s
      else sbind (map_err (\<lambda>cidr. case net_ParseCIDR lib cidr of
                             Inl e \<Rightarrow> Inl (ScenarioErrorCause ''validate'' (s_Name s) ''match.cidr_ranges'' e)
                           | Inr n \<Rightarrow> Inr n) (CIDRRanges (c_Match s)))
             (\<lambda>ns. Inr (s\<lparr>s_compiledCIDRs := ns\<rparr>)))"

definition compile_body :: "('re, 'net, 'ip) golib \<Rightarrow> ('re, 'net) Scenario \<Rightarrow> go_error + ('re, 'net) Scenario" where
  "compile_body lib s =
     (if BodyPattern (c_Match s) = [] then Inr s
      else (case re_Compile lib (BodyPattern (c_Match s)) of
              Inl e \<Rightarrow> Inl (ScenarioErrorCause ''compile'' (s_Name s) ''match.body_pattern'' e)
            | Inr re \<Rightarrow> Inr (s\<lparr>s_compiledBody := Some re\<rparr>)))"

definition validateAndCompile ::
  "('re, 'net, 'ip) golib \<Rightarrow> (string \<Rightarrow> go_error option) \<Rightarrow> ('re, 'net) Scenario \<Rightarrow> go_error + ('re, 'net) Scenario" where
  "validateAndCompile lib stat s =
     (if s_Name s = [] then Inl (ScenarioError ''validate'' [] ''scenario name is required'')
      else
      sbind (compile_routes lib s) (\<lambda>s1.
      sbind (compile_paths lib s1) (\<lambda>s2.
      sbind (compile_body lib s2) (\<lambda>s3.
      let name = s_Name s; methods = Methods (c_Match s); resp = default_status (s_Response s3) in
      nofail (if rp_BodyFile resp = [] then None
              else map_option (ScenarioErrorCause ''load_body'' name ''response.body_file'') (stat (rp_BodyFile resp)))
      (sbind (validateResponseStreaming stat (re_Compile lib) (name @ '' response'') resp methods) (\<lambda>resp'.
      nofail (weights_error name (s_WeightedResponses s3))
      (sbind (opt_weighted (\<lambda>l. validateWeightedStreaming stat (re_Compile lib) name l methods) (s_WeightedResponses s3)) (\<lambda>ws.
      sbind (compile_lists lib (name @ '' match.headers'') (name @ '' match.http_headers'')
               (s3\<lparr>s_Response := resp', s_WeightedResponses := ws\<rparr>)) (\<lambda>s4.
      sbind (compile_patterns lib name (\<lambda>k. ''match.headers.'' @ k) (\<lambda>k. ''match.http_headers.'' @ k) ''match.http_url'' s4) (\<lambda>s5.
      sbind (compile_cidrs lib s5) (\<lambda>s6.
      sbind (map_err (compile_branch lib stat name methods) (enumerate 0 (s_Branches s6))) (\<lambda>bs.
      Inr (s6\<lparr>s_Branches := bs\<rparr>))))))))))))) "

section \<open>Literal endpoints\<close>

definition literal :: "string \<Rightarrow> bool" where
  "literal p \<longleftrightarrow> p \<noteq> [] \<and> \<not> go_HasPrefix p ''re:'' \<and> CHR ''{'' \<notin> set p"

text \<open>
  What \<open>regexp\<close> documents for the expressions built here: \<open>QuoteMeta\<close> returns an expression that matches
  the literal text, and \<open>^\<close> and \<open>$\<close> anchor it at the ends of the input.
\<close>

definition regexp_literal :: "('re, 'net, 'ip) golib \<Rightarrow> bool" where
  "regexp_literal lib \<longleftrightarrow>
     (\<forall>p. \<exists>re. re_Compile lib (''^'' @ QuoteMeta p @ ''$'') = Inr re \<and> (\<forall>s. re_FindStringSubmatch lib re s \<noteq> None \<longleftrightarrow> s = p))"

definition matches_only :: "('re, 'net, 'ip) golib \<Rightarrow> 're compiledEndpoint \<Rightarrow> string \<Rightarrow> bool" where
  "matches_only lib ce p \<longleftrightarrow> ce_captures ce = [] \<and> (\<exists>re. ce_re ce = Some re \<and> (\<forall>s. re_FindStringSubmatch lib re s \<noteq> None \<longleftrightarrow> s = p))"

lemma endpoint_regex_literal: "CHR ''{'' \<notin> set s \<Longrightarrow> endpoint_regex lit s = (QuoteMeta (lit @ s), [])"
proof (induction s arbitrary: lit)
  case (Cons c s)
  then have "placeholder (c # s) = None" by (auto simp: placeholder_def Let_def)
  then show ?case using Cons by simp
qed simp

lemma compileEndpoint_literal:
  assumes "regexp_literal lib" "literal p" "compileEndpoint lib p = Inr ce"
  shows "matches_only lib ce p"
  using assms
  by (auto simp: compileEndpoint_def literal_def endpoint_regex_literal sbind_Inr regexp_literal_def matches_only_def)
     (metis Inr_inject)+

lemma try_endpoints_literal:
  assumes "list_all2 (\<lambda>p ce. matches_only lib ce p) ps ces"
  shows "try_endpoints lib ces path = (if path \<in> set ps then Some [] else None)"
  using assms
proof (induction ps ces rule: list_all2_induct)
  case (Cons p ps ce ces)
  then obtain re where re: "ce_re ce = Some re" "\<And>s. re_FindStringSubmatch lib re s \<noteq> None \<longleftrightarrow> s = p" "ce_captures ce = []"
    by (auto simp: matches_only_def)
  then show ?case using Cons.IH re(2) [of path] by (cases "re_FindStringSubmatch lib re path") auto
qed simp

section \<open>What validation establishes\<close>

definition uncompiled :: "('re, 'net) Scenario \<Rightarrow> bool" where
  "uncompiled s \<longleftrightarrow> s_compiledRoutes s = None \<and> s_compiledPaths s = [] \<and> s_compiledBody s = None \<and> s_compiledCIDRs s = []"

definition compiled_by :: "('re, 'net, 'ip) golib \<Rightarrow> string list \<Rightarrow> 're compiledEndpoint list \<Rightarrow> bool" where
  "compiled_by lib ps ces \<longleftrightarrow> list_all2 (\<lambda>p ce. compileEndpoint lib p = Inr ce) ps ces"

definition well_compiled :: "('re, 'net, 'ip) golib \<Rightarrow> ('re, 'net) Scenario \<Rightarrow> bool" where
  "well_compiled lib s \<longleftrightarrow>
     (Paths (c_Match s) \<noteq> [] \<longrightarrow> compiled_by lib (Paths (c_Match s)) (s_compiledPaths s)) \<and>
     (Paths (c_Match s) = [] \<and> Path (c_Match s) = [] \<longrightarrow> s_compiledPaths s = []) \<and>
     (HeaderContains (c_Match s) = [] \<longrightarrow> c_compiledHeaderLists s = []) \<and>
     (BodyPattern (c_Match s) = [] \<longrightarrow> s_compiledBody s = None) \<and>
     (CIDRRanges (c_Match s) = [] \<longrightarrow> s_compiledCIDRs s = []) \<and>
     (case s_compiledRoutes s of
        None \<Rightarrow> Routes (c_Match s) = []
      | Some cr \<Rightarrow> Routes (c_Match s) \<noteq> [] \<and>
          (\<forall>m. case map_of cr m of
                 None \<Rightarrow> map_of (Routes (c_Match s)) m = None
               | Some ces \<Rightarrow> m \<in> set exactRouteMethodOrder \<and> (\<exists>eps. map_of (Routes (c_Match s)) m = Some eps \<and> eps \<noteq> [] \<and> compiled_by lib eps ces \<and>
                   list_all2 (\<lambda>e ce. validateReservedExactRoute lib m e ce = None) eps ces)))"

lemma well_compiled_route:
  assumes "well_compiled lib s" "s_compiledRoutes s = Some cr"
  shows "case map_of cr m of
      None \<Rightarrow> map_of (Routes (c_Match s)) m = None
    | Some ces \<Rightarrow> m \<in> set exactRouteMethodOrder \<and> (\<exists>eps. map_of (Routes (c_Match s)) m = Some eps \<and> eps \<noteq> [] \<and> compiled_by lib eps ces \<and>
        list_all2 (\<lambda>e ce. validateReservedExactRoute lib m e ce = None) eps ces)"
  using assms by (simp add: well_compiled_def)

lemma compile_route_Inr:
  "compile_route lib name m e = Inr ce \<Longrightarrow> compileEndpoint lib e = Inr ce \<and> validateReservedExactRoute lib m e ce = None"
  by (auto simp: compile_route_def split: sum.splits option.splits)

lemma first_error_None: "first_error f xs = None \<longleftrightarrow> (\<forall>x \<in> set xs. f x = None)"
  by (induction xs) (auto split: option.split)

lemma validateRouteMap_None:
  assumes "validateRouteMap place routes = None" "map_of routes m = Some eps"
  shows "m \<in> {MethodREQMOD, MethodRESPMOD} \<and> eps \<noteq> []"
proof -
  have "m \<in> set (sort (map fst routes))" using assms(2) by (auto dest!: map_of_SomeD intro: rev_image_eqI)
  then show ?thesis using assms by (auto simp: validateRouteMap_def first_error_None split: if_splits list.splits)
qed

lemma set_orderedRouteMethods:
  "set (orderedRouteMethods routes) = {m \<in> {MethodREQMOD, MethodRESPMOD}. map_of routes m \<noteq> None}"
  unfolding orderedRouteMethods_def set_filter exactRouteMethodOrder_def by simp

lemma map_of_compiled_routes:
  assumes "list_all2 (\<lambda>m r. \<exists>ces. r = (m, ces) \<and> P m ces) ms cr"
  shows "case map_of cr m of None \<Rightarrow> m \<notin> set ms | Some ces \<Rightarrow> m \<in> set ms \<and> P m ces"
  using assms by (induction ms cr rule: list_all2_induct) (auto split: option.splits)

lemma compile_routes_ok:
  assumes "compile_routes lib s = Inr s'"
  shows "c_Match s' = c_Match s \<and> s_compiledPaths s' = s_compiledPaths s \<and> s_Name s' = s_Name s \<and>
    (case s_compiledRoutes s' of
        None \<Rightarrow> Routes (c_Match s) = []
      | Some cr \<Rightarrow> Routes (c_Match s) \<noteq> [] \<and>
          (\<forall>m. case map_of cr m of
                 None \<Rightarrow> map_of (Routes (c_Match s)) m = None
               | Some ces \<Rightarrow> m \<in> set exactRouteMethodOrder \<and> (\<exists>eps. map_of (Routes (c_Match s)) m = Some eps \<and> eps \<noteq> [] \<and> compiled_by lib eps ces \<and>
                   list_all2 (\<lambda>e ce. validateReservedExactRoute lib m e ce = None) eps ces)))"
proof (cases "Routes (c_Match s) = []")
  case True
  then show ?thesis using assms by (auto simp: compile_routes_def)
next
  case False
  let ?routes = "Routes (c_Match s)"
  let ?P = "\<lambda>m ces. m \<in> set exactRouteMethodOrder \<and> (\<exists>eps. map_of ?routes m = Some eps \<and> eps \<noteq> [] \<and> compiled_by lib eps ces \<and>
      list_all2 (\<lambda>e ce. validateReservedExactRoute lib m e ce = None) eps ces)"
  from assms False obtain cr where v: "validateRouteMap (''scenario '' @ s_Name s @ '' routes'') ?routes = None"
    and cr: "map_err (\<lambda>meth. sbind (map_err (compile_route lib (s_Name s) meth) (the (map_of ?routes meth)))
        (\<lambda>ces. Inr (meth, ces))) (orderedRouteMethods ?routes) = Inr cr"
    and s': "s' = s\<lparr>s_compiledRoutes := Some cr\<rparr>"
    by (auto simp: compile_routes_def sbind_Inr nofail_Inr Let_def)
  have "\<exists>ces. r = (m, ces) \<and> ?P m ces"
    if m: "m \<in> set (orderedRouteMethods ?routes)" and r: "sbind (map_err (compile_route lib (s_Name s) m) (the (map_of ?routes m))) (\<lambda>ces. Inr (m, ces)) = Inr r" for m r
  proof -
    from m obtain eps where eps: "map_of ?routes m = Some eps" by (auto simp: set_orderedRouteMethods)
    with r obtain ces where ces: "map_err (compile_route lib (s_Name s) m) eps = Inr ces" "r = (m, ces)" by (auto simp: sbind_Inr)
    have "list_all2 (\<lambda>e ce. compile_route lib (s_Name s) m e = Inr ce) eps ces" by (rule map_err_Inr [OF ces(1)])
    then have "compiled_by lib eps ces" "list_all2 (\<lambda>e ce. validateReservedExactRoute lib m e ce = None) eps ces"
      unfolding compiled_by_def by (auto elim!: list_all2_mono dest: compile_route_Inr)
    then show ?thesis using eps ces(2) m validateRouteMap_None [OF v eps] by (auto simp: orderedRouteMethods_def)
  qed
  then have "list_all2 (\<lambda>m r. \<exists>ces. r = (m, ces) \<and> ?P m ces) (orderedRouteMethods ?routes) cr"
    using map_err_Inr [OF cr] by (auto simp: list_all2_conv_all_nth)
  note mo = map_of_compiled_routes [OF this]
  have ord: "m \<notin> set (orderedRouteMethods ?routes) \<Longrightarrow> map_of ?routes m = None" for m
    using validateRouteMap_None [OF v, of m] by (cases "map_of ?routes m") (auto simp: set_orderedRouteMethods)
  have "case map_of cr m of None \<Rightarrow> map_of ?routes m = None | Some ces \<Rightarrow> ?P m ces" for m
    using mo [of m] ord [of m] by (auto split: option.splits)
  then show ?thesis using False by (simp add: s')
qed

lemma compile_paths_ok:
  assumes "compile_paths lib s = Inr s'"
  shows "c_Match s' = c_Match s \<and> s_compiledRoutes s' = s_compiledRoutes s \<and> s_Name s' = s_Name s \<and>
    (Paths (c_Match s) \<noteq> [] \<longrightarrow> compiled_by lib (Paths (c_Match s)) (s_compiledPaths s')) \<and>
    (Paths (c_Match s) = [] \<and> Path (c_Match s) = [] \<longrightarrow> s_compiledPaths s' = s_compiledPaths s)"
proof (cases "Paths (c_Match s) = []")
  case True
  then show ?thesis using assms by (auto simp: compile_paths_def split: if_splits sum.splits)
next
  case False
  then obtain ces where "map_err (\<lambda>p. case compileEndpoint lib p of
        Inl e \<Rightarrow> Inl (ScenarioErrorCause ''compile'' (s_Name s) ''match.endpoint'' e) | Inr ce \<Rightarrow> Inr ce) (Paths (c_Match s)) = Inr ces"
    and s': "s' = s\<lparr>s_compiledPaths := ces\<rparr>"
    using assms by (auto simp: compile_paths_def sbind_Inr)
  from map_err_Inr [OF this(1)] have "compiled_by lib (Paths (c_Match s)) ces"
    unfolding compiled_by_def by (elim list_all2_mono) (auto split: sum.splits)
  then show ?thesis using False by (simp add: s')
qed

lemma compile_lists_Inr:
  assumes "compile_lists lib place httpPlace c = Inr c'"
  shows "\<exists>hc hhc cl chl. c' = c\<lparr>c_Match := (c_Match c)\<lparr>HeaderContains := hc, HTTPHeaderContains := hhc\<rparr>,
      c_compiledHeaderLists := cl, c_compiledHTTPLists := chl\<rparr> \<and> (hc = [] \<longrightarrow> cl = [])"
proof -
  obtain hc hhc cl chl where r: "compileHeaderListMatchers lib place hc = Inr cl"
    "c' = c\<lparr>c_Match := (c_Match c)\<lparr>HeaderContains := hc, HTTPHeaderContains := hhc\<rparr>, c_compiledHeaderLists := cl, c_compiledHTTPLists := chl\<rparr>"
    using assms by (auto simp: compile_lists_def sbind_Inr)
  then have "hc = [] \<longrightarrow> cl = []" by (auto simp: compileHeaderListMatchers_def)
  with r(2) show ?thesis by blast
qed

lemma compile_patterns_Inr:
  assumes "compile_patterns lib name field httpField urlField c = Inr c'"
  shows "\<exists>ch chh url. c' = c\<lparr>c_compiledHeaders := ch, c_compiledHTTPHeaders := chh, c_compiledHTTPURL := url\<rparr>"
  using assms by (auto simp: compile_patterns_def sbind_Inr)

lemma compile_body_Inr:
  "compile_body lib s = Inr s' \<Longrightarrow> \<exists>b. s' = s\<lparr>s_compiledBody := b\<rparr> \<and> (BodyPattern (c_Match s) = [] \<longrightarrow> b = s_compiledBody s)"
  by (auto simp: compile_body_def split: if_splits sum.splits)

lemma compile_cidrs_Inr:
  "compile_cidrs lib s = Inr s' \<Longrightarrow> \<exists>ns. s' = s\<lparr>s_compiledCIDRs := ns\<rparr> \<and> (CIDRRanges (c_Match s) = [] \<longrightarrow> ns = s_compiledCIDRs s)"
  by (auto simp: compile_cidrs_def sbind_Inr split: if_splits)

text \<open>The fields that decide about routing, identity and rank.\<close>

definition routing_fields where
  "routing_fields s = (Routes (c_Match s), Paths (c_Match s), Path (c_Match s), Methods (c_Match s),
     s_Name s, s_addr s, s_Priority s, s_order s)"

lemma validateAndCompile_ok:
  assumes v: "validateAndCompile lib stat s = Inr s'" and u: "uncompiled s"
  shows "well_compiled lib s' \<and> routing_fields s' = routing_fields s \<and> s_Name s \<noteq> []"
proof -
  have name: "s_Name s \<noteq> []" using v by (auto simp: validateAndCompile_def split: if_splits)
  from v name have "\<exists>s1 s2 s3 resp' ws s4 s5 s6 bs pl hpl nm f hf uf.
      compile_routes lib s = Inr s1 \<and> compile_paths lib s1 = Inr s2 \<and> compile_body lib s2 = Inr s3 \<and>
      compile_lists lib pl hpl (s3\<lparr>s_Response := resp', s_WeightedResponses := ws\<rparr>) = Inr s4 \<and>
      compile_patterns lib nm f hf uf s4 = Inr s5 \<and> compile_cidrs lib s5 = Inr s6 \<and> s' = s6\<lparr>s_Branches := bs\<rparr>"
    unfolding validateAndCompile_def sbind_Inr nofail_Inr Let_def if_not_P [OF name] sum.inject(2)
    by (elim exE conjE) (intro exI conjI; (assumption | (rule sym, assumption)))
  then obtain s1 s2 s3 resp' ws s4 s5 s6 bs pl hpl nm f hf uf where
    s1: "compile_routes lib s = Inr s1" and s2: "compile_paths lib s1 = Inr s2" and s3: "compile_body lib s2 = Inr s3"
    and s4: "compile_lists lib pl hpl (s3\<lparr>s_Response := resp', s_WeightedResponses := ws\<rparr>) = Inr s4"
    and s5: "compile_patterns lib nm f hf uf s4 = Inr s5"
    and s6: "compile_cidrs lib s5 = Inr s6" and s': "s' = s6\<lparr>s_Branches := bs\<rparr>"
    by (elim exE conjE)
  note R = compile_routes_ok [OF s1] and P = compile_paths_ok [OF s2]
  obtain b where b: "s3 = s2\<lparr>s_compiledBody := b\<rparr>" "BodyPattern (c_Match s2) = [] \<longrightarrow> b = s_compiledBody s2" using compile_body_Inr [OF s3] by blast
  obtain hc hhc cl chl where l: "s4 = (s3\<lparr>s_Response := resp', s_WeightedResponses := ws\<rparr>)
      \<lparr>c_Match := (c_Match s3)\<lparr>HeaderContains := hc, HTTPHeaderContains := hhc\<rparr>, c_compiledHeaderLists := cl, c_compiledHTTPLists := chl\<rparr>" "hc = [] \<longrightarrow> cl = []"
    using compile_lists_Inr [OF s4] by auto
  obtain ch chh url where p: "s5 = s4\<lparr>c_compiledHeaders := ch, c_compiledHTTPHeaders := chh, c_compiledHTTPURL := url\<rparr>"
    using compile_patterns_Inr [OF s5] by blast
  obtain ns where c: "s6 = s5\<lparr>s_compiledCIDRs := ns\<rparr>" "CIDRRanges (c_Match s5) = [] \<longrightarrow> ns = s_compiledCIDRs s5" using compile_cidrs_Inr [OF s6] by blast
  have keep: "s_addr s2 = s_addr s" "s_Priority s2 = s_Priority s" "s_order s2 = s_order s"
    "s_compiledBody s2 = s_compiledBody s" "s_compiledCIDRs s2 = s_compiledCIDRs s"
    using s1 s2 by (auto simp: compile_routes_def compile_paths_def sbind_Inr nofail_Inr Let_def split: if_splits sum.splits)
  note st = s' c(1) p l(1) b(1)
  have eqs: "Routes (c_Match s') = Routes (c_Match s)" "Paths (c_Match s') = Paths (c_Match s)" "Path (c_Match s') = Path (c_Match s)"
    "s_compiledRoutes s' = s_compiledRoutes s1" "s_compiledPaths s' = s_compiledPaths s2"
    using R P by (simp_all add: st)
  have rules: "HeaderContains (c_Match s') = [] \<longrightarrow> c_compiledHeaderLists s' = []" "BodyPattern (c_Match s') = [] \<longrightarrow> s_compiledBody s' = None"
    "CIDRRanges (c_Match s') = [] \<longrightarrow> s_compiledCIDRs s' = []"
    using l(2) b(2) c(2) keep u by (simp_all add: st uncompiled_def)
  have f: "routing_fields s' = routing_fields s"
    using R P keep by (simp add: routing_fields_def st)
  have "well_compiled lib s'"
    using R P u rules unfolding well_compiled_def eqs by (simp add: uncompiled_def)
  with f name show ?thesis by simp
qed

definition lookup_path :: "string \<Rightarrow> string" where
  "lookup_path uri = cut_at (cut_at (storage_extractPath uri) (CHR ''?'')) (CHR ''#'')"

lemma route_captures_literal:
  assumes "regexp_literal lib" "compiled_by lib ps ces" "\<forall>p \<in> set ps. literal p" "ps \<noteq> []"
    and "route_endpoints s (r_Method req) = Some ces"
  shows "route_captures lib s req = (if lookup_path (r_URI req) \<in> set ps then Some [] else None)"
proof -
  have "list_all2 (\<lambda>p ce. matches_only lib ce p) ps ces"
    using assms(2,3) unfolding compiled_by_def
    by (auto simp: list_all2_conv_all_nth intro: compileEndpoint_literal [OF assms(1)])
  moreover have "ces \<noteq> []" using assms(2,4) by (auto simp: compiled_by_def)
  ultimately show ?thesis
    using assms(5) by (simp add: route_captures_def matchEndpoint_def lookup_path_def try_endpoints_literal)
qed

lemma validateReserved_literal:
  assumes "validateReservedExactRoute lib m e ce = None" "literal e" "map_of reservedICAPServicePaths e = Some m'"
  shows "m' \<noteq> MethodOPTIONS \<and> m = m'"
proof -
  have "reserved_conflict lib m e ce (e, m') = None"
    using assms(1) map_of_SomeD [OF assms(3)] by (auto simp: validateReservedExactRoute_def first_error_None)
  then show ?thesis using assms(2) by (auto simp: reserved_conflict_def literal_def split: if_splits)
qed

section \<open>Properties\<close>

text \<open>
  C21: \<^bold>\<open>Exact routes.\<close>  After validation, a scenario whose routes are plain paths accepts the route of a request
  exactly when its method is one of the route methods and the path of its URI, without query and fragment, is
  one of the paths declared for that method (no special character of a path acts as a pattern).  No scenario
  answers on a reserved service path for another method: \<open>/reqmod\<close> and \<open>/respmod\<close> only for theirs, \<open>/options\<close> never.
\<close>

theorem validated_routes_exact:
  assumes v: "validateAndCompile lib stat s = Inr s'" and u: "uncompiled s" and re: "regexp_literal lib"
    and ne: "Routes (c_Match s) \<noteq> []" and lit: "\<forall>(m, eps) \<in> set (Routes (c_Match s)). \<forall>e \<in> set eps. literal e"
  shows "(route_captures lib s' req \<noteq> None \<longleftrightarrow>
      (\<exists>eps. map_of (Routes (c_Match s)) (r_Method req) = Some eps \<and> lookup_path (r_URI req) \<in> set eps)) \<and>
    (route_captures lib s' req \<noteq> None \<and> map_of reservedICAPServicePaths (lookup_path (r_URI req)) = Some m \<longrightarrow>
      m \<noteq> MethodOPTIONS \<and> r_Method req = m)"
proof -
  let ?m = "r_Method req" and ?p = "lookup_path (r_URI req)"
  have w: "well_compiled lib s'" and r: "Routes (c_Match s') = Routes (c_Match s)"
    using validateAndCompile_ok [OF v u] by (auto simp: routing_fields_def)
  then obtain cr where cr: "s_compiledRoutes s' = Some cr" using ne by (auto simp: well_compiled_def split: option.splits)
  show ?thesis
  proof (cases "map_of cr ?m")
    case None
    then have "map_of (Routes (c_Match s)) ?m = None" using well_compiled_route [OF w cr, of ?m] r by simp
    then show ?thesis using None cr by (simp add: route_captures_def route_endpoints_def)
  next
    case (Some ces)
    then obtain eps where eps: "map_of (Routes (c_Match s)) ?m = Some eps" "eps \<noteq> []" "compiled_by lib eps ces"
      "list_all2 (\<lambda>e ce. validateReservedExactRoute lib ?m e ce = None) eps ces"
      using well_compiled_route [OF w cr, of ?m] r by auto
    have l: "\<forall>e \<in> set eps. literal e" using lit map_of_SomeD [OF eps(1)] by auto
    have "route_captures lib s' req = (if ?p \<in> set eps then Some [] else None)"
      using Some cr by (intro route_captures_literal [OF re eps(3) l eps(2)]) (simp add: route_endpoints_def)
    moreover have "m \<noteq> MethodOPTIONS \<and> ?m = m" if p: "?p \<in> set eps" and m: "map_of reservedICAPServicePaths ?p = Some m"
    proof -
      obtain i where "i < length eps" "eps ! i = ?p" using p by (auto simp: in_set_conv_nth)
      then have "validateReservedExactRoute lib ?m ?p (ces ! i) = None" using list_all2_nthD [OF eps(4)] by fastforce
      then show ?thesis using l p by (intro validateReserved_literal [OF _ _ m]) auto
    qed
    ultimately show ?thesis using eps(1) by auto
  qed
qed

text \<open>
  A library of which every \<open>QuoteMeta\<close> expression behaves as documented, and a scenario with plain routes whose paths
  have characters that are special in regular expressions.
\<close>

lemma QuoteMeta_inj: "QuoteMeta s = QuoteMeta p \<Longrightarrow> s = p"
proof (induction s arbitrary: p)
  case Nil
  then show ?case by (cases p) (auto split: if_splits)
next
  case (Cons c s)
  have "is_meta (CHR 0x5C)" by (simp add: is_meta_def)
  with Cons show ?case by (cases p) (auto split: if_splits)
qed

definition literal_lib :: "(string, unit, string) golib" where
  "literal_lib = \<lparr>re_MatchString = (\<lambda>re s. re = ''^'' @ QuoteMeta s @ ''$''),
     re_FindStringSubmatch = (\<lambda>re s. if re = ''^'' @ QuoteMeta s @ ''$'' then Some [s] else None),
     re_SubexpNames = (\<lambda>re. [[]]), re_Compile = Inr, mime_ParseMediaType = (\<lambda>s. Inr (s, [])),
     net_ParseIP = Some, net_ParseCIDR = (\<lambda>s. Inr ()), net_Contains = (\<lambda>_ _. True)\<rparr>"

lemma literal_lib_literal: "regexp_literal literal_lib"
  by (auto simp: regexp_literal_def literal_lib_def dest: QuoteMeta_inj)

definition no_rule :: MatchRule where
  "no_rule = \<lparr>Routes = [], Path = [], Paths = [], Methods = [], HTTPMethod = [], HTTPURL = [], mr_Headers = [],
     HeaderContains = [], HTTPHeaders = [], HTTPHeaderContains = [], BodyPattern = [], mr_ClientIP = [], CIDRRanges = []\<rparr>"

definition empty_response :: ResponseTemplate where
  "empty_response = \<lparr>rp_Headers = [], rp_HTTPHeaders = [], rp_DelayRange = None, rp_Stream = None, rp_Block = None,
     rp_ResponseName = [], rp_Use = [], rp_Body = [], rp_BodyFile = [], rp_HTTPBody = [], rp_HTTPBodyFile = [],
     rp_Error = [], rp_Status = 0, rp_ICAPStatus = 0, rp_HTTPStatus = 0, rp_Delay = 0\<rparr>"

definition plain_scenario :: "string \<Rightarrow> MatchRule \<Rightarrow> nat \<Rightarrow> int \<Rightarrow> ('re, 'net) Scenario" where
  "plain_scenario name rule addr priority =
     \<lparr>c_Match = rule, c_compiledHeaders = [], c_compiledHeaderLists = [], c_compiledHTTPHeaders = [],
      c_compiledHTTPLists = [], c_compiledHTTPURL = None, s_addr = addr, s_compiledBody = None, s_compiledRoutes = None, s_Name = name,
      s_WeightedResponses = None, s_Branches = [], s_compiledCIDRs = [], s_compiledPaths = [], s_Response = empty_response,
      s_Priority = priority, s_order = 0\<rparr>"

definition demo_scenario :: "(string, unit) Scenario" where
  "demo_scenario = plain_scenario ''demo'' (no_rule\<lparr>Routes := [(''REQMOD'', [''/reqmod'', ''/a.b''])]\<rparr>) 0 0"

definition demo_request :: "string \<Rightarrow> (unit, unit, unit) request" where
  "demo_request uri = zero_request\<lparr>r_Method := ''REQMOD'', r_URI := uri\<rparr>"

theorem validated_routes_exact_witness:
  "\<exists>s'. validateAndCompile literal_lib (\<lambda>_. None) demo_scenario = Inr s' \<and>
     route_captures literal_lib s' (demo_request ''icap://h/a.b?x'') \<noteq> None \<and>
     route_captures literal_lib s' (demo_request ''icap://h/axb'') = None"
proof -
  have "\<not> isl (validateAndCompile literal_lib (\<lambda>_. None) demo_scenario)" by code_simp
  then obtain s' where v: "validateAndCompile literal_lib (\<lambda>_. None) demo_scenario = Inr s'" by (auto simp: isl_def) (metis sum.exhaust)
  have demo: "uncompiled demo_scenario" "Routes (c_Match demo_scenario) = [(''REQMOD'', [''/reqmod'', ''/a.b''])]"
    "\<forall>(m, eps) \<in> set (Routes (c_Match demo_scenario)). \<forall>e \<in> set eps. literal e"
    by code_simp+
  note exact = validated_routes_exact [OF v demo(1) literal_lib_literal _ demo(3)]
  have "r_Method (demo_request uri) = ''REQMOD''" "r_URI (demo_request uri) = uri" for uri by (simp_all add: demo_request_def)
  moreover have "lookup_path ''icap://h/a.b?x'' = ''/a.b''" "lookup_path ''icap://h/axb'' = ''/axb''" by code_simp+
  ultimately show ?thesis
    using v exact [of "demo_request ''icap://h/a.b?x''"] exact [of "demo_request ''icap://h/axb''"] by (auto simp: demo(2))
qed

end
