(* ===== verification/Scenario_Registry.thy ===== *)
theory Scenario_Registry
  imports Scenario_Compile "HOL-Library.Product_Lexorder" "HOL-Library.Multiset"
begin

text \<open>
  The plain scenario registry (\<open>scenarioRegistry\<close> in \<^verbatim>\<open>internal/storage/scenario.go\<close>, with the ranking
  functions of \<^verbatim>\<open>sharded_scenario.go\<close>): loading a decoded file, adding, removing, reloading, listing and
  matching.

  What reading and decoding the file gives is an argument: the list of scenarios, or the error.  \<open>errText\<close> stands for
  the text of an error (\<open>err.Error()\<close>).  The pointers that Go allocates for scenarios are arguments too.
  \<open>ctx i k\<close> is what \<open>ctx.Err()\<close> answers: \<open>ctx 0 0\<close> at the start of \<open>Match\<close>, \<open>ctx i 0\<close> before the \<open>i\<close>-th scenario
  and \<open>ctx i (k + 1)\<close> at the \<open>k\<close>-th check inside its \<open>matchesScenario\<close>.
\<close>

section \<open>Ranking\<close>

definition defaultScenarioName :: string where "defaultScenarioName = ''default''"

definition operationAdd :: string where "operationAdd = ''add''"

definition DefaultScenario :: "nat \<Rightarrow> ('re, 'net) Scenario" where
  "DefaultScenario addr =
     (plain_scenario defaultScenarioName no_rule addr (-1))\<lparr>s_Response := empty_response\<lparr>rp_ICAPStatus := 204\<rparr>\<rparr>"

definition scenarioOutranks :: "('re, 'net) Scenario option \<Rightarrow> ('re, 'net) Scenario option \<Rightarrow> bool" where
  "scenarioOutranks left' right' =
     (case right' of
        None \<Rightarrow> left' \<noteq> None
      | Some r \<Rightarrow>
          (case left' of
             None \<Rightarrow> False
           | Some l \<Rightarrow> if s_Priority l \<noteq> s_Priority r then s_Priority l > s_Priority r else s_order l < s_order r))"

text \<open>The rank as a key: smaller is better.  \<open>sort.SliceStable\<close> with \<open>scenarioOutranks\<close> is the stable sort by this key.\<close>

definition rank :: "('re, 'net) Scenario \<Rightarrow> int \<times> int" where
  "rank s = (- s_Priority s, s_order s)"

definition sortScenariosByPriority :: "('re, 'net) Scenario list \<Rightarrow> ('re, 'net) Scenario list" where
  "sortScenariosByPriority ss = sort_key rank ss"

fun nextScenarioOrder_from :: "int \<Rightarrow> ('re, 'net) Scenario list \<Rightarrow> int" where
  "nextScenarioOrder_from next [] = next"
| "nextScenarioOrder_from next (s # ss) =
     nextScenarioOrder_from (if s_order s \<ge> next then wrap64 (s_order s + 1) else next) ss"

definition nextScenarioOrder :: "('re, 'net) Scenario list \<Rightarrow> int" where
  "nextScenarioOrder ss = nextScenarioOrder_from 0 ss"

definition scenarioOrderForAdd :: "('re, 'net) Scenario list \<Rightarrow> string \<Rightarrow> int" where
  "scenarioOrderForAdd ss name =
     (case find (\<lambda>s. s_Name s = name) ss of Some s \<Rightarrow> s_order s | None \<Rightarrow> nextScenarioOrder ss)"

section \<open>Endpoint topology\<close>

definition HasExactRoutes :: "('re, 'net) Scenario list \<Rightarrow> bool" where
  "HasExactRoutes ss \<longleftrightarrow> list_ex (\<lambda>s. Routes (c_Match s) \<noteq> []) ss"

definition declared_paths :: "('re, 'net) Scenario \<Rightarrow> string list" where
  "declared_paths s = filter (\<lambda>p. p \<noteq> []) (Paths (c_Match s)) @ (if Path (c_Match s) \<noteq> [] then [Path (c_Match s)] else [])"

definition ScenarioEndpointTopology :: "('re, 'net) Scenario list \<Rightarrow> string list" where
  "ScenarioEndpointTopology ss = sort (remdups (concat (map declared_paths ss)))"

definition paths_text :: "string list \<Rightarrow> string" where
  "paths_text ps = ''['' @ go_Join ps '' '' @ '']''"

definition ValidateExactRouteTopology :: "('re, 'net) Scenario list \<Rightarrow> ('re, 'net) Scenario list \<Rightarrow> go_error option" where
  "ValidateExactRouteTopology current nxt =
     (if \<not> HasExactRoutes current \<and> \<not> HasExactRoutes nxt then None
      else if ScenarioEndpointTopology current = ScenarioEndpointTopology nxt then None
      else Some (ErrWrap ('': from '' @ paths_text (ScenarioEndpointTopology current) @ '' to '' @
                              paths_text (ScenarioEndpointTopology nxt)) ErrEndpointTopologyChange))"

section \<open>The registry\<close>

record ('re, 'net) scenarioRegistry =
  rg_bodyPattern :: BodyPatternOptions
  rg_filePath :: string
  rg_scenarios :: "('re, 'net) Scenario list"

definition NewScenarioRegistryWithBodyPatternOptions :: "BodyPatternOptions \<Rightarrow> nat \<Rightarrow> ('re, 'net) scenarioRegistry" where
  "NewScenarioRegistryWithBodyPatternOptions options addr =
     \<lparr>rg_bodyPattern = normalized options, rg_filePath = [], rg_scenarios = [DefaultScenario addr]\<rparr>"

definition NewScenarioRegistry :: "nat \<Rightarrow> ('re, 'net) scenarioRegistry" where
  "NewScenarioRegistry addr = NewScenarioRegistryWithBodyPatternOptions DefaultBodyPatternOptions addr"

text \<open>\<open>AsScenarioError\<close> finds the first \<open>ScenarioError\<close> in the chain of an error.\<close>

fun AsScenarioError :: "go_error \<Rightarrow> go_error option" where
  "AsScenarioError (ScenarioError opn name msg) = Some (ScenarioError opn name msg)"
| "AsScenarioError (ScenarioErrorCause opn name msg e) = Some (ScenarioErrorCause opn name msg e)"
| "AsScenarioError (ErrWrap t e) = AsScenarioError e"
| "AsScenarioError e = None"

definition set_operation :: "string \<Rightarrow> go_error \<Rightarrow> go_error" where
  "set_operation opn e =
     (case e of
        ScenarioError _ name msg \<Rightarrow> ScenarioError opn name msg
      | ScenarioErrorCause _ name msg c \<Rightarrow> ScenarioErrorCause opn name msg c
      | _ \<Rightarrow> e)"

definition load_error :: "(go_error \<Rightarrow> string) \<Rightarrow> string \<Rightarrow> go_error \<Rightarrow> go_error" where
  "load_error errText name e =
     (case AsScenarioError e of Some se \<Rightarrow> se | None \<Rightarrow> ScenarioError ''validate'' name (errText e))"

definition add_error :: "(go_error \<Rightarrow> string) \<Rightarrow> string \<Rightarrow> go_error \<Rightarrow> go_error" where
  "add_error errText name e =
     (case AsScenarioError e of Some se \<Rightarrow> set_operation operationAdd se | None \<Rightarrow> ScenarioError operationAdd name (errText e))"

definition compile_all ::
  "('re, 'net, 'ip) golib \<Rightarrow> (string \<Rightarrow> go_error option) \<Rightarrow> (go_error \<Rightarrow> string) \<Rightarrow> ('re, 'net) Scenario list \<Rightarrow>
   go_error + ('re, 'net) Scenario list" where
  "compile_all lib stat errText ss =
     map_err (\<lambda>s. case validateAndCompile lib stat s of Inl e \<Rightarrow> Inl (load_error errText (s_Name s) e) | Inr s' \<Rightarrow> Inr s') ss"

definition with_default :: "nat \<Rightarrow> ('re, 'net) Scenario list \<Rightarrow> ('re, 'net) Scenario list" where
  "with_default addr ss = (if list_ex (\<lambda>s. s_Name s = defaultScenarioName) ss then ss else ss @ [DefaultScenario addr])"

definition number :: "('re, 'net) Scenario list \<Rightarrow> ('re, 'net) Scenario list" where
  "number ss = map (\<lambda>(i, s). s\<lparr>s_order := int i\<rparr>) (enumerate 0 ss)"

definition Load ::
  "('re, 'net, 'ip) golib \<Rightarrow> (string \<Rightarrow> go_error option) \<Rightarrow> (go_error \<Rightarrow> string) \<Rightarrow> nat \<Rightarrow> string \<Rightarrow>
   go_error + ('re, 'net) Scenario list \<Rightarrow> ('re, 'net) scenarioRegistry \<Rightarrow> go_error option \<times> ('re, 'net) scenarioRegistry" where
  "Load lib stat errText addr path decoded r =
     (case decoded of
        Inl e \<Rightarrow> (Some e, r)
      | Inr scenarios \<Rightarrow>
          (case compile_all lib stat errText scenarios of
             Inl e \<Rightarrow> (Some e, r)
           | Inr compiled \<Rightarrow>
               (None, r\<lparr>rg_scenarios := sortScenariosByPriority (number (with_default addr compiled)), rg_filePath := path\<rparr>)))"

definition List :: "('re, 'net) scenarioRegistry \<Rightarrow> ('re, 'net) Scenario list" where
  "List r = rg_scenarios r"

definition Reload ::
  "('re, 'net, 'ip) golib \<Rightarrow> (string \<Rightarrow> go_error option) \<Rightarrow> (go_error \<Rightarrow> string) \<Rightarrow> nat \<Rightarrow>
   (string \<Rightarrow> go_error + ('re, 'net) Scenario list) \<Rightarrow> ('re, 'net) scenarioRegistry \<Rightarrow> go_error option \<times> ('re, 'net) scenarioRegistry" where
  "Reload lib stat errText addr decode r =
     (let path = rg_filePath r in
      if path = [] then (None, r)
      else (let (err, nxt) = Load lib stat errText addr path (decode path)
                               \<lparr>rg_bodyPattern = rg_bodyPattern r, rg_filePath = [], rg_scenarios = []\<rparr> in
            case err of
              Some e \<Rightarrow> (Some e, r)
            | None \<Rightarrow>
                (case ValidateExactRouteTopology (List r) (List nxt) of
                   Some e \<Rightarrow> (Some e, r)
                 | None \<Rightarrow> (None, r\<lparr>rg_scenarios := List nxt, rg_filePath := path\<rparr>))))"

fun remove_first :: "('a \<Rightarrow> bool) \<Rightarrow> 'a list \<Rightarrow> 'a list" where
  "remove_first P [] = []"
| "remove_first P (x # xs) = (if P x then xs else x # remove_first P xs)"

definition insert_scenario :: "('re, 'net) Scenario \<Rightarrow> ('re, 'net) Scenario list \<Rightarrow> ('re, 'net) Scenario list" where
  "insert_scenario s ss =
     (let order = (case find (\<lambda>t. s_Name t = s_Name s) ss of Some t \<Rightarrow> s_order t | None \<Rightarrow> nextScenarioOrder ss)
      in sortScenariosByPriority (remove_first (\<lambda>t. s_Name t = s_Name s) ss @ [s\<lparr>s_order := order\<rparr>]))"

definition Add ::
  "('re, 'net, 'ip) golib \<Rightarrow> (string \<Rightarrow> go_error option) \<Rightarrow> (go_error \<Rightarrow> string) \<Rightarrow> ('re, 'net) Scenario option \<Rightarrow>
   ('re, 'net) scenarioRegistry \<Rightarrow> go_error option \<times> ('re, 'net) scenarioRegistry" where
  "Add lib stat errText scenario r =
     (case scenario of
        None \<Rightarrow> (Some (ScenarioError operationAdd [] ''cannot add nil scenario''), r)
      | Some s \<Rightarrow>
          (case validateAndCompile lib stat s of
             Inl e \<Rightarrow> (Some (add_error errText (s_Name s) e), r)
           | Inr s' \<Rightarrow> (None, r\<lparr>rg_scenarios := insert_scenario s' (rg_scenarios r)\<rparr>)))"

definition Remove :: "string \<Rightarrow> ('re, 'net) scenarioRegistry \<Rightarrow> go_error option \<times> ('re, 'net) scenarioRegistry" where
  "Remove name r =
     (if list_ex (\<lambda>s. s_Name s = name) (rg_scenarios r)
      then (None, r\<lparr>rg_scenarios := remove_first (\<lambda>s. s_Name s = name) (rg_scenarios r)\<rparr>)
      else (Some ErrNoMatch, r))"

section \<open>Matching\<close>

type_synonym ('re, 'net, 'q, 'r, 'b) match_result =
  "((go_error + ('re, 'net) Scenario) \<times> ('q, 'r, 'b) request) option"

definition no_scenario_matched :: "nat \<Rightarrow> go_error" where
  "no_scenario_matched checked =
     ScenarioError ''match'' [] (''no scenario matched the request (checked '' @ go_Itoa (int checked) @ '' scenarios)'')"

fun match_first ::
  "('re, 'net, 'ip) golib \<Rightarrow> 'r body_io \<Rightarrow> (nat \<Rightarrow> nat \<Rightarrow> go_error option) \<Rightarrow> BodyPatternOptions \<Rightarrow> nat \<Rightarrow>
   ('re, 'net) Scenario list \<Rightarrow> ('q, 'r, 'b) request \<Rightarrow> ('re, 'net, 'q, 'r, 'b) match_result" where
  "match_first lib io ctx opt checked [] req = Some (Inl (no_scenario_matched checked), req)"
| "match_first lib io ctx opt checked (s # ss) req =
     (case ctx (Suc checked) 0 of
        Some e \<Rightarrow> Some (Inl e, req)
      | None \<Rightarrow>
          (case matchesScenario lib io (\<lambda>k. ctx (Suc checked) (Suc k)) opt s req of
             None \<Rightarrow> None
           | Some ((matched, err), req') \<Rightarrow>
               (case err of
                  Some e \<Rightarrow> Some (Inl e, req')
                | None \<Rightarrow>
                    if matched then Some (Inr s, req')
                    else match_first lib io ctx opt (Suc checked) ss req')))"

definition nil_request_error :: go_error where
  "nil_request_error = ScenarioError ''match'' [] ''cannot match against nil request''"

definition match_request ::
  "('re, 'net, 'ip) golib \<Rightarrow> 'r body_io \<Rightarrow> (nat \<Rightarrow> nat \<Rightarrow> go_error option) \<Rightarrow> ('re, 'net) scenarioRegistry \<Rightarrow>
   ('q, 'r, 'b) request \<Rightarrow> ('re, 'net, 'q, 'r, 'b) match_result" where
  "match_request lib io ctx r req =
     (case ctx 0 0 of
        Some e \<Rightarrow> Some (Inl e, req)
      | None \<Rightarrow> match_first lib io ctx (rg_bodyPattern r) 0 (rg_scenarios r) req)"

text \<open>The request is a pointer, \<open>nil\<close> being \<^const>\<open>None\<close>.\<close>

definition Match ::
  "('re, 'net, 'ip) golib \<Rightarrow> 'r body_io \<Rightarrow> (nat \<Rightarrow> nat \<Rightarrow> go_error option) \<Rightarrow> ('re, 'net) scenarioRegistry \<Rightarrow>
   ('q, 'r, 'b) request option \<Rightarrow> ((go_error + ('re, 'net) Scenario) \<times> ('q, 'r, 'b) request option) option" where
  "Match lib io ctx r req =
     (case req of
        None \<Rightarrow> Some (Inl nil_request_error, None)
      | Some rq \<Rightarrow> map_option (map_prod id Some) (match_request lib io ctx r rq))"

section \<open>Ranks and sorting\<close>

lemma outranks_rank: "scenarioOutranks (Some a) (Some b) \<longleftrightarrow> rank a < rank b"
  by (auto simp: scenarioOutranks_def rank_def less_prod_def)

lemma distinct_map_sort_key: "distinct (map f (sort_key k xs)) \<longleftrightarrow> distinct (map f xs)"
  by (rule mset_eq_imp_distinct_iff) simp

lemma sortScenarios_simps [simp]:
  "set (sortScenariosByPriority ss) = set ss" "sorted (map rank (sortScenariosByPriority ss))"
  "distinct (map f (sortScenariosByPriority ss)) = distinct (map f ss)"
  by (simp_all add: sortScenariosByPriority_def distinct_map_sort_key)

lemma remove_first_filter: "distinct (map f ss) \<Longrightarrow> remove_first (\<lambda>s. f s = x) ss = filter (\<lambda>s. f s \<noteq> x) ss"
proof (induction ss)
  case (Cons s ss)
  then have "f s = x \<Longrightarrow> filter (\<lambda>s. f s \<noteq> x) ss = ss" by (auto simp: filter_id_conv) (metis imageI)
  then show ?case using Cons by simp
qed simp

lemma remove_first_cases:
  "find P ss = None \<and> remove_first P ss = ss \<or>
   (\<exists>before u after. find P ss = Some u \<and> P u \<and> ss = before @ u # after \<and> remove_first P ss = before @ after)"
proof (induction ss)
  case (Cons s ss)
  show ?case
  proof (cases "P s")
    case True
    then show ?thesis by (intro disjI2 exI [of _ "[]"]) simp
  next
    case False
    from Cons.IH show ?thesis
    proof (elim disjE exE conjE)
      fix before u after
      assume "find P ss = Some u" "P u" "ss = before @ u # after" "remove_first P ss = before @ after"
      with False show ?thesis by (intro disjI2 exI [of _ "s # before"] exI [of _ u] exI [of _ after]) simp
    qed (use False in simp)
  qed
qed simp

lemma nextScenarioOrder_bounds:
  assumes "\<forall>s \<in> set ss. s_order s < MaxInt64" "0 \<le> n"
  shows "n \<le> nextScenarioOrder_from n ss \<and> (\<forall>s \<in> set ss. s_order s < nextScenarioOrder_from n ss) \<and>
    (\<forall>b. n \<le> b \<and> (\<forall>s \<in> set ss. s_order s < b) \<longrightarrow> nextScenarioOrder_from n ss \<le> b)"
  using assms
proof (induction ss arbitrary: n)
  case (Cons s ss)
  let ?n = "if s_order s \<ge> n then wrap64 (s_order s + 1) else n"
  have "?n = max n (s_order s + 1)" using Cons.prems by (auto simp: in_int64_def MinInt64_def)
  then have eq: "nextScenarioOrder_from n (s # ss) = nextScenarioOrder_from (max n (s_order s + 1)) ss" by simp
  show ?case using Cons.IH [of "max n (s_order s + 1)"] Cons.prems unfolding eq by fastforce
qed simp

section \<open>The invariant\<close>

definition scenario_ok :: "('re, 'net, 'ip) golib \<Rightarrow> ('re, 'net) Scenario \<Rightarrow> bool" where
  "scenario_ok lib s \<longleftrightarrow> s_Name s \<noteq> [] \<and> well_compiled lib s \<and> 0 \<le> s_order s"

text \<open>
  What always holds: the list is sorted, the order numbers differ and are below \<open>n\<close>, and every scenario is named and
  compiled.  The names differ as well (\<open>registry_ok\<close>) as long as no loaded file uses a name twice, which \<open>Load\<close> does not check.
\<close>

definition registry_sound :: "('re, 'net, 'ip) golib \<Rightarrow> int \<Rightarrow> ('re, 'net) Scenario list \<Rightarrow> bool" where
  "registry_sound lib n ss \<longleftrightarrow> sorted (map rank ss) \<and> distinct (map s_order ss) \<and>
     (\<forall>s \<in> set ss. scenario_ok lib s \<and> s_order s < n)"

definition registry_ok :: "('re, 'net, 'ip) golib \<Rightarrow> int \<Rightarrow> ('re, 'net) Scenario list \<Rightarrow> bool" where
  "registry_ok lib n ss \<longleftrightarrow> sorted (map rank ss) \<and> distinct (map s_Name ss) \<and> distinct (map s_order ss) \<and>
     (\<forall>s \<in> set ss. scenario_ok lib s \<and> s_order s < n)"

lemma registry_ok_sound: "registry_ok lib n ss \<longleftrightarrow> registry_sound lib n ss \<and> distinct (map s_Name ss)"
  by (auto simp: registry_ok_def registry_sound_def)

lemma registry_sound_mono: "registry_sound lib n ss \<Longrightarrow> n \<le> m \<Longrightarrow> registry_sound lib m ss"
  by (auto simp: registry_sound_def)

lemma remove_first_sound:
  assumes "registry_sound lib n ss"
  shows "registry_sound lib n (remove_first P ss)"
  using remove_first_cases [of P ss] assms by (auto simp: registry_sound_def sorted_append)

lemma well_compiled_order [simp]: "well_compiled lib (s\<lparr>s_order := i\<rparr>) = well_compiled lib s"
  by (simp add: well_compiled_def cong: option.case_cong)

lemma DefaultScenario_simps [simp]:
  "s_Name (DefaultScenario a) = defaultScenarioName" "s_order (DefaultScenario a) = 0" "s_Priority (DefaultScenario a) = -1"
  "s_Branches (DefaultScenario a) = []" "s_compiledRoutes (DefaultScenario a) = None" "s_compiledPaths (DefaultScenario a) = []"
  "s_compiledBody (DefaultScenario a) = None" "s_addr (DefaultScenario a) = a" "c_Match (DefaultScenario a) = no_rule"
  "s_compiledCIDRs (DefaultScenario a) = []" "c_compiledHeaderLists (DefaultScenario a) = []"
  by (simp_all add: DefaultScenario_def plain_scenario_def)

lemma DefaultScenario_ok: "scenario_ok lib (DefaultScenario a)"
  by (simp add: scenario_ok_def well_compiled_def defaultScenarioName_def no_rule_def)

lemma insert_scenario_sound:
  assumes r: "registry_sound lib n ss" and n: "0 \<le> n" "n \<le> MaxInt64" and s: "s_Name s \<noteq> []" "well_compiled lib s"
  shows "registry_sound lib (n + 1) (insert_scenario s ss)"
proof -
  let ?o = "scenarioOrderForAdd ss (s_Name s)" and ?P = "\<lambda>t. s_Name t = s_Name s"
  let ?rs = "remove_first ?P ss"
  have ins: "insert_scenario s ss = sortScenariosByPriority (?rs @ [s\<lparr>s_order := ?o\<rparr>])"
    by (simp add: insert_scenario_def scenarioOrderForAdd_def)
  have b: "\<forall>t \<in> set ss. 0 \<le> s_order t \<and> s_order t < n" using r by (auto simp: registry_sound_def scenario_ok_def)
  have o: "0 \<le> ?o \<and> ?o < n + 1 \<and> ?o \<notin> s_order ` set ?rs"
    using remove_first_cases [of ?P ss]
  proof (elim disjE exE conjE)
    assume "find ?P ss = None" "?rs = ss"
    then show ?thesis using nextScenarioOrder_bounds [of ss 0] b n
      by (fastforce simp: scenarioOrderForAdd_def nextScenarioOrder_def)
  next
    fix before u after
    assume "find ?P ss = Some u" "ss = before @ u # after" "?rs = before @ after"
    then show ?thesis using b r by (auto simp: scenarioOrderForAdd_def registry_sound_def)
  qed
  have rs: "registry_sound lib n ?rs" by (rule remove_first_sound [OF r])
  have el: "scenario_ok lib t \<and> s_order t < n + 1" if "t \<in> set (?rs @ [s\<lparr>s_order := ?o\<rparr>])" for t
    using that rs o s by (auto simp: registry_sound_def scenario_ok_def)
  have "distinct (map s_order (?rs @ [s\<lparr>s_order := ?o\<rparr>]))" using rs o by (auto simp: registry_sound_def)
  with el show ?thesis unfolding ins registry_sound_def sortScenarios_simps using sortScenarios_simps(2) by blast
qed

lemma insert_scenario_ok:
  assumes r: "registry_ok lib n ss" and n: "0 \<le> n" "n \<le> MaxInt64" and s: "s_Name s \<noteq> []" "well_compiled lib s"
  shows "registry_ok lib (n + 1) (insert_scenario s ss) \<and>
    set (insert_scenario s ss) = {t \<in> set ss. s_Name t \<noteq> s_Name s} \<union> {s\<lparr>s_order := scenarioOrderForAdd ss (s_Name s)\<rparr>}"
proof -
  have d: "registry_sound lib n ss" "distinct (map s_Name ss)" using r by (simp_all add: registry_ok_sound)
  have ins: "insert_scenario s ss = sortScenariosByPriority
      (filter (\<lambda>t. s_Name t \<noteq> s_Name s) ss @ [s\<lparr>s_order := scenarioOrderForAdd ss (s_Name s)\<rparr>])"
    by (simp add: insert_scenario_def scenarioOrderForAdd_def remove_first_filter [OF d(2)])
  have "distinct (map s_Name (insert_scenario s ss))" using d(2) unfolding ins by (auto simp: distinct_map_filter)
  then show ?thesis using insert_scenario_sound [OF d(1) n s] unfolding registry_ok_sound by (auto simp: ins)
qed

lemma filter_registry_ok: "registry_ok lib n ss \<Longrightarrow> registry_ok lib n (filter P ss)"
  by (auto simp: registry_ok_def distinct_map_filter sorted_wrt_filter sorted_map intro: sorted_wrt_filter)

lemma registry_ok_mono: "registry_ok lib n ss \<Longrightarrow> n \<le> m \<Longrightarrow> registry_ok lib m ss"
  by (auto simp: registry_ok_def)

lemma compile_all_ok:
  assumes "compile_all lib stat errText ss = Inr cs" "\<forall>s \<in> set ss. uncompiled s"
  shows "map s_Name cs = map s_Name ss \<and> (\<forall>c \<in> set cs. s_Name c \<noteq> [] \<and> well_compiled lib c)"
proof -
  have "list_all2 (\<lambda>s c. validateAndCompile lib stat s = Inr c) ss cs"
    using map_err_Inr [OF assms(1) [unfolded compile_all_def]] by (elim list_all2_mono) (auto split: sum.splits)
  then show ?thesis using assms(2)
  proof (induction ss cs rule: list_all2_induct)
    case (Cons s ss c cs)
    then show ?case using validateAndCompile_ok [OF Cons.hyps(1)] by (auto simp: routing_fields_def)
  qed simp
qed

lemma number_simps: "length (number ss) = length ss" "i < length ss \<Longrightarrow> number ss ! i = (ss ! i)\<lparr>s_order := int i\<rparr>"
  by (simp_all add: number_def nth_enumerate_eq)

lemma number_map: "map s_Name (number ss) = map s_Name ss" "map s_order (number ss) = map int [0..<length ss]"
  by (auto simp: number_simps intro!: nth_equalityI)

lemma load_list_sound:
  assumes "\<forall>s \<in> set ss. s_Name s \<noteq> [] \<and> well_compiled lib s" "length ss < n"
  shows "registry_sound lib (int n) (sortScenariosByPriority (number (with_default addr ss)))"
proof -
  let ?ds = "with_default addr ss"
  have d: "length ?ds \<le> n" using assms(2) by (auto simp: with_default_def)
  have w: "\<forall>s \<in> set ?ds. s_Name s \<noteq> [] \<and> well_compiled lib s"
    using assms(1) DefaultScenario_ok by (auto simp: with_default_def scenario_ok_def)
  have "scenario_ok lib t \<and> s_order t < int n" if "t \<in> set (number ?ds)" for t
  proof -
    obtain i where "i < length ?ds" "t = (?ds ! i)\<lparr>s_order := int i\<rparr>" using \<open>t \<in> set (number ?ds)\<close> by (auto simp: in_set_conv_nth number_simps)
    then show ?thesis using w d nth_mem [of i ?ds] by (simp add: scenario_ok_def)
  qed
  moreover have "distinct (map int [0..<length ?ds])" by (simp add: distinct_map)
  ultimately show ?thesis by (simp add: registry_sound_def number_map)
qed

lemma load_list_names:
  "distinct (map s_Name ss) \<Longrightarrow> distinct (map s_Name (sortScenariosByPriority (number (with_default addr ss))))"
  by (auto simp: number_map with_default_def list_ex_iff)

lemma load_list_ok:
  assumes "distinct (map s_Name ss)" "\<forall>s \<in> set ss. s_Name s \<noteq> [] \<and> well_compiled lib s" "length ss < n"
  shows "registry_ok lib (int n) (sortScenariosByPriority (number (with_default addr ss)))"
  unfolding registry_ok_sound using assms by (intro conjI load_list_sound load_list_names)

section \<open>Sequences of operations\<close>

datatype ('re, 'net) registry_op =
    OpLoad string nat "go_error + ('re, 'net) Scenario list"
  | OpReload nat "string \<Rightarrow> go_error + ('re, 'net) Scenario list"
  | OpAdd "('re, 'net) Scenario option"
  | OpRemove string

fun apply_op ::
  "('re, 'net, 'ip) golib \<Rightarrow> (string \<Rightarrow> go_error option) \<Rightarrow> (go_error \<Rightarrow> string) \<Rightarrow> ('re, 'net) registry_op \<Rightarrow>
   ('re, 'net) scenarioRegistry \<Rightarrow> go_error option \<times> ('re, 'net) scenarioRegistry" where
  "apply_op lib stat errText (OpLoad path addr decoded) r = Load lib stat errText addr path decoded r"
| "apply_op lib stat errText (OpReload addr decode) r = Reload lib stat errText addr decode r"
| "apply_op lib stat errText (OpAdd s) r = Add lib stat errText s r"
| "apply_op lib stat errText (OpRemove name) r = Remove name r"

definition run_ops ::
  "('re, 'net, 'ip) golib \<Rightarrow> (string \<Rightarrow> go_error option) \<Rightarrow> (go_error \<Rightarrow> string) \<Rightarrow> ('re, 'net) registry_op list \<Rightarrow>
   ('re, 'net) scenarioRegistry \<Rightarrow> ('re, 'net) scenarioRegistry" where
  "run_ops lib stat errText ops r = fold (\<lambda>opn r. snd (apply_op lib stat errText opn r)) ops r"

text \<open>
  The scenarios handed to the registry are freshly decoded: nothing is compiled yet, and a file has fewer than \<open>L\<close> of
  them.  Whether a file uses a name twice is a condition of its own: a file of the second format cannot, a file of
  the first one can, and \<open>Load\<close> accepts it.
\<close>

definition fresh_file :: "nat \<Rightarrow> go_error + ('re, 'net) Scenario list \<Rightarrow> bool" where
  "fresh_file L decoded \<longleftrightarrow>
     (case decoded of Inl e \<Rightarrow> True | Inr ss \<Rightarrow> length ss < L \<and> (\<forall>s \<in> set ss. uncompiled s))"

fun op_fresh :: "nat \<Rightarrow> ('re, 'net) registry_op \<Rightarrow> bool" where
  "op_fresh L (OpLoad path addr decoded) \<longleftrightarrow> fresh_file L decoded"
| "op_fresh L (OpReload addr decode) \<longleftrightarrow> (\<forall>path. fresh_file L (decode path))"
| "op_fresh L (OpAdd s) \<longleftrightarrow> (\<forall>s' \<in> set_option s. uncompiled s')"
| "op_fresh L (OpRemove name) \<longleftrightarrow> True"

definition unique_file :: "go_error + ('re, 'net) Scenario list \<Rightarrow> bool" where
  "unique_file decoded \<longleftrightarrow> (case decoded of Inl e \<Rightarrow> True | Inr ss \<Rightarrow> distinct (map s_Name ss))"

fun op_unique :: "('re, 'net) registry_op \<Rightarrow> bool" where
  "op_unique (OpLoad path addr decoded) \<longleftrightarrow> unique_file decoded"
| "op_unique (OpReload addr decode) \<longleftrightarrow> (\<forall>path. unique_file (decode path))"
| "op_unique _ \<longleftrightarrow> True"

definition named_file :: "nat \<Rightarrow> go_error + ('re, 'net) Scenario list \<Rightarrow> bool" where
  "named_file L decoded \<longleftrightarrow> fresh_file L decoded \<and> unique_file decoded"

definition op_named :: "nat \<Rightarrow> ('re, 'net) registry_op \<Rightarrow> bool" where
  "op_named L opn \<longleftrightarrow> op_fresh L opn \<and> op_unique opn"

lemma op_named_simps [simp]:
  "op_named L (OpLoad path addr decoded) \<longleftrightarrow> named_file L decoded"
  "op_named L (OpReload addr decode) \<longleftrightarrow> (\<forall>path. named_file L (decode path))"
  "op_named L (OpAdd s) \<longleftrightarrow> (\<forall>s' \<in> set_option s. uncompiled s')"
  "op_named L (OpRemove name) \<longleftrightarrow> True"
  by (auto simp: op_named_def named_file_def)

lemma Load_cases:
  assumes "fresh_file L decoded" "Load lib stat errText addr path decoded r = (err, r')"
  shows "(err \<noteq> None \<and> r' = r) \<or>
    (err = None \<and> registry_sound lib (int L) (rg_scenarios r') \<and> (unique_file decoded \<longrightarrow> distinct (map s_Name (rg_scenarios r'))) \<and>
      rg_bodyPattern r' = rg_bodyPattern r \<and> rg_filePath r' = path)"
proof (cases decoded)
  case (Inr ss)
  show ?thesis
  proof (cases "compile_all lib stat errText ss")
    case cs: (Inr cs)
    have "\<forall>s \<in> set ss. uncompiled s" using assms(1) by (simp add: fresh_file_def Inr)
    note C = compile_all_ok [OF cs this]
    have names: "map s_Name cs = map s_Name ss" using C by simp
    then have "length cs = length ss" by (metis length_map)
    then have "registry_sound lib (int L) (sortScenariosByPriority (number (with_default addr cs)))"
      using C assms(1) by (intro load_list_sound) (auto simp: fresh_file_def Inr)
    then show ?thesis using assms(2) load_list_names [of cs addr] names by (auto simp: Load_def Inr cs unique_file_def)
  qed (use assms(2) in \<open>auto simp: Load_def Inr\<close>)
qed (use assms(2) in \<open>auto simp: Load_def\<close>)

lemma remove_first_names: "distinct (map f ss) \<Longrightarrow> distinct (map f (remove_first P ss))"
  using remove_first_cases [of P ss] by auto

lemma insert_scenario_names:
  assumes "distinct (map s_Name ss)"
  shows "distinct (map s_Name (insert_scenario s ss))"
  using assms by (auto simp: insert_scenario_def Let_def remove_first_filter distinct_map_filter)

lemma apply_op_sound:
  assumes r: "registry_sound lib n (rg_scenarios r)" and n: "int L \<le> n" "n \<le> MaxInt64" and f: "op_fresh L opn"
    and r': "r' = snd (apply_op lib stat errText opn r)"
  shows "registry_sound lib (n + 1) (rg_scenarios r') \<and> rg_bodyPattern r' = rg_bodyPattern r \<and>
    (op_unique opn \<and> distinct (map s_Name (rg_scenarios r)) \<longrightarrow> distinct (map s_Name (rg_scenarios r')))"
proof (cases opn)
  case (OpLoad path addr decoded)
  obtain err l' where l: "Load lib stat errText addr path decoded r = (err, l')" by fastforce
  then show ?thesis using Load_cases [OF _ l, of L] f r n by (auto simp: r' OpLoad elim: registry_sound_mono)
next
  case (OpReload addr decode)
  obtain err nxt where l: "Load lib stat errText addr (rg_filePath r) (decode (rg_filePath r))
      \<lparr>rg_bodyPattern = rg_bodyPattern r, rg_filePath = [], rg_scenarios = []\<rparr> = (err, nxt)" by fastforce
  then show ?thesis using Load_cases [OF _ l, of L] f r n
    by (auto simp: r' OpReload Reload_def Let_def List_def elim: registry_sound_mono split: option.split)
next
  case (OpAdd s)
  show ?thesis
  proof (cases "\<exists>s0 c. s = Some s0 \<and> validateAndCompile lib stat s0 = Inr c")
    case True
    then obtain s0 c where s: "s = Some s0" "validateAndCompile lib stat s0 = Inr c" by blast
    with f have "well_compiled lib c" "s_Name c \<noteq> []" using validateAndCompile_ok [OF s(2)] by (auto simp: OpAdd routing_fields_def)
    then show ?thesis using insert_scenario_sound [OF r, of c] insert_scenario_names [of "rg_scenarios r" c] n by (simp add: r' OpAdd Add_def s)
  next
    case False
    then have "r' = r" by (auto simp: r' OpAdd Add_def split: option.split sum.split)
    then show ?thesis using r by (auto elim: registry_sound_mono)
  qed
next
  case (OpRemove name)
  have "registry_sound lib (n + 1) (remove_first (\<lambda>s. s_Name s = name) (rg_scenarios r))" "registry_sound lib (n + 1) (rg_scenarios r)"
    using registry_sound_mono [OF remove_first_sound [OF r], of "n + 1"] registry_sound_mono [OF r, of "n + 1"] by simp_all
  then show ?thesis by (simp add: r' OpRemove Remove_def remove_first_names)
qed

lemma apply_op_ok:
  assumes "registry_ok lib n (rg_scenarios r)" "int L \<le> n" "n \<le> MaxInt64" "op_named L opn"
  shows "registry_ok lib (n + 1) (rg_scenarios (snd (apply_op lib stat errText opn r))) \<and>
    rg_bodyPattern (snd (apply_op lib stat errText opn r)) = rg_bodyPattern r"
  using apply_op_sound [of lib n r L opn _ stat errText, OF _ assms(2,3) _ refl] assms(1,4) by (simp add: registry_ok_sound op_named_def)

lemma run_ops_sound:
  assumes "registry_sound lib n (rg_scenarios r)" "int L \<le> n" "n + int (length ops) \<le> MaxInt64" "\<forall>opn \<in> set ops. op_fresh L opn"
  shows "registry_sound lib (n + int (length ops)) (rg_scenarios (run_ops lib stat errText ops r)) \<and>
    rg_bodyPattern (run_ops lib stat errText ops r) = rg_bodyPattern r \<and>
    ((\<forall>opn \<in> set ops. op_unique opn) \<and> distinct (map s_Name (rg_scenarios r)) \<longrightarrow>
       distinct (map s_Name (rg_scenarios (run_ops lib stat errText ops r))))"
  using assms
proof (induction ops arbitrary: r n)
  case (Cons opn ops)
  let ?r = "snd (apply_op lib stat errText opn r)"
  have "registry_sound lib (n + 1) (rg_scenarios ?r) \<and> rg_bodyPattern ?r = rg_bodyPattern r \<and>
      (op_unique opn \<and> distinct (map s_Name (rg_scenarios r)) \<longrightarrow> distinct (map s_Name (rg_scenarios ?r)))"
    using Cons.prems by (intro apply_op_sound [of _ _ _ L]) auto
  then show ?case using Cons.IH [of "n + 1" ?r] Cons.prems by (simp add: run_ops_def algebra_simps)
qed (simp add: run_ops_def)

lemma run_ops_ok:
  assumes "registry_ok lib n (rg_scenarios r)" "int L \<le> n" "n + int (length ops) \<le> MaxInt64" "\<forall>opn \<in> set ops. op_named L opn"
  shows "registry_ok lib (n + int (length ops)) (rg_scenarios (run_ops lib stat errText ops r)) \<and>
    rg_bodyPattern (run_ops lib stat errText ops r) = rg_bodyPattern r"
  using run_ops_sound [of lib n r L ops stat errText, OF _ assms(2,3)] assms(1,4) by (simp add: registry_ok_sound op_named_def)

section \<open>What a match returns\<close>

text \<open>The branch a scenario chooses for a request: its index, if the scenario has branches.\<close>

definition chosen_branch :: "('re, 'net, 'ip) golib \<Rightarrow> ('re, 'net) Scenario \<Rightarrow> ('q, 'r, 'b) request \<Rightarrow> int \<times> bool" where
  "chosen_branch lib s req = (if s_Branches s = [] then (0, False) else (SelectBranch lib s req, True))"

lemma finish_match_branch:
  assumes "finish_match lib s req = (True, req')"
  shows "MatchedBranch req' = chosen_branch lib s req"
proof -
  have "SelectBranch lib s (ClearMatchedBranch req) = SelectBranch lib s req"
    unfolding SelectBranch_def by (rule view_select_from) simp
  then show ?thesis using assms
    by (auto simp: finish_match_def chosen_branch_def MatchedBranch_def ClearMatchedBranch_def SetMatchedBranch_def Let_def split: if_splits)
qed

lemma chosen_branch_view:
  assumes "request_view r' = request_view r"
  shows "chosen_branch lib s r' = chosen_branch lib s r"
  by (simp add: chosen_branch_def SelectBranch_def view_select_from [OF assms])

lemma check_body_view:
  assumes "check_body lib io ctx opt s req = Some (x, req')"
  shows "request_view req' = request_view req"
proof -
  have "request_view (set_bodyPatternMessage m' req) = request_view req"
    if m: "bodyPatternMessage req = Some m" and y: "bodyPatternMatches lib io ctx p m opt = Some (y, m')" for m m' p y
  proof -
    obtain res where "readBodyForPattern io m (normalized opt) = Some (res, m')"
      using y by (auto simp: bodyPatternMatches_def split: option.splits prod.splits)
    then show ?thesis by (intro set_bodyPatternMessage_simps(1) [OF m] readBodyForPattern_again(2))
  qed
  then show ?thesis using assms by (auto simp: check_body_def split: option.splits)
qed

lemma matchesScenario_branch:
  assumes "matchesScenario lib io ctx opt s req = Some ((True, err), req')"
  shows "MatchedBranch req' = chosen_branch lib s req"
proof -
  obtain caps x req2 where c: "check_body lib io ctx opt s (merge_captures caps req) = Some (x, req2)"
    and f: "finish_match lib s req2 = (True, req')"
    using assms by (auto simp: matchesScenario_def Let_def split: option.splits prod.splits if_splits)
  have "request_view req2 = request_view req" using check_body_view [OF c] by simp
  then show ?thesis using finish_match_branch [OF f] chosen_branch_view by metis
qed

text \<open>The outcome of a search in the given order, from the verdicts alone.\<close>

fun first_verdict ::
  "('re, 'net, 'ip) golib \<Rightarrow> BodyPatternOptions \<Rightarrow> string option \<times> go_error option \<Rightarrow> ('q, 'r, 'b) request \<Rightarrow> nat \<Rightarrow>
   ('re, 'net) Scenario list \<Rightarrow> go_error + ('re, 'net) Scenario" where
  "first_verdict lib opt res req n [] = Inl (no_scenario_matched n)"
| "first_verdict lib opt res req n (s # ss) =
     (case verdict lib opt res s req of
        Inl e \<Rightarrow> Inl e
      | Inr applies \<Rightarrow> if applies then Inr s else first_verdict lib opt res req (Suc n) ss)"

lemma first_verdict_view: "request_view r' = request_view r \<Longrightarrow> first_verdict lib opt res r' n ss = first_verdict lib opt res r n ss"
  by (induction ss arbitrary: n) (simp_all add: view_verdict [of r' r] cong: sum.case_cong if_cong)

lemma match_first_verdict:
  fixes req :: "('q, 'r, 'b) request"
  assumes ctx: "\<And>i k. ctx i k = None" and b: "body_reads io opt req res"
  shows "\<exists>req'. match_first lib io ctx opt n ss req = Some (first_verdict lib opt res req n ss, req') \<and>
    request_view req' = request_view req \<and> body_reads io opt req' res \<and>
    (\<forall>s. first_verdict lib opt res req n ss = Inr s \<longrightarrow> MatchedBranch req' = chosen_branch lib s req)"
  using b
proof (induction ss arbitrary: n req)
  case (Cons s ss)
  obtain req1 where m: "matchesScenario lib io (\<lambda>k. ctx (Suc n) (Suc k)) opt s req =
      Some (case verdict lib opt res s req of Inl e \<Rightarrow> ((False, Some e), req1) | Inr m \<Rightarrow> ((m, None), req1))"
    and v: "request_view req1 = request_view req" "body_reads io opt req1 res"
    using matchesScenario_verdict [of "\<lambda>k. ctx (Suc n) (Suc k)" io opt req res lib s] ctx Cons.prems by blast
  show ?case
  proof (cases "verdict lib opt res s req")
    case (Inr ok)
    show ?thesis
    proof (cases ok)
      case True
      then show ?thesis using m v Inr matchesScenario_branch by (fastforce simp: ctx)
    next
      case False
      then show ?thesis using m v Inr Cons.IH [OF v(2), of "Suc n"]
        by (simp add: ctx first_verdict_view [OF v(1)] chosen_branch_view [OF v(1)])
    qed
  qed (use m v in \<open>simp add: ctx\<close>)
qed simp

definition declines ::
  "('re, 'net, 'ip) golib \<Rightarrow> BodyPatternOptions \<Rightarrow> string option \<times> go_error option \<Rightarrow> ('q, 'r, 'b) request \<Rightarrow>
   ('re, 'net) Scenario \<Rightarrow> bool" where
  "declines lib opt res req s \<longleftrightarrow> verdict lib opt res s req = Inr False"

text \<open>\<open>x\<close> stands in the list behind elements with \<open>Q\<close> only.\<close>

definition leads :: "('a \<Rightarrow> bool) \<Rightarrow> 'a \<Rightarrow> 'a list \<Rightarrow> bool" where
  "leads Q x xs \<longleftrightarrow> (\<exists>before after. xs = before @ x # after \<and> (\<forall>u \<in> set before. Q u))"

lemma leads_head: "leads Q x (x # xs)"
  unfolding leads_def by (rule exI [of _ "[]"]) simp

lemma leads_Cons:
  assumes "leads Q x xs" "Q y"
  shows "leads Q x (y # xs)"
proof -
  obtain before after where "xs = before @ x # after" "\<forall>u \<in> set before. Q u" using assms(1) by (auto simp: leads_def)
  then show ?thesis using assms(2) unfolding leads_def by (intro exI [of _ "y # before"] exI [of _ after]) simp
qed

lemma leads_sorted: "leads Q x xs \<Longrightarrow> sorted (map key xs) \<Longrightarrow> t \<in> set xs \<Longrightarrow> \<not> Q t \<Longrightarrow> key x \<le> key t"
  by (auto simp: leads_def sorted_append)

lemma leads_in: "leads Q x xs \<Longrightarrow> x \<in> set xs"
  by (auto simp: leads_def)

lemma first_verdict_cases:
  "case first_verdict lib opt res req n ss of
     Inr s \<Rightarrow> leads (declines lib opt res req) s ss \<and> verdict lib opt res s req = Inr True
   | Inl e \<Rightarrow> (\<exists>t. leads (declines lib opt res req) t ss \<and> verdict lib opt res t req = Inl e) \<or>
       e = no_scenario_matched (n + length ss) \<and> (\<forall>t \<in> set ss. declines lib opt res req t)"
proof (induction ss arbitrary: n)
  case (Cons s ss)
  show ?case
  proof (cases "verdict lib opt res s req")
    case (Inl e)
    then show ?thesis using leads_head [of "declines lib opt res req" s ss] by auto
  next
    case (Inr ok)
    show ?thesis
    proof (cases ok)
      case True
      then show ?thesis by (simp add: Inr leads_head)
    next
      case False
      then have Q: "declines lib opt res req s" by (simp add: declines_def Inr)
      have eq: "first_verdict lib opt res req n (s # ss) = first_verdict lib opt res req (Suc n) ss" by (simp add: Inr False)
      show ?thesis using Cons.IH [of "Suc n"] leads_Cons [where Q = "declines lib opt res req" and y = s] Q unfolding eq
        by (cases "first_verdict lib opt res req (Suc n) ss") auto
    qed
  qed
qed simp

section \<open>The contract of a registry\<close>

text \<open>
  What the users of the interface \<open>ScenarioRegistry\<close> rely on: scenarios are told apart by name and by rank, a match
  answers with the best scenario that applies, and adding and removing change what is listed as announced.  \<open>calm\<close> says
  that a request can be matched without an error, \<open>small\<close> that another scenario can be numbered.
\<close>

locale scenario_store =
  fixes ok :: "'st \<Rightarrow> bool"
    and small :: "'st \<Rightarrow> bool"
    and listing :: "'st \<Rightarrow> ('re, 'net) Scenario list"
    and stored :: "'st \<Rightarrow> ('re, 'net) Scenario \<Rightarrow> ('re, 'net) Scenario \<Rightarrow> bool"
    and add :: "('re, 'net) Scenario \<Rightarrow> 'st \<Rightarrow> go_error option \<times> 'st"
    and remove :: "string \<Rightarrow> 'st \<Rightarrow> go_error option \<times> 'st"
    and calm :: "'st \<Rightarrow> 'q \<Rightarrow> bool"
    and applies :: "('re, 'net) Scenario \<Rightarrow> 'q \<Rightarrow> bool"
    and answer :: "'st \<Rightarrow> 'q \<Rightarrow> ('re, 'net) Scenario option"
  assumes ranks: "ok st \<Longrightarrow> inj_on rank (set (listing st))"
    and answer_best: "ok st \<Longrightarrow> calm st q \<Longrightarrow> answer st q = Some s \<Longrightarrow>
      s \<in> set (listing st) \<and> applies s q \<and> (\<forall>t \<in> set (listing st). applies t q \<longrightarrow> rank s \<le> rank t)"
    and answer_none: "ok st \<Longrightarrow> calm st q \<Longrightarrow> answer st q = None \<Longrightarrow> \<forall>t \<in> set (listing st). \<not> applies t q"
    and add_listing: "ok st \<Longrightarrow> small st \<Longrightarrow> uncompiled s \<Longrightarrow> add s st = (None, st') \<Longrightarrow>
      ok st' \<and> (\<exists>s'. stored st s s' \<and> s_Name s' = s_Name s \<and>
        set (listing st') = {t \<in> set (listing st). s_Name t \<noteq> s_Name s} \<union> {s'})"
    and remove_listing: "ok st \<Longrightarrow> remove name st = (None, st') \<Longrightarrow>
      ok st' \<and> set (listing st') = {t \<in> set (listing st). s_Name t \<noteq> name}"
begin

lemma answer_unique:
  assumes "ok st" "calm st q" "s \<in> set (listing st)" "applies s q" "\<forall>t \<in> set (listing st). applies t q \<longrightarrow> rank s \<le> rank t"
  shows "answer st q = Some s"
proof (cases "answer st q")
  case None
  then show ?thesis using answer_none assms by blast
next
  case (Some t)
  note B = answer_best [OF assms(1,2) Some]
  then have "rank t = rank s" using assms by (meson order_antisym)
  then show ?thesis using Some B assms(3) inj_onD [OF ranks [OF assms(1)]] by metis
qed

lemma remove_keeps_answer:
  assumes "ok st" "calm st q" "answer st q = Some s" "remove name st = (None, st')" "name \<noteq> s_Name s" "calm st' q"
  shows "answer st' q = Some s"
  using answer_best [OF assms(1-3)] remove_listing [OF assms(1,4)] assms(5,6) by (intro answer_unique) auto

lemma add_keeps_answer:
  assumes "ok st" "small st" "calm st q" "answer st q = Some s" "uncompiled s0" "add s0 st = (None, st')" "s_Name s0 \<noteq> s_Name s"
    and "\<And>s'. stored st s0 s' \<Longrightarrow> \<not> applies s' q" "calm st' q"
  shows "answer st' q = Some s"
  using answer_best [OF assms(1,3,4)] add_listing [OF assms(1,2,5,6)] assms(7-9) by (intro answer_unique) auto

lemma add_wins:
  assumes "ok st" "small st" "uncompiled s0" "add s0 st = (None, st')" "calm st' q"
    and "\<And>s'. stored st s0 s' \<Longrightarrow> applies s' q \<and> (\<forall>t \<in> set (listing st). rank s' \<le> rank t)"
  shows "\<exists>s'. stored st s0 s' \<and> answer st' q = Some s'"
proof -
  obtain s' where s': "ok st'" "stored st s0 s'" "set (listing st') = {t \<in> set (listing st). s_Name t \<noteq> s_Name s0} \<union> {s'}"
    using add_listing [OF assms(1-4)] by blast
  then have "answer st' q = Some s'" using assms(5,6) by (intro answer_unique) auto
  then show ?thesis using s'(2) by blast
qed

end

text \<open>A request for the contract: the reading functions, what reading its body yields, and the request itself.\<close>

type_synonym ('q, 'r, 'b) query = "'r body_io \<times> (string option \<times> go_error option) \<times> ('q, 'r, 'b) request"

definition q_applies ::
  "('re, 'net, 'ip) golib \<Rightarrow> BodyPatternOptions \<Rightarrow> ('re, 'net) Scenario \<Rightarrow> ('q, 'r, 'b) query \<Rightarrow> bool" where
  "q_applies lib opt s q \<longleftrightarrow> (let (io, res, req) = q in verdict lib opt res s req = Inr True)"

definition q_calm ::
  "('re, 'net, 'ip) golib \<Rightarrow> BodyPatternOptions \<Rightarrow> ('re, 'net) Scenario list \<Rightarrow> ('q, 'r, 'b) query \<Rightarrow> bool" where
  "q_calm lib opt ss q \<longleftrightarrow> (let (io, res, req) = q in body_reads io opt req res \<and> (\<forall>s \<in> set ss. \<not> isl (verdict lib opt res s req)))"

definition linear_ok :: "('re, 'net, 'ip) golib \<Rightarrow> BodyPatternOptions \<Rightarrow> ('re, 'net) scenarioRegistry \<Rightarrow> bool" where
  "linear_ok lib opt r \<longleftrightarrow> registry_ok lib (MaxInt64 + 1) (List r) \<and> rg_bodyPattern r = opt"

definition linear_small :: "('re, 'net) scenarioRegistry \<Rightarrow> bool" where
  "linear_small r \<longleftrightarrow> (\<forall>s \<in> set (List r). s_order s < MaxInt64)"

definition linear_stored ::
  "('re, 'net, 'ip) golib \<Rightarrow> (string \<Rightarrow> go_error option) \<Rightarrow> ('re, 'net) scenarioRegistry \<Rightarrow> ('re, 'net) Scenario \<Rightarrow>
   ('re, 'net) Scenario \<Rightarrow> bool" where
  "linear_stored lib stat r s s' \<longleftrightarrow>
     (\<exists>c. validateAndCompile lib stat s = Inr c \<and> s' = c\<lparr>s_order := scenarioOrderForAdd (List r) (s_Name s)\<rparr>)"

definition linear_answer ::
  "('re, 'net, 'ip) golib \<Rightarrow> ('re, 'net) scenarioRegistry \<Rightarrow> ('q, 'r, 'b) query \<Rightarrow> ('re, 'net) Scenario option" where
  "linear_answer lib r q =
     (let (io, res, req) = q in
      case match_request lib io (\<lambda>_ _. None) r req of Some (Inr s, _) \<Rightarrow> Some s | _ \<Rightarrow> None)"

lemma linear_answer_eq:
  assumes "linear_ok lib opt r" "q_calm lib opt (List r) q"
  shows "case linear_answer lib r q of
      Some s \<Rightarrow> leads (\<lambda>t. \<not> q_applies lib opt t q) s (List r) \<and> q_applies lib opt s q
    | None \<Rightarrow> \<forall>t \<in> set (List r). \<not> q_applies lib opt t q"
proof -
  obtain io res req where q: "q = (io, res, req)" by (cases q)
  have b: "body_reads io opt req res" and v: "\<forall>s \<in> set (List r). \<not> isl (verdict lib opt res s req)" and o: "rg_bodyPattern r = opt"
    using assms by (auto simp: q q_calm_def linear_ok_def)
  obtain req' where m: "match_request lib io (\<lambda>_ _. None) r req = Some (first_verdict lib opt res req 0 (List r), req')"
    using match_first_verdict [where ctx = "\<lambda>_ _. None" and io = io and opt = opt and req = req and res = res and lib = lib and n = 0 and ss = "List r"] b by (auto simp: match_request_def o List_def)
  have weaken: "leads (\<lambda>t. \<not> q_applies lib opt t q) s ss" if "leads (declines lib opt res req) s ss" for s ss
    using that by (auto simp: leads_def declines_def q_applies_def q)
  show ?thesis
    using first_verdict_cases [where lib = lib and opt = opt and res = res and req = req and n = 0 and ss = "List r"] v weaken
    by (auto simp: linear_answer_def q m q_applies_def declines_def split: sum.splits) (metis isl_def leads_in)
qed

lemma linear_add:
  assumes ok: "linear_ok lib opt r" "linear_small r" and u: "uncompiled s" and a: "Add lib stat errText (Some s) r = (None, r')"
  shows "linear_ok lib opt r' \<and> (\<exists>s'. linear_stored lib stat r s s' \<and> s_Name s' = s_Name s \<and>
    set (List r') = {t \<in> set (List r). s_Name t \<noteq> s_Name s} \<union> {s'})"
proof -
  obtain c where c: "validateAndCompile lib stat s = Inr c" and r': "r' = r\<lparr>rg_scenarios := insert_scenario c (List r)\<rparr>"
    using a by (auto simp: Add_def List_def split: sum.splits)
  have w: "s_Name c \<noteq> []" "well_compiled lib c" "s_Name c = s_Name s" using validateAndCompile_ok [OF c u] by (auto simp: routing_fields_def)
  have "registry_ok lib MaxInt64 (List r)" using ok by (auto simp: linear_ok_def linear_small_def registry_ok_def)
  from insert_scenario_ok [OF this _ _ w(1,2)]
  have i: "registry_ok lib (MaxInt64 + 1) (insert_scenario c (List r))"
    "set (insert_scenario c (List r)) = {t \<in> set (List r). s_Name t \<noteq> s_Name s} \<union> {c\<lparr>s_order := scenarioOrderForAdd (List r) (s_Name s)\<rparr>}"
    by (simp_all add: w(3) MaxInt64_def)
  then show ?thesis using ok(1) c w(3) unfolding linear_stored_def by (auto simp: linear_ok_def r' List_def)
qed

lemma linear_remove:
  assumes ok: "linear_ok lib opt r" and m: "Remove name r = (None, r')"
  shows "linear_ok lib opt r' \<and> set (List r') = {t \<in> set (List r). s_Name t \<noteq> name}"
proof -
  have "remove_first (\<lambda>s. s_Name s = name) (List r) = filter (\<lambda>s. s_Name s \<noteq> name) (List r)"
    using ok by (intro remove_first_filter) (simp add: linear_ok_def registry_ok_def)
  then have "List r' = filter (\<lambda>s. s_Name s \<noteq> name) (List r)" "rg_bodyPattern r' = rg_bodyPattern r"
    using m by (auto simp: Remove_def List_def split: if_splits)
  then show ?thesis using ok filter_registry_ok by (auto simp: linear_ok_def)
qed

lemma sound_ranks: "registry_sound lib n ss \<Longrightarrow> inj_on rank (set ss)"
  by (auto simp: registry_sound_def distinct_map rank_def intro: inj_on_imageI2 [of snd] simp: o_def inj_on_def)

lemma registry_ranks: "registry_ok lib n ss \<Longrightarrow> inj_on rank (set ss)"
  unfolding registry_ok_sound using sound_ranks by blast

lemma linear_best:
  assumes ok: "linear_ok lib opt r" "q_calm lib opt (List r) q" and s: "linear_answer lib r q = Some s"
  shows "s \<in> set (List r) \<and> q_applies lib opt s q \<and> (\<forall>t \<in> set (List r). q_applies lib opt t q \<longrightarrow> rank s \<le> rank t)"
proof -
  have "leads (\<lambda>t. \<not> q_applies lib opt t q) s (List r)" "q_applies lib opt s q" using linear_answer_eq [OF ok] s by auto
  moreover have "sorted (map rank (List r))" using ok by (auto simp: linear_ok_def registry_ok_def)
  ultimately show ?thesis by (auto dest: leads_in leads_sorted)
qed

lemma linear_ranks: "linear_ok lib opt r \<Longrightarrow> inj_on rank (set (List r))"
  unfolding linear_ok_def by (blast intro: registry_ranks)

lemma linear_none: "linear_ok lib opt r \<Longrightarrow> q_calm lib opt (List r) q \<Longrightarrow> linear_answer lib r q = None \<Longrightarrow>
    \<forall>t \<in> set (List r). \<not> q_applies lib opt t q"
  using linear_answer_eq by fastforce

interpretation linear: scenario_store "linear_ok lib opt" linear_small List "linear_stored lib stat" "\<lambda>s. Add lib stat errText (Some s)" Remove
  "\<lambda>r. q_calm lib opt (List r)" "q_applies lib opt" "linear_answer lib"
  for lib opt stat errText
  by unfold_locales (rule linear_ranks linear_best linear_none linear_add linear_remove; assumption)+

lemma failed_op: "fst (apply_op lib stat errText opn r) \<noteq> None \<Longrightarrow> snd (apply_op lib stat errText opn r) = r"
  by (cases opn) (auto simp: Load_def Reload_def Add_def Remove_def Let_def split: sum.splits option.splits prod.splits)

lemma new_registry_ok:
  "1 \<le> L \<Longrightarrow> registry_ok lib (int L) (rg_scenarios (NewScenarioRegistryWithBodyPatternOptions opts addr))"
  using DefaultScenario_ok [of lib addr] by (simp add: registry_ok_def NewScenarioRegistryWithBodyPatternOptions_def)

lemma run_new_sound:
  assumes "\<forall>opn \<in> set ops. op_fresh L opn" "1 \<le> L" "int L + int (length ops) \<le> MaxInt64"
    and r: "r = run_ops lib stat errText ops (NewScenarioRegistryWithBodyPatternOptions opts addr)"
  shows "registry_sound lib (int L + int (length ops)) (List r) \<and>
    ((\<forall>opn \<in> set ops. op_unique opn) \<longrightarrow> distinct (map s_Name (List r)))"
  using run_ops_sound [of lib "int L" "NewScenarioRegistryWithBodyPatternOptions opts addr" L ops stat errText]
    new_registry_ok [OF assms(2), of lib opts addr] assms
  by (simp add: List_def registry_ok_sound)

section \<open>Properties\<close>

text \<open>
  C19: \<^bold>\<open>The registry stays in order.\<close>  After any sequence of \<open>Load\<close>, \<open>Reload\<close>, \<open>Add\<close> and \<open>Remove\<close>, failing ones
  included, the registered scenarios are sorted from the highest rank to the lowest, have different order numbers, and
  are named and completely compiled.  Their names differ as well if no loaded file uses a name twice: \<open>Add\<close> replaces a
  scenario of the same name, but \<open>Load\<close> does not look for repeated names, which files of the first format may have.  An
  operation that returns an error has changed nothing.  (The scenarios handed in are freshly decoded, fewer than \<open>L\<close> per
  file, and order numbers do not overflow.)
\<close>

theorem registry_invariant:
  assumes "\<forall>opn \<in> set ops. op_fresh L opn" "1 \<le> L" "int L + int (length ops) \<le> MaxInt64"
    and r: "r = run_ops lib stat errText ops (NewScenarioRegistryWithBodyPatternOptions opts addr)"
  shows "sorted (map rank (List r)) \<and> distinct (map s_order (List r)) \<and>
    (\<forall>s \<in> set (List r). scenario_ok lib s \<and> s_order s < int L + int (length ops)) \<and>
    ((\<forall>opn \<in> set ops. op_unique opn) \<longrightarrow> distinct (map s_Name (List r))) \<and>
    (fst (apply_op lib stat errText opn r) \<noteq> None \<longrightarrow> snd (apply_op lib stat errText opn r) = r)"
  using run_new_sound [OF assms] failed_op [of lib stat errText opn r] by (simp add: registry_sound_def)

definition demo_ops :: "(string, unit) registry_op list" where
  "demo_ops = [OpAdd (Some demo_scenario), OpRemove ''nobody'',
     OpLoad ''f.yaml'' 2 (Inr [demo_scenario\<lparr>s_addr := 1, s_Priority := 5\<rparr>])]"

lemma demo_ops_named: "\<forall>opn \<in> set demo_ops. op_named 2 opn" "int 2 + int (length demo_ops) \<le> MaxInt64"
proof -
  have "uncompiled demo_scenario" "uncompiled (demo_scenario\<lparr>s_addr := 1, s_Priority := 5\<rparr>)" by code_simp+
  then show "\<forall>opn \<in> set demo_ops. op_named 2 opn" by (simp add: demo_ops_def named_file_def fresh_file_def unique_file_def)
  show "int 2 + int (length demo_ops) \<le> MaxInt64" by (simp add: demo_ops_def MaxInt64_def)
qed

lemma demo_ops_fresh: "\<forall>opn \<in> set demo_ops. op_fresh 2 opn" "int 2 + int (length demo_ops) \<le> MaxInt64"
  using demo_ops_named by (simp_all add: op_named_def)

text \<open>A file with one name twice: both scenarios are kept, \<open>Remove\<close> takes the first of them only.\<close>

definition twin_ops :: "(string, unit) registry_op list" where
  "twin_ops = [OpLoad ''f.yaml'' 2 (Inr [demo_scenario, demo_scenario\<lparr>s_addr := 1, s_Priority := 5\<rparr>])]"

theorem registry_invariant_witness:
  "sorted (map rank (List (run_ops literal_lib (\<lambda>_. None) (\<lambda>_. []) twin_ops (NewScenarioRegistryWithBodyPatternOptions DefaultBodyPatternOptions 0)))) \<and>
   map s_Name (List (run_ops literal_lib (\<lambda>_. None) (\<lambda>_. []) twin_ops (NewScenarioRegistryWithBodyPatternOptions DefaultBodyPatternOptions 0))) =
     [''demo'', ''demo'', ''default''] \<and>
   distinct (map s_Name (List (run_ops literal_lib (\<lambda>_. None) (\<lambda>_. []) demo_ops (NewScenarioRegistryWithBodyPatternOptions DefaultBodyPatternOptions 0)))) \<and>
   fst (Remove ''nobody'' (NewScenarioRegistry 0 :: (string, unit) scenarioRegistry)) \<noteq> None"
proof -
  have "uncompiled demo_scenario" "uncompiled (demo_scenario\<lparr>s_addr := 1, s_Priority := 5\<rparr>)" by code_simp+
  then have "\<forall>opn \<in> set twin_ops. op_fresh 3 opn" "int 3 + int (length twin_ops) \<le> MaxInt64"
    by (simp_all add: twin_ops_def fresh_file_def MaxInt64_def)
  from registry_invariant [OF this(1) _ this(2) refl, of literal_lib "\<lambda>_. None" "\<lambda>_. []"]
    registry_invariant [OF demo_ops_fresh(1) _ demo_ops_fresh(2) refl, of literal_lib "\<lambda>_. None" "\<lambda>_. []"]
  have "sorted (map rank (List (run_ops literal_lib (\<lambda>_. None) (\<lambda>_. []) twin_ops (NewScenarioRegistryWithBodyPatternOptions DefaultBodyPatternOptions 0))))"
    "distinct (map s_Name (List (run_ops literal_lib (\<lambda>_. None) (\<lambda>_. []) demo_ops (NewScenarioRegistryWithBodyPatternOptions DefaultBodyPatternOptions 0))))"
    using demo_ops_named by (simp_all add: op_named_def)
  moreover have "map s_Name (List (run_ops literal_lib (\<lambda>_. None) (\<lambda>_. []) twin_ops (NewScenarioRegistryWithBodyPatternOptions DefaultBodyPatternOptions 0))) =
      [''demo'', ''demo'', ''default'']"
    "fst (Remove ''nobody'' (NewScenarioRegistry 0 :: (string, unit) scenarioRegistry)) \<noteq> None" by code_simp+
  ultimately show ?thesis by blast
qed

lemma match_best:
  assumes "\<forall>opn \<in> set ops. op_fresh L opn" "1 \<le> L" "int L + int (length ops) \<le> MaxInt64"
    and r: "r = run_ops lib stat errText ops (NewScenarioRegistryWithBodyPatternOptions opts addr)"
    and ctx: "\<forall>i k. ctx i k = None" and b: "body_reads io (rg_bodyPattern r) req res"
  shows "\<exists>result req'. match_request lib io ctx r req = Some (result, req') \<and> request_view req' = request_view req \<and>
    (case result of
       Inr s \<Rightarrow> s \<in> set (List r) \<and> verdict lib (rg_bodyPattern r) res s req = Inr True \<and>
         MatchedBranch req' = chosen_branch lib s req \<and>
         (\<forall>t \<in> set (List r). verdict lib (rg_bodyPattern r) res t req = Inr True \<longrightarrow> t = s \<or> scenarioOutranks (Some s) (Some t))
     | Inl e \<Rightarrow>
         (\<exists>t \<in> set (List r). verdict lib (rg_bodyPattern r) res t req = Inl e \<and>
            (\<forall>u \<in> set (List r). verdict lib (rg_bodyPattern r) res u req = Inr True \<longrightarrow> scenarioOutranks (Some t) (Some u))) \<or>
         e = no_scenario_matched (length (List r)) \<and> (\<forall>t \<in> set (List r). verdict lib (rg_bodyPattern r) res t req = Inr False))"
proof -
  let ?v = "\<lambda>s. verdict lib (rg_bodyPattern r) res s req" and ?opt = "rg_bodyPattern r"
  have "registry_sound lib (int L + int (length ops)) (List r)" using run_new_sound [OF assms(1-4)] by simp
  then have srt: "sorted (map rank (List r))" and inj: "inj_on rank (set (List r))"
    using sound_ranks by (auto simp: registry_sound_def)
  have less: "scenarioOutranks (Some s) (Some t)"
    if "leads (declines lib ?opt res req) s (List r)" "t \<in> set (List r)" "?v t = Inr True" "t \<noteq> s" for s t
    using leads_sorted [OF that(1) srt that(2)] that inj_onD [OF inj, of s t] leads_in [OF that(1)]
    by (auto simp: outranks_rank declines_def order_less_le)
  obtain req' where m: "match_first lib io ctx ?opt 0 (List r) req = Some (first_verdict lib ?opt res req 0 (List r), req')"
    and v: "request_view req' = request_view req"
    and br: "\<And>s. first_verdict lib ?opt res req 0 (List r) = Inr s \<Longrightarrow> MatchedBranch req' = chosen_branch lib s req"
    using match_first_verdict [where ctx = ctx and io = io and opt = ?opt and req = req and res = res and lib = lib and n = 0 and ss = "List r"]
      ctx b by blast
  have "match_request lib io ctx r req = Some (first_verdict lib ?opt res req 0 (List r), req')"
    using m ctx by (simp add: match_request_def List_def)
  moreover note F = first_verdict_cases [where lib = lib and opt = ?opt and res = res and req = req and n = 0 and ss = "List r"]
  have "case first_verdict lib ?opt res req 0 (List r) of
       Inr s \<Rightarrow> s \<in> set (List r) \<and> ?v s = Inr True \<and> MatchedBranch req' = chosen_branch lib s req \<and>
         (\<forall>t \<in> set (List r). ?v t = Inr True \<longrightarrow> t = s \<or> scenarioOutranks (Some s) (Some t))
     | Inl e \<Rightarrow> (\<exists>t \<in> set (List r). ?v t = Inl e \<and> (\<forall>u \<in> set (List r). ?v u = Inr True \<longrightarrow> scenarioOutranks (Some t) (Some u))) \<or>
         e = no_scenario_matched (length (List r)) \<and> (\<forall>t \<in> set (List r). ?v t = Inr False)"
  proof (cases "first_verdict lib ?opt res req 0 (List r)")
    case (Inr s)
    then show ?thesis using F less br leads_in [of _ s "List r"] by auto
  next
    case (Inl e)
    have out: "scenarioOutranks (Some t) (Some u)"
      if "leads (declines lib ?opt res req) t (List r)" "?v t = Inl e" "u \<in> set (List r)" "?v u = Inr True" for t u
      using that by (intro less) auto
    from F Inl consider t where "leads (declines lib ?opt res req) t (List r)" "?v t = Inl e"
      | "e = no_scenario_matched (length (List r))" "\<forall>t \<in> set (List r). ?v t = Inr False"
      by (auto simp: declines_def)
    then show ?thesis
    proof cases
      case 1
      then have "t \<in> set (List r) \<and> ?v t = Inl e \<and> (\<forall>u \<in> set (List r). ?v u = Inr True \<longrightarrow> scenarioOutranks (Some t) (Some u))"
        using out [OF 1] leads_in [OF 1(1)] by simp
      then show ?thesis unfolding Inl sum.case by blast
    qed (simp add: Inl)
  qed
  ultimately show ?thesis using v by blast
qed

text \<open>
  C2: \<^bold>\<open>The best scenario wins.\<close>  In every registry such a sequence leads to, \<open>Match\<close> without cancellation returns the
  scenario of the highest rank (priority, then order) among those that apply to the request, leaves
  everything a matcher looks at in the request as it was, and records the branch of exactly that scenario.  It reports that nothing matched exactly
  when no scenario applies, and another error only if a scenario that no applying scenario precedes in rank has failed
  with it.
\<close>

theorem registry_match_best:
  assumes "\<forall>opn \<in> set ops. op_fresh L opn" "1 \<le> L" "int L + int (length ops) \<le> MaxInt64"
    and r: "r = run_ops lib stat errText ops (NewScenarioRegistryWithBodyPatternOptions opts addr)"
    and ctx: "\<forall>i k. ctx i k = None" and b: "body_reads io (rg_bodyPattern r) req res"
  shows "\<exists>result req'. Match lib io ctx r (Some req) = Some (result, Some req') \<and> request_view req' = request_view req \<and>
    (case result of
       Inr s \<Rightarrow> s \<in> set (List r) \<and> verdict lib (rg_bodyPattern r) res s req = Inr True \<and>
         MatchedBranch req' = chosen_branch lib s req \<and>
         (\<forall>t \<in> set (List r). verdict lib (rg_bodyPattern r) res t req = Inr True \<longrightarrow> t = s \<or> scenarioOutranks (Some s) (Some t))
     | Inl e \<Rightarrow>
         (\<exists>t \<in> set (List r). verdict lib (rg_bodyPattern r) res t req = Inl e \<and>
            (\<forall>u \<in> set (List r). verdict lib (rg_bodyPattern r) res u req = Inr True \<longrightarrow> scenarioOutranks (Some t) (Some u))) \<or>
         e = no_scenario_matched (length (List r)) \<and> (\<forall>t \<in> set (List r). verdict lib (rg_bodyPattern r) res t req = Inr False))"
proof -
  obtain result req' where "match_request lib io ctx r req = Some (result, req')" and c: "request_view req' = request_view req \<and>
    (case result of
       Inr s \<Rightarrow> s \<in> set (List r) \<and> verdict lib (rg_bodyPattern r) res s req = Inr True \<and>
         MatchedBranch req' = chosen_branch lib s req \<and>
         (\<forall>t \<in> set (List r). verdict lib (rg_bodyPattern r) res t req = Inr True \<longrightarrow> t = s \<or> scenarioOutranks (Some s) (Some t))
     | Inl e \<Rightarrow>
         (\<exists>t \<in> set (List r). verdict lib (rg_bodyPattern r) res t req = Inl e \<and>
            (\<forall>u \<in> set (List r). verdict lib (rg_bodyPattern r) res u req = Inr True \<longrightarrow> scenarioOutranks (Some t) (Some u))) \<or>
         e = no_scenario_matched (length (List r)) \<and> (\<forall>t \<in> set (List r). verdict lib (rg_bodyPattern r) res t req = Inr False))"
    using match_best [OF assms] by blast
  then have "Match lib io ctx r (Some req) = Some (result, Some req')" by (simp add: Match_def)
  with c show ?thesis by blast
qed

definition no_body_io :: "unit body_io" where
  "no_body_io = \<lparr>io_read = (\<lambda>r n. (([], Some EOF), r)), io_size = (\<lambda>n. n), io_grow = (\<lambda>n m. n)\<rparr>"

theorem registry_match_best_witness:
  "\<exists>s req'. Match literal_lib no_body_io (\<lambda>_ _. None)
      (run_ops literal_lib (\<lambda>_. None) (\<lambda>_. []) demo_ops (NewScenarioRegistryWithBodyPatternOptions DefaultBodyPatternOptions 0))
      (Some (demo_request ''icap://h/a.b'')) = Some (Inr s, Some req') \<and> s_Name s = ''demo'' \<and> MatchedBranch req' = (0, False)"
proof -
  let ?r = "run_ops literal_lib (\<lambda>_. None) (\<lambda>_. []) demo_ops (NewScenarioRegistryWithBodyPatternOptions DefaultBodyPatternOptions 0)"
  let ?req = "demo_request ''icap://h/a.b''"
  have names: "map (\<lambda>s. (s_Name s, s_Branches s)) (List ?r) = [(''demo'', []), (''default'', [])]"
    "map (\<lambda>s. verdict literal_lib (rg_bodyPattern ?r) (None, None) s ?req) (List ?r) = [Inr True, Inr True]"
    "map s_Priority (List ?r) = [5, -1]"
    by code_simp+
  then obtain a d where l: "List ?r = [a, d]" by (auto simp: map_eq_Cons_conv)
  have b: "body_reads no_body_io (rg_bodyPattern ?r) ?req (None, None)"
    by (simp add: body_reads_def bodyPatternMessage_def body_in_response_def demo_request_def zero_request_def method_defs)
  have out: "\<not> scenarioOutranks (Some d) (Some a)" "a \<noteq> d" using names by (auto simp: l scenarioOutranks_def)
  have one: "(1 :: nat) \<le> 2" and none: "\<forall>i k. (\<lambda>(_ :: nat) (_ :: nat). None :: go_error option) i k = None" by simp_all
  from registry_match_best [OF demo_ops_fresh(1) one demo_ops_fresh(2) refl none b]
  obtain result req' where m: "Match literal_lib no_body_io (\<lambda>_ _. None) ?r (Some ?req) = Some (result, Some req')"
    and c: "case result of
         Inr s \<Rightarrow> s \<in> set (List ?r) \<and> verdict literal_lib (rg_bodyPattern ?r) (None, None) s ?req = Inr True \<and>
           MatchedBranch req' = chosen_branch literal_lib s ?req \<and>
           (\<forall>t \<in> set (List ?r). verdict literal_lib (rg_bodyPattern ?r) (None, None) t ?req = Inr True \<longrightarrow> t = s \<or> scenarioOutranks (Some s) (Some t))
       | Inl e \<Rightarrow>
           (\<exists>t \<in> set (List ?r). verdict literal_lib (rg_bodyPattern ?r) (None, None) t ?req = Inl e \<and>
              (\<forall>u \<in> set (List ?r). verdict literal_lib (rg_bodyPattern ?r) (None, None) u ?req = Inr True \<longrightarrow> scenarioOutranks (Some t) (Some u))) \<or>
           e = no_scenario_matched (length (List ?r)) \<and>
           (\<forall>t \<in> set (List ?r). verdict literal_lib (rg_bodyPattern ?r) (None, None) t ?req = Inr False)"
    by (elim exE conjE)
  have "result = Inr a \<and> MatchedBranch req' = chosen_branch literal_lib a ?req"
    using c names(2) out by (cases result) (auto simp: l)
  moreover have "s_Name a = ''demo''" "s_Branches a = []" using names by (auto simp: l)
  ultimately show ?thesis using m by (auto simp: chosen_branch_def)
qed

end
