(* ===== verification/Match_Cache.thy ===== *)
theory Match_Cache
  imports Go_Prelude "HOL-Library.Word"
begin

text \<open>
  The cache of match results (\<open>ScenarioMatchCache\<close> in \<^verbatim>\<open>internal/storage/sharded_scenario.go\<close>): entries
  in a doubly linked list between two dummy entries, the most recent first, and a map from keys to entries.

  Pointers are numbers into a heap; \<open>now\<close> is what \<open>time.Now()\<close> returns.  The methods run under the lock of the cache, so each
  one is a single step.  The cache is proved to behave as a list of triples (key, scenario, generation).
\<close>

section \<open>The linked list and the map\<close>

record 's cacheEntry =
  e_timestamp :: int
  e_scenario :: "'s option"
  e_prev :: nat
  e_next :: nat
  e_key :: string
  e_generation :: "64 word"

record 's ScenarioMatchCache =
  mc_heap :: "nat \<Rightarrow> 's cacheEntry"
  mc_fresh :: nat
  mc_entries :: "string \<Rightarrow> nat option"
  mc_head :: nat
  mc_tail :: nat
  mc_size :: int
  mc_cap :: int

definition zero_entry :: "'s cacheEntry" where
  "zero_entry = \<lparr>e_timestamp = 0, e_scenario = None, e_prev = 0, e_next = 0, e_key = [], e_generation = 0\<rparr>"

definition set_next :: "nat \<Rightarrow> nat \<Rightarrow> (nat \<Rightarrow> 's cacheEntry) \<Rightarrow> nat \<Rightarrow> 's cacheEntry" where
  "set_next a b h = h(a := (h a)\<lparr>e_next := b\<rparr>)"

definition set_prev :: "nat \<Rightarrow> nat \<Rightarrow> (nat \<Rightarrow> 's cacheEntry) \<Rightarrow> nat \<Rightarrow> 's cacheEntry" where
  "set_prev a b h = h(a := (h a)\<lparr>e_prev := b\<rparr>)"

definition newScenarioMatchCache :: "int \<Rightarrow> 's ScenarioMatchCache" where
  "newScenarioMatchCache capacity =
     \<lparr>mc_heap = set_prev 1 0 (set_next 0 1 (\<lambda>_. zero_entry)), mc_fresh = 2, mc_entries = Map.empty, mc_head = 0, mc_tail = 1,
      mc_size = 0, mc_cap = capacity\<rparr>"

definition cache_addToFront :: "nat \<Rightarrow> 's ScenarioMatchCache \<Rightarrow> 's ScenarioMatchCache" where
  "cache_addToFront entry c =
     (let hd = mc_head c;
          h1 = set_next entry (e_next (mc_heap c hd)) (mc_heap c);
          h2 = set_prev entry hd h1;
          h3 = set_prev (e_next (h2 hd)) entry h2;
          h4 = set_next hd entry h3
      in c\<lparr>mc_heap := h4\<rparr>)"

definition unlink :: "nat \<Rightarrow> (nat \<Rightarrow> 's cacheEntry) \<Rightarrow> nat \<Rightarrow> 's cacheEntry" where
  "unlink entry h =
     (let h1 = set_next (e_prev (h entry)) (e_next (h entry)) h
      in set_prev (e_next (h1 entry)) (e_prev (h1 entry)) h1)"

definition cache_moveToFront :: "nat \<Rightarrow> 's ScenarioMatchCache \<Rightarrow> 's ScenarioMatchCache" where
  "cache_moveToFront entry c = cache_addToFront entry (c\<lparr>mc_heap := unlink entry (mc_heap c)\<rparr>)"

definition evict :: "'s ScenarioMatchCache \<Rightarrow> 's ScenarioMatchCache" where
  "evict c =
     (let h = mc_heap c; tl = mc_tail c in
      if e_prev (h tl) = mc_head c then c
      else (let toRemove = e_prev (h tl);
                h1 = set_next (e_prev (h toRemove)) tl h;
                h2 = set_prev tl (e_prev (h1 toRemove)) h1
            in c\<lparr>mc_heap := h2, mc_entries := (mc_entries c)(e_key (h2 toRemove) := None), mc_size := wrap64 (mc_size c - 1)\<rparr>))"

definition GetGeneration :: "string \<Rightarrow> 64 word \<Rightarrow> 's ScenarioMatchCache \<Rightarrow> 's option \<times> 's ScenarioMatchCache" where
  "GetGeneration key generation c =
     (case mc_entries c key of
        None \<Rightarrow> (None, c)
      | Some entry \<Rightarrow>
          if e_generation (mc_heap c entry) \<noteq> generation then (None, c)
          else (let c' = cache_moveToFront entry c in (e_scenario (mc_heap c' entry), c')))"

definition cache_Get :: "string \<Rightarrow> 's ScenarioMatchCache \<Rightarrow> 's option \<times> 's ScenarioMatchCache" where
  "cache_Get key c = GetGeneration key 0 c"

definition PutGeneration :: "int \<Rightarrow> string \<Rightarrow> 's \<Rightarrow> 64 word \<Rightarrow> 's ScenarioMatchCache \<Rightarrow> 's ScenarioMatchCache" where
  "PutGeneration now key scenario generation c =
     (case mc_entries c key of
        Some entry \<Rightarrow>
          (let h = mc_heap c in
           cache_moveToFront entry
             (c\<lparr>mc_heap := h(entry := (h entry)\<lparr>e_scenario := Some scenario, e_generation := generation, e_timestamp := now\<rparr>)\<rparr>))
      | None \<Rightarrow>
          (let entry = mc_fresh c;
               c1 = c\<lparr>mc_heap := (mc_heap c)(entry := zero_entry\<lparr>e_key := key, e_scenario := Some scenario,
                                     e_generation := generation, e_timestamp := now\<rparr>),
                      mc_fresh := entry + 1, mc_entries := (mc_entries c)(key := Some entry)\<rparr>;
               c2 = cache_addToFront entry c1;
               c3 = c2\<lparr>mc_size := wrap64 (mc_size c2 + 1)\<rparr>
           in if mc_size c3 > mc_cap c3 then evict c3 else c3))"

definition cache_Put :: "int \<Rightarrow> string \<Rightarrow> 's \<Rightarrow> 's ScenarioMatchCache \<Rightarrow> 's ScenarioMatchCache" where
  "cache_Put now key scenario c = PutGeneration now key scenario 0 c"

definition cache_Clear :: "'s ScenarioMatchCache \<Rightarrow> 's ScenarioMatchCache" where
  "cache_Clear c =
     c\<lparr>mc_entries := Map.empty, mc_heap := set_prev (mc_tail c) (mc_head c) (set_next (mc_head c) (mc_tail c) (mc_heap c)), mc_size := 0\<rparr>"

section \<open>The specification\<close>

type_synonym 's lru_list = "(string \<times> 's \<times> 64 word) list"

definition without :: "string \<Rightarrow> 's lru_list \<Rightarrow> 's lru_list" where
  "without k l = filter (\<lambda>x. fst x \<noteq> k) l"

definition spec_get :: "string \<Rightarrow> 64 word \<Rightarrow> 's lru_list \<Rightarrow> 's option \<times> 's lru_list" where
  "spec_get k g l =
     (case map_of l k of
        None \<Rightarrow> (None, l)
      | Some (v, g') \<Rightarrow> if g' \<noteq> g then (None, l) else (Some v, (k, v, g') # without k l))"

definition spec_put :: "int \<Rightarrow> string \<Rightarrow> 's \<Rightarrow> 64 word \<Rightarrow> 's lru_list \<Rightarrow> 's lru_list" where
  "spec_put cap k v g l =
     (if map_of l k \<noteq> None then (k, v, g) # without k l
      else if int (length l) + 1 > cap then butlast ((k, v, g) # l) else (k, v, g) # l)"

section \<open>Chains\<close>

fun chain :: "(nat \<Rightarrow> 's cacheEntry) \<Rightarrow> nat list \<Rightarrow> bool" where
  "chain h (x # y # zs) \<longleftrightarrow> e_next (h x) = y \<and> e_prev (h y) = x \<and> chain h (y # zs)"
| "chain h _ \<longleftrightarrow> True"

lemma chain_append: "chain h (xs @ y # ys) \<longleftrightarrow> chain h (xs @ [y]) \<and> chain h (y # ys)"
  by (induction h xs rule: chain.induct) (auto simp: neq_Nil_conv)

lemma in_tl: "x \<in> set (tl xs) \<Longrightarrow> x \<in> set xs"
  by (cases xs) auto

lemma chain_frame:
  "(\<And>x. x \<in> set (butlast xs) \<Longrightarrow> e_next (h' x) = e_next (h x)) \<Longrightarrow> (\<And>x. x \<in> set (tl xs) \<Longrightarrow> e_prev (h' x) = e_prev (h x)) \<Longrightarrow>
   chain h' xs = chain h xs"
  by (induction h xs rule: chain.induct) auto

lemma set_simps [simp]:
  "e_next (set_next a b h x) = (if x = a then b else e_next (h x))" "e_prev (set_next a b h x) = e_prev (h x)"
  "e_prev (set_prev a b h x) = (if x = a then b else e_prev (h x))" "e_next (set_prev a b h x) = e_next (h x)"
  "e_key (set_next a b h x) = e_key (h x)" "e_key (set_prev a b h x) = e_key (h x)"
  "e_scenario (set_next a b h x) = e_scenario (h x)" "e_scenario (set_prev a b h x) = e_scenario (h x)"
  "e_generation (set_next a b h x) = e_generation (h x)" "e_generation (set_prev a b h x) = e_generation (h x)"
  by (simp_all add: set_next_def set_prev_def)

lemma chain_unlink:
  assumes c: "chain h (xs @ p # e # n # ys)" and d: "distinct (xs @ p # e # n # ys)"
  shows "chain (unlink e h) (xs @ p # n # ys)"
proof -
  have pe: "e_prev (h e) = p" "e_next (h e) = n" and l: "chain h (xs @ [p])" and r: "chain h (n # ys)"
    using c chain_append [of h xs p "e # n # ys"] by auto
  have u: "e_next (unlink e h x) = (if x = p then n else e_next (h x))" "e_prev (unlink e h x) = (if x = n then p else e_prev (h x))" for x
    using d pe by (auto simp: unlink_def Let_def)
  have "chain (unlink e h) (xs @ [p])"
    using l d by (subst chain_frame [of "xs @ [p]" _ h]) (auto simp: u dest!: in_tl)
  moreover have "chain (unlink e h) (n # ys)" using r d by (subst chain_frame [of "n # ys" _ h]) (auto simp: u split: if_splits dest: in_set_butlastD)
  ultimately show ?thesis using chain_append [of "unlink e h" xs p "n # ys"] d by (simp add: u)
qed

lemma chain_front:
  assumes "chain (mc_heap c) (mc_head c # y # ys)" "e \<notin> set (mc_head c # y # ys)" "distinct (mc_head c # y # ys)"
  shows "chain (mc_heap (cache_addToFront e c)) (mc_head c # e # y # ys)"
proof -
  let ?h = "mc_heap (cache_addToFront e c)" and ?p = "mc_head c"
  have y: "e_next (mc_heap c ?p) = y" using assms(1) by simp
  have u: "e_next (?h x) = (if x = ?p then e else if x = e then y else e_next (mc_heap c x))"
    "e_prev (?h x) = (if x = y then e else if x = e then ?p else e_prev (mc_heap c x))" for x
    using assms(2,3) y by (auto simp: cache_addToFront_def Let_def)
  have "chain ?h (y # ys)" using assms
    by (subst chain_frame [of "y # ys" _ "mc_heap c"]) (auto simp: u split: if_splits dest: in_set_butlastD)
  then show ?thesis using assms(2,3) by (auto simp: u)
qed

section \<open>Refinement\<close>

definition triple :: "'s cacheEntry \<Rightarrow> string \<times> 's \<times> 64 word" where
  "triple e = (e_key e, the (e_scenario e), e_generation e)"

definition view :: "'s ScenarioMatchCache \<Rightarrow> nat list \<Rightarrow> 's lru_list" where
  "view c as = map (\<lambda>a. triple (mc_heap c a)) as"

text \<open>The addresses of the entries in list order, without the dummies.\<close>

definition cache_wf :: "'s ScenarioMatchCache \<Rightarrow> nat list \<Rightarrow> bool" where
  "cache_wf c as \<longleftrightarrow>
     chain (mc_heap c) (mc_head c # as @ [mc_tail c]) \<and> distinct (mc_head c # as @ [mc_tail c]) \<and>
     (\<forall>a \<in> set (mc_head c # as @ [mc_tail c]). a < mc_fresh c) \<and>
     (\<forall>k a. mc_entries c k = Some a \<longleftrightarrow> a \<in> set as \<and> e_key (mc_heap c a) = k) \<and>
     (\<forall>a \<in> set as. e_scenario (mc_heap c a) \<noteq> None) \<and>
     mc_size c = int (length as) \<and> int (length as) \<le> mc_cap c \<and> mc_cap c < MaxInt64"

lemma cache_wf_entries: "cache_wf c as \<Longrightarrow> mc_entries c k = Some a \<longleftrightarrow> a \<in> set as \<and> e_key (mc_heap c a) = k"
  by (simp add: cache_wf_def)

lemma cache_wf_keys:
  assumes "cache_wf c as"
  shows "distinct (map (\<lambda>a. e_key (mc_heap c a)) as)"
proof -
  have "inj_on (\<lambda>a. e_key (mc_heap c a)) (set as)" using assms unfolding cache_wf_def inj_on_def by (metis option.inject)
  then show ?thesis using assms by (simp add: cache_wf_def distinct_map)
qed

lemma map_of_cache_view:
  assumes "cache_wf c as"
  shows "map_of (view c as) k = map_option (\<lambda>a. snd (triple (mc_heap c a))) (mc_entries c k)"
proof (cases "mc_entries c k")
  case None
  then have "\<forall>a \<in> set as. e_key (mc_heap c a) \<noteq> k" using cache_wf_entries [OF assms] by (metis option.distinct(1))
  then have "k \<notin> fst ` set (view c as)" by (auto simp: view_def triple_def)
  then show ?thesis using None by (simp add: map_of_eq_None_iff)
next
  case (Some a)
  then have "(k, snd (triple (mc_heap c a))) \<in> set (view c as)" using assms by (auto simp: view_def triple_def cache_wf_def)
  moreover have "distinct (map fst (view c as))" using cache_wf_keys [OF assms] by (simp add: view_def triple_def comp_def)
  ultimately show ?thesis using Some by (simp add: map_of_is_SomeI)
qed

lemma addToFront_simps [simp]:
  "triple (mc_heap (cache_addToFront e c) x) = triple (mc_heap c x)" "mc_entries (cache_addToFront e c) = mc_entries c"
  "mc_fresh (cache_addToFront e c) = mc_fresh c" "mc_head (cache_addToFront e c) = mc_head c" "mc_tail (cache_addToFront e c) = mc_tail c"
  "mc_size (cache_addToFront e c) = mc_size c" "mc_cap (cache_addToFront e c) = mc_cap c"
  "e_key (mc_heap (cache_addToFront e c) x) = e_key (mc_heap c x)" "e_scenario (mc_heap (cache_addToFront e c) x) = e_scenario (mc_heap c x)"
  "triple (unlink e h x) = triple (h x)" "e_key (unlink e h x) = e_key (h x)" "e_scenario (unlink e h x) = e_scenario (h x)"
  by (simp_all add: cache_addToFront_def unlink_def triple_def Let_def)

lemma chain_last: "chain h (xs @ [p, q]) \<Longrightarrow> e_prev (h q) = p \<and> e_next (h p) = q"
  using chain_append [of h xs p "[q]"] by simp

lemma split_at:
  assumes "a \<in> set as" "distinct as"
  obtains us vs where "as = us @ a # vs" "remove1 a as = us @ vs" "a \<notin> set us" "a \<notin> set vs"
  using assms by (metis distinct_append distinct.simps(2) remove1_split split_list_first remove1_append remove1.simps(2))

lemma filter_remove1: "distinct (map f xs) \<Longrightarrow> a \<in> set xs \<Longrightarrow> filter (\<lambda>x. f x \<noteq> f a) xs = remove1 a xs"
proof (induction xs)
  case (Cons x xs)
  show ?case
  proof (cases "x = a")
    case True
    then have "filter (\<lambda>y. f y \<noteq> f a) xs = xs" using Cons.prems by (auto simp: filter_id_conv) (metis imageI)
    then show ?thesis using True by simp
  next
    case False
    then show ?thesis using Cons by auto
  qed
qed simp

lemma moveToFront_wf:
  assumes wf: "cache_wf c as" and a: "a \<in> set as"
  shows "cache_wf (cache_moveToFront a c) (a # remove1 a as)"
    "view (cache_moveToFront a c) (a # remove1 a as) = triple (mc_heap c a) # without (e_key (mc_heap c a)) (view c as)"
proof -
  let ?c = "c\<lparr>mc_heap := unlink a (mc_heap c)\<rparr>"
  have d: "distinct as" "mc_head c \<notin> set as" "mc_tail c \<notin> set as" "mc_head c \<noteq> mc_tail c" using wf by (auto simp: cache_wf_def)
  obtain us vs where as: "as = us @ a # vs" "remove1 a as = us @ vs" "a \<notin> set us" "a \<notin> set vs" by (rule split_at [OF a d(1)])
  have ch: "chain (mc_heap c) (mc_head c # as @ [mc_tail c])" using wf by (simp add: cache_wf_def)
  obtain p xs where p: "mc_head c # us = xs @ [p]" by (metis append_butlast_last_id list.discI)
  obtain n ys where n: "vs @ [mc_tail c] = n # ys" by (metis append_is_Nil_conv list.exhaust list.discI)
  have whole: "mc_head c # as @ [mc_tail c] = xs @ p # a # n # ys" using p n by (simp add: as(1))
  have rest: "mc_head c # remove1 a as @ [mc_tail c] = xs @ p # n # ys" using p n by (simp add: as(2))
  have "distinct (mc_head c # as @ [mc_tail c])" using d by auto
  then have un: "chain (mc_heap ?c) (mc_head ?c # remove1 a as @ [mc_tail c])"
    using chain_unlink [of "mc_heap c" xs p a n ys] ch by (simp add: rest whole)
  have set_rest: "set (remove1 a as) = set as - {a}" using d(1) by (simp add: set_remove1_eq)
  have "chain (mc_heap (cache_moveToFront a c)) (mc_head c # a # remove1 a as @ [mc_tail c])"
  proof (cases "remove1 a as @ [mc_tail c]")
    case (Cons y zs)
    then have "set (y # zs) = (set as - {a}) \<union> {mc_tail c}" "distinct (y # zs)" using set_rest d by (auto simp flip: Cons)
    then show ?thesis using chain_front [of ?c y zs a] un a d unfolding Cons cache_moveToFront_def by auto
  qed simp
  moreover have "length (a # remove1 a as) = length as" using a by (simp add: length_remove1) (metis Suc_pred length_pos_if_in_set)
  ultimately show "cache_wf (cache_moveToFront a c) (a # remove1 a as)"
    using wf d a set_rest unfolding cache_wf_def by (auto simp: cache_moveToFront_def)
  have "filter (\<lambda>x. e_key (mc_heap c x) \<noteq> e_key (mc_heap c a)) as = remove1 a as" by (rule filter_remove1 [OF cache_wf_keys [OF wf] a])
  then show "view (cache_moveToFront a c) (a # remove1 a as) = triple (mc_heap c a) # without (e_key (mc_heap c a)) (view c as)"
    by (simp add: view_def cache_moveToFront_def without_def filter_map comp_def triple_def [of "mc_heap c x" for x])
qed

lemma GetGeneration_refines:
  assumes wf: "cache_wf c as"
  shows "\<exists>as'. cache_wf (snd (GetGeneration k g c)) as' \<and>
    spec_get k g (view c as) = (fst (GetGeneration k g c), view (snd (GetGeneration k g c)) as') \<and>
    mc_cap (snd (GetGeneration k g c)) = mc_cap c"
proof (cases "mc_entries c k")
  case None
  then show ?thesis using wf map_of_cache_view [OF wf, of k] by (auto simp: GetGeneration_def spec_get_def)
next
  case (Some a)
  then have a: "a \<in> set as" "e_key (mc_heap c a) = k" "e_scenario (mc_heap c a) \<noteq> None"
    using wf cache_wf_entries [OF wf, of k a] by (auto simp: cache_wf_def)
  then obtain v where v: "triple (mc_heap c a) = (k, v, e_generation (mc_heap c a))" "e_scenario (mc_heap c a) = Some v"
    by (auto simp: triple_def)
  show ?thesis
  proof (cases "e_generation (mc_heap c a) = g")
    case True
    then show ?thesis using moveToFront_wf [OF wf a(1)] map_of_cache_view [OF wf, of k] v a(2) Some
      by (auto simp: GetGeneration_def spec_get_def Let_def cache_moveToFront_def intro!: exI [of _ "a # remove1 a as"])
  next
    case False
    then show ?thesis using wf map_of_cache_view [OF wf, of k] v Some by (auto simp: GetGeneration_def spec_get_def)
  qed
qed

lemma cache_wf_insert:
  assumes wf: "cache_wf c as" and k: "mc_entries c k = None"
    and e_def: "e = mc_fresh c"
    and c1_def: "c1 = c\<lparr>mc_heap := (mc_heap c)(e := nd), mc_fresh := e + 1, mc_entries := (mc_entries c)(k := Some e)\<rparr>"
    and nd: "e_key nd = k" "e_scenario nd \<noteq> None"
  shows "chain (mc_heap (cache_addToFront e c1)) (mc_head c # e # as @ [mc_tail c])"
    "view (cache_addToFront e c1) (e # as) = triple nd # view c as"
    "\<And>k' a. mc_entries (cache_addToFront e c1) k' = Some a \<longleftrightarrow> a \<in> set (e # as) \<and> e_key (mc_heap (cache_addToFront e c1) a) = k'"
proof -
  have e: "e \<notin> set (mc_head c # as @ [mc_tail c])" using wf by (auto simp: cache_wf_def e_def)
  have ch: "chain (mc_heap c1) (mc_head c # as @ [mc_tail c])"
    using wf e unfolding cache_wf_def c1_def
    by (subst chain_frame [of _ _ "mc_heap c"]) (auto dest: in_set_butlastD in_tl split: if_splits)
  obtain y ys where y: "as @ [mc_tail c] = y # ys" by (metis append_is_Nil_conv list.exhaust list.discI)
  have "distinct (mc_head c # as @ [mc_tail c])" using wf by (simp add: cache_wf_def)
  then show "chain (mc_heap (cache_addToFront e c1)) (mc_head c # e # as @ [mc_tail c])"
    using chain_front [of c1 y ys e] ch e unfolding y by (simp add: c1_def)
  show "view (cache_addToFront e c1) (e # as) = triple nd # view c as" using e by (auto simp: view_def c1_def)
  show "mc_entries (cache_addToFront e c1) k' = Some a \<longleftrightarrow> a \<in> set (e # as) \<and> e_key (mc_heap (cache_addToFront e c1) a) = k'" for k' a
    using e nd(1) k cache_wf_entries [OF wf, of k' a] cache_wf_entries [OF wf, of k a] by (auto simp: c1_def)
qed

text \<open>Eviction takes the last entry off a list that is one too long.\<close>

lemma evict_wf:
  assumes ch: "chain (mc_heap c) (mc_head c # as @ [z, mc_tail c])" and d: "distinct (mc_head c # as @ [z, mc_tail c])"
    and fr: "\<forall>a \<in> set (mc_head c # as @ [z, mc_tail c]). a < mc_fresh c"
    and en: "\<And>k a. mc_entries c k = Some a \<longleftrightarrow> a \<in> set (as @ [z]) \<and> e_key (mc_heap c a) = k"
    and sc: "\<forall>a \<in> set as. e_scenario (mc_heap c a) \<noteq> None" and sz: "mc_size c = int (length as) + 1"
    and cap: "int (length as) \<le> mc_cap c" "mc_cap c < MaxInt64"
  shows "cache_wf (evict c) as" "view (evict c) as = view c as" "mc_cap (evict c) = mc_cap c"
proof -
  obtain p xs where p: "mc_head c # as = xs @ [p]" by (metis append_butlast_last_id list.discI)
  have whole: "mc_head c # as @ [z, mc_tail c] = xs @ p # z # [mc_tail c]" using p by simp
  have l: "e_prev (mc_heap c (mc_tail c)) = z" "e_prev (mc_heap c z) = p" "e_next (mc_heap c z) = mc_tail c"
    using ch chain_append [of "mc_heap c" xs p "[z, mc_tail c]"] unfolding whole by auto
  have "p \<in> set (mc_head c # as)" unfolding p by simp
  then have z: "z \<noteq> mc_head c" "z \<notin> set as" "p \<noteq> z" "p \<noteq> mc_tail c" using d by auto
  have "unlink z (mc_heap c) = set_prev (mc_tail c) p (set_next p (mc_tail c) (mc_heap c))"
    using l z by (simp add: unlink_def Let_def)
  then have ev: "evict c = c\<lparr>mc_heap := unlink z (mc_heap c), mc_entries := (mc_entries c)(e_key (mc_heap c z) := None), mc_size := int (length as)\<rparr>"
    using l z sz cap by (simp add: evict_def Let_def in_int64_def MinInt64_def)
  have "chain (unlink z (mc_heap c)) (mc_head c # as @ [mc_tail c])"
    using chain_unlink [of "mc_heap c" xs p z "mc_tail c" "[]"] ch d p unfolding whole by simp (metis append_Cons append_assoc append_Nil)
  moreover have "((mc_entries c)(e_key (mc_heap c z) := None)) k = Some a \<longleftrightarrow> a \<in> set as \<and> e_key (mc_heap c a) = k" for k a
    using en [of k a] en [of "e_key (mc_heap c z)" z] en [of "e_key (mc_heap c z)" a] z by auto
  ultimately show "cache_wf (evict c) as" using d fr sc cap by (simp add: cache_wf_def ev)
  show "view (evict c) as = view c as" "mc_cap (evict c) = mc_cap c" by (simp_all add: view_def ev)
qed

lemma evict_butlast:
  assumes "chain (mc_heap c) (mc_head c # as @ [mc_tail c])" "distinct (mc_head c # as @ [mc_tail c])"
    and "\<forall>a \<in> set (mc_head c # as @ [mc_tail c]). a < mc_fresh c"
    and "\<And>k a. mc_entries c k = Some a \<longleftrightarrow> a \<in> set as \<and> e_key (mc_heap c a) = k"
    and "\<forall>a \<in> set as. e_scenario (mc_heap c a) \<noteq> None" and "mc_size c = int (length as)" "mc_size c = mc_cap c + 1" "mc_cap c < MaxInt64"
    and "as \<noteq> []"
  shows "cache_wf (evict c) (butlast as) \<and> view (evict c) (butlast as) = butlast (view c as) \<and> mc_cap (evict c) = mc_cap c"
proof -
  obtain bs z where bs: "as = bs @ [z]" using assms(9) by (metis append_butlast_last_id)
  then have "cache_wf (evict c) bs \<and> view (evict c) bs = view c bs \<and> mc_cap (evict c) = mc_cap c"
    using assms by (intro conjI evict_wf [of c bs z]) auto
  then show ?thesis by (simp add: bs view_def)
qed

lemma without_upd:
  "e_key (h a) = k \<Longrightarrow> e_key nd = k \<Longrightarrow> without k (map (\<lambda>x. triple ((h(a := nd)) x)) as) = without k (map (\<lambda>x. triple (h x)) as)"
  by (induction as) (auto simp: without_def triple_def)

lemma PutGeneration_refines:
  assumes wf: "cache_wf c as" and cap: "1 \<le> mc_cap c"
  shows "\<exists>as'. cache_wf (PutGeneration now k v g c) as' \<and> view (PutGeneration now k v g c) as' = spec_put (mc_cap c) k v g (view c as) \<and>
    mc_cap (PutGeneration now k v g c) = mc_cap c"
proof (cases "mc_entries c k")
  case (Some a)
  let ?c = "c\<lparr>mc_heap := (mc_heap c)(a := (mc_heap c a)\<lparr>e_scenario := Some v, e_generation := g, e_timestamp := now\<rparr>)\<rparr>"
  have a: "a \<in> set as" "e_key (mc_heap c a) = k" using cache_wf_entries [OF wf, of k a] Some by auto
  have "chain (mc_heap ?c) xs = chain (mc_heap c) xs" for xs by (rule chain_frame) auto
  then have wf': "cache_wf ?c as" using wf unfolding cache_wf_def by auto
  have "without k (view ?c as) = without k (view c as)" using without_upd [of "mc_heap c" a k "(mc_heap c a)\<lparr>e_scenario := Some v, e_generation := g, e_timestamp := now\<rparr>" as] a(2)
    by (simp add: view_def)
  moreover have "mc_cap (cache_moveToFront a ?c) = mc_cap c" by (simp add: cache_moveToFront_def)
  ultimately show ?thesis
    using moveToFront_wf [OF wf' a(1)] map_of_cache_view [OF wf, of k] a(2) Some
    by (auto simp: PutGeneration_def spec_put_def Let_def triple_def intro!: exI [of _ "a # remove1 a as"])
next
  case None
  let ?nd = "zero_entry\<lparr>e_key := k, e_scenario := Some v, e_generation := g, e_timestamp := now\<rparr>" and ?e = "mc_fresh c"
  let ?c1 = "c\<lparr>mc_heap := (mc_heap c)(?e := ?nd), mc_fresh := ?e + 1, mc_entries := (mc_entries c)(k := Some ?e)\<rparr>"
  let ?c2 = "cache_addToFront ?e ?c1"
  let ?c3 = "?c2\<lparr>mc_size := int (length as) + 1\<rparr>"
  have nd: "e_key ?nd = k" "e_scenario ?nd \<noteq> None" "triple ?nd = (k, v, g)" by (simp_all add: triple_def)
  note I = cache_wf_insert [OF wf None refl refl nd(1,2)]
  have fr: "\<forall>a \<in> set (mc_head c # as @ [mc_tail c]). a < ?e" and d: "distinct (mc_head c # as @ [mc_tail c])"
    and sc: "\<forall>a \<in> set as. e_scenario (mc_heap c a) \<noteq> None" and sz: "mc_size c = int (length as)" "int (length as) \<le> mc_cap c" "mc_cap c < MaxInt64"
    using wf by (auto simp: cache_wf_def)
  have e: "?e \<notin> set as" "?e \<noteq> mc_head c" "?e \<noteq> mc_tail c" using fr by auto
  have sc3: "\<forall>a \<in> set (?e # as). e_scenario (mc_heap ?c3 a) \<noteq> None" using sc e by simp
  have p: "PutGeneration now k v g c = (if int (length as) + 1 > mc_cap c then evict ?c3 else ?c3)"
    using None sz by (simp add: PutGeneration_def Let_def in_int64_def MinInt64_def)
  have none: "map_of (view c as) k = None" using map_of_cache_view [OF wf, of k] None by simp
  have len: "length (view c as) = length as" by (simp add: view_def)
  have v3: "view ?c3 (?e # as) = (k, v, g) # view c as" using I(2) nd(3) by (simp add: view_def)
  show ?thesis
  proof (cases "int (length as) + 1 > mc_cap c")
    case False
    have "cache_wf ?c3 (?e # as)" unfolding cache_wf_def
      using I(1,3) fr d e sc3 sz False by auto
    then show ?thesis using False none v3 len unfolding p spec_put_def by (intro exI [of _ "?e # as"]) simp
  next
    case True
    have "cache_wf (evict ?c3) (butlast (?e # as)) \<and> view (evict ?c3) (butlast (?e # as)) = butlast (view ?c3 (?e # as)) \<and>
        mc_cap (evict ?c3) = mc_cap ?c3"
      using I(1,3) fr d e sc3 sz True by (intro evict_butlast) auto
    then show ?thesis using True none v3 len unfolding p spec_put_def by (intro exI [of _ "butlast (?e # as)"]) simp
  qed
qed

lemma cache_Clear_refines:
  assumes "cache_wf c as" "0 \<le> mc_cap c"
  shows "cache_wf (cache_Clear c) []" "mc_cap (cache_Clear c) = mc_cap c"
  using assms by (auto simp: cache_wf_def cache_Clear_def)

lemma newScenarioMatchCache_wf: "0 \<le> capacity \<Longrightarrow> capacity < MaxInt64 \<Longrightarrow> cache_wf (newScenarioMatchCache capacity) []"
  by (simp add: cache_wf_def newScenarioMatchCache_def)

end
