(* ===== verification/Sharded_Registry.thy ===== *)
theory Sharded_Registry
  imports Scenario_Registry Match_Cache
begin

text \<open>
  The sharded scenario registry (\<^verbatim>\<open>internal/storage/sharded_scenario.go\<close>), which the server uses: scenarios
  with one plain path, or with plain exact routes, live in the shard of the path's hash and in that shard's
  index; all others are global.

  The theory models one goroutine: every operation runs to its end before the next.  The generation counter is
  then even whenever an operation starts (\<open>stableGeneration\<close> with an odd counter never returns: outcome \<^const>\<open>None\<close>).
  The moving average of checked scenarios and the Prometheus collector are not modelled.
  \<open>ctx p i k\<close> is what \<open>ctx.Err()\<close> answers: \<open>p = 0\<close> for the checks of \<open>Match\<close> itself, \<open>1\<close> in the shard, \<open>2\<close> in the
  fallback, \<open>3\<close> before each shard of the fallback, \<open>4\<close> for the global scenarios; \<open>i\<close> counts scenarios (or shards), \<open>k\<close> the
  checks for one of them.
\<close>

section \<open>State\<close>

definition DefaultShardCount :: int where "DefaultShardCount = 16"
definition DefaultCacheSize :: int where "DefaultCacheSize = 1000"
definition MaxCacheSize :: int where "MaxCacheSize = 10000"
definition MinShardCount :: int where "MinShardCount = 1"
definition MaxShardCount :: int where "MaxShardCount = 256"

record ShardingConfig =
  ShardCount :: int
  CacheSize :: int
  EnableCache :: bool

definition DefaultShardingConfig :: ShardingConfig where
  "DefaultShardingConfig = \<lparr>ShardCount = DefaultShardCount, CacheSize = DefaultCacheSize, EnableCache = True\<rparr>"

record ('re, 'net) ScenarioShard =
  sh_index :: "(string \<times> ('re, 'net) Scenario list) list"
  sh_scenarios :: "('re, 'net) Scenario list"

record shardingMetrics =
  totalMatches :: int
  cacheHits :: int
  cacheMisses :: int
  fallbackMatches :: int

record ('re, 'net) ShardedScenarioRegistry =
  sr_cache :: "('re, 'net) Scenario ScenarioMatchCache option"
  sr_metrics :: shardingMetrics
  sr_bodyPattern :: BodyPatternOptions
  sr_filePath :: string
  sr_globalScenarios :: "('re, 'net) Scenario list"
  sr_shards :: "('re, 'net) ScenarioShard list"
  sr_config :: ShardingConfig
  sr_cacheDisabled :: bool
  sr_generation :: "64 word"
  sr_shardCount :: int

definition normalize_config :: "ShardingConfig \<Rightarrow> ShardingConfig" where
  "normalize_config config =
     (let c1 = (if ShardCount config < MinShardCount then config\<lparr>ShardCount := DefaultShardCount\<rparr> else config);
          c2 = (if ShardCount c1 > MaxShardCount then c1\<lparr>ShardCount := MaxShardCount\<rparr> else c1);
          c3 = (if CacheSize c2 \<le> 0 then c2\<lparr>CacheSize := DefaultCacheSize\<rparr> else c2)
      in if CacheSize c3 > MaxCacheSize then c3\<lparr>CacheSize := MaxCacheSize\<rparr> else c3)"

definition newShardedScenarioRegistryWithConfig ::
  "ShardingConfig \<Rightarrow> BodyPatternOptions \<Rightarrow> (nat \<Rightarrow> nat) \<Rightarrow> ('re, 'net) ShardedScenarioRegistry" where
  "newShardedScenarioRegistryWithConfig config0 bodyPattern addr =
     (let config = normalize_config config0 in
      \<lparr>sr_cache = (if EnableCache config then Some (newScenarioMatchCache (CacheSize config)) else None),
       sr_metrics = \<lparr>totalMatches = 0, cacheHits = 0, cacheMisses = 0, fallbackMatches = 0\<rparr>,
       sr_bodyPattern = normalized bodyPattern, sr_filePath = [], sr_globalScenarios = [],
       sr_shards = map (\<lambda>i. \<lparr>sh_index = [], sh_scenarios = [DefaultScenario (addr i)]\<rparr>) [0..<nat (ShardCount config)],
       sr_config = config, sr_cacheDisabled = False, sr_generation = 0, sr_shardCount = ShardCount config\<rparr>)"

definition NewShardedScenarioRegistry :: "(nat \<Rightarrow> nat) \<Rightarrow> ('re, 'net) ShardedScenarioRegistry" where
  "NewShardedScenarioRegistry addr =
     newShardedScenarioRegistryWithConfig DefaultShardingConfig DefaultBodyPatternOptions addr"

definition Config :: "('re, 'net) ShardedScenarioRegistry \<Rightarrow> ShardingConfig" where
  "Config r = sr_config r"

section \<open>Where a scenario lives\<close>

text \<open>FNV-1a on 32 bits.\<close>

definition fnv1a :: "string \<Rightarrow> 32 word" where
  "fnv1a s = foldl (\<lambda>h c. (xor h (of_nat (of_char c))) * 16777619) 2166136261 s"

definition hashString :: "int \<Rightarrow> string \<Rightarrow> nat" where
  "hashString shardCount s = unat (fnv1a s mod word_of_int shardCount)"

definition shardSafePath :: "('re, 'net) Scenario \<Rightarrow> string option" where
  "shardSafePath s =
     (if length (Paths (c_Match s)) \<noteq> 1 then None
      else (let path = Paths (c_Match s) ! 0 in
            if path = [] \<or> go_HasPrefix path ''re:'' then None
            else if CHR ''{'' \<in> set path \<or> CHR ''}'' \<in> set path then None
            else Some path))"

definition scenarioRequiresGlobalPriorityCheck :: "('re, 'net) Scenario \<Rightarrow> bool" where
  "scenarioRequiresGlobalPriorityCheck s \<longleftrightarrow> shardSafePath s = None"

definition getShardForScenario :: "int \<Rightarrow> ('re, 'net) Scenario \<Rightarrow> nat" where
  "getShardForScenario shardCount s =
     (case shardSafePath s of
        Some path \<Rightarrow> hashString shardCount path
      | None \<Rightarrow>
          if Paths (c_Match s) \<noteq> [] then hashString shardCount (Paths (c_Match s) ! 0)
          else if Path (c_Match s) \<noteq> [] then hashString shardCount (Path (c_Match s))
          else hashString shardCount (s_Name s))"

definition shardLookupPath :: "string \<Rightarrow> string" where
  "shardLookupPath uri = takeWhile (\<lambda>c. c \<noteq> CHR ''?'' \<and> c \<noteq> CHR ''#'') (storage_extractPath uri)"

definition getShardForRequest :: "int \<Rightarrow> ('q, 'r, 'b) request \<Rightarrow> nat" where
  "getShardForRequest shardCount req = hashString shardCount (shardLookupPath (r_URI req))"

definition extractPathPrefix :: "string \<Rightarrow> string" where
  "extractPathPrefix pattern =
     (if pattern = [] then []
      else (let prefix = (if hd pattern = CHR ''^'' then tl pattern else pattern)
            in takeWhile (\<lambda>ch. ch \<notin> set ''*?[(+$.'') prefix))"

definition index_prefix :: "string \<Rightarrow> string" where
  "index_prefix p = (let pre = extractPathPrefix p in if pre = [] then ''*'' else pre)"

text \<open>The keys in the order of their first occurrence.\<close>

fun first_occurrences :: "'a list \<Rightarrow> 'a list \<Rightarrow> 'a list" where
  "first_occurrences seen [] = []"
| "first_occurrences seen (k # ks) =
     (if k \<in> set seen then first_occurrences seen ks else k # first_occurrences (k # seen) ks)"

definition buildIndexKeys :: "('re, 'net) Scenario \<Rightarrow> string list" where
  "buildIndexKeys s =
     (let m = c_Match s;
          prefixes = (if Paths m \<noteq> [] then map index_prefix (Paths m)
                      else if Path m \<noteq> [] then [index_prefix (Path m)] else [''*'']);
          methods = (if Methods m = [] then [''*''] else Methods m)
      in first_occurrences [] (concat (map (\<lambda>pre. map (\<lambda>meth. meth @ '':'' @ pre) methods) prefixes)))"

definition assoc_list :: "'k \<Rightarrow> ('k \<times> 'v list) list \<Rightarrow> 'v list" where
  "assoc_list k al = (case map_of al k of None \<Rightarrow> [] | Some l \<Rightarrow> l)"

definition assoc_append :: "'k \<Rightarrow> 'v \<Rightarrow> ('k \<times> 'v list) list \<Rightarrow> ('k \<times> 'v list) list" where
  "assoc_append k v al = AList.update k (assoc_list k al @ [v]) al"

fun route_entries ::
  "int \<Rightarrow> (string \<times> string) list \<Rightarrow> string list \<Rightarrow> (nat \<times> string list) list \<Rightarrow> (nat \<times> string list) list option" where
  "route_entries shardCount [] seen entries = Some entries"
| "route_entries shardCount ((meth, path) # rest) seen entries =
     (if path = [] \<or> go_HasPrefix path ''re:'' \<or> CHR ''{'' \<in> set path then None
      else (let key = meth @ '':'' @ path in
            if key \<in> set seen then route_entries shardCount rest seen entries
            else route_entries shardCount rest (key # seen) (assoc_append (hashString shardCount path) key entries)))"

definition route_pairs :: "(string \<times> string list) list \<Rightarrow> (string \<times> string) list" where
  "route_pairs routes =
     concat (map (\<lambda>meth. map (\<lambda>path. (meth, path)) (the (map_of routes meth))) (orderedRouteMethods routes))"

definition exactRouteShardEntries :: "int \<Rightarrow> ('re, 'net) Scenario \<Rightarrow> (nat \<times> string list) list option" where
  "exactRouteShardEntries shardCount s =
     (if Routes (c_Match s) = [] then None else route_entries shardCount (route_pairs (Routes (c_Match s))) [] [])"

definition shard_add :: "('re, 'net) Scenario \<Rightarrow> string list \<Rightarrow> ('re, 'net) ScenarioShard \<Rightarrow> ('re, 'net) ScenarioShard" where
  "shard_add s keys sh =
     sh\<lparr>sh_scenarios := sh_scenarios sh @ [s], sh_index := fold (\<lambda>key idx. assoc_append key s idx) keys (sh_index sh)\<rparr>"

definition add_to_shard ::
  "('re, 'net) Scenario \<Rightarrow> nat \<times> string list \<Rightarrow> ('re, 'net) ScenarioShard list \<Rightarrow> ('re, 'net) ScenarioShard list" where
  "add_to_shard s entry shards = (let (i, keys) = entry in shards[i := shard_add s keys (shards ! i)])"

definition addGlobalScenario :: "('re, 'net) Scenario \<Rightarrow> ('re, 'net) ShardedScenarioRegistry \<Rightarrow> ('re, 'net) ShardedScenarioRegistry" where
  "addGlobalScenario s r = r\<lparr>sr_globalScenarios := sr_globalScenarios r @ [s]\<rparr>"

definition indexScenario :: "('re, 'net) Scenario \<Rightarrow> ('re, 'net) ShardedScenarioRegistry \<Rightarrow> ('re, 'net) ShardedScenarioRegistry" where
  "indexScenario s r =
     (case exactRouteShardEntries (sr_shardCount r) s of
        Some entries \<Rightarrow> r\<lparr>sr_shards := fold (add_to_shard s) entries (sr_shards r)\<rparr>
      | None \<Rightarrow>
          if scenarioRequiresGlobalPriorityCheck s then addGlobalScenario s r
          else r\<lparr>sr_shards := add_to_shard s (getShardForScenario (sr_shardCount r) s, buildIndexKeys s) (sr_shards r)\<rparr>)"

section \<open>Listing\<close>

fun unique_from :: "nat list \<Rightarrow> bool \<Rightarrow> ('re, 'net) Scenario list \<Rightarrow> ('re, 'net) Scenario list \<times> nat list \<times> bool" where
  "unique_from seen defaultSeen [] = ([], seen, defaultSeen)"
| "unique_from seen defaultSeen (s # ss) =
     (if s_Name s = defaultScenarioName \<and> defaultSeen then unique_from seen defaultSeen ss
      else (let defaultSeen' = (defaultSeen \<or> s_Name s = defaultScenarioName) in
            if s_addr s \<in> set seen then unique_from seen defaultSeen' ss
            else (let (us, seen', d) = unique_from (s_addr s # seen) defaultSeen' ss in (s # us, seen', d))))"

definition uniqueScenarioPointers :: "('re, 'net) Scenario list \<Rightarrow> ('re, 'net) Scenario list" where
  "uniqueScenarioPointers ss = fst (unique_from [] False ss)"

definition all_stored :: "('re, 'net) ShardedScenarioRegistry \<Rightarrow> ('re, 'net) Scenario list" where
  "all_stored r = concat (map sh_scenarios (sr_shards r)) @ sr_globalScenarios r"

definition sharded_List :: "('re, 'net) ShardedScenarioRegistry \<Rightarrow> ('re, 'net) Scenario list" where
  "sharded_List r = sortScenariosByPriority (uniqueScenarioPointers (all_stored r))"

section \<open>Which requests may be answered from the cache\<close>

definition hasDynamicMatchRule :: "('re, 'net) Scenario \<Rightarrow> bool" where
  "hasDynamicMatchRule s \<longleftrightarrow>
     mr_Headers (c_Match s) \<noteq> [] \<or> HeaderContains (c_Match s) \<noteq> [] \<or> HTTPHeaders (c_Match s) \<noteq> [] \<or>
     HTTPHeaderContains (c_Match s) \<noteq> [] \<or> mr_ClientIP (c_Match s) \<noteq> [] \<or> CIDRRanges (c_Match s) \<noteq> [] \<or>
     BodyPattern (c_Match s) \<noteq> []"

definition hasEndpointCaptures :: "'re compiledEndpoint list \<Rightarrow> bool" where
  "hasEndpointCaptures paths \<longleftrightarrow> list_ex (\<lambda>p. ce_captures p \<noteq> []) paths"

definition scenarioDisablesMatchCache :: "('re, 'net) Scenario \<Rightarrow> bool" where
  "scenarioDisablesMatchCache s \<longleftrightarrow> hasDynamicMatchRule s \<or> hasEndpointCaptures (s_compiledPaths s) \<or> s_Branches s \<noteq> []"

definition scenariosDisableMatchCache :: "('re, 'net) Scenario list \<Rightarrow> bool" where
  "scenariosDisableMatchCache ss \<longleftrightarrow> list_ex scenarioDisablesMatchCache ss"

definition registryDisablesMatchCache :: "('re, 'net) ShardedScenarioRegistry \<Rightarrow> bool" where
  "registryDisablesMatchCache r \<longleftrightarrow>
     list_ex (\<lambda>sh. scenariosDisableMatchCache (sh_scenarios sh)) (sr_shards r) \<or> scenariosDisableMatchCache (sr_globalScenarios r)"

section \<open>Changes\<close>

definition clear_cache :: "('re, 'net) ShardedScenarioRegistry \<Rightarrow> ('re, 'net) ShardedScenarioRegistry" where
  "clear_cache r = r\<lparr>sr_cache := map_option cache_Clear (sr_cache r)\<rparr>"

text \<open>The counter is raised at the start and, deferred, at the end of every mutation.\<close>

definition bump :: "('re, 'net) ShardedScenarioRegistry \<Rightarrow> ('re, 'net) ShardedScenarioRegistry" where
  "bump r = r\<lparr>sr_generation := sr_generation r + 1\<rparr>"

definition shard_remove :: "string \<Rightarrow> ('re, 'net) ScenarioShard \<Rightarrow> ('re, 'net) ScenarioShard" where
  "shard_remove name sh =
     \<lparr>sh_index = filter (\<lambda>(k, l). l \<noteq> []) (map (\<lambda>(k, l). (k, filter (\<lambda>s. s_Name s \<noteq> name) l)) (sh_index sh)),
      sh_scenarios = filter (\<lambda>s. s_Name s \<noteq> name) (sh_scenarios sh)\<rparr>"

definition shard_has :: "string \<Rightarrow> ('re, 'net) ScenarioShard \<Rightarrow> bool" where
  "shard_has name sh \<longleftrightarrow>
     list_ex (\<lambda>s. s_Name s = name) (sh_scenarios sh) \<or> list_ex (\<lambda>(k, l). list_ex (\<lambda>s. s_Name s = name) l) (sh_index sh)"

definition removeGlobalScenario :: "string \<Rightarrow> ('re, 'net) ShardedScenarioRegistry \<Rightarrow> bool \<times> ('re, 'net) ShardedScenarioRegistry" where
  "removeGlobalScenario name r =
     (list_ex (\<lambda>s. s_Name s = name) (sr_globalScenarios r),
      r\<lparr>sr_globalScenarios := remove_first (\<lambda>s. s_Name s = name) (sr_globalScenarios r)\<rparr>)"

definition afterScenarioRemoved :: "('re, 'net) ShardedScenarioRegistry \<Rightarrow> ('re, 'net) ShardedScenarioRegistry" where
  "afterScenarioRemoved r = clear_cache (r\<lparr>sr_cacheDisabled := registryDisablesMatchCache r\<rparr>)"

definition remove :: "string \<Rightarrow> ('re, 'net) ShardedScenarioRegistry \<Rightarrow> go_error option \<times> ('re, 'net) ShardedScenarioRegistry" where
  "remove name r =
     (let r1 = r\<lparr>sr_shards := map (shard_remove name) (sr_shards r)\<rparr>;
          (globalRemoved, r2) = removeGlobalScenario name r1;
          removed = (list_ex (shard_has name) (sr_shards r) \<or> globalRemoved)
      in if removed then (None, afterScenarioRemoved r2) else (Some ErrNoMatch, r2))"

definition sharded_Remove :: "string \<Rightarrow> ('re, 'net) ShardedScenarioRegistry \<Rightarrow> go_error option \<times> ('re, 'net) ShardedScenarioRegistry" where
  "sharded_Remove name r = (let (err, r') = remove name (bump r) in (err, bump r'))"

definition sharded_Add ::
  "('re, 'net, 'ip) golib \<Rightarrow> (string \<Rightarrow> go_error option) \<Rightarrow> (go_error \<Rightarrow> string) \<Rightarrow> ('re, 'net) Scenario option \<Rightarrow>
   ('re, 'net) ShardedScenarioRegistry \<Rightarrow> go_error option \<times> ('re, 'net) ShardedScenarioRegistry" where
  "sharded_Add lib stat errText scenario r =
     (case scenario of
        None \<Rightarrow> (Some (ScenarioError operationAdd [] ''cannot add nil scenario''), r)
      | Some s \<Rightarrow>
          (let r0 = bump r in
           case validateAndCompile lib stat s of
             Inl e \<Rightarrow> (Some (add_error errText (s_Name s) e), bump r0)
           | Inr c \<Rightarrow>
               (let s' = c\<lparr>s_order := scenarioOrderForAdd (sharded_List r0) (s_Name c)\<rparr>;
                    r1 = snd (remove (s_Name s') r0);
                    r2 = indexScenario s' r1;
                    r3 = (if scenarioDisablesMatchCache s' then r2\<lparr>sr_cacheDisabled := True\<rparr> else r2)
                in (None, bump (clear_cache r3)))))"

definition install ::
  "string \<Rightarrow> ('re, 'net) Scenario list \<Rightarrow> ('re, 'net) ShardedScenarioRegistry \<Rightarrow> ('re, 'net) ShardedScenarioRegistry" where
  "install path scenarios r =
     (let r1 = (bump r)\<lparr>sr_cacheDisabled := scenariosDisableMatchCache scenarios,
                        sr_shards := map (\<lambda>_. \<lparr>sh_index = [], sh_scenarios = []\<rparr>) (sr_shards r), sr_globalScenarios := []\<rparr>;
          r2 = fold indexScenario scenarios r1
      in bump (clear_cache (r2\<lparr>sr_filePath := path\<rparr>)))"

definition sharded_Load ::
  "('re, 'net, 'ip) golib \<Rightarrow> (string \<Rightarrow> go_error option) \<Rightarrow> (go_error \<Rightarrow> string) \<Rightarrow> nat \<Rightarrow> string \<Rightarrow>
   go_error + ('re, 'net) Scenario list \<Rightarrow> ('re, 'net) ShardedScenarioRegistry \<Rightarrow> go_error option \<times> ('re, 'net) ShardedScenarioRegistry" where
  "sharded_Load lib stat errText addr path decoded r =
     (let (err, base) = Load lib stat errText addr path decoded
                          \<lparr>rg_bodyPattern = sr_bodyPattern r, rg_filePath = [], rg_scenarios = []\<rparr>
      in case err of Some e \<Rightarrow> (Some e, r) | None \<Rightarrow> (None, install path (List base) r))"

definition replaceValidated ::
  "('re, 'net) ShardedScenarioRegistry \<Rightarrow> string \<Rightarrow> ('re, 'net) ShardedScenarioRegistry \<Rightarrow> ('re, 'net) ShardedScenarioRegistry" where
  "replaceValidated nxt path r =
     bump (clear_cache ((bump r)\<lparr>sr_shards := sr_shards nxt, sr_globalScenarios := sr_globalScenarios nxt, sr_filePath := path,
                                  sr_cacheDisabled := sr_cacheDisabled nxt\<rparr>))"

definition sharded_Reload ::
  "('re, 'net, 'ip) golib \<Rightarrow> (string \<Rightarrow> go_error option) \<Rightarrow> (go_error \<Rightarrow> string) \<Rightarrow> (nat \<Rightarrow> nat) \<Rightarrow> nat \<Rightarrow>
   (string \<Rightarrow> go_error + ('re, 'net) Scenario list) \<Rightarrow> ('re, 'net) ShardedScenarioRegistry \<Rightarrow>
   go_error option \<times> ('re, 'net) ShardedScenarioRegistry" where
  "sharded_Reload lib stat errText addrs addr decode r =
     (let path = sr_filePath r in
      if path = [] then (None, r)
      else (let next0 = newShardedScenarioRegistryWithConfig (sr_config r) (sr_bodyPattern r) addrs;
                (err, nxt) = sharded_Load lib stat errText addr path (decode path) next0 in
            case err of
              Some e \<Rightarrow> (Some e, r)
            | None \<Rightarrow>
                (case ValidateExactRouteTopology (sharded_List r) (sharded_List nxt) of
                   Some e \<Rightarrow> (Some e, r)
                 | None \<Rightarrow> (None, replaceValidated nxt path r))))"

section \<open>Matching\<close>

definition buildSearchKeys :: "('q, 'r, 'b) request \<Rightarrow> string list" where
  "buildSearchKeys req =
     (let meth = (if r_Method req = [] then ''*'' else r_Method req);
          path = shardLookupPath (r_URI req)
      in [meth @ '':'' @ path, meth @ '':*'', ''*:'' @ path, ''*:*''] @
         map (\<lambda>i. meth @ '':'' @ take i path) (filter (\<lambda>i. path ! i = CHR ''/'') (rev [1..<length path])))"

text \<open>
  The loop that \<open>matchInShard\<close>, \<open>fallbackMatch\<close> and \<open>matchGlobalPriorityCandidates\<close> have in common: try every
  candidate, keep the best one that matched, and stop at the first error.
\<close>

type_synonym ('re, 'net, 'q, 'r, 'b) search_result =
  "((go_error + ('re, 'net) Scenario option) \<times> ('q, 'r, 'b) request) option"

fun best_match ::
  "('re, 'net, 'ip) golib \<Rightarrow> 'r body_io \<Rightarrow> (nat \<Rightarrow> nat \<Rightarrow> go_error option) \<Rightarrow> BodyPatternOptions \<Rightarrow> nat \<Rightarrow> ('re, 'net) Scenario option \<Rightarrow>
   ('re, 'net) Scenario list \<Rightarrow> ('q, 'r, 'b) request \<Rightarrow> ('re, 'net, 'q, 'r, 'b) search_result" where
  "best_match lib io ctx opt i best [] req = Some (Inr best, req)"
| "best_match lib io ctx opt i best (s # ss) req =
     (case ctx i 0 of
        Some e \<Rightarrow> Some (Inl e, req)
      | None \<Rightarrow>
          (case matchesScenario lib io (\<lambda>k. ctx i (Suc k)) opt s req of
             None \<Rightarrow> None
           | Some ((matched, err), req') \<Rightarrow>
               (case err of
                  Some e \<Rightarrow> Some (Inl e, req')
                | None \<Rightarrow>
                    best_match lib io ctx opt (Suc i)
                      (if matched \<and> (best = None \<or> scenarioOutranks (Some s) best) then Some s else best) ss req')))"

definition matchInShard ::
  "('re, 'net, 'ip) golib \<Rightarrow> 'r body_io \<Rightarrow> (nat \<Rightarrow> nat \<Rightarrow> go_error option) \<Rightarrow> BodyPatternOptions \<Rightarrow> ('re, 'net) ScenarioShard \<Rightarrow>
   ('q, 'r, 'b) request \<Rightarrow> ('re, 'net, 'q, 'r, 'b) search_result" where
  "matchInShard lib io ctx opt shard req =
     best_match lib io ctx opt 0 None
       (uniqueScenarioPointers (concat (map (\<lambda>key. assoc_list key (sh_index shard)) (buildSearchKeys req)))) req"

fun fallback_from ::
  "('re, 'net, 'ip) golib \<Rightarrow> 'r body_io \<Rightarrow> (nat \<Rightarrow> nat \<Rightarrow> nat \<Rightarrow> go_error option) \<Rightarrow> BodyPatternOptions \<Rightarrow> nat \<Rightarrow> nat \<Rightarrow> nat list \<Rightarrow> bool \<Rightarrow>
   ('re, 'net) Scenario option \<Rightarrow> ('re, 'net) ScenarioShard list \<Rightarrow> ('q, 'r, 'b) request \<Rightarrow> ('re, 'net, 'q, 'r, 'b) search_result" where
  "fallback_from lib io ctx opt j i seen defaultSeen best [] req = Some (Inr best, req)"
| "fallback_from lib io ctx opt j i seen defaultSeen best (shard # shards) req =
     (case ctx 3 j 0 of
        Some e \<Rightarrow> Some (Inl e, req)
      | None \<Rightarrow>
          (let (candidates, seen', defaultSeen') = unique_from seen defaultSeen (sh_scenarios shard) in
           case best_match lib io (ctx 2) opt i best candidates req of
             None \<Rightarrow> None
           | Some (Inl e, req') \<Rightarrow> Some (Inl e, req')
           | Some (Inr best', req') \<Rightarrow>
               fallback_from lib io ctx opt (Suc j) (i + length candidates) seen' defaultSeen' best' shards req'))"

definition fallbackMatch ::
  "('re, 'net, 'ip) golib \<Rightarrow> 'r body_io \<Rightarrow> (nat \<Rightarrow> nat \<Rightarrow> nat \<Rightarrow> go_error option) \<Rightarrow> ('re, 'net) ShardedScenarioRegistry \<Rightarrow>
   ('q, 'r, 'b) request \<Rightarrow> ('re, 'net, 'q, 'r, 'b) search_result" where
  "fallbackMatch lib io ctx r req = fallback_from lib io ctx (sr_bodyPattern r) 0 0 [] False None (sr_shards r) req"

text \<open>The boolean tells whether the fallback was used, which the caller counts.\<close>

definition matchShardedAndFallback ::
  "('re, 'net, 'ip) golib \<Rightarrow> 'r body_io \<Rightarrow> (nat \<Rightarrow> nat \<Rightarrow> nat \<Rightarrow> go_error option) \<Rightarrow> ('re, 'net) ShardedScenarioRegistry \<Rightarrow>
   ('q, 'r, 'b) request \<Rightarrow> bool \<times> ('re, 'net, 'q, 'r, 'b) search_result" where
  "matchShardedAndFallback lib io ctx r req =
     (case matchInShard lib io (ctx 1) (sr_bodyPattern r) (sr_shards r ! getShardForRequest (sr_shardCount r) req) req of
        None \<Rightarrow> (False, None)
      | Some (Inl e, req') \<Rightarrow> (False, Some (Inl e, req'))
      | Some (Inr (Some s), req') \<Rightarrow> (False, Some (Inr (Some s), req'))
      | Some (Inr None, req') \<Rightarrow> (True, fallbackMatch lib io ctx r req'))"

definition matchGlobalPriorityCandidates ::
  "('re, 'net, 'ip) golib \<Rightarrow> 'r body_io \<Rightarrow> (nat \<Rightarrow> nat \<Rightarrow> nat \<Rightarrow> go_error option) \<Rightarrow> ('re, 'net) ShardedScenarioRegistry \<Rightarrow>
   ('q, 'r, 'b) request \<Rightarrow> ('re, 'net, 'q, 'r, 'b) search_result" where
  "matchGlobalPriorityCandidates lib io ctx r req =
     best_match lib io (ctx 4) (sr_bodyPattern r) 0 None (sr_globalScenarios r) req"

definition applyGlobalPriorityCandidate ::
  "('re, 'net, 'ip) golib \<Rightarrow> 'r body_io \<Rightarrow> (nat \<Rightarrow> nat \<Rightarrow> nat \<Rightarrow> go_error option) \<Rightarrow> ('re, 'net) ShardedScenarioRegistry \<Rightarrow>
   ('q, 'r, 'b) request \<Rightarrow> ('re, 'net) Scenario option \<Rightarrow> ('re, 'net, 'q, 'r, 'b) search_result" where
  "applyGlobalPriorityCandidate lib io ctx r req current =
     (case matchGlobalPriorityCandidates lib io ctx r req of
        None \<Rightarrow> None
      | Some (Inl e, req') \<Rightarrow> Some (Inl e, req')
      | Some (Inr None, req') \<Rightarrow> Some (Inr current, req')
      | Some (Inr (Some global), req') \<Rightarrow>
          if current = None \<or> scenarioOutranks (Some global) current then Some (Inr (Some global), req')
          else Some (Inr current, req'))"

definition search ::
  "('re, 'net, 'ip) golib \<Rightarrow> 'r body_io \<Rightarrow> (nat \<Rightarrow> nat \<Rightarrow> nat \<Rightarrow> go_error option) \<Rightarrow> ('re, 'net) ShardedScenarioRegistry \<Rightarrow>
   ('q, 'r, 'b) request \<Rightarrow> bool \<times> ('re, 'net, 'q, 'r, 'b) search_result" where
  "search lib io ctx r req =
     (case matchShardedAndFallback lib io ctx r req of
        (fb, None) \<Rightarrow> (fb, None)
      | (fb, Some (Inl e, req')) \<Rightarrow> (fb, Some (Inl e, req'))
      | (fb, Some (Inr current, req')) \<Rightarrow> (fb, applyGlobalPriorityCandidate lib io ctx r req' current))"

definition content_type :: "('r, 'b) http_message option \<Rightarrow> string" where
  "content_type m = (case m of None \<Rightarrow> [] | Some msg \<Rightarrow> (case message_header msg ''Content-Type'' of None \<Rightarrow> [] | Some ct \<Rightarrow> ct))"

definition buildCacheKey :: "('q, 'r, 'b) request \<Rightarrow> string" where
  "buildCacheKey req =
     (let httpMethod = (case HTTPRequest req of None \<Rightarrow> [] | Some m \<Rightarrow> m_Method m);
          httpURI = (case HTTPRequest req of None \<Rightarrow> [] | Some m \<Rightarrow> m_URI m);
          ct0 = content_type (HTTPResponse req);
          ct = (if ct0 = [] then content_type (HTTPRequest req) else ct0)
      in r_Method req @ ''|'' @ r_URI req @ ''|'' @ httpMethod @ ''|'' @ httpURI @ ''|'' @ ct)"

definition matchCacheEnabled :: "('re, 'net) ShardedScenarioRegistry \<Rightarrow> bool" where
  "matchCacheEnabled r \<longleftrightarrow> sr_cache r \<noteq> None \<and> \<not> sr_cacheDisabled r"

definition count :: "((int \<Rightarrow> int) \<Rightarrow> shardingMetrics \<Rightarrow> shardingMetrics) \<Rightarrow> ('re, 'net) ShardedScenarioRegistry \<Rightarrow> ('re, 'net) ShardedScenarioRegistry" where
  "count field r = r\<lparr>sr_metrics := field (\<lambda>n. wrap64 (n + 1)) (sr_metrics r)\<rparr>"

definition cachedMatch ::
  "('q, 'r, 'b) request \<Rightarrow> bool \<Rightarrow> ('re, 'net) ShardedScenarioRegistry \<Rightarrow> ('re, 'net) Scenario option \<times> ('re, 'net) ShardedScenarioRegistry" where
  "cachedMatch req enabled r =
     (if \<not> enabled then (None, r)
      else (let (cached, c) = GetGeneration (buildCacheKey req) (sr_generation r) (the (sr_cache r));
                r1 = r\<lparr>sr_cache := Some c\<rparr>
            in case cached of
                 Some s \<Rightarrow> (Some s, count cacheHits_update r1)
               | None \<Rightarrow> (None, count cacheMisses_update r1)))"

definition storeMatchCache ::
  "int \<Rightarrow> ('q, 'r, 'b) request \<Rightarrow> ('re, 'net) Scenario \<Rightarrow> bool \<Rightarrow> 64 word \<Rightarrow> ('re, 'net) ShardedScenarioRegistry \<Rightarrow>
   ('re, 'net) ShardedScenarioRegistry" where
  "storeMatchCache now req s enabled generation r =
     (if enabled \<and> sr_generation r = generation
      then r\<lparr>sr_cache := Some (PutGeneration now (buildCacheKey req) s generation (the (sr_cache r)))\<rparr>
      else r)"

definition stableGeneration :: "('re, 'net) ShardedScenarioRegistry \<Rightarrow> 64 word option" where
  "stableGeneration r = (if and (sr_generation r) 1 = 0 then Some (sr_generation r) else None)"

text \<open>\<open>addr\<close> is the address of the default scenario that is made when nothing matches.\<close>

definition sharded_Match ::
  "('re, 'net, 'ip) golib \<Rightarrow> 'r body_io \<Rightarrow> (nat \<Rightarrow> nat \<Rightarrow> nat \<Rightarrow> go_error option) \<Rightarrow> int \<Rightarrow> nat \<Rightarrow> ('re, 'net) ShardedScenarioRegistry \<Rightarrow>
   ('q, 'r, 'b) request option \<Rightarrow>
   ((go_error + ('re, 'net) Scenario) \<times> ('q, 'r, 'b) request option \<times> ('re, 'net) ShardedScenarioRegistry) option" where
  "sharded_Match lib io ctx now addr r reqp =
     (case reqp of
        None \<Rightarrow> Some (Inl nil_request_error, None, r)
      | Some req \<Rightarrow>
          (case ctx 0 0 0 of
             Some e \<Rightarrow> Some (Inl e, Some req, r)
           | None \<Rightarrow>
               (let r1 = count totalMatches_update r in
                case stableGeneration r1 of
                  None \<Rightarrow> None
                | Some generation \<Rightarrow>
                    (let enabled = matchCacheEnabled r1; (cached, r2) = cachedMatch req enabled r1 in
                     case cached of
                       Some s \<Rightarrow> (case ctx 0 1 0 of Some e \<Rightarrow> Some (Inl e, Some req, r2) | None \<Rightarrow> Some (Inr s, Some req, r2))
                     | None \<Rightarrow>
                         (let (fb, outcome) = search lib io ctx r2 req;
                              r3 = (if fb then count fallbackMatches_update r2 else r2) in
                          case outcome of
                            None \<Rightarrow> None
                          | Some (Inl e, req') \<Rightarrow> Some (Inl e, Some req', r3)
                          | Some (Inr (Some s), req') \<Rightarrow>
                              (case ctx 0 2 0 of
                                 Some e \<Rightarrow> Some (Inl e, Some req', r3)
                               | None \<Rightarrow> Some (Inr s, Some req', storeMatchCache now req' s enabled generation r3))
                          | Some (Inr None, req') \<Rightarrow> Some (Inr (DefaultScenario addr), Some req', r3))))))"

end
