(* ===== verification/Sharded_Refinement.thy ===== *)
theory Sharded_Refinement
  imports Sharded_Registry
begin

text \<open>
  The sharded registry against the plain one: both keep the same scenarios through every sequence of operations and
  report the same errors.  \<open>rep\<close> says which scenarios the shards, their indexes and the global list hold, \<open>sim\<close> relates the two
  registries; matching and the match cache are the subject of theory \<open>Sharded_Search\<close>.
\<close>

section \<open>Hashing, keys and pointers\<close>

lemma hashString_less: "1 \<le> n \<Longrightarrow> n \<le> 256 \<Longrightarrow> hashString n s < nat n"
proof -
  assume n: "1 \<le> n" "n \<le> 256"
  then have u: "unat (word_of_int n :: 32 word) = nat n"
    by (simp add: unat_eq_nat_uint uint_word_of_int_eq take_bit_int_eq_self)
  have "unat (fnv1a s mod word_of_int n) = unat (fnv1a s) mod nat n" by (simp add: unat_mod_distrib u)
  then show ?thesis using n by (simp add: hashString_def)
qed

lemma takeWhile_cut: "takeWhile (\<lambda>c. c \<noteq> a) s = cut_at s a"
proof (induction s)
  case (Cons x s)
  then show ?case by (auto simp: cut_at_def split: option.splits)
qed (simp add: cut_at_def)

lemma shardLookupPath_eq: "shardLookupPath uri = lookup_path uri"
proof -
  have "takeWhile (\<lambda>c. c \<noteq> a \<and> c \<noteq> b) s = takeWhile (\<lambda>c. c \<noteq> b) (takeWhile (\<lambda>c. c \<noteq> a) s)" for a b :: char and s
    by (induction s) auto
  then show ?thesis by (simp add: shardLookupPath_def lookup_path_def flip: takeWhile_cut)
qed

lemma assoc_list_append: "assoc_list k' (assoc_append k v al) = assoc_list k' al @ (if k' = k then [v] else [])"
  by (auto simp: assoc_list_def assoc_append_def update_conv')

lemma assoc_list_fold:
  "assoc_list k' (fold (\<lambda>key idx. assoc_append key s idx) keys al) = assoc_list k' al @ replicate (count_list keys k') s"
  by (induction keys arbitrary: al) (auto simp: assoc_list_append replicate_app_Cons_same)

lemma set_first_occurrences: "set (first_occurrences seen ks) = set ks - set seen"
  by (induction seen ks rule: first_occurrences.induct) auto

lemma find_in: "find P xs = Some x \<Longrightarrow> x \<in> set xs \<and> P x"
  by (induction xs) (auto split: if_splits)

text \<open>What survives the removal of duplicates: every scenario that is not a default one, and the first default one.\<close>

definition first_default :: "('re, 'net) Scenario list \<Rightarrow> ('re, 'net) Scenario set" where
  "first_default ss = set_option (find (\<lambda>s. s_Name s = defaultScenarioName) ss)"

lemma unique_from_set:
  assumes "inj_on s_addr (set ss)" "unique_from seen d ss = (us, seen', d')"
  shows "set us = {s \<in> set ss. s_Name s \<noteq> defaultScenarioName \<and> s_addr s \<notin> set seen} \<union>
      (if d then {} else {s \<in> first_default ss. s_addr s \<notin> set seen}) \<and>
    distinct us \<and> set seen' = set seen \<union> s_addr ` set us \<and> d' = (d \<or> (\<exists>s \<in> set ss. s_Name s = defaultScenarioName))"
  using assms
proof (induction ss arbitrary: seen d us seen' d')
  case Nil
  then show ?case by (auto simp: first_default_def)
next
  case (Cons s ss)
  have inj: "inj_on s_addr (set ss)" and s_inj: "\<And>t. t \<in> set ss \<Longrightarrow> s_addr t = s_addr s \<Longrightarrow> t = s"
    using Cons.prems(1) by (auto simp: inj_on_def)
  have fd: "first_default ss \<subseteq> set ss" by (auto simp: first_default_def find_Some_iff)
  show ?case
  proof (cases "s_Name s = defaultScenarioName \<and> d")
    case True
    then show ?thesis using Cons.IH [OF inj, of seen d] Cons.prems(2) by auto
  next
    case False
    let ?d = "d \<or> s_Name s = defaultScenarioName"
    show ?thesis
    proof (cases "s_addr s \<in> set seen")
      case seen: True
      then show ?thesis using Cons.IH [OF inj, of seen ?d] Cons.prems(2) False
        by (auto simp: first_default_def)
    next
      case new: False
      obtain us0 where u: "unique_from (s_addr s # seen) ?d ss = (us0, seen', d')" "us = s # us0"
        using Cons.prems(2) False new by (auto simp: Let_def split: prod.splits)
      have "s \<notin> set us0" using Cons.IH [OF inj u(1)] by (auto split: if_splits)
      then show ?thesis using Cons.IH [OF inj u(1)] False new s_inj fd
        by (auto simp: u(2) first_default_def split: if_splits)
    qed
  qed
qed

lemma uniqueScenarioPointers_set:
  assumes "inj_on s_addr (set ss)"
  shows "set (uniqueScenarioPointers ss) = {s \<in> set ss. s_Name s \<noteq> defaultScenarioName} \<union> first_default ss" "distinct (uniqueScenarioPointers ss)"
proof -
  obtain us seen d where u: "unique_from [] False ss = (us, seen, d)" by (rule prod_cases3)
  then show "set (uniqueScenarioPointers ss) = {s \<in> set ss. s_Name s \<noteq> defaultScenarioName} \<union> first_default ss" "distinct (uniqueScenarioPointers ss)"
    using unique_from_set [OF assms u] by (simp_all add: uniqueScenarioPointers_def)
qed

lemma uniqueScenarioPointers_named:
  assumes "inj_on s_addr (set ss)" "inj_on s_Name (set ss)"
  shows "set (uniqueScenarioPointers ss) = set ss"
proof -
  let ?f = "find (\<lambda>s. s_Name s = defaultScenarioName) ss"
  have "s \<in> first_default ss" if s: "s \<in> set ss" "s_Name s = defaultScenarioName" for s
  proof -
    have "?f \<noteq> None" using s by (auto simp: find_None_iff)
    then obtain t where t: "?f = Some t" by blast
    then have "t = s" using find_in [OF t] s inj_onD [OF assms(2), of t s] by simp
    then show ?thesis using t by (simp add: first_default_def)
  qed
  moreover have "first_default ss \<subseteq> set ss" using find_in [of _ ss] by (auto simp: first_default_def)
  ultimately show ?thesis using uniqueScenarioPointers_set(1) [OF assms(1)] by blast
qed

section \<open>The best of a set\<close>

definition is_best :: "(('re, 'net) Scenario \<Rightarrow> bool) \<Rightarrow> ('re, 'net) Scenario set \<Rightarrow> ('re, 'net) Scenario option \<Rightarrow> bool" where
  "is_best P X b \<longleftrightarrow>
     (case b of
        None \<Rightarrow> \<forall>t \<in> X. \<not> P t
      | Some s \<Rightarrow> s \<in> X \<and> P s \<and> (\<forall>t \<in> X. P t \<longrightarrow> rank s \<le> rank t))"

definition better :: "(('re, 'net) Scenario \<Rightarrow> bool) \<Rightarrow> ('re, 'net) Scenario \<Rightarrow> ('re, 'net) Scenario option \<Rightarrow> ('re, 'net) Scenario option" where
  "better P s best = (if P s \<and> (best = None \<or> scenarioOutranks (Some s) best) then Some s else best)"

lemma is_best_better: "is_best P X b \<Longrightarrow> is_best P (insert s X) (better P s b)"
  by (cases b) (fastforce simp: is_best_def better_def outranks_rank)+

lemma is_best_fold: "is_best P X b \<Longrightarrow> is_best P (X \<union> set ss) (fold (better P) ss b)"
proof (induction ss arbitrary: X b)
  case (Cons s ss)
  then show ?case using Cons.IH [OF is_best_better [OF Cons.prems, of s]] by simp
qed simp

lemma is_best_unique: "is_best P X b \<Longrightarrow> is_best P X b' \<Longrightarrow> inj_on rank X \<Longrightarrow> b = b'"
  by (cases b; cases b') (auto simp: is_best_def inj_on_def, metis order_antisym)

lemma is_best_extend:
  assumes "is_best P X (Some s)" "X \<subseteq> Y" "\<And>t. t \<in> Y \<Longrightarrow> P t \<Longrightarrow> t \<in> X \<or> rank s \<le> rank t"
  shows "is_best P Y (Some s)"
  using assms by (fastforce simp: is_best_def)

lemma is_best_union:
  assumes "is_best P X b" "is_best P Y g"
  shows "is_best P (X \<union> Y) (case g of None \<Rightarrow> b | Some s \<Rightarrow> if b = None \<or> scenarioOutranks (Some s) b then Some s else b)"
  using assms by (cases b; cases g) (fastforce simp: is_best_def outranks_rank)+

text \<open>One search loop without cancellation and without errors.\<close>

lemma best_match_calm:
  fixes req :: "('q, 'r, 'b) request"
  assumes ctx: "\<And>i k. ctx i k = None" and b: "body_reads io opt req res" and v: "\<And>s. s \<in> set ss \<Longrightarrow> \<not> isl (verdict lib opt res s req)"
  shows "\<exists>req'. best_match lib io ctx opt i best ss req =
      Some (Inr (fold (better (\<lambda>s. verdict lib opt res s req = Inr True)) ss best), req') \<and>
    request_view req' = request_view req \<and> body_reads io opt req' res"
  using b v
proof (induction ss arbitrary: i best req)
  case (Cons s ss)
  obtain req1 where m: "matchesScenario lib io (\<lambda>k. ctx i (Suc k)) opt s req =
      Some (case verdict lib opt res s req of Inl e \<Rightarrow> ((False, Some e), req1) | Inr m \<Rightarrow> ((m, None), req1))"
    and v1: "request_view req1 = request_view req" "body_reads io opt req1 res"
    using matchesScenario_verdict [where ctx = "\<lambda>k. ctx i (Suc k)" and io = io and opt = opt and req = req and res = res and lib = lib and s = s]
      ctx Cons.prems(1) by blast
  obtain ok where ok: "verdict lib opt res s req = Inr ok" using Cons.prems(2) [of s] by (cases "verdict lib opt res s req") auto
  have V: "verdict lib opt res t req1 = verdict lib opt res t req" for t by (rule view_verdict [OF v1(1)])
  have "\<not> isl (verdict lib opt res t req1)" if "t \<in> set ss" for t using Cons.prems(2) [of t] that by (simp add: V)
  from Cons.IH [OF v1(2) this, of "Suc i" "better (\<lambda>s. verdict lib opt res s req = Inr True) s best"]
  show ?case using m ok v1(1) by (simp add: ctx V better_def)
qed simp

section \<open>Where scenarios are stored\<close>

definition is_global :: "int \<Rightarrow> ('re, 'net) Scenario \<Rightarrow> bool" where
  "is_global n s \<longleftrightarrow> exactRouteShardEntries n s = None \<and> scenarioRequiresGlobalPriorityCheck s"

text \<open>The shards that hold a scenario that is not global, with its keys there.\<close>

definition sites :: "int \<Rightarrow> ('re, 'net) Scenario \<Rightarrow> (nat \<times> string list) list" where
  "sites n s =
     (case exactRouteShardEntries n s of
        Some entries \<Rightarrow> entries
      | None \<Rightarrow> [(getShardForScenario n s, buildIndexKeys s)])"

lemma indexScenario_sites:
  "indexScenario s r =
     (if is_global (sr_shardCount r) s then addGlobalScenario s r
      else r\<lparr>sr_shards := fold (add_to_shard s) (sites (sr_shardCount r) s) (sr_shards r)\<rparr>)"
  by (auto simp: indexScenario_def is_global_def sites_def split: option.split)

lemma key_inj: "CHR '':'' \<notin> set m \<Longrightarrow> CHR '':'' \<notin> set m' \<Longrightarrow> m @ '':'' @ p = m' @ '':'' @ p' \<Longrightarrow> m = m' \<and> p = p'"
proof (induction m arbitrary: m')
  case Nil
  then show ?case by (cases m') auto
next
  case (Cons c m)
  then show ?case by (cases m') auto
qed

lemma route_entries_keys:
  assumes "route_entries n pairs seen entries = Some entries'" "\<forall>(m, p) \<in> set pairs. CHR '':'' \<notin> set m"
    and "\<And>m p. CHR '':'' \<notin> set m \<Longrightarrow> m @ '':'' @ p \<in> set seen \<Longrightarrow> m @ '':'' @ p \<in> set (assoc_list (hashString n p) entries)"
  shows "(\<forall>i. set (assoc_list i entries) \<subseteq> set (assoc_list i entries')) \<and>
    (\<forall>(m, p) \<in> set pairs. literal p \<and> m @ '':'' @ p \<in> set (assoc_list (hashString n p) entries'))"
  using assms
proof (induction n pairs seen entries rule: route_entries.induct)
  case (2 n m p rest seen entries)
  let ?key = "m @ '':'' @ p"
  have lit: "literal p" and colon: "CHR '':'' \<notin> set m" using "2.prems"(1,2) by (auto simp: literal_def split: if_splits)
  show ?case
  proof (cases "?key \<in> set seen")
    case True
    have "route_entries n rest seen entries = Some entries'" using "2.prems"(1) lit True by (auto simp: literal_def)
    from "2.IH"(1) [OF _ refl True this] lit "2.prems"(2,3) True colon
    show ?thesis by (fastforce simp: literal_def)
  next
    case False
    let ?e = "assoc_append (hashString n p) ?key entries"
    have "route_entries n rest (?key # seen) ?e = Some entries'" using "2.prems"(1) lit False by (auto simp: literal_def Let_def)
    moreover have "m' @ '':'' @ p' \<in> set (assoc_list (hashString n p') ?e)"
      if "CHR '':'' \<notin> set m'" "m' @ '':'' @ p' \<in> set (?key # seen)" for m' p'
      using that "2.prems"(3) key_inj [OF that(1) colon, of p' p] by (auto simp: assoc_list_append)
    ultimately have R: "(\<forall>i. set (assoc_list i ?e) \<subseteq> set (assoc_list i entries')) \<and>
        (\<forall>(m, p) \<in> set rest. literal p \<and> m @ '':'' @ p \<in> set (assoc_list (hashString n p) entries'))"
      using "2.IH"(2) [OF _ refl False] lit "2.prems"(2) by (auto simp: literal_def)
    have "set (assoc_list i entries) \<subseteq> set (assoc_list i ?e)" "?key \<in> set (assoc_list (hashString n p) ?e)" for i
      by (auto simp: assoc_list_append)
    then show ?thesis using R lit by (simp add: subset_iff)
  qed
qed simp

lemma route_entries_wf:
  assumes "route_entries n pairs seen entries = Some entries'" "distinct (map fst entries)" "\<forall>i \<in> fst ` set entries. i < nat n" "1 \<le> n" "n \<le> 256"
  shows "distinct (map fst entries') \<and> (\<forall>i \<in> fst ` set entries'. i < nat n)"
  using assms
proof (induction n pairs seen entries rule: route_entries.induct)
  case (2 n m p rest seen entries)
  have "distinct (map fst (assoc_append (hashString n p) (m @ '':'' @ p) entries))" "\<forall>i \<in> fst ` set (assoc_append (hashString n p) (m @ '':'' @ p) entries). i < nat n"
    using "2.prems" hashString_less [of n p] by (auto simp: assoc_append_def distinct_update dom_update)
  then show ?case using 2 by (auto split: if_splits simp: Let_def)
qed auto

lemma sites_wf:
  assumes "1 \<le> n" "n \<le> 256"
  shows "distinct (map fst (sites n s)) \<and> (\<forall>i \<in> fst ` set (sites n s). i < nat n)"
proof (cases "exactRouteShardEntries n s")
  case None
  then show ?thesis using hashString_less [OF assms] by (auto simp: sites_def getShardForScenario_def split: option.split)
next
  case (Some entries)
  then have "route_entries n (route_pairs (Routes (c_Match s))) [] [] = Some entries" by (auto simp: exactRouteShardEntries_def split: if_splits)
  from route_entries_wf [OF this] show ?thesis using Some assms by (simp add: sites_def)
qed

lemma fold_add_to_shard:
  assumes "distinct (map fst entries)" "\<forall>i \<in> fst ` set entries. i < length shards"
  shows "length (fold (add_to_shard s) entries shards) = length shards \<and>
    (\<forall>i < length shards. fold (add_to_shard s) entries shards ! i =
       (case map_of entries i of None \<Rightarrow> shards ! i | Some keys \<Rightarrow> shard_add s keys (shards ! i)))"
  using assms
proof (induction entries arbitrary: shards)
  case (Cons e entries)
  obtain j keys where e: "e = (j, keys)" by fastforce
  have "map_of entries j = None" using Cons.prems(1) by (auto simp: e map_of_eq_None_iff)
  then show ?case using Cons.IH [of "add_to_shard s e shards"] Cons.prems
    by (auto simp: e add_to_shard_def nth_list_update split: option.splits)
qed simp

section \<open>The representation\<close>

definition placed :: "int \<Rightarrow> ('re, 'net) ScenarioShard list \<Rightarrow> ('re, 'net) Scenario list \<Rightarrow> ('re, 'net) Scenario \<Rightarrow> bool" where
  "placed n shards globals s \<longleftrightarrow>
     (if is_global n s then s \<in> set globals
      else \<forall>(i, keys) \<in> set (sites n s). s \<in> set (sh_scenarios (shards ! i)) \<and> (\<forall>k \<in> set keys. s \<in> set (assoc_list k (sh_index (shards ! i)))))"

text \<open>
  \<open>X\<close> are the scenarios that were added or loaded, \<open>D\<close> the copies of the default scenario a new registry has,
  one per shard, until the default is removed or replaced.
\<close>

definition shards_ok :: "('re, 'net) Scenario set \<Rightarrow> ('re, 'net) Scenario list \<Rightarrow> ('re, 'net) ScenarioShard list \<Rightarrow> bool" where
  "shards_ok X D shards \<longleftrightarrow>
     (\<forall>i < length shards. set (sh_scenarios (shards ! i)) \<subseteq> X \<union> (if D = [] then {} else {D ! i}) \<and>
        distinct (map fst (sh_index (shards ! i))) \<and>
        (\<forall>k. set (assoc_list k (sh_index (shards ! i))) \<subseteq> X \<inter> set (sh_scenarios (shards ! i)))) \<and>
     (D \<noteq> [] \<longrightarrow> length D = length shards \<and> (\<exists>rest. sh_scenarios (shards ! 0) = D ! 0 # rest) \<and> (\<forall>d \<in> set D. \<exists>a. d = DefaultScenario a))"

definition rep :: "('re, 'net) Scenario set \<Rightarrow> ('re, 'net) Scenario list \<Rightarrow> ('re, 'net) ShardedScenarioRegistry \<Rightarrow> bool" where
  "rep X D r \<longleftrightarrow>
     1 \<le> sr_shardCount r \<and> sr_shardCount r \<le> 256 \<and> length (sr_shards r) = nat (sr_shardCount r) \<and>
     shards_ok X D (sr_shards r) \<and> (\<forall>s \<in> X. sites (sr_shardCount r) s \<noteq> [] \<and> placed (sr_shardCount r) (sr_shards r) (sr_globalScenarios r) s) \<and>
     set (sr_globalScenarios r) \<subseteq> X \<and> distinct (sr_globalScenarios r) \<and>
     inj_on s_addr (X \<union> set D) \<and> inj_on s_Name X \<and> (D \<noteq> [] \<longrightarrow> (\<forall>s \<in> X. s_Name s \<noteq> defaultScenarioName))"

definition implicit :: "('re, 'net) Scenario list \<Rightarrow> ('re, 'net) Scenario set" where
  "implicit D = (if D = [] then {} else {D ! 0})"

lemma assoc_list_remove:
  assumes "distinct (map fst idx)"
  shows "assoc_list k (filter (\<lambda>(k, l). l \<noteq> []) (map (\<lambda>(k, l). (k, filter P l)) idx)) = filter P (assoc_list k idx)"
  using assms
proof (induction idx)
  case (Cons e idx)
  obtain j l where e: "e = (j, l)" by fastforce
  have "k = j \<Longrightarrow> map_of idx k = None" using Cons.prems by (auto simp: e map_of_eq_None_iff)
  then show ?case using Cons by (auto simp: e assoc_list_def split: option.splits)
qed (simp add: assoc_list_def)

lemma rep_site:
  assumes r: "rep X D r" and s: "s \<in> X" "\<not> is_global (sr_shardCount r) s" and e: "(i, keys) \<in> set (sites (sr_shardCount r) s)"
  shows "i < length (sr_shards r)" "s \<in> set (sh_scenarios (sr_shards r ! i))"
    "\<And>k. k \<in> set keys \<Longrightarrow> s \<in> set (assoc_list k (sh_index (sr_shards r ! i)))"
proof -
  have "1 \<le> sr_shardCount r" "sr_shardCount r \<le> 256" "length (sr_shards r) = nat (sr_shardCount r)" using r by (auto simp: rep_def)
  then show "i < length (sr_shards r)" using sites_wf [of "sr_shardCount r" s] e by force
  have "placed (sr_shardCount r) (sr_shards r) (sr_globalScenarios r) s" using r s by (auto simp: rep_def)
  then show "s \<in> set (sh_scenarios (sr_shards r ! i))" "\<And>k. k \<in> set keys \<Longrightarrow> s \<in> set (assoc_list k (sh_index (sr_shards r ! i)))"
    using s e unfolding placed_def by auto
qed

lemma rep_default: "rep X D r \<Longrightarrow> D \<noteq> [] \<Longrightarrow> d \<in> set D \<Longrightarrow> \<exists>a. d = DefaultScenario a"
  by (auto simp: rep_def shards_ok_def)

lemma rep_stored:
  assumes "rep X D r"
  shows "set (all_stored r) \<subseteq> X \<union> set D" "X \<union> implicit D \<subseteq> set (all_stored r)"
proof -
  let ?n = "sr_shardCount r" and ?sh = "sr_shards r"
  have n: "1 \<le> ?n" "?n \<le> 256" and len: "length ?sh = nat ?n" and ok: "shards_ok X D ?sh" using assms by (auto simp: rep_def)
  have "set (sh_scenarios sh) \<subseteq> X \<union> set D" if sh: "sh \<in> set ?sh" for sh
  proof -
    obtain i where i: "i < length ?sh" "sh = ?sh ! i" using sh by (auto simp: in_set_conv_nth)
    have "D \<noteq> [] \<Longrightarrow> D ! i \<in> set D" using ok i(1) by (auto simp: shards_ok_def)
    then show ?thesis using ok i by (fastforce simp: shards_ok_def split: if_splits)
  qed
  then show "set (all_stored r) \<subseteq> X \<union> set D" using assms by (auto simp: all_stored_def rep_def)
  have "s \<in> set (all_stored r)" if s: "s \<in> X" for s
  proof (cases "is_global ?n s")
    case True
    then show ?thesis using assms s by (auto simp: rep_def placed_def all_stored_def)
  next
    case False
    have "sites ?n s \<noteq> []" using assms s by (auto simp: rep_def)
    then obtain i keys where "(i, keys) \<in> set (sites ?n s)" by (metis hd_in_set surj_pair)
    from rep_site [OF assms s False this] show ?thesis by (auto simp: all_stored_def)
  qed
  moreover have "D ! 0 \<in> set (all_stored r)" if "D \<noteq> []"
    using that ok n len by (auto simp: shards_ok_def all_stored_def intro!: bexI [of _ "?sh ! 0"])
  ultimately show "X \<union> implicit D \<subseteq> set (all_stored r)" by (auto simp: implicit_def)
qed

lemma rep_first_default:
  assumes "rep X D r" "D \<noteq> []"
  shows "first_default (concat (map sh_scenarios (sr_shards r)) @ gs) = {D ! 0}"
proof -
  obtain sh0 shs where sh: "sr_shards r = sh0 # shs" using assms(1) by (cases "sr_shards r") (auto simp: rep_def)
  have "\<exists>rest. sh_scenarios (sr_shards r ! 0) = D ! 0 # rest" using assms by (auto simp: rep_def shards_ok_def)
  then obtain rest where "sh_scenarios sh0 = D ! 0 # rest" by (auto simp: sh)
  moreover have "s_Name (D ! 0) = defaultScenarioName" using rep_default [OF assms, of "D ! 0"] assms(2) by fastforce
  ultimately show ?thesis by (simp add: first_default_def sh)
qed

text \<open>Without duplicates the shards and the global scenarios hold the scenarios and one default.\<close>

lemma rep_unique:
  assumes r: "rep X D r" and gs: "set gs \<subseteq> X"
  shows "set (uniqueScenarioPointers (concat (map sh_scenarios (sr_shards r)) @ gs)) =
    (set (concat (map sh_scenarios (sr_shards r)) @ gs) \<inter> X) \<union> implicit D"
proof -
  let ?S = "concat (map sh_scenarios (sr_shards r)) @ gs"
  have S: "set ?S \<subseteq> X \<union> set D" using rep_stored(1) [OF r] gs by (auto simp: all_stored_def)
  have inj: "inj_on s_addr (X \<union> set D)" and name: "inj_on s_Name X" using r by (auto simp: rep_def)
  show ?thesis
  proof (cases "D = []")
    case True
    then have "set ?S \<subseteq> X" using S by simp
    then have "inj_on s_addr (set ?S)" "inj_on s_Name (set ?S)" using inj name by (auto intro: inj_on_subset)
    from uniqueScenarioPointers_named [OF this] show ?thesis using \<open>set ?S \<subseteq> X\<close> True by (auto simp: implicit_def)
  next
    case False
    have D: "s_Name d = defaultScenarioName" if d: "d \<in> set D" for d using rep_default [OF r False d] by auto
    have X: "\<forall>s \<in> X. s_Name s \<noteq> defaultScenarioName" using r False by (simp add: rep_def)
    have "inj_on s_addr (set ?S)" using inj S by (auto intro: inj_on_subset)
    note U = uniqueScenarioPointers_set(1) [OF this]
    have "{s \<in> set ?S. s_Name s \<noteq> defaultScenarioName} = set ?S \<inter> X" using S D X by auto
    then show ?thesis using U rep_first_default [OF r False, of gs] False by (simp add: implicit_def)
  qed
qed

lemma rep_List:
  assumes "rep X D r"
  shows "set (sharded_List r) = X \<union> implicit D" "distinct (sharded_List r)"
proof -
  note S = rep_stored [OF assms]
  have gs: "set (sr_globalScenarios r) \<subseteq> X" using assms by (simp add: rep_def)
  have inj: "inj_on s_addr (set (all_stored r))" using S(1) assms by (auto simp: rep_def intro: inj_on_subset)
  show "set (sharded_List r) = X \<union> implicit D" using rep_unique [OF assms gs] S(2) by (auto simp: sharded_List_def all_stored_def)
  show "distinct (sharded_List r)" using uniqueScenarioPointers_set(2) [OF inj] by (simp add: sharded_List_def sortScenariosByPriority_def)
qed

section \<open>Every operation keeps the representation\<close>

lemma rep_simps [simp]:
  "rep X D (bump r) = rep X D r" "rep X D (clear_cache r) = rep X D r" "rep X D (r\<lparr>sr_cacheDisabled := b\<rparr>) = rep X D r"
  "rep X D (r\<lparr>sr_filePath := p\<rparr>) = rep X D r" "rep X D (r\<lparr>sr_cache := c\<rparr>) = rep X D r" "rep X D (r\<lparr>sr_metrics := m\<rparr>) = rep X D r"
  "sr_shardCount (bump r) = sr_shardCount r" "sr_shardCount (clear_cache r) = sr_shardCount r"
  by (simp_all add: rep_def bump_def clear_cache_def)

lemma sharded_List_simps [simp]:
  "sharded_List (bump r) = sharded_List r" "sharded_List (clear_cache r) = sharded_List r"
  "sharded_List (r\<lparr>sr_cacheDisabled := b\<rparr>) = sharded_List r" "sharded_List (r\<lparr>sr_filePath := p\<rparr>) = sharded_List r"
  "sharded_List (r\<lparr>sr_cache := c\<rparr>) = sharded_List r" "sharded_List (r\<lparr>sr_metrics := m\<rparr>) = sharded_List r"
  by (simp_all add: sharded_List_def all_stored_def bump_def clear_cache_def)

lemma rep_new:
  assumes "inj addr"
  shows "rep {} (map (\<lambda>i. DefaultScenario (addr i)) [0..<nat (ShardCount (normalize_config cfg))])
    (newShardedScenarioRegistryWithConfig cfg opts addr)"
proof -
  have "1 \<le> ShardCount (normalize_config cfg)" "ShardCount (normalize_config cfg) \<le> 256"
    by (auto simp: normalize_config_def Let_def MinShardCount_def MaxShardCount_def DefaultShardCount_def)
  then show ?thesis using assms
    by (auto simp: rep_def shards_ok_def newShardedScenarioRegistryWithConfig_def Let_def assoc_list_def inj_on_def)
qed

lemma remove_state:
  assumes "rep X D r"
  shows "sr_shards (snd (remove name r)) = map (shard_remove name) (sr_shards r)"
    "sr_globalScenarios (snd (remove name r)) = filter (\<lambda>s. s_Name s \<noteq> name) (sr_globalScenarios r)"
    "sr_shardCount (snd (remove name r)) = sr_shardCount r"
proof -
  have "distinct (map s_Name (sr_globalScenarios r))" using assms by (auto simp: rep_def distinct_map intro: inj_on_subset)
  from remove_first_filter [OF this, of name]
  show "sr_shards (snd (remove name r)) = map (shard_remove name) (sr_shards r)"
    "sr_globalScenarios (snd (remove name r)) = filter (\<lambda>s. s_Name s \<noteq> name) (sr_globalScenarios r)"
    "sr_shardCount (snd (remove name r)) = sr_shardCount r"
    by (simp_all add: remove_def Let_def removeGlobalScenario_def afterScenarioRemoved_def clear_cache_def)
qed

lemma shard_remove_simps:
  "sh_scenarios (shard_remove name sh) = filter (\<lambda>s. s_Name s \<noteq> name) (sh_scenarios sh)"
  "distinct (map fst (sh_index sh)) \<Longrightarrow> assoc_list k (sh_index (shard_remove name sh)) = filter (\<lambda>s. s_Name s \<noteq> name) (assoc_list k (sh_index sh))"
  "distinct (map fst (sh_index sh)) \<Longrightarrow> distinct (map fst (sh_index (shard_remove name sh)))"
proof -
  show "distinct (map fst (sh_index sh)) \<Longrightarrow> assoc_list k (sh_index (shard_remove name sh)) = filter (\<lambda>s. s_Name s \<noteq> name) (assoc_list k (sh_index sh))"
    by (simp add: shard_remove_def assoc_list_remove)
qed (simp_all add: shard_remove_def distinct_map_filter o_def case_prod_unfold)

lemma shards_ok_remove:
  assumes ok: "shards_ok X D shards" and X: "D \<noteq> [] \<Longrightarrow> \<forall>s \<in> X. s_Name s \<noteq> defaultScenarioName"
  shows "shards_ok {s \<in> X. s_Name s \<noteq> name} (if name = defaultScenarioName then [] else D) (map (shard_remove name) shards)"
proof -
  let ?D = "if name = defaultScenarioName then [] else D" and ?X = "{s \<in> X. s_Name s \<noteq> name}"
  have D: "s_Name (D ! i) = defaultScenarioName" if "D \<noteq> []" "i < length shards" for i
  proof -
    have "D ! i \<in> set D" using ok that by (auto simp: shards_ok_def)
    then obtain a where "D ! i = DefaultScenario a" using ok that by (auto simp: shards_ok_def)
    then show ?thesis by simp
  qed
  have "set (sh_scenarios (shard_remove name (shards ! i))) \<subseteq> ?X \<union> (if ?D = [] then {} else {?D ! i}) \<and>
      distinct (map fst (sh_index (shard_remove name (shards ! i)))) \<and>
      (\<forall>k. set (assoc_list k (sh_index (shard_remove name (shards ! i)))) \<subseteq> ?X \<inter> set (sh_scenarios (shard_remove name (shards ! i))))"
    if i: "i < length shards" for i
  proof -
    have sc: "set (sh_scenarios (shards ! i)) \<subseteq> X \<union> (if D = [] then {} else {D ! i})"
      and d: "distinct (map fst (sh_index (shards ! i)))"
      and ix: "\<And>k. set (assoc_list k (sh_index (shards ! i))) \<subseteq> X \<inter> set (sh_scenarios (shards ! i))"
      using ok i by (auto simp: shards_ok_def)
    have "set (filter (\<lambda>s. s_Name s \<noteq> name) (sh_scenarios (shards ! i))) \<subseteq> ?X \<union> (if ?D = [] then {} else {?D ! i})"
      using sc D [OF _ i] by (auto split: if_splits)
    then show ?thesis using ix by (auto simp: shard_remove_simps(1) shard_remove_simps(2,3) [OF d])
  qed
  moreover have "\<exists>rest. sh_scenarios (map (shard_remove name) shards ! 0) = D ! 0 # rest" if "name \<noteq> defaultScenarioName" "D \<noteq> []"
  proof -
    have "shards \<noteq> []" "length D = length shards" using ok that by (auto simp: shards_ok_def)
    then show ?thesis using that ok D [of 0] by (auto simp: shards_ok_def shard_remove_simps(1))
  qed
  ultimately show ?thesis using ok unfolding shards_ok_def by auto
qed

lemma rep_remove:
  assumes "rep X D r"
  shows "rep {s \<in> X. s_Name s \<noteq> name} (if name = defaultScenarioName then [] else D) (snd (remove name r))"
proof -
  let ?n = "sr_shardCount r" and ?X = "{s \<in> X. s_Name s \<noteq> name}"
  have ok: "shards_ok X D (sr_shards r)" and dX: "D \<noteq> [] \<Longrightarrow> \<forall>s \<in> X. s_Name s \<noteq> defaultScenarioName" using assms by (auto simp: rep_def)
  have "placed ?n (map (shard_remove name) (sr_shards r)) (filter (\<lambda>s. s_Name s \<noteq> name) (sr_globalScenarios r)) s"
    if s: "s \<in> X" "s_Name s \<noteq> name" for s
  proof (cases "is_global ?n s")
    case True
    then show ?thesis using assms s by (auto simp: placed_def rep_def)
  next
    case False
    have "s \<in> set (sh_scenarios (map (shard_remove name) (sr_shards r) ! i)) \<and>
        (\<forall>k \<in> set keys. s \<in> set (assoc_list k (sh_index (map (shard_remove name) (sr_shards r) ! i))))"
      if e: "(i, keys) \<in> set (sites ?n s)" for i keys
    proof -
      note R = rep_site [OF assms s(1) False e]
      have "distinct (map fst (sh_index (sr_shards r ! i)))" using ok R(1) by (auto simp: shards_ok_def)
      then show ?thesis using R s(2) by (simp add: shard_remove_simps)
    qed
    then show ?thesis using False by (auto simp: placed_def)
  qed
  then show ?thesis using assms shards_ok_remove [OF ok dX] unfolding rep_def remove_state [OF assms]
    by (auto intro: inj_on_subset)
qed

lemma remove_error:
  assumes "rep X D r"
  shows "fst (remove name r) = (if \<exists>s \<in> X \<union> implicit D. s_Name s = name then None else Some ErrNoMatch)"
proof -
  have ok: "shards_ok X D (sr_shards r)" using assms by (simp add: rep_def)
  have shard: "shard_has name sh \<longleftrightarrow> (\<exists>s \<in> set (sh_scenarios sh). s_Name s = name)" if sh: "sh \<in> set (sr_shards r)" for sh
  proof -
    obtain i where i: "i < length (sr_shards r)" "sh = sr_shards r ! i" using sh by (auto simp: in_set_conv_nth)
    have "l = assoc_list k (sh_index sh)" if "(k, l) \<in> set (sh_index sh)" for k l
      using that ok i by (auto simp: shards_ok_def assoc_list_def)
    then have "set l \<subseteq> set (sh_scenarios sh)" if "(k, l) \<in> set (sh_index sh)" for k l using that ok i by (fastforce simp: shards_ok_def)
    then show ?thesis by (fastforce simp: shard_has_def list_ex_iff)
  qed
  have "list_ex (shard_has name) (sr_shards r) \<or> list_ex (\<lambda>s. s_Name s = name) (sr_globalScenarios r) \<longleftrightarrow>
      (\<exists>s \<in> set (all_stored r). s_Name s = name)"
    using shard by (auto simp: all_stored_def list_ex_iff)
  moreover have "(\<exists>s \<in> set (all_stored r). s_Name s = name) \<longleftrightarrow> (\<exists>s \<in> X \<union> implicit D. s_Name s = name)"
  proof -
    have "\<exists>s \<in> implicit D. s_Name s = s_Name d" if "d \<in> set D" for d
      using rep_default [OF assms _ that] rep_default [OF assms, of "D ! 0"] that by (cases D) (auto simp: implicit_def)
    then show ?thesis using rep_stored [OF assms] by (metis (no_types, opaque_lifting) Un_iff subset_iff)
  qed
  ultimately show ?thesis by (simp add: remove_def Let_def removeGlobalScenario_def)
qed

lemma shard_add_simps:
  "sh_scenarios (shard_add s keys sh) = sh_scenarios sh @ [s]"
  "assoc_list k (sh_index (shard_add s keys sh)) = assoc_list k (sh_index sh) @ replicate (count_list keys k) s"
  "distinct (map fst (sh_index sh)) \<Longrightarrow> distinct (map fst (sh_index (shard_add s keys sh)))"
proof -
  have "distinct (map fst (fold (\<lambda>key idx. assoc_append key s idx) keys idx))" if "distinct (map fst idx)" for idx
    using that by (induction keys arbitrary: idx) (simp_all add: assoc_append_def distinct_update)
  then show "distinct (map fst (sh_index sh)) \<Longrightarrow> distinct (map fst (sh_index (shard_add s keys sh)))" by (simp add: shard_add_def)
qed (simp_all add: shard_add_def assoc_list_fold)

lemma shards_ok_add:
  assumes ok: "shards_ok X D shards" and len: "length shards' = length shards"
    and sh: "\<And>i. i < length shards \<Longrightarrow> shards' ! i = shards ! i \<or> (\<exists>keys. shards' ! i = shard_add s keys (shards ! i))"
  shows "shards_ok (insert s X) D shards'"
proof -
  have "set (sh_scenarios (shards' ! i)) \<subseteq> insert s X \<union> (if D = [] then {} else {D ! i}) \<and> distinct (map fst (sh_index (shards' ! i))) \<and>
      (\<forall>k. set (assoc_list k (sh_index (shards' ! i))) \<subseteq> insert s X \<inter> set (sh_scenarios (shards' ! i)))"
    if i: "i < length shards" for i
  proof -
    have sc: "set (sh_scenarios (shards ! i)) \<subseteq> X \<union> (if D = [] then {} else {D ! i})"
      and d: "distinct (map fst (sh_index (shards ! i)))"
      and ix: "\<And>k. set (assoc_list k (sh_index (shards ! i))) \<subseteq> X \<inter> set (sh_scenarios (shards ! i))"
      using ok i by (auto simp: shards_ok_def)
    from sh [OF i] show ?thesis
    proof
      assume "shards' ! i = shards ! i"
      then show ?thesis using sc d ix by auto
    next
      assume "\<exists>keys. shards' ! i = shard_add s keys (shards ! i)"
      then obtain keys where "shards' ! i = shard_add s keys (shards ! i)" by blast
      then show ?thesis using sc ix shard_add_simps(3) [OF d] by (auto simp: shard_add_simps)
    qed
  qed
  moreover have "\<exists>rest. sh_scenarios (shards' ! 0) = D ! 0 # rest" if "D \<noteq> []"
  proof -
    have "shards \<noteq> []" using ok that by (auto simp: shards_ok_def)
    then show ?thesis using that ok sh [of 0] by (auto simp: shards_ok_def shard_add_simps(1))
  qed
  ultimately show ?thesis using ok unfolding shards_ok_def len by auto
qed

lemma rep_index:
  assumes r: "rep X D r" and a: "s_addr s \<notin> s_addr ` (X \<union> set D)" and n: "s_Name s \<notin> s_Name ` X" "D \<noteq> [] \<longrightarrow> s_Name s \<noteq> defaultScenarioName"
    and s: "sites (sr_shardCount r) s \<noteq> []"
  shows "rep (insert s X) D (indexScenario s r)"
proof -
  let ?n = "sr_shardCount r" and ?r = "indexScenario s r"
  let ?shards = "if is_global ?n s then sr_shards r else fold (add_to_shard s) (sites ?n s) (sr_shards r)"
  let ?globals = "sr_globalScenarios r @ (if is_global ?n s then [s] else [])"
  have fields: "sr_shards ?r = ?shards" "sr_globalScenarios ?r = ?globals" "sr_shardCount ?r = ?n"
    by (simp_all add: indexScenario_sites addGlobalScenario_def)
  have N: "1 \<le> ?n" "?n \<le> 256" and len: "length (sr_shards r) = nat ?n" and ok: "shards_ok X D (sr_shards r)" using r by (auto simp: rep_def)
  note F = fold_add_to_shard [of "sites ?n s" "sr_shards r" s]
  have sw: "distinct (map fst (sites ?n s))" "\<forall>i \<in> fst ` set (sites ?n s). i < length (sr_shards r)" using sites_wf [OF N] len by auto
  have len': "length ?shards = length (sr_shards r)" using F sw by simp
  have step: "?shards ! i = sr_shards r ! i \<or> (\<exists>keys. ?shards ! i = shard_add s keys (sr_shards r ! i))" if "i < length (sr_shards r)" for i
    using F sw that by (auto split: option.splits)
  have grow: "set (sh_scenarios (sr_shards r ! i)) \<subseteq> set (sh_scenarios (?shards ! i)) \<and>
      set (assoc_list k (sh_index (sr_shards r ! i))) \<subseteq> set (assoc_list k (sh_index (?shards ! i)))" if "i < length (sr_shards r)" for i k
    using step [OF that] by (auto simp: shard_add_simps)
  have old: "placed ?n ?shards ?globals t" if t: "t \<in> X" for t
  proof (cases "is_global ?n t")
    case True
    then show ?thesis using r t by (auto simp: placed_def rep_def)
  next
    case False
    have "t \<in> set (sh_scenarios (?shards ! i)) \<and> (\<forall>k \<in> set keys. t \<in> set (assoc_list k (sh_index (?shards ! i))))"
      if "(i, keys) \<in> set (sites ?n t)" for i keys
      using rep_site [OF r t False that] grow by blast
    then show ?thesis using False unfolding placed_def by auto
  qed
  have new: "placed ?n ?shards ?globals s"
  proof (cases "is_global ?n s")
    case False
    have "s \<in> set (sh_scenarios (?shards ! i)) \<and> (\<forall>k \<in> set keys. s \<in> set (assoc_list k (sh_index (?shards ! i))))"
      if e: "(i, keys) \<in> set (sites ?n s)" for i keys
    proof -
      have "map_of (sites ?n s) i = Some keys" "i < length (sr_shards r)" using sw e by force+
      then have "?shards ! i = shard_add s keys (sr_shards r ! i)" using F sw False by simp
      moreover have "k \<in> set keys \<Longrightarrow> count_list keys k \<noteq> 0" for k by (simp add: count_list_0_iff)
      ultimately show ?thesis by (auto simp: shard_add_simps)
    qed
    then show ?thesis using False unfolding placed_def by auto
  qed (simp add: placed_def)
  have "s \<notin> X" using n(1) by auto
  then have "distinct ?globals" "set ?globals \<subseteq> insert s X" using r by (auto simp: rep_def)
  moreover have "inj_on s_addr (insert s X \<union> set D)" "inj_on s_Name (insert s X)" using r a n by (auto simp: rep_def)
  moreover have "\<forall>t \<in> insert s X. sites ?n t \<noteq> [] \<and> placed ?n ?shards ?globals t" using old new s r by (auto simp: rep_def)
  moreover have "D \<noteq> [] \<longrightarrow> (\<forall>t \<in> insert s X. s_Name t \<noteq> defaultScenarioName)" using r n(2) by (auto simp: rep_def)
  ultimately show ?thesis using N len len' shards_ok_add [OF ok len' step] unfolding rep_def fields by simp
qed

lemma indexScenario_count: "sr_shardCount (indexScenario s r) = sr_shardCount r"
  by (simp add: indexScenario_def addGlobalScenario_def split: option.split)

lemma rep_fold_index:
  assumes "rep X [] r" "distinct (map s_addr ss)" "distinct (map s_Name ss)" "\<forall>s \<in> set ss. sites (sr_shardCount r) s \<noteq> []"
    "\<forall>s \<in> set ss. s_addr s \<notin> s_addr ` X \<and> s_Name s \<notin> s_Name ` X"
  shows "rep (X \<union> set ss) [] (fold indexScenario ss r)"
  using assms
proof (induction ss arbitrary: X r)
  case (Cons s ss)
  have "rep (insert s X) [] (indexScenario s r)" using Cons.prems by (intro rep_index) simp_all
  moreover have "\<forall>t \<in> set ss. s_addr t \<notin> s_addr ` insert s X \<and> s_Name t \<notin> s_Name ` insert s X"
  proof
    fix t assume t: "t \<in> set ss"
    have "s_addr s \<notin> s_addr ` set ss" "s_Name s \<notin> s_Name ` set ss" using Cons.prems(2,3) by simp_all
    then have "s_addr t \<noteq> s_addr s" "s_Name t \<noteq> s_Name s" using imageI [OF t, of s_addr] imageI [OF t, of s_Name] by metis+
    then show "s_addr t \<notin> s_addr ` insert s X \<and> s_Name t \<notin> s_Name ` insert s X" using Cons.prems(5) t by simp
  qed
  moreover have "distinct (map s_addr ss)" "distinct (map s_Name ss)" "\<forall>t \<in> set ss. sites (sr_shardCount (indexScenario s r)) t \<noteq> []"
    using Cons.prems by (simp_all add: indexScenario_count)
  ultimately have "rep (insert s X \<union> set ss) [] (fold indexScenario ss (indexScenario s r))" by (intro Cons.IH)
  then show ?case by simp
qed simp

lemma rep_install:
  assumes "rep X D r" "distinct (map s_addr ss)" "distinct (map s_Name ss)" "\<forall>s \<in> set ss. sites (sr_shardCount r) s \<noteq> []"
  shows "rep (set ss) [] (install path ss r)"
proof -
  let ?r = "(bump r)\<lparr>sr_cacheDisabled := scenariosDisableMatchCache ss,
    sr_shards := map (\<lambda>_. \<lparr>sh_index = [], sh_scenarios = []\<rparr>) (sr_shards r), sr_globalScenarios := []\<rparr>"
  have "rep {} [] ?r" using assms(1) by (simp add: rep_def shards_ok_def bump_def assoc_list_def)
  then show ?thesis using rep_fold_index [of "{}" ?r ss] assms(2-4) by (simp add: install_def Let_def)
qed

section \<open>Routes of a compiled scenario\<close>

lemma well_compiled_routes:
  assumes "well_compiled lib s" "map_of (Routes (c_Match s)) m = Some eps"
  shows "m \<in> set exactRouteMethodOrder \<and> eps \<noteq> []"
proof -
  obtain cr where cr: "s_compiledRoutes s = Some cr" using assms by (auto simp: well_compiled_def split: option.splits)
  then show ?thesis using well_compiled_route [OF assms(1) cr, of m] assms(2) by (auto split: option.splits)
qed

lemma route_method_no_colon: "m \<in> set exactRouteMethodOrder \<Longrightarrow> CHR '':'' \<notin> set m"
  by (auto simp: exactRouteMethodOrder_def method_defs)

lemma set_route_pairs:
  assumes "well_compiled lib s"
  shows "set (route_pairs (Routes (c_Match s))) = {(m, p). \<exists>eps. map_of (Routes (c_Match s)) m = Some eps \<and> p \<in> set eps}"
proof -
  have "m \<in> set (orderedRouteMethods (Routes (c_Match s))) \<longleftrightarrow> (\<exists>eps. map_of (Routes (c_Match s)) m = Some eps)" for m
    using well_compiled_routes [OF assms, of m] by (auto simp: orderedRouteMethods_def)
  moreover have "(m, p) \<in> set (route_pairs R) \<longleftrightarrow> m \<in> set (orderedRouteMethods R) \<and> p \<in> set (the (map_of R m))" for m p R
    by (auto simp: route_pairs_def)
  ultimately have "(m, p) \<in> set (route_pairs (Routes (c_Match s))) \<longleftrightarrow> (\<exists>eps. map_of (Routes (c_Match s)) m = Some eps \<and> p \<in> set eps)" for m p
    by (cases "map_of (Routes (c_Match s)) m") simp_all
  then show ?thesis by (simp only: set_eq_iff split_paired_All mem_Collect_eq prod.case) simp
qed

lemma exact_entries:
  assumes w: "well_compiled lib s" and e: "exactRouteShardEntries n s = Some entries"
    and m: "map_of (Routes (c_Match s)) m = Some eps" "p \<in> set eps"
  shows "literal p \<and> (\<exists>keys. (hashString n p, keys) \<in> set entries \<and> m @ '':'' @ p \<in> set keys)"
proof -
  have r: "route_entries n (route_pairs (Routes (c_Match s))) [] [] = Some entries" using e by (auto simp: exactRouteShardEntries_def split: if_splits)
  have colon: "\<forall>(m, p) \<in> set (route_pairs (Routes (c_Match s))). CHR '':'' \<notin> set m"
    using well_compiled_routes [OF w] route_method_no_colon by (auto simp: set_route_pairs [OF w])
  have "(m, p) \<in> set (route_pairs (Routes (c_Match s)))" using m by (simp add: set_route_pairs [OF w])
  then have "literal p \<and> m @ '':'' @ p \<in> set (assoc_list (hashString n p) entries)" using route_entries_keys [OF r colon] by auto
  then show ?thesis by (cases "map_of entries (hashString n p)") (auto simp: assoc_list_def dest: map_of_SomeD)
qed

lemma sites_not_empty:
  assumes w: "well_compiled lib s"
  shows "sites n s \<noteq> []"
proof (cases "exactRouteShardEntries n s")
  case (Some entries)
  then have "fst (hd (Routes (c_Match s))) \<in> fst ` set (Routes (c_Match s))" by (auto simp: exactRouteShardEntries_def split: if_splits)
  then obtain m eps where m: "map_of (Routes (c_Match s)) m = Some eps" by (metis weak_map_of_SomeI imageE surjective_pairing)
  then obtain p where "p \<in> set eps" using well_compiled_routes [OF w m] by fastforce
  then show ?thesis using exact_entries [OF w Some m] Some by (auto simp: sites_def)
qed (simp add: sites_def)

section \<open>Both registries side by side\<close>

fun apply_sharded ::
  "('re, 'net, 'ip) golib \<Rightarrow> (string \<Rightarrow> go_error option) \<Rightarrow> (go_error \<Rightarrow> string) \<Rightarrow> (nat \<Rightarrow> nat) \<Rightarrow> ('re, 'net) registry_op \<Rightarrow>
   ('re, 'net) ShardedScenarioRegistry \<Rightarrow> go_error option \<times> ('re, 'net) ShardedScenarioRegistry" where
  "apply_sharded lib stat errText addrs (OpLoad path addr decoded) r = sharded_Load lib stat errText addr path decoded r"
| "apply_sharded lib stat errText addrs (OpReload addr decode) r = sharded_Reload lib stat errText addrs addr decode r"
| "apply_sharded lib stat errText addrs (OpAdd s) r = sharded_Add lib stat errText s r"
| "apply_sharded lib stat errText addrs (OpRemove name) r = sharded_Remove name r"

text \<open>The operations of a sequence one after another, with the error each returned.\<close>

fun run_steps :: "('o \<Rightarrow> 'st \<Rightarrow> go_error option \<times> 'st) \<Rightarrow> 'o list \<Rightarrow> 'st \<Rightarrow> go_error option list \<times> 'st" where
  "run_steps step [] st = ([], st)"
| "run_steps step (opn # ops) st =
     (let (err, st1) = step opn st; (errs, st2) = run_steps step ops st1 in (err # errs, st2))"

text \<open>Every scenario handed to a registry has an address of its own.\<close>

definition file_pointers :: "nat \<Rightarrow> go_error + ('re, 'net) Scenario list \<Rightarrow> nat list" where
  "file_pointers addr decoded = addr # (case decoded of Inl e \<Rightarrow> [] | Inr ss \<Rightarrow> map s_addr ss)"

fun op_pointers :: "('re, 'net) registry_op \<Rightarrow> nat set" where
  "op_pointers (OpLoad path addr decoded) = set (file_pointers addr decoded)"
| "op_pointers (OpReload addr decode) = (\<Union>path. set (file_pointers addr (decode path)))"
| "op_pointers (OpAdd s) = s_addr ` set_option s"
| "op_pointers (OpRemove name) = {}"

fun pointers_distinct :: "('re, 'net) registry_op \<Rightarrow> bool" where
  "pointers_distinct (OpLoad path addr decoded) \<longleftrightarrow> distinct (file_pointers addr decoded)"
| "pointers_distinct (OpReload addr decode) \<longleftrightarrow> (\<forall>path. distinct (file_pointers addr (decode path)))"
| "pointers_distinct opn \<longleftrightarrow> True"

fun pointers_fresh :: "nat set \<Rightarrow> ('re, 'net) registry_op list \<Rightarrow> bool" where
  "pointers_fresh U [] \<longleftrightarrow> True"
| "pointers_fresh U (opn # ops) \<longleftrightarrow>
     pointers_distinct opn \<and> op_pointers opn \<inter> U = {} \<and> pointers_fresh (U \<union> op_pointers opn) ops"

definition configured :: "('re, 'net) ShardedScenarioRegistry \<Rightarrow> bool" where
  "configured r \<longleftrightarrow> normalize_config (sr_config r) = sr_config r \<and> sr_shardCount r = ShardCount (sr_config r)"

definition sim ::
  "('re, 'net, 'ip) golib \<Rightarrow> nat set \<Rightarrow> int \<Rightarrow> ('re, 'net) ShardedScenarioRegistry \<Rightarrow> ('re, 'net) scenarioRegistry \<Rightarrow> bool" where
  "sim lib U n r l \<longleftrightarrow>
     (\<exists>D. rep (set (List l) - implicit D) D r \<and> implicit D \<subseteq> set (List l) \<and> s_addr ` (set (List l) \<union> set D) \<subseteq> U) \<and>
     registry_ok lib n (List l) \<and> configured r \<and> sr_bodyPattern r = rg_bodyPattern l \<and> sr_filePath r = rg_filePath l"

lemma sim_List: "sim lib U n r l \<Longrightarrow> sharded_List r = List l"
proof -
  assume s: "sim lib U n r l"
  then obtain D where D: "rep (set (List l) - implicit D) D r" "implicit D \<subseteq> set (List l)" by (auto simp: sim_def)
  have ok: "registry_ok lib n (List l)" using s by (simp add: sim_def)
  have eq: "set (sharded_List r) = set (List l)" and d: "distinct (sharded_List r)" using rep_List [OF D(1)] D(2) by auto
  have inj: "inj_on rank (set (List l))" by (rule registry_ranks [OF ok])
  show ?thesis
  proof (rule map_sorted_distinct_set_unique [where f = rank])
    show "inj_on rank (set (sharded_List r) \<union> set (List l))" using inj eq by simp
    show "sorted (map rank (sharded_List r))" by (simp add: sharded_List_def)
    show "distinct (map rank (sharded_List r))" using inj eq d by (simp add: distinct_map)
    show "sorted (map rank (List l))" using ok by (simp add: registry_ok_def)
    have "distinct (List l)" using ok by (auto simp: registry_ok_def distinct_map)
    then show "distinct (map rank (List l))" using inj by (simp add: distinct_map)
  qed (rule eq)
qed

lemma sharded_config_kept [simp]:
  "configured (bump r) = configured r" "configured (clear_cache r) = configured r" "configured (r\<lparr>sr_cacheDisabled := b\<rparr>) = configured r"
  "configured (r\<lparr>sr_filePath := p\<rparr>) = configured r" "configured (r\<lparr>sr_shards := sh, sr_globalScenarios := gs\<rparr>) = configured r"
  "configured (r\<lparr>sr_shards := sh\<rparr>) = configured r" "configured (r\<lparr>sr_globalScenarios := gs\<rparr>) = configured r"
  "configured (indexScenario s r) = configured r" "configured (snd (remove name r)) = configured r"
  by (simp_all add: configured_def bump_def clear_cache_def indexScenario_def addGlobalScenario_def remove_def Let_def
      removeGlobalScenario_def afterScenarioRemoved_def split: option.split)

lemma fields_kept [simp]:
  "sr_bodyPattern (bump r) = sr_bodyPattern r" "sr_filePath (bump r) = sr_filePath r" "sr_config (bump r) = sr_config r"
  "sr_bodyPattern (clear_cache r) = sr_bodyPattern r" "sr_filePath (clear_cache r) = sr_filePath r"
  "sr_shards (bump r) = sr_shards r" "sr_shards (clear_cache r) = sr_shards r"
  "sr_globalScenarios (bump r) = sr_globalScenarios r" "sr_globalScenarios (clear_cache r) = sr_globalScenarios r"
  "sr_bodyPattern (indexScenario s r) = sr_bodyPattern r" "sr_filePath (indexScenario s r) = sr_filePath r"
  "sr_bodyPattern (snd (remove name r)) = sr_bodyPattern r" "sr_filePath (snd (remove name r)) = sr_filePath r"
  by (simp_all add: bump_def clear_cache_def indexScenario_def addGlobalScenario_def remove_def Let_def
      removeGlobalScenario_def afterScenarioRemoved_def split: option.split)

lemma install_kept:
  "configured (install path ss r) = configured r" "sr_bodyPattern (install path ss r) = sr_bodyPattern r"
  "sr_filePath (install path ss r) = path"
proof -
  have "configured (fold indexScenario ss r) = configured r \<and> sr_bodyPattern (fold indexScenario ss r) = sr_bodyPattern r" for r :: "('a, 'b) ShardedScenarioRegistry"
    by (induction ss arbitrary: r) simp_all
  then show "configured (install path ss r) = configured r" "sr_bodyPattern (install path ss r) = sr_bodyPattern r"
    "sr_filePath (install path ss r) = path" by (simp_all add: install_def Let_def)
qed

text \<open>One step on both sides; the sets of scenarios are what the lemmas on the plain registry say.\<close>

lemma sim_remove:
  assumes s: "sim lib U n r l" and e: "Remove name l = (err, l')"
  shows "\<exists>r'. sharded_Remove name r = (err, r') \<and> sim lib U n r' l'"
proof -
  obtain D where D: "rep (set (List l) - implicit D) D r" "implicit D \<subseteq> set (List l)" "s_addr ` (set (List l) \<union> set D) \<subseteq> U"
    using s by (auto simp: sim_def)
  have ok: "registry_ok lib n (List l)" using s by (simp add: sim_def)
  have rm: "remove_first (\<lambda>s. s_Name s = name) (List l) = filter (\<lambda>s. s_Name s \<noteq> name) (List l)"
    using ok by (intro remove_first_filter) (simp add: registry_ok_def)
  have l': "List l' = filter (\<lambda>s. s_Name s \<noteq> name) (List l)" "rg_bodyPattern l' = rg_bodyPattern l" "rg_filePath l' = rg_filePath l"
    and err: "err = (if \<exists>s \<in> set (List l). s_Name s = name then None else Some ErrNoMatch)"
    using e rm by (auto simp: Remove_def List_def list_ex_iff filter_id_conv split: if_splits)
  let ?D = "if name = defaultScenarioName then [] else D"
  have r: "rep (set (List l) - implicit D) D (bump r)" using D(1) by simp
  have imp: "s_Name d = defaultScenarioName" if "d \<in> implicit D" for d
    using that rep_default [OF D(1), of "D ! 0"] by (cases D) (auto simp: implicit_def)
  have "{s \<in> set (List l) - implicit D. s_Name s \<noteq> name} = set (List l') - implicit ?D" "implicit ?D \<subseteq> set (List l')"
    using imp D(2) by (auto simp: l' implicit_def)
  then have "rep (set (List l') - implicit ?D) ?D (snd (remove name (bump r)))" "implicit ?D \<subseteq> set (List l')"
    using rep_remove [OF r, of name] by simp_all
  moreover have "s_addr ` (set (List l') \<union> set ?D) \<subseteq> U" using D(3) by (auto simp: l')
  moreover have "fst (remove name (bump r)) = err" using remove_error [OF r, of name] D(2) by (auto simp: err)
  ultimately show ?thesis using s l' filter_registry_ok [OF ok]
    by (intro exI [of _ "bump (snd (remove name (bump r)))"] conjI) (auto simp: sharded_Remove_def sim_def case_prod_unfold)
qed

lemma sim_add:
  assumes s: "sim lib U n r l" and n: "0 \<le> n" "n \<le> MaxInt64" and f: "\<forall>s' \<in> set_option sc. uncompiled s'"
    and a: "s_addr ` set_option sc \<inter> U = {}" and e: "Add lib stat errText sc l = (err, l')"
  shows "\<exists>r'. sharded_Add lib stat errText sc r = (err, r') \<and> sim lib (U \<union> s_addr ` set_option sc) (n + 1) r' l'"
proof (cases "\<exists>s0 c. sc = Some s0 \<and> validateAndCompile lib stat s0 = Inr c")
  case False
  then have "l' = l" "\<exists>r'. sharded_Add lib stat errText sc r = (err, r') \<and> (r' = r \<or> r' = bump (bump r))"
    using e by (auto simp: Add_def sharded_Add_def split: option.splits sum.splits)
  moreover have "sim lib (U \<union> V) (n + 1) r l" for V using s by (fastforce simp: sim_def elim: registry_ok_mono)
  ultimately show ?thesis by (auto simp: sim_def)
next
  case True
  then obtain s0 c where c: "sc = Some s0" "validateAndCompile lib stat s0 = Inr c" by blast
  have w: "well_compiled lib c" "s_Name c \<noteq> []" "s_Name c = s_Name s0" "s_addr c = s_addr s0"
    using validateAndCompile_ok [OF c(2)] f by (auto simp: routing_fields_def c(1))
  obtain D where D: "rep (set (List l) - implicit D) D r" "implicit D \<subseteq> set (List l)" "s_addr ` (set (List l) \<union> set D) \<subseteq> U"
    using s by (auto simp: sim_def)
  have ok: "registry_ok lib n (List l)" using s by (simp add: sim_def)
  let ?s = "c\<lparr>s_order := scenarioOrderForAdd (List l) (s_Name c)\<rparr>" and ?name = "s_Name c"
  have l': "err = None" "List l' = insert_scenario c (List l)" "rg_bodyPattern l' = rg_bodyPattern l" "rg_filePath l' = rg_filePath l"
    using e by (auto simp: Add_def c List_def)
  note I = insert_scenario_ok [OF ok n w(2,1)]
  let ?D = "if ?name = defaultScenarioName then [] else D" and ?r1 = "snd (remove ?name (bump r))"
  let ?X = "{t \<in> set (List l) - implicit D. s_Name t \<noteq> ?name}"
  have r1: "rep ?X ?D ?r1" by (rule rep_remove) (simp add: D(1))
  have addr: "s_addr ?s \<notin> s_addr ` (?X \<union> set ?D)" using D(3) a w(4) by (auto simp: c(1))
  have rep': "rep (insert ?s ?X) ?D (indexScenario ?s ?r1)"
    using addr sites_not_empty [of lib ?s] w(1) by (intro rep_index [OF r1]) auto
  have imp: "s_Name d = defaultScenarioName" if "d \<in> implicit D" for d
    using that rep_default [OF D(1), of "D ! 0"] by (cases D) (auto simp: implicit_def)
  moreover have "?s \<notin> implicit ?D"
  proof
    assume s: "?s \<in> implicit ?D"
    then have "s_Name ?s = defaultScenarioName" by (intro imp) (auto simp: implicit_def split: if_splits)
    then show False using s by (simp add: implicit_def)
  qed
  ultimately have "insert ?s ?X = set (List l') - implicit ?D \<and> implicit ?D \<subseteq> set (List l')"
    using I D(2) by (auto simp: l' implicit_def)
  moreover have "s_addr ` (set (List l') \<union> set ?D) \<subseteq> U \<union> {s_addr s0}" using I D(3) by (auto simp: l' w(4))
  moreover have "sharded_List r = List l" by (rule sim_List [OF s])
  ultimately show ?thesis using s l' I rep'
    by (auto simp: sharded_Add_def sim_def c Let_def intro!: exI [of _ ?D])
qed

text \<open>What a file gives, whoever loads it.\<close>

definition loaded ::
  "('re, 'net, 'ip) golib \<Rightarrow> (string \<Rightarrow> go_error option) \<Rightarrow> (go_error \<Rightarrow> string) \<Rightarrow> nat \<Rightarrow> go_error + ('re, 'net) Scenario list \<Rightarrow>
   go_error + ('re, 'net) Scenario list" where
  "loaded lib stat errText addr decoded =
     sbind decoded (\<lambda>ss. sbind (compile_all lib stat errText ss)
       (\<lambda>cs. Inr (sortScenariosByPriority (number (with_default addr cs)))))"

lemma Load_loaded:
  "Load lib stat errText addr path decoded l =
     (case loaded lib stat errText addr decoded of
        Inl e \<Rightarrow> (Some e, l) | Inr ss \<Rightarrow> (None, l\<lparr>rg_scenarios := ss, rg_filePath := path\<rparr>))"
  by (simp add: Load_def loaded_def sbind_def split: sum.split)

lemma sharded_Load_loaded:
  "sharded_Load lib stat errText addr path decoded r =
     (case loaded lib stat errText addr decoded of Inl e \<Rightarrow> (Some e, r) | Inr ss \<Rightarrow> (None, install path ss r))"
  by (simp add: sharded_Load_def Load_loaded List_def split: sum.split)

lemma loaded_ok:
  assumes l: "loaded lib stat errText addr decoded = Inr ss" and f: "named_file L decoded" and d: "distinct (file_pointers addr decoded)"
  shows "registry_ok lib (int L) ss \<and> distinct (map s_addr ss) \<and> s_addr ` set ss \<subseteq> set (file_pointers addr decoded)"
proof -
  obtain fs cs where fs: "decoded = Inr fs" "compile_all lib stat errText fs = Inr cs" "ss = sortScenariosByPriority (number (with_default addr cs))"
    using l by (auto simp: loaded_def sbind_Inr)
  have u: "\<forall>s \<in> set fs. uncompiled s" using f by (simp add: named_file_def fresh_file_def fs(1))
  have "list_all2 (\<lambda>s c. validateAndCompile lib stat s = Inr c) fs cs"
    using map_err_Inr [OF fs(2) [unfolded compile_all_def]] by (elim list_all2_mono) (auto split: sum.splits)
  then have "map s_addr cs = map s_addr fs" using u
  proof (induction fs cs rule: list_all2_induct)
    case (Cons s fs c cs)
    then show ?case using validateAndCompile_ok [OF Cons.hyps(1)] by (auto simp: routing_fields_def)
  qed simp
  moreover have "map s_addr (number xs) = map s_addr xs" for xs :: "('a, 'b) Scenario list" by (auto simp: number_simps intro!: nth_equalityI)
  ultimately have a: "map s_addr (number (with_default addr cs)) = map s_addr fs @ (if list_ex (\<lambda>s. s_Name s = defaultScenarioName) cs then [] else [addr])"
    by (simp add: with_default_def)
  have m: "set (map s_addr ss) = set (map s_addr (number (with_default addr cs)))" by (simp add: fs(3))
  have "distinct (map s_addr ss)" using d unfolding fs(3) sortScenarios_simps a by (auto simp: file_pointers_def fs(1))
  moreover have "s_addr ` set ss \<subseteq> set (file_pointers addr decoded)" using m unfolding a by (auto simp: file_pointers_def fs(1) split: if_splits)
  moreover have "registry_ok lib (int L) ss"
    using Load_cases [of L decoded lib stat errText addr "[]" "\<lparr>rg_bodyPattern = undefined, rg_filePath = [], rg_scenarios = []\<rparr>" None] f
      by (simp add: Load_loaded l registry_ok_sound named_file_def)
  ultimately show ?thesis by simp
qed

lemma sim_install:
  assumes "rep X D r" "configured r" "sr_bodyPattern r = rg_bodyPattern l" "registry_ok lib n ss" "distinct (map s_addr ss)" "s_addr ` set ss \<subseteq> U"
  shows "sim lib U n (install path ss r) (l\<lparr>rg_scenarios := ss, rg_filePath := path\<rparr>)"
proof -
  have "rep (set ss) [] (install path ss r)"
    using assms(4,5) sites_not_empty [of lib] by (intro rep_install [OF assms(1)]) (auto simp: registry_ok_def scenario_ok_def)
  then show ?thesis using assms unfolding sim_def by (intro conjI exI [of _ "[]"]) (auto simp: implicit_def List_def install_kept)
qed

lemma sim_mono: "sim lib U n r l \<Longrightarrow> U \<subseteq> V \<Longrightarrow> n \<le> m \<Longrightarrow> sim lib V m r l"
  unfolding sim_def by (blast intro: registry_ok_mono)

lemma sim_load:
  assumes s: "sim lib U n r l" and f: "named_file L decoded" "distinct (file_pointers addr decoded)" "int L \<le> n"
    and e: "Load lib stat errText addr path decoded l = (err, l')"
  shows "\<exists>r'. sharded_Load lib stat errText addr path decoded r = (err, r') \<and> sim lib (U \<union> set (file_pointers addr decoded)) n r' l'"
proof (cases "loaded lib stat errText addr decoded")
  case (Inl err')
  then show ?thesis using e s by (auto simp: Load_loaded sharded_Load_loaded elim: sim_mono)
next
  case (Inr ss)
  note O = loaded_ok [OF Inr f(1,2)]
  obtain D where D: "rep (set (List l) - implicit D) D r" using s by (auto simp: sim_def)
  have "sim lib (U \<union> set (file_pointers addr decoded)) n (install path ss r) (l\<lparr>rg_scenarios := ss, rg_filePath := path\<rparr>)"
    using O s f(3) by (intro sim_install [OF D]) (auto simp: sim_def elim: registry_ok_mono)
  then show ?thesis using e Inr by (auto simp: Load_loaded sharded_Load_loaded)
qed

lemma install_count: "sr_shardCount (install path ss r) = sr_shardCount r"
proof -
  have "sr_shardCount (fold indexScenario ss r) = sr_shardCount r" for r :: "('a, 'b) ShardedScenarioRegistry"
    by (induction ss arbitrary: r) (simp_all add: indexScenario_count)
  then show ?thesis by (simp add: install_def Let_def)
qed

lemma replaceValidated_kept:
  "rep X D nxt \<Longrightarrow> sr_shardCount r = sr_shardCount nxt \<Longrightarrow> rep X D (replaceValidated nxt path r)"
  "configured (replaceValidated nxt path r) = configured r" "sr_bodyPattern (replaceValidated nxt path r) = sr_bodyPattern r"
  "sr_filePath (replaceValidated nxt path r) = path"
  by (simp_all add: replaceValidated_def rep_def)

lemma sim_reload:
  assumes s: "sim lib U n r l" and f: "\<forall>path. named_file L (decode path)" "\<forall>path. distinct (file_pointers addr (decode path))" "int L \<le> n"
    and inj: "inj addrs" and e: "Reload lib stat errText addr decode l = (err, l')"
  shows "\<exists>r'. sharded_Reload lib stat errText addrs addr decode r = (err, r') \<and>
    sim lib (U \<union> (\<Union>path. set (file_pointers addr (decode path)))) n r' l'"
proof -
  let ?path = "sr_filePath r" and ?next = "newShardedScenarioRegistryWithConfig (sr_config r) (sr_bodyPattern r) addrs"
  let ?U = "U \<union> (\<Union>path. set (file_pointers addr (decode path)))"
  have path: "rg_filePath l = ?path" and cfg: "configured r" using s by (auto simp: sim_def)
  have up: "sim lib ?U n r l" by (rule sim_mono [OF s]) auto
  show ?thesis
  proof (cases "?path = [] \<or> isl (loaded lib stat errText addr (decode ?path))")
    case True
    then have "l' = l \<and> sharded_Reload lib stat errText addrs addr decode r = (err, r)"
      using e by (cases "loaded lib stat errText addr (decode ?path)")
        (auto simp: Reload_def sharded_Reload_def Let_def path Load_loaded sharded_Load_loaded)
    then show ?thesis using up by blast
  next
    case False
    then obtain ss where ss: "loaded lib stat errText addr (decode ?path) = Inr ss" by (auto simp: isl_def) (metis sum.exhaust)
    have O: "registry_ok lib (int L) ss" "distinct (map s_addr ss)" "s_addr ` set ss \<subseteq> ?U"
      using loaded_ok [OF ss] f by blast+
    have cnt: "sr_shardCount r = sr_shardCount (install ?path ss ?next)" "configured ?next"
      using cfg by (simp_all add: configured_def install_count newShardedScenarioRegistryWithConfig_def Let_def)
    have sl: "sharded_List (install ?path ss ?next) = ss"
      using sim_List [OF sim_install [OF rep_new [OF inj] cnt(2) _ O(1,2) O(3), where path = ?path and
          l = "\<lparr>rg_bodyPattern = normalized (sr_bodyPattern r), rg_filePath = [], rg_scenarios = []\<rparr>"]]
      by (simp add: List_def newShardedScenarioRegistryWithConfig_def Let_def)
    have "rep (set ss) [] (install ?path ss ?next)"
      using O sites_not_empty [of lib] by (intro rep_install [OF rep_new [OF inj]]) (auto simp: registry_ok_def scenario_ok_def)
    then have R: "rep (set ss) [] (replaceValidated (install ?path ss ?next) ?path r)" by (rule replaceValidated_kept) (rule cnt)
    have "sim lib ?U n (replaceValidated (install ?path ss ?next) ?path r) (l\<lparr>rg_scenarios := ss, rg_filePath := ?path\<rparr>)"
      using s O f(3) R unfolding sim_def
      by (intro conjI exI [of _ "[]"]) (auto simp: replaceValidated_kept List_def implicit_def elim: registry_ok_mono)
    then show ?thesis using e False up
      by (auto simp: Reload_def sharded_Reload_def Let_def path Load_loaded sharded_Load_loaded ss sl sim_List [OF s] List_def split: option.splits)
  qed
qed

lemma sim_step:
  assumes s: "sim lib U n r l" and n: "0 \<le> n" "n \<le> MaxInt64" "int L \<le> n" and f: "op_named L opn" "pointers_distinct opn" "op_pointers opn \<inter> U = {}"
    and inj: "inj addrs" and e: "apply_op lib stat errText opn l = (err, l')"
  shows "\<exists>r'. apply_sharded lib stat errText addrs opn r = (err, r') \<and> sim lib (U \<union> op_pointers opn) (n + 1) r' l'"
proof -
  have up: "sim lib V n r' l' \<Longrightarrow> sim lib V (n + 1) r' l'" for V r' l' by (erule sim_mono) auto
  show ?thesis
  proof (cases opn)
    case (OpLoad path addr decoded)
    then show ?thesis using sim_load [OF s, of L decoded addr stat errText path err l'] f n(3) e by (auto elim: up)
  next
    case (OpReload addr decode)
    then show ?thesis using sim_reload [OF s, of L decode addr addrs stat errText err l'] f n(3) inj e by (auto elim: up)
  next
    case (OpAdd sc)
    then show ?thesis using sim_add [OF s n(1,2), of sc stat errText err l'] f e by auto
  next
    case (OpRemove name)
    then show ?thesis using sim_remove [OF s, of name err l'] e by (auto elim: up)
  qed
qed

lemma sim_run:
  assumes "sim lib U n r l" "0 \<le> n" "n + int (length ops) \<le> MaxInt64" "int L \<le> n" "\<forall>opn \<in> set ops. op_named L opn" "pointers_fresh U ops"
    "inj addrs" "run_steps (apply_op lib stat errText) ops l = (errs, l')"
  shows "\<exists>r' V. run_steps (apply_sharded lib stat errText addrs) ops r = (errs, r') \<and> sim lib V (n + int (length ops)) r' l'"
  using assms
proof (induction ops arbitrary: U n r l errs)
  case (Cons opn ops)
  obtain err l1 where l1: "apply_op lib stat errText opn l = (err, l1)" by fastforce
  obtain errs1 where l2: "run_steps (apply_op lib stat errText) ops l1 = (errs1, l')" "errs = err # errs1"
    using Cons.prems(8) l1 by (auto split: prod.splits)
  obtain r1 where r1: "apply_sharded lib stat errText addrs opn r = (err, r1)" "sim lib (U \<union> op_pointers opn) (n + 1) r1 l1"
    using sim_step [OF Cons.prems(1,2) _ Cons.prems(4) _ _ _ Cons.prems(7) l1] Cons.prems(3,5,6) by auto
  from Cons.IH [OF r1(2) _ _ _ _ _ Cons.prems(7) l2(1)] Cons.prems(2-6)
  obtain r2 V where "run_steps (apply_sharded lib stat errText addrs) ops r1 = (errs1, r2)" "sim lib V (n + 1 + int (length ops)) r2 l'"
    by (auto simp: algebra_simps)
  then show ?case using r1(1) l2(2) by (auto simp: algebra_simps)
qed auto

lemma sim_new:
  assumes "inj addrs" "1 \<le> n"
  shows "sim lib (range addrs) n (newShardedScenarioRegistryWithConfig cfg opts addrs) (NewScenarioRegistryWithBodyPatternOptions opts (addrs 0))"
proof -
  let ?r = "newShardedScenarioRegistryWithConfig cfg opts addrs" and ?l = "NewScenarioRegistryWithBodyPatternOptions opts (addrs 0)"
  let ?D = "map (\<lambda>i. DefaultScenario (addrs i)) [0..<nat (ShardCount (normalize_config cfg))]"
  have n: "0 < nat (ShardCount (normalize_config cfg))"
    by (auto simp: normalize_config_def Let_def MinShardCount_def MaxShardCount_def DefaultShardCount_def)
  then have "implicit ?D = {DefaultScenario (addrs 0)}" by (auto simp: implicit_def)
  moreover have "set (List ?l) = {DefaultScenario (addrs 0)}" by (simp add: List_def NewScenarioRegistryWithBodyPatternOptions_def)
  moreover have "registry_ok lib n (List ?l)"
    using assms(2) DefaultScenario_ok [of lib "addrs 0"] by (simp add: registry_ok_def List_def NewScenarioRegistryWithBodyPatternOptions_def)
  moreover have "normalize_config (normalize_config cfg) = normalize_config cfg"
    by (auto simp: normalize_config_def Let_def MinShardCount_def MaxShardCount_def DefaultShardCount_def MaxCacheSize_def DefaultCacheSize_def)
  ultimately show ?thesis using rep_new [OF assms(1), of cfg opts] unfolding sim_def
    by (intro conjI exI [of _ ?D])
      (auto simp: configured_def newShardedScenarioRegistryWithConfig_def NewScenarioRegistryWithBodyPatternOptions_def Let_def)
qed

end
