(* ===== verification/Sharded_Search.thy ===== *)
theory Sharded_Search
  imports Sharded_Refinement
begin

text \<open>
  Matching in the sharded registry: the index of a shard finds every local scenario that applies, the search returns
  the best scenario of the registry, and the match cache never changes an answer.
\<close>

section \<open>The index finds every scenario that applies\<close>

text \<open>
  The one plain path of a scenario without routes is its own index key when none of the characters is taken for the
  start of a pattern.
\<close>

definition index_safe :: "('re, 'net) Scenario \<Rightarrow> bool" where
  "index_safe s \<longleftrightarrow>
     (case shardSafePath s of
        None \<Rightarrow> True
      | Some p \<Rightarrow> if Routes (c_Match s) = [] then extractPathPrefix p = p
                  else \<forall>(m, e) \<in> set (route_pairs (Routes (c_Match s))). literal e)"

lemma route_entries_literal:
  "\<forall>(m, e) \<in> set pairs. literal e \<Longrightarrow> route_entries n pairs seen entries \<noteq> None"
  by (induction n pairs seen entries rule: route_entries.induct) (auto simp: literal_def Let_def)

lemma index_safe_path:
  assumes "index_safe s" "exactRouteShardEntries n s = None" "shardSafePath s = Some p"
  shows "Routes (c_Match s) = []" "extractPathPrefix p = p"
proof -
  show "Routes (c_Match s) = []"
  proof (rule ccontr)
    assume "Routes (c_Match s) \<noteq> []"
    then show False using assms route_entries_literal [of "route_pairs (Routes (c_Match s))" n "[]" "[]"]
      by (simp add: index_safe_def exactRouteShardEntries_def)
  qed
  then show "extractPathPrefix p = p" using assms by (simp add: index_safe_def)
qed

lemma search_keys:
  assumes "r_Method req \<noteq> []"
  shows "r_Method req @ '':'' @ lookup_path (r_URI req) \<in> set (buildSearchKeys req)" "''*:'' @ lookup_path (r_URI req) \<in> set (buildSearchKeys req)"
  using assms by (simp_all add: buildSearchKeys_def Let_def shardLookupPath_eq)

lemma applying_is_indexed:
  assumes w: "well_compiled lib s" and re: "regexp_literal lib" and loc: "\<not> is_global n s" and safe: "index_safe s"
    and m: "r_Method req \<noteq> []" and v: "route_captures lib s req \<noteq> None"
  shows "\<exists>keys k. (getShardForRequest n req, keys) \<in> set (sites n s) \<and> k \<in> set keys \<and> k \<in> set (buildSearchKeys req)"
proof (cases "exactRouteShardEntries n s")
  case (Some entries)
  then have "Routes (c_Match s) \<noteq> []" by (auto simp: exactRouteShardEntries_def split: if_splits)
  then obtain cr where cr: "s_compiledRoutes s = Some cr" using w by (auto simp: well_compiled_def split: option.splits)
  then obtain ces where ces: "map_of cr (r_Method req) = Some ces" using v by (auto simp: route_captures_def route_endpoints_def split: option.splits)
  then obtain eps where eps: "map_of (Routes (c_Match s)) (r_Method req) = Some eps" "eps \<noteq> []" "compiled_by lib eps ces"
    using well_compiled_route [OF w cr, of "r_Method req"] by auto
  note E = exact_entries [OF w Some eps(1)]
  have "route_captures lib s req = (if lookup_path (r_URI req) \<in> set eps then Some [] else None)"
    using E ces cr by (intro route_captures_literal [OF re eps(3) _ eps(2)]) (auto simp: route_endpoints_def)
  then have "lookup_path (r_URI req) \<in> set eps" using v by (auto split: if_splits)
  from E [OF this] show ?thesis using search_keys(1) [OF m] Some
    by (auto simp: sites_def getShardForRequest_def shardLookupPath_eq)
next
  case None
  then obtain p where p: "shardSafePath s = Some p" using loc by (auto simp: is_global_def scenarioRequiresGlobalPriorityCheck_def)
  note R = index_safe_path(1) [OF safe None p] and pre = index_safe_path(2) [OF safe None p]
  have lit: "Paths (c_Match s) = [p]" "literal p"
    using p by (auto simp: shardSafePath_def Let_def literal_def length_Suc_conv split: if_splits)
  have cr: "s_compiledRoutes s = None" using w R by (auto simp: well_compiled_def split: option.splits)
  have meth: "methodMatches (Methods (c_Match s)) (r_Method req)" using v cr by (auto simp: route_captures_def route_endpoints_def split: if_splits)
  have "compiled_by lib [p] (s_compiledPaths s)" using w lit by (simp add: well_compiled_def)
  then have "route_captures lib s req = (if lookup_path (r_URI req) \<in> set [p] then Some [] else None)"
    using lit meth cr by (intro route_captures_literal [OF re]) (auto simp: route_endpoints_def)
  then have path: "lookup_path (r_URI req) = p" using v by (auto split: if_splits)
  have "p \<noteq> []" using lit(2) by (simp add: literal_def)
  then have keys: "set (buildIndexKeys s) = (\<lambda>meth. meth @ '':'' @ p) ` set (if Methods (c_Match s) = [] then [''*''] else Methods (c_Match s))"
    by (simp add: buildIndexKeys_def lit pre index_prefix_def set_first_occurrences)
  have "\<exists>k \<in> set (buildIndexKeys s). k \<in> set (buildSearchKeys req)"
    using meth search_keys [OF m] unfolding keys path by (auto simp: methodMatches_def split: if_splits)
  moreover have "getShardForScenario n s = getShardForRequest n req"
    by (simp add: getShardForScenario_def p getShardForRequest_def shardLookupPath_eq path)
  ultimately show ?thesis by (auto simp: sites_def None)
qed

section \<open>The fallback\<close>

lemma unique_from_append:
  "unique_from seen d (xs @ ys) =
     (let (us, s1, d1) = unique_from seen d xs; (vs, s2, d2) = unique_from s1 d1 ys in (us @ vs, s2, d2))"
  by (induction xs arbitrary: seen d) (auto simp: Let_def split: prod.splits)

lemma unique_from_subset: "unique_from seen d xs = (us, s1, d1) \<Longrightarrow> set us \<subseteq> set xs"
proof (induction xs arbitrary: seen d us s1 d1)
  case (Cons x xs)
  then show ?case by (fastforce simp: Let_def split: prod.splits if_splits)
qed simp

lemma fallback_calm:
  fixes req :: "('q, 'r, 'b) request"
  assumes ctx: "\<And>p i k. ctx p i k = None" and b: "body_reads io opt req res"
    and v: "\<And>s. s \<in> set (concat (map sh_scenarios shards)) \<Longrightarrow> \<not> isl (verdict lib opt res s req)"
  shows "\<exists>req'. fallback_from lib io ctx opt j i seen d best shards req =
      Some (Inr (fold (better (\<lambda>s. verdict lib opt res s req = Inr True)) (fst (unique_from seen d (concat (map sh_scenarios shards)))) best), req') \<and>
    request_view req' = request_view req \<and> body_reads io opt req' res"
  using b v
proof (induction shards arbitrary: j i seen d best req)
  case (Cons sh shards)
  obtain us s1 d1 where u: "unique_from seen d (sh_scenarios sh) = (us, s1, d1)" by (rule prod_cases3)
  note sub = unique_from_subset [OF u]
  let ?P = "\<lambda>s. verdict lib opt res s req = Inr True"
  have calm: "\<not> isl (verdict lib opt res s req)" if "s \<in> set us" for s using Cons.prems(2) [of s] sub that by auto
  have c: "ctx = (\<lambda>_ _ _. None)" by (intro ext ctx)
  obtain req1 where m: "best_match lib io (\<lambda>_ _. None) opt i best us req = Some (Inr (fold (better ?P) us best), req1)"
    and v1: "request_view req1 = request_view req" "body_reads io opt req1 res"
    using best_match_calm [where ctx = "\<lambda>_ _. None" and lib = lib and i = i and best = best, OF refl Cons.prems(1) calm] by blast
  have V: "verdict lib opt res t req1 = verdict lib opt res t req" for t by (rule view_verdict [OF v1(1)])
  have "\<not> isl (verdict lib opt res t req1)" if "t \<in> set (concat (map sh_scenarios shards))" for t using Cons.prems(2) [of t] that by (simp add: V)
  from Cons.IH [OF v1(2) this, of "Suc j" "i + length us" s1 d1 "fold (better ?P) us best"]
  show ?case using m v1(1) by (auto simp: c V u unique_from_append split: prod.splits)
qed simp

section \<open>The search returns the best scenario\<close>

lemma default_verdict: "verdict lib opt res (DefaultScenario a) req = Inr True"
  by (simp add: verdict_def route_captures_def route_endpoints_def methodMatches_def conditionsMatch_def no_rule_def
      headerRulesMatch_def finish_match_def Let_def)

lemma global_stage:
  fixes req :: "('q, 'r, 'b) request"
  assumes b: "body_reads io (sr_bodyPattern r) req res"
    and v: "\<And>s. s \<in> set (sr_globalScenarios r) \<Longrightarrow> \<not> isl (verdict lib (sr_bodyPattern r) res s req)"
    and best: "is_best (\<lambda>s. verdict lib (sr_bodyPattern r) res s req = Inr True) Y cur"
  shows "\<exists>best req'. applyGlobalPriorityCandidate lib io (\<lambda>_ _ _. None) r req cur = Some (Inr best, req') \<and>
    is_best (\<lambda>s. verdict lib (sr_bodyPattern r) res s req = Inr True) (Y \<union> set (sr_globalScenarios r)) best \<and>
    request_view req' = request_view req \<and> body_reads io (sr_bodyPattern r) req' res"
proof -
  let ?P = "\<lambda>s. verdict lib (sr_bodyPattern r) res s req = Inr True" and ?gs = "sr_globalScenarios r"
  obtain req' where g: "matchGlobalPriorityCandidates lib io (\<lambda>_ _ _. None) r req = Some (Inr (fold (better ?P) ?gs None), req')"
    and v': "request_view req' = request_view req" "body_reads io (sr_bodyPattern r) req' res"
    using best_match_calm [where ctx = "\<lambda>_ _. None" and lib = lib and i = 0 and best = None, OF refl b v]
    unfolding matchGlobalPriorityCandidates_def by blast
  have "is_best ?P (set ?gs) (fold (better ?P) ?gs None)" using is_best_fold [of ?P "{}" None ?gs] by (simp add: is_best_def)
  from is_best_union [OF best this] show ?thesis using g v'
    by (cases "fold (better ?P) ?gs None") (auto simp: applyGlobalPriorityCandidate_def)
qed

text \<open>What \<open>matchInShard\<close> tries: scenarios of the registry, among them every local one that applies.\<close>

definition shard_candidates :: "('re, 'net) ShardedScenarioRegistry \<Rightarrow> ('q, 'r, 'b) request \<Rightarrow> ('re, 'net) Scenario list" where
  "shard_candidates r req =
     uniqueScenarioPointers (concat (map (\<lambda>key. assoc_list key (sh_index (sr_shards r ! getShardForRequest (sr_shardCount r) req)))
       (buildSearchKeys req)))"

lemma shard_candidates_set:
  assumes r: "rep X D r" and w: "\<forall>s \<in> X. well_compiled lib s \<and> index_safe s" and re: "regexp_literal lib" and m: "r_Method req \<noteq> []"
  shows "set (shard_candidates r req) \<subseteq> X"
    "\<And>t. t \<in> X \<Longrightarrow> \<not> is_global (sr_shardCount r) t \<Longrightarrow> route_captures lib t req \<noteq> None \<Longrightarrow> t \<in> set (shard_candidates r req)"
proof -
  let ?n = "sr_shardCount r" and ?sh = "sr_shards r ! getShardForRequest (sr_shardCount r) req"
  let ?idx = "concat (map (\<lambda>key. assoc_list key (sh_index ?sh)) (buildSearchKeys req))"
  have N: "1 \<le> ?n" "?n \<le> 256" "length (sr_shards r) = nat ?n" and ok: "shards_ok X D (sr_shards r)" using r by (auto simp: rep_def)
  have i: "getShardForRequest ?n req < length (sr_shards r)" using hashString_less [OF N(1,2)] N(3) by (simp add: getShardForRequest_def)
  have "set (assoc_list k (sh_index ?sh)) \<subseteq> X" for k using ok i unfolding shards_ok_def by blast
  then have idx: "set ?idx \<subseteq> X" by auto
  then have "inj_on s_addr (set ?idx)" "inj_on s_Name (set ?idx)" using r by (auto simp: rep_def intro: inj_on_subset)
  then have C: "set (shard_candidates r req) = set ?idx" unfolding shard_candidates_def by (rule uniqueScenarioPointers_named)
  show "set (shard_candidates r req) \<subseteq> X" using C idx by simp
  show "t \<in> set (shard_candidates r req)" if t: "t \<in> X" "\<not> is_global ?n t" "route_captures lib t req \<noteq> None" for t
  proof -
    obtain keys k where "(getShardForRequest ?n req, keys) \<in> set (sites ?n t)" "k \<in> set keys" "k \<in> set (buildSearchKeys req)"
      using applying_is_indexed [OF _ re t(2) _ m t(3)] w t(1) by blast
    from rep_site(3) [OF r t(1,2) this(1,2)] this(3) show ?thesis unfolding C by auto
  qed
qed

text \<open>A request whose matching cannot fail in this registry.\<close>

definition calm_in ::
  "('re, 'net, 'ip) golib \<Rightarrow> 'r body_io \<Rightarrow> BodyPatternOptions \<Rightarrow> string option \<times> go_error option \<Rightarrow> ('re, 'net) Scenario set \<Rightarrow> ('q, 'r, 'b) request \<Rightarrow> bool" where
  "calm_in lib io opt res X req \<longleftrightarrow> body_reads io opt req res \<and> (\<forall>s \<in> X. \<not> isl (verdict lib opt res s req))"

lemma is_best_from_none: "is_best P (set ss) (fold (better P) ss None)"
  using is_best_fold [of P "{}" None ss] by (simp add: is_best_def)

lemma calm_default:
  assumes "rep X D r" "calm_in lib io opt res X req" "s \<in> X \<union> set D"
  shows "\<not> isl (verdict lib opt res s req)"
proof (cases "s \<in> X")
  case False
  then have "s \<in> set D" "D \<noteq> []" using assms(3) by auto
  then obtain a where "s = DefaultScenario a" using rep_default [OF assms(1)] by blast
  then show ?thesis by (simp add: default_verdict)
qed (use assms(2) in \<open>simp add: calm_in_def\<close>)

lemma fallback_stage:
  fixes req :: "('q, 'r, 'b) request"
  assumes r: "rep X D r" and c: "calm_in lib io (sr_bodyPattern r) res X req"
  shows "\<exists>cur req'. fallbackMatch lib io (\<lambda>_ _ _. None) r req = Some (Inr cur, req') \<and>
    is_best (\<lambda>s. verdict lib (sr_bodyPattern r) res s req = Inr True) (set (uniqueScenarioPointers (concat (map sh_scenarios (sr_shards r))))) cur \<and>
    request_view req' = request_view req \<and> calm_in lib io (sr_bodyPattern r) res X req'"
proof -
  let ?S = "concat (map sh_scenarios (sr_shards r))" and ?opt = "sr_bodyPattern r"
  have S: "set ?S \<subseteq> X \<union> set D" using rep_stored(1) [OF r] by (auto simp: all_stored_def)
  have calm: "\<not> isl (verdict lib ?opt res t req)" if "t \<in> set ?S" for t using calm_default [OF r c] S that by blast
  have b: "body_reads io ?opt req res" using c by (simp add: calm_in_def)
  obtain req' where f: "fallbackMatch lib io (\<lambda>_ _ _. None) r req =
      Some (Inr (fold (better (\<lambda>s. verdict lib ?opt res s req = Inr True)) (uniqueScenarioPointers ?S) None), req')"
    and v: "request_view req' = request_view req" "body_reads io ?opt req' res"
    using fallback_calm [where ctx = "\<lambda>_ _ _. None" and j = 0 and i = 0 and seen = "[]" and d = False and best = None, OF refl b calm]
    unfolding fallbackMatch_def uniqueScenarioPointers_def by blast
  have "calm_in lib io ?opt res X req'" using c v by (simp add: calm_in_def view_verdict [OF v(1)])
  then show ?thesis using f v is_best_from_none by blast
qed

text \<open>What the shard and the global scenarios cover together: whatever they miss ranks behind their best.\<close>

lemma local_and_global_best:
  assumes r: "rep X D r" and prio: "D \<noteq> [] \<Longrightarrow> \<forall>s \<in> X. 0 \<le> s_Priority s"
    and C: "C \<subseteq> X" "\<And>t. t \<in> X \<Longrightarrow> \<not> is_global (sr_shardCount r) t \<Longrightarrow> P t \<Longrightarrow> t \<in> C"
    and best: "is_best P (C \<union> set (sr_globalScenarios r)) (Some s)"
  shows "is_best P (X \<union> implicit D) (Some s)"
proof (rule is_best_extend [OF best])
  have gX: "set (sr_globalScenarios r) \<subseteq> X" using r by (simp add: rep_def)
  then show "C \<union> set (sr_globalScenarios r) \<subseteq> X \<union> implicit D" using C(1) by blast
  have globals: "t \<in> set (sr_globalScenarios r)" if "t \<in> X" "is_global (sr_shardCount r) t" for t using r that by (auto simp: rep_def placed_def)
  have "s \<in> X" using best gX C(1) by (auto simp: is_best_def)
  show "t \<in> C \<union> set (sr_globalScenarios r) \<or> rank s \<le> rank t" if t: "t \<in> X \<union> implicit D" "P t" for t
  proof (cases "t \<in> X")
    case True
    then show ?thesis using C(2) [OF True] globals [OF True] t(2) by blast
  next
    case False
    then have D: "t \<in> set D" "D \<noteq> []" using t(1) by (auto simp: implicit_def split: if_splits)
    then obtain a where "t = DefaultScenario a" using rep_default [OF r] by blast
    then show ?thesis using prio [OF D(2)] \<open>s \<in> X\<close> by (auto simp: rank_def)
  qed
qed

lemma search_best:
  fixes req :: "('q, 'r, 'b) request"
  assumes r: "rep X D r" and w: "\<forall>s \<in> X. well_compiled lib s \<and> index_safe s" and re: "regexp_literal lib"
    and prio: "D \<noteq> [] \<Longrightarrow> \<forall>s \<in> X. 0 \<le> s_Priority s" and m: "r_Method req \<noteq> []" and c: "calm_in lib io (sr_bodyPattern r) res X req"
  shows "\<exists>fb best req'. search lib io (\<lambda>_ _ _. None) r req = (fb, Some (Inr best, req')) \<and>
    is_best (\<lambda>s. verdict lib (sr_bodyPattern r) res s req = Inr True) (X \<union> implicit D) best \<and> request_view req' = request_view req"
proof -
  let ?opt = "sr_bodyPattern r" and ?P = "\<lambda>s. verdict lib (sr_bodyPattern r) res s req = Inr True" and ?C = "shard_candidates r req"
  let ?gs = "sr_globalScenarios r" and ?U = "uniqueScenarioPointers (concat (map sh_scenarios (sr_shards r)))"
  have gX: "set ?gs \<subseteq> X" using r by (simp add: rep_def)
  note C = shard_candidates_set [OF r w re m]
  have CP: "t \<in> set ?C" if "t \<in> X" "\<not> is_global (sr_shardCount r) t" "?P t" for t
    using that by (intro C(2)) (auto simp: verdict_def split: if_splits)
  have b: "body_reads io ?opt req res" and calm: "\<And>t. t \<in> set ?C \<Longrightarrow> \<not> isl (verdict lib ?opt res t req)" using c C(1) by (auto simp: calm_in_def)
  have gv: "\<not> isl (verdict lib ?opt res t req)" if "t \<in> set ?gs" for t using c gX that by (auto simp: calm_in_def)
  obtain req1 where m1: "matchInShard lib io (\<lambda>_ _. None) ?opt (sr_shards r ! getShardForRequest (sr_shardCount r) req) req =
      Some (Inr (fold (better ?P) ?C None), req1)" and v1: "request_view req1 = request_view req" "body_reads io ?opt req1 res"
    using best_match_calm [where ctx = "\<lambda>_ _. None" and lib = lib and i = 0 and best = None and ss = ?C, OF refl b calm]
    unfolding matchInShard_def shard_candidates_def by blast
  have V: "verdict lib ?opt res t req1 = verdict lib ?opt res t req" for t by (rule view_verdict [OF v1(1)])
  show ?thesis
  proof (cases "fold (better ?P) ?C None")
    case (Some s)
    have b1: "is_best ?P (set ?C) (Some s)" using is_best_from_none [of ?P ?C] Some by simp
    obtain best req2 where g: "applyGlobalPriorityCandidate lib io (\<lambda>_ _ _. None) r req1 (Some s) = Some (Inr best, req2)"
      "is_best ?P (set ?C \<union> set ?gs) best" "request_view req2 = request_view req1"
      using global_stage [OF v1(2), of lib, unfolded V, OF gv b1] by blast
    then obtain s' where s': "best = Some s'" using b1 by (cases best) (auto simp: is_best_def)
    have "is_best ?P (X \<union> implicit D) (Some s')" by (rule local_and_global_best [OF r prio C(1) CP g(2) [unfolded s']])
    then show ?thesis using m1 Some g v1(1) by (auto simp: search_def matchShardedAndFallback_def s')
  next
    case None
    have c1: "calm_in lib io ?opt res X req1" using c v1 by (simp add: calm_in_def V)
    obtain cur req2 where f: "fallbackMatch lib io (\<lambda>_ _ _. None) r req1 = Some (Inr cur, req2)" "is_best ?P (set ?U) cur"
      "request_view req2 = request_view req1" "calm_in lib io ?opt res X req2" using fallback_stage [OF r c1, unfolded V] by blast
    have V2: "verdict lib ?opt res t req2 = verdict lib ?opt res t req" for t using view_verdict [OF f(3)] V by metis
    have b2: "body_reads io ?opt req2 res" using f(4) by (simp add: calm_in_def)
    obtain best req3 where g: "applyGlobalPriorityCandidate lib io (\<lambda>_ _ _. None) r req2 cur = Some (Inr best, req3)"
      "is_best ?P (set ?U \<union> set ?gs) best" "request_view req3 = request_view req2"
      using global_stage [OF b2, of lib, unfolded V2, OF gv f(2)] by blast
    have "set ?U = (set (concat (map sh_scenarios (sr_shards r))) \<inter> X) \<union> implicit D" using rep_unique [OF r, of "[]"] by simp
    moreover have "X \<subseteq> set (concat (map sh_scenarios (sr_shards r))) \<union> set ?gs" using rep_stored(2) [OF r] by (auto simp: all_stored_def)
    ultimately have "set ?U \<union> set ?gs = X \<union> implicit D" using gX by blast
    then have "is_best ?P (X \<union> implicit D) best" using g(2) by simp
    then show ?thesis using m1 None f g v1(1) by (auto simp: search_def matchShardedAndFallback_def)
  qed
qed

section \<open>The match cache\<close>

text \<open>
  What a cached answer may depend on: the fields of the cache key.  A request is clean when none of them contains the
  separator, so that the key determines them, and when an embedded request has a URI.
\<close>

definition http_method :: "('q, 'r, 'b) request \<Rightarrow> string" where
  "http_method req = (case HTTPRequest req of None \<Rightarrow> [] | Some m \<Rightarrow> m_Method m)"

definition http_uri :: "('q, 'r, 'b) request \<Rightarrow> string" where
  "http_uri req = (case HTTPRequest req of None \<Rightarrow> [] | Some m \<Rightarrow> m_URI m)"

definition key_clean :: "('q, 'r, 'b) request \<Rightarrow> bool" where
  "key_clean req \<longleftrightarrow> r_Method req \<noteq> [] \<and> CHR ''|'' \<notin> set (r_Method req) \<union> set (r_URI req) \<union> set (http_method req) \<union> set (http_uri req) \<and>
     (\<forall>m \<in> set_option (HTTPRequest req). m_URI m \<noteq> [])"

definition static_applies :: "('re, 'net, 'ip) golib \<Rightarrow> string \<Rightarrow> string \<Rightarrow> string \<Rightarrow> string \<Rightarrow> ('re, 'net) Scenario \<Rightarrow> bool" where
  "static_applies lib meth uri hmeth huri s \<longleftrightarrow>
     route_captures lib s (zero_request\<lparr>r_Method := meth, r_URI := uri\<rparr> :: (unit, unit, unit) request) \<noteq> None \<and>
     (HTTPMethod (c_Match s) = [] \<or> hmeth = HTTPMethod (c_Match s)) \<and>
     (HTTPURL (c_Match s) = [] \<or> huri \<noteq> [] \<and>
        (case c_compiledHTTPURL s of Some re \<Rightarrow> re_MatchString lib re huri | None \<Rightarrow> huri = HTTPURL (c_Match s)))"

lemma static_verdict:
  assumes s: "\<not> scenarioDisablesMatchCache s" "well_compiled lib s" and k: "key_clean req"
  shows "verdict lib opt res s req = Inr (static_applies lib (r_Method req) (r_URI req) (http_method req) (http_uri req) s)"
proof -
  have st: "mr_Headers (c_Match s) = []" "HTTPHeaders (c_Match s) = []" "HTTPHeaderContains (c_Match s) = []" "mr_ClientIP (c_Match s) = []"
    "s_Branches s = []" "c_compiledHeaderLists s = []" "s_compiledCIDRs s = []" "s_compiledBody s = None"
    using s by (auto simp: scenarioDisablesMatchCache_def hasDynamicMatchRule_def well_compiled_def)
  have "route_captures lib s (zero_request\<lparr>r_Method := r_Method req, r_URI := r_URI req\<rparr> :: (unit, unit, unit) request) = route_captures lib s req"
    by (simp add: route_captures_def cong: option.case_cong if_cong)
  moreover have "conditionsMatch lib s req \<longleftrightarrow> (HTTPMethod (c_Match s) = [] \<or> http_method req = HTTPMethod (c_Match s)) \<and>
     (HTTPURL (c_Match s) = [] \<or> http_uri req \<noteq> [] \<and>
        (case c_compiledHTTPURL s of Some re \<Rightarrow> re_MatchString lib re (http_uri req) | None \<Rightarrow> http_uri req = HTTPURL (c_Match s)))"
    using k by (cases "HTTPRequest req") (auto simp: conditionsMatch_def st headerRulesMatch_def http_method_def http_uri_def key_clean_def cong: option.case_cong)
  moreover have "fst (finish_match lib s req)" by (simp add: finish_match_def st Let_def)
  ultimately show ?thesis by (simp add: verdict_def st static_applies_def)
qed

lemma split_at_bar: "CHR ''|'' \<notin> set a \<Longrightarrow> CHR ''|'' \<notin> set b \<Longrightarrow> a @ CHR ''|'' # x = b @ CHR ''|'' # y \<Longrightarrow> a = b \<and> x = y"
proof (induction a arbitrary: b)
  case Nil
  then show ?case by (cases b) auto
next
  case (Cons c a)
  then show ?case by (cases b) auto
qed

lemma key_fields_inj:
  assumes "CHR ''|'' \<notin> set a \<union> set b \<union> set c \<union> set d" "CHR ''|'' \<notin> set a' \<union> set b' \<union> set c' \<union> set d'"
    and e: "a @ CHR ''|'' # b @ CHR ''|'' # c @ CHR ''|'' # d @ CHR ''|'' # x = a' @ CHR ''|'' # b' @ CHR ''|'' # c' @ CHR ''|'' # d' @ CHR ''|'' # x'"
  shows "a = a' \<and> b = b' \<and> c = c' \<and> d = d'"
proof -
  have n: "CHR ''|'' \<notin> set a" "CHR ''|'' \<notin> set b" "CHR ''|'' \<notin> set c" "CHR ''|'' \<notin> set d"
    "CHR ''|'' \<notin> set a'" "CHR ''|'' \<notin> set b'" "CHR ''|'' \<notin> set c'" "CHR ''|'' \<notin> set d'" using assms(1,2) by simp_all
  note 1 = split_at_bar [OF n(1,5) e]
  note 2 = split_at_bar [OF n(2,6) conjunct2 [OF 1]]
  note 3 = split_at_bar [OF n(3,7) conjunct2 [OF 2]]
  note 4 = split_at_bar [OF n(4,8) conjunct2 [OF 3]]
  show ?thesis using 1 2 3 4 by simp
qed

lemma buildCacheKey_fields:
  "buildCacheKey req = r_Method req @ CHR ''|'' # r_URI req @ CHR ''|'' # http_method req @ CHR ''|'' # http_uri req @ CHR ''|'' #
     (if content_type (HTTPResponse req) = [] then content_type (HTTPRequest req) else content_type (HTTPResponse req))"
  by (simp add: buildCacheKey_def http_method_def http_uri_def Let_def)

text \<open>An entry is right when its scenario is the best one for every clean request with the entry's key.\<close>

definition entry_right :: "('re, 'net, 'ip) golib \<Rightarrow> ('re, 'net) Scenario set \<Rightarrow> string \<Rightarrow> ('re, 'net) Scenario \<Rightarrow> bool" where
  "entry_right lib X k s \<longleftrightarrow>
     (\<forall>meth uri hmeth huri ct. CHR ''|'' \<notin> set meth \<union> set uri \<union> set hmeth \<union> set huri \<and>
        k = meth @ CHR ''|'' # uri @ CHR ''|'' # hmeth @ CHR ''|'' # huri @ CHR ''|'' # ct \<longrightarrow>
        is_best (static_applies lib meth uri hmeth huri) X (Some s))"

lemma entry_rightI:
  assumes "key_clean req" "is_best (static_applies lib (r_Method req) (r_URI req) (http_method req) (http_uri req)) X (Some s)"
  shows "entry_right lib X (buildCacheKey req) s"
  unfolding entry_right_def
proof (intro allI impI)
  fix meth uri hmeth huri ct
  assume a: "CHR ''|'' \<notin> set meth \<union> set uri \<union> set hmeth \<union> set huri \<and>
    buildCacheKey req = meth @ CHR ''|'' # uri @ CHR ''|'' # hmeth @ CHR ''|'' # huri @ CHR ''|'' # ct"
  have c: "CHR ''|'' \<notin> set (r_Method req) \<union> set (r_URI req) \<union> set (http_method req) \<union> set (http_uri req)" using assms(1) by (simp add: key_clean_def)
  have "meth = r_Method req \<and> uri = r_URI req \<and> hmeth = http_method req \<and> huri = http_uri req"
    by (rule key_fields_inj [OF conjunct1 [OF a] c conjunct2 [OF a, unfolded buildCacheKey_fields, symmetric]])
  then show "is_best (static_applies lib meth uri hmeth huri) X (Some s)" using assms(2) by simp
qed

lemma entry_rightD:
  assumes "entry_right lib X (buildCacheKey req) s" "key_clean req"
  shows "is_best (static_applies lib (r_Method req) (r_URI req) (http_method req) (http_uri req)) X (Some s)"
proof -
  let ?ct = "if content_type (HTTPResponse req) = [] then content_type (HTTPRequest req) else content_type (HTTPResponse req)"
  have "CHR ''|'' \<notin> set (r_Method req) \<union> set (r_URI req) \<union> set (http_method req) \<union> set (http_uri req)" using assms(2) by (simp add: key_clean_def)
  then show ?thesis
    using assms(1) [unfolded entry_right_def, THEN spec [of _ "r_Method req"], THEN spec [of _ "r_URI req"], THEN spec [of _ "http_method req"],
        THEN spec [of _ "http_uri req"], THEN spec [of _ ?ct]] by (simp add: buildCacheKey_fields)
qed

definition cache_right :: "('re, 'net, 'ip) golib \<Rightarrow> ('re, 'net) Scenario set \<Rightarrow> ('re, 'net) Scenario ScenarioMatchCache \<Rightarrow> bool" where
  "cache_right lib X c \<longleftrightarrow>
     (\<exists>as. cache_wf c as \<and> 1 \<le> mc_cap c \<and> (\<forall>e \<in> set (view c as). entry_right lib X (fst e) (fst (snd e))))"

lemma spec_get_mem:
  assumes "spec_get k g l = (found, l')"
  shows "set l' \<subseteq> set l \<and> (\<forall>s. found = Some s \<longrightarrow> (\<exists>g'. (k, s, g') \<in> set l))"
proof (cases "map_of l k")
  case (Some e)
  obtain v g' where e: "e = (v, g')" by fastforce
  have "(k, v, g') \<in> set l" using Some e by (simp add: map_of_SomeD)
  then show ?thesis using assms Some e by (auto simp: spec_get_def without_def split: if_splits)
qed (use assms in \<open>simp add: spec_get_def\<close>)

lemma spec_put_mem: "set (spec_put cap k s g l) \<subseteq> insert (k, s, g) (set l)"
  by (auto simp: spec_put_def without_def dest: in_set_butlastD split: if_splits)

lemma cache_right_get:
  assumes "cache_right lib X c" "GetGeneration k g c = (found, c')"
  shows "cache_right lib X c' \<and> (\<forall>s. found = Some s \<longrightarrow> entry_right lib X k s)"
proof -
  obtain as where as: "cache_wf c as" "1 \<le> mc_cap c" "\<forall>e \<in> set (view c as). entry_right lib X (fst e) (fst (snd e))" using assms by (auto simp: cache_right_def)
  obtain as' where as': "cache_wf c' as'" "spec_get k g (view c as) = (found, view c' as')" "mc_cap c' = mc_cap c"
    using GetGeneration_refines [OF as(1), of k g] assms(2) by auto
  have "set (view c' as') \<subseteq> set (view c as) \<and> (\<forall>s. found = Some s \<longrightarrow> (\<exists>g'. (k, s, g') \<in> set (view c as)))"
    using spec_get_mem [OF as'(2)] .
  then show ?thesis using as' as(2,3) unfolding cache_right_def by fastforce
qed

lemma cache_right_put:
  assumes "cache_right lib X c" "entry_right lib X k s"
  shows "cache_right lib X (PutGeneration now k s g c)"
proof -
  obtain as where as: "cache_wf c as" "1 \<le> mc_cap c" "\<forall>e \<in> set (view c as). entry_right lib X (fst e) (fst (snd e))" using assms by (auto simp: cache_right_def)
  obtain as' where as': "cache_wf (PutGeneration now k s g c) as'"
    "view (PutGeneration now k s g c) as' = spec_put (mc_cap c) k s g (view c as)" "mc_cap (PutGeneration now k s g c) = mc_cap c"
    using PutGeneration_refines [OF as(1,2), of now k s g] by auto
  have "\<forall>e \<in> set (view (PutGeneration now k s g c) as'). entry_right lib X (fst e) (fst (snd e))"
    using spec_put_mem [of "mc_cap c" k s g "view c as"] as(3) assms(2) unfolding as'(2) by fastforce
  then show ?thesis unfolding cache_right_def by (intro exI [of _ as']) (simp add: as'(1,3) as(2))
qed

lemma cache_right_clear: "cache_right lib X c \<Longrightarrow> cache_right lib Y (cache_Clear c)"
proof -
  assume "cache_right lib X c"
  then obtain as where "cache_wf c as" "1 \<le> mc_cap c" by (auto simp: cache_right_def)
  then show ?thesis using cache_Clear_refines [of c as] unfolding cache_right_def by (intro exI [of _ "[]"]) (simp add: view_def)
qed

lemma cache_right_new: "1 \<le> n \<Longrightarrow> n < MaxInt64 \<Longrightarrow> cache_right lib X (newScenarioMatchCache n)"
  unfolding cache_right_def
  by (intro exI [of _ "[]"]) (simp add: newScenarioMatchCache_wf view_def, simp add: newScenarioMatchCache_def)

section \<open>Matching with the cache\<close>

definition coherent :: "('re, 'net, 'ip) golib \<Rightarrow> ('re, 'net) ShardedScenarioRegistry \<Rightarrow> bool" where
  "coherent lib r \<longleftrightarrow>
     (\<not> sr_cacheDisabled r \<longrightarrow> (\<forall>s \<in> set (sharded_List r). \<not> scenarioDisablesMatchCache s)) \<and>
     (\<forall>c \<in> set_option (sr_cache r). cache_right lib (set (sharded_List r)) c) \<and> even (sr_generation r)"

lemma count_fields [simp]:
  "sr_cache (count f r) = sr_cache r" "sr_cacheDisabled (count f r) = sr_cacheDisabled r" "sr_generation (count f r) = sr_generation r"
  "sharded_List (count f r) = sharded_List r" "sr_bodyPattern (count f r) = sr_bodyPattern r" "sr_shardCount (count f r) = sr_shardCount r"
  by (simp_all add: count_def)

lemma sim_kept [simp]:
  "sim lib U n (count f r) l = sim lib U n r l" "sim lib U n (r\<lparr>sr_cache := c\<rparr>) l = sim lib U n r l" "sim lib U n (bump r) l = sim lib U n r l"
  by (simp_all add: sim_def count_def configured_def)

lemma coherent_count [simp]: "coherent lib (count f r) = coherent lib r"
  by (simp add: coherent_def)

lemma coherent_cache:
  assumes "coherent lib r" "cache_right lib (set (sharded_List r)) c"
  shows "coherent lib (r\<lparr>sr_cache := Some c\<rparr>)"
  using assms by (simp add: coherent_def)

lemma key_view:
  assumes "request_view req' = request_view req"
  shows "buildCacheKey req' = buildCacheKey req" "http_method req' = http_method req" "http_uri req' = http_uri req"
proof -
  have *: "m_Header y = m_Header x \<and> m_Method y = m_Method x \<and> m_URI y = m_URI x" if "message_view y = message_view x" for x y :: "('b, 'c) http_message"
    using that by (simp add: message_view_def)
  note v = request_view_D [OF assms]
  have q: "map_option message_view (HTTPRequest req') = map_option message_view (HTTPRequest req)"
    "map_option message_view (HTTPResponse req') = map_option message_view (HTTPResponse req)" using v by simp_all
  show h: "http_method req' = http_method req" "http_uri req' = http_uri req"
    using q(1) by (auto simp: http_method_def http_uri_def map_option_case message_view_def split: option.splits)
  have "content_type (HTTPRequest req') = content_type (HTTPRequest req)" "content_type (HTTPResponse req') = content_type (HTTPResponse req)"
    using q by (auto simp: content_type_def message_header_def map_option_case message_view_def split: option.splits)
  then show "buildCacheKey req' = buildCacheKey req" using v h by (simp add: buildCacheKey_fields)
qed

text \<open>The conditions on the scenarios under which the index is exact.\<close>

definition scenario_safe :: "('re, 'net) Scenario \<Rightarrow> bool" where
  "scenario_safe s \<longleftrightarrow> index_safe s \<and> (s_Name s \<noteq> defaultScenarioName \<longrightarrow> 0 \<le> s_Priority s)"

definition all_safe :: "('re, 'net) Scenario set \<Rightarrow> bool" where
  "all_safe X \<longleftrightarrow> (\<forall>s \<in> X. scenario_safe s)"

lemma sim_search:
  fixes req :: "('q, 'r, 'b) request"
  assumes s: "sim lib U n r l" and safe: "all_safe (set (List l))" and re: "regexp_literal lib" and m: "r_Method req \<noteq> []"
    and c: "calm_in lib io (rg_bodyPattern l) res (set (List l)) req"
  shows "\<exists>fb best req'. search lib io (\<lambda>_ _ _. None) r req = (fb, Some (Inr best, req')) \<and>
    is_best (\<lambda>s. verdict lib (rg_bodyPattern l) res s req = Inr True) (set (List l)) best \<and> request_view req' = request_view req"
proof -
  obtain D where D: "rep (set (List l) - implicit D) D r" "implicit D \<subseteq> set (List l)" using s by (auto simp: sim_def)
  have opt: "sr_bodyPattern r = rg_bodyPattern l" and ok: "registry_ok lib n (List l)" using s by (auto simp: sim_def)
  have w: "\<forall>s \<in> set (List l) - implicit D. well_compiled lib s \<and> index_safe s"
    using ok safe by (auto simp: registry_ok_def scenario_ok_def all_safe_def scenario_safe_def)
  have p: "\<forall>s \<in> set (List l) - implicit D. 0 \<le> s_Priority s" if "D \<noteq> []"
    using that D(1) safe by (auto simp: rep_def all_safe_def scenario_safe_def)
  have c': "calm_in lib io (sr_bodyPattern r) res (set (List l) - implicit D) req" using c by (auto simp: calm_in_def opt)
  have "set (List l) - implicit D \<union> implicit D = set (List l)" using D(2) by auto
  then show ?thesis using search_best [OF D(1) w re p m c'] unfolding opt by auto
qed

lemma static_best:
  assumes "\<forall>s \<in> X. \<not> scenarioDisablesMatchCache s \<and> well_compiled lib s" "key_clean req"
  shows "is_best (\<lambda>s. verdict lib opt res s req = Inr True) X b \<longleftrightarrow>
    is_best (static_applies lib (r_Method req) (r_URI req) (http_method req) (http_uri req)) X b"
proof -
  have "verdict lib opt res s req = Inr True \<longleftrightarrow> static_applies lib (r_Method req) (r_URI req) (http_method req) (http_uri req) s" if "s \<in> X" for s
    using static_verdict [of s lib req opt res] assms that by auto
  then show ?thesis by (cases b) (auto simp: is_best_def)
qed

text \<open>The two halves of \<open>Match\<close>: the look into the cache, and the search whose answer is stored.\<close>

lemma cached_step:
  assumes s: "sim lib U n r l" and coh: "coherent lib r" and k: "key_clean req"
    and e: "cachedMatch req (matchCacheEnabled r) r = (cached, r')"
  shows "sim lib U n r' l \<and> coherent lib r' \<and> matchCacheEnabled r' = matchCacheEnabled r \<and> sr_generation r' = sr_generation r \<and>
    (\<forall>s. cached = Some s \<longrightarrow> is_best (\<lambda>t. verdict lib (rg_bodyPattern l) res t req = Inr True) (set (List l)) (Some s))"
proof (cases "matchCacheEnabled r")
  case True
  then obtain c where c: "sr_cache r = Some c" "\<not> sr_cacheDisabled r" by (auto simp: matchCacheEnabled_def)
  obtain c' where g: "GetGeneration (buildCacheKey req) (sr_generation r) c = (cached, c')"
    and r': "\<exists>f. r' = count f (r\<lparr>sr_cache := Some c'\<rparr>)"
    using e True c by (auto simp: cachedMatch_def Let_def split: prod.splits option.splits)
  have right: "cache_right lib (set (sharded_List r)) c" using coh c by (simp add: coherent_def)
  note G = cache_right_get [OF right g]
  have "\<forall>s \<in> set (List l). \<not> scenarioDisablesMatchCache s \<and> well_compiled lib s"
    using coh c(2) s sim_List [OF s] by (auto simp: coherent_def sim_def registry_ok_def scenario_ok_def)
  then have "is_best (\<lambda>t. verdict lib (rg_bodyPattern l) res t req = Inr True) (set (List l)) (Some s)" if "cached = Some s" for s
    using static_best [OF _ k] entry_rightD [OF _ k] G that sim_List [OF s] by metis
  then show ?thesis using r' s coherent_cache [OF coh, of c'] G c by (auto simp: matchCacheEnabled_def)
next
  case False
  then show ?thesis using e s coh by (simp add: cachedMatch_def)
qed

lemma store_step:
  assumes s: "sim lib U n r l" and coh: "coherent lib r" and k: "key_clean req" and v: "request_view req' = request_view req"
    and best: "is_best (\<lambda>t. verdict lib (rg_bodyPattern l) res t req = Inr True) (set (List l)) (Some b)"
  shows "sim lib U n (storeMatchCache now req' b (matchCacheEnabled r) g r) l \<and> coherent lib (storeMatchCache now req' b (matchCacheEnabled r) g r)"
proof (cases "matchCacheEnabled r \<and> sr_generation r = g")
  case True
  then obtain c where c: "sr_cache r = Some c" "\<not> sr_cacheDisabled r" by (auto simp: matchCacheEnabled_def)
  have "\<forall>s \<in> set (List l). \<not> scenarioDisablesMatchCache s \<and> well_compiled lib s"
    using coh c(2) s sim_List [OF s] by (auto simp: coherent_def sim_def registry_ok_def scenario_ok_def)
  from static_best [OF this k] best
  have "is_best (static_applies lib (r_Method req) (r_URI req) (http_method req) (http_uri req)) (set (sharded_List r)) (Some b)"
    using sim_List [OF s] by metis
  from entry_rightI [OF k this]
  have "entry_right lib (set (sharded_List r)) (buildCacheKey req') b" using key_view(1) [OF v] by simp
  moreover have "cache_right lib (set (sharded_List r)) c" using coh c by (simp add: coherent_def)
  ultimately have "coherent lib (r\<lparr>sr_cache := Some (PutGeneration now (buildCacheKey req') b g c)\<rparr>)"
    by (intro coherent_cache [OF coh] cache_right_put)
  then show ?thesis using s True c by (simp add: storeMatchCache_def)
next
  case False
  then show ?thesis using s coh by (auto simp: storeMatchCache_def)
qed

lemma sharded_Match_best:
  fixes req :: "('q, 'r, 'b) request"
  assumes s: "sim lib U n r l" and coh: "coherent lib r" and safe: "all_safe (set (List l))" and re: "regexp_literal lib"
    and k: "key_clean req" and c: "calm_in lib io (rg_bodyPattern l) res (set (List l)) req"
  shows "\<exists>best req' r'. sharded_Match lib io (\<lambda>_ _ _. None) now addr r (Some req) =
      Some (Inr (case best of None \<Rightarrow> DefaultScenario addr | Some b \<Rightarrow> b), Some req', r') \<and>
    is_best (\<lambda>t. verdict lib (rg_bodyPattern l) res t req = Inr True) (set (List l)) best \<and> request_view req' = request_view req \<and>
    sim lib U n r' l \<and> coherent lib r'"
proof -
  let ?r1 = "count totalMatches_update r" and ?P = "\<lambda>t. verdict lib (rg_bodyPattern l) res t req = Inr True"
  have gen: "stableGeneration ?r1 = Some (sr_generation r)" using coh by (simp add: stableGeneration_def coherent_def and_one_eq even_iff_mod_2_eq_zero)
  obtain cached r2 where r2: "cachedMatch req (matchCacheEnabled ?r1) ?r1 = (cached, r2)" by fastforce
  have 1: "sim lib U n ?r1 l" "coherent lib ?r1" using s coh by simp_all
  note C = cached_step [OF 1 k r2]
  show ?thesis
  proof (cases cached)
    case (Some b)
    then show ?thesis using C gen r2
      by (intro exI [of _ "Some b"] exI [of _ req] exI [of _ r2]) (simp add: sharded_Match_def Let_def)
  next
    case None
    have 2: "sim lib U n r2 l" "coherent lib r2" "matchCacheEnabled r2 = matchCacheEnabled ?r1" using C by simp_all
    have m: "r_Method req \<noteq> []" using k by (simp add: key_clean_def)
    obtain fb best req' where f: "search lib io (\<lambda>_ _ _. None) r2 req = (fb, Some (Inr best, req'))"
      "is_best ?P (set (List l)) best" "request_view req' = request_view req"
      using sim_search [OF 2(1) safe re m c] by blast
    let ?r3 = "if fb then count fallbackMatches_update r2 else r2"
    have 3: "sim lib U n ?r3 l" "coherent lib ?r3" "matchCacheEnabled ?r3 = matchCacheEnabled ?r1" using 2 by (simp_all add: matchCacheEnabled_def)
    show ?thesis
    proof (cases best)
      case best: (Some b)
      note S = store_step [OF 3(1,2) k f(3) f(2) [unfolded best], of now "sr_generation r", unfolded 3(3)]
      show ?thesis using gen r2 None f best S
        by (intro exI [of _ "Some b"] exI [of _ req'] exI [of _ "storeMatchCache now req' b (matchCacheEnabled ?r1) (sr_generation r) ?r3"])
          (simp add: sharded_Match_def Let_def)
    next
      case best: None
      show ?thesis using gen r2 None f best 3
        by (intro exI [of _ best] exI [of _ req'] exI [of _ ?r3]) (simp add: sharded_Match_def Let_def)
    qed
  qed
qed

section \<open>Changes keep the cache coherent\<close>

text \<open>After a clear the cache is right for every set of scenarios: it holds nothing.\<close>

definition sane :: "('re, 'net, 'ip) golib \<Rightarrow> ('re, 'net) ShardedScenarioRegistry \<Rightarrow> bool" where
  "sane lib r \<longleftrightarrow> (\<forall>c \<in> set_option (sr_cache r). \<exists>X. cache_right lib X c)"

lemma clear_cache_right: "sane lib r \<Longrightarrow> c \<in> set_option (sr_cache (clear_cache r)) \<Longrightarrow> cache_right lib Y c"
  by (auto simp: clear_cache_def sane_def intro: cache_right_clear)

lemma index_kept [simp]:
  "sr_cache (indexScenario s r) = sr_cache r" "sr_generation (indexScenario s r) = sr_generation r"
  "sr_cacheDisabled (indexScenario s r) = sr_cacheDisabled r"
  by (simp_all add: indexScenario_def addGlobalScenario_def split: option.split)

lemma bump_kept [simp]:
  "sr_cache (bump r) = sr_cache r" "sr_cacheDisabled (bump r) = sr_cacheDisabled r" "sr_generation (bump r) = sr_generation r + 1"
  "sr_generation (clear_cache r) = sr_generation r" "sr_cacheDisabled (clear_cache r) = sr_cacheDisabled r"
  by (simp_all add: bump_def clear_cache_def)

lemma remove_kept:
  "sr_generation (snd (remove name r)) = sr_generation r" "sane lib r \<Longrightarrow> sane lib (snd (remove name r))"
  "fst (remove name r) \<noteq> None \<Longrightarrow> sr_cache (snd (remove name r)) = sr_cache r \<and> sr_cacheDisabled (snd (remove name r)) = sr_cacheDisabled r"
  "fst (remove name r) = None \<Longrightarrow> \<exists>r'. snd (remove name r) = clear_cache r' \<and> sr_cache r' = sr_cache r"
proof -
  show "sr_generation (snd (remove name r)) = sr_generation r"
    by (simp add: remove_def Let_def removeGlobalScenario_def afterScenarioRemoved_def)
  show "fst (remove name r) \<noteq> None \<Longrightarrow> sr_cache (snd (remove name r)) = sr_cache r \<and> sr_cacheDisabled (snd (remove name r)) = sr_cacheDisabled r"
    by (auto simp: remove_def Let_def removeGlobalScenario_def split: if_splits)
  show cleared: "fst (remove name r) = None \<Longrightarrow> \<exists>r'. snd (remove name r) = clear_cache r' \<and> sr_cache r' = sr_cache r"
    by (auto simp: remove_def Let_def removeGlobalScenario_def afterScenarioRemoved_def split: if_splits)
  show "sane lib (snd (remove name r))" if s: "sane lib r"
  proof (cases "fst (remove name r) = None")
    case True
    then obtain r' where r': "snd (remove name r) = clear_cache r'" "sr_cache r' = sr_cache r" using cleared by blast
    then have "sane lib r'" using s by (simp add: sane_def)
    from clear_cache_right [OF this] show ?thesis unfolding r'(1) sane_def by blast
  next
    case False
    then have "sr_cache (snd (remove name r)) = sr_cache r" by (auto simp: remove_def Let_def removeGlobalScenario_def split: if_splits)
    then show ?thesis using s by (simp add: sane_def)
  qed
qed

lemma List_stored: "set (sharded_List r) \<subseteq> set (all_stored r)"
proof -
  obtain us s1 d1 where u: "unique_from [] False (all_stored r) = (us, s1, d1)" by (rule prod_cases3)
  from unique_from_subset [OF u] show ?thesis by (simp add: sharded_List_def uniqueScenarioPointers_def u)
qed

lemma remove_flag:
  assumes r: "rep X D r" and flag: "\<not> sr_cacheDisabled (snd (remove name r))"
    and old: "\<not> sr_cacheDisabled r \<longrightarrow> (\<forall>s \<in> set (sharded_List r). \<not> scenarioDisablesMatchCache s)"
    and t: "t \<in> set (sharded_List r)" "s_Name t \<noteq> name"
  shows "\<not> scenarioDisablesMatchCache t"
proof (cases "fst (remove name r)")
  case (Some e)
  then show ?thesis using remove_kept(3) [of name r] flag old t by simp
next
  case None
  then have "sr_cacheDisabled (snd (remove name r)) = registryDisablesMatchCache (snd (remove name r))"
    by (auto simp: remove_def Let_def removeGlobalScenario_def afterScenarioRemoved_def clear_cache_def registryDisablesMatchCache_def split: if_splits)
  then have "\<not> registryDisablesMatchCache (snd (remove name r))" using flag by simp
  moreover have "t \<in> set (all_stored (snd (remove name r)))"
    using t List_stored [of r] by (auto simp: all_stored_def remove_state [OF r] shard_remove_simps(1))
  ultimately show ?thesis by (auto simp: all_stored_def registryDisablesMatchCache_def scenariosDisableMatchCache_def list_ex_iff)
qed

lemma coherent_sane: "coherent lib r \<Longrightarrow> sane lib r"
  by (auto simp: coherent_def sane_def)

lemma coherent_cleared:
  assumes "coherent lib r" "sane lib r1" "r' = bump (clear_cache r1)" "sr_generation r1 = sr_generation r + 1"
    and "\<not> sr_cacheDisabled r1 \<Longrightarrow> \<forall>s \<in> set (sharded_List r'). \<not> scenarioDisablesMatchCache s"
  shows "coherent lib r'"
  using assms clear_cache_right [OF assms(2)] by (auto simp: coherent_def)

lemma coherent_unchanged:
  assumes "coherent lib r" "sr_cache r' = sr_cache r" "sr_cacheDisabled r' = sr_cacheDisabled r" "sharded_List r' = sharded_List r"
    and "sr_generation r' = sr_generation r \<or> sr_generation r' = sr_generation r + 1 + 1"
  shows "coherent lib r'"
  using assms by (auto simp: coherent_def)

lemma install_shape:
  "\<exists>r1. install path ss r = bump (clear_cache r1) \<and> sr_cache r1 = sr_cache r \<and> sr_generation r1 = sr_generation r + 1 \<and>
     sr_cacheDisabled r1 = scenariosDisableMatchCache ss"
proof -
  have "sr_cache (fold indexScenario ss q) = sr_cache q \<and> sr_generation (fold indexScenario ss q) = sr_generation q \<and>
      sr_cacheDisabled (fold indexScenario ss q) = sr_cacheDisabled q" for q :: "('a, 'b) ShardedScenarioRegistry"
    by (induction ss arbitrary: q) simp_all
  then show ?thesis unfolding install_def Let_def by (intro exI conjI) (rule refl, simp_all)
qed

lemma coherent_install:
  assumes "coherent lib r" "r' = bump (clear_cache r1)" "sr_cache r1 = sr_cache r" "sr_generation r1 = sr_generation r + 1"
    "sr_cacheDisabled r1 = scenariosDisableMatchCache ss" "sharded_List r' = ss"
  shows "coherent lib r'"
proof (rule coherent_cleared [OF assms(1) _ assms(2,4)])
  show "sane lib r1" using coherent_sane [OF assms(1)] assms(3) by (simp add: sane_def)
  show "\<forall>s \<in> set (sharded_List r'). \<not> scenarioDisablesMatchCache s" if "\<not> sr_cacheDisabled r1"
    using that assms(5,6) by (auto simp: scenariosDisableMatchCache_def list_ex_iff)
qed

lemma coherent_remove:
  assumes s: "sim lib U n r l" and coh: "coherent lib r" and e: "Remove name l = (err, l')" "sharded_Remove name r = (err, r')"
    and s': "sim lib V m r' l'"
  shows "coherent lib r'"
proof -
  obtain D where "rep (set (List l) - implicit D) D r" using s by (auto simp: sim_def)
  then have D: "rep (set (List l) - implicit D) D (bump r)" by simp
  have r': "r' = bump (snd (remove name (bump r)))" "err = fst (remove name (bump r))" using e(2) by (auto simp: sharded_Remove_def split: prod.splits)
  have "set (remove_first P xs) \<subseteq> set xs" for P and xs :: "('a, 'b) Scenario list" by (induction xs) auto
  from this [of "\<lambda>s. s_Name s = name" "List l"]
  have l': "set (List l') \<subseteq> set (List l)" using e(1) by (auto simp: Remove_def List_def split: if_splits)
  show ?thesis
  proof (cases err)
    case (Some x)
    have "List l' = List l" using e(1) Some by (auto simp: Remove_def split: if_splits)
    moreover have "fst (remove name (bump r)) \<noteq> None" unfolding r'(2) [symmetric] using Some by simp
    from remove_kept(3) [OF this] have "sr_cache r' = sr_cache r" "sr_cacheDisabled r' = sr_cacheDisabled r" by (simp_all add: r'(1))
    ultimately show ?thesis using remove_kept(1) [of name "bump r"] sim_List [OF s] sim_List [OF s']
      by (intro coherent_unchanged [OF coh]) (simp_all add: r'(1))
  next
    case None
    then obtain r1 where r1: "snd (remove name (bump r)) = clear_cache r1" "sr_cache r1 = sr_cache r" using remove_kept(4) [of name "bump r"] r'(2) by auto
    show ?thesis
    proof (rule coherent_cleared [OF coh])
      show "r' = bump (clear_cache r1)" using r' r1 by simp
      show "sane lib r1" using coherent_sane [OF coh] r1(2) by (simp add: sane_def)
      show "sr_generation r1 = sr_generation r + 1" using remove_kept(1) [of name "bump r"] r1(1) by simp
      have nm: "s_Name t \<noteq> name" if "t \<in> set (List l')" for t
      proof -
        have "registry_ok lib n (List l)" using s by (simp add: sim_def)
        then have "remove_first (\<lambda>s. s_Name s = name) (List l) = filter (\<lambda>s. s_Name s \<noteq> name) (List l)"
          by (intro remove_first_filter) (simp add: registry_ok_def)
        then show ?thesis using that e(1) None by (auto simp: Remove_def List_def split: if_splits)
      qed
      show "\<forall>t \<in> set (sharded_List r'). \<not> scenarioDisablesMatchCache t" if f: "\<not> sr_cacheDisabled r1"
      proof
        fix t assume "t \<in> set (sharded_List r')"
        then have t: "t \<in> set (List l')" using sim_List [OF s'] by simp
        have "\<not> sr_cacheDisabled (snd (remove name (bump r)))" using f r1(1) by simp
        from remove_flag [OF D this] show "\<not> scenarioDisablesMatchCache t" using coh t l' nm [OF t] sim_List [OF s] by (auto simp: coherent_def)
      qed
    qed
  qed
qed

lemma coherent_add:
  assumes s: "sim lib U n r l" and n: "0 \<le> n" "n \<le> MaxInt64" and f: "\<forall>s' \<in> set_option sc. uncompiled s'" and coh: "coherent lib r"
    and e: "Add lib stat errText sc l = (err, l')" "sharded_Add lib stat errText sc r = (err, r')" and s': "sim lib V m r' l'"
  shows "coherent lib r'"
proof (cases "\<exists>s0 c. sc = Some s0 \<and> validateAndCompile lib stat s0 = Inr c")
  case False
  then have "l' = l" "r' = r \<or> r' = bump (bump r)" using e by (auto simp: Add_def sharded_Add_def split: option.splits sum.splits)
  then show ?thesis using sim_List [OF s] sim_List [OF s'] by (intro coherent_unchanged [OF coh]) auto
next
  case True
  then obtain s0 c where c: "sc = Some s0" "validateAndCompile lib stat s0 = Inr c" by blast
  have w: "well_compiled lib c" "s_Name c \<noteq> []" using validateAndCompile_ok [OF c(2)] f by (auto simp: routing_fields_def c(1))
  obtain D where "rep (set (List l) - implicit D) D r" using s by (auto simp: sim_def)
  then have D: "rep (set (List l) - implicit D) D (bump r)" by simp
  let ?s = "c\<lparr>s_order := scenarioOrderForAdd (List l) (s_Name c)\<rparr>" and ?r1 = "snd (remove (s_Name c) (bump r))"
  let ?r2 = "indexScenario ?s ?r1"
  let ?r3 = "if scenarioDisablesMatchCache ?s then ?r2\<lparr>sr_cacheDisabled := True\<rparr> else ?r2"
  have nm: "s_Name ?s = s_Name c" by simp
  have L0: "sharded_List (bump r) = List l" using sim_List [OF s] by simp
  have r': "r' = bump (clear_cache ?r3)" using e(2) unfolding sharded_Add_def c Let_def option.case sum.case L0 nm
    by (elim Pair_inject) (rule sym)
  have L: "set (sharded_List r') = {t \<in> set (List l). s_Name t \<noteq> s_Name c} \<union> {?s}"
    using sim_List [OF s'] e(1) insert_scenario_ok [OF _ n w(2,1), of "List l"] s by (auto simp: Add_def c List_def sim_def)
  show ?thesis
  proof (rule coherent_cleared [OF coh _ r'])
    have "sane lib (bump r)" using coherent_sane [OF coh] by (simp add: sane_def)
    from remove_kept(2) [OF this, of "s_Name c"] show "sane lib ?r3" by (simp add: sane_def)
    show "sr_generation ?r3 = sr_generation r + 1" using remove_kept(1) [of "s_Name c" "bump r"] by simp
    show "\<forall>t \<in> set (sharded_List r'). \<not> scenarioDisablesMatchCache t" if f: "\<not> sr_cacheDisabled ?r3"
    proof -
      have st: "\<not> scenarioDisablesMatchCache ?s" and f1: "\<not> sr_cacheDisabled ?r1" using f by (auto split: if_splits)
      have "\<not> scenarioDisablesMatchCache t" if "t \<in> set (List l)" "s_Name t \<noteq> s_Name c" for t
        using remove_flag [OF D f1] coh that sim_List [OF s] by (auto simp: coherent_def)
      then show ?thesis using st unfolding L by blast
    qed
  qed
qed

lemma coherent_load:
  assumes coh: "coherent lib r" and e: "Load lib stat errText addr path decoded l = (err, l')"
    "sharded_Load lib stat errText addr path decoded r = (err, r')" and s': "sim lib V m r' l'"
  shows "coherent lib r'"
proof (cases "loaded lib stat errText addr decoded")
  case (Inl x)
  then show ?thesis using e coh by (simp add: sharded_Load_loaded)
next
  case (Inr ss)
  then have "r' = install path ss r" "List l' = ss" using e by (simp_all add: sharded_Load_loaded Load_loaded List_def) auto
  then show ?thesis using install_shape [of path ss r] coherent_install [OF coh, of r' _ ss] sim_List [OF s'] by auto
qed

lemma coherent_reload:
  assumes coh: "coherent lib r" and s: "sim lib U n r l" and e: "Reload lib stat errText addr decode l = (err, l')"
    "sharded_Reload lib stat errText addrs addr decode r = (err, r')" and s': "sim lib V m r' l'"
  shows "coherent lib r'"
proof -
  let ?path = "sr_filePath r" and ?next = "newShardedScenarioRegistryWithConfig (sr_config r) (sr_bodyPattern r) addrs"
  have path: "rg_filePath l = ?path" using s by (simp add: sim_def)
  show ?thesis
  proof (cases "r' = r")
    case False
    then obtain ss where ss: "loaded lib stat errText addr (decode ?path) = Inr ss" "r' = replaceValidated (install ?path ss ?next) ?path r" "err = None" "?path \<noteq> []"
      using e(2) by (auto simp: sharded_Reload_def Let_def sharded_Load_loaded split: if_splits sum.splits option.splits)
    then have "List l' = ss" using e(1) by (auto simp: Reload_def Let_def path Load_loaded List_def split: option.splits)
    then have L: "sharded_List r' = ss" using sim_List [OF s'] by simp
    have "sr_cacheDisabled (install ?path ss ?next) = scenariosDisableMatchCache ss" using install_shape [of ?path ss ?next] by auto
    then show ?thesis using L unfolding ss(2) replaceValidated_def by (intro coherent_install [OF coh refl]) simp_all
  qed (use coh in simp)
qed

section \<open>The two registries through a history\<close>

definition file_safe :: "go_error + ('re, 'net) Scenario list \<Rightarrow> bool" where
  "file_safe decoded \<longleftrightarrow> (case decoded of Inl e \<Rightarrow> True | Inr ss \<Rightarrow> list_all scenario_safe ss)"

fun op_safe :: "('re, 'net) registry_op \<Rightarrow> bool" where
  "op_safe (OpLoad path addr decoded) \<longleftrightarrow> file_safe decoded"
| "op_safe (OpReload addr decode) \<longleftrightarrow> (\<forall>path. file_safe (decode path))"
| "op_safe (OpAdd s) \<longleftrightarrow> (\<forall>s' \<in> set_option s. scenario_safe s')"
| "op_safe (OpRemove name) \<longleftrightarrow> True"

lemma scenario_safe_fields: "routing_fields s' = routing_fields s \<Longrightarrow> scenario_safe s' = scenario_safe s"
  by (simp add: scenario_safe_def index_safe_def shardSafePath_def routing_fields_def cong: option.case_cong)

lemma scenario_safe_order [simp]: "scenario_safe (s\<lparr>s_order := i\<rparr>) = scenario_safe s"
  by (simp add: scenario_safe_def index_safe_def shardSafePath_def cong: option.case_cong)

lemma scenario_safe_default [simp]: "scenario_safe (DefaultScenario a)"
  by (simp add: scenario_safe_def index_safe_def shardSafePath_def no_rule_def)

lemma loaded_safe:
  assumes l: "loaded lib stat errText addr decoded = Inr ss" and f: "named_file L decoded" "file_safe decoded"
  shows "all_safe (set ss)"
proof -
  obtain fs cs where fs: "decoded = Inr fs" "compile_all lib stat errText fs = Inr cs" "ss = sortScenariosByPriority (number (with_default addr cs))"
    using l by (auto simp: loaded_def sbind_Inr)
  have u: "\<forall>s \<in> set fs. uncompiled s \<and> scenario_safe s" using f by (simp add: named_file_def fresh_file_def file_safe_def fs(1) list_all_iff)
  have "list_all2 (\<lambda>s c. validateAndCompile lib stat s = Inr c) fs cs"
    using map_err_Inr [OF fs(2) [unfolded compile_all_def]] by (elim list_all2_mono) (auto split: sum.splits)
  then have "\<forall>c \<in> set cs. scenario_safe c" using u
  proof (induction fs cs rule: list_all2_induct)
    case (Cons s fs c cs)
    then show ?case using validateAndCompile_ok [OF Cons.hyps(1)] scenario_safe_fields [of c s] by auto
  qed simp
  then have "\<forall>s \<in> set (with_default addr cs). scenario_safe s" by (auto simp: with_default_def)
  then have "\<forall>s \<in> set (number (with_default addr cs)). scenario_safe s" 
    by (fastforce simp: in_set_conv_nth number_simps dest: nth_mem)
  then show ?thesis by (simp add: fs(3) all_safe_def)
qed

lemma safe_step:
  assumes r: "registry_ok lib n (List l)" and n: "0 \<le> n" "n \<le> MaxInt64" and safe: "all_safe (set (List l))" and f: "op_named L opn" "op_safe opn"
    and e: "apply_op lib stat errText opn l = (err, l')"
  shows "all_safe (set (List l'))"
proof (cases opn)
  case (OpLoad path addr decoded)
  then show ?thesis using e safe f loaded_safe [of lib stat errText addr decoded _ L]
    by (auto simp: Load_loaded List_def split: sum.splits)
next
  case (OpReload addr decode)
  then show ?thesis using e safe f loaded_safe [of lib stat errText addr "decode (rg_filePath l)" _ L]
    by (auto simp: Reload_def Let_def Load_loaded List_def split: sum.splits if_splits option.splits)
next
  case (OpAdd sc)
  show ?thesis
  proof (cases "\<exists>s0 c. sc = Some s0 \<and> validateAndCompile lib stat s0 = Inr c")
    case True
    then obtain s0 c where c: "sc = Some s0" "validateAndCompile lib stat s0 = Inr c" by blast
    have w: "well_compiled lib c" "s_Name c \<noteq> []" "scenario_safe c"
      using validateAndCompile_ok [OF c(2)] scenario_safe_fields [of c s0] f by (auto simp: routing_fields_def OpAdd c(1))
    have l1: "List l' = insert_scenario c (List l)" using e by (auto simp: OpAdd c Add_def List_def)
    have "set (List l') = {t \<in> set (List l). s_Name t \<noteq> s_Name c} \<union> {c\<lparr>s_order := scenarioOrderForAdd (List l) (s_Name c)\<rparr>}"
      using insert_scenario_ok [OF r n w(2,1)] l1 by simp
    then show ?thesis using safe w(3) by (auto simp: all_safe_def)
  next
    case False
    then have "l' = l" using e by (auto simp: OpAdd Add_def split: option.splits sum.splits)
    then show ?thesis using safe by simp
  qed
next
  case (OpRemove name)
  have "set (remove_first P xs) \<subseteq> set xs" for P and xs :: "('a, 'b) Scenario list" by (induction xs) auto
  from this [of "\<lambda>s. s_Name s = name" "List l"] show ?thesis
    using e safe by (auto simp: OpRemove Remove_def List_def all_safe_def split: if_splits)
qed

lemma coherent_step:
  assumes s: "sim lib U n r l" and n: "0 \<le> n" "n \<le> MaxInt64" and f: "op_named L opn" and coh: "coherent lib r"
    and e: "apply_op lib stat errText opn l = (err, l')" "apply_sharded lib stat errText addrs opn r = (err, r')" and s': "sim lib V m r' l'"
  shows "coherent lib r'"
proof (cases opn)
  case (OpLoad path addr decoded)
  then show ?thesis using coherent_load [OF coh _ _ s'] e by simp
next
  case (OpReload addr decode)
  then show ?thesis using coherent_reload [OF coh s _ _ s'] e by simp
next
  case (OpAdd sc)
  then show ?thesis using coherent_add [OF s n _ coh _ _ s', of sc stat errText err] f e by simp
next
  case (OpRemove name)
  then show ?thesis using coherent_remove [OF s coh _ _ s', of name err] e by simp
qed

text \<open>A history: changes, and requests matched in between.\<close>

datatype ('re, 'net, 'q, 'r, 'b) event =
    Change "('re, 'net) registry_op"
  | Ask "'r body_io" "string option \<times> go_error option" "('q, 'r, 'b) request" int nat

inductive joint ::
  "('re, 'net, 'ip) golib \<Rightarrow> (string \<Rightarrow> go_error option) \<Rightarrow> (go_error \<Rightarrow> string) \<Rightarrow> (nat \<Rightarrow> nat) \<Rightarrow> nat \<Rightarrow>
   ('re, 'net, 'q, 'r, 'b) event list \<Rightarrow> nat set \<Rightarrow> int \<Rightarrow> ('re, 'net) ShardedScenarioRegistry \<Rightarrow> ('re, 'net) scenarioRegistry \<Rightarrow> bool"
  for lib stat errText addrs L
where
  start: "joint lib stat errText addrs L [] (range addrs) (int L)
    (newShardedScenarioRegistryWithConfig cfg opts addrs) (NewScenarioRegistryWithBodyPatternOptions opts (addrs 0))"
| change: "joint lib stat errText addrs L es U n r l \<Longrightarrow> n < MaxInt64 \<Longrightarrow> op_named L opn \<Longrightarrow> op_safe opn \<Longrightarrow>
    pointers_distinct opn \<Longrightarrow> op_pointers opn \<inter> U = {} \<Longrightarrow>
    apply_op lib stat errText opn l = (err, l') \<Longrightarrow> apply_sharded lib stat errText addrs opn r = (err', r') \<Longrightarrow>
    joint lib stat errText addrs L (es @ [Change opn]) (U \<union> op_pointers opn) (n + 1) r' l'"
| ask: "joint lib stat errText addrs L es U n r l \<Longrightarrow> key_clean req \<Longrightarrow> calm_in lib io (rg_bodyPattern l) res (set (List l)) req \<Longrightarrow>
    sharded_Match lib io (\<lambda>_ _ _. None) now addr r (Some req) = Some (answer, req', r') \<Longrightarrow>
    joint lib stat errText addrs L (es @ [Ask io res req now addr]) U n r' l"

lemma new_ok:
  fixes lib :: "('re, 'net, 'ip) golib"
  assumes "inj addrs" "1 \<le> n"
  shows "sim lib (range addrs) n (newShardedScenarioRegistryWithConfig cfg opts addrs) (NewScenarioRegistryWithBodyPatternOptions opts (addrs 0)) \<and>
    coherent lib (newShardedScenarioRegistryWithConfig cfg opts addrs) \<and> all_safe (set (List (NewScenarioRegistryWithBodyPatternOptions opts (addrs 0))))"
proof -
  let ?r = "newShardedScenarioRegistryWithConfig cfg opts addrs :: ('re, 'net) ShardedScenarioRegistry"
  have "1 \<le> CacheSize (normalize_config cfg)" "CacheSize (normalize_config cfg) < MaxInt64"
    by (simp_all add: normalize_config_def Let_def DefaultCacheSize_def MaxCacheSize_def MinShardCount_def MaxShardCount_def MaxInt64_def)
  then have c: "\<forall>c \<in> set_option (sr_cache ?r). cache_right lib X c" for X
    by (auto simp: newShardedScenarioRegistryWithConfig_def Let_def intro: cache_right_new)
  have s: "sim lib (range addrs) n ?r (NewScenarioRegistryWithBodyPatternOptions opts (addrs 0))" by (rule sim_new [OF assms])
  have l: "List (NewScenarioRegistryWithBodyPatternOptions opts (addrs 0)) = [DefaultScenario (addrs 0)]"
    by (simp add: List_def NewScenarioRegistryWithBodyPatternOptions_def)
  have st: "\<not> scenarioDisablesMatchCache (DefaultScenario a :: ('re, 'net) Scenario)" for a
    by (simp add: scenarioDisablesMatchCache_def hasDynamicMatchRule_def no_rule_def hasEndpointCaptures_def)
  have g: "sr_generation ?r = 0" by (simp add: newShardedScenarioRegistryWithConfig_def Let_def)
  have "coherent lib ?r" using c st g unfolding coherent_def sim_List [OF s] l by simp
  then show ?thesis using s unfolding l by (simp add: all_safe_def)
qed

lemma joint_invariant:
  assumes "joint lib stat errText addrs L es U n r l" "inj addrs" "1 \<le> L" "int L \<le> MaxInt64" "regexp_literal lib"
  shows "sim lib U n r l \<and> coherent lib r \<and> all_safe (set (List l)) \<and> int L \<le> n \<and> n \<le> MaxInt64"
  using assms
proof (induction rule: joint.induct)
  case (start cfg opts)
  then show ?case using new_ok [of addrs "int L" lib cfg opts] by simp
next
  case (change es U n r l opn err l' err' r')
  then have I: "sim lib U n r l" "coherent lib r" "all_safe (set (List l))" "int L \<le> n" by simp_all
  have n: "0 \<le> n" "n \<le> MaxInt64" using I(4) change.hyps(2) by simp_all
  obtain r1 where r1: "apply_sharded lib stat errText addrs opn r = (err, r1)" "sim lib (U \<union> op_pointers opn) (n + 1) r1 l'"
    using sim_step [OF I(1) n I(4) change.hyps(3,5,6) change.prems(1) change.hyps(7)] by blast
  then have r': "r' = r1" using change.hyps(8) by simp
  have "registry_ok lib n (List l)" using I(1) by (simp add: sim_def)
  from safe_step [OF this n I(3) change.hyps(3,4,7)] coherent_step [OF I(1) n change.hyps(3) I(2) change.hyps(7) r1]
  show ?case using r1(2) r' I(4) change.hyps(2) by simp
next
  case (ask es U n r l req io res now addr answer req' r')
  then have I: "sim lib U n r l" "coherent lib r" "all_safe (set (List l))" "int L \<le> n" "n \<le> MaxInt64" by simp_all
  from sharded_Match_best [OF I(1-3) ask.prems(4) ask.hyps(2,3), of now addr] ask.hyps(4) I
  show ?case by auto
qed

lemma plain_Match_best:
  fixes req :: "('q, 'r, 'b) request"
  assumes ok: "registry_ok lib n (List l)" and c: "calm_in lib io (rg_bodyPattern l) res (set (List l)) req"
    and b: "is_best (\<lambda>t. verdict lib (rg_bodyPattern l) res t req = Inr True) (set (List l)) best"
  shows "\<exists>req'. Match lib io (\<lambda>_ _. None) l (Some req) =
    Some (case best of None \<Rightarrow> Inl (no_scenario_matched (length (List l))) | Some s \<Rightarrow> Inr s, Some req')"
proof -
  let ?opt = "rg_bodyPattern l" and ?P = "\<lambda>t. verdict lib (rg_bodyPattern l) res t req = Inr True"
  have r: "body_reads io ?opt req res" and calm: "\<forall>t \<in> set (List l). \<not> isl (verdict lib ?opt res t req)" using c by (auto simp: calm_in_def)
  obtain req' where m: "match_first lib io (\<lambda>_ _. None) ?opt 0 (List l) req = Some (first_verdict lib ?opt res req 0 (List l), req')"
    using match_first_verdict [where ctx = "\<lambda>_ _. None" and io = io and opt = ?opt and req = req and res = res and lib = lib and n = 0 and ss = "List l", OF refl r] by blast
  have srt: "sorted (map rank (List l))" using ok by (simp add: registry_ok_def)
  note F = first_verdict_cases [where lib = lib and opt = ?opt and res = res and req = req and n = 0 and ss = "List l"]
  have "first_verdict lib ?opt res req 0 (List l) = (case best of None \<Rightarrow> Inl (no_scenario_matched (length (List l))) | Some s \<Rightarrow> Inr s)"
  proof (cases "first_verdict lib ?opt res req 0 (List l)")
    case (Inr s)
    have s: "leads (declines lib ?opt res req) s (List l)" "?P s" using F Inr by auto
    have "rank s \<le> rank t" if "t \<in> set (List l)" "?P t" for t
      using leads_sorted [OF s(1) srt that(1)] that(2) by (simp add: declines_def)
    then have "is_best ?P (set (List l)) (Some s)" using leads_in [OF s(1)] s(2) by (simp add: is_best_def)
    from is_best_unique [OF b this registry_ranks [OF ok]] show ?thesis using Inr by simp
  next
    case (Inl e)
    have "verdict lib ?opt res t req \<noteq> Inl e" if "leads (declines lib ?opt res req) t (List l)" for t
      using calm leads_in [OF that] by (auto simp: isl_def)
    then have e: "e = no_scenario_matched (length (List l))" "\<forall>t \<in> set (List l). declines lib ?opt res req t" using F Inl by auto
    then have "is_best ?P (set (List l)) None" by (auto simp: is_best_def declines_def)
    from is_best_unique [OF b this registry_ranks [OF ok]] show ?thesis using Inl e by simp
  qed
  then show ?thesis using m by (simp add: Match_def match_request_def List_def)
qed

section \<open>Properties\<close>

text \<open>
  C4: \<^bold>\<open>The sharded registry holds what the plain one holds.\<close>  After the same \<open>Load\<close>, \<open>Reload\<close>, \<open>Add\<close> and \<open>Remove\<close>
  calls on both, whatever the shard configuration, every call has returned the same error on both and \<open>List\<close> returns
  the same scenarios in the same order: hashing, index keys, copies in several shards, global scenarios and the copies of
  the default scenario never lose, duplicate or reorder one.  This needs files that use no scenario name twice
  (\<open>op_unique\<close>).  Neither registry checks that, and without it the claim is false, as \<open>duplicate_names_diverge\<close> shows.
\<close>

theorem sharded_same_scenarios:
  assumes "\<forall>opn \<in> set ops. op_fresh L opn \<and> op_unique opn" "pointers_fresh (range addrs) ops" "inj addrs" "1 \<le> L"
    and bound: "int L + int (length ops) \<le> MaxInt64"
    and plain: "run_steps (apply_op lib stat errText) ops (NewScenarioRegistryWithBodyPatternOptions opts (addrs 0)) = (errs, l)"
    and sharded: "run_steps (apply_sharded lib stat errText addrs) ops (newShardedScenarioRegistryWithConfig cfg opts addrs) = (errs', r)"
  shows "errs' = errs \<and> sharded_List r = List l \<and> sr_filePath r = rg_filePath l"
proof -
  have s: "sim lib (range addrs) (int L) (newShardedScenarioRegistryWithConfig cfg opts addrs) (NewScenarioRegistryWithBodyPatternOptions opts (addrs 0))"
    using assms(3,4) by (intro sim_new) simp_all
  obtain V where V: "errs' = errs" "sim lib V (int L + int (length ops)) r l"
    using sim_run [OF s _ bound order_refl _ assms(2,3) plain] assms(1) sharded by (auto simp: op_named_def)
  then show ?thesis using sim_List [OF V(2)] by (simp add: sim_def)
qed

definition demo_addrs :: "nat \<Rightarrow> nat" where
  "demo_addrs i = 10 + i"

definition demo_sharded :: "(string, unit) registry_op list \<Rightarrow> go_error option list \<times> (string, unit) ShardedScenarioRegistry" where
  "demo_sharded ops = run_steps (apply_sharded literal_lib (\<lambda>_. None) (\<lambda>_. []) demo_addrs) ops
     (newShardedScenarioRegistryWithConfig \<lparr>ShardCount = 4, CacheSize = 2, EnableCache = True\<rparr> DefaultBodyPatternOptions demo_addrs)"

definition demo_plain :: "(string, unit) registry_op list \<Rightarrow> go_error option list \<times> (string, unit) scenarioRegistry" where
  "demo_plain ops = run_steps (apply_op literal_lib (\<lambda>_. None) (\<lambda>_. [])) ops
     (NewScenarioRegistryWithBodyPatternOptions DefaultBodyPatternOptions (demo_addrs 0))"

lemma inj_demo_addrs: "inj demo_addrs"
  by (simp add: inj_def demo_addrs_def)

theorem sharded_same_scenarios_witness:
  "fst (demo_sharded demo_ops) = fst (demo_plain demo_ops) \<and> sharded_List (snd (demo_sharded demo_ops)) = List (snd (demo_plain demo_ops)) \<and>
   map s_Name (List (snd (demo_plain demo_ops))) = [''demo'', ''default'']"
proof -
  have "n \<notin> range demo_addrs" if "n < 10" for n using that by (auto simp: demo_addrs_def)
  then have "pointers_fresh (range demo_addrs) demo_ops" 
    by (auto simp: demo_ops_def file_pointers_def demo_scenario_def plain_scenario_def)
  from sharded_same_scenarios [OF demo_ops_named(1) [unfolded op_named_def] this inj_demo_addrs _ demo_ops_named(2), of literal_lib "\<lambda>_. None" "\<lambda>_. []" DefaultBodyPatternOptions]
  have "fst (demo_sharded demo_ops) = fst (demo_plain demo_ops) \<and> sharded_List (snd (demo_sharded demo_ops)) = List (snd (demo_plain demo_ops))"
    unfolding demo_sharded_def demo_plain_def by (metis one_le_numeral surjective_pairing)
  moreover have "map s_Name (List (snd (demo_plain demo_ops))) = [''demo'', ''default'']" by code_simp
  ultimately show ?thesis by blast
qed

text \<open>
  A file with one name twice: \<open>Remove\<close> takes the first of the two scenarios from the plain registry, and both from the
  sharded one.
\<close>

lemma duplicate_names_diverge:
  "map s_Name (List (snd (demo_plain twin_ops))) = [''demo'', ''demo'', ''default''] \<and>
   map s_Name (sharded_List (snd (demo_sharded twin_ops))) = [''demo'', ''demo'', ''default''] \<and>
   map s_Name (List (snd (demo_plain (twin_ops @ [OpRemove ''demo''])))) = [''demo'', ''default''] \<and>
   map s_Name (sharded_List (snd (demo_sharded (twin_ops @ [OpRemove ''demo''])))) = [''default'']"
  by (intro conjI; code_simp)

text \<open>
  C3: \<^bold>\<open>On literal paths the sharded registry answers as the plain one.\<close>  Both registries go through the same history of changes, with
  requests matched in between, under these conditions: the files use no scenario name twice; the priorities are not negative,
  but for that of the default scenario; a scenario with exactly one path, which is neither a \<open>re:\<close> pattern nor has a placeholder,
  has literal routes or, without routes, a path with none of the characters \<open>*?[(+$.\<close> and no leading \<open>^\<close>; the
  requests, this one included, can be matched without an error, have a method and no \<open>|\<close> in the fields of the cache
  key, and an embedded request has a URI.  Then the match of the sharded registry (index of one shard, fallback, global
  scenarios and the match cache) returns the scenario that the linear search of the plain registry returns, and the
  default scenario where that one finds nothing.  Patterns, paths with placeholders and scenarios with several paths are
  covered: they are global.  The condition on the path is needed, as \<open>sharded_index_hides_dotted_path\<close> shows.
\<close>

theorem sharded_same_answers:
  assumes "joint lib stat errText addrs L es U n r l" "inj addrs" "1 \<le> L" "int L \<le> MaxInt64" "regexp_literal lib"
    and "key_clean req" "calm_in lib io (rg_bodyPattern l) res (set (List l)) req"
  shows "\<exists>answer req1 req2 r'. Match lib io (\<lambda>_ _. None) l (Some req) = Some (answer, Some req1) \<and>
    sharded_Match lib io (\<lambda>_ _ _. None) now addr r (Some req) =
      Some (Inr (case answer of Inl e \<Rightarrow> DefaultScenario addr | Inr s \<Rightarrow> s), Some req2, r') \<and> request_view req2 = request_view req"
proof -
  note I = joint_invariant [OF assms(1-5)]
  obtain best req2 r' where m: "sharded_Match lib io (\<lambda>_ _ _. None) now addr r (Some req) =
      Some (Inr (case best of None \<Rightarrow> DefaultScenario addr | Some b \<Rightarrow> b), Some req2, r')" "request_view req2 = request_view req"
    and b: "is_best (\<lambda>t. verdict lib (rg_bodyPattern l) res t req = Inr True) (set (List l)) best"
    using sharded_Match_best [of lib U n r l req io res now addr] I assms(5-7) by blast
  have "registry_ok lib n (List l)" using I by (simp add: sim_def)
  from plain_Match_best [OF this assms(7) b] m show ?thesis by (cases best) auto
qed

theorem sharded_same_answers_witness:
  "\<exists>s req2 r'. sharded_Match literal_lib no_body_io (\<lambda>_ _ _. None) 0 99 (snd (demo_sharded [OpAdd (Some demo_scenario)]))
     (Some (demo_request ''icap://h/reqmod'')) = Some (Inr s, Some req2, r') \<and> s_Name s = ''demo''"
proof -
  let ?opn = "OpAdd (Some demo_scenario) :: (string, unit) registry_op" and ?req = "demo_request ''icap://h/reqmod''"
  let ?l = "snd (demo_plain [?opn])" and ?r = "snd (demo_sharded [?opn])"
  have "scenario_safe demo_scenario" "uncompiled demo_scenario" by code_simp+
  then have safe: "op_safe ?opn" "op_named 1 ?opn" "pointers_distinct ?opn" by simp_all
  have "op_pointers ?opn \<inter> range demo_addrs = {}" by (auto simp: demo_addrs_def demo_scenario_def plain_scenario_def)
  from joint.change [OF joint.start _ safe(2,1,3) this surjective_pairing surjective_pairing, of literal_lib "\<lambda>_. None" "\<lambda>_. []"
      "\<lparr>ShardCount = 4, CacheSize = 2, EnableCache = True\<rparr>" DefaultBodyPatternOptions]
  have j: "joint literal_lib (\<lambda>_. None) (\<lambda>_. []) demo_addrs 1 [Change ?opn :: (string, unit, unit, unit, unit) event]
      (range demo_addrs \<union> op_pointers ?opn) (int 1 + 1) ?r ?l"
    by (simp add: demo_sharded_def demo_plain_def MaxInt64_def case_prod_unfold Let_def)
  have k: "key_clean ?req" by code_simp
  have "map (\<lambda>s. verdict literal_lib (rg_bodyPattern ?l) (None, None) s ?req) (List ?l) = [Inr True, Inr True]" by code_simp
  then have "\<forall>s \<in> set (List ?l). \<not> isl (verdict literal_lib (rg_bodyPattern ?l) (None, None) s ?req)" by (auto simp: map_eq_Cons_conv)
  then have c: "calm_in literal_lib no_body_io (rg_bodyPattern ?l) (None, None) (set (List ?l)) ?req"
    by (simp add: calm_in_def body_reads_def bodyPatternMessage_def body_in_response_def demo_request_def zero_request_def method_defs)
  have "map_option (\<lambda>(a, _). map_sum (\<lambda>_. ()) s_Name a) (Match literal_lib no_body_io (\<lambda>_ _. None) ?l (Some ?req)) = Some (Inr ''demo'')" by code_simp
  then obtain a b where m: "Match literal_lib no_body_io (\<lambda>_ _. None) ?l (Some ?req) = Some (a, b)" "map_sum (\<lambda>_. ()) s_Name a = Inr ''demo''"
    by auto
  then obtain s where "a = Inr s" "s_Name s = ''demo''" by (cases a) auto
  then show ?thesis
    using sharded_same_answers [OF j inj_demo_addrs _ _ literal_lib_literal k c, of 0 99] m(1) by (simp add: MaxInt64_def) blast
qed

text \<open>The scenario that a match returns and the branch it leaves in the request.\<close>

definition sharded_outcome :: "(string, unit) registry_op list \<Rightarrow> string \<Rightarrow> (string \<times> int \<times> bool) option" where
  "sharded_outcome ops uri =
     (case sharded_Match literal_lib no_body_io (\<lambda>_ _ _. None) 0 99 (snd (demo_sharded ops)) (Some (demo_request uri)) of
        Some (Inr s, Some req, _) \<Rightarrow> Some (s_Name s, MatchedBranch req)
      | _ \<Rightarrow> None)"

definition plain_outcome :: "(string, unit) registry_op list \<Rightarrow> string \<Rightarrow> (string \<times> int \<times> bool) option" where
  "plain_outcome ops uri =
     (case Match literal_lib no_body_io (\<lambda>_ _. None) (snd (demo_plain ops)) (Some (demo_request uri)) of
        Some (Inr s, Some req) \<Rightarrow> Some (s_Name s, MatchedBranch req)
      | _ \<Rightarrow> None)"

definition dotted :: "(string, unit) Scenario" where
  "dotted = plain_scenario ''dotted'' (no_rule\<lparr>Paths := [''/a.b'']\<rparr>) 1 10"

text \<open>
  \<^bold>\<open>A dot hides a scenario.\<close>  The index key of a plain path stops at the first dot.  A scenario for \<open>/a.b\<close> with
  priority 10 is therefore not found through the index, and a scenario with a route for the same path wins with
  priority 0; the plain registry returns the one with priority 10.
\<close>

theorem sharded_index_hides_dotted_path:
  "plain_outcome [OpAdd (Some demo_scenario), OpAdd (Some dotted)] ''icap://h/a.b'' = Some (''dotted'', 0, False) \<and>
   sharded_outcome [OpAdd (Some demo_scenario), OpAdd (Some dotted)] ''icap://h/a.b'' = Some (''demo'', 0, False)"
  by (rule conjI; code_simp)

end
