(* ===== verification/Stream_Select.thy ===== *)
theory Stream_Select
  imports Stream_Config Body_Stream "HOL-Library.Word" "HOL-Library.Stream" "HOL-Library.Signed_Division"
begin

text \<open>
  \<^verbatim>\<open>internal/processor/stream_plan.go\<close>: from the stream configuration of a scenario to the plan of one
  response.  Every range of the configuration is drawn from with a selector, the production one being
  \<open>randomStreamSelector\<close>.

  The random numbers of \<open>math/rand\<close> are an explicit stream of 64-bit words that each call takes its numbers
  from.  \<open>rand.Int63n\<close> rejects numbers until one fits, a loop without a bound, so a computation that draws returns an
  \<open>option\<close>: \<open>None\<close> when it does not return (the loop never ends, or \<open>Int63n\<close> panics).
\<close>

section \<open>Random numbers\<close>

type_synonym rands = "64 word stream"

definition rand_Uint64 :: "rands \<Rightarrow> int \<times> rands" where
  "rand_Uint64 r = (uint (shd r), stl r)"

definition rand_Int63 :: "rands \<Rightarrow> int \<times> rands" where
  "rand_Int63 r = (take_bit 63 (uint (shd r)), stl r)"

partial_function (option) int63n_loop :: "int \<Rightarrow> rands \<Rightarrow> (int \<times> rands) option" where
  "int63n_loop mx r = (let (v, r') = rand_Int63 r in if v > mx then int63n_loop mx r' else Some (v, r'))"

declare int63n_loop.simps [code]

definition rand_Int63n :: "int \<Rightarrow> rands \<Rightarrow> (int \<times> rands) option" where
  "rand_Int63n n r =
     (if n \<le> 0 then None
      else if and n (n - 1) = 0 then (let (v, r') = rand_Int63 r in Some (and v (n - 1), r'))
      else map_option (\<lambda>(v, r'). (v mod n, r')) (int63n_loop (2 ^ 63 - 1 - 2 ^ 63 mod n) r))"

type_synonym 's selector = "int \<Rightarrow> int \<Rightarrow> 's \<Rightarrow> (int \<times> 's) option"

definition random_SelectInclusive :: "rands selector" where
  "random_SelectInclusive minimum maximum r =
     (if maximum \<le> minimum then Some (minimum, r)
      else
        (let difference = wrap64 (maximum - minimum) in
         if difference = MaxInt64 then (let (v, r') = rand_Uint64 r in Some (drop_bit 1 v, r'))
         else map_option (\<lambda>(v, r'). (wrap64 (minimum + v), r')) (rand_Int63n (wrap64 (difference + 1)) r)))"

section \<open>Drawing from the configuration\<close>

text \<open>A computation that draws, may fail, and may not return.\<close>

type_synonym ('s, 'a) draw = "'s \<Rightarrow> ((go_error + 'a) \<times> 's) option"

definition drawn :: "'a \<Rightarrow> ('s, 'a) draw" where
  "drawn x = (\<lambda>s. Some (Inr x, s))"

definition draw_fail :: "go_error \<Rightarrow> ('s, 'a) draw" where
  "draw_fail e = (\<lambda>s. Some (Inl e, s))"

definition draw_then :: "('s, 'a) draw \<Rightarrow> ('a \<Rightarrow> ('s, 'b) draw) \<Rightarrow> ('s, 'b) draw" where
  "draw_then m k =
     (\<lambda>s. case m s of None \<Rightarrow> None | Some (Inl e, s') \<Rightarrow> Some (Inl e, s') | Some (Inr x, s') \<Rightarrow> k x s')"

definition weightedFinishScale :: int where "weightedFinishScale = 100"
definition StreamFinishWeighted :: string where "StreamFinishWeighted = ''weighted''"

definition selectInclusive :: "int \<Rightarrow> int \<Rightarrow> 's selector \<Rightarrow> ('s, int) draw" where
  "selectInclusive minimum maximum sel s =
     (if minimum < 0 \<or> minimum > maximum
      then Some (Inl (ErrNew (''stream selection range '' @ go_Itoa minimum @ ''-'' @ go_Itoa maximum @ '' is invalid'')), s)
      else (case sel minimum maximum s of
        None \<Rightarrow> None
      | Some (selected, s') \<Rightarrow>
          if selected < minimum \<or> selected > maximum
          then Some (Inl (ErrNew (''stream selector returned '' @ go_Itoa selected @ '' outside '' @ go_Itoa minimum @ ''-'' @
                                  go_Itoa maximum)), s')
          else Some (Inr selected, s')))"

definition selectDuration :: "DurationSpec \<Rightarrow> 's selector \<Rightarrow> ('s, int) draw" where
  "selectDuration spec sel = (if \<not> du_IsSet spec then drawn 0 else selectInclusive (du_Min spec) (du_Max spec) sel)"

definition selectSize :: "SizeSpec \<Rightarrow> 's selector \<Rightarrow> ('s, int) draw" where
  "selectSize spec sel = (if \<not> sz_IsSet spec then drawn 0 else selectInclusive (sz_Min spec) (sz_Max spec) sel)"

definition selectPercent :: "PercentSpec \<Rightarrow> 's selector \<Rightarrow> ('s, int) draw" where
  "selectPercent spec sel = selectInclusive (pc_Min spec) (pc_Max spec) sel"

definition usesDirectStreamControls :: "StreamConfig \<Rightarrow> bool" where
  "usesDirectStreamControls cfg \<longleftrightarrow>
     send_IsSet (sc_Send cfg) \<or> throttle_IsSet (sc_Throttle cfg) \<or> end_IsSet (sc_End cfg) \<or>
     pc_IsSet (send_Percent (sc_Send cfg)) \<or> du_IsSet (send_Duration (sc_Send cfg)) \<or>
     sz_IsSet (TargetChunkSize (sc_Throttle cfg)) \<or> TargetChunks (sc_Throttle cfg) \<noteq> 0 \<or>
     du_IsSet (Every (sc_Throttle cfg)) \<or> end_Mode (sc_End cfg) \<noteq> []"

definition partialStreamFinish :: "string \<Rightarrow> bool" where
  "partialStreamFinish mode \<longleftrightarrow> mode = StreamFinishFIN \<or> mode = StreamFinishTerm"

definition percentOf :: "int \<Rightarrow> int \<Rightarrow> int" where
  "percentOf srcSize percent =
     wrap64 (wrap64 ((srcSize sdiv weightedFinishScale) * percent) +
             wrap64 ((srcSize smod weightedFinishScale) * percent) sdiv weightedFinishScale)"

definition selectThrottle :: "SizeSpec \<Rightarrow> DurationSpec \<Rightarrow> 's selector \<Rightarrow> ('s, int \<times> int) draw" where
  "selectThrottle sizeSpec everySpec sel =
     draw_then (selectSize sizeSpec sel) (\<lambda>targetSize.
       draw_then (selectDuration everySpec sel) (\<lambda>ev. drawn (targetSize, ev)))"

definition selectLegacyFinishMode :: "StreamFinishConfig \<Rightarrow> 's selector \<Rightarrow> ('s, string) draw" where
  "selectLegacyFinishMode finish sel =
     (if fi_Mode finish = [] then drawn StreamFinishComplete
      else if fi_Mode finish \<noteq> StreamFinishWeighted then drawn (fi_Mode finish)
      else draw_then (selectInclusive 0 (weightedFinishScale - 1) sel) (\<lambda>d.
        drawn (if d < CompletePercent finish then StreamFinishComplete else StreamFinishFIN)))"

definition selectLegacyDuration :: "StreamConfig \<Rightarrow> string \<Rightarrow> 's selector \<Rightarrow> ('s, int) draw" where
  "selectLegacyDuration cfg mode sel =
     draw_then (selectDuration (sc_Duration cfg) sel) (\<lambda>dur.
       if \<not> partialStreamFinish mode \<or> \<not> du_IsSet (fin_AfterTime (fi_Fin (sc_Finish cfg))) then drawn dur
       else draw_then (selectDuration (fin_AfterTime (fi_Fin (sc_Finish cfg))) sel) (\<lambda>finishDuration.
         drawn (if dur = 0 \<or> finishDuration < dur then finishDuration else dur)))"

definition selectLegacyBodyBytes :: "plan_options \<Rightarrow> SizeSpec \<Rightarrow> 's selector \<Rightarrow> ('s, plan_options) draw" where
  "selectLegacyBodyBytes options bytesSpec sel =
     (if partialStreamFinish (opt_FinishMode options) \<and> sz_IsSet bytesSpec
      then draw_then (selectSize bytesSpec sel) (\<lambda>selected.
        drawn (options\<lparr>opt_SelectedBytes := min selected (opt_SourceSize options), opt_SelectedBytesSet := True\<rparr>))
      else drawn options)"

definition selectLegacyPlanOptions :: "StreamConfig \<Rightarrow> int \<Rightarrow> 's selector \<Rightarrow> ('s, plan_options) draw" where
  "selectLegacyPlanOptions cfg srcSize sel =
     draw_then (selectLegacyFinishMode (sc_Finish cfg) sel) (\<lambda>mode.
     draw_then (selectThrottle (chunks_Size (sc_Chunks cfg)) (chunks_Delay (sc_Chunks cfg)) sel) (\<lambda>(targetSize, ev).
     draw_then (selectLegacyDuration cfg mode sel) (\<lambda>dur.
       selectLegacyBodyBytes
         \<lparr>opt_FinishMode = mode, opt_SourceSize = srcSize, opt_SelectedBytes = 0, opt_TargetChunkSize = targetSize,
          opt_Duration = dur, opt_Every = ev, opt_TargetChunks = 0, opt_SelectedBytesSet = False\<rparr>
         (fin_AfterBytes (fi_Fin (sc_Finish cfg))) sel)))"

definition selectDirectBodyBytes :: "plan_options \<Rightarrow> PercentSpec \<Rightarrow> 's selector \<Rightarrow> ('s, plan_options) draw" where
  "selectDirectBodyBytes options percentSpec sel =
     (if pc_IsSet percentSpec
      then draw_then (selectPercent percentSpec sel) (\<lambda>percent.
        drawn (options\<lparr>opt_SelectedBytes := percentOf (opt_SourceSize options) percent, opt_SelectedBytesSet := True\<rparr>))
      else drawn options)"

definition selectDirectPlanOptions :: "StreamConfig \<Rightarrow> int \<Rightarrow> 's selector \<Rightarrow> ('s, plan_options) draw" where
  "selectDirectPlanOptions cfg srcSize sel =
     draw_then (selectDuration (send_Duration (sc_Send cfg)) sel) (\<lambda>dur.
     draw_then (selectThrottle (TargetChunkSize (sc_Throttle cfg)) (Every (sc_Throttle cfg)) sel) (\<lambda>(targetSize, ev).
       selectDirectBodyBytes
         \<lparr>opt_FinishMode = end_Mode (sc_End cfg), opt_SourceSize = srcSize, opt_SelectedBytes = 0,
          opt_TargetChunkSize = targetSize, opt_Duration = dur, opt_Every = ev,
          opt_TargetChunks = TargetChunks (sc_Throttle cfg), opt_SelectedBytesSet = False\<rparr>
         (send_Percent (sc_Send cfg)) sel))"

definition selectBodyStreamPlanOptions :: "StreamConfig \<Rightarrow> int \<Rightarrow> rands selector option \<Rightarrow> (rands, plan_options) draw" where
  "selectBodyStreamPlanOptions cfg srcSize selector =
     (let sel = (case selector of None \<Rightarrow> random_SelectInclusive | Some sel \<Rightarrow> sel) in
      if usesDirectStreamControls cfg then selectDirectPlanOptions cfg srcSize sel else selectLegacyPlanOptions cfg srcSize sel)"

text \<open>\<open>SizeHint\<close> of the payload is the argument \<open>hint\<close>.\<close>

definition newBodyStream ::
  "('p \<Rightarrow> int \<times> bool) \<Rightarrow> StreamConfig option \<Rightarrow> 'p option \<Rightarrow> rands selector option \<Rightarrow> (rands, 'p body_stream) draw" where
  "newBodyStream hint cfg payload selector =
     (case (cfg, payload) of
        (Some cfg, Some payload) \<Rightarrow>
          (case hint payload of
             (srcSize, known) \<Rightarrow>
               if \<not> known then draw_fail (ErrNew ''stream source size must be known before planning'')
               else draw_then (selectBodyStreamPlanOptions cfg srcSize selector) (\<lambda>options.
                 case PlanBodyStream options of
                   Inl e \<Rightarrow> draw_fail e
                 | Inr p \<Rightarrow> drawn \<lparr>st_Reader = None, st_Payload = Some payload, st_Plan = p\<rparr>))
      | _ \<Rightarrow> draw_fail (ErrNew ''stream configuration and payload are required''))"

section \<open>Draws that return a value\<close>

text \<open>Started in a good state, the computation returns without an error, in a good state, a value with the property.\<close>

definition yields :: "('s \<Rightarrow> bool) \<Rightarrow> ('s, 'a) draw \<Rightarrow> ('a \<Rightarrow> bool) \<Rightarrow> bool" where
  "yields good m P \<longleftrightarrow> (\<forall>s. good s \<longrightarrow> (\<exists>x s'. m s = Some (Inr x, s') \<and> good s' \<and> P x))"

lemma yields_drawn: "P x \<Longrightarrow> yields good (drawn x) P"
  by (simp add: yields_def drawn_def)

lemma yields_then:
  assumes "yields good m Q" "\<And>x. Q x \<Longrightarrow> yields good (k x) P"
  shows "yields good (draw_then m k) P"
  unfolding yields_def
proof (intro allI impI)
  fix s
  assume "good s"
  then obtain x s' where m: "m s = Some (Inr x, s')" "good s'" "Q x" using assms(1) by (auto simp: yields_def)
  with assms(2) [of x] show "\<exists>y t. draw_then m k s = Some (Inr y, t) \<and> good t \<and> P y"
    by (auto simp: yields_def draw_then_def)
qed

lemma yields_mono: "yields good m Q \<Longrightarrow> (\<And>x. Q x \<Longrightarrow> P x) \<Longrightarrow> yields good m P"
  by (fastforce simp: yields_def)

text \<open>The ranges the decoders of \<^verbatim>\<open>internal/storage\<close> produce: ordered and not negative.\<close>

definition size_ok :: "SizeSpec \<Rightarrow> bool" where
  "size_ok d \<longleftrightarrow> (sz_IsSet d \<longrightarrow> 0 \<le> sz_Min d \<and> sz_Min d \<le> sz_Max d \<and> sz_Max d \<le> MaxInt64)"

definition duration_ok :: "DurationSpec \<Rightarrow> bool" where
  "duration_ok d \<longleftrightarrow> (du_IsSet d \<longrightarrow> 0 \<le> du_Min d \<and> du_Min d \<le> du_Max d \<and> du_Max d \<le> MaxInt64)"

definition percent_ok :: "PercentSpec \<Rightarrow> bool" where
  "percent_ok d \<longleftrightarrow> (pc_IsSet d \<longrightarrow> 0 \<le> pc_Min d \<and> pc_Min d \<le> pc_Max d \<and> pc_Max d \<le> 100)"

definition ranges_ok :: "StreamConfig \<Rightarrow> bool" where
  "ranges_ok cfg \<longleftrightarrow>
     percent_ok (send_Percent (sc_Send cfg)) \<and> duration_ok (send_Duration (sc_Send cfg)) \<and>
     size_ok (TargetChunkSize (sc_Throttle cfg)) \<and> duration_ok (Every (sc_Throttle cfg)) \<and>
     in_int64 (TargetChunks (sc_Throttle cfg)) \<and>
     size_ok (chunks_Size (sc_Chunks cfg)) \<and> duration_ok (chunks_Delay (sc_Chunks cfg)) \<and> duration_ok (sc_Duration cfg) \<and>
     size_ok (fin_AfterBytes (fi_Fin (sc_Finish cfg))) \<and> duration_ok (fin_AfterTime (fi_Fin (sc_Finish cfg)))"

definition in_duration :: "DurationSpec \<Rightarrow> int \<Rightarrow> bool" where
  "in_duration d v \<longleftrightarrow> (if du_IsSet d then du_Min d \<le> v \<and> v \<le> du_Max d else v = 0)"

definition in_size :: "SizeSpec \<Rightarrow> int \<Rightarrow> bool" where
  "in_size d v \<longleftrightarrow> (if sz_IsSet d then sz_Min d \<le> v \<and> v \<le> sz_Max d else v = 0)"

lemma in_duration_int64: "duration_ok d \<Longrightarrow> in_duration d v \<Longrightarrow> 0 \<le> v \<and> v \<le> MaxInt64"
  by (auto simp: duration_ok_def in_duration_def MaxInt64_def split: if_splits)

lemma in_size_int64: "size_ok d \<Longrightarrow> in_size d v \<Longrightarrow> 0 \<le> v \<and> v \<le> MaxInt64"
  by (auto simp: size_ok_def in_size_def MaxInt64_def split: if_splits)

lemma percentOf_exact:
  assumes "0 \<le> srcSize" "srcSize \<le> MaxInt64" "0 \<le> percent" "percent \<le> 100"
  shows "percentOf srcSize percent = srcSize * percent div 100" "0 \<le> percentOf srcSize percent" "percentOf srcSize percent \<le> srcSize"
proof -
  let ?q = "srcSize div 100" and ?r = "srcSize mod 100"
  have r: "0 \<le> ?r" "?r < 100" "0 \<le> ?q" using assms by (auto simp: pos_imp_zdiv_nonneg_iff)
  have eq: "srcSize * percent div 100 = ?q * percent + ?r * percent div 100"
  proof -
    have "(?q * 100 + ?r) * percent = ?r * percent + (?q * percent) * 100" by (simp only: algebra_simps)
    then have "srcSize * percent = ?r * percent + (?q * percent) * 100" by (simp only: div_mult_mod_eq)
    then show ?thesis by simp
  qed
  have "?q * percent \<le> ?q * 100" "?r * percent \<le> 100 * 100"
    using assms r mult_mono [of ?r 100 percent 100] by (auto intro: mult_left_mono)
  then have w: "0 \<le> ?q * percent" "?q * percent \<le> MaxInt64" "0 \<le> ?r * percent" "?r * percent \<le> MaxInt64"
    using assms r by (auto simp: MaxInt64_def)
  have le: "srcSize * percent div 100 \<le> srcSize * 100 div 100" using assms by (intro zdiv_mono1 mult_left_mono) auto
  have d: "srcSize sdiv 100 = ?q" "srcSize smod 100 = ?r" "(?r * percent) sdiv 100 = ?r * percent div 100"
    using assms(1) w(3) by (simp_all add: signed_divide_int_def signed_modulo_int_def sgn_if)
  have ge: "0 \<le> srcSize * percent div 100" using assms by (simp add: pos_imp_zdiv_nonneg_iff)
  have "percentOf srcSize percent = wrap64 (?q * percent + ?r * percent div 100)"
    unfolding percentOf_def weightedFinishScale_def d(1,2) using w d(3) by simp
  also have "\<dots> = srcSize * percent div 100"
    unfolding eq [symmetric] using ge le assms(2) by simp
  finally show e: "percentOf srcSize percent = srcSize * percent div 100" .
  show "0 \<le> percentOf srcSize percent" "percentOf srcSize percent \<le> srcSize" unfolding e using ge le by simp_all
qed

text \<open>What one draw may come to: the end mode, the number of bytes and the cadence lie in what the configuration asks for.\<close>

definition selectable_mode :: "StreamConfig \<Rightarrow> string \<Rightarrow> bool" where
  "selectable_mode cfg m \<longleftrightarrow>
     (if usesDirectStreamControls cfg then m = newStreamEndMode (sc_End cfg)
      else if fi_Mode (sc_Finish cfg) = streamFinishWeighted then m \<in> {streamFinishComplete, streamFinishFIN}
      else m = (if fi_Mode (sc_Finish cfg) = [] then streamFinishComplete else fi_Mode (sc_Finish cfg)))"

definition selectable_bytes :: "StreamConfig \<Rightarrow> string \<Rightarrow> int \<Rightarrow> int \<Rightarrow> bool" where
  "selectable_bytes cfg m n b \<longleftrightarrow>
     (if usesDirectStreamControls cfg
      then (let p = send_Percent (sc_Send cfg) in
            if pc_IsSet p then n * pc_Min p div 100 \<le> b \<and> b \<le> n * pc_Max p div 100 else b = n)
      else (let d = fin_AfterBytes (fi_Fin (sc_Finish cfg)) in
            if m = streamFinishFIN \<and> sz_IsSet d then min (sz_Min d) n \<le> b \<and> b \<le> min (sz_Max d) n else b = n))"

definition cadence_max :: "StreamConfig \<Rightarrow> int" where
  "cadence_max cfg =
     (let d = (if usesDirectStreamControls cfg then Every (sc_Throttle cfg) else chunks_Delay (sc_Chunks cfg)) in
      if du_IsSet d then du_Max d else 0)"

definition named_mode :: "plan_options \<Rightarrow> plan_options" where
  "named_mode opt = (if opt_FinishMode opt = [] then opt\<lparr>opt_FinishMode := StreamFinishComplete\<rparr> else opt)"

definition selected_options :: "StreamConfig \<Rightarrow> int \<Rightarrow> plan_options \<Rightarrow> bool" where
  "selected_options cfg n opt \<longleftrightarrow>
     options_int64 opt \<and> validateBodyStreamPlanOptions (named_mode opt) = None \<and> opt_SourceSize opt = n \<and>
     opt_Every opt \<le> cadence_max cfg \<and> selectable_mode cfg (opt_FinishMode (named_mode opt)) \<and>
     selectable_bytes cfg (opt_FinishMode (named_mode opt)) n (selectedBodyBytes opt)"

lemma direct_selected:
  assumes cfg: "ranges_ok cfg" "validateNewStreamControls cfg = None" "usesDirectStreamControls cfg"
    and n: "0 \<le> n" "n \<le> MaxInt64"
    and d: "in_duration (send_Duration (sc_Send cfg)) d" "in_size (TargetChunkSize (sc_Throttle cfg)) t"
      "in_duration (Every (sc_Throttle cfg)) e"
    and b: "if pc_IsSet (send_Percent (sc_Send cfg))
            then isSet \<and> (\<exists>q. b = percentOf n q \<and> pc_Min (send_Percent (sc_Send cfg)) \<le> q \<and> q \<le> pc_Max (send_Percent (sc_Send cfg)))
            else \<not> isSet \<and> b = 0"
  shows "selected_options cfg n
    \<lparr>opt_FinishMode = end_Mode (sc_End cfg), opt_SourceSize = n, opt_SelectedBytes = b, opt_TargetChunkSize = t,
     opt_Duration = d, opt_Every = e, opt_TargetChunks = TargetChunks (sc_Throttle cfg), opt_SelectedBytesSet = isSet\<rparr>"
proof -
  let ?p = "send_Percent (sc_Send cfg)"
  have ranges: "0 \<le> d" "d \<le> MaxInt64" "0 \<le> t" "t \<le> MaxInt64" "0 \<le> e" "e \<le> MaxInt64" "e \<le> cadence_max cfg"
    using cfg d in_duration_int64 in_size_int64
    by (auto simp: ranges_ok_def cadence_max_def in_duration_def split: if_splits)
  have chunks: "0 \<le> TargetChunks (sc_Throttle cfg)" "t = 0 \<or> TargetChunks (sc_Throttle cfg) = 0"
    "in_int64 (TargetChunks (sc_Throttle cfg))"
    using cfg(1,2) d(2)
    by (auto simp: validateNewStreamControls_def validateThrottleTargets_def in_size_def ranges_ok_def Let_def
        split: if_splits option.splits)
  have mode: "end_Mode (sc_End cfg) \<in> {[], streamFinishComplete} \<and> \<not> pc_IsSet ?p \<or>
      end_Mode (sc_End cfg) \<in> {streamFinishFIN, streamFinishTerm} \<and> pc_IsSet ?p"
    using cfg(2)
    by (auto simp: validateNewStreamControls_def newStreamEndMode_def validNewEndMode_def partialNewEndMode_def
        validatePartialEndControls_def stream_consts Let_def split: if_splits option.splits)
  have bytes: "0 \<le> b" "b \<le> n" "n * pc_Min ?p div 100 \<le> b" "b \<le> n * pc_Max ?p div 100" if isset: "pc_IsSet ?p"
  proof -
    obtain q where q: "b = percentOf n q" "pc_Min ?p \<le> q" "q \<le> pc_Max ?p" "0 \<le> q" "q \<le> 100"
      using b isset cfg(1) by (auto simp: ranges_ok_def percent_ok_def)
    have e: "b = n * q div 100" using percentOf_exact(1) [OF n q(4,5)] q(1) by simp
    show "0 \<le> b" "b \<le> n" using percentOf_exact [OF n q(4,5)] q(1) by auto
    show "n * pc_Min ?p div 100 \<le> b" "b \<le> n * pc_Max ?p div 100"
      unfolding e using q n by (auto intro!: zdiv_mono1 mult_left_mono)
  qed
  have int: "in_int64 n" "in_int64 d" "in_int64 e" "in_int64 t" "in_int64 b"
    using ranges n b bytes by (auto simp: in_int64_def MinInt64_def MaxInt64_def split: if_splits)
  from mode show ?thesis
  proof
    assume "end_Mode (sc_End cfg) \<in> {[], streamFinishComplete} \<and> \<not> pc_IsSet ?p"
    then show ?thesis using b ranges chunks int n cfg(3)
      by (auto simp: selected_options_def options_int64_def named_mode_def validateBodyStreamPlanOptions_def
          validateSelectedBodyBytes_def validSelectedFinishMode_def selectable_mode_def selectable_bytes_def
          selectedBodyBytes_def newStreamEndMode_def finish_defs stream_consts)
  next
    assume "end_Mode (sc_End cfg) \<in> {streamFinishFIN, streamFinishTerm} \<and> pc_IsSet ?p"
    then show ?thesis using b bytes ranges chunks int n cfg(3)
      by (auto simp: selected_options_def options_int64_def named_mode_def validateBodyStreamPlanOptions_def
          validateSelectedBodyBytes_def validSelectedFinishMode_def selectable_mode_def selectable_bytes_def
          selectedBodyBytes_def newStreamEndMode_def finish_defs stream_consts)
  qed
qed

lemma legacy_selected:
  assumes cfg: "ranges_ok cfg" "validateStreamFinish cfg = Inr cfg'" "\<not> usesDirectStreamControls cfg"
    and n: "0 \<le> n" "n \<le> MaxInt64"
    and m: "m = (if fi_Mode (sc_Finish cfg) = [] then StreamFinishComplete else fi_Mode (sc_Finish cfg)) \<and>
        fi_Mode (sc_Finish cfg) \<noteq> StreamFinishWeighted \<or>
      fi_Mode (sc_Finish cfg) = StreamFinishWeighted \<and> m \<in> {StreamFinishComplete, StreamFinishFIN}"
    and d: "0 \<le> d" "d \<le> MaxInt64" "in_size (chunks_Size (sc_Chunks cfg)) t" "in_duration (chunks_Delay (sc_Chunks cfg)) e"
    and b: "if partialStreamFinish m \<and> sz_IsSet (fin_AfterBytes (fi_Fin (sc_Finish cfg)))
            then isSet \<and> (\<exists>q. b = min q n \<and> in_size (fin_AfterBytes (fi_Fin (sc_Finish cfg))) q)
            else \<not> isSet \<and> b = 0"
  shows "selected_options cfg n
    \<lparr>opt_FinishMode = m, opt_SourceSize = n, opt_SelectedBytes = b, opt_TargetChunkSize = t,
     opt_Duration = d, opt_Every = e, opt_TargetChunks = 0, opt_SelectedBytesSet = isSet\<rparr>"
proof -
  let ?d = "fin_AfterBytes (fi_Fin (sc_Finish cfg))"
  have ranges: "0 \<le> t" "t \<le> MaxInt64" "0 \<le> e" "e \<le> MaxInt64" "e \<le> cadence_max cfg"
    using cfg d(3,4) in_duration_int64 in_size_int64
    by (auto simp: ranges_ok_def cadence_max_def in_duration_def split: if_splits)
  have mode: "m = StreamFinishComplete \<or> m = StreamFinishFIN" "selectable_mode cfg m"
    using cfg(2,3) m
    by (auto simp: validateStreamFinish_def validFinishMode_def validateTermFinish_def selectable_mode_def finish_defs
        StreamFinishWeighted_def stream_consts Let_def split: if_splits option.splits)
  have bytes: "0 \<le> b \<and> b \<le> n \<and> min (sz_Min ?d) n \<le> b \<and> b \<le> min (sz_Max ?d) n"
    if partial: "partialStreamFinish m" "sz_IsSet ?d"
  proof -
    obtain q where q: "b = min q n" "in_size ?d q" "0 \<le> q"
      using b partial cfg(1) in_size_int64 by (auto simp: ranges_ok_def)
    then show ?thesis using n partial by (auto simp: in_size_def)
  qed
  have int: "in_int64 n" "in_int64 d" "in_int64 e" "in_int64 t" "in_int64 b"
    using ranges n d b bytes by (auto simp: in_int64_def MinInt64_def MaxInt64_def split: if_splits)
  have "validateBodyStreamPlanOptions \<lparr>opt_FinishMode = m, opt_SourceSize = n, opt_SelectedBytes = b, opt_TargetChunkSize = t,
     opt_Duration = d, opt_Every = e, opt_TargetChunks = 0, opt_SelectedBytesSet = isSet\<rparr> = None"
    using mode(1) n d ranges b bytes
    by (auto simp: validateBodyStreamPlanOptions_def validateSelectedBodyBytes_def validSelectedFinishMode_def
        partialStreamFinish_def finish_defs split: if_splits)
  moreover have "selectable_bytes cfg m n (if isSet then b else n)"
    using mode(1) b bytes cfg(3)
    by (auto simp: selectable_bytes_def partialStreamFinish_def finish_defs stream_consts Let_def split: if_splits)
  moreover have "m \<noteq> []" using mode(1) by (auto simp: finish_defs)
  ultimately show ?thesis
    using int mode(2) ranges
    by (auto simp: selected_options_def options_int64_def named_mode_def selectedBodyBytes_def in_int64_def
        MinInt64_def MaxInt64_def split: if_splits)
qed

text \<open>Valid options become a plan unless the cadence is beyond 106 days, where 999 intervals may not fit an \<open>int64\<close>.\<close>

lemma selected_options_plan:
  assumes "selected_options cfg n opt" "cadence_max cfg \<le> MaxInt64 div 999" "0 \<le> n"
  shows "\<exists>p. PlanBodyStream opt = Inr p \<and> plan_ok p \<and> sourceSize p = n \<and> selectable_mode cfg (finishMode p) \<and>
    selectable_bytes cfg (finishMode p) n (bodyBytes p)"
proof -
  let ?opt = "named_mode opt" and ?c = "plannedChunkCount (named_mode opt) (selectedBodyBytes (named_mode opt))"
  have opt: "options_int64 opt" "validateBodyStreamPlanOptions ?opt = None" "opt_SourceSize opt = n"
    "selectable_mode cfg (opt_FinishMode ?opt)" "selectable_bytes cfg (opt_FinishMode ?opt) n (selectedBodyBytes opt)"
    "opt_Every ?opt \<le> MaxInt64 div 999"
    using assms(1,2) by (auto simp: selected_options_def named_mode_def)
  have body: "selectedBodyBytes ?opt = selectedBodyBytes opt" "opt_SourceSize ?opt = n"
    using opt(3) by (auto simp: named_mode_def selectedBodyBytes_def)
  have "0 \<le> selectedBodyBytes ?opt"
    using opt(2) by (auto simp: selectedBodyBytes_def validateBodyStreamPlanOptions_def validateSelectedBodyBytes_def split: if_splits)
  then have c: "?c \<le> 1000" by (rule plannedChunkCount_range)
  have "validateCadenceRange (opt_Every ?opt) ?c = None"
  proof (cases "1 < ?c")
    case True
    have "MaxInt64 div 999 \<le> MaxInt64 div (?c - 1)"
      using True c by (intro zdiv_mono2) (auto simp: MaxInt64_def)
    then show ?thesis using opt(6) by (auto simp: validateCadenceRange_def)
  qed (simp add: validateCadenceRange_def)
  then have p: "PlanBodyStream opt = Inr (newBodyStreamPlan ?opt (selectedBodyBytes ?opt) ?c)"
    using opt(2) by (simp add: PlanBodyStream_def named_mode_def [symmetric] Let_def)
  then show ?thesis using PlanBodyStream_ok [OF p opt(1)] opt(3,4,5) body by (auto simp: newBodyStreamPlan_def)
qed

section \<open>Any selector that stays in range\<close>

text \<open>
  A selector that, in a good state, returns a number of the range it is asked for.  The lemmas about the drawing
  functions need nothing else.
\<close>

locale stream_selector =
  fixes sel :: "'s selector" and good :: "'s \<Rightarrow> bool"
  assumes in_range: "good s \<Longrightarrow> 0 \<le> lo \<Longrightarrow> lo \<le> hi \<Longrightarrow> hi \<le> MaxInt64 \<Longrightarrow>
    \<exists>v s'. sel lo hi s = Some (v, s') \<and> lo \<le> v \<and> v \<le> hi \<and> good s'"
begin

lemma select_inclusive:
  assumes "0 \<le> lo" "lo \<le> hi" "hi \<le> MaxInt64"
  shows "yields good (selectInclusive lo hi sel) (\<lambda>v. lo \<le> v \<and> v \<le> hi)"
  unfolding yields_def
proof (intro allI impI)
  fix s
  assume "good s"
  then obtain v s' where "sel lo hi s = Some (v, s')" "lo \<le> v" "v \<le> hi" "good s'" using in_range assms by blast
  then show "\<exists>x t. selectInclusive lo hi sel s = Some (Inr x, t) \<and> good t \<and> lo \<le> x \<and> x \<le> hi"
    using assms by (auto simp: selectInclusive_def)
qed

lemma select_duration: "duration_ok d \<Longrightarrow> yields good (selectDuration d sel) (in_duration d)"
  using yields_mono [OF select_inclusive [of "du_Min d" "du_Max d"], of "in_duration d"]
  by (auto simp: selectDuration_def duration_ok_def in_duration_def intro: yields_drawn)

lemma select_size: "size_ok d \<Longrightarrow> yields good (selectSize d sel) (in_size d)"
  using yields_mono [OF select_inclusive [of "sz_Min d" "sz_Max d"], of "in_size d"]
  by (auto simp: selectSize_def size_ok_def in_size_def intro: yields_drawn)

lemma select_throttle:
  assumes "size_ok d" "duration_ok e"
  shows "yields good (selectThrottle d e sel) (\<lambda>(targetSize, ev). in_size d targetSize \<and> in_duration e ev)"
  unfolding selectThrottle_def
  by (intro yields_then [OF select_size [OF assms(1)]] yields_then [OF select_duration [OF assms(2)]] yields_drawn) simp

lemma select_finish_mode:
  "yields good (selectLegacyFinishMode f sel)
     (\<lambda>m. m = (if fi_Mode f = [] then StreamFinishComplete else fi_Mode f) \<and> fi_Mode f \<noteq> StreamFinishWeighted \<or>
          fi_Mode f = StreamFinishWeighted \<and> m \<in> {StreamFinishComplete, StreamFinishFIN})"
proof -
  have "yields good (selectInclusive 0 99 sel) (\<lambda>v. 0 \<le> v \<and> v \<le> 99)"
    by (rule select_inclusive) (auto simp: MaxInt64_def)
  then show ?thesis
    by (auto simp: selectLegacyFinishMode_def weightedFinishScale_def StreamFinishWeighted_def
        intro!: yields_drawn elim!: yields_then)
qed

lemma select_legacy_duration:
  assumes "duration_ok (sc_Duration cfg)" "duration_ok (fin_AfterTime (fi_Fin (sc_Finish cfg)))"
  shows "yields good (selectLegacyDuration cfg m sel) (\<lambda>d. 0 \<le> d \<and> d \<le> MaxInt64)"
  unfolding selectLegacyDuration_def
proof (rule yields_then [OF select_duration [OF assms(1)]])
  fix d
  assume d: "in_duration (sc_Duration cfg) d"
  show "yields good
     (if \<not> partialStreamFinish m \<or> \<not> du_IsSet (fin_AfterTime (fi_Fin (sc_Finish cfg))) then drawn d
      else draw_then (selectDuration (fin_AfterTime (fi_Fin (sc_Finish cfg))) sel)
        (\<lambda>f. drawn (if d = 0 \<or> f < d then f else d))) (\<lambda>d. 0 \<le> d \<and> d \<le> MaxInt64)"
    using in_duration_int64 [OF assms(1) d] in_duration_int64 [OF assms(2)]
    by (auto intro!: yields_drawn yields_then [OF select_duration [OF assms(2)]])
qed

lemma select_direct_options:
  assumes ok: "ranges_ok cfg" "validateNewStreamControls cfg = None" "usesDirectStreamControls cfg" and n: "0 \<le> n" "n \<le> MaxInt64"
  shows "yields good (selectDirectPlanOptions cfg n sel) (selected_options cfg n)"
  unfolding selectDirectPlanOptions_def
proof (rule yields_then [OF select_duration yields_then [OF select_throttle]], goal_cases)
  case (4 d x)
  let ?p = "send_Percent (sc_Send cfg)"
  obtain t e where x: "x = (t, e)" by (cases x)
  note sel = direct_selected [OF ok n 4(1), of t e]
  show ?case
  proof (cases "pc_IsSet ?p")
    case True
    then have "yields good (selectPercent ?p sel) (\<lambda>q. pc_Min ?p \<le> q \<and> q \<le> pc_Max ?p)"
      using ok(1) by (auto simp: selectPercent_def ranges_ok_def percent_ok_def MaxInt64_def intro!: select_inclusive)
    then show ?thesis using True 4(2)
      by (auto simp: x selectDirectBodyBytes_def intro!: yields_drawn sel elim!: yields_then)
  next
    case False
    then show ?thesis using 4(2) by (auto simp: x selectDirectBodyBytes_def intro!: yields_drawn sel)
  qed
qed (use ok(1) in \<open>auto simp: ranges_ok_def\<close>)

lemma select_legacy_options:
  assumes ok: "ranges_ok cfg" "validateStreamFinish cfg = Inr cfg'" "\<not> usesDirectStreamControls cfg" and n: "0 \<le> n" "n \<le> MaxInt64"
  shows "yields good (selectLegacyPlanOptions cfg n sel) (selected_options cfg n)"
  unfolding selectLegacyPlanOptions_def
proof (rule yields_then [OF select_finish_mode yields_then [OF select_throttle]], goal_cases)
  case (3 m x)
  let ?b = "fin_AfterBytes (fi_Fin (sc_Finish cfg))"
  obtain t e where x: "x = (t, e)" by (cases x)
  have d: "yields good (selectLegacyDuration cfg m sel) (\<lambda>d. 0 \<le> d \<and> d \<le> MaxInt64)"
    using ok(1) by (intro select_legacy_duration) (auto simp: ranges_ok_def)
  have b: "yields good (selectSize ?b sel) (in_size ?b)" using ok(1) by (intro select_size) (simp add: ranges_ok_def)
  show ?case
    using 3(2) unfolding x prod.case
    by (intro yields_then [OF d])
       (auto simp: selectLegacyBodyBytes_def intro!: yields_drawn yields_then [OF b] legacy_selected [OF ok n 3(1)])
qed (use ok(1) in \<open>auto simp: ranges_ok_def\<close>)

end

section \<open>The production selector\<close>

text \<open>
  The rejection loop of \<open>Int63n\<close> accepts at least every number below \<open>2^62\<close>, half of all numbers: it
  ends when the source keeps producing them.
\<close>

definition fair :: "rands \<Rightarrow> bool" where
  "fair r \<longleftrightarrow> (\<forall>n. \<exists>m \<ge> n. take_bit 63 (uint (r !! m)) < 2 ^ 62)"

lemma fair_sdrop: "fair r \<Longrightarrow> fair (sdrop k r)"
  unfolding fair_def
proof
  fix n
  assume "\<forall>n. \<exists>m \<ge> n. take_bit 63 (uint (r !! m)) < 2 ^ 62"
  then obtain m where "k + n \<le> m" "take_bit 63 (uint (r !! m)) < 2 ^ 62" by blast
  then show "\<exists>m \<ge> n. take_bit 63 (uint (sdrop k r !! m)) < 2 ^ 62"
    by (intro exI [of _ "m - k"]) (auto simp: sdrop_snth)
qed

lemma fair_stl: "fair r \<Longrightarrow> fair (stl r)"
  using fair_sdrop [of r 1] by simp

lemma int63n_loop_ends:
  "take_bit 63 (uint (r !! m)) \<le> mx \<Longrightarrow> \<exists>v k. int63n_loop mx r = Some (v, sdrop k r) \<and> 0 \<le> v \<and> v \<le> mx"
proof (induction m arbitrary: r)
  case 0
  then show ?case
    by (subst int63n_loop.simps) (auto simp: rand_Int63_def intro!: exI [of _ "Suc 0"])
next
  case (Suc m)
  show ?case
  proof (cases "take_bit 63 (uint (shd r)) \<le> mx")
    case True
    then show ?thesis by (subst int63n_loop.simps) (auto simp: rand_Int63_def intro!: exI [of _ "Suc 0"])
  next
    case False
    have "take_bit 63 (uint (stl r !! m)) \<le> mx" using Suc.prems by simp
    then obtain v k where "int63n_loop mx (stl r) = Some (v, sdrop k (stl r))" "0 \<le> v" "v \<le> mx" using Suc.IH by blast
    with False show ?thesis
      by (subst int63n_loop.simps) (auto simp: rand_Int63_def sdrop_simps intro!: exI [of _ "Suc k"])
  qed
qed

lemma rand_Int63n_range:
  assumes "fair r" "0 < n" "n \<le> MaxInt64"
  shows "\<exists>v r'. rand_Int63n n r = Some (v, r') \<and> 0 \<le> v \<and> v < n \<and> fair r'"
proof (cases "and n (n - 1) = 0")
  case True
  have "0 \<le> and v (n - 1)" "and v (n - 1) < n" for v :: int
    using assms(2) AND_upper2 [of "n - 1" v] by auto
  then show ?thesis using True assms(1,2) fair_stl by (auto simp: rand_Int63n_def rand_Int63_def)
next
  case False
  let ?mx = "2 ^ 63 - 1 - 2 ^ 63 mod n"
  have "(2::int) ^ 62 \<le> ?mx"
  proof (cases "n \<le> 2 ^ 62")
    case True
    have "2 ^ 63 mod n < n" using assms(2) by simp
    with True show ?thesis by simp
  next
    case False
    then have "(2::int) ^ 63 div n = 1"
      using assms(3) by (intro int_div_pos_eq [of _ _ _ "2 ^ 63 - n"]) (auto simp: MaxInt64_def)
    then have "2 ^ 63 mod n = 2 ^ 63 - n" by (simp add: minus_mult_div_eq_mod [symmetric])
    with False show ?thesis by simp
  qed
  moreover obtain m where "take_bit 63 (uint (r !! m)) < 2 ^ 62" using assms(1) unfolding fair_def by blast
  ultimately have "take_bit 63 (uint (r !! m)) \<le> ?mx" by linarith
  then obtain v k where "int63n_loop ?mx r = Some (v, sdrop k r)" using int63n_loop_ends by blast
  then show ?thesis using False assms(1,2) fair_sdrop by (auto simp: rand_Int63n_def)
qed

lemma random_SelectInclusive_range:
  assumes "fair r" "0 \<le> lo" "lo \<le> hi" "hi \<le> MaxInt64"
  shows "\<exists>v r'. random_SelectInclusive lo hi r = Some (v, r') \<and> lo \<le> v \<and> v \<le> hi \<and> fair r'"
proof (cases "lo = hi")
  case True
  then show ?thesis using assms(1) by (simp add: random_SelectInclusive_def)
next
  case False
  have d: "wrap64 (hi - lo) = hi - lo" using assms by simp
  show ?thesis
  proof (cases "hi - lo = MaxInt64")
    case True
    then have hi: "lo = 0" "hi = MaxInt64" using assms by auto
    then have "random_SelectInclusive lo hi r = Some (drop_bit 1 (uint (shd r)), stl r)"
      using d False assms(3) by (simp add: random_SelectInclusive_def rand_Uint64_def)
    moreover have "drop_bit 1 (uint (shd r)) \<le> MaxInt64" "0 \<le> drop_bit 1 (uint (shd r))"
      using uint_lt2p [of "shd r"] by (auto simp: drop_bit_eq_div MaxInt64_def)
    ultimately show ?thesis
      using hi fair_stl [OF assms(1)] by auto
  next
    case ne: False
    then have e: "wrap64 (hi - lo + 1) = hi - lo + 1" using assms by simp
    obtain v r' where v: "rand_Int63n (hi - lo + 1) r = Some (v, r')" "0 \<le> v" "v < hi - lo + 1" "fair r'"
      using rand_Int63n_range [OF assms(1), of "hi - lo + 1"] assms ne by auto
    then have "wrap64 (lo + v) = lo + v" using assms by simp
    with v False ne d e assms show ?thesis by (auto simp: random_SelectInclusive_def Let_def)
  qed
qed

interpretation random: stream_selector random_SelectInclusive fair
  by unfold_locales (rule random_SelectInclusive_range)

section \<open>Properties\<close>

lemma validated_controls:
  assumes "validateStreamConfig stat recompile s methods = Inr cfg"
  shows "if usesDirectStreamControls cfg then validateNewStreamControls cfg = None
    else \<exists>cfg'. validateStreamFinish cfg = Inr cfg'"
proof -
  have c: "validateStreamControls cfg = Inr cfg"
    using assms validateStreamControls_idem by (auto simp: validateStreamConfig_def split: sum.splits option.splits)
  then have "hasNewStreamControls cfg \<Longrightarrow> validateNewStreamControls cfg = None"
    by (auto simp: validateStreamControls_def split: option.splits)
  moreover have "usesDirectStreamControls cfg \<Longrightarrow> hasNewStreamControls cfg"
    by (auto simp: usesDirectStreamControls_def hasNewStreamControls_def)
  moreover have "hasNewStreamControls cfg \<Longrightarrow> validateNewStreamControls cfg = None \<Longrightarrow> usesDirectStreamControls cfg"
    by (auto simp: usesDirectStreamControls_def hasNewStreamControls_def validateNewStreamControls_def
        validateThrottleTargets_def Let_def split: if_splits option.splits)
  moreover have "\<not> hasNewStreamControls cfg \<Longrightarrow> validateStreamFinish cfg = Inr cfg"
    using c by (auto simp: validateStreamControls_def split: option.splits)
  ultimately show ?thesis by (cases "hasNewStreamControls cfg") auto
qed

text \<open>
  C9: \<^bold>\<open>A validated stream configuration always gets a plan.\<close>  Let validation have accepted the configuration, with ranges as the
  decoders produce them and a cadence of at most 106 days, and let the size of the payload be known.  Then
  planning a response with the random selector terminates, provided the random source does not avoid the lower half of its
  range forever, and it succeeds: the plan is well formed and covers the payload, its end mode is one the
  configuration asks for (either of two when weighted), and it sends a number of bytes that lies in the configured
  percentage of the payload (rounded down, computed without overflow for every \<open>int64\<close> size) or in the
  configured number of bytes, capped at the payload; everything otherwise.
\<close>

theorem stream_planning_succeeds:
  assumes "validateStreamConfig stat recompile s methods = Inr cfg"
    and "ranges_ok cfg" "cadence_max cfg \<le> MaxInt64 div 999"
    and "hint payload = (n, True)" "0 \<le> n" "n \<le> MaxInt64"
    and "fair r" "selector \<in> {None, Some random_SelectInclusive}"
  shows "\<exists>p r'. newBodyStream hint (Some cfg) (Some payload) selector r =
      Some (Inr \<lparr>st_Reader = None, st_Payload = Some payload, st_Plan = p\<rparr>, r') \<and> fair r' \<and>
    plan_ok p \<and> sourceSize p = n \<and> selectable_mode cfg (finishMode p) \<and> selectable_bytes cfg (finishMode p) n (bodyBytes p)"
proof -
  have "yields fair (selectBodyStreamPlanOptions cfg n selector) (selected_options cfg n)"
    using validated_controls [OF assms(1)] random.select_direct_options [OF assms(2) _ _ assms(5,6)]
      random.select_legacy_options [OF assms(2) _ _ assms(5,6)] assms(8)
    by (auto simp: selectBodyStreamPlanOptions_def split: if_splits)
  then obtain opt r' where opt: "selectBodyStreamPlanOptions cfg n selector r = Some (Inr opt, r')" "fair r'" "selected_options cfg n opt"
    using assms(7) by (auto simp: yields_def)
  obtain p where p: "PlanBodyStream opt = Inr p" "plan_ok p" "sourceSize p = n" "selectable_mode cfg (finishMode p)"
    "selectable_bytes cfg (finishMode p) n (bodyBytes p)"
    using selected_options_plan [OF opt(3) assms(3,5)] by blast
  then show ?thesis using opt(1,2) assms(4)
    by (intro exI [of _ p] exI [of _ r']) (simp add: newBodyStream_def draw_then_def drawn_def)
qed

definition half_stream :: StreamConfig where
  "half_stream = plain_stream\<lparr>sc_Body := [], sc_Source := \<lparr>src_From = streamSourceBody, src_Body = ''hello'', src_BodyFile = []\<rparr>\<rparr>"

theorem stream_planning_succeeds_witness:
  "\<exists>p r'. newBodyStream (\<lambda>_. (MaxInt64, True)) (Some half_stream) (Some ()) None (sconst 5) =
      Some (Inr \<lparr>st_Reader = None, st_Payload = Some (), st_Plan = p\<rparr>, r') \<and>
    finishMode p = streamFinishFIN \<and> MaxInt64 * 50 div 100 \<le> bodyBytes p \<and> bodyBytes p \<le> MaxInt64 * 60 div 100"
proof -
  have v: "validateStreamConfig (\<lambda>_. None) (\<lambda>p. Inr p) plain_stream [MethodREQMOD] = Inr half_stream"
    unfolding half_stream_def by code_simp
  have ok: "ranges_ok half_stream" "cadence_max half_stream \<le> MaxInt64 div 999" by code_simp+
  have fair: "fair (sconst 5)" by (auto simp: fair_def)
  have cfg: "usesDirectStreamControls half_stream" "newStreamEndMode (sc_End half_stream) = streamFinishFIN"
    "send_Percent (sc_Send half_stream) = \<lparr>pc_Min = 50, pc_Max = 60, pc_IsSet = True\<rparr>" by code_simp+
  show ?thesis
    using stream_planning_succeeds [OF v ok, where hint = "\<lambda>_. (MaxInt64, True)" and payload = "()" and n = MaxInt64
        and r = "sconst 5" and selector = None] fair
    by (auto simp: selectable_mode_def selectable_bytes_def cfg MaxInt64_def)
qed

end
