(* ===== verification/Stream_Source.thy ===== *)
theory Stream_Source
  imports Stream_Select Icap_Response Scenario_Match
begin

text \<open>
  Where the bytes of a streamed response come from: \<^verbatim>\<open>internal/processor/streaming.go\<close>,
  \<^verbatim>\<open>stream_multipart.go\<close> and \<^verbatim>\<open>stream_payload.go\<close>, with the payload constructors of
  \<^verbatim>\<open>pkg/icap/stream_payload.go\<close> they call.

  The state is the request, whose embedded messages load their bodies, and the files that are open.  A
  computation is a \<open>draw\<close> of \<^verbatim>\<open>Stream_Select\<close> over that state: it fails with an error, or does not return when
  the reader of a body never ends.  What the operating system and \<open>mime\<close> answer are arguments (\<open>platform\<close>): what opening a
  path gives, what closing a handle answers, and the parts a multipart body consists of.
\<close>

section \<open>Files\<close>

text \<open>
  An opened file: the answer of \<open>Stat\<close>, the bytes it delivers, and the error, other than the end of the file, that ends
  reading it.
\<close>

record stream_file =
  file_Stat :: "go_error + int"
  file_data :: string
  file_err :: "go_error option"

text \<open>A part of a multipart body, as \<open>NextPart\<close> returns it; reading it ends with \<open>part_err\<close>, or regularly.\<close>

record multipart_part =
  FormName :: string
  FileName :: string
  part_data :: string
  part_err :: "go_error option"

record ('re, 'net, 'ip) platform =
  pf_lib :: "('re, 'net, 'ip) golib"
  pf_open :: "string \<Rightarrow> go_error + stream_file"
  pf_close :: "nat \<Rightarrow> go_error option"
  pf_parts :: "string \<Rightarrow> string \<Rightarrow> multipart_part list \<times> go_error"

text \<open>Handles are numbered in the order in which files are opened.\<close>

record files =
  next_handle :: nat
  open_handles :: "nat list"

definition openStreamFile :: "('re, 'net, 'ip) platform \<Rightarrow> string \<Rightarrow> files \<Rightarrow> (go_error + stream_file \<times> nat) \<times> files" where
  "openStreamFile pf path fs =
     (case pf_open pf path of
        Inl e \<Rightarrow> (Inl e, fs)
      | Inr f \<Rightarrow>
          (Inr (f, next_handle fs),
           \<lparr>next_handle = Suc (next_handle fs), open_handles = open_handles fs @ [next_handle fs]\<rparr>))"

text \<open>
  Closing a handle.  Behind \<open>onceReadCloser\<close> a second close does nothing and answers as the first did.
\<close>

definition close_file :: "('re, 'net, 'ip) platform \<Rightarrow> nat \<Rightarrow> files \<Rightarrow> go_error option \<times> files" where
  "close_file pf h fs = (pf_close pf h, fs\<lparr>open_handles := filter (\<lambda>k. k \<noteq> h) (open_handles fs)\<rparr>)"

section \<open>Payloads\<close>

text \<open>
  The implementations of \<open>StreamPayload\<close> the processor uses: bytes, a file that can be opened once, a payload with a
  limit, a sequence, and a payload with the files its clean-up closes.
\<close>

datatype payload =
    BytesPayload string
  | OneShotPayload nat int
  | LimitedPayload payload int
  | SequencePayload "payload option list" int bool
  | PreparedPayload payload "nat list"

definition normalizeSizeHint :: "int \<Rightarrow> int" where
  "normalizeSizeHint sizeHint = (if sizeHint < 0 then UnknownStreamPayloadSize else sizeHint)"

definition streamPayloadSizeHint :: "int \<Rightarrow> int \<times> bool" where
  "streamPayloadSizeHint sizeHint = (sizeHint, 0 \<le> sizeHint)"

primrec SizeHint :: "payload \<Rightarrow> int \<times> bool" where
  "SizeHint (BytesPayload b) = streamPayloadSizeHint (int (length b))"
| "SizeHint (OneShotPayload h n) = streamPayloadSizeHint n"
| "SizeHint (LimitedPayload p m) = SizeHint p"
| "SizeHint (SequencePayload ps n r) = streamPayloadSizeHint n"
| "SizeHint (PreparedPayload p hs) = SizeHint p"

primrec Replayable :: "payload \<Rightarrow> bool" where
  "Replayable (BytesPayload b) = True"
| "Replayable (OneShotPayload h n) = False"
| "Replayable (LimitedPayload p m) = Replayable p"
| "Replayable (SequencePayload ps n r) = r"
| "Replayable (PreparedPayload p hs) = Replayable p"

definition NewBorrowedBytesStreamPayload :: "string option \<Rightarrow> payload" where
  "NewBorrowedBytesStreamPayload body = BytesPayload (case body of None \<Rightarrow> [] | Some b \<Rightarrow> b)"

definition NewOneShotStreamPayload :: "nat \<Rightarrow> int \<Rightarrow> payload" where
  "NewOneShotStreamPayload h sizeHint = OneShotPayload h (normalizeSizeHint sizeHint)"

definition NewLimitedStreamPayload :: "payload \<Rightarrow> int \<Rightarrow> go_error + payload" where
  "NewLimitedStreamPayload p maxBytes =
     (if maxBytes \<le> 0 then Inr p
      else if snd (SizeHint p) \<and> fst (SizeHint p) > maxBytes then Inl ErrBodyTooLarge
      else Inr (LimitedPayload p maxBytes))"

fun sequence_metadata :: "int \<Rightarrow> bool \<Rightarrow> bool \<Rightarrow> payload option list \<Rightarrow> int \<times> bool" where
  "sequence_metadata acc knownTotal replayable [] =
     (if \<not> knownTotal then UnknownStreamPayloadSize else acc, replayable)"
| "sequence_metadata acc knownTotal replayable (None # ps) = sequence_metadata acc False False ps"
| "sequence_metadata acc knownTotal replayable (Some p # ps) =
     (let replayable' = (replayable \<and> Replayable p) in
      case SizeHint p of
        (n, known) \<Rightarrow>
          if \<not> known then sequence_metadata acc False replayable' ps
          else sequence_metadata (wrap64 (acc + n)) knownTotal replayable' ps)"

definition sequencePayloadMetadata :: "payload option list \<Rightarrow> int \<times> bool" where
  "sequencePayloadMetadata ps = sequence_metadata 0 True True ps"

definition NewSequenceStreamPayload :: "payload option list \<Rightarrow> payload" where
  "NewSequenceStreamPayload ps = (let (n, replayable) = sequencePayloadMetadata ps in SequencePayload ps n replayable)"

subsection \<open>Clean-up\<close>

fun close_all :: "('re, 'net, 'ip) platform \<Rightarrow> nat list \<Rightarrow> files \<Rightarrow> files" where
  "close_all pf [] fs = fs"
| "close_all pf (h # hs) fs = close_all pf hs (snd (close_file pf h fs))"

definition payload_handles :: "payload \<Rightarrow> nat list" where
  "payload_handles p = (case p of PreparedPayload q hs \<Rightarrow> hs | _ \<Rightarrow> [])"

definition cleanupStreamPayload :: "('re, 'net, 'ip) platform \<Rightarrow> payload \<Rightarrow> files \<Rightarrow> files" where
  "cleanupStreamPayload pf p fs = close_all pf (payload_handles p) fs"

definition cleanupStreamPayloads :: "('re, 'net, 'ip) platform \<Rightarrow> payload list \<Rightarrow> files \<Rightarrow> files" where
  "cleanupStreamPayloads pf ps fs = fold (cleanupStreamPayload pf) ps fs"

definition newPreparedFilePayload :: "nat \<Rightarrow> int \<Rightarrow> payload" where
  "newPreparedFilePayload h n = PreparedPayload (NewOneShotStreamPayload h n) [h]"

definition newPreparedSequencePayload :: "payload list \<Rightarrow> payload" where
  "newPreparedSequencePayload ps =
     PreparedPayload (NewSequenceStreamPayload (map Some ps)) (concat (map payload_handles ps))"

definition preserveStreamPayloadCleanup :: "payload \<Rightarrow> payload \<Rightarrow> payload" where
  "preserveStreamPayloadCleanup p original =
     (case original of PreparedPayload q hs \<Rightarrow> PreparedPayload p hs | _ \<Rightarrow> p)"

section \<open>Limits\<close>

definition errStreamSourceBodyTooLarge :: go_error where
  "errStreamSourceBodyTooLarge = ErrNew ''stream source body exceeds max_body_size''"

definition errRepeatedLiveStreamPart :: go_error where
  "errRepeatedLiveStreamPart = ErrNew ''stream parts repeat live HTTP body source''"

definition defaultStreamBodyLimit :: int where "defaultStreamBodyLimit = 10 * 1024 * 1024"

definition streamBodyLimitUnlimited :: "int \<Rightarrow> bool" where
  "streamBodyLimitUnlimited limit \<longleftrightarrow> limit \<le> 0"

definition streamBodyLimitError :: "int \<Rightarrow> go_error" where
  "streamBodyLimitError limit = ErrWrap ('': limit '' @ go_Itoa limit @ '' bytes'') errStreamSourceBodyTooLarge"

definition streamBodyReadError :: "go_error \<Rightarrow> int \<Rightarrow> go_error" where
  "streamBodyReadError err limit = (if go_Is err ErrBodyTooLarge then streamBodyLimitError limit else err)"

definition streamBytesWithinLimit :: "string \<Rightarrow> int \<Rightarrow> go_error + string" where
  "streamBytesWithinLimit body limit =
     (if \<not> streamBodyLimitUnlimited limit \<and> int (length body) > limit then Inl (streamBodyLimitError limit) else Inr body)"

definition appendStreamBytes :: "string \<Rightarrow> string \<Rightarrow> int \<Rightarrow> go_error + string" where
  "appendStreamBytes out body limit =
     (if \<not> streamBodyLimitUnlimited limit \<and> wrap64 (int (length out) + int (length body)) > limit
      then Inl (streamBodyLimitError limit) else Inr (out @ body))"

text \<open>\<open>io.ReadAll\<close> of an \<open>io.LimitedReader\<close> with budget \<open>N\<close>: a negative budget reads nothing.\<close>

definition read_limited :: "int \<Rightarrow> string \<Rightarrow> go_error option \<Rightarrow> string \<times> go_error option" where
  "read_limited N bytes err = (if int (length bytes) < N then (bytes, err) else (take (nat N) bytes, None))"

definition readStreamReader :: "stream_file \<Rightarrow> int \<Rightarrow> go_error + string" where
  "readStreamReader f limit =
     (if streamBodyLimitUnlimited limit then (case file_err f of Some e \<Rightarrow> Inl e | None \<Rightarrow> Inr (file_data f))
      else (case read_limited (wrap64 (limit + 1)) (file_data f) (file_err f) of
              (body, Some e) \<Rightarrow> Inl e
            | (body, None) \<Rightarrow> streamBytesWithinLimit body limit))"

definition limitStreamPayload :: "('re, 'net, 'ip) platform \<Rightarrow> payload \<Rightarrow> int \<Rightarrow> files \<Rightarrow> (go_error + payload) \<times> files" where
  "limitStreamPayload pf p limit fs =
     (case NewLimitedStreamPayload p limit of
        Inl e \<Rightarrow> (Inl (streamBodyReadError e limit), cleanupStreamPayload pf p fs)
      | Inr limited \<Rightarrow> (Inr (preserveStreamPayloadCleanup limited p), fs))"

definition readStreamFile :: "('re, 'net, 'ip) platform \<Rightarrow> string \<Rightarrow> int \<Rightarrow> files \<Rightarrow> (go_error + string) \<times> files" where
  "readStreamFile pf path limit fs =
     (case openStreamFile pf path fs of
        (Inl e, fs1) \<Rightarrow> (Inl e, fs1)
      | (Inr (f, h), fs1) \<Rightarrow> (readStreamReader f limit, snd (close_file pf h fs1)))"

definition inlineStreamPayload :: "('re, 'net, 'ip) platform \<Rightarrow> string \<Rightarrow> int \<Rightarrow> files \<Rightarrow> (go_error + payload) \<times> files" where
  "inlineStreamPayload pf body limit fs = limitStreamPayload pf (BytesPayload body) limit fs"

definition fileStreamPayload :: "('re, 'net, 'ip) platform \<Rightarrow> string \<Rightarrow> int \<Rightarrow> files \<Rightarrow> (go_error + payload) \<times> files" where
  "fileStreamPayload pf path limit fs =
     (case openStreamFile pf path fs of
        (Inl e, fs1) \<Rightarrow> (Inl e, fs1)
      | (Inr (f, h), fs1) \<Rightarrow>
          (case file_Stat f of
             Inl e \<Rightarrow> (let (ce, fs2) = close_file pf h fs1 in (Inl (the (go_join [Some e, ce])), fs2))
           | Inr n \<Rightarrow> limitStreamPayload pf (newPreparedFilePayload h n) limit fs1))"

section \<open>Bodies of the request\<close>

text \<open>The code passes pointers to the embedded messages around: which of the two it is.\<close>

datatype http_side = RequestSide | ResponseSide

fun side_message :: "http_side \<Rightarrow> ('q, 'r, 'b) request \<Rightarrow> ('r, 'b) http_message option" where
  "side_message RequestSide req = HTTPRequest req"
| "side_message ResponseSide req = HTTPResponse req"

fun set_side_message :: "http_side \<Rightarrow> ('r, 'b) http_message \<Rightarrow> ('q, 'r, 'b) request \<Rightarrow> ('q, 'r, 'b) request" where
  "set_side_message RequestSide m req = req\<lparr>HTTPRequest := Some m\<rparr>"
| "set_side_message ResponseSide m req = req\<lparr>HTTPResponse := Some m\<rparr>"

definition requestHTTPMessage :: "('q, 'r, 'b) request \<Rightarrow> go_error + http_side" where
  "requestHTTPMessage req =
     (if HTTPRequest req = None then Inl (ErrNew ''request body source requires an encapsulated HTTP request'')
      else Inr RequestSide)"

definition responseHTTPMessage :: "('q, 'r, 'b) request \<Rightarrow> go_error + http_side" where
  "responseHTTPMessage req =
     (if HTTPResponse req = None then Inl (ErrNew ''response body source requires an encapsulated HTTP response'')
      else Inr ResponseSide)"

definition adaptedHTTPBodyMessage :: "('q, 'r, 'b) request \<Rightarrow> go_error + http_side" where
  "adaptedHTTPBodyMessage req =
     (if r_Method req = MethodREQMOD then requestHTTPMessage req
      else if r_Method req = MethodRESPMOD then responseHTTPMessage req
      else Inl (ErrNew (''adapted_http_body source does not support ICAP method '' @ go_Quote (r_Method req))))"

definition unsupported_source :: "string \<Rightarrow> go_error" where
  "unsupported_source from = ErrNew (''unsupported source '' @ go_Quote from)"

definition rawHTTPBodyMessage :: "string \<Rightarrow> ('q, 'r, 'b) request \<Rightarrow> go_error + http_side" where
  "rawHTTPBodyMessage from req =
     (if from = streamSourceRequestBody \<or> from = streamSourceRequestHTTPBody then requestHTTPMessage req
      else if from = streamSourceResponseBody \<or> from = streamSourceResponseHTTPBody then responseHTTPMessage req
      else if from = streamSourceAdaptedHTTPBody then adaptedHTTPBodyMessage req
      else Inl (unsupported_source from))"

definition rawHTTPBodySource :: "string \<Rightarrow> bool" where
  "rawHTTPBodySource from \<longleftrightarrow>
     from \<in> {streamSourceRequestBody, streamSourceRequestHTTPBody, streamSourceResponseBody, streamSourceResponseHTTPBody,
             streamSourceAdaptedHTTPBody}"

definition canonicalRawHTTPBodySource :: "string \<Rightarrow> string \<Rightarrow> string option" where
  "canonicalRawHTTPBodySource from meth =
     (if from = streamSourceRequestBody \<or> from = streamSourceRequestHTTPBody then Some streamSourceRequestHTTPBody
      else if from = streamSourceResponseBody \<or> from = streamSourceResponseHTTPBody then Some streamSourceResponseHTTPBody
      else if from = streamSourceAdaptedHTTPBody
      then (if meth = MethodREQMOD then Some streamSourceRequestHTTPBody
            else if meth = MethodRESPMOD then Some streamSourceResponseHTTPBody else None)
      else None)"

definition httpBodyContentLength :: "('r, 'b) http_message \<Rightarrow> int \<times> bool" where
  "httpBodyContentLength msg =
     (case m_Header msg of
        None \<Rightarrow> (0, False)
      | Some h \<Rightarrow>
          (case Header_Get h ''Content-Length'' of
             None \<Rightarrow> (0, False)
           | Some v \<Rightarrow> (case go_ParseInt v 10 of None \<Rightarrow> (0, False) | Some n \<Rightarrow> (n, 0 \<le> n))))"

definition httpBodySizeExceedsLimit :: "('r, 'b) http_message \<Rightarrow> int \<Rightarrow> bool" where
  "httpBodySizeExceedsLimit msg limit \<longleftrightarrow>
     (let (n, ok) = httpBodyContentLength msg in ok \<and> \<not> streamBodyLimitUnlimited limit \<and> n > limit)"

definition load_message ::
  "'r body_io \<Rightarrow> int \<Rightarrow> ('r, 'b) http_message \<Rightarrow> ((string option \<times> go_error option) \<times> ('r, 'b) http_message) option" where
  "load_message io limit msg =
     (if limit \<le> 0 then GetBody (io_read io) (io_size io) (io_grow io) msg
      else GetBodyLimited (io_read io) (io_size io) (io_grow io) limit msg)"

definition httpMessageBody ::
  "'r body_io \<Rightarrow> int \<Rightarrow> ('r, 'b) http_message \<Rightarrow> ((go_error + string option) \<times> ('r, 'b) http_message) option" where
  "httpMessageBody io limit msg =
     (if httpBodySizeExceedsLimit msg limit then Some (Inl (streamBodyLimitError limit), msg)
      else (case load_message io limit msg of
              None \<Rightarrow> None
            | Some ((body, Some e), msg') \<Rightarrow> Some (Inl (streamBodyReadError e limit), msg')
            | Some ((body, None), msg') \<Rightarrow> Some (Inr body, SetLoadedBody body msg')))"

text \<open>The body of the message at hand; the request keeps what was loaded.\<close>

type_synonym ('q, 'r, 'b, 'a) sourced = "(('q, 'r, 'b) request \<times> files, 'a) draw"

definition side_body :: "'r body_io \<Rightarrow> int \<Rightarrow> http_side \<Rightarrow> ('q, 'r, 'b, string option) sourced" where
  "side_body io limit side =
     (\<lambda>(req, fs). case side_message side req of
        None \<Rightarrow> None
      | Some msg \<Rightarrow> map_option (\<lambda>(res, msg'). (res, (set_side_message side msg' req, fs))) (httpMessageBody io limit msg))"

definition returned :: "(go_error + 'a) option \<Rightarrow> ('s, 'a) draw" where
  "returned res = (\<lambda>s. map_option (\<lambda>x. (x, s)) res)"

definition from_request :: "(('q, 'r, 'b) request \<Rightarrow> go_error + 'a) \<Rightarrow> ('q, 'r, 'b, 'a) sourced" where
  "from_request f = (\<lambda>(req, fs). Some (f req, (req, fs)))"

definition on_files :: "(files \<Rightarrow> (go_error + 'a) \<times> files) \<Rightarrow> ('q, 'r, 'b, 'a) sourced" where
  "on_files f = (\<lambda>(req, fs). case f fs of (res, fs') \<Rightarrow> Some (res, (req, fs')))"

definition rawHTTPBodyStreamPayload :: "'r body_io \<Rightarrow> string \<Rightarrow> int \<Rightarrow> ('q, 'r, 'b, payload) sourced" where
  "rawHTTPBodyStreamPayload io from limit =
     draw_then (from_request (rawHTTPBodyMessage from)) (\<lambda>side.
     draw_then (side_body io limit side) (\<lambda>body. drawn (NewBorrowedBytesStreamPayload body)))"

definition streamSourcePayload ::
  "('re, 'net, 'ip) platform \<Rightarrow> 'r body_io \<Rightarrow> StreamSourceConfig \<Rightarrow> int \<Rightarrow> ('q, 'r, 'b, payload) sourced" where
  "streamSourcePayload pf io src limit =
     (if rawHTTPBodySource (src_From src) then rawHTTPBodyStreamPayload io (src_From src) limit
      else if src_From src = ''body'' then on_files (inlineStreamPayload pf (src_Body src) limit)
      else if src_From src = ''body_file'' then on_files (fileStreamPayload pf (src_BodyFile src) limit)
      else draw_fail (unsupported_source (src_From src)))"

section \<open>Parts\<close>

definition messageHasCachedStreamBody :: "('r, 'b) http_message \<Rightarrow> bool" where
  "messageHasCachedStreamBody msg \<longleftrightarrow> IsBodyLoaded msg \<or> 0 < length (body_bytes msg)"

definition liveHTTPBodySource :: "string \<Rightarrow> ('q, 'r, 'b) request \<Rightarrow> go_error + bool" where
  "liveHTTPBodySource source req =
     (case rawHTTPBodyMessage source req of
        Inl e \<Rightarrow> Inl e
      | Inr side \<Rightarrow>
          (case side_message side req of
             None \<Rightarrow> Inr False
           | Some msg \<Rightarrow> Inr (BodyReader msg \<noteq> None \<and> \<not> messageHasCachedStreamBody msg)))"

definition rejectRepeatedLivePart :: "string \<Rightarrow> nat \<Rightarrow> nat \<Rightarrow> ('q, 'r, 'b) request \<Rightarrow> go_error option" where
  "rejectRepeatedLivePart source first current req =
     (case liveHTTPBodySource source req of
        Inl e \<Rightarrow> Some e
      | Inr live \<Rightarrow>
          if \<not> live then None
          else Some (ErrWrap ('' '' @ go_Quote source @ '' at parts['' @ go_Itoa (int first) @ ''] and parts['' @
                                go_Itoa (int current) @ '']'') errRepeatedLiveStreamPart))"

fun reject_from :: "nat \<Rightarrow> (string \<times> nat) list \<Rightarrow> StreamPartConfig list \<Rightarrow> ('q, 'r, 'b) request \<Rightarrow> go_error option" where
  "reject_from i seen [] req = None"
| "reject_from i seen (part # parts) req =
     (case canonicalRawHTTPBodySource (src_From part) (r_Method req) of
        None \<Rightarrow> reject_from (Suc i) seen parts req
      | Some source \<Rightarrow>
          (case map_of seen source of
             Some first \<Rightarrow>
               (case rejectRepeatedLivePart source first i req of
                  Some e \<Rightarrow> Some e
                | None \<Rightarrow> reject_from (Suc i) seen parts req)
           | None \<Rightarrow> reject_from (Suc i) ((source, i) # seen) parts req))"

definition rejectRepeatedLiveHTTPBodyParts :: "StreamPartConfig list \<Rightarrow> ('q, 'r, 'b) request \<Rightarrow> go_error option" where
  "rejectRepeatedLiveHTTPBodyParts parts req = reject_from 0 [] parts req"

definition streamPartPayload ::
  "('re, 'net, 'ip) platform \<Rightarrow> 'r body_io \<Rightarrow> StreamPartConfig \<Rightarrow> int \<Rightarrow> ('q, 'r, 'b, payload) sourced" where
  "streamPartPayload pf io part limit = streamSourcePayload pf io part limit"

text \<open>The loop over the parts; when one fails, what the earlier ones opened is closed.\<close>

fun part_payloads ::
  "('re, 'net, 'ip) platform \<Rightarrow> 'r body_io \<Rightarrow> int \<Rightarrow> payload list \<Rightarrow> StreamPartConfig list \<Rightarrow> ('q, 'r, 'b, payload list) sourced" where
  "part_payloads pf io limit acc [] s = Some (Inr acc, s)"
| "part_payloads pf io limit acc (part # parts) s =
     (case streamPartPayload pf io part limit s of
        None \<Rightarrow> None
      | Some (Inl e, (req, fs)) \<Rightarrow> Some (Inl e, (req, cleanupStreamPayloads pf acc fs))
      | Some (Inr p, s') \<Rightarrow> part_payloads pf io limit (acc @ [p]) parts s')"

definition streamPartsPayload ::
  "('re, 'net, 'ip) platform \<Rightarrow> 'r body_io \<Rightarrow> StreamPartConfig list \<Rightarrow> int \<Rightarrow> ('q, 'r, 'b, payload) sourced" where
  "streamPartsPayload pf io parts limit =
     draw_then (from_request (\<lambda>req. case rejectRepeatedLiveHTTPBodyParts parts req of Some e \<Rightarrow> Inl e | None \<Rightarrow> Inr ())) (\<lambda>_.
     draw_then (part_payloads pf io limit [] parts) (\<lambda>payloads.
       on_files (limitStreamPayload pf (newPreparedSequencePayload payloads) limit)))"

section \<open>Multipart bodies and the fallback\<close>

definition multipartMediaPrefix :: string where "multipartMediaPrefix = ''multipart/''"

definition errMultipartContentTypeRequired :: go_error where
  "errMultipartContentTypeRequired = ErrNew ''multipart selector requires multipart Content-Type''"

definition errMultipartBoundaryRequired :: go_error where
  "errMultipartBoundaryRequired = ErrNew ''multipart selector requires non-empty boundary''"

definition errNoMultipartPartsMatched :: go_error where
  "errNoMultipartPartsMatched = ErrNew ''no multipart parts matched stream selector''"

text \<open>\<open>regexp.MustCompile\<close> panics on a pattern that does not compile: the value \<^const>\<open>None\<close>.\<close>

fun matchesAnyPattern :: "('re, 'net, 'ip) golib \<Rightarrow> string \<Rightarrow> string list \<Rightarrow> bool option" where
  "matchesAnyPattern lib v [] = Some False"
| "matchesAnyPattern lib v (p # ps) =
     (case re_Compile lib p of
        Inl e \<Rightarrow> None
      | Inr re \<Rightarrow> if re_MatchString lib re v then Some True else matchesAnyPattern lib v ps)"

definition fieldSelected :: "string \<Rightarrow> string list \<Rightarrow> bool" where
  "fieldSelected name names \<longleftrightarrow> list_ex (\<lambda>field. field = name) names"

definition fileSelected :: "('re, 'net, 'ip) golib \<Rightarrow> string \<Rightarrow> StreamMultipartConfig \<Rightarrow> bool option" where
  "fileSelected lib filename cfg =
     (if \<not> mp_FilesSet cfg \<or> \<not> mp_FilesEnabled cfg \<or> filename = [] then Some False
      else if mp_Filename cfg = [] then Some True
      else matchesAnyPattern lib filename (mp_Filename cfg))"

definition multipartPartMatches :: "('re, 'net, 'ip) golib \<Rightarrow> multipart_part \<Rightarrow> StreamMultipartConfig \<Rightarrow> bool option" where
  "multipartPartMatches lib part cfg =
     (if fieldSelected (FormName part) (mp_Fields cfg) then Some True else fileSelected lib (FileName part) cfg)"

definition append_part :: "string \<Rightarrow> multipart_part \<Rightarrow> int \<Rightarrow> go_error + string" where
  "append_part out part limit =
     (if streamBodyLimitUnlimited limit
      then (case part_err part of Some e \<Rightarrow> Inl e | None \<Rightarrow> Inr (out @ part_data part))
      else
        (let remaining = wrap64 (limit - int (length out)) in
         if remaining < 0 then Inl (streamBodyLimitError limit)
         else (case read_limited (wrap64 (remaining + 1)) (part_data part) (part_err part) of
                 (written, err) \<Rightarrow>
                   if int (length written) > remaining then Inl (streamBodyLimitError limit)
                   else (case err of Some e \<Rightarrow> Inl e | None \<Rightarrow> Inr (out @ written)))))"

definition appendSelectedPart ::
  "('re, 'net, 'ip) golib \<Rightarrow> string \<Rightarrow> multipart_part \<Rightarrow> StreamMultipartConfig \<Rightarrow> int \<Rightarrow> (go_error + string) option" where
  "appendSelectedPart lib out part cfg limit =
     (case multipartPartMatches lib part cfg of
        None \<Rightarrow> None
      | Some False \<Rightarrow> Some (Inr out)
      | Some True \<Rightarrow> Some (append_part out part limit))"

fun readSelectedParts ::
  "('re, 'net, 'ip) golib \<Rightarrow> string \<Rightarrow> multipart_part list \<Rightarrow> go_error \<Rightarrow> StreamMultipartConfig \<Rightarrow> int \<Rightarrow> (go_error + string) option" where
  "readSelectedParts lib out [] stop cfg limit = Some (if stop = EOF then Inr out else Inl stop)"
| "readSelectedParts lib out (part # parts) stop cfg limit =
     (case appendSelectedPart lib out part cfg limit of
        None \<Rightarrow> None
      | Some (Inl e) \<Rightarrow> Some (Inl e)
      | Some (Inr out') \<Rightarrow> readSelectedParts lib out' parts stop cfg limit)"

definition multipartBoundary :: "('re, 'net, 'ip) golib \<Rightarrow> ('r, 'b) http_message \<Rightarrow> go_error + string" where
  "multipartBoundary lib msg =
     (case message_header msg ''Content-Type'' of
        None \<Rightarrow> Inl errMultipartContentTypeRequired
      | Some contentType \<Rightarrow>
          (case mime_ParseMediaType lib contentType of
             Inl e \<Rightarrow> Inl errMultipartContentTypeRequired
           | Inr (mediaType, params) \<Rightarrow>
               if \<not> go_HasPrefix mediaType multipartMediaPrefix then Inl errMultipartContentTypeRequired
               else (let boundary = go_TrimSpace (case map_of params ''boundary'' of None \<Rightarrow> [] | Some b \<Rightarrow> b) in
                     if boundary = [] then Inl errMultipartBoundaryRequired else Inr boundary)))"

definition selectMultipartBody ::
  "('re, 'net, 'ip) platform \<Rightarrow> ('r, 'b) http_message \<Rightarrow> string \<Rightarrow> StreamMultipartConfig \<Rightarrow> int \<Rightarrow> (go_error + string) option" where
  "selectMultipartBody pf msg body cfg limit =
     (case multipartBoundary (pf_lib pf) msg of
        Inl e \<Rightarrow> Some (Inl e)
      | Inr boundary \<Rightarrow>
          (case pf_parts pf boundary body of
             (parts, stop) \<Rightarrow>
               map_option
                 (\<lambda>res. case res of
                    Inl e \<Rightarrow> Inl e
                  | Inr selected \<Rightarrow> if selected = [] then Inl errNoMultipartPartsMatched else Inr selected)
                 (readSelectedParts (pf_lib pf) [] parts stop cfg limit)))"

definition streamHTTPMessage :: "string \<Rightarrow> ('q, 'r, 'b) request \<Rightarrow> go_error + http_side" where
  "streamHTTPMessage from req =
     (if from = streamSourceRequestHTTPBody
      then (if HTTPRequest req \<noteq> None then Inr RequestSide
            else Inl (ErrNew ''request_http_body source requires an encapsulated HTTP request''))
      else if from = streamSourceResponseHTTPBody
      then (if HTTPResponse req \<noteq> None then Inr ResponseSide
            else Inl (ErrNew ''response_http_body source requires an encapsulated HTTP response''))
      else if from = streamSourceAdaptedHTTPBody then adaptedHTTPBodyMessage req
      else Inl (ErrNew (''multipart source '' @ go_Quote from @ '' is unsupported'')))"

definition rawContentTypeIsMultipart :: "string \<Rightarrow> bool" where
  "rawContentTypeIsMultipart raw \<longleftrightarrow> go_HasPrefix (go_ToLower (go_TrimSpace raw)) multipartMediaPrefix"

definition sourceHasMultipartContentType :: "('re, 'net, 'ip) golib \<Rightarrow> ('r, 'b) http_message \<Rightarrow> bool" where
  "sourceHasMultipartContentType lib msg \<longleftrightarrow>
     (case message_header msg ''Content-Type'' of
        None \<Rightarrow> False
      | Some raw \<Rightarrow>
          (case mime_ParseMediaType lib raw of
             Inl e \<Rightarrow> rawContentTypeIsMultipart raw
           | Inr (mediaType, _) \<Rightarrow> go_HasPrefix (go_ToLower mediaType) multipartMediaPrefix))"

definition contentDispositionFilename :: "('re, 'net, 'ip) golib \<Rightarrow> ('r, 'b) http_message \<Rightarrow> string" where
  "contentDispositionFilename lib msg =
     (case message_header msg ''Content-Disposition'' of
        None \<Rightarrow> []
      | Some raw \<Rightarrow>
          (case mime_ParseMediaType lib raw of
             Inl e \<Rightarrow> []
           | Inr (_, params) \<Rightarrow> (case map_of params ''filename'' of None \<Rightarrow> [] | Some f \<Rightarrow> f)))"

definition resolveRawFileFallback ::
  "('re, 'net, 'ip) golib \<Rightarrow> StreamFallbackConfig \<Rightarrow> ('r, 'b) http_message \<Rightarrow> string option \<Rightarrow> (go_error + string option) option" where
  "resolveRawFileFallback lib f msg body =
     (if \<not> fb_RawEnabled f then Some (Inl (ErrNew ''raw_file fallback is disabled''))
      else if sourceHasMultipartContentType lib msg
      then Some (Inl (ErrNew ''raw_file fallback is only available for non-multipart sources''))
      else if fb_RawFilename f = [] then Some (Inr body)
      else (let filename = contentDispositionFilename lib msg in
            map_option (\<lambda>ok. if ok then Inr body else Inl (ErrNew ''raw_file fallback filename did not match''))
              (if filename = [] then Some False else matchesAnyPattern lib filename (fb_RawFilename f))))"

definition resolveStreamSourceConfig ::
  "('re, 'net, 'ip) platform \<Rightarrow> 'r body_io \<Rightarrow> StreamSourceConfig \<Rightarrow> int \<Rightarrow> ('q, 'r, 'b, string option) sourced" where
  "resolveStreamSourceConfig pf io src limit =
     (if rawHTTPBodySource (src_From src)
      then draw_then (from_request (rawHTTPBodyMessage (src_From src))) (side_body io limit)
      else if src_From src = ''body'' then returned (Some (map_sum id Some (streamBytesWithinLimit (src_Body src) limit)))
      else if src_From src = ''body_file''
      then on_files (\<lambda>fs. case readStreamFile pf (src_BodyFile src) limit fs of (res, fs') \<Rightarrow> (map_sum id Some res, fs'))
      else draw_fail (unsupported_source (src_From src)))"

definition resolveStreamFallback ::
  "('re, 'net, 'ip) platform \<Rightarrow> 'r body_io \<Rightarrow> StreamFallbackConfig \<Rightarrow> ('r, 'b) http_message \<Rightarrow> string option \<Rightarrow> int \<Rightarrow>
   ('q, 'r, 'b, string option) sourced" where
  "resolveStreamFallback pf io f msg body limit =
     (if fb_RawSet f then returned (resolveRawFileFallback (pf_lib pf) f msg body)
      else if fb_Body f \<noteq> [] then returned (Some (map_sum id Some (streamBytesWithinLimit (fb_Body f) limit)))
      else if fb_BodyFile f \<noteq> []
      then on_files (\<lambda>fs. case readStreamFile pf (fb_BodyFile f) limit fs of (res, fs') \<Rightarrow> (map_sum id Some res, fs'))
      else if fb_From f \<noteq> []
      then resolveStreamSourceConfig pf io \<lparr>src_From = fb_From f, src_Body = [], src_BodyFile = []\<rparr> limit
      else draw_fail (ErrNew ''fallback is empty''))"

definition resolveMultipartSelectorMiss ::
  "('re, 'net, 'ip) platform \<Rightarrow> 'r body_io \<Rightarrow> StreamConfig \<Rightarrow> ('r, 'b) http_message \<Rightarrow> string option \<Rightarrow> int \<Rightarrow>
   ('q, 'r, 'b, string option) sourced" where
  "resolveMultipartSelectorMiss pf io s msg body limit =
     (if Fallback_IsSet (sc_Fallback s) \<and> \<not> fb_RawSet (sc_Fallback s)
      then resolveStreamFallback pf io (sc_Fallback s) msg body limit
      else if mp_AllowEmpty (sc_Multipart s) then drawn None
      else draw_fail errNoMultipartPartsMatched)"

text \<open>
  The source is the message after its body has been loaded, and that body.
\<close>

definition resolveMultipartStream ::
  "('re, 'net, 'ip) platform \<Rightarrow> 'r body_io \<Rightarrow> StreamConfig \<Rightarrow> int \<Rightarrow> ('q, 'r, 'b, string option) sourced" where
  "resolveMultipartStream pf io s limit =
     draw_then (from_request (streamHTTPMessage (src_From (sc_Source s)))) (\<lambda>side.
     draw_then (side_body io limit side) (\<lambda>body.
     draw_then (from_request (\<lambda>req. Inr (the (side_message side req)))) (\<lambda>msg.
       case selectMultipartBody pf msg (case body of None \<Rightarrow> [] | Some b \<Rightarrow> b) (sc_Multipart s) limit of
         None \<Rightarrow> returned None
       | Some (Inr selected) \<Rightarrow> drawn (Some selected)
       | Some (Inl e) \<Rightarrow>
           if go_Is e errNoMultipartPartsMatched then resolveMultipartSelectorMiss pf io s msg body limit
           else if Fallback_IsSet (sc_Fallback s) then resolveStreamFallback pf io (sc_Fallback s) msg body limit
           else draw_fail e)))"

section \<open>The payload of a stream\<close>

fun resolveStreamParts ::
  "('re, 'net, 'ip) platform \<Rightarrow> 'r body_io \<Rightarrow> string \<Rightarrow> StreamPartConfig list \<Rightarrow> int \<Rightarrow> ('q, 'r, 'b, string option) sourced" where
  "resolveStreamParts pf io out [] limit s = Some (Inr (Some out), s)"
| "resolveStreamParts pf io out (part # parts) limit s =
     (case resolveStreamSourceConfig pf io part limit s of
        None \<Rightarrow> None
      | Some (Inl e, s') \<Rightarrow> Some (Inl e, s')
      | Some (Inr body, s') \<Rightarrow>
          (case appendStreamBytes out (case body of None \<Rightarrow> [] | Some b \<Rightarrow> b) limit of
             Inl e \<Rightarrow> Some (Inl e, s')
           | Inr out' \<Rightarrow> resolveStreamParts pf io out' parts limit s'))"

definition resolveStreamSourceWithLimit ::
  "('re, 'net, 'ip) platform \<Rightarrow> 'r body_io \<Rightarrow> StreamConfig \<Rightarrow> int \<Rightarrow> ('q, 'r, 'b, string option) sourced" where
  "resolveStreamSourceWithLimit pf io s limit =
     (if sc_Parts s \<noteq> [] then resolveStreamParts pf io [] (sc_Parts s) limit
      else if mp_IsSet (sc_Multipart s) then resolveMultipartStream pf io s limit
      else resolveStreamSourceConfig pf io (sc_Source s) limit)"

definition bufferedStreamPayload ::
  "('re, 'net, 'ip) platform \<Rightarrow> 'r body_io \<Rightarrow> StreamConfig \<Rightarrow> int \<Rightarrow> ('q, 'r, 'b, payload) sourced" where
  "bufferedStreamPayload pf io s limit =
     draw_then (resolveStreamSourceWithLimit pf io s limit) (\<lambda>body. drawn (NewBorrowedBytesStreamPayload body))"

definition resolveStreamPayloadWithLimit ::
  "('re, 'net, 'ip) platform \<Rightarrow> 'r body_io \<Rightarrow> StreamConfig \<Rightarrow> int \<Rightarrow> ('q, 'r, 'b, payload) sourced" where
  "resolveStreamPayloadWithLimit pf io s limit =
     (if mp_IsSet (sc_Multipart s) then bufferedStreamPayload pf io s limit
      else if sc_Parts s \<noteq> [] then streamPartsPayload pf io (sc_Parts s) limit
      else if rawHTTPBodySource (src_From (sc_Source s)) then rawHTTPBodyStreamPayload io (src_From (sc_Source s)) limit
      else streamSourcePayload pf io (sc_Source s) limit)"

section \<open>Attaching the stream to a response\<close>

text \<open>
  The errors of \<^verbatim>\<open>internal/errors\<close> carry a code, which is what \<open>errors.Is\<close> compares.
\<close>

record app_error =
  er_Cause :: "go_error option"
  er_Message :: string
  er_Code :: int
  er_ICAPStatus :: int
  er_HTTPStatus :: int

datatype process_error = PlainError go_error | AppError app_error

definition NewICAPError :: "int \<Rightarrow> string \<Rightarrow> int \<Rightarrow> go_error option \<Rightarrow> app_error" where
  "NewICAPError code message icapStatus cause =
     \<lparr>er_Cause = cause, er_Message = message, er_Code = code, er_ICAPStatus = icapStatus, er_HTTPStatus = 0\<rparr>"

definition ErrInternalServerError :: app_error where
  "ErrInternalServerError = NewICAPError 1005 ''internal server error'' 500 None"

definition ErrScenarioNotFound :: app_error where
  "ErrScenarioNotFound = NewICAPError 1006 ''scenario not found'' 404 None"

definition internal_error :: "string \<Rightarrow> go_error option \<Rightarrow> process_error" where
  "internal_error message cause =
     AppError (NewICAPError (er_Code ErrInternalServerError) message (er_ICAPStatus ErrInternalServerError) cause)"

definition streamICAPError :: "string \<Rightarrow> go_error \<Rightarrow> process_error" where
  "streamICAPError message err = internal_error message (Some err)"

definition streamTarget :: "('r, 'p) response \<Rightarrow> http_side option" where
  "streamTarget resp =
     (if rs_HTTPResponse resp \<noteq> None then Some ResponseSide
      else if rs_HTTPRequest resp \<noteq> None then Some RequestSide else None)"

fun update_target :: "http_side \<Rightarrow> (('r, 'p) stream_message \<Rightarrow> ('r, 'p) stream_message) \<Rightarrow> ('r, 'p) response \<Rightarrow> ('r, 'p) response" where
  "update_target RequestSide f resp = resp\<lparr>rs_HTTPRequest := map_option f (rs_HTTPRequest resp)\<rparr>"
| "update_target ResponseSide f resp = resp\<lparr>rs_HTTPResponse := map_option f (rs_HTTPResponse resp)\<rparr>"

definition setStreamContentLength :: "header \<Rightarrow> payload \<Rightarrow> header" where
  "setStreamContentLength h p =
     (case SizeHint p of
        (n, known) \<Rightarrow> if known then Header_Set h ''Content-Length'' (go_FormatInt n 10) else Header_Del h ''Content-Length'')"

definition attachStream ::
  "('re, 'net, 'ip) platform \<Rightarrow> 'r body_io \<Rightarrow> rands selector option \<Rightarrow> int \<Rightarrow> StreamConfig option \<Rightarrow> ('r, payload) response \<Rightarrow>
   (('q, 'r, 'b) request \<times> files) \<times> rands \<Rightarrow>
   ((process_error + ('r, payload) response) \<times> (('q, 'r, 'b) request \<times> files) \<times> rands) option" where
  "attachStream pf io selector limit cfg resp st =
     (case cfg of
        None \<Rightarrow> Some (Inr resp, st)
      | Some stream \<Rightarrow>
          (case st of ((req, fs), rnd) \<Rightarrow>
             (case resolveStreamPayloadWithLimit pf io stream limit (req, fs) of
                None \<Rightarrow> None
              | Some (Inl e, s1) \<Rightarrow> Some (Inl (streamICAPError ''failed to resolve stream source'' e), s1, rnd)
              | Some (Inr payload, (req1, fs1)) \<Rightarrow>
                  (case streamTarget resp of
                     None \<Rightarrow>
                       Some (Inl (streamICAPError ''failed to attach stream'' (ErrNew ''no encapsulated HTTP message'')),
                             (req1, cleanupStreamPayload pf payload fs1), rnd)
                   | Some side \<Rightarrow>
                       (case newBodyStream SizeHint (Some stream) (Some payload) selector rnd of
                          None \<Rightarrow> None
                        | Some (Inl e, rnd1) \<Rightarrow>
                            Some (Inl (streamICAPError ''failed to configure stream'' e),
                                  (req1, cleanupStreamPayload pf payload fs1), rnd1)
                        | Some (Inr bodyStream, rnd1) \<Rightarrow>
                            (let resp1 = update_target side (\<lambda>m. m\<lparr>Body := None, BodyStream := Some bodyStream,
                                   m_Header := Some (setStreamContentLength (case m_Header m of None \<Rightarrow> [] | Some h \<Rightarrow> h) payload)\<rparr>) resp
                             in Some (Inr (if finishMode (st_Plan bodyStream) = StreamFinishFIN then MarkCloseAfterWrite resp1 else resp1),
                                      (req1, fs1), rnd1)))))))"

section \<open>Open files and limits\<close>

definition files_ok :: "files \<Rightarrow> bool" where
  "files_ok fs \<longleftrightarrow> (\<forall>h \<in> set (open_handles fs). h < next_handle fs)"

text \<open>
  What every step that opens files keeps: the handles it leaves open behind the earlier ones are those of its result.
\<close>

definition files_step :: "('a \<Rightarrow> nat list) \<Rightarrow> files \<Rightarrow> go_error + 'a \<Rightarrow> files \<Rightarrow> bool" where
  "files_step handles fs res fs' \<longleftrightarrow>
     files_ok fs' \<and> next_handle fs \<le> next_handle fs' \<and>
     (case res of Inl e \<Rightarrow> open_handles fs' = open_handles fs
      | Inr x \<Rightarrow> open_handles fs' = open_handles fs @ handles x \<and> (\<forall>h \<in> set (handles x). next_handle fs \<le> h))"

definition keeps_files :: "('a \<Rightarrow> nat list) \<Rightarrow> ('q, 'r, 'b, 'a) sourced \<Rightarrow> bool" where
  "keeps_files handles m \<longleftrightarrow>
     (\<forall>req fs res req' fs'. files_ok fs \<and> m (req, fs) = Some (res, (req', fs')) \<longrightarrow> files_step handles fs res fs')"

lemma keeps_filesD:
  "keeps_files h m \<Longrightarrow> m (req, fs) = Some (res, (req', fs')) \<Longrightarrow> files_ok fs \<Longrightarrow> files_step h fs res fs'"
  unfolding keeps_files_def by blast

lemma close_all_simps [simp]:
  "open_handles (close_all pf hs fs) = filter (\<lambda>k. k \<notin> set hs) (open_handles fs)"
  "next_handle (close_all pf hs fs) = next_handle fs"
  by (induction hs arbitrary: fs) (auto simp: close_file_def)

lemma close_all_fresh:
  assumes "files_ok fs" "\<forall>h \<in> set hs. next_handle fs \<le> h"
  shows "filter (\<lambda>k. k \<notin> set hs) (open_handles fs @ hs) = open_handles fs"
  using assms by (auto simp: files_ok_def filter_id_conv) fastforce

lemma limit_files:
  assumes "limitStreamPayload pf p limit fs1 = (res, fs')" "files_ok fs" "files_ok fs1" "next_handle fs \<le> next_handle fs1"
    and "open_handles fs1 = open_handles fs @ payload_handles p" "\<forall>h \<in> set (payload_handles p). next_handle fs \<le> h"
  shows "files_step payload_handles fs res fs'"
proof (cases "NewLimitedStreamPayload p limit")
  case (Inl e)
  then have "open_handles fs' = open_handles fs" "next_handle fs' = next_handle fs1" "res = Inl (streamBodyReadError e limit)"
    using assms(1,5) close_all_fresh [OF assms(2,6)] by (auto simp: limitStreamPayload_def cleanupStreamPayload_def)
  then show ?thesis using assms(2,4) by (fastforce simp: files_step_def files_ok_def)
next
  case (Inr q)
  then have "payload_handles (preserveStreamPayloadCleanup q p) = payload_handles p"
    by (auto simp: payload_handles_def preserveStreamPayloadCleanup_def NewLimitedStreamPayload_def split: payload.splits if_splits)
  then show ?thesis using assms Inr by (auto simp: limitStreamPayload_def files_step_def)
qed

lemma keeps_then:
  assumes "keeps_files (\<lambda>_. []) m" "\<And>x. keeps_files h (k x)"
  shows "keeps_files h (draw_then m k)"
  unfolding keeps_files_def
proof (intro allI impI, elim conjE)
  fix req fs res req' fs'
  assume fs: "files_ok fs" and run: "draw_then m k (req, fs) = Some (res, (req', fs'))"
  obtain r1 req1 fs1 where m: "m (req, fs) = Some (r1, (req1, fs1))"
    using run by (cases "m (req, fs)") (auto simp: draw_then_def)
  then have s: "files_step (\<lambda>_. []) fs r1 fs1" using assms(1) fs by (auto simp: keeps_files_def)
  show "files_step h fs res fs'"
  proof (cases r1)
    case (Inl e)
    then show ?thesis using run m s by (auto simp: draw_then_def files_step_def)
  next
    case (Inr x)
    then have "k x (req1, fs1) = Some (res, (req', fs'))" using run m by (simp add: draw_then_def)
    then have "files_step h fs1 res fs'" using assms(2) [of x] s unfolding keeps_files_def by (auto simp: files_step_def)
    then show ?thesis using s Inr by (fastforce simp: files_step_def split: sum.splits)
  qed
qed

lemma keeps_pure:
  "keeps_files (\<lambda>_. []) (from_request f)" "keeps_files (\<lambda>_. []) (side_body io limit side)"
  "keeps_files (\<lambda>_. []) (returned r)" "h x = [] \<Longrightarrow> keeps_files h (drawn x)" "keeps_files h (draw_fail e)"
  by (auto simp: keeps_files_def files_step_def from_request_def side_body_def returned_def drawn_def draw_fail_def
      split: sum.splits option.splits)

lemma keeps_on_files:
  "(\<And>fs res fs'. files_ok fs \<Longrightarrow> f fs = (res, fs') \<Longrightarrow> files_step h fs res fs') \<Longrightarrow> keeps_files h (on_files f)"
  by (auto simp: keeps_files_def on_files_def split: prod.splits)

lemma open_files:
  assumes "files_ok fs" "openStreamFile pf path fs = (Inr (f, h), fs1)"
  shows "files_ok fs1" "next_handle fs1 = Suc h" "open_handles fs1 = open_handles fs @ [h]" "h = next_handle fs"
  using assms by (auto simp: openStreamFile_def files_ok_def less_Suc_eq split: sum.splits)

lemma close_files:
  assumes "files_ok fs" "files_ok fs1" "open_handles fs1 = open_handles fs @ [next_handle fs]"
    "next_handle fs1 = Suc (next_handle fs)" "close_file pf (next_handle fs) fs1 = (e, fs2)"
  shows "open_handles fs2 = open_handles fs" "next_handle fs2 = Suc (next_handle fs)" "files_ok fs2"
  using assms close_all_fresh [OF assms(1), of "[next_handle fs]"] by (auto simp: close_file_def files_ok_def less_Suc_eq)

lemma file_payload_files:
  assumes "files_ok fs" "fileStreamPayload pf path limit fs = (res, fs')"
  shows "files_step payload_handles fs res fs'"
proof (cases "openStreamFile pf path fs")
  case (Pair r fs1)
  show ?thesis
  proof (cases r)
    case (Inl e)
    then show ?thesis using assms Pair
      by (auto simp: fileStreamPayload_def openStreamFile_def files_step_def split: sum.splits)
  next
    case (Inr fh)
    obtain f h where r: "r = Inr (f, h)" using Inr by (cases fh) auto
    note o = open_files [OF assms(1) Pair [unfolded r]]
    show ?thesis
    proof (cases "file_Stat f")
      case (Inl e)
      obtain ce fs2 where c: "close_file pf h fs1 = (ce, fs2)" by fastforce
      note cl = close_files [OF assms(1) o(1) o(3) [unfolded o(4)] o(2) [unfolded o(4)] c [unfolded o(4)]]
      then show ?thesis using assms(2) Pair r Inl c by (auto simp: fileStreamPayload_def files_step_def)
    next
      case (Inr n)
      then have "limitStreamPayload pf (newPreparedFilePayload h n) limit fs1 = (res, fs')"
        using assms(2) Pair r by (simp add: fileStreamPayload_def)
      then show ?thesis by (rule limit_files [OF _ assms(1) o(1)])
          (use o in \<open>auto simp: newPreparedFilePayload_def payload_handles_def\<close>)
    qed
  qed
qed

lemma read_file_files:
  assumes "files_ok fs" "readStreamFile pf path limit fs = (res, fs')"
  shows "open_handles fs' = open_handles fs \<and> next_handle fs \<le> next_handle fs' \<and> files_ok fs'"
proof (cases "openStreamFile pf path fs")
  case (Pair r fs1)
  show ?thesis
  proof (cases r)
    case (Inl e)
    then show ?thesis using assms Pair
      by (auto simp: readStreamFile_def openStreamFile_def split: sum.splits)
  next
    case (Inr fh)
    obtain f h where r: "r = Inr (f, h)" using Inr by (cases fh) auto
    note o = open_files [OF assms(1) Pair [unfolded r]]
    obtain ce fs2 where c: "close_file pf h fs1 = (ce, fs2)" by fastforce
    note cl = close_files [OF assms(1) o(1) o(3) [unfolded o(4)] o(2) [unfolded o(4)] c [unfolded o(4)]]
    then show ?thesis using assms(2) Pair r c by (auto simp: readStreamFile_def)
  qed
qed

lemma keeps_read_file:
  "keeps_files (\<lambda>_. []) (on_files (\<lambda>fs. case readStreamFile pf path limit fs of (res, fs') \<Rightarrow> (map_sum id Some res, fs')))"
  by (rule keeps_on_files) (auto simp: files_step_def dest: read_file_files split: prod.splits sum.splits)

lemma keeps_raw: "keeps_files payload_handles (rawHTTPBodyStreamPayload io from limit)"
  unfolding rawHTTPBodyStreamPayload_def
  by (intro keeps_then keeps_pure) (simp add: NewBorrowedBytesStreamPayload_def payload_handles_def)

lemma keeps_inline: "keeps_files payload_handles (on_files (inlineStreamPayload pf body limit))"
  by (rule keeps_on_files) (auto simp: inlineStreamPayload_def payload_handles_def elim!: limit_files)

lemma keeps_file: "keeps_files payload_handles (on_files (fileStreamPayload pf path limit))"
  by (rule keeps_on_files) (rule file_payload_files)

lemma keeps_source: "keeps_files payload_handles (streamSourcePayload pf io src limit)"
  by (simp add: streamSourcePayload_def keeps_raw keeps_inline keeps_file keeps_pure)

lemma cleanup_payloads_simps [simp]:
  "open_handles (cleanupStreamPayloads pf ps fs) = filter (\<lambda>k. k \<notin> set (concat (map payload_handles ps))) (open_handles fs)"
  "next_handle (cleanupStreamPayloads pf ps fs) = next_handle fs"
  by (induction ps arbitrary: fs) (auto simp: cleanupStreamPayloads_def cleanupStreamPayload_def intro: filter_cong)

abbreviation all_handles :: "payload list \<Rightarrow> nat list" where
  "all_handles ps \<equiv> concat (map payload_handles ps)"

lemma part_payloads_files:
  assumes "part_payloads pf io limit acc parts (req, fs) = Some (res, (req', fs'))" "files_step all_handles fs0 (Inr acc) fs"
    and "files_ok fs0"
  shows "files_step all_handles fs0 res fs'"
  using assms
proof (induction parts arbitrary: acc req fs)
  case (Cons part parts)
  obtain r req1 fs1 where p: "streamPartPayload pf io part limit (req, fs) = Some (r, (req1, fs1))"
    using Cons.prems(1) by (cases "streamPartPayload pf io part limit (req, fs)") auto
  have s: "files_step payload_handles fs r fs1"
    using keeps_filesD [OF keeps_source p [unfolded streamPartPayload_def]] Cons.prems(2) by (simp add: files_step_def)
  show ?case
  proof (cases r)
    case (Inl e)
    then have fs': "fs' = cleanupStreamPayloads pf acc fs1" "res = Inl e" using Cons.prems(1) p by auto
    have "open_handles fs' = filter (\<lambda>k. k \<notin> set (all_handles acc)) (open_handles fs0 @ all_handles acc)"
      using s Cons.prems(2) Inl by (simp add: fs' files_step_def)
    also have "\<dots> = open_handles fs0"
      by (rule close_all_fresh) (use Cons.prems(2,3) in \<open>auto simp: files_step_def\<close>)
    finally have "open_handles fs' = open_handles fs0" .
    moreover have "next_handle fs0 \<le> next_handle fs'" using s Cons.prems(2) by (simp add: fs' files_step_def)
    ultimately show ?thesis using Cons.prems(3) by (fastforce simp: fs'(2) files_step_def files_ok_def)
  next
    case (Inr q)
    then have run: "part_payloads pf io limit (acc @ [q]) parts (req1, fs1) = Some (res, (req', fs'))" using Cons.prems(1) p by simp
    have "files_step all_handles fs0 (Inr (acc @ [q])) fs1"
      using s Cons.prems(2) Inr by (fastforce simp: files_step_def)
    then show ?thesis using Cons.IH [OF run _ Cons.prems(3)] by blast
  qed
qed simp

lemma keeps_parts: "keeps_files payload_handles (streamPartsPayload pf io parts limit)"
  unfolding streamPartsPayload_def
proof (rule keeps_then [OF keeps_pure(1)], unfold keeps_files_def, intro allI impI, elim conjE)
  fix u req fs res req' fs'
  assume fs: "files_ok fs" and run: "draw_then (part_payloads pf io limit [] parts)
    (\<lambda>ps. on_files (limitStreamPayload pf (newPreparedSequencePayload ps) limit)) (req, fs) = Some (res, (req', fs'))"
  obtain r req1 fs1 where p: "part_payloads pf io limit [] parts (req, fs) = Some (r, (req1, fs1))"
    using run by (cases "part_payloads pf io limit [] parts (req, fs)") (auto simp: draw_then_def)
  have s: "files_step all_handles fs r fs1"
    by (rule part_payloads_files [OF p]) (simp_all add: fs files_step_def)
  show "files_step payload_handles fs res fs'"
  proof (cases r)
    case (Inl e)
    then show ?thesis using run p s by (auto simp: draw_then_def files_step_def)
  next
    case (Inr ps)
    then have "limitStreamPayload pf (newPreparedSequencePayload ps) limit fs1 = (res, fs')"
      using run p by (auto simp: draw_then_def on_files_def split: prod.splits)
    then show ?thesis by (rule limit_files [OF _ fs])
        (use s Inr in \<open>auto simp: files_step_def newPreparedSequencePayload_def payload_handles_def\<close>)
  qed
qed

lemma keeps_source_config: "keeps_files (\<lambda>_. []) (resolveStreamSourceConfig pf io src limit)"
  unfolding resolveStreamSourceConfig_def by (auto intro!: keeps_then keeps_pure keeps_read_file)

lemma keeps_fallback: "keeps_files (\<lambda>_. []) (resolveStreamFallback pf io f msg body limit)"
  unfolding resolveStreamFallback_def by (auto intro!: keeps_pure keeps_read_file keeps_source_config)

lemma keeps_multipart: "keeps_files (\<lambda>_. []) (resolveMultipartStream pf io s limit)"
  unfolding resolveMultipartStream_def resolveMultipartSelectorMiss_def
  by (intro keeps_then keeps_pure)
     (auto intro!: keeps_pure keeps_fallback split: option.splits sum.splits)

lemma resolve_parts_files:
  "resolveStreamParts pf io out parts limit (req, fs) = Some (res, (req', fs')) \<Longrightarrow> files_ok fs \<Longrightarrow> files_step (\<lambda>_. []) fs res fs'"
proof (induction parts arbitrary: out req fs)
  case (Cons part parts)
  obtain r req1 fs1 where p: "resolveStreamSourceConfig pf io part limit (req, fs) = Some (r, (req1, fs1))"
    using Cons.prems(1) by (cases "resolveStreamSourceConfig pf io part limit (req, fs)") auto
  have s: "files_step (\<lambda>_. []) fs r fs1"
    by (rule keeps_filesD [OF keeps_source_config p Cons.prems(2)])
  then have ok: "files_ok fs1" by (simp add: files_step_def)
  show ?case
    using Cons.prems(1) p s Cons.IH [OF _ ok]
    by (fastforce simp: files_step_def split: sum.splits)
qed (auto simp: files_step_def)

lemma keeps_parts_body: "keeps_files (\<lambda>_. []) (resolveStreamParts pf io out parts limit)"
  using resolve_parts_files unfolding keeps_files_def by fast

lemma keeps_buffered: "keeps_files payload_handles (bufferedStreamPayload pf io s limit)"
  unfolding bufferedStreamPayload_def resolveStreamSourceWithLimit_def
  by (auto intro!: keeps_then keeps_pure keeps_multipart keeps_source_config keeps_parts_body
      simp: NewBorrowedBytesStreamPayload_def payload_handles_def)

lemma keeps_resolve: "keeps_files payload_handles (resolveStreamPayloadWithLimit pf io s limit)"
  by (simp add: resolveStreamPayloadWithLimit_def keeps_parts keeps_raw keeps_source keeps_buffered)

text \<open>What a computation returns when it returns a value.\<close>

definition results :: "('a \<Rightarrow> bool) \<Rightarrow> ('s, 'a) draw \<Rightarrow> bool" where
  "results P m \<longleftrightarrow> (\<forall>s x s'. m s = Some (Inr x, s') \<longrightarrow> P x)"

lemma results_then:
  "results Q m \<Longrightarrow> (\<And>x. Q x \<Longrightarrow> results P (k x)) \<Longrightarrow> results P (draw_then m k)"
  unfolding results_def draw_then_def by (fastforce split: option.splits sum.splits)

lemma results_any: "results (\<lambda>_. True) m"
  by (simp add: results_def)

lemma results_pure:
  "P x \<Longrightarrow> results P (drawn x)" "results P (draw_fail e)"
  "(\<And>x. r = Some (Inr x) \<Longrightarrow> P x) \<Longrightarrow> results P (returned r)"
  "(\<And>fs x fs'. f fs = (Inr x, fs') \<Longrightarrow> P x) \<Longrightarrow> results P (on_files f)"
  by (auto simp: results_def drawn_def draw_fail_def returned_def on_files_def split: prod.splits)

definition bytes_of :: "string option \<Rightarrow> string" where
  "bytes_of b = (case b of None \<Rightarrow> [] | Some s \<Rightarrow> s)"

definition body_within :: "int \<Rightarrow> string option \<Rightarrow> bool" where
  "body_within limit b \<longleftrightarrow> (0 < limit \<longrightarrow> int (length (bytes_of b)) \<le> limit)"

definition payload_within :: "int \<Rightarrow> payload \<Rightarrow> bool" where
  "payload_within limit p \<longleftrightarrow> (0 < limit \<and> snd (SizeHint p) \<longrightarrow> fst (SizeHint p) \<le> limit)"

lemma side_body_within: "results (body_within limit) (side_body io limit side)"
  by (auto simp: results_def side_body_def httpMessageBody_def load_message_def GetBodyLimited_def
      lazyLoadBodyLimitedWithCapacity_def body_within_def bytes_of_def body_bytes_def
      split: option.splits if_splits)

lemma payload_of_bytes: "body_within limit b \<Longrightarrow> payload_within limit (NewBorrowedBytesStreamPayload b)"
  by (auto simp: body_within_def payload_within_def NewBorrowedBytesStreamPayload_def bytes_of_def streamPayloadSizeHint_def
      split: option.splits)

lemma limit_within: "limitStreamPayload pf p limit fs = (Inr q, fs') \<Longrightarrow> payload_within limit q"
  by (auto simp: limitStreamPayload_def NewLimitedStreamPayload_def preserveStreamPayloadCleanup_def payload_within_def
      split: sum.splits if_splits payload.splits)

lemma bytes_within: "streamBytesWithinLimit body limit = Inr b \<Longrightarrow> body_within limit (Some b)"
  by (auto simp: streamBytesWithinLimit_def streamBodyLimitUnlimited_def body_within_def bytes_of_def split: if_splits)

lemma file_within: "readStreamFile pf path limit fs = (Inr b, fs') \<Longrightarrow> body_within limit (Some b)"
  by (auto simp: readStreamFile_def readStreamReader_def streamBodyLimitUnlimited_def body_within_def bytes_of_def
      dest: bytes_within split: sum.splits option.splits prod.splits if_splits)

lemma source_config_within: "results (body_within limit) (resolveStreamSourceConfig pf io src limit)"
  unfolding resolveStreamSourceConfig_def
  by (auto intro!: results_pure results_then [OF results_any] side_body_within
      simp: map_sum_def split: sum.splits prod.splits dest: bytes_within file_within)

lemma raw_file_body: "resolveRawFileFallback lib f msg body = Some (Inr b) \<Longrightarrow> b = body"
  by (auto simp: resolveRawFileFallback_def Let_def split: if_splits)

lemma fallback_within:
  "body_within limit body \<Longrightarrow> results (body_within limit) (resolveStreamFallback pf io f msg body limit)"
  unfolding resolveStreamFallback_def
  by (auto intro!: results_pure source_config_within simp: map_sum_def
      split: sum.splits prod.splits dest: bytes_within file_within raw_file_body)

lemma append_part_within:
  assumes "append_part out part limit = Inr out'" "int (length out) \<le> limit" "limit \<le> MaxInt64" "0 < limit"
  shows "int (length out') \<le> limit"
proof -
  have r: "wrap64 (limit - int (length out)) = limit - int (length out)" using assms(2,3) by simp
  show ?thesis
    using assms by (auto simp: append_part_def r streamBodyLimitUnlimited_def Let_def split: if_splits prod.splits option.splits)
qed

lemma readSelected_within:
  assumes "readSelectedParts lib out parts stop cfg limit = Some (Inr out')" "0 < limit \<Longrightarrow> int (length out) \<le> limit"
    "limit \<le> MaxInt64"
  shows "0 < limit \<Longrightarrow> int (length out') \<le> limit"
  using assms
proof (induction parts arbitrary: out)
  case (Cons part parts)
  obtain out1 where a: "appendSelectedPart lib out part cfg limit = Some (Inr out1)"
    "readSelectedParts lib out1 parts stop cfg limit = Some (Inr out')"
    using Cons.prems(2) by (auto split: option.splits sum.splits)
  have "int (length out1) \<le> limit"
    using a(1) Cons.prems append_part_within [of out part limit out1]
    by (auto simp: appendSelectedPart_def split: option.splits bool.splits)
  then show ?case using Cons.IH [OF Cons.prems(1) a(2) _ Cons.prems(4)] by blast
qed (auto split: if_splits)

lemma multipart_within:
  assumes "limit \<le> MaxInt64"
  shows "results (body_within limit) (resolveMultipartStream pf io s limit)"
proof -
  have sel: "body_within limit (Some b)" if "selectMultipartBody pf msg body cfg limit = Some (Inr b)" for msg body cfg b
    using that readSelected_within [OF _ _ assms, of "pf_lib pf" "[]"]
    by (auto simp: selectMultipartBody_def body_within_def bytes_of_def map_option_case split: option.splits sum.splits prod.splits if_splits)
  have miss: "results (body_within limit) (resolveMultipartSelectorMiss pf io s msg body limit)" if "body_within limit body" for msg body
    using that unfolding resolveMultipartSelectorMiss_def
    by (auto intro!: results_pure fallback_within simp: body_within_def bytes_of_def)
  show ?thesis
    unfolding resolveMultipartStream_def
    by (rule results_then [OF results_any], rule results_then [OF side_body_within], rule results_then [OF results_any])
       (auto intro!: results_pure miss fallback_within sel split: option.splits sum.splits)
qed

lemma raw_within: "results (payload_within limit) (rawHTTPBodyStreamPayload io name limit)"
  unfolding rawHTTPBodyStreamPayload_def
  by (rule results_then [OF results_any], rule results_then [OF side_body_within]) (auto intro: results_pure payload_of_bytes)

lemma file_payload_within: "fileStreamPayload pf path limit fs = (Inr q, fs') \<Longrightarrow> payload_within limit q"
  by (auto simp: fileStreamPayload_def Let_def dest: limit_within split: sum.splits prod.splits)

lemma source_within: "results (payload_within limit) (streamSourcePayload pf io src limit)"
  unfolding streamSourcePayload_def
  by (auto intro!: raw_within results_pure simp: inlineStreamPayload_def dest: limit_within file_payload_within)

lemma parts_within: "results (payload_within limit) (streamPartsPayload pf io parts limit)"
  unfolding streamPartsPayload_def
  by (rule results_then [OF results_any], rule results_then [OF results_any]) (auto intro: results_pure dest: limit_within)

lemma buffered_within:
  "limit \<le> MaxInt64 \<Longrightarrow> sc_Parts s = [] \<Longrightarrow> results (payload_within limit) (bufferedStreamPayload pf io s limit)"
  unfolding bufferedStreamPayload_def resolveStreamSourceWithLimit_def
  by (auto intro!: results_then [OF multipart_within] results_then [OF source_config_within] results_pure payload_of_bytes)

lemma resolve_within:
  assumes "limit \<le> MaxInt64" "sc_Parts s = [] \<or> \<not> mp_IsSet (sc_Multipart s)"
  shows "results (payload_within limit) (resolveStreamPayloadWithLimit pf io s limit)"
  using assms by (auto simp: resolveStreamPayloadWithLimit_def raw_within source_within parts_within buffered_within)

section \<open>Properties\<close>

text \<open>The message of a response that a stream goes into.\<close>

definition target_message :: "('r, 'p) response \<Rightarrow> ('r, 'p) stream_message option" where
  "target_message resp = (case rs_HTTPResponse resp of Some m \<Rightarrow> Some m | None \<Rightarrow> rs_HTTPRequest resp)"

lemma Content_Length_set [simp]: "Header_Get (Header_Set h ''Content-Length'' v) ''Content-Length'' = Some v"
  by (simp add: Header_Get_def Header_Values_def Header_Set_def update_conv)

lemma attach_stream_cases:
  assumes "attachStream pf io selector limit (Some cfg) resp ((req, fs), rnd) = Some (res, (req', fs'), rnd')"
    and "files_ok fs"
  shows "files_ok fs' \<and>
    (case res of
       Inl e \<Rightarrow> open_handles fs' = open_handles fs
     | Inr resp' \<Rightarrow>
         (\<exists>m h payload plan s1. target_message resp' = Some m \<and> m_Header m = Some h \<and> Body m = None \<and>
            BodyStream m = Some \<lparr>st_Reader = None, st_Payload = Some payload, st_Plan = plan\<rparr> \<and>
            open_handles fs' = open_handles fs @ payload_handles payload \<and>
            resolveStreamPayloadWithLimit pf io cfg limit (req, fs) = Some (Inr payload, s1) \<and>
            (\<forall>n. SizeHint payload = (n, True) \<longrightarrow> Header_Get h ''Content-Length'' = Some (go_FormatInt n 10)) \<and>
            (rs_closeAfterWrite resp' \<longleftrightarrow> rs_closeAfterWrite resp \<or> finishMode plan = StreamFinishFIN)))"
proof -
  obtain r req1 fs1 where r: "resolveStreamPayloadWithLimit pf io cfg limit (req, fs) = Some (r, (req1, fs1))"
    using assms(1) by (cases "resolveStreamPayloadWithLimit pf io cfg limit (req, fs)") (auto simp: attachStream_def)
  have s: "files_step payload_handles fs r fs1" by (rule keeps_filesD [OF keeps_resolve r assms(2)])
  show ?thesis
  proof (cases r)
    case (Inl e)
    then show ?thesis using assms(1) r s by (auto simp: attachStream_def files_step_def)
  next
    case (Inr p)
    have c: "open_handles (cleanupStreamPayload pf p fs1) = open_handles fs" "next_handle (cleanupStreamPayload pf p fs1) = next_handle fs1"
      using s Inr close_all_fresh [OF assms(2), of "payload_handles p"] by (auto simp: cleanupStreamPayload_def files_step_def)
    then have ok: "files_ok (cleanupStreamPayload pf p fs1)" using assms(2) s by (fastforce simp: files_ok_def files_step_def)
    have "\<exists>plan. b = \<lparr>st_Reader = None, st_Payload = Some p, st_Plan = plan\<rparr>"
      if "newBodyStream SizeHint (Some cfg) (Some p) selector rnd = Some (Inr b, rnd1)" for b rnd1
      using that by (auto simp: newBodyStream_def draw_fail_def draw_then_def drawn_def split: prod.splits if_splits option.splits sum.splits)
    then show ?thesis
      using assms(1) r s Inr c ok
      by (auto simp: attachStream_def streamTarget_def target_message_def files_step_def MarkCloseAfterWrite_def Let_def
          setStreamContentLength_def
          split: option.splits sum.splits if_splits prod.splits)
  qed
qed

text \<open>The files a response still needs: those of the payload that is attached to it.\<close>

definition response_handles :: "('r, payload) response \<Rightarrow> nat list" where
  "response_handles resp =
     (case target_message resp of
        None \<Rightarrow> []
      | Some m \<Rightarrow> (case BodyStream m of
                     None \<Rightarrow> []
                   | Some s \<Rightarrow> (case st_Payload s of None \<Rightarrow> [] | Some p \<Rightarrow> payload_handles p)))"

text \<open>
  C8: \<^bold>\<open>Attaching a stream leaks no file and respects the limit.\<close>  Whatever the configuration names as source, parts, multipart selection or
  fallback, and wherever it fails: if \<open>attachStream\<close> returns an error then exactly the files that were open before are open.  If it
  succeeds, the files open in addition are the ones the clean-up of the attached payload closes; where
  the size of the payload is known it is announced as \<open>Content-Length\<close> and is within \<open>max_body_size\<close>, and the
  connection is closed afterwards if and only if the plan ends with a FIN.
\<close>

theorem attach_stream_files:
  assumes "attachStream pf io selector limit (Some cfg) resp ((req, fs), rnd) = Some (res, (req', fs'), rnd')"
    and "files_ok fs" "limit \<le> MaxInt64" "sc_Parts cfg = [] \<or> \<not> mp_IsSet (sc_Multipart cfg)" "\<not> rs_closeAfterWrite resp"
  shows "files_ok fs' \<and>
    (case res of
       Inl e \<Rightarrow> open_handles fs' = open_handles fs
     | Inr resp' \<Rightarrow>
         (\<exists>m h payload plan. target_message resp' = Some m \<and> m_Header m = Some h \<and> Body m = None \<and>
            BodyStream m = Some \<lparr>st_Reader = None, st_Payload = Some payload, st_Plan = plan\<rparr> \<and>
            open_handles fs' = open_handles fs @ payload_handles payload \<and> payload_within limit payload \<and>
            (\<forall>n. SizeHint payload = (n, True) \<longrightarrow> Header_Get h ''Content-Length'' = Some (go_FormatInt n 10)) \<and>
            (rs_closeAfterWrite resp' \<longleftrightarrow> finishMode plan = StreamFinishFIN)))"
  using attach_stream_cases [OF assms(1,2)] assms(5) resolve_within [OF assms(3,4)] unfolding results_def
  by (simp split: sum.splits) blast

definition two_files :: StreamConfig where
  "two_files = half_stream\<lparr>sc_Source := \<lparr>src_From = [], src_Body = [], src_BodyFile = []\<rparr>,
     sc_Parts := [\<lparr>src_From = ''body_file'', src_Body = [], src_BodyFile = ''a''\<rparr>,
                  \<lparr>src_From = ''body_file'', src_Body = [], src_BodyFile = ''b''\<rparr>], sc_PartsSet := True\<rparr>"

definition demo_platform :: "(unit, unit, unit) platform" where
  "demo_platform =
     \<lparr>pf_lib = \<lparr>re_MatchString = \<lambda>_ _. True, re_FindStringSubmatch = \<lambda>_ _. None, re_SubexpNames = \<lambda>_. [], re_Compile = \<lambda>_. Inr (),
               mime_ParseMediaType = \<lambda>_. Inl EOF, net_ParseIP = \<lambda>_. None, net_ParseCIDR = \<lambda>_. Inl EOF,
               net_Contains = \<lambda>_ _. False\<rparr>,
      pf_open = \<lambda>path. Inr \<lparr>file_Stat = if path = ''a'' then Inr 5 else Inl EOF, file_data = ''hello'', file_err = None\<rparr>,
      pf_close = \<lambda>_. None, pf_parts = \<lambda>_ _. ([], EOF)\<rparr>"

definition bare_response :: "(unit, payload) response" where
  "bare_response = (NewResponse 200)
     \<lparr>rs_HTTPResponse := Some \<lparr>BodyReader = None, Body = None, bodyLoaded = False, bodyErr = None, bodyOnce = False,
        BodyStream = None, m_Header = None, m_Method = [], m_URI = [], m_Status = ''200'', m_StatusText = ''OK'', m_Proto = ''HTTP/1.1''\<rparr>\<rparr>"

definition unit_io :: "unit body_io" where
  "unit_io = \<lparr>io_read = \<lambda>r n. (([], Some EOF), r), io_size = id, io_grow = \<lambda>n _. n\<rparr>"

theorem attach_stream_files_witness:
  "\<exists>e st' rnd'. attachStream demo_platform unit_io None 100 (Some two_files) bare_response
      ((zero_request :: (unit, unit, unit) request, \<lparr>next_handle = 7, open_handles = [3]\<rparr>), sconst 5) = Some (Inl e, st', rnd') \<and>
    open_handles (snd st') = [3] \<and> next_handle (snd st') = 9"
proof -
  let ?fs = "\<lparr>next_handle = 7, open_handles = [3]\<rparr>"
  obtain e req' fs' where r: "resolveStreamPayloadWithLimit demo_platform unit_io two_files 100
      (zero_request :: (unit, unit, unit) request, ?fs) = Some (Inl e, (req', fs'))" "next_handle fs' = 9"
  proof -
    have "case resolveStreamPayloadWithLimit demo_platform unit_io two_files 100 (zero_request :: (unit, unit, unit) request, ?fs) of
        Some x \<Rightarrow> isl (fst x) \<and> next_handle (snd (snd x)) = 9 | None \<Rightarrow> False"
      by code_simp
    then show ?thesis using that by (auto simp: isl_def split: option.split_asm)
  qed
  then have a: "attachStream demo_platform unit_io None 100 (Some two_files) bare_response
      ((zero_request :: (unit, unit, unit) request, ?fs), sconst 5) =
      Some (Inl (streamICAPError ''failed to resolve stream source'' e), (req', fs'), sconst 5)"
    by (simp add: attachStream_def)
  have "sc_Parts two_files = [] \<or> \<not> mp_IsSet (sc_Multipart two_files)" "\<not> rs_closeAfterWrite bare_response" by code_simp+
  then have "open_handles fs' = [3]"
    using attach_stream_files [OF a] by (simp add: files_ok_def MaxInt64_def)
  with a r(2) show ?thesis by auto
qed

end
