(* ===== verification/Substitution.thy ===== *)
theory Substitution
  imports Scenario_Compile
begin

text \<open>
  Captured path parameters in response templates (\<^verbatim>\<open>internal/processor/mock.go\<close>, from
  \<open>capturePlaceholder\<close> on): \<open>${name}\<close> stands for a capture, \<open>$${\<close> for a literal \<open>${\<close>.  The code
  replaces the escape by a marker first, then the placeholders, then the marker; the theorem shows that this is the single
  left-to-right expansion \<open>expand\<close>, in which captured text is never expanded again.
\<close>

section \<open>Strings\<close>

text \<open>\<open>strings.ReplaceAll\<close> for an \<open>old\<close> that is not empty.\<close>

function go_ReplaceAll :: "string \<Rightarrow> string \<Rightarrow> string \<Rightarrow> string" where
  "go_ReplaceAll s old new =
     (if s = [] then []
      else if old \<noteq> [] \<and> go_HasPrefix s old then new @ go_ReplaceAll (drop (length old) s) old new
      else hd s # go_ReplaceAll (tl s) old new)"
  by pat_completeness auto

termination
  by (relation "measure (\<lambda>(s, _, _). length s)") (auto simp: neq_Nil_conv)

declare go_ReplaceAll.simps [simp del]

text \<open>
  The name of a \<open>${name}\<close> at the front of a text: what \<open>capturePlaceholder\<close> matches there.  Its part in
  braces has the syntax of an endpoint placeholder.
\<close>

definition capture_at :: "string \<Rightarrow> string option" where
  "capture_at s = (case s of [] \<Rightarrow> None | c # rest \<Rightarrow> if c = CHR ''$'' then placeholder rest else None)"

definition capture_value :: "(string \<times> string) list \<Rightarrow> string \<Rightarrow> string" where
  "capture_value vars name = (case map_of vars name of None \<Rightarrow> [] | Some v \<Rightarrow> v)"

text \<open>\<open>capturePlaceholder.ReplaceAllStringFunc\<close> with the lookup: leftmost matches that do not overlap.\<close>

function replace_captures :: "(string \<times> string) list \<Rightarrow> string \<Rightarrow> string" where
  "replace_captures vars s =
     (if s = [] then []
      else (case capture_at s of
              Some name \<Rightarrow> capture_value vars name @ replace_captures vars (drop (length name + 3) s)
            | None \<Rightarrow> hd s # replace_captures vars (tl s)))"
  by pat_completeness auto

termination
  by (relation "measure (length \<circ> snd)") (auto simp: neq_Nil_conv)

declare replace_captures.simps [simp del]

definition escaped :: string where
  "escaped = CHR 0x00 # ''ESC'' @ [CHR 0x00]"

definition substituteString :: "string \<Rightarrow> (string \<times> string) list \<Rightarrow> string" where
  "substituteString s vars =
     (if s = [] then s
      else (let tmp = go_ReplaceAll s ''$${'' escaped;
                tmp = replace_captures vars tmp
            in go_ReplaceAll tmp escaped ''${''))"

section \<open>Templates\<close>

definition substituteStringSlice :: "string list \<Rightarrow> (string \<times> string) list \<Rightarrow> string list" where
  "substituteStringSlice xs vars = map (\<lambda>v. substituteString v vars) xs"

definition substituteMap :: "(string \<times> string) list \<Rightarrow> (string \<times> string) list \<Rightarrow> (string \<times> string) list" where
  "substituteMap m vars = map (\<lambda>(k, v). (k, substituteString v vars)) m"

definition substituteStreamParts :: "StreamPartConfig list \<Rightarrow> (string \<times> string) list \<Rightarrow> StreamPartConfig list" where
  "substituteStreamParts parts vars =
     map (\<lambda>p. p\<lparr>src_Body := substituteString (src_Body p) vars, src_BodyFile := substituteString (src_BodyFile p) vars\<rparr>) parts"

definition substituteStreamFallback :: "StreamFallbackConfig \<Rightarrow> (string \<times> string) list \<Rightarrow> StreamFallbackConfig" where
  "substituteStreamFallback f vars =
     f\<lparr>fb_Body := substituteString (fb_Body f) vars, fb_BodyFile := substituteString (fb_BodyFile f) vars,
       fb_RawFilename := substituteStringSlice (fb_RawFilename f) vars\<rparr>"

definition substituteStream :: "StreamConfig \<Rightarrow> (string \<times> string) list \<Rightarrow> StreamConfig" where
  "substituteStream s vars =
     s\<lparr>sc_Body := substituteString (sc_Body s) vars, sc_BodyFile := substituteString (sc_BodyFile s) vars,
       sc_Source := (sc_Source s)\<lparr>src_Body := substituteString (src_Body (sc_Source s)) vars,
                                  src_BodyFile := substituteString (src_BodyFile (sc_Source s)) vars\<rparr>,
       sc_Parts := substituteStreamParts (sc_Parts s) vars,
       sc_Fallback := substituteStreamFallback (sc_Fallback s) vars,
       sc_Multipart := (sc_Multipart s)\<lparr>mp_Fields := substituteStringSlice (mp_Fields (sc_Multipart s)) vars,
                                        mp_Filename := substituteStringSlice (mp_Filename (sc_Multipart s)) vars\<rparr>\<rparr>"

definition substituteCaptures :: "ResponseTemplate \<Rightarrow> (string \<times> string) list \<Rightarrow> ResponseTemplate" where
  "substituteCaptures resp vars =
     resp\<lparr>rp_Body := substituteString (rp_Body resp) vars, rp_BodyFile := substituteString (rp_BodyFile resp) vars,
          rp_HTTPBody := substituteString (rp_HTTPBody resp) vars,
          rp_HTTPBodyFile := substituteString (rp_HTTPBodyFile resp) vars,
          rp_Error := substituteString (rp_Error resp) vars,
          rp_Stream := map_option (\<lambda>s. substituteStream s vars) (rp_Stream resp),
          rp_Headers := substituteMap (rp_Headers resp) vars, rp_HTTPHeaders := substituteMap (rp_HTTPHeaders resp) vars\<rparr>"

section \<open>One left-to-right expansion\<close>

function expand :: "(string \<times> string) list \<Rightarrow> string \<Rightarrow> string" where
  "expand vars s =
     (if s = [] then []
      else if go_HasPrefix s ''$${'' then ''${'' @ expand vars (drop 3 s)
      else (case capture_at s of
              Some name \<Rightarrow> capture_value vars name @ expand vars (drop (length name + 3) s)
            | None \<Rightarrow> hd s # expand vars (tl s)))"
  by pat_completeness auto

termination
  by (relation "measure (length \<circ> snd)") (auto simp: neq_Nil_conv)

declare expand.simps [simp del]

text \<open>The first two passes on a text, one step of the expansion at a time.\<close>

definition marked :: "string \<Rightarrow> string" where
  "marked s = go_ReplaceAll s ''$${'' escaped"

definition unmark :: "string \<Rightarrow> string" where
  "unmark s = go_ReplaceAll s escaped ''${''"

lemma replace_Nil [simp]: "go_ReplaceAll [] old new = []"
  by (subst go_ReplaceAll.simps) simp

lemma marked_escape: "marked (''$${'' @ r) = escaped @ marked r"
  unfolding marked_def by (subst go_ReplaceAll.simps) (simp add: go_HasPrefix_def)

lemma marked_other: "\<not> go_HasPrefix (c # r) ''$${'' \<Longrightarrow> marked (c # r) = c # marked r"
  unfolding marked_def by (subst go_ReplaceAll.simps) (simp del: go_HasPrefix_Cons)

lemma marked_Nil [simp]: "marked [] = []"
  by (simp add: marked_def)

lemma escape_split: "go_HasPrefix s ''$${'' \<Longrightarrow> s = ''$${'' @ drop 3 s"
proof -
  assume "go_HasPrefix s ''$${''"
  then have h: "take 3 s = ''$${''" by (simp add: go_HasPrefix_def numeral_3_eq_3)
  have "''$${'' @ drop 3 s = take 3 s @ drop 3 s" by (simp only: h)
  also have "\<dots> = s" by (rule append_take_drop_id)
  finally show ?thesis by (rule sym)
qed

lemma unmark_marker: "unmark (escaped @ t) = ''${'' @ unmark t"
  unfolding unmark_def by (subst go_ReplaceAll.simps) (simp add: go_HasPrefix_def escaped_def)

lemma unmark_plain: "CHR 0x00 \<notin> set a \<Longrightarrow> unmark (a @ t) = a @ unmark t"
proof (induction a)
  case (Cons c a)
  then have "\<not> go_HasPrefix (c # a @ t) escaped" by (auto simp: escaped_def)
  then have "unmark (c # a @ t) = c # unmark (a @ t)"
    unfolding unmark_def by (subst go_ReplaceAll.simps) (simp del: go_HasPrefix_Cons)
  then show ?case using Cons by simp
qed simp

lemma unmark_Nil [simp]: "unmark [] = []"
  by (simp add: unmark_def)

lemma captures_other: "capture_at (c # t) = None \<Longrightarrow> replace_captures vars (c # t) = c # replace_captures vars t"
  by (subst replace_captures.simps) simp

lemma captures_marker: "replace_captures vars (escaped @ t) = escaped @ replace_captures vars t"
proof -
  have skip: "replace_captures vars (c # t) = c # replace_captures vars t" if "c \<noteq> CHR ''$''" for c t
    using that by (intro captures_other) (simp add: capture_at_def)
  show ?thesis by (simp add: escaped_def skip)
qed

text \<open>The marker does not disturb the placeholders.\<close>

lemma hd_marked: "u \<noteq> [] \<Longrightarrow> marked u \<noteq> [] \<and> hd (marked u) = (if go_HasPrefix u ''$${'' then CHR 0x00 else hd u)"
proof (cases "go_HasPrefix u ''$${''")
  case True
  have "marked u = escaped @ marked (drop 3 u)"
    by (subst escape_split [OF True]) (rule marked_escape)
  then show ?thesis using True by (simp add: escaped_def)
next
  case False
  then show "u \<noteq> [] \<Longrightarrow> ?thesis" using marked_other by (cases u) (simp_all del: go_HasPrefix_Cons)
qed

lemma not_name_chars [simp]: "\<not> is_name_char (CHR ''$'')" "\<not> is_name_char (CHR 0x00)" "\<not> is_name_char (CHR ''}'')"
  by (simp_all add: is_name_char_def is_name_start_def)

lemma marked_name: "marked t = takeWhile is_name_char t @ marked (dropWhile is_name_char t)"
proof (induction t)
  case (Cons c t)
  show ?case
  proof (cases "is_name_char c")
    case True
    then have "c \<noteq> CHR ''$''" by auto
    then have "marked (c # t) = c # marked t" by (intro marked_other) simp
    then show ?thesis using True Cons by simp
  qed simp
qed simp

lemma drop_name: "drop (length (takeWhile P t)) t = dropWhile P t"
  by (metis append_eq_conv_conj takeWhile_dropWhile_id)

lemma marked_name_split:
  "takeWhile is_name_char (marked t) = takeWhile is_name_char t"
  "dropWhile is_name_char (marked t) = marked (dropWhile is_name_char t)"
proof -
  let ?u = "dropWhile is_name_char t"
  have u: "marked ?u = [] \<or> \<not> is_name_char (hd (marked ?u))"
  proof (cases ?u)
    case (Cons a u)
    then have "\<not> is_name_char a" using hd_dropWhile [of is_name_char t] by (metis list.distinct(1) list.sel(1))
    then show ?thesis using hd_marked [of ?u] Cons by auto
  next
    case Nil
    show ?thesis unfolding Nil by simp
  qed
  have "\<forall>c \<in> set (takeWhile is_name_char t). is_name_char c" by (auto dest: set_takeWhileD)
  moreover have "takeWhile is_name_char (marked ?u) = []" "dropWhile is_name_char (marked ?u) = marked ?u"
    using u by (cases "marked ?u"; auto)+
  ultimately show "takeWhile is_name_char (marked t) = takeWhile is_name_char t"
    "dropWhile is_name_char (marked t) = marked ?u"
    by (subst marked_name, simp add: takeWhile_append2 dropWhile_append2)+
qed

lemma placeholder_Cons:
  "placeholder (c # t) =
     (if c = CHR ''{'' \<and> takeWhile is_name_char t \<noteq> [] \<and> is_name_start (hd (takeWhile is_name_char t)) \<and>
         dropWhile is_name_char t \<noteq> [] \<and> hd (dropWhile is_name_char t) = CHR ''}''
      then Some (takeWhile is_name_char t) else None)"
  by (simp add: placeholder_def drop_name Let_def del: drop_eq_Nil dropWhile_eq_Nil_conv)

lemma placeholder_marked: "placeholder (marked r) = placeholder r"
proof (cases r)
  case (Cons c t)
  show ?thesis
  proof (cases "go_HasPrefix r ''$${''")
    case True
    have "marked r = escaped @ marked (drop 3 r)"
      by (subst escape_split [OF True]) (rule marked_escape)
    moreover have "c = CHR ''$''" using True Cons by simp
    ultimately show ?thesis by (simp add: Cons placeholder_Cons escaped_def)
  next
    case False
    have h: "marked u \<noteq> [] \<and> hd (marked u) = CHR ''}'' \<longleftrightarrow> u \<noteq> [] \<and> hd u = CHR ''}''" for u
      using hd_marked [of u] by (cases u) auto
    have "marked r = c # marked t" unfolding Cons by (rule marked_other) (use False Cons in simp)
    then show ?thesis
      using h [of "dropWhile is_name_char t"]
      by (simp add: Cons placeholder_Cons marked_name_split del: dropWhile_eq_Nil_conv)
  qed
qed simp

lemma placeholder_split:
  assumes "placeholder r = Some name"
  shows "r = CHR ''{'' # name @ CHR ''}'' # drop (length name + 2) r" "\<forall>c \<in> set name. is_name_char c"
proof -
  obtain t where t: "r = CHR ''{'' # t" "name = takeWhile is_name_char t" "dropWhile is_name_char t \<noteq> []"
    "hd (dropWhile is_name_char t) = CHR ''}''"
    using assms
  proof (cases r)
    case (Cons c u)
    then show ?thesis using assms that by (auto simp: placeholder_Cons simp del: dropWhile_eq_Nil_conv split: if_splits)
  qed (simp add: placeholder_def)
  obtain u where u: "dropWhile is_name_char t = CHR ''}'' # u" using t(3,4) by (cases "dropWhile is_name_char t") auto
  have "t = name @ CHR ''}'' # u" using u t(2) takeWhile_dropWhile_id [of is_name_char t] by simp
  then show "r = CHR ''{'' # name @ CHR ''}'' # drop (length name + 2) r" using t(1) by simp
  show "\<forall>c \<in> set name. is_name_char c" unfolding t(2) by (auto dest: set_takeWhileD)
qed

lemma marked_names:
  assumes "\<forall>c \<in> set name. is_name_char c"
  shows "marked (CHR ''{'' # name @ CHR ''}'' # u) = CHR ''{'' # name @ CHR ''}'' # marked u"
proof -
  have e: "takeWhile is_name_char (name @ CHR ''}'' # u) = name" "dropWhile is_name_char (name @ CHR ''}'' # u) = CHR ''}'' # u"
    using assms by (simp_all add: takeWhile_append dropWhile_append)
  have "marked (CHR ''{'' # name @ CHR ''}'' # u) = CHR ''{'' # marked (name @ CHR ''}'' # u)"
    by (rule marked_other) simp
  also have "\<dots> = CHR ''{'' # name @ marked (CHR ''}'' # u)"
    using marked_name [of "name @ CHR ''}'' # u"] unfolding e by simp
  also have "marked (CHR ''}'' # u) = CHR ''}'' # marked u" by (rule marked_other) simp
  finally show ?thesis .
qed

lemma capture_value_clean:
  assumes "\<forall>v \<in> snd ` set vars. CHR 0x00 \<notin> set v"
  shows "CHR 0x00 \<notin> set (capture_value vars name)"
proof (cases "map_of vars name")
  case (Some v)
  then have "(name, v) \<in> set vars" by (rule map_of_SomeD)
  then have "v \<in> snd ` set vars" by force
  then have "CHR 0x00 \<notin> set v" using assms by blast
  then show ?thesis using Some by (simp add: capture_value_def)
qed (simp add: capture_value_def)

text \<open>The three passes are the expansion, where neither the text nor a captured value contains the NUL character.\<close>

lemma expand_passes:
  assumes "\<forall>v \<in> snd ` set vars. CHR 0x00 \<notin> set v" "CHR 0x00 \<notin> set s"
  shows "unmark (replace_captures vars (marked s)) = expand vars s"
  using assms
proof (induction vars s rule: expand.induct)
  case (1 vars s)
  have e0: "replace_captures vars [] = []" by (subst replace_captures.simps) simp
  show ?case
  proof (cases s)
    case Nil
    then show ?thesis by (subst expand.simps) (simp add: e0)
  next
    case (Cons c r)
    show ?thesis
    proof (cases "go_HasPrefix s ''$${''")
      case True
      have m: "marked s = escaped @ marked (drop 3 s)" by (subst escape_split [OF True]) (rule marked_escape)
      have "unmark (replace_captures vars (marked (drop 3 s))) = expand vars (drop 3 s)"
        using "1.IH"(1) Cons True "1.prems" by (auto dest: in_set_dropD)
      moreover have "expand vars s = ''${'' @ expand vars (drop 3 s)"
        using True Cons by (subst expand.simps) (simp del: go_HasPrefix_Cons)
      ultimately show ?thesis unfolding m captures_marker unmark_marker by simp
    next
      case False
      have m: "marked s = c # marked r" unfolding Cons by (rule marked_other) (use False Cons in simp)
      have at: "capture_at (marked s) = capture_at s"
        unfolding m by (simp add: capture_at_def Cons placeholder_marked)
      show ?thesis
      proof (cases "capture_at s")
        case None
        have "replace_captures vars (marked s) = c # replace_captures vars (marked r)"
          unfolding m by (rule captures_other) (use at None m in simp)
        moreover have "unmark (c # t) = c # unmark t" for t
          using unmark_plain [of "[c]" t] "1.prems" Cons by simp
        moreover have "unmark (replace_captures vars (marked r)) = expand vars r"
          using "1.IH"(2) [OF _ False None] Cons "1.prems" by simp
        ultimately show ?thesis using None False Cons by (subst expand.simps) auto
      next
        case (Some name)
        let ?u = "drop (length name + 3) s"
        have c: "c = CHR ''$''" "placeholder r = Some name"
          using Some Cons by (auto simp: capture_at_def split: if_splits)
        have r: "r = CHR ''{'' # name @ CHR ''}'' # ?u" using placeholder_split(1) [OF c(2)] Cons by (simp add: numeral_3_eq_3)
        have mr: "marked r = CHR ''{'' # name @ CHR ''}'' # marked ?u"
          by (subst r) (rule marked_names [OF placeholder_split(2) [OF c(2)]])
        have "replace_captures vars (marked s) = capture_value vars name @ replace_captures vars (marked ?u)"
          using at Some by (subst replace_captures.simps) (simp add: m mr numeral_3_eq_3)
        moreover have "CHR 0x00 \<notin> set (capture_value vars name)"
          by (rule capture_value_clean [OF "1.prems"(1)])
        moreover have "unmark (replace_captures vars (marked ?u)) = expand vars ?u"
          proof (rule "1.IH"(3) [OF _ False Some "1.prems"(1)])
          show "CHR 0x00 \<notin> set ?u" using "1.prems"(2) by (meson in_set_dropD)
        qed (simp add: Cons)
        ultimately show ?thesis using Some False Cons
          by (subst expand.simps) (auto simp: unmark_plain)
      qed
    qed
  qed
qed

lemma substituteString_expand:
  assumes "\<forall>v \<in> snd ` set vars. CHR 0x00 \<notin> set v" "CHR 0x00 \<notin> set s"
  shows "substituteString s vars = expand vars s"
proof (cases "s = []")
  case True
  then show ?thesis by (subst expand.simps) (simp add: substituteString_def)
next
  case False
  then show ?thesis using expand_passes [OF assms] by (simp add: substituteString_def unmark_def marked_def Let_def)
qed

section \<open>Properties\<close>

text \<open>
  C10: \<^bold>\<open>Substitution is one left-to-right expansion.\<close>  Where neither the text nor a captured value contains the
  NUL character, the three passes of \<open>substituteString\<close> compute the single pass \<open>expand\<close>: \<open>$${\<close> gives a literal
  \<open>${\<close>, \<open>${name}\<close> gives the capture (nothing when there is none), every other character stays, and what has
  been inserted is not looked at again, so a client cannot smuggle a placeholder in through the path.
\<close>

theorem substitution_is_expansion:
  assumes "\<forall>v \<in> snd ` set vars. CHR 0x00 \<notin> set v" "CHR 0x00 \<notin> set s"
  shows "substituteString s vars = expand vars s"
  using assms by (rule substituteString_expand)

theorem substitution_is_expansion_witness:
  "substituteString ''a=${id} $${id} ${b}$${'' [(''id'', ''${b}'')] = ''a=${b} ${id} ${''"
proof -
  have "substituteString ''a=${id} $${id} ${b}$${'' [(''id'', ''${b}'')] = expand [(''id'', ''${b}'')] ''a=${id} $${id} ${b}$${''"
    by (rule substitution_is_expansion) simp_all
  also have "\<dots> = ''a=${b} ${id} ${''" by code_simp
  finally show ?thesis .
qed

end
