(* ===== verification/Match_Effects.thy ===== *)
theory Match_Effects
  imports Sharded_Search
begin

text \<open>
  What a match leaves in the request besides its answer (\<^verbatim>\<open>internal/storage/scenario.go\<close>,
  \<^verbatim>\<open>scenario_endpoint.go\<close>, \<^verbatim>\<open>scenario_branch.go\<close>, \<^verbatim>\<open>sharded_scenario.go\<close>): the captures, which every
  scenario whose route matches merges into the request, whether it applies in the end or not, and the branch, which the
  scenario that was tried last has set or cleared.  The linear search stops at the scenario that it returns, so the
  branch is its own; the sharded search goes on, and after a load its last candidate is the default scenario, which
  clears the branch.
\<close>

section \<open>Captures\<close>

text \<open>The captures of the request when the scenarios \<open>ss\<close> have been tried in turn.\<close>

definition tried_captures ::
  "('re, 'net, 'ip) golib \<Rightarrow> ('re, 'net) Scenario list \<Rightarrow> ('q, 'r, 'b) request \<Rightarrow> (string \<times> string) list" where
  "tried_captures lib ss req =
     fold (\<lambda>t m. case route_captures lib t req of None \<Rightarrow> m | Some caps \<Rightarrow> fold (\<lambda>(k, v) m. AList.update k v m) caps m) ss
       (Captures req)"

lemma tried_captures_Nil [simp]: "tried_captures lib [] req = Captures req"
  by (simp add: tried_captures_def)

lemma tried_captures_step:
  assumes "request_view r' = request_view r" "Captures r' = tried_captures lib [s] r"
  shows "tried_captures lib ss r' = tried_captures lib (s # ss) r"
  using assms(2) by (simp add: tried_captures_def view_route_captures [OF assms(1)])

lemma check_body_captures:
  "check_body lib io ctx opt s req = Some (x, req') \<Longrightarrow> Captures req' = Captures req"
  by (auto simp: check_body_def set_bodyPatternMessage_def split: option.splits if_splits)

lemma finish_match_captures: "Captures (snd (finish_match lib s req)) = Captures req"
  by (simp add: finish_match_def Let_def ClearMatchedBranch_def SetMatchedBranch_def)

lemma matchesScenario_captures:
  assumes ctx: "\<And>k. ctx k = None" and m: "matchesScenario lib io ctx opt s req = Some (x, req')"
  shows "Captures req' = tried_captures lib [s] req"
proof (cases "route_captures lib s req")
  case None
  then show ?thesis using m by (simp add: matchesScenario_def ctx tried_captures_def)
next
  case (Some caps)
  let ?r1 = "merge_captures caps req"
  have c: "Captures ?r1 = tried_captures lib [s] req" by (simp add: tried_captures_def Some merge_captures_def)
  show ?thesis
  proof (cases "conditionsMatch lib s ?r1")
    case True
    then obtain ok err req2 where b: "check_body lib io ctx opt s ?r1 = Some ((ok, err), req2)"
      and o: "(if err \<noteq> None \<or> \<not> ok then Some ((False, err), req2)
          else (let (m, req3) = finish_match lib s req2 in Some ((m, None), req3))) = Some (x, req')"
      using m by (auto simp: matchesScenario_def ctx Some Let_def split: option.splits)
    have "Captures req' = Captures req2" using o finish_match_captures [of lib s req2] by (auto split: if_splits prod.splits)
    then show ?thesis using check_body_captures [OF b] c by simp
  qed (use m c in \<open>simp add: matchesScenario_def ctx Some\<close>)
qed

lemma match_first_captures:
  fixes req :: "('q, 'r, 'b) request"
  assumes ctx: "\<And>i k. ctx i k = None" and b: "body_reads io opt req res"
    and m: "match_first lib io ctx opt n ss req = Some (Inr s, req')"
  shows "\<exists>before after. ss = before @ s # after \<and> (\<forall>t \<in> set before. declines lib opt res req t) \<and>
    verdict lib opt res s req = Inr True \<and> Captures req' = tried_captures lib (before @ [s]) req"
  using b m
proof (induction ss arbitrary: n req)
  case (Cons t ss)
  have none: "ctx = (\<lambda>_ _. None)" using ctx by (intro ext) simp
  obtain req1 where t: "matchesScenario lib io (\<lambda>k. ctx (Suc n) (Suc k)) opt t req =
      Some (case verdict lib opt res t req of Inl e \<Rightarrow> ((False, Some e), req1) | Inr m \<Rightarrow> ((m, None), req1))"
    and v: "request_view req1 = request_view req" "body_reads io opt req1 res"
    using matchesScenario_verdict [of "\<lambda>k. ctx (Suc n) (Suc k)" io opt req res lib t] ctx Cons.prems(1) by blast
  obtain ok where ok: "verdict lib opt res t req = Inr ok"
    using Cons.prems(2) t by (cases "verdict lib opt res t req") (auto simp: ctx)
  have c: "Captures req1 = tried_captures lib [t] req"
    using matchesScenario_captures [of "\<lambda>k. ctx (Suc n) (Suc k)" lib io opt t req] t ctx ok by simp
  show ?case
  proof (cases ok)
    case True
    then have "s = t" "req' = req1" using Cons.prems(2) t ok by (simp_all add: ctx)
    then show ?thesis using c ok True by (intro exI [of _ "[]"] exI [of _ ss]) simp
  next
    case False
    then have rest: "match_first lib io ctx opt (Suc n) ss req1 = Some (Inr s, req')"
      using Cons.prems(2) t ok none by simp
    obtain before after where w: "ss = before @ s # after" "\<forall>u \<in> set before. declines lib opt res req1 u"
        "verdict lib opt res s req1 = Inr True" "Captures req' = tried_captures lib (before @ [s]) req1"
      using Cons.IH [OF v(2) rest] by blast
    then show ?thesis using ok False
      by (intro exI [of _ "t # before"] exI [of _ after])
         (simp add: declines_def view_verdict [OF v(1)] tried_captures_step [OF v(1) c])
  qed
qed simp

section \<open>The branch after a sharded search\<close>

text \<open>The default scenario that a load adds accepts every request and clears the branch.\<close>

lemma default_clears:
  assumes "matchesScenario lib io ctx opt (DefaultScenario a\<lparr>s_order := i\<rparr>) req = Some ((matched, None), req')"
  shows "matched \<and> MatchedBranch req' = (0, False)"
  using assms
  by (auto simp: matchesScenario_def route_captures_def route_endpoints_def methodMatches_def conditionsMatch_def no_rule_def
      headerRulesMatch_def check_body_def finish_match_def Let_def MatchedBranch_def ClearMatchedBranch_def split: option.splits)

definition ends_with_default :: "('re, 'net) Scenario list \<Rightarrow> bool" where
  "ends_with_default ss \<longleftrightarrow> (\<exists>before a i. ss = before @ [DefaultScenario a\<lparr>s_order := i\<rparr>])"

lemma best_match_clears:
  assumes "best_match lib io ctx opt i best (before @ [DefaultScenario a\<lparr>s_order := n\<rparr>]) req = Some (Inr found, req')"
  shows "MatchedBranch req' = (0, False)"
  using assms
proof (induction before arbitrary: i best req)
  case Nil
  then show ?case by (auto dest: default_clears split: option.splits prod.splits)
next
  case (Cons s before)
  then show ?case by (auto split: option.splits prod.splits)
qed

lemma search_clears:
  assumes "ends_with_default (sr_globalScenarios r)" "search lib io ctx r req = (fb, Some (Inr found, req'))"
  shows "MatchedBranch req' = (0, False)"
proof -
  have "MatchedBranch req2 = (0, False)"
    if "applyGlobalPriorityCandidate lib io ctx r req1 cur = Some (Inr x, req2)" for req1 cur x req2
    using that assms(1) best_match_clears
    by (fastforce simp: applyGlobalPriorityCandidate_def matchGlobalPriorityCandidates_def ends_with_default_def
        split: option.splits sum.splits if_splits)
  then show ?thesis using assms(2) by (auto simp: search_def split: prod.splits option.splits sum.splits)
qed

lemma match_clears:
  assumes "ends_with_default (sr_globalScenarios r)" "MatchedBranch req = (0, False)"
    and m: "sharded_Match lib io ctx now addr r (Some req) = Some (Inr s, Some req', r')"
  shows "MatchedBranch req' = (0, False)"
proof -
  obtain generation cached r2 where c: "cachedMatch req (matchCacheEnabled (count totalMatches_update r)) (count totalMatches_update r) = (cached, r2)"
    by fastforce
  have g: "sr_globalScenarios r2 = sr_globalScenarios r"
    using c by (auto simp: cachedMatch_def count_def Let_def split: if_splits prod.splits option.splits)
  show ?thesis
  proof (cases cached)
    case (Some t)
    then show ?thesis using m c assms(2) by (auto simp: sharded_Match_def Let_def split: option.splits)
  next
    case None
    then obtain fb found req2 where s: "search lib io ctx r2 req = (fb, Some (Inr found, req2))" "req' = req2"
      using m c by (auto simp: sharded_Match_def Let_def split: option.splits prod.splits sum.splits)
    then show ?thesis using search_clears [of r2] assms(1) g by simp
  qed
qed

lemma sharded_Match_globals:
  "sharded_Match lib io ctx now addr r reqp = Some (res, reqp', r') \<Longrightarrow> sr_globalScenarios r' = sr_globalScenarios r"
  by (auto simp: sharded_Match_def cachedMatch_def count_def storeMatchCache_def Let_def
      split: option.splits prod.splits sum.splits if_splits)

text \<open>Of the globals, the scenarios that the index cannot hold, the default scenario of a freshly loaded file is the last.\<close>

lemma sort_key_last:
  assumes "\<forall>y \<in> set xs. k y \<le> k x"
  shows "sort_key k (xs @ [x]) = sort_key k xs @ [x]"
proof (rule properties_for_sort_key)
  show "filter (\<lambda>z. k y = k z) (sort_key k xs @ [x]) = filter (\<lambda>z. k y = k z) (xs @ [x])" for y
    using sort_key_stable [of k "k y" xs] by (simp add: eq_commute [of "k y"])
qed (use assms in \<open>auto simp: sorted_append\<close>)

lemma loaded_default_last:
  assumes load: "Load lib stat errText addr path (Inr ss) r = (None, r')" and fresh: "\<forall>s \<in> set ss. uncompiled s"
    and names: "defaultScenarioName \<notin> s_Name ` set ss" and prio: "\<forall>s \<in> set ss. -1 \<le> s_Priority s"
  shows "ends_with_default (List r')"
proof -
  obtain cs where cs: "compile_all lib stat errText ss = Inr cs" "List r' = sortScenariosByPriority (number (with_default addr cs))"
    using load by (auto simp: Load_def List_def split: sum.splits)
  have f: "\<forall>c \<in> set cs. s_Name c \<noteq> defaultScenarioName \<and> -1 \<le> s_Priority c"
  proof -
    have "list_all2 (\<lambda>s c. validateAndCompile lib stat s = Inr c) ss cs"
      using map_err_Inr [OF cs(1) [unfolded compile_all_def]] by (elim list_all2_mono) (auto split: sum.splits)
    then show ?thesis using fresh names prio
    proof (induction ss cs rule: list_all2_induct)
      case (Cons s ss c cs)
      then show ?case using validateAndCompile_ok [OF Cons.hyps(1)] by (auto simp: routing_fields_def)
    qed simp
  qed
  let ?d = "DefaultScenario addr\<lparr>s_order := int (length cs)\<rparr>"
  have n: "number (with_default addr cs) = number cs @ [?d]"
    using f by (auto simp: with_default_def number_def enumerate_append_eq list_ex_iff)
  have "rank y \<le> rank ?d" if "y \<in> set (number cs)" for y
  proof -
    obtain i where "i < length cs" "y = (cs ! i)\<lparr>s_order := int i\<rparr>"
      using \<open>y \<in> set (number cs)\<close> by (auto simp: in_set_conv_nth number_simps)
    then show ?thesis using f nth_mem [of i cs] by (auto simp: rank_def less_eq_prod_def)
  qed
  then have "List r' = sort_key rank (number cs) @ [?d]"
    unfolding cs(2) n sortScenariosByPriority_def by (intro sort_key_last) blast
  then show ?thesis by (auto simp: ends_with_default_def)
qed

lemma index_default:
  "indexScenario (DefaultScenario a\<lparr>s_order := i\<rparr>) r = addGlobalScenario (DefaultScenario a\<lparr>s_order := i\<rparr>) r"
  by (simp add: indexScenario_def exactRouteShardEntries_def scenarioRequiresGlobalPriorityCheck_def shardSafePath_def no_rule_def)

lemma install_default_last:
  assumes "ends_with_default ss"
  shows "ends_with_default (sr_globalScenarios (install path ss r))"
proof -
  obtain before a i where ss: "ss = before @ [DefaultScenario a\<lparr>s_order := i\<rparr>]" using assms by (auto simp: ends_with_default_def)
  show ?thesis
    by (auto simp: ends_with_default_def install_def ss index_default addGlobalScenario_def Let_def bump_def clear_cache_def)
qed

text \<open>The registry after some requests have been matched.\<close>

fun after_matches ::
  "('re, 'net, 'ip) golib \<Rightarrow>
   ('r body_io \<times> (nat \<Rightarrow> nat \<Rightarrow> nat \<Rightarrow> go_error option) \<times> int \<times> nat \<times> ('q, 'r, 'b) request) list \<Rightarrow>
   ('re, 'net) ShardedScenarioRegistry \<Rightarrow> ('re, 'net) ShardedScenarioRegistry option" where
  "after_matches lib [] r = Some r"
| "after_matches lib ((io, ctx, now, addr, req) # asks) r =
     (case sharded_Match lib io ctx now addr r (Some req) of
        None \<Rightarrow> None
      | Some (_, _, r') \<Rightarrow> after_matches lib asks r')"

lemma after_matches_globals: "after_matches lib asks r = Some r' \<Longrightarrow> sr_globalScenarios r' = sr_globalScenarios r"
  by (induction lib asks r rule: after_matches.induct) (auto dest: sharded_Match_globals split: option.splits)

lemma loaded_match_clears:
  assumes "sharded_Load lib stat errText addr path (Inr ss) r0 = (None, r1)" "\<forall>s \<in> set ss. uncompiled s"
    and "defaultScenarioName \<notin> s_Name ` set ss" "\<forall>s \<in> set ss. -1 \<le> s_Priority s"
    and "after_matches lib asks r1 = Some r" "MatchedBranch req = (0, False)"
    and "sharded_Match lib io ctx now a r (Some req) = Some (Inr s, Some req', r')"
  shows "MatchedBranch req' = (0, False)"
proof -
  let ?b = "\<lparr>rg_bodyPattern = sr_bodyPattern r0, rg_filePath = [], rg_scenarios = []\<rparr> :: ('a, 'b) scenarioRegistry"
  obtain base where "Load lib stat errText addr path (Inr ss) ?b = (None, base)" "r1 = install path (List base) r0"
    using assms(1) by (auto simp: sharded_Load_def split: prod.splits option.splits)
  then have "ends_with_default (sr_globalScenarios r1)"
    using loaded_default_last [OF _ assms(2-4)] install_default_last by blast
  then show ?thesis using match_clears [OF _ assms(6,7)] after_matches_globals [OF assms(5)] by simp
qed

end
