(* ===== verification/Mock_Processor.thy ===== *)
theory Mock_Processor
  imports Stream_Source Substitution Match_Effects Weight
begin

text \<open>
  The processor (\<^verbatim>\<open>internal/processor/mock.go\<close>, \<^verbatim>\<open>block.go\<close>, \<^verbatim>\<open>preview.go\<close>,
  \<^verbatim>\<open>echo.go\<close>, \<^verbatim>\<open>processor.go\<close>): a request is matched, the response of the scenario or of the matched
  branch is chosen, a weighted variant is merged into it, captures are substituted, and an ICAP response is built.

  The state is the request, the open files and the random words of \<^verbatim>\<open>Stream_Source\<close>.  The registry is an
  argument, a function from the request to its answer.  What the processor asks of its surroundings is the record \<open>surroundings\<close>:
  the context, the timer, \<open>os.ReadFile\<close>, \<open>http.StatusText\<close> and the random numbers of the choice and
  the delay.  \<^const>\<open>None\<close> as an outcome means that the call panics or does not return.  Log lines and metrics are left
  out; the labels and the outcome that they are given are part of the result.
\<close>

section \<open>The surroundings\<close>

record ('re, 'net, 'ip, 'r) surroundings =
  en_platform :: "('re, 'net, 'ip) platform"
  en_io :: "'r body_io"
  en_ctxErr :: "go_error option"
  en_wait :: "int \<Rightarrow> go_error option"
  en_ReadFile :: "string \<Rightarrow> go_error + string"
  en_StatusText :: "int \<Rightarrow> string"
  en_Intn :: "int \<Rightarrow> int"
  en_Int63n :: "int \<Rightarrow> int"

record MockProcessor =
  mp_streamSelector :: "rands selector option"
  mp_maxStreamBodySize :: int

definition NewMockProcessorWithMaxBodySize :: "int \<Rightarrow> MockProcessor" where
  "NewMockProcessorWithMaxBodySize maxBodySize =
     \<lparr>mp_streamSelector = Some random_SelectInclusive, mp_maxStreamBodySize = maxBodySize\<rparr>"

definition NewMockProcessor :: MockProcessor where
  "NewMockProcessor = NewMockProcessorWithMaxBodySize defaultStreamBodyLimit"

type_synonym ('q, 'r, 'b) pstate = "(('q, 'r, 'b) request \<times> files) \<times> rands"

definition OutcomeError :: string where "OutcomeError = ''error''"
definition OutcomeAllowed :: string where "OutcomeAllowed = ''allowed''"
definition OutcomeBlocked :: string where "OutcomeBlocked = ''blocked''"

section \<open>What a template says\<close>

definition responseStatusCode :: "ResponseTemplate \<Rightarrow> int" where
  "responseStatusCode response = (if rp_ICAPStatus response \<noteq> 0 then rp_ICAPStatus response else rp_Status response)"

definition scenarioResponseLabel :: "ResponseTemplate \<Rightarrow> string" where
  "scenarioResponseLabel response =
     (if rp_ResponseName response \<noteq> [] then rp_ResponseName response else go_Itoa (responseStatusCode response))"

definition isBlockStatus :: "int \<Rightarrow> bool" where
  "isBlockStatus status \<longleftrightarrow> 400 \<le> status \<and> status \<le> 599"

definition streamAutoBlocks :: "StreamConfig option \<Rightarrow> bool" where
  "streamAutoBlocks stream \<longleftrightarrow>
     (case stream of
        None \<Rightarrow> False
      | Some s \<Rightarrow>
          end_Mode (sc_End s) = streamFinishFIN \<or> end_Mode (sc_End s) = streamFinishTerm \<or>
          fi_Mode (sc_Finish s) = streamFinishFIN \<or> fi_Mode (sc_Finish s) = streamFinishTerm \<or>
          fi_Mode (sc_Finish s) = streamFinishWeighted \<and> 0 < FinPercent (sc_Finish s))"

definition responseAutoBlocks :: "ResponseTemplate \<Rightarrow> bool" where
  "responseAutoBlocks response \<longleftrightarrow>
     isBlockStatus (responseStatusCode response) \<or> isBlockStatus (rp_HTTPStatus response) \<or>
     streamAutoBlocks (rp_Stream response) \<or> rp_Error response \<noteq> []"

definition responseBlocks :: "ResponseTemplate option \<Rightarrow> bool" where
  "responseBlocks response \<longleftrightarrow>
     (case response of
        None \<Rightarrow> False
      | Some t \<Rightarrow> (case rp_Block t of Some b \<Rightarrow> b | None \<Rightarrow> responseAutoBlocks t))"

definition merge_variant :: "ResponseTemplate \<Rightarrow> WeightedResponse \<Rightarrow> ResponseTemplate" where
  "merge_variant base wr =
     base\<lparr>rp_ICAPStatus := if wr_ICAPStatus wr \<noteq> 0 then wr_ICAPStatus wr else rp_ICAPStatus base,
          rp_HTTPStatus := if wr_HTTPStatus wr \<noteq> 0 then wr_HTTPStatus wr else rp_HTTPStatus base,
          rp_Body := if wr_Body wr \<noteq> [] then wr_Body wr else rp_Body base,
          rp_BodyFile := if wr_BodyFile wr \<noteq> [] then wr_BodyFile wr else rp_BodyFile base,
          rp_HTTPBody := if wr_HTTPBody wr \<noteq> [] then wr_HTTPBody wr else rp_HTTPBody base,
          rp_HTTPBodyFile := if wr_HTTPBodyFile wr \<noteq> [] then wr_HTTPBodyFile wr else rp_HTTPBodyFile base,
          rp_Error := if wr_Error wr \<noteq> [] then wr_Error wr else rp_Error base,
          rp_Headers := if wr_Headers wr \<noteq> [] then wr_Headers wr else rp_Headers base,
          rp_HTTPHeaders := if wr_HTTPHeaders wr \<noteq> [] then wr_HTTPHeaders wr else rp_HTTPHeaders base,
          rp_Stream := if wr_Stream wr \<noteq> None then wr_Stream wr else rp_Stream base,
          rp_Block := if wr_Block wr \<noteq> None then wr_Block wr else rp_Block base,
          rp_ResponseName := if wr_ResponseName wr \<noteq> [] then wr_ResponseName wr else rp_ResponseName base\<rparr>"

definition variant_delay :: "WeightedResponse \<Rightarrow> DelayConfig option" where
  "variant_delay wr = (if 0 < dl_Min (wr_Delay wr) \<or> 0 < dl_Max (wr_Delay wr) then Some (wr_Delay wr) else None)"

text \<open>\<open>rand.Int63n\<close> is the argument.\<close>

definition DelayConfig_Duration :: "(int \<Rightarrow> int) \<Rightarrow> DelayConfig \<Rightarrow> int" where
  "DelayConfig_Duration int63n d =
     (if \<not> dl_IsRange d \<or> dl_Max d \<le> dl_Min d then dl_Min d
      else wrap64 (dl_Min d + int63n (wrap64 (dl_Max d - dl_Min d))))"

definition selected_delay :: "(int \<Rightarrow> int) \<Rightarrow> DelayConfig option \<Rightarrow> ResponseTemplate \<Rightarrow> int" where
  "selected_delay int63n selectedDelay response =
     (case selectedDelay of
        Some d \<Rightarrow> DelayConfig_Duration int63n d
      | None \<Rightarrow>
          (case rp_DelayRange response of
             Some d \<Rightarrow> DelayConfig_Duration int63n d
           | None \<Rightarrow> if 0 < rp_Delay response then rp_Delay response else 0))"

text \<open>
  The template and the variants that answer: those of the matched branch when the scenario has branches.  \<open>Lost\<close> is the
  guard for a match without a branch; \<open>BadIndex\<close> is the panic on an index that the scenario has no branch for.
\<close>

datatype source_choice = Lost | BadIndex | Source ResponseTemplate "WeightedResponse list"

definition response_source :: "('re, 'net) Scenario \<Rightarrow> ('q, 'r, 'b) request \<Rightarrow> source_choice" where
  "response_source s req =
     (if s_Branches s = [] then Source (s_Response s) (case s_WeightedResponses s of None \<Rightarrow> [] | Some ws \<Rightarrow> ws)
      else
        (let (idx, selected) = MatchedBranch req; idx = (if \<not> selected then -1 else idx) in
         if idx < 0 then Lost
         else if nat idx \<ge> length (s_Branches s) then BadIndex
         else (let b = s_Branches s ! nat idx in
               Source (b_Response b) (case b_WeightedResponses b of None \<Rightarrow> [] | Some ws \<Rightarrow> ws))))"

definition choose_variant ::
  "(int \<Rightarrow> int) \<Rightarrow> ResponseTemplate \<Rightarrow> WeightedResponse list \<Rightarrow> (ResponseTemplate \<times> DelayConfig option) option" where
  "choose_variant intn base weighted =
     (if weighted = [] then Some (base, None)
      else (case selectWeightedResponse intn (map wr_Weight weighted) of
              None \<Rightarrow> None
            | Some i \<Rightarrow> Some (merge_variant base (weighted ! i), variant_delay (weighted ! i))))"

definition substituted :: "(string \<times> string) list \<Rightarrow> ResponseTemplate \<Rightarrow> ResponseTemplate" where
  "substituted captures t = (if captures = [] then t else substituteCaptures t captures)"

section \<open>Previews\<close>

definition incomingStreamSource :: "string \<Rightarrow> bool" where
  "incomingStreamSource source \<longleftrightarrow>
     source \<in> {streamSourceRequestBody, streamSourceRequestHTTPBody, streamSourceResponseBody, streamSourceResponseHTTPBody,
               streamSourceAdaptedHTTPBody}"

definition streamNeedsIncomingBody :: "StreamConfig \<Rightarrow> bool" where
  "streamNeedsIncomingBody s \<longleftrightarrow>
     mp_IsSet (sc_Multipart s) \<or> incomingStreamSource (src_From (sc_Source s)) \<or>
     list_ex (\<lambda>part. incomingStreamSource (src_From part)) (sc_Parts s)"

definition selectedPreviewNeedsIncomingBody :: "('q, 'r, 'b) request \<Rightarrow> ResponseTemplate \<Rightarrow> bool" where
  "selectedPreviewNeedsIncomingBody req t \<longleftrightarrow>
     (if \<not> IsPreviewMode req \<or> rp_Error t \<noteq> [] \<or> rp_ICAPStatus t = 204 then False
      else (case rp_Stream t of
              Some s \<Rightarrow> streamNeedsIncomingBody s
            | None \<Rightarrow>
                if rp_HTTPBody t \<noteq> [] \<or> rp_HTTPBodyFile t \<noteq> [] then False
                else if IsREQMOD req \<and> 0 < rp_HTTPStatus t then False
                else (case adaptedHTTPBodyMessage req of
                        Inl e \<Rightarrow> False
                      | Inr side \<Rightarrow> (case side_message side req of None \<Rightarrow> False | Some m \<Rightarrow> HasBody m))))"

definition materializeSelectedPreviewBody ::
  "'r body_io \<Rightarrow> ResponseTemplate \<Rightarrow> int \<Rightarrow> ('q, 'r, 'b, unit) sourced" where
  "materializeSelectedPreviewBody io t limit =
     (\<lambda>(req, fs).
        if \<not> selectedPreviewNeedsIncomingBody req t then Some (Inr (), (req, fs))
        else (case adaptedHTTPBodyMessage req of
                Inl e \<Rightarrow> Some (Inl e, (req, fs))
              | Inr side \<Rightarrow>
                  (case side_message side req of
                     None \<Rightarrow> None
                   | Some m \<Rightarrow>
                       map_option
                         (\<lambda>((body, err), m').
                            (case err of Some e \<Rightarrow> Inl (ErrWrap ''materializing selected preview body: '' e) | None \<Rightarrow> Inr (),
                             (set_side_message side m' req, fs)))
                         (load_message io limit m))))"

section \<open>Building the response\<close>

definition set_headers :: "(string \<times> string) list \<Rightarrow> header \<Rightarrow> header" where
  "set_headers kvs h = fold (\<lambda>(k, v) h. Header_Set h k v) kvs h"

definition template_GetBody :: "(string \<Rightarrow> go_error + string) \<Rightarrow> ResponseTemplate \<Rightarrow> go_error + string" where
  "template_GetBody readFile t =
     (if rp_BodyFile t \<noteq> []
      then (case readFile (rp_BodyFile t) of
              Inl e \<Rightarrow> Inl (ScenarioErrorCause ''load_body'' [] ''response.body_file'' e)
            | Inr b \<Rightarrow> Inr b)
      else Inr (rp_Body t))"

definition loadHTTPBody :: "(string \<Rightarrow> go_error + string) \<Rightarrow> ResponseTemplate \<Rightarrow> go_error + string" where
  "loadHTTPBody readFile t =
     (if rp_HTTPBody t \<noteq> [] then Inr (rp_HTTPBody t)
      else if rp_HTTPBodyFile t \<noteq> [] then readFile (rp_HTTPBodyFile t)
      else Inr [])"

definition setBodyContentLength :: "header \<Rightarrow> (string \<times> string) list \<Rightarrow> nat \<Rightarrow> header" where
  "setBodyContentLength h userHTTPSet n =
     (case map_of userHTTPSet ''Content-Length'' of
        Some userValue \<Rightarrow> if userValue \<noteq> ''auto'' then h else Header_Set h ''Content-Length'' (go_Itoa (int n))
      | None \<Rightarrow> Header_Set h ''Content-Length'' (go_Itoa (int n)))"

text \<open>
  The template's headers and body on a message.  Writing to a \<open>nil\<close> header map panics: \<^const>\<open>None\<close>.
\<close>

definition apply_http :: "ResponseTemplate \<Rightarrow> string \<Rightarrow> ('r, 'b) http_message \<Rightarrow> ('r, 'b) http_message option" where
  "apply_http t httpBody m =
     (case m_Header m of
        None \<Rightarrow> if rp_HTTPHeaders t = [] \<and> httpBody = [] then Some m else None
      | Some h \<Rightarrow>
          (let h1 = set_headers (rp_HTTPHeaders t) h in
           Some (if 0 < length httpBody
                 then m\<lparr>m_Header := Some (setBodyContentLength h1 (rp_HTTPHeaders t) (length httpBody)), Body := Some httpBody\<rparr>
                 else m\<lparr>m_Header := Some h1\<rparr>)))"

definition cloneHTTPMessageMetadata :: "('r, 'b) http_message \<Rightarrow> ('r, 'p) stream_message" where
  "cloneHTTPMessageMetadata m =
     \<lparr>BodyReader = None, Body = None, bodyLoaded = False, bodyErr = None, bodyOnce = False, BodyStream = None,
      m_Header = (case m_Header m of None \<Rightarrow> None | Some h \<Rightarrow> Header_Clone (Some h)),
      m_Method = m_Method m, m_URI = m_URI m, m_Status = m_Status m, m_StatusText = m_StatusText m, m_Proto = m_Proto m\<rparr>"

definition cloneHTTPMessageForResponse ::
  "'r body_io \<Rightarrow> int \<Rightarrow> ('r, 'b) http_message \<Rightarrow> bool \<Rightarrow>
   ((go_error + ('r, 'p) stream_message) \<times> ('r, 'b) http_message) option" where
  "cloneHTTPMessageForResponse io limit m stream =
     (let clone = cloneHTTPMessageMetadata m in
      if stream then Some (Inr clone, m)
      else (case load_message io limit m of
              None \<Rightarrow> None
            | Some ((body, Some e), m') \<Rightarrow> Some (Inl e, m')
            | Some ((body, None), m') \<Rightarrow>
                Some (Inr (if bytes_of body = [] then clone else SetLoadedBody body clone), m')))"

definition shouldSkipOriginalBody :: "ResponseTemplate \<Rightarrow> string \<Rightarrow> bool" where
  "shouldSkipOriginalBody t httpBody \<longleftrightarrow> rp_Stream t \<noteq> None \<or> 0 < length httpBody"

definition cloneICAPError :: "go_error \<Rightarrow> process_error" where
  "cloneICAPError err = internal_error ''failed to clone HTTP message body'' (Some err)"


text \<open>The response that a \<open>REQMOD\<close> template with an HTTP status answers with in place of the request.\<close>

definition synthesized :: "(int \<Rightarrow> string) \<Rightarrow> int \<Rightarrow> ('r, 'p) stream_message" where
  "synthesized statusText status =
     \<lparr>BodyReader = None, Body = None, bodyLoaded = False, bodyErr = None, bodyOnce = False, BodyStream = None,
      m_Header = Some NewHeader, m_Method = [], m_URI = [], m_Status = go_Itoa status, m_StatusText = statusText status,
      m_Proto = ''HTTP/1.1''\<rparr>"

definition set_status :: "(int \<Rightarrow> string) \<Rightarrow> int \<Rightarrow> ('r, 'b) http_message \<Rightarrow> ('r, 'b) http_message" where
  "set_status statusText status m =
     (if 0 < status then m\<lparr>m_Status := go_Itoa status, m_StatusText := statusText status\<rparr> else m)"

definition cloned_side ::
  "('re, 'net, 'ip, 'r) surroundings \<Rightarrow> int \<Rightarrow> ResponseTemplate \<Rightarrow> string \<Rightarrow> http_side \<Rightarrow> ('r, 'b) http_message \<Rightarrow>
   ('q, 'r, 'b) request \<Rightarrow> ((go_error + ('r, 'p) stream_message) \<times> ('q, 'r, 'b) request) option" where
  "cloned_side en limit t httpBody side m req =
     (case cloneHTTPMessageForResponse (en_io en) limit m (shouldSkipOriginalBody t httpBody) of
        None \<Rightarrow> None
      | Some (Inl e, m') \<Rightarrow> Some (Inl e, set_side_message side m' req)
      | Some (Inr c, m') \<Rightarrow>
          map_option (\<lambda>c'. (Inr c', set_side_message side m' req))
            (apply_http t httpBody (if side = ResponseSide then set_status (en_StatusText en) (rp_HTTPStatus t) c else c)))"

definition adapt_message ::
  "('re, 'net, 'ip, 'r) surroundings \<Rightarrow> int \<Rightarrow> ResponseTemplate \<Rightarrow> string \<Rightarrow> ('r, 'p) response \<Rightarrow>
   ('q, 'r, 'b) request \<Rightarrow> ((go_error + ('r, 'p) response) \<times> ('q, 'r, 'b) request) option" where
  "adapt_message en limit t httpBody resp req =
     (if IsREQMOD req then
        (case HTTPRequest req of
           None \<Rightarrow> Some (Inr resp, req)
         | Some m \<Rightarrow>
             if 0 < rp_HTTPStatus t
             then map_option (\<lambda>m. (Inr (SetHTTPResponse (Some m) resp), req))
                    (apply_http t httpBody (synthesized (en_StatusText en) (rp_HTTPStatus t)))
             else map_option (map_prod (map_sum id (\<lambda>c. SetHTTPRequest (Some c) resp)) id)
                    (cloned_side en limit t httpBody RequestSide m req))
      else if IsRESPMOD req then
        (case HTTPResponse req of
           None \<Rightarrow> Some (Inr resp, req)
         | Some m \<Rightarrow>
             map_option (map_prod (map_sum id (\<lambda>c. SetHTTPResponse (Some c) resp)) id)
               (cloned_side en limit t httpBody ResponseSide m req))
      else Some (Inr resp, req))"

definition envelope :: "ResponseTemplate \<Rightarrow> ('r, 'p) response" where
  "envelope t = fold (\<lambda>(k, v). Response_SetHeader k v) (rp_Headers t) (NewResponse (rp_ICAPStatus t))"

definition buildResponse ::
  "('re, 'net, 'ip, 'r) surroundings \<Rightarrow> MockProcessor \<Rightarrow> ResponseTemplate \<Rightarrow> ('q, 'r, 'b) pstate \<Rightarrow>
   ((process_error + ('r, payload) response) \<times> ('q, 'r, 'b) pstate) option" where
  "buildResponse en mp t st =
     (case st of ((req, fs), rnd) \<Rightarrow>
        if rp_ICAPStatus t = 204 then Some (Inr (envelope t), st)
        else
          (case template_GetBody (en_ReadFile en) t of
             Inl e \<Rightarrow> Some (Inl (internal_error ''failed to get response body'' (Some e)), st)
           | Inr body \<Rightarrow>
               (case loadHTTPBody (en_ReadFile en) t of
                  Inl e \<Rightarrow> Some (Inl (internal_error ''failed to read http_body_file'' (Some e)), st)
                | Inr httpBody \<Rightarrow>
                    (case adapt_message en (mp_maxStreamBodySize mp) t httpBody
                            (if body \<noteq> [] then (envelope t)\<lparr>rs_Body := Some body\<rparr> else envelope t) req of
                       None \<Rightarrow> None
                     | Some (Inl e, req1) \<Rightarrow> Some (Inl (cloneICAPError e), ((req1, fs), rnd))
                     | Some (Inr resp, req1) \<Rightarrow>
                         attachStream (en_platform en) (en_io en) (mp_streamSelector mp) (mp_maxStreamBodySize mp) (rp_Stream t)
                           resp ((req1, fs), rnd)))))"

section \<open>Processing a request\<close>

definition responseHasSelectedPartialStream :: "('r, 'p) response \<Rightarrow> bool" where
  "responseHasSelectedPartialStream resp \<longleftrightarrow>
     list_ex (\<lambda>message. case message of
                None \<Rightarrow> False
              | Some m \<Rightarrow> (case BodyStream m of
                             None \<Rightarrow> False
                           | Some s \<Rightarrow> finishMode (st_Plan s) = StreamFinishFIN \<or> finishMode (st_Plan s) = StreamFinishTerm))
       [rs_HTTPRequest resp, rs_HTTPResponse resp]"

definition effectiveResponseOutcome :: "ResponseTemplate \<Rightarrow> ('r, 'p) response \<Rightarrow> string" where
  "effectiveResponseOutcome t resp =
     (case rp_Block t of
        Some b \<Rightarrow> if b then OutcomeBlocked else OutcomeAllowed
      | None \<Rightarrow>
          if 400 \<le> rs_StatusCode resp \<or> rp_Error t \<noteq> [] then []
          else if responseHasSelectedPartialStream resp \<or> isBlockStatus (rp_HTTPStatus t) then OutcomeBlocked
          else OutcomeAllowed)"

text \<open>What the processor records of a request that a scenario was found for: its name, the response's label and the outcome.\<close>

record report =
  re_Scenario :: string
  re_Response :: string
  re_Outcome :: string

type_synonym ('q, 'r, 'b) processing =
  "(((process_error + ('r, payload) response) \<times> report option) \<times> ('q, 'r, 'b) pstate) option"

definition match_error :: "go_error \<Rightarrow> process_error" where
  "match_error err =
     (if go_Is err ContextCanceled \<or> go_Is err ContextDeadlineExceeded then PlainError err
      else if go_Is err ErrNoMatch then AppError ErrScenarioNotFound
      else internal_error ''failed to match scenario'' (Some err))"

definition waiting :: "('re, 'net, 'ip, 'r) surroundings \<Rightarrow> int \<Rightarrow> go_error option" where
  "waiting en delay = (if 0 < delay then en_wait en delay else None)"

definition respond ::
  "('re, 'net, 'ip, 'r) surroundings \<Rightarrow> MockProcessor \<Rightarrow> string \<Rightarrow> ResponseTemplate \<Rightarrow> DelayConfig option \<Rightarrow>
   ('q, 'r, 'b) pstate \<Rightarrow> ('q, 'r, 'b) processing" where
  "respond en mp name t selectedDelay st =
     (let report = (\<lambda>outcome. Some \<lparr>re_Scenario = name, re_Response = scenarioResponseLabel t, re_Outcome = outcome\<rparr>) in
      case materializeSelectedPreviewBody (en_io en) t (mp_maxStreamBodySize mp) (fst st) of
        None \<Rightarrow> None
      | Some (Inl e, s1) \<Rightarrow> Some ((Inl (PlainError e), report OutcomeError), s1, snd st)
      | Some (Inr u, s1) \<Rightarrow>
          (case waiting en (selected_delay (en_Int63n en) selectedDelay t) of
             Some e \<Rightarrow> Some ((Inl (PlainError e), report OutcomeError), s1, snd st)
           | None \<Rightarrow>
               if rp_Error t \<noteq> [] then Some ((Inl (internal_error (rp_Error t) None), report OutcomeError), s1, snd st)
               else
                 (case buildResponse en mp t (s1, snd st) of
                    None \<Rightarrow> None
                  | Some (Inl e, st') \<Rightarrow> Some ((Inl e, report OutcomeError), st')
                  | Some (Inr resp, st') \<Rightarrow> Some ((Inr resp, report (effectiveResponseOutcome t resp)), st'))))"

definition answer_with ::
  "('re, 'net, 'ip, 'r) surroundings \<Rightarrow> MockProcessor \<Rightarrow> string \<Rightarrow> ResponseTemplate \<Rightarrow> WeightedResponse list \<Rightarrow>
   ('q, 'r, 'b) pstate \<Rightarrow> ('q, 'r, 'b) processing" where
  "answer_with en mp name base weighted st =
     (case choose_variant (en_Intn en) base weighted of
        None \<Rightarrow> None
      | Some (chosen, selectedDelay) \<Rightarrow>
          respond en mp name (substituted (Captures (fst (fst st))) chosen) selectedDelay st)"

definition process_matched ::
  "('re, 'net, 'ip, 'r) surroundings \<Rightarrow> MockProcessor \<Rightarrow> ('re, 'net) Scenario \<Rightarrow> ('q, 'r, 'b) pstate \<Rightarrow>
   ('q, 'r, 'b) processing" where
  "process_matched en mp s st =
     (case response_source s (fst (fst st)) of
        Lost \<Rightarrow>
          Some ((Inl (AppError ErrScenarioNotFound),
                 Some \<lparr>re_Scenario = s_Name s, re_Response = [], re_Outcome = OutcomeError\<rparr>), st)
      | BadIndex \<Rightarrow> None
      | Source base weighted \<Rightarrow> answer_with en mp (s_Name s) base weighted st)"

definition Process ::
  "('re, 'net, 'ip, 'r) surroundings \<Rightarrow> MockProcessor \<Rightarrow>
   (('q, 'r, 'b) request \<Rightarrow> ((go_error + ('re, 'net) Scenario) \<times> ('q, 'r, 'b) request) option) \<Rightarrow>
   ('q, 'r, 'b) pstate \<Rightarrow> ('q, 'r, 'b) processing" where
  "Process en mp registryMatch st =
     (case st of ((req, fs), rnd) \<Rightarrow>
        (case en_ctxErr en of
           Some e \<Rightarrow> Some ((Inl (PlainError e), None), st)
         | None \<Rightarrow>
             (case registryMatch req of
                None \<Rightarrow> None
              | Some (Inl e, req1) \<Rightarrow> Some ((Inl (match_error e), None), ((req1, fs), rnd))
              | Some (Inr s, req1) \<Rightarrow> process_matched en mp s ((req1, fs), rnd))))"

section \<open>Echo and chains\<close>

text \<open>A processor changes a state and returns a response, which may be \<open>nil\<close>, or an error.\<close>

type_synonym ('s, 'resp) processor = "'s \<Rightarrow> ((process_error + 'resp option) \<times> 's) option"

definition Echo_Process :: "('s, ('r, 'p) response) processor" where
  "Echo_Process st =
     Some (Inr (Some \<lparr>rs_BodyReader = None, rs_Header = Some NewHeader, rs_HTTPRequest = None, rs_HTTPResponse = None,
       rs_Proto = Version, rs_Body = None, rs_StatusCode = 204, rs_closeAfterWrite = False\<rparr>), st)"

definition Mock_Process ::
  "('re, 'net, 'ip, 'r) surroundings \<Rightarrow> MockProcessor \<Rightarrow>
   (('q, 'r, 'b) request \<Rightarrow> ((go_error + ('re, 'net) Scenario) \<times> ('q, 'r, 'b) request) option) \<Rightarrow>
   (('q, 'r, 'b) pstate, ('r, payload) response) processor" where
  "Mock_Process en mp registryMatch st =
     map_option (\<lambda>((res, report), st'). (map_sum id Some res, st')) (Process en mp registryMatch st)"

text \<open>\<open>errors.Is\<close> with an error of \<^verbatim>\<open>internal/errors\<close> compares codes.\<close>

definition is_not_found :: "process_error \<Rightarrow> bool" where
  "is_not_found e \<longleftrightarrow> (case e of PlainError _ \<Rightarrow> False | AppError a \<Rightarrow> er_Code a = er_Code ErrScenarioNotFound)"

fun chain_Process :: "('s, ('r, 'p) response) processor list \<Rightarrow> ('s, ('r, 'p) response) processor" where
  "chain_Process [] st = Some (Inr (Some (NewResponse 204)), st)"
| "chain_Process (p # ps) st =
     (case p st of
        None \<Rightarrow> None
      | Some (Inl e, st1) \<Rightarrow> if is_not_found e then chain_Process ps st1 else Some (Inl e, st1)
      | Some (Inr (Some resp), st1) \<Rightarrow> Some (Inr (Some resp), st1)
      | Some (Inr None, st1) \<Rightarrow> chain_Process ps st1)"


section \<open>The scenario that answers\<close>

text \<open>The template and the variants that a scenario has for a request, and its answer with them.\<close>

definition best_template :: "('re, 'net, 'ip) golib \<Rightarrow> ('re, 'net) Scenario \<Rightarrow> ('q, 'r, 'b) request \<Rightarrow> ResponseTemplate" where
  "best_template lib s req =
     (if s_Branches s = [] then s_Response s
      else b_Response (the (find (\<lambda>b. branchMatches lib b req) (s_Branches s))))"

definition best_variants :: "('re, 'net, 'ip) golib \<Rightarrow> ('re, 'net) Scenario \<Rightarrow> ('q, 'r, 'b) request \<Rightarrow> WeightedResponse list" where
  "best_variants lib s req =
     (case (if s_Branches s = [] then s_WeightedResponses s
            else b_WeightedResponses (the (find (\<lambda>b. branchMatches lib b req) (s_Branches s)))) of
        None \<Rightarrow> [] | Some ws \<Rightarrow> ws)"

lemma select_from_find:
  "0 \<le> i \<Longrightarrow> (case find (\<lambda>b. branchMatches lib b req) bs of
     None \<Rightarrow> select_from lib i bs req = -1
   | Some b \<Rightarrow> i \<le> select_from lib i bs req \<and> nat (select_from lib i bs req - i) < length bs \<and>
       bs ! nat (select_from lib i bs req - i) = b)"
proof (induction bs arbitrary: i)
  case (Cons b bs)
  show ?case
  proof (cases "branchMatches lib b req")
    case False
    have n: "nat (k - i) = Suc (nat (k - (i + 1)))" if "i + 1 \<le> k" for k using that by arith
    show ?thesis using Cons.IH [of "i + 1"] Cons.prems False n by (auto split: option.splits)
  qed simp
qed simp

lemma applies_finishes: "verdict lib opt res s req = Inr True \<Longrightarrow> fst (finish_match lib s req)"
  by (auto simp: verdict_def split: if_splits sum.splits)

lemma finish_has_branch:
  assumes "fst (finish_match lib s req)" "s_Branches s \<noteq> []"
  shows "0 \<le> SelectBranch lib s req"
proof -
  have "SelectBranch lib s (ClearMatchedBranch req) = SelectBranch lib s req"
    unfolding SelectBranch_def by (rule view_select_from) simp
  then show ?thesis using assms by (auto simp: finish_match_def Let_def split: if_splits)
qed

text \<open>
  What the processor needs of a registry: a scenario is returned together with its own branch, which the conditions of the
  request select, and the rest of the request stays as it was.  \<open>readable\<close> are the requests that the registry promises this for.
\<close>

locale branch_matcher =
  fixes registryMatch :: "('q, 'r, 'b) request \<Rightarrow> ((go_error + ('re, 'net) Scenario) \<times> ('q, 'r, 'b) request) option"
    and lib :: "('re, 'net, 'ip) golib"
    and readable :: "('q, 'r, 'b) request \<Rightarrow> bool"
  assumes own_branch: "readable req \<Longrightarrow> registryMatch req = Some (Inr s, req') \<Longrightarrow>
      MatchedBranch req' = chosen_branch lib s req \<and> fst (finish_match lib s req)"
    and view_kept: "readable req \<Longrightarrow> registryMatch req = Some (result, req') \<Longrightarrow> request_view req' = request_view req"
begin

lemma source_found:
  assumes "readable req" "registryMatch req = Some (Inr s, req')"
  shows "response_source s req' = Source (best_template lib s req) (best_variants lib s req)"
proof (cases "s_Branches s = []")
  case True
  then show ?thesis by (simp add: response_source_def best_template_def best_variants_def)
next
  case False
  have m: "MatchedBranch req' = chosen_branch lib s req" "fst (finish_match lib s req)" using own_branch [OF assms] by blast+
  have pos: "0 \<le> SelectBranch lib s req" by (rule finish_has_branch [OF m(2) False])
  then obtain b where "find (\<lambda>b. branchMatches lib b req) (s_Branches s) = Some b"
    "nat (SelectBranch lib s req) < length (s_Branches s)" "s_Branches s ! nat (SelectBranch lib s req) = b"
    using select_from_find [of 0 lib "s_Branches s" req] by (auto simp: SelectBranch_def split: option.splits)
  then show ?thesis
    using False pos m(1) by (simp add: response_source_def best_template_def best_variants_def chosen_branch_def Let_def)
qed

lemma process_found:
  assumes "readable req" "registryMatch req = Some (Inr s, req')" "en_ctxErr en = None"
  shows "Process en mp registryMatch ((req, fs), rnd) =
    answer_with en mp (s_Name s) (best_template lib s req) (best_variants lib s req) ((req', fs), rnd)"
  using assms source_found [OF assms(1,2)] by (simp add: Process_def process_matched_def)

end

interpretation plain: branch_matcher "match_request lib io ctx r" lib
  "\<lambda>req. (\<forall>i k. ctx i k = None) \<and> (\<exists>res. body_reads io (rg_bodyPattern r) req res)" for lib io ctx r
proof
  fix req s req'
  assume c: "(\<forall>i k. ctx i k = None) \<and> (\<exists>res. body_reads io (rg_bodyPattern r) req res)"
    and m: "match_request lib io ctx r req = Some (Inr s, req')"
  then obtain res where b: "body_reads io (rg_bodyPattern r) req res" by blast
  note V = match_first_verdict [where lib = lib and ctx = ctx and n = 0 and ss = "rg_scenarios r", OF _ b]
  have f: "first_verdict lib (rg_bodyPattern r) res req 0 (rg_scenarios r) = Inr s" "MatchedBranch req' = chosen_branch lib s req"
    using V m c by (auto simp: match_request_def)
  then have "verdict lib (rg_bodyPattern r) res s req = Inr True"
    using first_verdict_cases [where lib = lib and opt = "rg_bodyPattern r" and res = res and req = req and n = 0 and ss = "rg_scenarios r"]
    by auto
  then show "MatchedBranch req' = chosen_branch lib s req \<and> fst (finish_match lib s req)" using f applies_finishes by blast
next
  fix req result req'
  assume c: "(\<forall>i k. ctx i k = None) \<and> (\<exists>res. body_reads io (rg_bodyPattern r) req res)"
    and m: "match_request lib io ctx r req = Some (result, req')"
  then obtain res where b: "body_reads io (rg_bodyPattern r) req res" by blast
  show "request_view req' = request_view req"
    using match_first_verdict [where lib = lib and ctx = ctx and n = 0 and ss = "rg_scenarios r", OF _ b] m c
    by (auto simp: match_request_def)
qed

text \<open>
  C1: \<^bold>\<open>The processor answers with the best scenario.\<close>  In every registry that a sequence of operations leads to, with no
  cancellation: either the processor answers with the scenario of the highest rank that applies to the request, namely with its own
  response or, where it has branches, with that of the first branch whose conditions hold (the guards for a lost
  branch and a wrong index are never taken); or a scenario that no applying scenario precedes has failed, and
  that error is reported; or no scenario applies, and the answer is the internal error 1005 with status 500, not \<open>ErrScenarioNotFound\<close>.
  What matchers look at in the request stays as it was.
\<close>

theorem process_answers_best:
  assumes "\<forall>opn \<in> set ops. op_fresh L opn" "1 \<le> L" "int L + int (length ops) \<le> MaxInt64"
    and "r = run_ops lib stat errText ops (NewScenarioRegistryWithBodyPatternOptions opts addr)"
    and "\<forall>i k. ctx i k = None" "body_reads io (rg_bodyPattern r) req res" "en_ctxErr en = None"
  shows "\<exists>req'. request_view req' = request_view req \<and>
    ((\<exists>s \<in> set (List r). verdict lib (rg_bodyPattern r) res s req = Inr True \<and>
        (\<forall>t \<in> set (List r). verdict lib (rg_bodyPattern r) res t req = Inr True \<longrightarrow> t = s \<or> scenarioOutranks (Some s) (Some t)) \<and>
        Process en mp (match_request lib io ctx r) ((req, fs), rnd) =
          answer_with en mp (s_Name s) (best_template lib s req) (best_variants lib s req) ((req', fs), rnd)) \<or>
     (\<exists>s \<in> set (List r). \<exists>e. verdict lib (rg_bodyPattern r) res s req = Inl e \<and>
        (\<forall>t \<in> set (List r). verdict lib (rg_bodyPattern r) res t req = Inr True \<longrightarrow> scenarioOutranks (Some s) (Some t)) \<and>
        Process en mp (match_request lib io ctx r) ((req, fs), rnd) = Some ((Inl (match_error e), None), ((req', fs), rnd))) \<or>
     (\<forall>t \<in> set (List r). verdict lib (rg_bodyPattern r) res t req = Inr False) \<and>
        Process en mp (match_request lib io ctx r) ((req, fs), rnd) =
          Some ((Inl (internal_error ''failed to match scenario'' (Some (no_scenario_matched (length (List r))))), None),
            ((req', fs), rnd)))"
proof -
  obtain result req' where m: "match_request lib io ctx r req = Some (result, req')" "request_view req' = request_view req"
    and c: "case result of
       Inr s \<Rightarrow> s \<in> set (List r) \<and> verdict lib (rg_bodyPattern r) res s req = Inr True \<and>
         MatchedBranch req' = chosen_branch lib s req \<and>
         (\<forall>t \<in> set (List r). verdict lib (rg_bodyPattern r) res t req = Inr True \<longrightarrow> t = s \<or> scenarioOutranks (Some s) (Some t))
     | Inl e \<Rightarrow>
         (\<exists>t \<in> set (List r). verdict lib (rg_bodyPattern r) res t req = Inl e \<and>
            (\<forall>u \<in> set (List r). verdict lib (rg_bodyPattern r) res u req = Inr True \<longrightarrow> scenarioOutranks (Some t) (Some u))) \<or>
         e = no_scenario_matched (length (List r)) \<and> (\<forall>t \<in> set (List r). verdict lib (rg_bodyPattern r) res t req = Inr False)"
    using match_best [OF assms(1-6)] by blast
  show ?thesis
  proof (cases result)
    case (Inr s)
    have "Process en mp (match_request lib io ctx r) ((req, fs), rnd) =
        answer_with en mp (s_Name s) (best_template lib s req) (best_variants lib s req) ((req', fs), rnd)"
      by (rule plain.process_found [OF _ m(1) [unfolded Inr] assms(7)]) (use assms(5,6) in blast)
    then show ?thesis using m(2) c Inr by (intro exI [of _ req'] conjI disjI1) auto
  next
    case (Inl e)
    have P: "Process en mp (match_request lib io ctx r) ((req, fs), rnd) = Some ((Inl (match_error e), None), ((req', fs), rnd))"
      using m Inl assms(7) by (simp add: Process_def)
    have "match_error (no_scenario_matched n) = internal_error ''failed to match scenario'' (Some (no_scenario_matched n))" for n
      by (simp add: match_error_def no_scenario_matched_def)
    then show ?thesis using m(2) c Inl P by (intro exI [of _ req'] conjI) auto
  qed
qed


section \<open>The response that is built\<close>

lemma Header_Clone_id: "Header_Clone h = h"
  by (cases h) (auto simp: Header_Clone_def intro: map_idI)

lemma load_message_body: "load_message io limit m = Some ((body, None), m') \<Longrightarrow> bytes_of body = body_bytes m'"
  by (auto simp: load_message_def GetBody_def GetBodyLimited_def lazyLoadBodyLimitedWithCapacity_def bytes_of_def body_bytes_def
      split: if_splits option.splits)

text \<open>What a copy takes over.\<close>

definition same_start :: "('r, 'b) http_message \<Rightarrow> ('r, 'p) stream_message \<Rightarrow> bool" where
  "same_start m c \<longleftrightarrow> m_Method c = m_Method m \<and> m_URI c = m_URI m \<and> m_Proto c = m_Proto m"

lemma clone_message:
  assumes "cloneHTTPMessageForResponse io limit m stream = Some (Inr c, m')"
  shows "same_start m c" "m_Header c = m_Header m" "BodyStream c = None" "BodyReader c = None"
    "m_Status c = m_Status m" "m_StatusText c = m_StatusText m"
    "body_bytes c = (if stream then [] else body_bytes m')" "stream \<Longrightarrow> m' = m"
proof -
  have "same_start m c \<and> m_Header c = m_Header m \<and> BodyStream c = None \<and> BodyReader c = None \<and> m_Status c = m_Status m \<and>
    m_StatusText c = m_StatusText m \<and> body_bytes c = (if stream then [] else body_bytes m') \<and> (stream \<longrightarrow> m' = m)"
  proof (cases stream)
    case True
    then show ?thesis using assms
      by (auto simp: cloneHTTPMessageForResponse_def cloneHTTPMessageMetadata_def same_start_def Header_Clone_id body_bytes_def split: option.splits)
  next
    case False
    then obtain body where l: "load_message io limit m = Some ((body, None), m')"
      and c: "c = (if bytes_of body = [] then cloneHTTPMessageMetadata m else SetLoadedBody body (cloneHTTPMessageMetadata m))"
      using assms by (auto simp: cloneHTTPMessageForResponse_def Let_def split: option.splits)
    have "body_bytes c = bytes_of body"
      by (simp add: c cloneHTTPMessageMetadata_def SetLoadedBody_def body_bytes_def bytes_of_def split: option.splits)
    then show ?thesis using load_message_body [OF l] False
      by (auto simp: c cloneHTTPMessageMetadata_def same_start_def Header_Clone_id SetLoadedBody_def split: option.splits)
  qed
  then show "same_start m c" "m_Header c = m_Header m" "BodyStream c = None" "BodyReader c = None"
    "m_Status c = m_Status m" "m_StatusText c = m_StatusText m"
    "body_bytes c = (if stream then [] else body_bytes m')" "stream \<Longrightarrow> m' = m" by blast+
qed

text \<open>The names a template sets, and the value of \<open>Content-Length\<close> that goes with a body of its own.\<close>

definition names_set :: "ResponseTemplate \<Rightarrow> string set" where
  "names_set t = (\<lambda>(k, _). CanonicalHeaderKey k) ` set (rp_HTTPHeaders t)"

definition recomputes_length :: "ResponseTemplate \<Rightarrow> bool" where
  "recomputes_length t \<longleftrightarrow> map_of (rp_HTTPHeaders t) ''Content-Length'' \<in> {None, Some ''auto''}"

definition header_values :: "('r, 'b) http_message \<Rightarrow> string \<Rightarrow> string list" where
  "header_values m k = (case m_Header m of None \<Rightarrow> [] | Some h \<Rightarrow> Header_Values h k)"

lemma Values_set_headers:
  "CanonicalHeaderKey k \<notin> (\<lambda>(k, _). CanonicalHeaderKey k) ` set kvs \<Longrightarrow> Header_Values (set_headers kvs h) k = Header_Values h k"
  by (induction kvs arbitrary: h) (auto simp: set_headers_def Header_Values_def Header_Set_def update_conv)

lemma Values_set_length:
  "CanonicalHeaderKey k \<noteq> CanonicalHeaderKey ''Content-Length'' \<Longrightarrow>
     Header_Values (setBodyContentLength h kvs n) k = Header_Values h k"
  by (auto simp: setBodyContentLength_def Header_Values_def Header_Set_def update_conv split: option.splits)

lemma Get_set_length:
  "map_of kvs ''Content-Length'' \<in> {None, Some ''auto''} \<Longrightarrow>
     Header_Get (setBodyContentLength h kvs n) ''Content-Length'' = Some (go_Itoa (int n))"
  by (auto simp: setBodyContentLength_def)

lemma apply_http_message:
  assumes "apply_http t httpBody m = Some m'"
  shows "m_Method m' = m_Method m" "m_URI m' = m_URI m" "m_Proto m' = m_Proto m" "m_Status m' = m_Status m"
    "m_StatusText m' = m_StatusText m" "BodyStream m' = BodyStream m" "BodyReader m' = BodyReader m"
    "body_bytes m' = (if httpBody = [] then body_bytes m else httpBody)"
    "httpBody \<noteq> [] \<Longrightarrow> recomputes_length t \<Longrightarrow>
       \<exists>h. m_Header m' = Some h \<and> Header_Get h ''Content-Length'' = Some (go_Itoa (int (length httpBody)))"
    "CanonicalHeaderKey k \<notin> names_set t \<Longrightarrow> httpBody = [] \<or> CanonicalHeaderKey k \<noteq> CanonicalHeaderKey ''Content-Length'' \<Longrightarrow>
       header_values m' k = header_values m k"
  using assms
  by (auto simp: apply_http_def Let_def body_bytes_def recomputes_length_def names_set_def header_values_def Values_set_headers
      Values_set_length Get_set_length split: option.splits if_splits)

lemma set_status_simps [simp]:
  "same_start m (set_status f n c) = same_start m c" "body_bytes (set_status f n c) = body_bytes c"
  "BodyStream (set_status f n c) = BodyStream c" "BodyReader (set_status f n c) = BodyReader c"
  "header_values (set_status f n c) k = header_values c k"
  by (auto simp: set_status_def same_start_def body_bytes_def header_values_def)

text \<open>
  What the message \<open>c\<close> of a response has in common with the message \<open>m\<close> it was copied from: the start line without the status, every header
  that the template does not set, and the body, unless the template has one of its own.  \<open>synth\<close> stands for a message that is not a copy.
\<close>

definition adapted_from ::
  "bool \<Rightarrow> ResponseTemplate \<Rightarrow> string \<Rightarrow> ('r, 'b) http_message \<Rightarrow> ('r, 'b) http_message \<Rightarrow> ('r, 'p) stream_message \<Rightarrow> bool" where
  "adapted_from synth t httpBody m m' c \<longleftrightarrow>
     BodyStream c = None \<and> BodyReader c = None \<and>
     (httpBody \<noteq> [] \<longrightarrow> body_bytes c = httpBody) \<and>
     (httpBody \<noteq> [] \<and> recomputes_length t \<longrightarrow>
        header_values c ''Content-Length'' = [go_Itoa (int (length httpBody))]) \<and>
     (if synth then m' = m \<and> (httpBody = [] \<longrightarrow> body_bytes c = []) \<and> m_Proto c = ''HTTP/1.1''
      else same_start m c \<and> (httpBody \<noteq> [] \<longrightarrow> m' = m) \<and> (httpBody = [] \<longrightarrow> body_bytes c = body_bytes m') \<and>
        (\<forall>k. CanonicalHeaderKey k \<notin> names_set t \<and> (httpBody = [] \<or> CanonicalHeaderKey k \<noteq> CanonicalHeaderKey ''Content-Length'') \<longrightarrow>
             header_values c k = header_values m k))"

lemma values_length:
  "httpBody \<noteq> [] \<Longrightarrow> recomputes_length t \<Longrightarrow> apply_http t httpBody m = Some m' \<Longrightarrow>
     header_values m' ''Content-Length'' = [go_Itoa (int (length httpBody))]"
  by (auto simp: apply_http_def header_values_def recomputes_length_def setBodyContentLength_def Header_Values_def Header_Set_def
      update_conv Let_def split: option.splits if_splits)

lemma synthesized_adapted:
  "apply_http t httpBody (synthesized f n) = Some c \<Longrightarrow> adapted_from True t httpBody m m c \<and> m_Status c = go_Itoa n"
  using apply_http_message [of t httpBody "synthesized f n" c] values_length [of httpBody t "synthesized f n" c]
  by (auto simp: adapted_from_def synthesized_def body_bytes_def)

lemma cloned_adapted:
  assumes "cloned_side en limit t httpBody side m req = Some (Inr c, req')" "rp_Stream t = None" "side_message side req = Some m"
  shows "\<exists>m'. req' = set_side_message side m' req \<and> adapted_from False t httpBody m m' c \<and>
    (side = ResponseSide \<and> 0 < rp_HTTPStatus t \<longrightarrow> m_Status c = go_Itoa (rp_HTTPStatus t))"
proof -
  obtain c0 m' c1 where cl: "cloneHTTPMessageForResponse (en_io en) limit m (shouldSkipOriginalBody t httpBody) = Some (Inr c0, m')"
    and c1: "c1 = (if side = ResponseSide then set_status (en_StatusText en) (rp_HTTPStatus t) c0 else c0)"
    and ap: "apply_http t httpBody c1 = Some c" and req': "req' = set_side_message side m' req"
    using assms(1) unfolding cloned_side_def by (auto split: option.splits sum.splits)
  have "header_values c0 k = header_values m k" for k using clone_message(2) [OF cl] by (simp add: header_values_def)
  then have "header_values c1 k = header_values m k" for k by (simp add: c1)
  moreover have "same_start m c1" "BodyStream c1 = None" "BodyReader c1 = None" "body_bytes c1 = body_bytes c0"
    using clone_message(1,3,4) [OF cl] by (simp_all add: c1)
  moreover have "side = ResponseSide \<and> 0 < rp_HTTPStatus t \<longrightarrow> m_Status c1 = go_Itoa (rp_HTTPStatus t)"
    by (simp add: c1 set_status_def)
  moreover have "shouldSkipOriginalBody t httpBody \<longleftrightarrow> httpBody \<noteq> []" using assms(2) by (simp add: shouldSkipOriginalBody_def)
  ultimately show ?thesis
    using clone_message(7,8) [OF cl] apply_http_message [OF ap] values_length [OF _ _ ap]
    by (intro exI [of _ m']) (simp add: req' adapted_from_def same_start_def)
qed


lemma envelope_fold:
  "rs_StatusCode (fold (\<lambda>(k, v). Response_SetHeader k v) kvs r) = rs_StatusCode r"
  "rs_HTTPRequest (fold (\<lambda>(k, v). Response_SetHeader k v) kvs r) = rs_HTTPRequest r"
  "rs_HTTPResponse (fold (\<lambda>(k, v). Response_SetHeader k v) kvs r) = rs_HTTPResponse r"
  "rs_Body (fold (\<lambda>(k, v). Response_SetHeader k v) kvs r) = rs_Body r"
  "rs_closeAfterWrite (fold (\<lambda>(k, v). Response_SetHeader k v) kvs r) = rs_closeAfterWrite r"
  by (induction kvs arbitrary: r) (auto simp: Response_SetHeader_def)

lemma envelope_simps [simp]:
  "rs_StatusCode (envelope t) = rp_ICAPStatus t" "rs_HTTPRequest (envelope t) = None" "rs_HTTPResponse (envelope t) = None"
  "rs_Body (envelope t) = None" "\<not> rs_closeAfterWrite (envelope t)"
  by (simp_all add: envelope_def envelope_fold NewResponse_def)

text \<open>Which message of the request the response adapts, and whether it is replaced by a synthesized response.\<close>

definition answered :: "ResponseTemplate \<Rightarrow> ('q, 'r, 'b) request \<Rightarrow> (http_side \<times> bool) option" where
  "answered t req =
     (if IsREQMOD req \<and> HTTPRequest req \<noteq> None then Some (RequestSide, 0 < rp_HTTPStatus t)
      else if IsRESPMOD req \<and> HTTPResponse req \<noteq> None then Some (ResponseSide, False)
      else None)"

definition carries :: "('r, 'p) response \<Rightarrow> http_side \<Rightarrow> ('r, 'p) stream_message \<Rightarrow> bool" where
  "carries resp side c \<longleftrightarrow>
     (case side of
        RequestSide \<Rightarrow> rs_HTTPRequest resp = Some c \<and> rs_HTTPResponse resp = None
      | ResponseSide \<Rightarrow> rs_HTTPResponse resp = Some c \<and> rs_HTTPRequest resp = None)"

lemma map_sum_Inr: "map_sum f g a = Inr y \<longleftrightarrow> (\<exists>x. a = Inr x \<and> y = g x)"
  by (cases a) auto

lemma envelope_header [simp]: "rs_Header (envelope t) = Some (set_headers (rp_Headers t) NewHeader)"
proof -
  have "rs_Header r = Some h \<Longrightarrow> rs_Header (fold (\<lambda>(k, v). Response_SetHeader k v) kvs r) = Some (set_headers kvs h)" for kvs h and r :: "('a, 'b) response"
    by (induction kvs arbitrary: r h) (auto simp: Response_SetHeader_def set_headers_def)
  then show ?thesis by (simp add: envelope_def NewResponse_def)
qed

lemma adapt_message_exact:
  assumes "adapt_message en limit t httpBody resp0 req = Some (Inr resp, req')" "rp_Stream t = None"
    and "rs_HTTPRequest resp0 = None" "rs_HTTPResponse resp0 = None"
  shows "case answered t req of
      None \<Rightarrow> resp = resp0 \<and> req' = req
    | Some (side, synth) \<Rightarrow>
        (\<exists>m m' c. side_message side req = Some m \<and> req' = (if synth then req else set_side_message side m' req) \<and>
           adapted_from synth t httpBody m m' c \<and> (0 < rp_HTTPStatus t \<longrightarrow> m_Status c = go_Itoa (rp_HTTPStatus t)) \<and>
           carries resp (if synth then ResponseSide else side) c \<and>
           resp = (if synth \<or> side = ResponseSide then resp0\<lparr>rs_HTTPResponse := Some c\<rparr> else resp0\<lparr>rs_HTTPRequest := Some c\<rparr>))"
proof (cases "answered t req")
  case None
  then show ?thesis using assms(1)
    by (auto simp: answered_def adapt_message_def IsREQMOD_def IsRESPMOD_def method_defs split: if_splits option.splits)
next
  case (Some a)
  then obtain side synth where a: "answered t req = Some (side, synth)" by (cases a) auto
  obtain m where m: "side_message side req = Some m" using a by (auto simp: answered_def split: if_splits)
  show ?thesis
  proof (cases synth)
    case True
    then obtain c where "apply_http t httpBody (synthesized (en_StatusText en) (rp_HTTPStatus t)) = Some c"
        "resp = resp0\<lparr>rs_HTTPResponse := Some c\<rparr>" "req' = req"
      using assms(1) a by (auto simp: answered_def adapt_message_def SetHTTPResponse_def split: if_splits)
    then show ?thesis using synthesized_adapted [of t httpBody _ _ c m] True a m assms(3) by (auto simp: carries_def)
  next
    case False
    then obtain c where c: "cloned_side en limit t httpBody side m req = Some (Inr c, req')"
        "resp = (if side = ResponseSide then resp0\<lparr>rs_HTTPResponse := Some c\<rparr> else resp0\<lparr>rs_HTTPRequest := Some c\<rparr>)"
        "side = RequestSide \<longrightarrow> \<not> 0 < rp_HTTPStatus t"
      using assms(1) a m
      by (auto simp: answered_def adapt_message_def SetHTTPResponse_def SetHTTPRequest_def IsREQMOD_def IsRESPMOD_def method_defs
          map_sum_Inr split: if_splits)
    show ?thesis using cloned_adapted [OF c(1) assms(2) m] c(2,3) False a m assms(3,4)
      by (cases side) (auto simp: carries_def)
  qed
qed

text \<open>
  C6: \<^bold>\<open>What a template answers.\<close>  A template without a stream that is answered with gives a response with its ICAP status and
  envelope headers.  For 204 this is everything.  Otherwise the ICAP body is the template's or the file's; a \<open>REQMOD\<close> request
  for a template with an HTTP status is answered by a synthesized HTTP response, and every other encapsulated message by a copy that
  differs from the message in the request at most in the status, in the headers the template sets and in the body: a body
  of the template (or its file) replaces the original one, with \<open>Content-Length\<close> recomputed unless the template sets exactly that name to something
  else than \<open>auto\<close>, and without such a body the copy carries the body that the request is left with.
  No file stays open and no random number is used.
\<close>

theorem build_response_exact:
  fixes resp :: "('r, payload) response"
  assumes "buildResponse en mp t ((req, fs), rnd) = Some (Inr resp, ((req', fs'), rnd'))" "rp_Stream t = None"
  shows "rs_StatusCode resp = rp_ICAPStatus t \<and> rs_Header resp = Some (set_headers (rp_Headers t) NewHeader) \<and>
    \<not> rs_closeAfterWrite resp \<and> fs' = fs \<and> rnd' = rnd \<and>
    (if rp_ICAPStatus t = 204 then resp = envelope t \<and> rs_HTTPRequest resp = None \<and> rs_HTTPResponse resp = None \<and> req' = req
     else template_GetBody (en_ReadFile en) t = Inr (rs_bytes resp) \<and>
       (\<exists>httpBody. loadHTTPBody (en_ReadFile en) t = Inr httpBody \<and>
          (case answered t req of
             None \<Rightarrow> rs_HTTPRequest resp = None \<and> rs_HTTPResponse resp = None \<and> req' = req
           | Some (side, synth) \<Rightarrow>
               (\<exists>m m' c. side_message side req = Some m \<and> req' = (if synth then req else set_side_message side m' req) \<and>
                  adapted_from synth t httpBody m m' c \<and> (0 < rp_HTTPStatus t \<longrightarrow> m_Status c = go_Itoa (rp_HTTPStatus t)) \<and>
                  carries resp (if synth then ResponseSide else side) c))))"
proof (cases "rp_ICAPStatus t = 204")
    case True
    then show ?thesis using assms(1) by (auto simp: buildResponse_def)
  next
    case False
    then obtain body httpBody where b: "template_GetBody (en_ReadFile en) t = Inr body" "loadHTTPBody (en_ReadFile en) t = Inr httpBody"
      using assms(1) by (auto simp: buildResponse_def split: sum.splits)
    define resp0 where "resp0 = (if body \<noteq> [] then (envelope t)\<lparr>rs_Body := Some body\<rparr> else envelope t :: ('r, payload) response)"
    have a: "adapt_message en (mp_maxStreamBodySize mp) t httpBody resp0 req = Some (Inr resp, req')" "fs' = fs" "rnd' = rnd"
      using assms False b unfolding resp0_def by (auto simp: buildResponse_def attachStream_def split: option.splits sum.splits)
    have r0: "rs_HTTPRequest resp0 = None" "rs_HTTPResponse resp0 = None" "rs_StatusCode resp0 = rp_ICAPStatus t"
      "rs_bytes resp0 = body" "\<not> rs_closeAfterWrite resp0" "rs_Header resp0 = Some (set_headers (rp_Headers t) NewHeader)"
      by (simp_all add: resp0_def rs_bytes_def)
    show ?thesis using adapt_message_exact [OF a(1) assms(2) r0(1,2)] a(2,3) r0 False b
      by (auto simp: rs_bytes_def split: option.splits prod.splits if_splits)
qed


section \<open>Files\<close>

definition files_kept :: "files \<Rightarrow> process_error + ('r, payload) response \<Rightarrow> files \<Rightarrow> bool" where
  "files_kept fs res fs' \<longleftrightarrow>
     files_ok fs' \<and>
     (case res of Inl e \<Rightarrow> open_handles fs' = open_handles fs
      | Inr resp \<Rightarrow> open_handles fs' = open_handles fs @ response_handles resp)"

lemma adapted_handles:
  assumes "adapt_message en limit t httpBody resp0 req = Some (Inr resp, req')" "rp_Stream t = None"
    and "rs_HTTPRequest resp0 = None" "rs_HTTPResponse resp0 = None"
  shows "response_handles resp = []"
proof (cases "answered t req")
  case None
  then show ?thesis using adapt_message_exact [OF assms] assms(3,4) by (simp add: response_handles_def target_message_def)
next
  case (Some a)
  then obtain c side where "carries resp side c" "BodyStream c = None"
    using adapt_message_exact [OF assms] unfolding adapted_from_def by (cases a) (simp, blast)
  then show ?thesis by (cases side) (auto simp: response_handles_def target_message_def carries_def)
qed

lemma build_files:
  fixes res :: "process_error + ('r, payload) response"
  assumes "buildResponse en mp t ((req, fs), rnd) = Some (res, ((req', fs'), rnd'))" "files_ok fs"
  shows "files_kept fs res fs'"
proof (cases "rp_ICAPStatus t = 204 \<or> (\<exists>e. template_GetBody (en_ReadFile en) t = Inl e) \<or> (\<exists>e. loadHTTPBody (en_ReadFile en) t = Inl e)")
  case True
  then show ?thesis using assms
    by (auto simp: buildResponse_def files_kept_def response_handles_def target_message_def split: sum.splits if_splits)
next
  case False
  then obtain body httpBody where b: "template_GetBody (en_ReadFile en) t = Inr body" "loadHTTPBody (en_ReadFile en) t = Inr httpBody"
    by (meson old.sum.exhaust)
  define resp0 where "resp0 = (if body \<noteq> [] then (envelope t)\<lparr>rs_Body := Some body\<rparr> else envelope t :: ('r, payload) response)"
  have r0: "rs_HTTPRequest resp0 = None" "rs_HTTPResponse resp0 = None" by (simp_all add: resp0_def)
  obtain a req1 where a: "adapt_message en (mp_maxStreamBodySize mp) t httpBody resp0 req = Some (a, req1)"
    using assms(1) False b unfolding resp0_def by (auto simp: buildResponse_def split: option.splits)
  show ?thesis
  proof (cases a)
    case (Inl e)
    then show ?thesis using a assms False b unfolding resp0_def by (auto simp: buildResponse_def files_kept_def)
  next
    case (Inr resp1)
    then have at: "attachStream (en_platform en) (en_io en) (mp_streamSelector mp) (mp_maxStreamBodySize mp) (rp_Stream t) resp1 ((req1, fs), rnd) =
        Some (res, (req', fs'), rnd')"
      using a assms(1) False b unfolding resp0_def by (auto simp: buildResponse_def)
    show ?thesis
    proof (cases "rp_Stream t")
      case None
      then have "res = Inr resp1" "fs' = fs" using at by (auto simp: attachStream_def)
      moreover have "response_handles resp1 = []"
        by (rule adapted_handles [OF a [unfolded Inr] None r0])
      ultimately show ?thesis using assms(2) by (simp add: files_kept_def)
    next
      case (Some cfg)
      then show ?thesis using attach_stream_cases [OF at [unfolded Some] assms(2)]
        by (auto simp: files_kept_def response_handles_def split: sum.splits)
    qed
  qed
qed


lemma materialize_files:
  "materializeSelectedPreviewBody io t limit (req, fs) = Some (r, (req', fs')) \<Longrightarrow> fs' = fs"
  by (auto simp: materializeSelectedPreviewBody_def split: if_splits sum.splits option.splits)

lemma respond_files:
  assumes "respond en mp name t d ((req, fs), rnd) = Some ((res, report), ((req', fs'), rnd'))" "files_ok fs"
  shows "files_kept fs res fs'"
proof -
  obtain r req1 fs1 where m: "materializeSelectedPreviewBody (en_io en) t (mp_maxStreamBodySize mp) (req, fs) = Some (r, (req1, fs1))"
    using assms(1) by (cases "materializeSelectedPreviewBody (en_io en) t (mp_maxStreamBodySize mp) (req, fs)") (auto simp: respond_def)
  note fs1 = materialize_files [OF m]
  show ?thesis
  proof (cases "isl r \<or> waiting en (selected_delay (en_Int63n en) d t) \<noteq> None \<or> rp_Error t \<noteq> []")
    case True
    then show ?thesis using assms m fs1
      by (auto simp: respond_def Let_def files_kept_def isl_def split: sum.splits option.splits if_splits)
  next
    case False
    then obtain res' st' where b: "buildResponse en mp t ((req1, fs1), rnd) = Some (res', st')"
      and r: "map_option (\<lambda>((res, report), st). (res, st)) (respond en mp name t d ((req, fs), rnd)) = Some (res', st')"
      using assms m by (cases r) (auto simp: respond_def Let_def split: option.splits sum.splits)
    then show ?thesis using build_files [of en mp t req1 fs1 rnd res' "fst (fst st')" "snd (fst st')" "snd st'"] assms fs1 by auto
  qed
qed

text \<open>
  C7: \<^bold>\<open>No request leaks a file.\<close>  Whatever registry, scenario, variant, stream configuration and substitution a
  request meets, and wherever its processing fails: after an error exactly the files that were open before
  are open, and after success the files open in addition are those that the clean-up of the response's payload closes.
\<close>

theorem process_leaks_no_file:
  assumes "Process en mp registryMatch ((req, fs), rnd) = Some ((res, report), ((req', fs'), rnd'))" "files_ok fs"
  shows "files_ok fs' \<and>
    (case res of Inl e \<Rightarrow> open_handles fs' = open_handles fs
     | Inr resp \<Rightarrow> open_handles fs' = open_handles fs @ response_handles resp)"
proof -
  have "files_kept fs res fs'"
  proof (cases "\<exists>s req1 name t d. respond en mp name t d ((req1, fs), rnd) = Some ((res, report), ((req', fs'), rnd'))")
    case True
    then show ?thesis using respond_files assms(2) by blast
  next
    case False
    then show ?thesis using assms
      by (auto simp: Process_def process_matched_def answer_with_def files_kept_def
          split: option.splits sum.splits source_choice.splits)
  qed
  then show ?thesis by (simp add: files_kept_def)
qed

section \<open>Chains\<close>

definition gives_up :: "(process_error + 'resp option) \<Rightarrow> bool" where
  "gives_up r \<longleftrightarrow> (case r of Inl e \<Rightarrow> is_not_found e | Inr resp \<Rightarrow> resp = None)"

text \<open>The states before the processors of a chain as long as each of them gives up.\<close>

fun passed_on :: "('s, 'resp) processor list \<Rightarrow> 's \<Rightarrow> 's \<Rightarrow> bool" where
  "passed_on [] st st' \<longleftrightarrow> st' = st"
| "passed_on (p # ps) st st' \<longleftrightarrow> (\<exists>r st1. p st = Some (r, st1) \<and> gives_up r \<and> passed_on ps st1 st')"

lemma chain_gives_up:
  "p st = Some (r, st1) \<Longrightarrow> chain_Process (p # ps) st = (if gives_up r then chain_Process ps st1 else Some (r, st1))"
  by (auto simp: gives_up_def split: sum.splits option.splits)

lemma first_in_Cons:
  "(\<exists>before q after s1. p # ps = before @ q # after \<and> passed_on before st s1 \<and> Q q s1) \<longleftrightarrow>
     Q p st \<or> (\<exists>r st1. p st = Some (r, st1) \<and> gives_up r \<and>
       (\<exists>before q after s1. ps = before @ q # after \<and> passed_on before st1 s1 \<and> Q q s1))"
  (is "?L \<longleftrightarrow> ?R")
proof
  assume ?L
  then obtain before q after s1 where s: "p # ps = before @ q # after" "passed_on before st s1" "Q q s1" by blast
  then show ?R
  proof (cases before)
    case (Cons b bs)
    then obtain r st1 where "p st = Some (r, st1)" "gives_up r" "passed_on bs st1 s1" "ps = bs @ q # after" using s by auto
    then show ?thesis using s(3) by blast
  qed (use s in simp)
next
  assume ?R
  then show ?L
  proof
    assume "Q p st"
    then have "p # ps = [] @ p # ps \<and> passed_on [] st st \<and> Q p st" by simp
    then show ?L by blast
  next
    assume "\<exists>r st1. p st = Some (r, st1) \<and> gives_up r \<and>
       (\<exists>before q after s1. ps = before @ q # after \<and> passed_on before st1 s1 \<and> Q q s1)"
    then obtain r st1 before q after s1 where "p st = Some (r, st1)" "gives_up r" "ps = before @ q # after" "passed_on before st1 s1" "Q q s1"
      by blast
    then have "p # ps = (p # before) @ q # after \<and> passed_on (p # before) st s1 \<and> Q q s1" by auto
    then show ?L by blast
  qed
qed

text \<open>
  C12: \<^bold>\<open>A chain answers with the first processor that does not give up.\<close>  A chain returns \<open>res\<close> exactly if some processor of it
  returns \<open>res\<close>, which is neither \<open>nil\<close> nor a scenario-not-found error, and all processors before it have given
  up in turn, or all have given up and \<open>res\<close> is a 204 response.  So the chain itself never reports that no scenario was found.
\<close>

theorem chain_first_answer:
  "chain_Process ps st = Some (res, st') \<longleftrightarrow>
     (\<exists>before p after st1. ps = before @ p # after \<and> passed_on before st st1 \<and> p st1 = Some (res, st') \<and> \<not> gives_up res) \<or>
     passed_on ps st st' \<and> res = Inr (Some (NewResponse 204))"
proof (induction ps arbitrary: st)
  case (Cons p ps)
  note first = first_in_Cons [where Q = "\<lambda>q s. q s = Some (res, st') \<and> \<not> gives_up res"]
  show ?case
  proof (cases "p st")
    case None
    then show ?thesis unfolding first by simp
  next
    case (Some a)
    then obtain r st1 where r: "p st = Some (r, st1)" by (cases a) auto
    note g = chain_gives_up [of p st r st1 ps, OF r]
    show ?thesis unfolding first using r by (cases "gives_up r") (auto simp: g Cons.IH simp del: chain_Process.simps)
  qed
qed auto


section \<open>What the processor makes of a match\<close>

text \<open>Only a failed match and a lost branch can end in \<open>ErrScenarioNotFound\<close>; all that comes later ends in other errors.\<close>

lemma other_errors [simp]:
  "\<not> is_not_found (PlainError e)" "\<not> is_not_found (internal_error m c)" "\<not> is_not_found (streamICAPError m e)"
  "\<not> is_not_found (cloneICAPError e)"
  by (simp_all add: is_not_found_def streamICAPError_def cloneICAPError_def internal_error_def NewICAPError_def
      ErrInternalServerError_def ErrScenarioNotFound_def)

lemma attach_error: "attachStream pf io sel limit cfg resp st = Some (Inl e, st') \<Longrightarrow> \<not> is_not_found e"
  by (auto simp: attachStream_def Let_def split: option.splits sum.splits prod.splits)

lemma build_error: "buildResponse en mp t st = Some (Inl e, st') \<Longrightarrow> \<not> is_not_found e"
  by (auto simp: buildResponse_def dest: attach_error split: option.splits sum.splits prod.splits if_splits)

lemma respond_error: "respond en mp name t d st = Some ((Inl e, report), st') \<Longrightarrow> \<not> is_not_found e"
  by (auto simp: respond_def Let_def dest: build_error split: option.splits sum.splits prod.splits if_splits)

lemma answer_error: "answer_with en mp name base weighted st = Some ((Inl e, report), st') \<Longrightarrow> \<not> is_not_found e"
  by (auto simp: answer_with_def dest: respond_error split: option.splits prod.splits)

lemma match_error_other: "\<not> go_Is err ErrNoMatch \<Longrightarrow> \<not> is_not_found (match_error err)"
  by (simp add: match_error_def)

lemma verdict_error:
  assumes "verdict lib opt res s req = Inl e" "\<forall>e0. snd res = Some e0 \<longrightarrow> \<not> go_Is e0 ErrNoMatch"
  shows "\<not> go_Is e ErrNoMatch"
  using assms by (auto simp: verdict_def handleBodyPatternReadError_def split: if_splits option.splits sum.splits)

lemma plain_match_error:
  assumes ctx: "\<And>i k. ctx i k = None" and b: "body_reads io (rg_bodyPattern r) req res"
    and res: "\<forall>e0. snd res = Some e0 \<longrightarrow> \<not> go_Is e0 ErrNoMatch"
    and m: "match_request lib io ctx r req = Some (Inl e, req')"
  shows "\<not> go_Is e ErrNoMatch"
proof -
  have e: "first_verdict lib (rg_bodyPattern r) res req 0 (rg_scenarios r) = Inl e"
    using match_first_verdict [where lib = lib and ctx = ctx and n = 0 and ss = "rg_scenarios r", OF ctx b] m ctx
    by (auto simp: match_request_def)
  from first_verdict_cases [where lib = lib and opt = "rg_bodyPattern r" and res = res and req = req and n = 0 and ss = "rg_scenarios r"] e
  consider t where "verdict lib (rg_bodyPattern r) res t req = Inl e" | n where "e = no_scenario_matched n" by auto
  then show ?thesis
  proof cases
    case (1 t)
    then show ?thesis by (rule verdict_error [OF _ res])
  next
    case (2 n)
    then show ?thesis by (simp add: no_scenario_matched_def)
  qed
qed

text \<open>
  C38: \<^bold>\<open>No fallback behind the mock processor is asked.\<close>  Over the plain registry, whatever scenarios it holds and
  whatever its surroundings do, a chain returns what the mock processor at its front returns, an error included, with no regard to
  the processors behind it: that nothing matched is reported by an error that does not wrap \<open>ErrNoMatch\<close>, a branch is never lost,
  and every later failure is another error than \<open>ErrScenarioNotFound\<close>, the only one that the chain goes on after.  So the echo
  processor, added as the fallback for requests that no scenario matches, never answers.  (The match is not
  cancelled, reading the body returns, and what it fails with, if it fails, does not wrap \<open>ErrNoMatch\<close>.)
\<close>

theorem echo_fallback_dead:
  assumes "\<forall>i k. ctx i k = None" "body_reads io (rg_bodyPattern r) req res" "\<forall>e. snd res = Some e \<longrightarrow> \<not> go_Is e ErrNoMatch"
  shows "chain_Process (Mock_Process en mp (match_request lib io ctx r) # ps) ((req, fs), rnd) =
    Mock_Process en mp (match_request lib io ctx r) ((req, fs), rnd)"
proof -
  let ?P = "Process en mp (match_request lib io ctx r) ((req, fs), rnd)"
  have "\<not> is_not_found e" if p: "?P = Some ((Inl e, report), st)" for e report st
  proof (cases "en_ctxErr en")
    case None
    then obtain result req1 where m: "match_request lib io ctx r req = Some (result, req1)"
      using p by (auto simp: Process_def split: option.splits)
    show ?thesis
    proof (cases result)
      case (Inl err)
      have none: "\<And>i k. ctx i k = None" using assms(1) by simp
      have "\<not> is_not_found (match_error err)"
        by (rule match_error_other [OF plain_match_error [OF none assms(2,3) m [unfolded Inl]]])
      then show ?thesis using p m None Inl by (auto simp: Process_def)
    next
      case (Inr s)
      have "?P = answer_with en mp (s_Name s) (best_template lib s req) (best_variants lib s req) ((req1, fs), rnd)"
        by (rule plain.process_found [OF _ m [unfolded Inr] None]) (use assms(1,2) in blast)
      then show ?thesis using p answer_error by metis
    qed
  qed (use p in \<open>auto simp: Process_def\<close>)
  then have err: "\<not> is_not_found e" if "?P = Some ((Inl e, report), st)" for e report st using that by blast
  show ?thesis
  proof (cases ?P)
    case (Some x)
    obtain result report st where x: "x = ((result, report), st)" by (cases x) auto
    show ?thesis using Some x err by (cases result) (auto simp: Mock_Process_def)
  qed (simp add: Mock_Process_def)
qed

text \<open>
  C40: \<^bold>\<open>The answer is filled in with the captures of every scenario tried.\<close>  When the plain registry answers with
  a scenario, the values put into its response are not only its own captures: they are those of all the scenarios before it in
  the list, none of which applies, whose route matched, merged in this order with the captures that the request
  already had; those of the answering scenario come last and win.  Since a response is substituted only if there are captures
  (\<open>substituted\<close>), a scenario that does not apply can change what another one answers.  (The request is not cancelled,
  and reading its body returns.)
\<close>

theorem captures_of_all_tried:
  assumes ctx: "\<forall>i k. ctx i k = None" and b: "body_reads io (rg_bodyPattern r) req res"
    and m: "match_request lib io ctx r req = Some (Inr s, req')" and en: "en_ctxErr en = None"
  shows "\<exists>before after. List r = before @ s # after \<and>
    (\<forall>t \<in> set before. verdict lib (rg_bodyPattern r) res t req = Inr False) \<and>
    verdict lib (rg_bodyPattern r) res s req = Inr True \<and>
    Process en mp (match_request lib io ctx r) ((req, fs), rnd) =
      (case choose_variant (en_Intn en) (best_template lib s req) (best_variants lib s req) of
         None \<Rightarrow> None
       | Some (chosen, selectedDelay) \<Rightarrow>
           respond en mp (s_Name s) (substituted (tried_captures lib (before @ [s]) req) chosen) selectedDelay ((req', fs), rnd))"
proof -
  have none: "\<And>i k. ctx i k = None" using ctx by simp
  have "match_first lib io ctx (rg_bodyPattern r) 0 (List r) req = Some (Inr s, req')"
    using m ctx by (simp add: match_request_def List_def)
  from match_first_captures [OF none b this] obtain before after where w: "List r = before @ s # after"
    "\<forall>t \<in> set before. declines lib (rg_bodyPattern r) res req t" "verdict lib (rg_bodyPattern r) res s req = Inr True"
    "Captures req' = tried_captures lib (before @ [s]) req" by blast
  have P: "Process en mp (match_request lib io ctx r) ((req, fs), rnd) =
      answer_with en mp (s_Name s) (best_template lib s req) (best_variants lib s req) ((req', fs), rnd)"
    by (rule plain.process_found [OF _ m en]) (use ctx b in blast)
  show ?thesis using w(1-3) unfolding P answer_with_def fst_conv w(4) declines_def by blast
qed

text \<open>The match of a sharded registry for the processor, which does not see how the registry has changed.\<close>

definition sharded_matcher ::
  "('re, 'net, 'ip) golib \<Rightarrow> 'r body_io \<Rightarrow> (nat \<Rightarrow> nat \<Rightarrow> nat \<Rightarrow> go_error option) \<Rightarrow> int \<Rightarrow> nat \<Rightarrow> ('re, 'net) ShardedScenarioRegistry \<Rightarrow>
   ('q, 'r, 'b) request \<Rightarrow> ((go_error + ('re, 'net) Scenario) \<times> ('q, 'r, 'b) request) option" where
  "sharded_matcher lib io ctx now addr r req =
     (case sharded_Match lib io ctx now addr r (Some req) of
        Some (result, Some req', _) \<Rightarrow> Some (result, req')
      | _ \<Rightarrow> None)"

text \<open>
  C39: \<^bold>\<open>A loaded sharded registry loses every branch.\<close>  A file without a scenario named \<open>default\<close> and without priorities
  below that of the default scenario has been freshly decoded and loaded into the sharded registry, and any requests have been matched
  since.  Then no match leaves a branch in a request that comes without one, as every new request does: the last candidate that is tried is the default scenario, which accepts every request and clears
  the branch.  If the scenario that the match returns has branches, the processor takes its guard for a lost branch, so
  none of its branches ever answers: the result is \<open>ErrScenarioNotFound\<close>, and a chain with the echo
  processor behind lets the message pass with 204.  (Over the plain registry the branch is never lost.)
\<close>

theorem lost_branch_lets_message_pass:
  assumes load: "sharded_Load lib stat errText addr path (Inr ss) r0 = (None, r1)" "\<forall>s \<in> set ss. uncompiled s"
    and names: "defaultScenarioName \<notin> s_Name ` set ss" "\<forall>s \<in> set ss. -1 \<le> s_Priority s"
    and since: "after_matches lib asks r1 = Some r"
    and m: "sharded_matcher lib io ctx now a r req = Some (Inr s, req')" "MatchedBranch req = (0, False)"
    and s: "s_Branches s \<noteq> []" and en: "en_ctxErr en = None"
  shows "MatchedBranch req' = (0, False) \<and>
    Process en mp (sharded_matcher lib io ctx now a r) ((req, fs), rnd) =
      Some ((Inl (AppError ErrScenarioNotFound), Some \<lparr>re_Scenario = s_Name s, re_Response = [], re_Outcome = OutcomeError\<rparr>),
        ((req', fs), rnd)) \<and>
    chain_Process [Mock_Process en mp (sharded_matcher lib io ctx now a r), Echo_Process] ((req, fs), rnd) =
      Echo_Process ((req', fs), rnd)"
proof -
  obtain r' where "sharded_Match lib io ctx now a r (Some req) = Some (Inr s, Some req', r')"
    using m(1) by (auto simp: sharded_matcher_def split: option.splits)
  then have lost: "MatchedBranch req' = (0, False)" by (rule loaded_match_clears [OF load names since m(2)])
  then have "response_source s req' = Lost" using s by (simp add: response_source_def)
  then have P: "Process en mp (sharded_matcher lib io ctx now a r) ((req, fs), rnd) =
      Some ((Inl (AppError ErrScenarioNotFound), Some \<lparr>re_Scenario = s_Name s, re_Response = [], re_Outcome = OutcomeError\<rparr>),
        ((req', fs), rnd))"
    using m(1) en by (simp add: Process_def process_matched_def)
  then have "chain_Process [Mock_Process en mp (sharded_matcher lib io ctx now a r), Echo_Process] ((req, fs), rnd) =
      Echo_Process ((req', fs), rnd)"
    by (simp add: Mock_Process_def is_not_found_def Echo_Process_def)
  then show ?thesis using lost P by blast
qed

section \<open>Concrete requests\<close>

definition demo_surroundings :: "(string, unit, string, unit) surroundings" where
  "demo_surroundings =
     \<lparr>en_platform = \<lparr>pf_lib = literal_lib, pf_open = \<lambda>_. Inl EOF, pf_close = \<lambda>_. None, pf_parts = \<lambda>_ _. ([], EOF)\<rparr>,
      en_io = no_body_io, en_ctxErr = None, en_wait = \<lambda>_. None, en_ReadFile = \<lambda>_. Inl EOF, en_StatusText = \<lambda>_. [],
      en_Intn = \<lambda>_. 0, en_Int63n = \<lambda>_. 0\<rparr>"

definition no_files :: files where
  "no_files = \<lparr>next_handle = 0, open_handles = []\<rparr>"

type_synonym demo_match = "(unit, unit, unit) request \<Rightarrow> ((go_error + (string, unit) Scenario) \<times> (unit, unit, unit) request) option"

definition over_plain :: "(string, unit) registry_op list \<Rightarrow> demo_match" where
  "over_plain ops = match_request literal_lib no_body_io (\<lambda>_ _. None) (snd (demo_plain ops))"

definition over_sharded :: "(string, unit) registry_op list \<Rightarrow> demo_match" where
  "over_sharded ops req =
     (case sharded_Match literal_lib no_body_io (\<lambda>_ _ _. None) 0 99 (snd (demo_sharded ops)) (Some req) of
        Some (result, Some req', _) \<Rightarrow> Some (result, req')
      | _ \<Rightarrow> None)"

text \<open>The status and the body of the response, or the code and the status of the error.\<close>

definition seen :: "((process_error + ('r, payload) response option) \<times> 's) option \<Rightarrow> ((int \<times> int) + (int \<times> string)) option" where
  "seen x =
     (case x of
        Some (Inr (Some resp), _) \<Rightarrow> Some (Inr (rs_StatusCode resp, rs_bytes resp))
      | Some (Inl (AppError a), _) \<Rightarrow> Some (Inl (er_Code a, er_ICAPStatus a))
      | _ \<Rightarrow> None)"

definition demo_mock :: "demo_match \<Rightarrow> ((unit, unit, unit) pstate, (unit, payload) response) processor" where
  "demo_mock m = Mock_Process demo_surroundings (NewMockProcessorWithMaxBodySize 100) m"

definition answer_to :: "rands \<Rightarrow> demo_match \<Rightarrow> string \<Rightarrow> ((int \<times> int) + (int \<times> string)) option" where
  "answer_to rnd m uri = seen (demo_mock m ((demo_request uri, no_files), rnd))"

definition chain_answer_to :: "rands \<Rightarrow> demo_match \<Rightarrow> string \<Rightarrow> ((int \<times> int) + (int \<times> string)) option" where
  "chain_answer_to rnd m uri = seen (chain_Process [demo_mock m, Echo_Process] ((demo_request uri, no_files), rnd))"

definition answering :: "string \<Rightarrow> ResponseTemplate" where
  "answering body = empty_response\<lparr>rp_ICAPStatus := 200, rp_Body := body\<rparr>"

definition answering_branch :: "(string, unit) Scenario" where
  "answering_branch = (plain_scenario ''branchy'' (no_rule\<lparr>Routes := [(''REQMOD'', [''/scan''])]\<rparr>) 0 10)
     \<lparr>s_Branches := [\<lparr>c_Match = no_rule, c_compiledHeaders = [], c_compiledHeaderLists = [], c_compiledHTTPHeaders = [],
        c_compiledHTTPLists = [], c_compiledHTTPURL = None, b_WeightedResponses = None, b_Response = answering ''hit''\<rparr>]\<rparr>"

text \<open>
  \<^bold>\<open>A lost branch, on an example.\<close>  A file with one scenario is loaded whose only branch answers
  with status 200.  Over the plain registry this is the answer.  Over the sharded registry the processor takes its guard for a lost branch,
  because the default scenario, tried later, has cleared the branch: the answer is \<open>ErrScenarioNotFound\<close> with 404, and behind a chain with the echo
  processor the message passes unmodified.
\<close>

lemma lost_branch_example:
  "answer_to rnd (over_plain [OpLoad ''f.yaml'' 5 (Inr [answering_branch])]) ''icap://h/scan'' = Some (Inr (200, ''hit'')) \<and>
   answer_to rnd (over_sharded [OpLoad ''f.yaml'' 5 (Inr [answering_branch])]) ''icap://h/scan'' = Some (Inl (1006, 404)) \<and>
   chain_answer_to rnd (over_sharded [OpLoad ''f.yaml'' 5 (Inr [answering_branch])]) ''icap://h/scan'' = Some (Inr (204, []))"
  by (intro conjI; code_simp)

lemma no_match_example:
  "answer_to rnd (over_plain [OpRemove ''default'']) ''icap://h/scan'' = Some (Inl (1005, 500))"
  by code_simp

theorem echo_fallback_dead_witness:
  "\<forall>rnd. chain_answer_to rnd (over_plain [OpRemove ''default'']) ''icap://h/scan'' = Some (Inl (1005, 500))"
proof
  fix rnd
  let ?r = "snd (demo_plain [OpRemove ''default''])"
  have none: "\<forall>i k. (\<lambda>(_ :: nat) (_ :: nat). None :: go_error option) i k = None" by simp
  have b: "body_reads no_body_io (rg_bodyPattern ?r) (demo_request ''icap://h/scan'') (None, None)"
    by (simp add: body_reads_def bodyPatternMessage_def body_in_response_def demo_request_def zero_request_def method_defs)
  have "chain_answer_to rnd (over_plain [OpRemove ''default'']) ''icap://h/scan'' =
      answer_to rnd (over_plain [OpRemove ''default'']) ''icap://h/scan''"
    unfolding chain_answer_to_def answer_to_def demo_mock_def over_plain_def
    by (subst echo_fallback_dead [OF none b]) simp_all
  then show "chain_answer_to rnd (over_plain [OpRemove ''default'']) ''icap://h/scan'' = Some (Inl (1005, 500))"
    by (simp only: no_match_example)
qed

definition capture_lib :: "(string, unit, string) golib" where
  "capture_lib = literal_lib\<lparr>re_MatchString := (\<lambda>re s. go_HasPrefix s ''/scan/''),
     re_FindStringSubmatch := (\<lambda>re s. if go_HasPrefix s ''/scan/'' then Some [s, drop 6 s] else None),
     re_SubexpNames := (\<lambda>re. [[], ''id''])\<rparr>"

definition over_captures :: "(string, unit) registry_op list \<Rightarrow> demo_match" where
  "over_captures ops = match_request capture_lib no_body_io (\<lambda>_ _. None)
     (run_ops capture_lib (\<lambda>_. None) (\<lambda>_. []) ops (NewScenarioRegistryWithBodyPatternOptions DefaultBodyPatternOptions 0))"

definition price :: "(string, unit) Scenario" where
  "price = (plain_scenario ''price'' (no_rule\<lparr>Methods := [''REQMOD'']\<rparr>) 1 5)\<lparr>s_Response := answering ''cost ${n}''\<rparr>"

definition post_only :: "(string, unit) Scenario" where
  "post_only = (plain_scenario ''post'' (no_rule\<lparr>Routes := [(''REQMOD'', [''/scan/{id}''])], HTTPMethod := ''POST''\<rparr>) 2 9)
     \<lparr>s_Response := answering ''posted''\<rparr>"

text \<open>
  \<^bold>\<open>A scenario that does not apply changes the answer of another.\<close>  The scenario \<open>price\<close> captures nothing, so
  the placeholder-like text in its body is sent as it is.  When a scenario for \<open>POST\<close> requests is added, whose path has a placeholder and
  matches, the captured value stays in the request although that scenario is rejected afterwards; now the body of \<open>price\<close>
  is substituted, and the text disappears.
\<close>

lemma captures_leak_between_scenarios:
  "answer_to rnd (over_captures [OpAdd (Some price)]) ''icap://h/scan/7'' = Some (Inr (200, ''cost ${n}'')) \<and>
   answer_to rnd (over_captures [OpAdd (Some price), OpAdd (Some post_only)]) ''icap://h/scan/7'' = Some (Inr (200, ''cost ''))"
  by (intro conjI; code_simp)

section \<open>Witnesses\<close>

definition demo_processor :: MockProcessor where
  "demo_processor = NewMockProcessorWithMaxBodySize 100"

theorem captures_of_all_tried_witness:
  "\<forall>rnd. \<exists>s req'. s_Name s = ''price'' \<and>
     over_captures [OpAdd (Some price), OpAdd (Some post_only)] (demo_request ''icap://h/scan/7'') = Some (Inr s, req') \<and>
     Process demo_surroundings demo_processor (over_captures [OpAdd (Some price), OpAdd (Some post_only)])
         ((demo_request ''icap://h/scan/7'', no_files), rnd) =
       respond demo_surroundings demo_processor ''price'' (substituted [(''id'', ''7'')] (answering ''cost ${n}'')) None ((req', no_files), rnd)"
proof
  fix rnd
  let ?ops = "[OpAdd (Some price), OpAdd (Some post_only)]" and ?req = "demo_request ''icap://h/scan/7''"
  let ?r = "run_ops capture_lib (\<lambda>_. None) (\<lambda>_. []) ?ops (NewScenarioRegistryWithBodyPatternOptions DefaultBodyPatternOptions 0)"
  have "map_option (map_sum (\<lambda>_. ()) s_Name \<circ> fst) (match_request capture_lib no_body_io (\<lambda>_ _. None) ?r ?req) = Some (Inr ''price'')"
    by code_simp
  then obtain s req' where m: "match_request capture_lib no_body_io (\<lambda>_ _. None) ?r ?req = Some (Inr s, req')" and s: "s_Name s = ''price''"
    by (auto simp: map_sum_Inr)
  have list: "map s_Name (List ?r) = [''post'', ''price'', ''default'']"
    "tried_captures capture_lib (take 2 (List ?r)) ?req = [(''id'', ''7'')]"
    "best_template capture_lib (List ?r ! 1) ?req = answering ''cost ${n}''" "best_variants capture_lib (List ?r ! 1) ?req = []"
    by code_simp+
  obtain p q d where l: "List ?r = [p, q, d]" "s_Name p = ''post''" "s_Name q = ''price''" "s_Name d = ''default''"
    using list(1) by (auto simp: map_eq_Cons_conv)
  have none: "\<forall>i k. (\<lambda>(_ :: nat) (_ :: nat). None :: go_error option) i k = None" by simp
  have b: "body_reads no_body_io (rg_bodyPattern ?r) ?req (None, None)"
    by (simp add: body_reads_def bodyPatternMessage_def body_in_response_def demo_request_def zero_request_def method_defs)
  have ctx: "en_ctxErr demo_surroundings = None" by (simp add: demo_surroundings_def)
  obtain before after where w: "List ?r = before @ s # after"
    and P: "Process demo_surroundings demo_processor (match_request capture_lib no_body_io (\<lambda>_ _. None) ?r) ((?req, no_files), rnd) =
      (case choose_variant (en_Intn demo_surroundings) (best_template capture_lib s ?req) (best_variants capture_lib s ?req) of
         None \<Rightarrow> None
       | Some (chosen, selectedDelay) \<Rightarrow> respond demo_surroundings demo_processor (s_Name s)
           (substituted (tried_captures capture_lib (before @ [s]) ?req) chosen) selectedDelay ((req', no_files), rnd))"
    using captures_of_all_tried [OF none b m ctx, of demo_processor no_files rnd] by blast
  have "before = [p] \<and> s = q" using w s l by (auto simp: Cons_eq_append_conv)
  then have "Process demo_surroundings demo_processor (over_captures ?ops) ((?req, no_files), rnd) =
      respond demo_surroundings demo_processor ''price'' (substituted [(''id'', ''7'')] (answering ''cost ${n}'')) None ((req', no_files), rnd)"
    using P s list(2-4) by (simp add: over_captures_def l choose_variant_def)
  then show "\<exists>s req'. s_Name s = ''price'' \<and> over_captures ?ops ?req = Some (Inr s, req') \<and>
     Process demo_surroundings demo_processor (over_captures ?ops) ((?req, no_files), rnd) =
       respond demo_surroundings demo_processor ''price'' (substituted [(''id'', ''7'')] (answering ''cost ${n}'')) None ((req', no_files), rnd)"
    using m s unfolding over_captures_def by blast
qed

text \<open>The sharded registry that has loaded the file with the branching scenario, and has matched another request since.\<close>

definition branchy_loaded :: "go_error option \<times> (string, unit) ShardedScenarioRegistry" where
  "branchy_loaded = sharded_Load literal_lib (\<lambda>_. None) (\<lambda>_. []) 5 ''f.yaml'' (Inr [answering_branch])
     (newShardedScenarioRegistryWithConfig \<lparr>ShardCount = 4, CacheSize = 2, EnableCache = True\<rparr> DefaultBodyPatternOptions demo_addrs)"

definition branchy_registry :: "(string, unit) ShardedScenarioRegistry option" where
  "branchy_registry =
     after_matches literal_lib [(no_body_io, (\<lambda>_ _ _. None), 0, 98, demo_request ''icap://h/other'')] (snd branchy_loaded)"

theorem lost_branch_lets_message_pass_witness:
  "\<exists>r req'. branchy_registry = Some r \<and>
     (\<forall>rnd. Process demo_surroundings demo_processor (sharded_matcher literal_lib no_body_io (\<lambda>_ _ _. None) 0 99 r)
         ((demo_request ''icap://h/scan'', no_files), rnd) =
       Some ((Inl (AppError ErrScenarioNotFound), Some \<lparr>re_Scenario = ''branchy'', re_Response = [], re_Outcome = OutcomeError\<rparr>),
         ((req', no_files), rnd)))"
proof -
  let ?req = "demo_request ''icap://h/scan''" and ?ok = "\<lambda>_ _ _. None"
  have "fst branchy_loaded = None" by code_simp
  then have load: "sharded_Load literal_lib (\<lambda>_. None) (\<lambda>_. []) 5 ''f.yaml'' (Inr [answering_branch])
     (newShardedScenarioRegistryWithConfig \<lparr>ShardCount = 4, CacheSize = 2, EnableCache = True\<rparr> DefaultBodyPatternOptions demo_addrs) =
     (None, snd branchy_loaded)"
    by (metis branchy_loaded_def prod.collapse)
  have "uncompiled answering_branch" by code_simp
  then have decoded: "\<forall>s \<in> set [answering_branch]. uncompiled s" "defaultScenarioName \<notin> s_Name ` set [answering_branch]"
    "\<forall>s \<in> set [answering_branch]. -1 \<le> s_Priority s"
    by (simp_all add: answering_branch_def plain_scenario_def defaultScenarioName_def)
  have "map_option (\<lambda>r. map_option (map_sum (\<lambda>_. ()) (\<lambda>s. (s_Name s, s_Branches s = [])) \<circ> fst)
      (sharded_matcher literal_lib no_body_io (\<lambda>_ _ _. None) 0 99 r ?req)) branchy_registry = Some (Some (Inr (''branchy'', False)))"
    by code_simp
  then obtain r s req' where r: "branchy_registry = Some r"
    and m: "sharded_matcher literal_lib no_body_io (\<lambda>_ _ _. None) 0 99 r ?req = Some (Inr s, req')"
    and s: "s_Name s = ''branchy''" "s_Branches s \<noteq> []"
    by (auto simp: map_sum_Inr)
  have fresh: "MatchedBranch ?req = (0, False)" by code_simp
  have ctx: "en_ctxErr demo_surroundings = None" by (simp add: demo_surroundings_def)
  note L = lost_branch_lets_message_pass [OF load decoded r [unfolded branchy_registry_def] m fresh s(2) ctx]
  show ?thesis using r L s(1) by (intro exI [of _ r] exI [of _ req']) auto
qed

theorem process_answers_best_witness:
  "\<forall>rnd. \<exists>s req'. s_Name s = ''demo'' \<and>
     Process demo_surroundings demo_processor
       (match_request literal_lib no_body_io (\<lambda>_ _. None)
          (run_ops literal_lib (\<lambda>_. None) (\<lambda>_. []) demo_ops (NewScenarioRegistryWithBodyPatternOptions DefaultBodyPatternOptions 0)))
       ((demo_request ''icap://h/a.b'', no_files), rnd) =
     answer_with demo_surroundings demo_processor ''demo''
       (best_template literal_lib s (demo_request ''icap://h/a.b'')) (best_variants literal_lib s (demo_request ''icap://h/a.b''))
       ((req', no_files), rnd)"
proof
  fix rnd
  let ?r = "run_ops literal_lib (\<lambda>_. None) (\<lambda>_. []) demo_ops (NewScenarioRegistryWithBodyPatternOptions DefaultBodyPatternOptions 0)"
  let ?req = "demo_request ''icap://h/a.b''"
  have names: "map s_Name (List ?r) = [''demo'', ''default'']"
    "map (\<lambda>s. verdict literal_lib (rg_bodyPattern ?r) (None, None) s ?req) (List ?r) = [Inr True, Inr True]"
    "map s_Priority (List ?r) = [5, -1]"
    by code_simp+
  then obtain a d where l: "List ?r = [a, d]" by (auto simp: map_eq_Cons_conv)
  have b: "body_reads no_body_io (rg_bodyPattern ?r) ?req (None, None)"
    by (simp add: body_reads_def bodyPatternMessage_def body_in_response_def demo_request_def zero_request_def method_defs)
  have v: "verdict literal_lib (rg_bodyPattern ?r) (None, None) a ?req = Inr True"
    "verdict literal_lib (rg_bodyPattern ?r) (None, None) d ?req = Inr True" "s_Name a = ''demo''"
    "\<not> scenarioOutranks (Some d) (Some a)" "a \<noteq> d"
    using names by (auto simp: l scenarioOutranks_def)
  have one: "(1 :: nat) \<le> 2" and none: "\<forall>i k. (\<lambda>(_ :: nat) (_ :: nat). None :: go_error option) i k = None" by simp_all
  have ctx: "en_ctxErr demo_surroundings = None" by (simp add: demo_surroundings_def)
  show "\<exists>s req'. s_Name s = ''demo'' \<and>
     Process demo_surroundings demo_processor (match_request literal_lib no_body_io (\<lambda>_ _. None) ?r) ((?req, no_files), rnd) =
     answer_with demo_surroundings demo_processor ''demo'' (best_template literal_lib s ?req) (best_variants literal_lib s ?req)
       ((req', no_files), rnd)"
    using process_answers_best [OF demo_ops_fresh(1) one demo_ops_fresh(2) refl none b ctx, of demo_processor no_files rnd] v
    by (auto simp: l)
qed

definition page :: ResponseTemplate where
  "page = empty_response\<lparr>rp_ICAPStatus := 200, rp_HTTPBody := ''<p>'', rp_HTTPHeaders := [(''x-scan'', ''ok'')]\<rparr>"

definition page_request :: "(unit, unit, unit) request" where
  "page_request = (demo_request ''icap://h/scan'')
     \<lparr>HTTPRequest := Some \<lparr>BodyReader = None, Body = None, bodyLoaded = False, bodyErr = None, bodyOnce = False,
        BodyStream = None, m_Header = Some [(''Host'', [''h''])], m_Method = ''GET'', m_URI = ''/'', m_Status = [], m_StatusText = [],
        m_Proto = ''HTTP/1.1''\<rparr>\<rparr>"

theorem build_response_exact_witness:
  "\<forall>rnd. \<exists>resp st' c. buildResponse demo_surroundings demo_processor page ((page_request, no_files), rnd) = Some (Inr resp, st') \<and>
     rs_StatusCode resp = 200 \<and> rs_HTTPRequest resp = Some c \<and> body_bytes c = ''<p>'' \<and> m_Method c = ''GET'' \<and>
     header_values c ''Content-Length'' = [''3''] \<and> header_values c ''host'' = [''h'']"
proof
  fix rnd
  have "case buildResponse demo_surroundings demo_processor page ((page_request, no_files), rnd) of Some (Inr resp, st') \<Rightarrow> True | _ \<Rightarrow> False"
    by code_simp
  then obtain resp req' fs' rnd' where
    b: "buildResponse demo_surroundings demo_processor page ((page_request, no_files), rnd) = Some (Inr resp, ((req', fs'), rnd'))"
    by (cases "buildResponse demo_surroundings demo_processor page ((page_request, no_files), rnd)") (auto split: sum.splits)
  have s: "rp_Stream page = None" "rp_ICAPStatus page = 200" "loadHTTPBody (en_ReadFile demo_surroundings) page = Inr ''<p>''"
    "answered page page_request = Some (RequestSide, False)" "recomputes_length page" "go_Itoa 3 = ''3''"
    "CanonicalHeaderKey ''host'' = ''Host''" "names_set page = {''X-Scan''}" "CanonicalHeaderKey ''Content-Length'' = ''Content-Length''"
    by code_simp+
  obtain m where m: "HTTPRequest page_request = Some m" "m_Method m = ''GET''" "header_values m ''host'' = [''h'']"
  proof -
    have "case HTTPRequest page_request of Some m \<Rightarrow> m_Method m = ''GET'' \<and> header_values m ''host'' = [''h''] | None \<Rightarrow> False" by code_simp
    then show ?thesis using that by (auto split: option.splits)
  qed
  obtain m' c where "rs_StatusCode resp = 200" "adapted_from False page ''<p>'' m m' c" "carries resp RequestSide c"
    using build_response_exact [OF b s(1)] s(2-4) m(1) by auto
  then show "\<exists>resp st' c. buildResponse demo_surroundings demo_processor page ((page_request, no_files), rnd) = Some (Inr resp, st') \<and>
     rs_StatusCode resp = 200 \<and> rs_HTTPRequest resp = Some c \<and> body_bytes c = ''<p>'' \<and> m_Method c = ''GET'' \<and>
     header_values c ''Content-Length'' = [''3''] \<and> header_values c ''host'' = [''h'']"
    using b m(2,3) s(5-9) by (auto simp: adapted_from_def carries_def same_start_def)
qed

theorem process_leaks_no_file_witness:
  "\<forall>rnd. \<exists>e report st'. Process demo_surroundings demo_processor (over_plain [OpRemove ''default''])
       ((demo_request ''icap://h/scan'', \<lparr>next_handle = 7, open_handles = [3]\<rparr>), rnd) = Some ((Inl e, report), st') \<and>
     open_handles (snd (fst st')) = [3]"
proof
  fix rnd
  let ?P = "Process demo_surroundings demo_processor (over_plain [OpRemove ''default''])
       ((demo_request ''icap://h/scan'', \<lparr>next_handle = 7, open_handles = [3]\<rparr>), rnd)"
  have "case ?P of Some ((Inl e, report), st') \<Rightarrow> True | _ \<Rightarrow> False" by code_simp
  then obtain e report req' fs' rnd' where p: "?P = Some ((Inl e, report), ((req', fs'), rnd'))"
    by (cases ?P) (auto split: sum.splits)
  then show "\<exists>e report st'. ?P = Some ((Inl e, report), st') \<and> open_handles (snd (fst st')) = [3]"
    using process_leaks_no_file [OF p] by (simp add: files_ok_def)
qed

end
