(* ===== verification/Scenario_V2.thy ===== *)
theory Scenario_V2
  imports Scenario_Registry
begin

text \<open>
  Version 2 scenario files (\<^verbatim>\<open>internal/storage/scenario_v2.go\<close>): from the decoded file to the scenarios that
  the registry validates.  Defaults, exact routes, named response templates, weighted variants and branches are
  resolved here.

  Decoding YAML or JSON into the structs is not modelled.  A Go map is an association list, \<open>nil\<close> is \<^const>\<open>None\<close> where the
  code tells it from an empty value.  \<open>time.ParseDuration\<close> and the text of a duration are the record \<open>timelib\<close>.  The code
  builds a list of variants by a recursion through the templates that need not end: \<open>build_variants\<close> is a partial
  function, and \<^const>\<open>None\<close> means that the goroutine's stack overflows.  The pointers of new scenarios are numbered from \<open>addr\<close>.
\<close>

definition em_dash :: string where "em_dash = [CHR 0xE2, CHR 0x80, CHR 0x94]"

section \<open>The decoded file\<close>

record timelib =
  tm_ParseDuration :: "string \<Rightarrow> go_error + int"
  tm_String :: "int \<Rightarrow> string"

record HeaderMatchValueV2 =
  hm_Scalar :: string
  hm_Contains :: "string list"
  hm_IsList :: bool

type_synonym HeaderMatchesV2 = "(string \<times> HeaderMatchValueV2) list"

record WhenHTTPV2 =
  wh_Headers :: HeaderMatchesV2
  wh_URL :: string
  wh_Method :: string

record InlineResponseV2 =
  il_Set :: "(string \<times> string) list"
  il_HTTPSet :: "(string \<times> string) list"
  il_Stream :: "StreamConfig option"
  il_Block :: "bool option"
  il_Use :: string
  il_Body :: string
  il_BodyFile :: string
  il_HTTPBody :: string
  il_HTTPBodyFile :: string
  il_Error :: string
  il_Delay :: string
  il_Status :: int
  il_HTTPStatus :: int

record WeightedResponseV2 =
  w2_Set :: "(string \<times> string) list"
  w2_HTTPSet :: "(string \<times> string) list"
  w2_Stream :: "StreamConfig option"
  w2_Block :: "bool option"
  w2_Body :: string
  w2_HTTPBody :: string
  w2_HTTPBodyFile :: string
  w2_Error :: string
  w2_Delay :: string
  w2_Use :: string
  w2_Weight :: int
  w2_Status :: int
  w2_HTTPStatus :: int

record ResponseTemplateV2 =
  rt_Inline :: "InlineResponseV2 option"
  rt_Weighted :: "WeightedResponseV2 list option"

text \<open>The response fields of a branch and of an entry are those of an inline response.\<close>

record BranchV2 = InlineResponseV2 +
  bv_When :: HeaderMatchesV2
  bv_WhenHTTP :: "WhenHTTPV2 option"
  bv_Responses :: "WeightedResponseV2 list option"

type_synonym RouteMap = "(string \<times> string list) list"

record ScenarioEntryV2 = InlineResponseV2 +
  ev_When :: HeaderMatchesV2
  ev_WhenHTTP :: "WhenHTTPV2 option"
  ev_Routes :: "RouteMap option"
  ev_Method :: "string list"
  ev_Endpoint :: "string list"
  ev_Responses :: "WeightedResponseV2 list option"
  ev_Branches :: "BranchV2 list"
  ev_Priority :: int
  ev_routesSet :: bool
  ev_methodSet :: bool
  ev_endpointSet :: bool

record ScenarioDefaultsV2 =
  df_Headers :: "(string \<times> string) list"
  df_ResponseTemplates :: "(string \<times> ResponseTemplateV2) list"
  df_Use :: string
  df_Routes :: "RouteMap option"
  df_Method :: "string list"
  df_Endpoint :: "string list"
  df_Status :: int
  df_HTTPStatus :: int
  df_routesSet :: bool
  df_methodSet :: bool
  df_endpointSet :: bool

record ScenarioFileV2 =
  f2_Scenarios :: "(string \<times> ScenarioEntryV2) list"
  f2_Defaults :: ScenarioDefaultsV2

section \<open>Delays\<close>

text \<open>One side of \<open>rangePattern\<close>: digits and a unit.\<close>

definition range_side :: "string \<Rightarrow> bool" where
  "range_side s \<longleftrightarrow> takeWhile is_digit s \<noteq> [] \<and> dropWhile is_digit s \<in> {''ms'', ''s'', ''m''}"

definition rangePattern :: "string \<Rightarrow> (string \<times> string) option" where
  "rangePattern s =
     (case go_IndexByte s (CHR ''-'') of
        None \<Rightarrow> None
      | Some i \<Rightarrow> if range_side (take i s) \<and> range_side (drop (i + 1) s) then Some (take i s, drop (i + 1) s) else None)"

definition ParseDelay :: "timelib \<Rightarrow> string \<Rightarrow> go_error + DelayConfig" where
  "ParseDelay tm s0 =
     (let s = go_TrimSpace s0 in
      if s = [] then Inl (ErrNew ''empty delay string'')
      else (case rangePattern s of
        Some (lo, hi) \<Rightarrow>
          (case tm_ParseDuration tm lo of
             Inl e \<Rightarrow> Inl (ErrWrap (''invalid range min '' @ go_Quote lo @ '': '') e)
           | Inr minDur \<Rightarrow>
               (case tm_ParseDuration tm hi of
                  Inl e \<Rightarrow> Inl (ErrWrap (''invalid range max '' @ go_Quote hi @ '': '') e)
                | Inr maxDur \<Rightarrow>
                    if minDur > maxDur
                    then Inl (ErrNew (''range min '' @ tm_String tm minDur @ '' is greater than max '' @ tm_String tm maxDur))
                    else Inr \<lparr>dl_Min = minDur, dl_Max = maxDur, dl_IsRange = True\<rparr>))
      | None \<Rightarrow>
          (case tm_ParseDuration tm s of
             Inl e \<Rightarrow> Inl (ErrWrap (''invalid delay '' @ go_Quote s @ '': '') e)
           | Inr d \<Rightarrow>
               if d < 0 then Inl (ErrNew (''negative delay '' @ go_Quote s @ '' is not allowed''))
               else Inr \<lparr>dl_Min = d, dl_Max = d, dl_IsRange = False\<rparr>)))"

section \<open>Header rules\<close>

definition NewExactHeaderMatchesV2 :: "(string \<times> string) list \<Rightarrow> HeaderMatchesV2" where
  "NewExactHeaderMatchesV2 headers = map (\<lambda>(k, v). (k, \<lparr>hm_Scalar = v, hm_Contains = [], hm_IsList = False\<rparr>)) headers"

definition splitHeaderMatches :: "HeaderMatchesV2 \<Rightarrow> (string \<times> string) list \<times> (string \<times> string list) list" where
  "splitHeaderMatches matches =
     (map (\<lambda>(k, m). (k, hm_Scalar m)) (filter (\<lambda>(k, m). \<not> hm_IsList m) matches),
      map (\<lambda>(k, m). (k, hm_Contains m)) (filter (\<lambda>(k, m). hm_IsList m) matches))"

definition mergeHeaders :: "(string \<times> string) list \<Rightarrow> (string \<times> string) list \<Rightarrow> (string \<times> string) list" where
  "mergeHeaders base overlay = fold (\<lambda>(k, v) m. AList.update k v m) overlay base"

section \<open>Routing\<close>

record resolvedScenarioRouting =
  rr_routes :: RouteMap
  rr_methods :: "string list"
  rr_endpoints :: "string list"

definition route_list :: "RouteMap \<Rightarrow> string \<Rightarrow> string list" where
  "route_list routes m = (case map_of routes m of None \<Rightarrow> [] | Some es \<Rightarrow> es)"

fun unique_endpoints :: "string list \<Rightarrow> string list \<Rightarrow> string list" where
  "unique_endpoints seen [] = []"
| "unique_endpoints seen (e # es) = (if e \<in> set seen then unique_endpoints seen es else e # unique_endpoints (e # seen) es)"

definition routingFromRouteMap :: "RouteMap \<Rightarrow> resolvedScenarioRouting" where
  "routingFromRouteMap routes =
     (let methods = orderedRouteMethods routes in
      \<lparr>rr_routes = routes, rr_methods = methods, rr_endpoints = unique_endpoints [] (concat (map (route_list routes) methods))\<rparr>)"

definition the_routes :: "RouteMap option \<Rightarrow> RouteMap" where
  "the_routes r = (case r of None \<Rightarrow> [] | Some m \<Rightarrow> m)"

definition defaultsHasRoutes :: "ScenarioDefaultsV2 \<Rightarrow> bool" where
  "defaultsHasRoutes d \<longleftrightarrow> df_routesSet d \<or> df_Routes d \<noteq> None"

definition entryHasRoutes :: "ScenarioEntryV2 \<Rightarrow> bool" where
  "entryHasRoutes e \<longleftrightarrow> ev_routesSet e \<or> ev_Routes e \<noteq> None"

definition defaults_routes_conflict :: "ScenarioDefaultsV2 \<Rightarrow> go_error option" where
  "defaults_routes_conflict d =
     (if defaultsHasRoutes d \<and> (df_methodSet d \<or> df_endpointSet d \<or> df_Method d \<noteq> [] \<or> df_Endpoint d \<noteq> [])
      then Some (ErrNew ''defaults.routes cannot be combined with defaults.method or defaults.endpoint'')
      else None)"

definition validateRoutingDeclarations :: "string \<Rightarrow> ScenarioDefaultsV2 \<Rightarrow> ScenarioEntryV2 \<Rightarrow> go_error option" where
  "validateRoutingDeclarations name d e =
     (case defaults_routes_conflict d of
        Some err \<Rightarrow> Some err
      | None \<Rightarrow>
          if entryHasRoutes e \<and> (ev_methodSet e \<or> ev_endpointSet e \<or> ev_Method e \<noteq> [] \<or> ev_Endpoint e \<noteq> [])
          then Some (ErrNew (''scenario '' @ go_Quote name @ '': routes cannot be combined with method or endpoint''))
          else
            (case (if defaultsHasRoutes d then validateRouteMap ''defaults.routes'' (the_routes (df_Routes d)) else None) of
               Some err \<Rightarrow> Some err
             | None \<Rightarrow>
                 if entryHasRoutes e
                 then validateRouteMap (''scenario '' @ go_Quote name @ '' routes'') (the_routes (ev_Routes e))
                 else None))"

definition validICAPMethods :: "string set" where
  "validICAPMethods = {MethodREQMOD, MethodRESPMOD, MethodOPTIONS}"

definition validateLegacyRouting :: "string \<Rightarrow> string list \<Rightarrow> string list \<Rightarrow> go_error + resolvedScenarioRouting" where
  "validateLegacyRouting name methods endpoints =
     (if methods = []
      then Inl (ErrNew (''scenario '' @ go_Quote name @ '': method is not set (provide defaults.method, scenario.method, or routes)''))
      else (case find (\<lambda>m. m \<notin> validICAPMethods) methods of
              Some m \<Rightarrow>
                Inl (ErrNew (''scenario '' @ go_Quote name @ '': invalid ICAP method '' @ go_Quote m @ '' (allowed: REQMOD, RESPMOD, OPTIONS)''))
            | None \<Rightarrow>
                if endpoints = []
                then Inl (ErrNew (''scenario '' @ go_Quote name @
                       '': endpoint is not set (provide defaults.endpoint, scenario.endpoint, or routes)''))
                else Inr \<lparr>rr_routes = [], rr_methods = methods, rr_endpoints = endpoints\<rparr>))"

fun select_methods :: "string \<Rightarrow> RouteMap \<Rightarrow> RouteMap \<Rightarrow> string list \<Rightarrow> go_error + RouteMap" where
  "select_methods name defaults selected [] = Inr selected"
| "select_methods name defaults selected (m # ms) =
     (case map_of defaults m of
        None \<Rightarrow>
          Inl (ErrNew (''scenario '' @ go_Quote name @ '': method '' @ go_Quote m @
            '' is not present in defaults.routes; add endpoint explicitly or declare the method in defaults.routes''))
      | Some es \<Rightarrow> select_methods name defaults (AList.update m es selected) ms)"

definition effective_routing :: "string \<Rightarrow> RouteMap \<Rightarrow> go_error + resolvedScenarioRouting" where
  "effective_routing name routes =
     (case validateRouteMap (''scenario '' @ go_Quote name @ '' effective routes'') routes of
        Some e \<Rightarrow> Inl e
      | None \<Rightarrow> Inr (routingFromRouteMap routes))"

definition selectDefaultRouteMethods :: "string \<Rightarrow> RouteMap \<Rightarrow> string list \<Rightarrow> go_error + resolvedScenarioRouting" where
  "selectDefaultRouteMethods name defaults methods = sbind (select_methods name defaults [] methods) (effective_routing name)"

definition replaceDefaultRouteEndpoints :: "string \<Rightarrow> RouteMap \<Rightarrow> string list \<Rightarrow> go_error + resolvedScenarioRouting" where
  "replaceDefaultRouteEndpoints name defaults endpoints =
     effective_routing name (map (\<lambda>m. (m, endpoints)) (orderedRouteMethods defaults))"

definition resolveFromDefaultRoutes :: "string \<Rightarrow> RouteMap \<Rightarrow> ScenarioEntryV2 \<Rightarrow> go_error + resolvedScenarioRouting" where
  "resolveFromDefaultRoutes name defaults e =
     (if ev_Method e = [] \<and> ev_Endpoint e = [] then Inr (routingFromRouteMap defaults)
      else if ev_Method e \<noteq> [] \<and> ev_Endpoint e \<noteq> [] then validateLegacyRouting name (ev_Method e) (ev_Endpoint e)
      else if ev_Method e \<noteq> [] then selectDefaultRouteMethods name defaults (ev_Method e)
      else replaceDefaultRouteEndpoints name defaults (ev_Endpoint e))"

definition resolveScenarioRouting :: "string \<Rightarrow> ScenarioDefaultsV2 \<Rightarrow> ScenarioEntryV2 \<Rightarrow> go_error + resolvedScenarioRouting" where
  "resolveScenarioRouting name d e =
     nofail (validateRoutingDeclarations name d e)
       (if entryHasRoutes e then Inr (routingFromRouteMap (the_routes (ev_Routes e)))
        else if defaultsHasRoutes d then resolveFromDefaultRoutes name (the_routes (df_Routes d)) e
        else validateLegacyRouting name (if ev_Method e \<noteq> [] then ev_Method e else df_Method d)
               (if ev_Endpoint e \<noteq> [] then ev_Endpoint e else df_Endpoint d))"

section \<open>Responses\<close>

definition empty_inline :: InlineResponseV2 where
  "empty_inline = \<lparr>il_Set = [], il_HTTPSet = [], il_Stream = None, il_Block = None, il_Use = [], il_Body = [], il_BodyFile = [],
     il_HTTPBody = [], il_HTTPBodyFile = [], il_Error = [], il_Delay = [], il_Status = 0, il_HTTPStatus = 0\<rparr>"

definition over :: "'a \<Rightarrow> 'a \<Rightarrow> 'a \<Rightarrow> 'a" where
  "over zero base overlay = (if overlay \<noteq> zero then overlay else base)"

definition mergeInline :: "InlineResponseV2 \<Rightarrow> InlineResponseV2 \<Rightarrow> InlineResponseV2" where
  "mergeInline base ov =
     base\<lparr>il_Status := over 0 (il_Status base) (il_Status ov), il_HTTPStatus := over 0 (il_HTTPStatus base) (il_HTTPStatus ov),
          il_Body := over [] (il_Body base) (il_Body ov), il_BodyFile := over [] (il_BodyFile base) (il_BodyFile ov),
          il_HTTPBody := over [] (il_HTTPBody base) (il_HTTPBody ov),
          il_HTTPBodyFile := over [] (il_HTTPBodyFile base) (il_HTTPBodyFile ov),
          il_Error := over [] (il_Error base) (il_Error ov), il_Delay := over [] (il_Delay base) (il_Delay ov),
          il_Stream := over None (il_Stream base) (il_Stream ov), il_Block := over None (il_Block base) (il_Block ov),
          il_Set := (if il_Set ov \<noteq> [] then mergeHeaders (il_Set base) (il_Set ov) else il_Set base),
          il_HTTPSet := (if il_HTTPSet ov \<noteq> [] then mergeHeaders (il_HTTPSet base) (il_HTTPSet ov) else il_HTTPSet base)\<rparr>"

definition isEmptyInlineExceptUse :: "InlineResponseV2 \<Rightarrow> bool" where
  "isEmptyInlineExceptUse i \<longleftrightarrow>
     il_Status i = 0 \<and> il_HTTPStatus i = 0 \<and> il_Body i = [] \<and> il_BodyFile i = [] \<and> il_HTTPBody i = [] \<and> il_HTTPBodyFile i = [] \<and>
     il_Error i = [] \<and> il_Delay i = [] \<and> il_Block i = None \<and> il_Stream i = None \<and> il_Set i = [] \<and> il_HTTPSet i = []"

definition isEmptyInline :: "InlineResponseV2 \<Rightarrow> bool" where
  "isEmptyInline i \<longleftrightarrow> il_Use i = [] \<and> isEmptyInlineExceptUse i"

definition inlineToTemplate ::
  "timelib \<Rightarrow> string \<Rightarrow> InlineResponseV2 \<Rightarrow> (string \<times> string) list \<Rightarrow> int \<Rightarrow> int \<Rightarrow> go_error + ResponseTemplate" where
  "inlineToTemplate tm place i defHeaders defStatus defHTTPStatus =
     (let status = (if il_Status i = 0 then defStatus else il_Status i);
          status = (if status = 0 then 204 else status);
          resp = empty_response\<lparr>rp_ICAPStatus := status,
            rp_HTTPStatus := (if il_HTTPStatus i = 0 then defHTTPStatus else il_HTTPStatus i),
            rp_Headers := mergeHeaders defHeaders (il_Set i), rp_HTTPHeaders := il_HTTPSet i, rp_Stream := il_Stream i,
            rp_Block := il_Block i, rp_Body := il_Body i, rp_BodyFile := il_BodyFile i, rp_HTTPBody := il_HTTPBody i,
            rp_HTTPBodyFile := il_HTTPBodyFile i, rp_Error := il_Error i\<rparr>
      in if il_Delay i = [] then Inr resp
         else (case ParseDelay tm (il_Delay i) of
                 Inl e \<Rightarrow> Inl (ErrWrap (place @ '' delay: '') e)
               | Inr dc \<Rightarrow> Inr (resp\<lparr>rp_Delay := dl_Min dc, rp_DelayRange := Some dc\<rparr>)))"

definition validateV2WeightTotal :: "string \<Rightarrow> WeightedResponseV2 list \<Rightarrow> go_error option" where
  "validateV2WeightTotal place variants =
     (case validateRuntimeWeightTotal (Some (map w2_Weight variants)) of
        None \<Rightarrow> None
      | Some NoVariants \<Rightarrow> Some (ErrNew (place @ '': responses must contain at least one variant''))
      | Some e \<Rightarrow> Some (weight_error_text place e))"

definition variant_inline :: "WeightedResponseV2 \<Rightarrow> InlineResponseV2" where
  "variant_inline w =
     \<lparr>il_Set = w2_Set w, il_HTTPSet = w2_HTTPSet w, il_Stream = w2_Stream w, il_Block = w2_Block w, il_Use = w2_Use w,
      il_Body = w2_Body w, il_BodyFile = [], il_HTTPBody = w2_HTTPBody w, il_HTTPBodyFile = w2_HTTPBodyFile w,
      il_Error = w2_Error w, il_Delay = w2_Delay w, il_Status = w2_Status w, il_HTTPStatus = w2_HTTPStatus w\<rparr>"

definition selectedResponseName :: "string \<Rightarrow> string \<Rightarrow> string" where
  "selectedResponseName variantName baseName = (if variantName \<noteq> [] then variantName else baseName)"

definition weighted_response :: "WeightedResponseV2 \<Rightarrow> string \<Rightarrow> ResponseTemplate \<Rightarrow> WeightedResponse" where
  "weighted_response w baseName tpl =
     \<lparr>wr_Headers = rp_Headers tpl, wr_HTTPHeaders = rp_HTTPHeaders tpl, wr_Stream = rp_Stream tpl, wr_Block = rp_Block tpl,
      wr_ResponseName = selectedResponseName (w2_Use w) baseName, wr_Body = rp_Body tpl, wr_BodyFile = rp_BodyFile tpl,
      wr_HTTPBody = rp_HTTPBody tpl, wr_HTTPBodyFile = rp_HTTPBodyFile tpl, wr_Error = rp_Error tpl,
      wr_Delay = (case rp_DelayRange tpl of None \<Rightarrow> \<lparr>dl_Min = 0, dl_Max = 0, dl_IsRange = False\<rparr> | Some d \<Rightarrow> d),
      wr_Weight = w2_Weight w, wr_ICAPStatus = rp_ICAPStatus tpl, wr_HTTPStatus = rp_HTTPStatus tpl\<rparr>"

text \<open>What a block without variants of its own resolves to: a response, or the variants of the weighted template it names.\<close>

datatype resolution = Concrete ResponseTemplate | VariantsOf string "WeightedResponseV2 list"

definition use_reference :: "ScenarioDefaultsV2 \<Rightarrow> InlineResponseV2 \<Rightarrow> string" where
  "use_reference d i = (if il_Use i = [] \<and> df_Use d \<noteq> [] \<and> isEmptyInline i then df_Use d else il_Use i)"

definition resolve_single :: "timelib \<Rightarrow> ScenarioDefaultsV2 \<Rightarrow> string \<Rightarrow> InlineResponseV2 \<Rightarrow> go_error + resolution" where
  "resolve_single tm d place i =
     (let useRef = use_reference d i;
          finish = (\<lambda>base. sbind (inlineToTemplate tm place (mergeInline base i) (df_Headers d) (df_Status d) (df_HTTPStatus d))
                             (\<lambda>t. Inr (Concrete (t\<lparr>rp_ResponseName := useRef\<rparr>))))
      in if useRef = [] then finish empty_inline
         else (case map_of (df_ResponseTemplates d) useRef of
                 None \<Rightarrow>
                   Inl (ErrNew (place @ '': use '' @ go_Quote useRef @ '': template is not defined in defaults.response_templates''))
               | Some t \<Rightarrow>
                   (case rt_Inline t of
                      Some base \<Rightarrow>
                        if il_Use base \<noteq> []
                        then Inl (ErrNew (place @ '': template '' @ go_Quote useRef @
                               '' itself contains use: '' @ em_dash @ '' templates cannot reference other templates''))
                        else finish base
                    | None \<Rightarrow>
                        (case rt_Weighted t of
                           None \<Rightarrow> finish empty_inline
                         | Some ws \<Rightarrow>
                             if \<not> isEmptyInlineExceptUse i
                             then Inl (ErrNew (place @ '': use '' @ go_Quote useRef @
                                    '' points to a weighted template; inline overrides on the same level are not allowed''))
                             else Inr (VariantsOf useRef ws)))))"

definition variant_place :: "string \<Rightarrow> nat \<Rightarrow> string" where
  "variant_place place i = place @ '' variant #'' @ go_Itoa (int i)"

definition variant_block :: "InlineResponseV2 \<Rightarrow> WeightedResponseV2 \<Rightarrow> InlineResponseV2" where
  "variant_block base w = (if w2_Use w = [] then mergeInline base (variant_inline w) else variant_inline w)"

definition nested_error :: "string \<Rightarrow> go_error" where
  "nested_error place = ErrNew (place @ '': a weighted variant cannot itself resolve to a weighted set'')"

partial_function (option) build_variants ::
  "timelib \<Rightarrow> ScenarioDefaultsV2 \<Rightarrow> string \<Rightarrow> InlineResponseV2 \<Rightarrow> string \<Rightarrow> nat \<Rightarrow> WeightedResponseV2 list \<Rightarrow>
   (go_error + WeightedResponse list) option" where
  "build_variants tm d place base baseName i ws =
     (case ws of
        [] \<Rightarrow> Some (Inr [])
      | w # ws' \<Rightarrow>
          Option.bind
            (case resolve_single tm d (variant_place place i) (variant_block base w) of
               Inl e \<Rightarrow> Some (Inl e)
             | Inr (Concrete t) \<Rightarrow> Some (Inr t)
             | Inr (VariantsOf name vs) \<Rightarrow>
                 (case validateV2WeightTotal (variant_place place i) vs of
                    Some e \<Rightarrow> Some (Inl e)
                  | None \<Rightarrow>
                      Option.bind (build_variants tm d (variant_place place i) empty_inline name 1 vs)
                        (\<lambda>r. Some (case r of
                           Inl e \<Rightarrow> Inl e
                         | Inr nested \<Rightarrow> if nested \<noteq> [] then Inl (nested_error (variant_place place i))
                                        else Inr (empty_response\<lparr>rp_ICAPStatus := 204\<rparr>)))))
            (\<lambda>r. case r of
               Inl e \<Rightarrow> Some (Inl e)
             | Inr t \<Rightarrow>
                 Option.bind (build_variants tm d place base baseName (i + 1) ws')
                   (\<lambda>r'. Some (sbind r' (\<lambda>out. Inr (weighted_response w baseName t # out))))))"

declare build_variants.simps [code]

definition buildWeightedList ::
  "timelib \<Rightarrow> ScenarioDefaultsV2 \<Rightarrow> string \<Rightarrow> WeightedResponseV2 list \<Rightarrow> InlineResponseV2 \<Rightarrow> string \<Rightarrow>
   (go_error + WeightedResponse list) option" where
  "buildWeightedList tm d place variants base baseName =
     (case validateV2WeightTotal place variants of
        Some e \<Rightarrow> Some (Inl e)
      | None \<Rightarrow> build_variants tm d place base baseName 1 variants)"

type_synonym resolved = "(go_error + ResponseTemplate \<times> WeightedResponse list option) option"

definition weighted_result :: "(go_error + WeightedResponse list) option \<Rightarrow> resolved" where
  "weighted_result r = map_option (map_sum id (\<lambda>out. (empty_response\<lparr>rp_ICAPStatus := 204\<rparr>, Some out))) r"

definition resolveResponse ::
  "timelib \<Rightarrow> ScenarioDefaultsV2 \<Rightarrow> string \<Rightarrow> InlineResponseV2 \<Rightarrow> WeightedResponseV2 list option \<Rightarrow> resolved" where
  "resolveResponse tm d place i weighted =
     (case weighted of
        Some ws \<Rightarrow>
          if ws = [] then Some (Inl (ErrNew (place @ '': responses must contain at least one weighted variant'')))
          else if il_Use i \<noteq> []
          then Some (Inl (ErrNew (place @ '': responses cannot be combined with use: on the same level'')))
          else weighted_result (buildWeightedList tm d place ws i [])
      | None \<Rightarrow>
          (case resolve_single tm d place i of
             Inl e \<Rightarrow> Some (Inl e)
           | Inr (Concrete t) \<Rightarrow> Some (Inr (t, None))
           | Inr (VariantsOf name vs) \<Rightarrow> weighted_result (buildWeightedList tm d place vs empty_inline name)))"

section \<open>Scenarios\<close>

definition with_conditions :: "HeaderMatchesV2 \<Rightarrow> WhenHTTPV2 option \<Rightarrow> MatchRule \<Rightarrow> MatchRule" where
  "with_conditions when whenHTTP r =
     (let r1 = r\<lparr>mr_Headers := fst (splitHeaderMatches when), HeaderContains := snd (splitHeaderMatches when)\<rparr> in
      case whenHTTP of
        None \<Rightarrow> r1
      | Some h \<Rightarrow> r1\<lparr>HTTPHeaders := fst (splitHeaderMatches (wh_Headers h)), HTTPHeaderContains := snd (splitHeaderMatches (wh_Headers h)),
                     HTTPURL := wh_URL h, HTTPMethod := wh_Method h\<rparr>)"

definition branch_place :: "string \<Rightarrow> nat \<Rightarrow> string" where
  "branch_place name i = ''scenario '' @ go_Quote name @ '', branch #'' @ go_Itoa (int i)"

fun buildBranches :: "timelib \<Rightarrow> ScenarioDefaultsV2 \<Rightarrow> string \<Rightarrow> nat \<Rightarrow> BranchV2 list \<Rightarrow> (go_error + 're Branch list) option" where
  "buildBranches tm d name i [] = Some (Inr [])"
| "buildBranches tm d name i (b # bs) =
     (case resolveResponse tm d (branch_place name i) (InlineResponseV2.truncate b) (bv_Responses b) of
        None \<Rightarrow> None
      | Some (Inl e) \<Rightarrow> Some (Inl e)
      | Some (Inr (resp, weighted)) \<Rightarrow>
          map_option (\<lambda>r. sbind r (\<lambda>out. Inr
            (\<lparr>c_Match = with_conditions (bv_When b) (bv_WhenHTTP b) no_rule, c_compiledHeaders = [], c_compiledHeaderLists = [],
              c_compiledHTTPHeaders = [], c_compiledHTTPLists = [], c_compiledHTTPURL = None, b_WeightedResponses = weighted,
              b_Response = resp\<rparr> # out)))
            (buildBranches tm d name (i + 1) bs))"

definition resolveScenarioResponse :: "timelib \<Rightarrow> ScenarioDefaultsV2 \<Rightarrow> string \<Rightarrow> ScenarioEntryV2 \<Rightarrow> resolved" where
  "resolveScenarioResponse tm d name e =
     resolveResponse tm d (''scenario '' @ name) (InlineResponseV2.truncate e) (ev_Responses e)"

definition has_inline :: "ScenarioEntryV2 \<Rightarrow> bool" where
  "has_inline e \<longleftrightarrow>
     il_Status e \<noteq> 0 \<or> il_HTTPStatus e \<noteq> 0 \<or> il_Body e \<noteq> [] \<or> il_BodyFile e \<noteq> [] \<or> il_Error e \<noteq> [] \<or> il_Delay e \<noteq> [] \<or>
     ev_Responses e \<noteq> None \<or> il_Use e \<noteq> [] \<or> il_Stream e \<noteq> None \<or> il_Block e \<noteq> None"

definition basePriority :: int where "basePriority = 1000"

definition convert_entry ::
  "timelib \<Rightarrow> ScenarioDefaultsV2 \<Rightarrow> nat \<Rightarrow> nat \<Rightarrow> string \<Rightarrow> ScenarioEntryV2 \<Rightarrow> (go_error + ('re, 'net) Scenario) option" where
  "convert_entry tm d addr i name e =
     (case resolveScenarioRouting name d e of
        Inl err \<Rightarrow> Some (Inl err)
      | Inr routing \<Rightarrow>
          if ev_Branches e \<noteq> [] \<and> has_inline e
          then Some (Inl (ErrNew (''scenario '' @ go_Quote name @
                 '': branches cannot be combined with scenario-level response fields (status/body/use/responses/...) on the same level '' @
                 em_dash @ '' move the fallback into an explicit catch-all branch'')))
          else
            (let priority = (if ev_Priority e = 0 then basePriority - int i else ev_Priority e);
                 rule = with_conditions (ev_When e) (ev_WhenHTTP e)
                   (no_rule\<lparr>Routes := rr_routes routing, Methods := rr_methods routing, Paths := rr_endpoints routing\<rparr>);
                 s = plain_scenario name rule addr priority
             in if ev_Branches e \<noteq> []
                then map_option (\<lambda>r. sbind r (\<lambda>bs. Inr (s\<lparr>s_Branches := bs\<rparr>))) (buildBranches tm d name 1 (ev_Branches e))
                else map_option (\<lambda>r. sbind r (\<lambda>(resp, weighted). Inr (s\<lparr>s_Response := resp, s_WeightedResponses := weighted\<rparr>)))
                       (resolveScenarioResponse tm d name e)))"

fun convert_entries ::
  "timelib \<Rightarrow> ScenarioFileV2 \<Rightarrow> nat \<Rightarrow> nat \<Rightarrow> string list \<Rightarrow> (go_error + ('re, 'net) Scenario list) option" where
  "convert_entries tm file addr i [] = Some (Inr [])"
| "convert_entries tm file addr i (name # names) =
     (case map_of (f2_Scenarios file) name of
        None \<Rightarrow> convert_entries tm file addr (i + 1) names
      | Some e \<Rightarrow>
          (case convert_entry tm (f2_Defaults file) (addr + i) i name e of
             None \<Rightarrow> None
           | Some (Inl err) \<Rightarrow> Some (Inl err)
           | Some (Inr s) \<Rightarrow> map_option (\<lambda>r. sbind r (\<lambda>ss. Inr (s # ss))) (convert_entries tm file addr (i + 1) names)))"

definition containsScenarioNamed :: "('re, 'net) Scenario list \<Rightarrow> string \<Rightarrow> bool" where
  "containsScenarioNamed ss name \<longleftrightarrow> (\<exists>s \<in> set ss. s_Name s = name)"

definition buildDefaultsUseFallbackScenario ::
  "timelib \<Rightarrow> ScenarioDefaultsV2 \<Rightarrow> nat \<Rightarrow> (go_error + ('re, 'net) Scenario) option" where
  "buildDefaultsUseFallbackScenario tm d addr =
     map_option (\<lambda>r. sbind r (\<lambda>(resp, weighted).
       Inr ((plain_scenario defaultScenarioName no_rule addr (-1))\<lparr>s_Response := resp, s_WeightedResponses := weighted\<rparr>)))
       (resolveResponse tm d ''defaults.use fallback'' (empty_inline\<lparr>il_Use := df_Use d\<rparr>) None)"

fun check_templates :: "(string \<times> ResponseTemplateV2) list \<Rightarrow> go_error option" where
  "check_templates [] = None"
| "check_templates ((name, t) # ts) =
     (case rt_Weighted t of
        None \<Rightarrow> check_templates ts
      | Some ws \<Rightarrow> (case validateV2WeightTotal (''response template '' @ name) ws of Some e \<Rightarrow> Some e | None \<Rightarrow> check_templates ts))"

definition defaults_error :: "ScenarioDefaultsV2 \<Rightarrow> go_error option" where
  "defaults_error d =
     (case defaults_routes_conflict d of
        Some e \<Rightarrow> Some e
      | None \<Rightarrow>
          (case (if defaultsHasRoutes d then validateRouteMap ''defaults.routes'' (the_routes (df_Routes d)) else None) of
             Some e \<Rightarrow> Some e
           | None \<Rightarrow>
               if df_Use d \<noteq> [] \<and> map_of (df_ResponseTemplates d) (df_Use d) = None
               then Some (ErrNew (''defaults.use: template '' @ go_Quote (df_Use d) @ '' is not defined in defaults.response_templates''))
               else check_templates (df_ResponseTemplates d)))"

definition ConvertV2ToScenarios ::
  "timelib \<Rightarrow> nat \<Rightarrow> ScenarioFileV2 option \<Rightarrow> string list \<Rightarrow> (go_error + ('re, 'net) Scenario list) option" where
  "ConvertV2ToScenarios tm addr filep orderedNames =
     (case filep of
        None \<Rightarrow> Some (Inl (ErrNew ''nil ScenarioFileV2''))
      | Some file \<Rightarrow>
          (case defaults_error (f2_Defaults file) of
             Some e \<Rightarrow> Some (Inl e)
           | None \<Rightarrow>
               (case convert_entries tm file addr 0 orderedNames of
                  None \<Rightarrow> None
                | Some (Inl e) \<Rightarrow> Some (Inl e)
                | Some (Inr ss) \<Rightarrow>
                    if df_Use (f2_Defaults file) \<noteq> [] \<and> \<not> containsScenarioNamed ss defaultScenarioName
                    then map_option (\<lambda>r. sbind r (\<lambda>fallback. Inr (ss @ [fallback])))
                           (buildDefaultsUseFallbackScenario tm (f2_Defaults file) (addr + length orderedNames))
                    else Some (Inr ss))))"


section \<open>Recursion through the templates\<close>

definition weighted_template :: "ScenarioDefaultsV2 \<Rightarrow> string \<Rightarrow> WeightedResponseV2 list \<Rightarrow> bool" where
  "weighted_template d n ws \<longleftrightarrow>
     (\<exists>t. map_of (df_ResponseTemplates d) n = Some t \<and> rt_Inline t = None \<and> rt_Weighted t = Some ws)"

text \<open>The weighted template that a block leads to.\<close>

definition leads_to :: "ScenarioDefaultsV2 \<Rightarrow> InlineResponseV2 \<Rightarrow> string \<Rightarrow> bool" where
  "leads_to d i n \<longleftrightarrow> use_reference d i = n \<and> n \<noteq> [] \<and> (\<exists>ws. weighted_template d n ws)"

lemma resolve_single_variants:
  "resolve_single tm d place i = Inr (VariantsOf n ws) \<Longrightarrow> leads_to d i n \<and> weighted_template d n ws"
  by (auto simp: resolve_single_def Let_def sbind_Inr leads_to_def weighted_template_def split: if_splits option.splits)

lemma build_nil [simp]: "build_variants tm d place base bn i [] = Some (Inr [])"
  by (simp add: build_variants.simps)

lemma over_zero [simp]: "over z z x = x"
  by (simp add: over_def)

lemma mergeHeaders_empty_iff: "mergeHeaders base kvs = [] \<longleftrightarrow> base = [] \<and> kvs = []"
proof -
  have ne: "AList.update k v m \<noteq> []" for k v and m :: "(string \<times> string) list"
    by (cases m) (simp_all split: prod.split)
  have keep: "fold (\<lambda>(k, v) m. AList.update k v m) kvs base = [] \<longleftrightarrow> base = [] \<and> kvs = []" for kvs and base :: "(string \<times> string) list"
    by (induction kvs arbitrary: base) (simp_all add: ne split: prod.split)
  show ?thesis unfolding mergeHeaders_def by (rule keep)
qed

lemma merged_empty_iff: "isEmptyInlineExceptUse (mergeInline empty_inline i) = isEmptyInlineExceptUse i"
  by (simp add: isEmptyInlineExceptUse_def mergeInline_def empty_inline_def mergeHeaders_empty_iff)

lemma variant_block_use:
  "use_reference d (variant_block empty_inline w) = use_reference d (variant_inline w)"
proof (cases "w2_Use w = []")
  case True
  then have "il_Use (variant_inline w) = []" by (simp add: variant_inline_def)
  moreover have "il_Use (mergeInline empty_inline i) = []" for i by (simp add: mergeInline_def empty_inline_def)
  ultimately show ?thesis
    using True by (simp add: use_reference_def variant_block_def isEmptyInline_def merged_empty_iff)
qed (simp add: variant_block_def)

text \<open>\<open>height\<close> falls from every weighted template to those that its variants lead to.\<close>

definition leveled :: "ScenarioDefaultsV2 \<Rightarrow> (string \<Rightarrow> nat) \<Rightarrow> bool" where
  "leveled d height \<longleftrightarrow> (\<forall>n ws w m. weighted_template d n ws \<and> w \<in> set ws \<and> leads_to d (variant_inline w) m \<longrightarrow> height m < height n)"

lemma build_variants_returns:
  assumes "leveled d height" "\<forall>w \<in> set ws. \<forall>m. leads_to d (variant_block base w) m \<longrightarrow> height m < k"
  shows "build_variants tm d place base bn i ws \<noteq> None"
  using assms(2)
proof (induction k arbitrary: place base bn i ws rule: less_induct)
  case (less k)
  show ?case using less.prems
  proof (induction ws arbitrary: i)
    case (Cons w ws)
    let ?p = "variant_place place i"
    have rest: "build_variants tm d place base bn (i + 1) ws \<noteq> None" using Cons by simp
    have nested: "build_variants tm d ?p empty_inline n 1 vs \<noteq> None"
      if "resolve_single tm d ?p (variant_block base w) = Inr (VariantsOf n vs)" for n vs
    proof -
      have n: "leads_to d (variant_block base w) n" "weighted_template d n vs" using resolve_single_variants [OF that] by auto
      show ?thesis
      proof (rule less.IH)
        show "height n < k" using Cons.prems n by simp
        show "\<forall>v \<in> set vs. \<forall>m. leads_to d (variant_block empty_inline v) m \<longrightarrow> height m < height n"
          using assms(1) n(2) unfolding leveled_def leads_to_def variant_block_use by blast
      qed
    qed
    show ?case
      using rest nested by (subst build_variants.simps) (auto split: sum.splits resolution.splits option.splits)
  qed simp
qed

lemma resolve_returns:
  assumes "leveled d height"
  shows "resolveResponse tm d place i weighted \<noteq> None"
proof -
  obtain k where k: "\<And>n ws. weighted_template d n ws \<Longrightarrow> height n < k"
  proof -
    have "finite {n. \<exists>ws. weighted_template d n ws}"
      by (rule finite_subset [of _ "set (map fst (df_ResponseTemplates d))"])
        (auto simp: weighted_template_def dest: map_of_SomeD intro: rev_image_eqI)
    then have "finite (height ` {n. \<exists>ws. weighted_template d n ws})" by simp
    then obtain k where "\<forall>x \<in> height ` {n. \<exists>ws. weighted_template d n ws}. x < k" using finite_nat_set_iff_bounded by blast
    then show thesis using that by blast
  qed
  have "build_variants tm d p base bn j ws \<noteq> None" for p base bn j ws
    by (rule build_variants_returns [OF assms]) (use k in \<open>auto simp: leads_to_def\<close>)
  then show ?thesis
    by (auto simp: resolveResponse_def weighted_result_def buildWeightedList_def split: option.splits sum.splits resolution.splits)
qed

lemma branches_return: "leveled d height \<Longrightarrow> buildBranches tm d name i bs \<noteq> None"
  by (induction bs arbitrary: i) (auto split: option.splits sum.splits simp: resolve_returns)

lemma convert_entry_returns: "leveled d height \<Longrightarrow> convert_entry tm d addr i name e \<noteq> None"
  using branches_return resolve_returns
  by (fastforce simp: convert_entry_def Let_def resolveScenarioResponse_def split: sum.splits)

lemma convert_entries_return: "leveled (f2_Defaults file) height \<Longrightarrow> convert_entries tm file addr i names \<noteq> None"
  by (induction names arbitrary: i) (auto split: option.splits sum.splits simp: convert_entry_returns)

text \<open>
  C25: \<^bold>\<open>Converting a file returns.\<close>  If the variants of the weighted templates lead to other weighted templates only along a falling
  height, directly by \<open>use\<close> or through \<open>defaults.use\<close> for an empty variant, then \<open>ConvertV2ToScenarios\<close> returns for every file with
  these defaults, with scenarios or with an error.
\<close>

theorem v2_conversion_returns:
  assumes "leveled (f2_Defaults file) height"
  shows "\<exists>r. (ConvertV2ToScenarios tm addr (Some file) names :: (go_error + ('re, 'net) Scenario list) option) = Some r"
proof -
  have fb: "buildDefaultsUseFallbackScenario tm (f2_Defaults file) a \<noteq> (None :: (go_error + ('re, 'net) Scenario) option)" for a
    using resolve_returns [OF assms] by (fastforce simp: buildDefaultsUseFallbackScenario_def)
  have ce: "convert_entries tm file addr 0 names \<noteq> (None :: (go_error + ('re, 'net) Scenario list) option)"
    by (rule convert_entries_return [OF assms])
  have "(ConvertV2ToScenarios tm addr (Some file) names :: (go_error + ('re, 'net) Scenario list) option) \<noteq> None"
    using ce fb by (auto simp: ConvertV2ToScenarios_def split: option.splits sum.splits)
  then show ?thesis by blast
qed

text \<open>
  Weighted templates whose first variants lead to each other, with weights that are accepted: the \<open>use\<close> of the first
  variant of each names again one of them.  Such a ring is entered and never left.
\<close>

definition first_leads :: "string list \<Rightarrow> ResponseTemplateV2 \<Rightarrow> bool" where
  "first_leads ns t \<longleftrightarrow> rt_Inline t = None \<and>
     (case rt_Weighted t of
        Some (w # ws) \<Rightarrow> w2_Use w \<in> set ns \<and> isEmptyInlineExceptUse (variant_inline w) \<and>
          validateRuntimeWeightTotal (Some (map w2_Weight (w # ws))) = None
      | _ \<Rightarrow> False)"

definition closed_ring :: "(string \<times> ResponseTemplateV2) list \<Rightarrow> bool" where
  "closed_ring ring \<longleftrightarrow> list_all (\<lambda>(n, t). n \<noteq> [] \<and> first_leads (map fst ring) t) ring"

lemma validateV2WeightTotal_None:
  "validateV2WeightTotal p ws = None \<longleftrightarrow> validateRuntimeWeightTotal (Some (map w2_Weight ws)) = None"
  by (auto simp: validateV2WeightTotal_def split: option.splits weight_total_error.splits)

lemma first_leadsE:
  assumes "first_leads ns t"
  obtains w ws where "rt_Inline t = None" "rt_Weighted t = Some (w # ws)" "w2_Use w \<in> set ns"
    "isEmptyInlineExceptUse (variant_inline w)" "\<forall>p. validateV2WeightTotal p (w # ws) = None"
  using assms by (auto simp: first_leads_def validateV2WeightTotal_None split: option.splits list.splits)

lemma check_templates_append:
  "check_templates (ts @ us) = (case check_templates ts of Some e \<Rightarrow> Some e | None \<Rightarrow> check_templates us)"
  by (induction ts rule: check_templates.induct) (auto split: option.splits)

lemma ring_checked: "list_all (\<lambda>(n, t). n \<noteq> [] \<and> first_leads ns t) ring \<Longrightarrow> check_templates ring = None"
  by (induction ring rule: check_templates.induct) (auto elim!: first_leadsE)

lemma ring_template:
  assumes "closed_ring ring" "n \<in> set (map fst ring)"
  obtains t where "map_of ring n = Some t" "n \<noteq> []" "first_leads (map fst ring) t"
proof -
  obtain t where t: "map_of ring n = Some t" using assms(2) by (metis image_set map_of_eq_None_iff option.exhaust)
  then have "(n, t) \<in> set ring" by (rule map_of_SomeD)
  then show thesis using assms(1) that [OF t] by (auto simp: closed_ring_def list_all_iff)
qed

lemma ring_overflows:
  assumes ring: "closed_ring ring" and d: "df_ResponseTemplates d = ring @ rest"
    and n: "n \<in> set (map fst ring)" "weighted_template d n vs"
  shows "build_variants tm d place empty_inline n i vs = None"
proof -
  have tpl: "\<exists>w ws. us = w # ws \<and> w2_Use w \<in> set (map fst ring) \<and> (\<forall>p. validateV2WeightTotal p us = None) \<and>
      (\<exists>us'. weighted_template d (w2_Use w) us' \<and>
         (\<forall>p. resolve_single tm d p (variant_block empty_inline w) = Inr (VariantsOf (w2_Use w) us')) \<and>
         (\<forall>p. validateV2WeightTotal p us' = None))"
    if m: "m \<in> set (map fst ring)" "weighted_template d m us" for m us
  proof -
    obtain t where t: "map_of ring m = Some t" "first_leads (map fst ring) t" using ring_template [OF ring m(1)] by blast
    obtain w ws where w: "rt_Inline t = None" "rt_Weighted t = Some (w # ws)" "w2_Use w \<in> set (map fst ring)"
        "isEmptyInlineExceptUse (variant_inline w)" "\<forall>p. validateV2WeightTotal p (w # ws) = None"
      using t(2) by (rule first_leadsE)
    obtain t' where t': "map_of ring (w2_Use w) = Some t'" "w2_Use w \<noteq> []" "first_leads (map fst ring) t'"
      using ring_template [OF ring w(3)] by blast
    obtain w' ws' where w': "rt_Inline t' = None" "rt_Weighted t' = Some (w' # ws')"
        "\<forall>p. validateV2WeightTotal p (w' # ws') = None"
      using t'(3) by (rule first_leadsE)
    have "us = w # ws" using m(2) t(1) w(2) by (auto simp: weighted_template_def d map_add_def)
    moreover have "weighted_template d (w2_Use w) (w' # ws')" using t' w' by (simp add: weighted_template_def d map_add_def)
    moreover have "use_reference d (variant_inline w) = w2_Use w" using t'(2) by (simp add: use_reference_def variant_inline_def)
    then have "resolve_single tm d p (variant_block empty_inline w) = Inr (VariantsOf (w2_Use w) (w' # ws'))" for p
      using t' w' w(4) by (simp add: resolve_single_def variant_block_def Let_def d map_add_def)
    ultimately show ?thesis using w w'(3) by auto
  qed
  let ?in = "\<lambda>us. \<exists>m. m \<in> set (map fst ring) \<and> weighted_template d m us"
  have "\<not> (tm' = tm \<and> d' = d \<and> base = empty_inline \<and> ?in vs)"
    if "build_variants tm' d' place base bn i vs = Some r" for tm' d' place base bn i vs r
  proof (rule build_variants.raw_induct [rotated, OF that], intro notI, elim conjE)
    fix build :: "timelib \<Rightarrow> ScenarioDefaultsV2 \<Rightarrow> string \<Rightarrow> InlineResponseV2 \<Rightarrow> string \<Rightarrow> nat \<Rightarrow> WeightedResponseV2 list \<Rightarrow>
        (go_error + WeightedResponse list) option"
      and tm' d' place base bn i vs r
    assume IH: "\<And>tm' d' place base bn i vs r. build tm' d' place base bn i vs = Some r \<Longrightarrow>
        \<not> (tm' = tm \<and> d' = d \<and> base = empty_inline \<and> ?in vs)"
      and eqs: "tm' = tm" "d' = d" "base = empty_inline" and vs: "?in vs"
    obtain w ws us' where step: "vs = w # ws" "w2_Use w \<in> set (map fst ring)" "weighted_template d (w2_Use w) us'"
        "\<And>p. resolve_single tm d p (variant_block empty_inline w) = Inr (VariantsOf (w2_Use w) us')"
        "\<And>p. validateV2WeightTotal p us' = None"
      using vs tpl by metis
    then have "build tm d (variant_place place i) empty_inline (w2_Use w) 1 us' = None" using IH by fastforce
    moreover assume "(case vs of [] \<Rightarrow> Some (Inr []) | w # ws' \<Rightarrow>
          Option.bind
            (case resolve_single tm' d' (variant_place place i) (variant_block base w) of
               Inl e \<Rightarrow> Some (Inl e)
             | Inr (Concrete t) \<Rightarrow> Some (Inr t)
             | Inr (VariantsOf name vs) \<Rightarrow>
                 (case validateV2WeightTotal (variant_place place i) vs of
                    Some e \<Rightarrow> Some (Inl e)
                  | None \<Rightarrow>
                      Option.bind (build tm' d' (variant_place place i) empty_inline name 1 vs)
                        (\<lambda>r. Some (case r of
                           Inl e \<Rightarrow> Inl e
                         | Inr nested \<Rightarrow> if nested \<noteq> [] then Inl (nested_error (variant_place place i))
                                        else Inr (empty_response\<lparr>rp_ICAPStatus := 204\<rparr>)))))
            (\<lambda>r. case r of
               Inl e \<Rightarrow> Some (Inl e)
             | Inr t \<Rightarrow>
                 Option.bind (build tm' d' place base bn (i + 1) ws')
                   (\<lambda>r'. Some (sbind r' (\<lambda>out. Inr (weighted_response w bn t # out)))))) = Some r"
    ultimately show False by (simp add: eqs step)
  qed
  then show ?thesis using n by (metis option.exhaust)
qed


section \<open>What a converted file looks like\<close>

subsection \<open>Routing\<close>

definition routing_ok :: "resolvedScenarioRouting \<Rightarrow> bool" where
  "routing_ok r \<longleftrightarrow> rr_methods r \<noteq> [] \<and> set (rr_methods r) \<subseteq> validICAPMethods \<and> rr_endpoints r \<noteq> [] \<and>
     (rr_routes r \<noteq> [] \<longrightarrow> (\<forall>place. validateRouteMap place (rr_routes r) = None) \<and> rr_methods r = orderedRouteMethods (rr_routes r) \<and>
        set (rr_endpoints r) = (\<Union>m \<in> set (rr_methods r). set (route_list (rr_routes r) m)))"

lemma unique_endpoints_set: "set (unique_endpoints seen es) = set es - set seen"
  by (induction seen es rule: unique_endpoints.induct) auto

lemma endpoints_error_None:
  "endpoints_error p seen es = None \<longleftrightarrow> distinct es \<and> set es \<inter> set seen = {} \<and> (\<forall>e \<in> set es. go_TrimSpace e \<noteq> [])"
  by (induction es arbitrary: seen) auto

lemma validateRouteMap_None_iff:
  "validateRouteMap p routes = None \<longleftrightarrow>
     routes \<noteq> [] \<and> (\<forall>m \<in> fst ` set routes. m \<in> {MethodREQMOD, MethodRESPMOD} \<and>
       (\<exists>es. map_of routes m = Some es \<and> es \<noteq> [] \<and> distinct es \<and> (\<forall>e \<in> set es. go_TrimSpace e \<noteq> [])))"
proof -
  have "(case map_of routes m of
           Some (e # es) \<Rightarrow> endpoints_error (p @ ''.'' @ m) [] (e # es)
         | _ \<Rightarrow> Some (ErrNew (p @ ''.'' @ m @ '' must contain at least one endpoint''))) = None \<longleftrightarrow>
        (\<exists>es. map_of routes m = Some es \<and> es \<noteq> [] \<and> distinct es \<and> (\<forall>e \<in> set es. go_TrimSpace e \<noteq> []))" for m
    unfolding endpoints_error_None by (cases "map_of routes m"; cases "the (map_of routes m)") (auto simp: endpoints_error_None simp del: endpoints_error.simps)
  then show ?thesis by (auto simp: validateRouteMap_def first_error_None simp del: endpoints_error.simps)
qed

lemma validateRouteMap_place: "validateRouteMap p routes = None \<Longrightarrow> validateRouteMap q routes = None"
  unfolding validateRouteMap_None_iff .

lemma route_map_routing_ok:
  assumes v: "validateRouteMap p routes = None"
  shows "routing_ok (routingFromRouteMap routes)"
proof -
  have "routes \<noteq> []" using v by (auto simp: validateRouteMap_def)
  then obtain m es0 rest where r: "routes = (m, es0) # rest" by (cases routes) auto
  then have es: "map_of routes m = Some es0" by simp
  have m: "m \<in> set (orderedRouteMethods routes)" "es0 \<noteq> []"
    using validateRouteMap_None [OF v es] es by (auto simp: set_orderedRouteMethods)
  have ends: "set (rr_endpoints (routingFromRouteMap routes)) = (\<Union>m \<in> set (orderedRouteMethods routes). set (route_list routes m))"
    by (auto simp: routingFromRouteMap_def Let_def unique_endpoints_set)
  moreover have "set es0 \<subseteq> \<dots>" using m(1) es by (auto simp: route_list_def)
  ultimately have "rr_endpoints (routingFromRouteMap routes) \<noteq> []" using m(2) by force
  moreover have "orderedRouteMethods routes \<noteq> []" using m(1) by auto
  moreover have "set (orderedRouteMethods routes) \<subseteq> validICAPMethods" by (auto simp: set_orderedRouteMethods validICAPMethods_def)
  ultimately show ?thesis
    using ends validateRouteMap_place [OF v] by (simp add: routing_ok_def routingFromRouteMap_def Let_def)
qed

lemma legacy_routing_ok: "validateLegacyRouting name ms es = Inr r \<Longrightarrow> routing_ok r"
  by (auto simp: validateLegacyRouting_def routing_ok_def find_None_iff split: if_splits option.splits)

lemma effective_routing_ok: "effective_routing name routes = Inr r \<Longrightarrow> routing_ok r"
  by (auto simp: effective_routing_def route_map_routing_ok split: option.splits)

lemma resolve_routing_ok:
  assumes "resolveScenarioRouting name d e = Inr r"
  shows "routing_ok r"
proof -
  have decl: "validateRoutingDeclarations name d e = None" using assms by (simp add: resolveScenarioRouting_def nofail_Inr)
  have own: "entryHasRoutes e \<Longrightarrow> \<exists>p. validateRouteMap p (the_routes (ev_Routes e)) = None"
    using decl by (auto simp: validateRoutingDeclarations_def split: option.splits if_splits)
  have dflt: "defaultsHasRoutes d \<Longrightarrow> \<exists>p. validateRouteMap p (the_routes (df_Routes d)) = None"
    using decl by (auto simp: validateRoutingDeclarations_def split: option.splits if_splits)
  show ?thesis
  proof (cases "entryHasRoutes e")
    case True
    then show ?thesis using assms own route_map_routing_ok by (auto simp: resolveScenarioRouting_def nofail_Inr)
  next
    case False
    show ?thesis
    proof (cases "defaultsHasRoutes d")
      case True
      then have "resolveFromDefaultRoutes name (the_routes (df_Routes d)) e = Inr r"
        using assms False by (simp add: resolveScenarioRouting_def nofail_Inr)
      then show ?thesis
        using dflt [OF True] route_map_routing_ok legacy_routing_ok effective_routing_ok
        by (auto simp: resolveFromDefaultRoutes_def selectDefaultRouteMethods_def replaceDefaultRouteEndpoints_def sbind_Inr split: if_splits)
    next
      case no: False
      then show ?thesis using assms False legacy_routing_ok by (auto simp: resolveScenarioRouting_def nofail_Inr)
    qed
  qed
qed

subsection \<open>Responses\<close>

definition template_ok :: "ResponseTemplate \<Rightarrow> bool" where
  "template_ok t \<longleftrightarrow> rp_ICAPStatus t \<noteq> 0 \<and> (\<forall>dc \<in> set_option (rp_DelayRange t). dl_Min dc \<le> dl_Max dc)"

definition variant_ok :: "WeightedResponse \<Rightarrow> bool" where
  "variant_ok w \<longleftrightarrow> wr_ICAPStatus w \<noteq> 0 \<and> dl_Min (wr_Delay w) \<le> dl_Max (wr_Delay w)"

definition response_ok :: "ResponseTemplate \<Rightarrow> WeightedResponse list option \<Rightarrow> bool" where
  "response_ok t ws \<longleftrightarrow>
     (case ws of
        None \<Rightarrow> template_ok t
      | Some l \<Rightarrow> t = empty_response\<lparr>rp_ICAPStatus := 204\<rparr> \<and> validateRuntimeWeightTotal (Some (map wr_Weight l)) = None \<and>
          (\<forall>w \<in> set l. variant_ok w))"

lemma delay_ordered: "ParseDelay tm s = Inr dc \<Longrightarrow> dl_Min dc \<le> dl_Max dc"
  by (auto simp: ParseDelay_def Let_def split: if_splits option.splits sum.splits)

lemma inline_template_ok: "inlineToTemplate tm p i h s hs = Inr t \<Longrightarrow> template_ok t"
  by (auto simp: inlineToTemplate_def Let_def template_ok_def empty_response_def delay_ordered split: if_splits sum.splits)

lemma template_ok_name [simp]: "template_ok (t\<lparr>rp_ResponseName := n\<rparr>) = template_ok t"
  by (simp add: template_ok_def)

lemma empty_204_ok: "template_ok (empty_response\<lparr>rp_ICAPStatus := 204\<rparr>)"
  by (simp add: template_ok_def empty_response_def)

lemma single_template_ok: "resolve_single tm d p i = Inr (Concrete t) \<Longrightarrow> template_ok t"
  by (auto simp: resolve_single_def Let_def sbind_Inr inline_template_ok split: if_splits option.splits)

lemma weighted_response_ok: "template_ok t \<Longrightarrow> variant_ok (weighted_response w n t)"
  by (auto simp: template_ok_def variant_ok_def weighted_response_def split: option.splits)

text \<open>The response of one variant, which \<^const>\<open>build_variants\<close> puts in front of the others.\<close>

definition variant_template :: "timelib \<Rightarrow> ScenarioDefaultsV2 \<Rightarrow> string \<Rightarrow> InlineResponseV2 \<Rightarrow> (go_error + ResponseTemplate) option" where
  "variant_template tm d p b =
     (case resolve_single tm d p b of
        Inl e \<Rightarrow> Some (Inl e)
      | Inr (Concrete t) \<Rightarrow> Some (Inr t)
      | Inr (VariantsOf name vs) \<Rightarrow>
          (case validateV2WeightTotal p vs of
             Some e \<Rightarrow> Some (Inl e)
           | None \<Rightarrow>
               Option.bind (build_variants tm d p empty_inline name 1 vs)
                 (\<lambda>r. Some (case r of
                    Inl e \<Rightarrow> Inl e
                  | Inr nested \<Rightarrow> if nested \<noteq> [] then Inl (nested_error p) else Inr (empty_response\<lparr>rp_ICAPStatus := 204\<rparr>)))))"

lemma build_cons:
  "build_variants tm d p base n i (w # ws) =
     Option.bind (variant_template tm d (variant_place p i) (variant_block base w))
       (\<lambda>r. case r of
          Inl e \<Rightarrow> Some (Inl e)
        | Inr t \<Rightarrow>
            Option.bind (build_variants tm d p base n (i + 1) ws) (\<lambda>r'. Some (sbind r' (\<lambda>out. Inr (weighted_response w n t # out)))))"
  by (subst build_variants.simps) (simp add: variant_template_def)

lemma case_sum_Some_Inr:
  "(case y of Inl e \<Rightarrow> Some (Inl e) | Inr a \<Rightarrow> f a) = Some (Inr z) \<longleftrightarrow> (\<exists>a. y = Inr a \<and> f a = Some (Inr z))"
  by (cases y) auto

lemma case_sum_Inr: "(case y of Inl e \<Rightarrow> Inl e | Inr a \<Rightarrow> f a) = Inr z \<longleftrightarrow> (\<exists>a. y = Inr a \<and> f a = Inr z)"
  by (cases y) auto

lemma variant_template_ok: "variant_template tm d p b = Some (Inr t) \<Longrightarrow> template_ok t"
  by (cases "resolve_single tm d p b")
    (auto simp: variant_template_def bind_eq_Some_conv case_sum_Inr empty_204_ok single_template_ok
      split: resolution.split_asm option.split_asm if_split_asm)

lemma variants_ok:
  "build_variants tm d p base n i ws = Some (Inr out) \<Longrightarrow> map wr_Weight out = map w2_Weight ws \<and> (\<forall>w \<in> set out. variant_ok w)"
proof (induction ws arbitrary: i out)
  case (Cons w ws)
  obtain t rest where vt: "variant_template tm d (variant_place p i) (variant_block base w) = Some (Inr t)"
    and rest: "build_variants tm d p base n (i + 1) ws = Some (Inr rest)" and out: "out = weighted_response w n t # rest"
    using Cons.prems by (auto simp: build_cons bind_eq_Some_conv case_sum_Some_Inr sbind_Inr)
  note t = variant_template_ok [OF vt]
  show ?case using Cons.IH [OF rest] t by (simp add: out weighted_response_ok) (simp add: weighted_response_def)
qed simp

lemma buildWeightedList_ok:
  assumes "buildWeightedList tm d p ws base n = Some (Inr out)"
  shows "response_ok (empty_response\<lparr>rp_ICAPStatus := 204\<rparr>) (Some out)"
  using assms variants_ok
  by (fastforce simp: buildWeightedList_def response_ok_def validateV2WeightTotal_def split: option.splits weight_total_error.splits)

lemma map_sum_id_Inr: "map_sum id f x = Inr y \<longleftrightarrow> (\<exists>a. x = Inr a \<and> y = f a)"
  by (cases x) auto

lemma weighted_result_ok: "weighted_result (buildWeightedList tm d p ws base n) = Some (Inr (t, l)) \<Longrightarrow> response_ok t l"
  using buildWeightedList_ok by (auto simp: weighted_result_def map_sum_id_Inr)

lemma resolve_response_ok:
  assumes "resolveResponse tm d p i ws = Some (Inr (t, l))"
  shows "response_ok t l"
proof (cases ws)
  case None
  then show ?thesis
    using assms weighted_result_ok single_template_ok
    by (cases "resolve_single tm d p i") (auto simp: resolveResponse_def response_ok_def split: resolution.splits)
qed (use assms weighted_result_ok in \<open>simp add: resolveResponse_def split: if_splits\<close>)


subsection \<open>Scenarios\<close>

definition scenario_routing :: "('re, 'net) Scenario \<Rightarrow> resolvedScenarioRouting" where
  "scenario_routing s = \<lparr>rr_routes = Routes (c_Match s), rr_methods = Methods (c_Match s), rr_endpoints = Paths (c_Match s)\<rparr>"

definition v2_scenario_ok :: "('re, 'net) Scenario \<Rightarrow> bool" where
  "v2_scenario_ok s \<longleftrightarrow> uncompiled s \<and>
     (if s_Branches s = [] then response_ok (s_Response s) (s_WeightedResponses s)
      else s_Response s = empty_response \<and> s_WeightedResponses s = None) \<and>
     (\<forall>b \<in> set (s_Branches s). response_ok (b_Response b) (b_WeightedResponses b))"

definition is_fallback :: "('re, 'net) Scenario \<Rightarrow> bool" where
  "is_fallback s \<longleftrightarrow> s_Name s = defaultScenarioName \<and> c_Match s = no_rule \<and> s_Priority s = -1 \<and> s_Branches s = []"

definition entry_priority :: "nat \<Rightarrow> ScenarioEntryV2 \<Rightarrow> int" where
  "entry_priority i e = (if ev_Priority e = 0 then basePriority - int i else ev_Priority e)"

definition file_order :: "ScenarioFileV2 \<Rightarrow> nat \<Rightarrow> string list \<Rightarrow> (string \<times> int) list" where
  "file_order file i names =
     List.map_filter (\<lambda>(i, n). map_option (\<lambda>e. (n, entry_priority i e)) (map_of (f2_Scenarios file) n)) (enumerate i names)"

lemma with_conditions_routing [simp]:
  "Routes (with_conditions w h r) = Routes r" "Methods (with_conditions w h r) = Methods r" "Paths (with_conditions w h r) = Paths r"
  by (simp_all add: with_conditions_def Let_def split: option.split)

lemma plain_scenario_fields [simp]:
  "c_Match (plain_scenario n r a p) = r" "s_Name (plain_scenario n r a p) = n" "s_Priority (plain_scenario n r a p) = p"
  "s_Branches (plain_scenario n r a p) = []" "s_Response (plain_scenario n r a p) = empty_response"
  "s_WeightedResponses (plain_scenario n r a p) = None" "uncompiled (plain_scenario n r a p)"
  by (simp_all add: plain_scenario_def uncompiled_def)

lemma uncompiled_updates [simp]:
  "uncompiled (s\<lparr>s_Branches := bs\<rparr>) = uncompiled s" "uncompiled (s\<lparr>s_Response := t\<rparr>) = uncompiled s"
  "uncompiled (s\<lparr>s_WeightedResponses := l\<rparr>) = uncompiled s"
  by (simp_all add: uncompiled_def)

lemma branches_ok:
  "buildBranches tm d name i bs = Some (Inr out) \<Longrightarrow>
     length out = length bs \<and> (\<forall>b \<in> set out. response_ok (b_Response b) (b_WeightedResponses b))"
proof (induction bs arbitrary: i out)
  case (Cons b bs)
  then show ?case by (auto simp: sbind_Inr resolve_response_ok split: option.splits sum.splits)
qed simp

lemma convert_entry_ok:
  fixes s :: "('re, 'net) Scenario"
  assumes "convert_entry tm d addr i name e = Some (Inr s)"
  shows "v2_scenario_ok s \<and> routing_ok (scenario_routing s) \<and> s_Name s = name \<and> s_Priority s = entry_priority i e"
proof -
  obtain routing where r: "resolveScenarioRouting name d e = Inr routing"
    using assms by (auto simp: convert_entry_def split: sum.splits)
  let ?rule = "with_conditions (ev_When e) (ev_WhenHTTP e)
    (no_rule\<lparr>Routes := rr_routes routing, Methods := rr_methods routing, Paths := rr_endpoints routing\<rparr>)"
  let ?s = "plain_scenario name ?rule addr (entry_priority i e) :: ('re, 'net) Scenario"
  have ok: "routing_ok (scenario_routing ?s)" using resolve_routing_ok [OF r] by (simp add: scenario_routing_def routing_ok_def)
  show ?thesis
  proof (cases "ev_Branches e = []")
    case True
    then obtain t l where res: "resolveScenarioResponse tm d name e = Some (Inr (t, l))"
        and s: "s = ?s\<lparr>s_Response := t, s_WeightedResponses := l\<rparr>"
      using assms by (auto simp: convert_entry_def r Let_def sbind_Inr entry_priority_def)
    have "response_ok t l" by (rule resolve_response_ok [OF res [unfolded resolveScenarioResponse_def]])
    then show ?thesis using ok by (simp add: s v2_scenario_ok_def scenario_routing_def)
  next
    case False
    then obtain bs where res: "buildBranches tm d name 1 (ev_Branches e) = Some (Inr bs)" and s: "s = ?s\<lparr>s_Branches := bs\<rparr>"
      using assms by (auto simp: convert_entry_def r Let_def sbind_Inr entry_priority_def split: if_splits)
    then show ?thesis using ok branches_ok [OF res] False by (auto simp: s v2_scenario_ok_def scenario_routing_def)
  qed
qed

lemma map_filter_Cons: "List.map_filter f (x # xs) = (case f x of None \<Rightarrow> List.map_filter f xs | Some y \<Rightarrow> y # List.map_filter f xs)"
  by (simp add: List.map_filter_def split: option.split)

lemma convert_entries_ok:
  fixes ss :: "('re, 'net) Scenario list"
  assumes "convert_entries tm file addr i names = Some (Inr ss)"
  shows "(\<forall>s \<in> set ss. v2_scenario_ok s \<and> routing_ok (scenario_routing s)) \<and>
    map (\<lambda>s. (s_Name s, s_Priority s)) ss = file_order file i names"
  using assms
proof (induction names arbitrary: i ss)
  case Nil
  then show ?case by (simp add: file_order_def List.map_filter_def)
next
  case (Cons name names)
  show ?case
  proof (cases "map_of (f2_Scenarios file) name")
    case None
    then show ?thesis using Cons by (simp add: file_order_def map_filter_Cons)
  next
    case (Some e)
    then obtain s rest where s: "convert_entry tm (f2_Defaults file) (addr + i) i name e = Some (Inr s)"
        and rest: "convert_entries tm file addr (i + 1) names = Some (Inr rest)" and ss: "ss = s # rest"
      using Cons.prems by (auto simp: sbind_Inr split: option.splits sum.splits)
    show ?thesis
      using convert_entry_ok [OF s] Cons.IH [OF rest] by (simp add: ss file_order_def map_filter_Cons Some)
  qed
qed

lemma fallback_ok:
  "buildDefaultsUseFallbackScenario tm d addr = Some (Inr s) \<Longrightarrow> v2_scenario_ok s \<and> is_fallback s"
  by (auto simp: buildDefaultsUseFallbackScenario_def sbind_Inr v2_scenario_ok_def is_fallback_def resolve_response_ok)

text \<open>The scenarios of the file in their order, then possibly the fallback.\<close>

lemma conversion_shape:
  fixes ss :: "('re, 'net) Scenario list"
  assumes "ConvertV2ToScenarios tm addr (Some file) names = Some (Inr ss)"
  shows "\<exists>own fb. ss = own @ fb \<and> convert_entries tm file addr 0 names = Some (Inr own) \<and> (\<forall>s \<in> set fb. v2_scenario_ok s \<and> is_fallback s) \<and>
    length fb \<le> 1 \<and> (fb \<noteq> [] \<longleftrightarrow> df_Use (f2_Defaults file) \<noteq> [] \<and> defaultScenarioName \<notin> s_Name ` set own)"
proof -
  obtain own :: "('re, 'net) Scenario list" where own: "convert_entries tm file addr 0 names = Some (Inr own)"
    using assms by (auto simp: ConvertV2ToScenarios_def split: option.splits sum.splits)
  have named: "containsScenarioNamed own defaultScenarioName \<longleftrightarrow> defaultScenarioName \<in> s_Name ` set own"
    unfolding containsScenarioNamed_def by (metis image_iff)
  show ?thesis
  proof (cases "df_Use (f2_Defaults file) \<noteq> [] \<and> \<not> containsScenarioNamed own defaultScenarioName")
    case True
    then obtain f where "buildDefaultsUseFallbackScenario tm (f2_Defaults file) (addr + length names) = Some (Inr f)" "ss = own @ [f]"
      using assms own by (auto simp: ConvertV2ToScenarios_def sbind_Inr split: option.splits)
    then show ?thesis using own True named fallback_ok by (intro exI [of _ own] exI [of _ "[f]"]) auto
  next
    case False
    then have "ss = own" using assms own by (auto simp: ConvertV2ToScenarios_def split: option.splits if_splits)
    then show ?thesis using own False named by (intro exI [of _ own] exI [of _ "[]"]) auto
  qed
qed

lemma file_order_names: "map fst (file_order file i names) = filter (\<lambda>n. map_of (f2_Scenarios file) n \<noteq> None) names"
  by (induction names arbitrary: i) (auto simp: file_order_def map_filter_Cons List.map_filter_def split: option.split)


section \<open>Properties of the conversion\<close>

text \<open>
  C24: \<^bold>\<open>Converted scenarios are well-formed.\<close>  Every scenario of a file that is accepted routes by at least one allowed method to at
  least one endpoint (with an exact route map that the registry accepts, whose methods and endpoints are the listed ones), or it is the fallback
  that \<open>defaults.use\<close> adds.  It has either branches and no response of its own, or one response with a status, or weighted
  variants whose weights the registry accepts; the same holds of its branches.  If no name is listed twice, the scenarios are such a
  file as the invariants of the registry ask for.
\<close>

theorem v2_scenarios_well_formed:
  fixes ss :: "('re, 'net) Scenario list"
  assumes "ConvertV2ToScenarios tm addr (Some file) names = Some (Inr ss)"
  shows "(\<forall>s \<in> set ss. v2_scenario_ok s \<and> (routing_ok (scenario_routing s) \<or> is_fallback s)) \<and>
    (distinct names \<longrightarrow> named_file (length names + 2) (Inr ss))"
proof -
  obtain own fb where ss: "ss = own @ fb" and own: "convert_entries tm file addr 0 names = Some (Inr own)"
      and fb: "\<forall>s \<in> set fb. v2_scenario_ok s \<and> is_fallback s" "length fb \<le> 1" "fb \<noteq> [] \<Longrightarrow> defaultScenarioName \<notin> s_Name ` set own"
    using conversion_shape [OF assms] by blast
  note E = convert_entries_ok [OF own]
  have ok: "\<forall>s \<in> set ss. v2_scenario_ok s \<and> (routing_ok (scenario_routing s) \<or> is_fallback s)"
    using E fb(1) by (auto simp: ss)
  have "map s_Name own = map fst (file_order file 0 names)" using E by (metis (no_types, lifting) fst_conv map_map comp_apply map_cong)
  then have names: "map s_Name own = filter (\<lambda>n. map_of (f2_Scenarios file) n \<noteq> None) names" by (simp add: file_order_names)
  have "distinct names \<Longrightarrow> distinct (map s_Name own)" by (simp only: names distinct_filter)
  then have "distinct (map s_Name ss)" if "distinct names"
    using that fb unfolding ss by (cases fb) (auto simp: is_fallback_def)
  moreover have "length own \<le> length names" using arg_cong [OF names, of length] by (metis length_filter_le length_map)
  ultimately show ?thesis using ok fb(2) by (auto simp: named_file_def unique_file_def fresh_file_def ss v2_scenario_ok_def)
qed

subsection \<open>The order of a loaded file\<close>

lemma compile_all_fields:
  assumes "compile_all lib stat errText ss = Inr cs" "\<forall>s \<in> set ss. uncompiled s"
  shows "map routing_fields cs = map routing_fields ss"
proof -
  have "list_all2 (\<lambda>s c. validateAndCompile lib stat s = Inr c) ss cs"
    using map_err_Inr [OF assms(1) [unfolded compile_all_def]] by (elim list_all2_mono) (auto split: sum.splits)
  then show ?thesis using assms(2) by (induction ss cs rule: list_all2_induct) (auto dest: validateAndCompile_ok)
qed

lemma sort_by_rank:
  fixes as :: "('re, 'net) Scenario list"
  assumes p: "map s_Priority as = map (\<lambda>i. 1000 - int i) [0..<length as]" and b: "s_Priority b = -1"
  shows "map s_Name (sortScenariosByPriority (number (as @ [b]))) =
    take 1002 (map s_Name as) @ [s_Name b] @ drop 1002 (map s_Name as)"
proof -
  let ?as = "number as" and ?b = "b\<lparr>s_order := int (length as)\<rparr>" and ?f = "\<lambda>i. (int i - 1000, int i)"
  let ?t = "take 1002 ?as @ [?b] @ drop 1002 ?as"
  have num: "number (as @ [b]) = ?as @ [?b]" by (simp add: number_def enumerate_append_eq)
  have pr: "s_Priority (as ! i) = 1000 - int i" if "i < length as" for i
    using arg_cong [OF p, of "\<lambda>l. l ! i"] that by simp
  have ranks: "map rank ?as = map ?f [0..<length as]"
    by (rule nth_equalityI) (simp_all add: number_simps rank_def pr)
  have "inj_on s_order (set (?as @ [?b]))"
    using number_map(2) [of "as @ [b]"] unfolding num by (metis distinct_map distinct_upt inj_of_nat inj_on_subset subset_UNIV)
  then have inj: "inj_on rank (set (?as @ [?b]))" by (auto simp: inj_on_def rank_def)
  have "mset ?as = mset (take 1002 ?as) + mset (drop 1002 ?as)" by (metis append_take_drop_id mset_append)
  then have mset: "mset (?as @ [?b]) = mset ?t" by simp
  have "sorted (map ?f [i..<j])" for i j by (auto simp: sorted_map sorted_wrt_map sorted_wrt_iff_nth_less less_eq_prod_def)
  moreover have "rank ?b = (1, int (length as))" by (simp add: rank_def b)
  moreover have "map rank (take 1002 ?as) = map ?f [0..<min 1002 (length as)]" "map rank (drop 1002 ?as) = map ?f [1002..<length as]"
    unfolding take_map [symmetric] drop_map [symmetric] ranks by (auto simp: take_map drop_map take_upt drop_upt min_def)
  ultimately have "sorted (map rank ?t)" by (auto simp: sorted_append less_eq_prod_def)
  then have "sortScenariosByPriority (number (as @ [b])) = ?t"
    unfolding num sortScenariosByPriority_def by (intro sort_key_inj_key_eq mset inj)
  then show ?thesis by (simp add: take_map [symmetric] drop_map [symmetric] number_map)
qed

text \<open>
  C26: \<^bold>\<open>File order decides, up to the thousandth scenario.\<close>  When the scenarios of a version 2 file set no priority, the registry that loads
  the file asks them in the order of the file.  But the priority of a scenario falls with its position and the default scenario has the fixed
  priority -1: it is asked after the first 1002 scenarios and before all later ones, and since it accepts every request those are never reached.
\<close>

theorem v2_load_order:
  fixes ss :: "('re, 'net) Scenario list"
  assumes conv: "ConvertV2ToScenarios tm a (Some file) names = Some (Inr ss)"
    and load: "Load lib stat errText addr path (Inr ss) r = (None, r')"
    and plain: "\<forall>n \<in> set names. \<exists>e. map_of (f2_Scenarios file) n = Some e \<and> ev_Priority e = 0"
    and nodef: "defaultScenarioName \<notin> set names"
  shows "map s_Name (List r') = take 1002 names @ [defaultScenarioName] @ drop 1002 names"
proof -
  obtain own fb where ss: "ss = own @ fb" and own: "convert_entries tm file a 0 names = Some (Inr own)"
      and fb: "\<forall>s \<in> set fb. v2_scenario_ok s \<and> is_fallback s" "length fb \<le> 1"
    using conversion_shape [OF conv] by blast
  note E = convert_entries_ok [OF own]
  have order: "file_order file i ns = map (\<lambda>(j, n). (n, 1000 - int j)) (enumerate i ns)" if "set ns \<subseteq> set names" for i ns
    using that plain by (induction ns arbitrary: i) (fastforce simp: file_order_def map_filter_Cons List.map_filter_def entry_priority_def basePriority_def)+
  have pairs: "map (\<lambda>s. (s_Name s, s_Priority s)) own = map (\<lambda>(j, n). (n, 1000 - int j)) (enumerate 0 names)" using E order [of names 0] by simp
  obtain cs where cs: "compile_all lib stat errText ss = Inr cs" and r': "List r' = sortScenariosByPriority (number (with_default addr cs))"
    using load by (auto simp: Load_def List_def split: sum.splits)
  let ?np = "\<lambda>s :: ('re, 'net) Scenario. (s_Name s, s_Priority s)"
  have "\<forall>s \<in> set ss. uncompiled s" using E fb(1) by (auto simp: ss v2_scenario_ok_def)
  then have "map routing_fields cs = map routing_fields ss" by (rule compile_all_fields [OF cs])
  from arg_cong [OF this, of "map (\<lambda>(_, _, _, _, n, _, p, _). (n, p))"]
  have np: "map ?np cs = map ?np own @ map ?np fb" by (simp add: ss routing_fields_def comp_def)
  then have names: "map s_Name cs = map s_Name own @ map s_Name fb" by (metis (mono_tags, lifting) fst_conv list.map_comp comp_apply map_append map_cong)
  have own_names: "map s_Name own = names" and "map s_Priority own = map (\<lambda>(j, n). 1000 - int j) (enumerate 0 names)"
    using arg_cong [OF pairs, of "map fst"] arg_cong [OF pairs, of "map snd"] by (simp_all add: comp_def case_prod_beta)
  moreover have "\<dots> = map (\<lambda>i. 1000 - int i) [0..<length names]" by (rule nth_equalityI) (simp_all add: nth_enumerate_eq)
  ultimately have own_prios: "map s_Priority own = map (\<lambda>i. 1000 - int i) [0..<length names]" by simp
  obtain as d where wd: "with_default addr cs = as @ [d]" and as: "map ?np as = map ?np own"
      and d: "s_Name d = defaultScenarioName" "s_Priority d = -1"
  proof (cases fb)
    case Nil
    then have "\<not> list_ex (\<lambda>s. s_Name s = defaultScenarioName) cs"
      using names own_names nodef by (auto simp: list_ex_iff) (metis image_eqI set_map)
    then show ?thesis using np Nil by (intro that [of cs "DefaultScenario addr"]) (simp_all add: with_default_def)
  next
    case (Cons f rest)
    then have f: "fb = [f]" "is_fallback f" using fb by auto
    then obtain cs' c where c: "cs = cs' @ [c]" "map ?np cs' = map ?np own" "?np c = ?np f"
      using np by (cases cs rule: rev_cases) auto
    then have "list_ex (\<lambda>s. s_Name s = defaultScenarioName) cs" using f(2) by (auto simp: is_fallback_def)
    then show ?thesis using c f(2) by (intro that [of cs' c]) (auto simp: with_default_def is_fallback_def)
  qed
  have "map s_Name as = names" "map s_Priority as = map (\<lambda>i. 1000 - int i) [0..<length as]"
    using arg_cong [OF as, of "map fst"] arg_cong [OF as, of "map snd"] own_names own_prios
    by (auto simp: comp_def dest: map_eq_imp_length_eq)
  with sort_by_rank [of as d] d show ?thesis by (simp add: r' wd)
qed


subsection \<open>Templates that lead back to themselves\<close>

definition with_templates :: "(string \<times> ResponseTemplateV2) list \<Rightarrow> ScenarioFileV2 \<Rightarrow> ScenarioFileV2" where
  "with_templates ring file =
     file\<lparr>f2_Defaults := (f2_Defaults file)\<lparr>df_ResponseTemplates := ring @ df_ResponseTemplates (f2_Defaults file)\<rparr>\<rparr>"

lemma with_templates_checked:
  assumes "defaults_error (f2_Defaults file) = None" "closed_ring ring"
  shows "defaults_error (f2_Defaults (with_templates ring file)) = None"
proof -
  have "check_templates ring = None" using assms(2) by (auto simp: closed_ring_def intro: ring_checked)
  with assms(1) show ?thesis
    by (auto simp: defaults_error_def with_templates_def defaults_routes_conflict_def defaultsHasRoutes_def check_templates_append
        map_add_def split: option.splits if_splits)
qed

lemma routing_with_templates:
  "resolveScenarioRouting name (f2_Defaults (with_templates ring file)) e = resolveScenarioRouting name (f2_Defaults file) e"
  by (simp add: with_templates_def resolveScenarioRouting_def validateRoutingDeclarations_def defaults_routes_conflict_def
      defaultsHasRoutes_def cong: if_cong option.case_cong)

text \<open>
  C37: \<^bold>\<open>Templates that use each other end the process.\<close>  Take any file whose defaults pass the checks and add weighted
  templates to it, with accepted weights, the first variant of each of which has nothing but a weight and a \<open>use\<close> of one of them,
  of itself perhaps.  The defaults still pass every check; but if the first scenario of the file uses one of these
  templates, with a routing that is accepted and no response field of its own (with one it would be refused), the
  conversion recurses without end, so loading the file, or sending it to the management interface, overflows the stack.
\<close>

theorem use_cycle_overflows:
  fixes e :: ScenarioEntryV2
  assumes checked: "defaults_error (f2_Defaults file) = None" and ring: "closed_ring ring"
    and e: "map_of (f2_Scenarios file) name = Some e" "resolveScenarioRouting name (f2_Defaults file) e = Inr routing"
      "ev_Branches e = []" "ev_Responses e = None" "il_Use e \<in> set (map fst ring)" "isEmptyInlineExceptUse (InlineResponseV2.truncate e)"
  shows "defaults_error (f2_Defaults (with_templates ring file)) = None \<and>
    (ConvertV2ToScenarios tm addr (Some (with_templates ring file)) (name # names) :: (go_error + ('re, 'net) Scenario list) option) = None"
proof -
  let ?file = "with_templates ring file" and ?n = "il_Use e"
  let ?d = "f2_Defaults ?file" and ?i = "InlineResponseV2.truncate e"
  have d: "df_ResponseTemplates ?d = ring @ df_ResponseTemplates (f2_Defaults file)" by (simp add: with_templates_def)
  obtain t where t: "map_of ring ?n = Some t" "?n \<noteq> []" "first_leads (map fst ring) t" using ring_template [OF ring e(5)] by blast
  obtain w ws where w: "rt_Inline t = None" "rt_Weighted t = Some (w # ws)" "\<forall>p. validateV2WeightTotal p (w # ws) = None"
    using t(3) by (rule first_leadsE)
  have over: "build_variants tm ?d p empty_inline ?n 1 (w # ws) = None" for p
    by (rule ring_overflows [OF ring d e(5)]) (simp add: weighted_template_def d t w map_add_def)
  have "il_Use ?i = ?n" by (simp add: InlineResponseV2.truncate_def)
  then have "resolve_single tm ?d p ?i = Inr (VariantsOf ?n (w # ws))" for p
    using t w e(6) by (simp add: resolve_single_def Let_def use_reference_def d map_add_def)
  then have "resolveResponse tm ?d p ?i None = None" for p
    using w(3) by (simp add: resolveResponse_def buildWeightedList_def over [unfolded One_nat_def] weighted_result_def)
  then have "(convert_entry tm ?d a i name e :: (go_error + ('re, 'net) Scenario) option) = None" for a i
    using e(2,3,4) by (simp add: convert_entry_def Let_def resolveScenarioResponse_def routing_with_templates)
  moreover have "map_of (f2_Scenarios ?file) name = Some e" using e(1) by (simp add: with_templates_def)
  ultimately show ?thesis using with_templates_checked [OF checked ring] by (simp add: ConvertV2ToScenarios_def)
qed

section \<open>Examples\<close>

definition demo_time :: timelib where "demo_time = \<lparr>tm_ParseDuration = (\<lambda>s. Inl (ErrNew s)), tm_String = go_Itoa\<rparr>"

definition demo_variant :: "string \<Rightarrow> int \<Rightarrow> WeightedResponseV2" where
  "demo_variant use weight =
     \<lparr>w2_Set = [], w2_HTTPSet = [], w2_Stream = None, w2_Block = None, w2_Body = [], w2_HTTPBody = [], w2_HTTPBodyFile = [], w2_Error = [],
      w2_Delay = [], w2_Use = use, w2_Weight = weight, w2_Status = 0, w2_HTTPStatus = 0\<rparr>"

definition demo_entry :: "string \<Rightarrow> ScenarioEntryV2" where
  "demo_entry use = InlineResponseV2.extend (empty_inline\<lparr>il_Use := use\<rparr>)
     (ScenarioEntryV2.fields [] None None [MethodREQMOD] [''/a''] None [] 0 False True True)"

definition demo_defaults :: "(string \<times> ResponseTemplateV2) list \<Rightarrow> ScenarioDefaultsV2" where
  "demo_defaults ts =
     \<lparr>df_Headers = [], df_ResponseTemplates = ts, df_Use = ''mix'', df_Routes = None, df_Method = [], df_Endpoint = [], df_Status = 0, df_HTTPStatus = 0,
      df_routesSet = False, df_methodSet = False, df_endpointSet = False\<rparr>"

definition demo_file :: ScenarioFileV2 where
  "demo_file =
     \<lparr>f2_Scenarios = [(''s'', demo_entry ''mix''), (''t'', demo_entry ''ok'')],
      f2_Defaults = demo_defaults
        [(''ok'', \<lparr>rt_Inline = Some (empty_inline\<lparr>il_Body := ''fine''\<rparr>), rt_Weighted = None\<rparr>),
         (''mix'', \<lparr>rt_Inline = None, rt_Weighted = Some [demo_variant ''ok'' 50000, demo_variant ''ok'' 50000]\<rparr>),
         (''outer'', \<lparr>rt_Inline = None, rt_Weighted = Some [demo_variant ''mix'' 0]\<rparr>)]\<rparr>"

text \<open>Two templates that use each other, added to a file whose only scenario asks for the first of them.\<close>

definition demo_ring :: "(string \<times> ResponseTemplateV2) list" where
  "demo_ring =
     [(''mix'', \<lparr>rt_Inline = None, rt_Weighted = Some [demo_variant ''other'' 0]\<rparr>),
      (''other'', \<lparr>rt_Inline = None, rt_Weighted = Some [demo_variant ''mix'' 50000, demo_variant [] 50000]\<rparr>)]"

definition cyclic_file :: ScenarioFileV2 where
  "cyclic_file = \<lparr>f2_Scenarios = [(''s'', demo_entry ''mix'')], f2_Defaults = (demo_defaults [])\<lparr>df_Use := []\<rparr>\<rparr>"

theorem use_cycle_overflows_witness:
  "defaults_error (f2_Defaults (with_templates demo_ring cyclic_file)) = None \<and>
   (ConvertV2ToScenarios demo_time 0 (Some (with_templates demo_ring cyclic_file)) [''s''] :: (go_error + (string, unit) Scenario list) option) = None"
proof (rule use_cycle_overflows)
  show "map_of (f2_Scenarios cyclic_file) ''s'' = Some (demo_entry ''mix'')" by (simp add: cyclic_file_def)
  show "resolveScenarioRouting ''s'' (f2_Defaults cyclic_file) (demo_entry ''mix'') =
      Inr \<lparr>rr_routes = [], rr_methods = [MethodREQMOD], rr_endpoints = [''/a'']\<rparr>" by code_simp
qed code_simp+

lemma demo_leveled: "leveled (f2_Defaults demo_file) (\<lambda>n. if n = ''outer'' then 1 else 0)"
  by (auto simp: leveled_def leads_to_def weighted_template_def demo_file_def demo_defaults_def demo_variant_def use_reference_def
      variant_inline_def empty_inline_def split: if_splits)

theorem v2_conversion_returns_witness:
  "\<exists>r. (ConvertV2ToScenarios demo_time 0 (Some demo_file) [''s'', ''t''] :: (go_error + (string, unit) Scenario list) option) = Some r"
  by (rule v2_conversion_returns [OF demo_leveled])

definition demo_scenarios :: "(string, unit) Scenario list" where
  "demo_scenarios = (case ConvertV2ToScenarios demo_time 0 (Some demo_file) [''s'', ''t''] of Some (Inr ss) \<Rightarrow> ss | _ \<Rightarrow> [])"

lemma demo_converts: "ConvertV2ToScenarios demo_time 0 (Some demo_file) [''s'', ''t''] = Some (Inr demo_scenarios)"
proof -
  have "(case ConvertV2ToScenarios demo_time 0 (Some demo_file) [''s'', ''t''] :: (go_error + (string, unit) Scenario list) option of
      Some (Inr ss) \<Rightarrow> True | _ \<Rightarrow> False)" by code_simp
  then show ?thesis by (auto simp: demo_scenarios_def split: option.splits sum.splits)
qed

theorem v2_scenarios_well_formed_witness:
  "map s_Name demo_scenarios = [''s'', ''t'', defaultScenarioName] \<and> list_all v2_scenario_ok demo_scenarios \<and>
   named_file 4 (Inr demo_scenarios)"
proof -
  have "map s_Name demo_scenarios = [''s'', ''t'', defaultScenarioName]" by code_simp
  then show ?thesis using v2_scenarios_well_formed [OF demo_converts] by (simp add: eval_nat_numeral list_all_iff)
qed

theorem v2_load_order_witness:
  "map s_Name (List (snd (Load literal_lib (\<lambda>_. None) (\<lambda>_. []) 7 ''f'' (Inr demo_scenarios) (NewScenarioRegistry 0)))) =
     [''s'', ''t'', defaultScenarioName]"
proof -
  let ?l = "Load literal_lib (\<lambda>_. None) (\<lambda>_. []) 7 ''f'' (Inr demo_scenarios) (NewScenarioRegistry 0)"
  have "fst ?l = None" by code_simp
  then have "?l = (None, snd ?l)" by (metis prod.collapse)
  from v2_load_order [OF demo_converts this]
  have "map s_Name (List (snd ?l)) = take 1002 [''s'', ''t''] @ [defaultScenarioName] @ drop 1002 [''s'', ''t'']"
    by (simp add: demo_file_def demo_entry_def ScenarioEntryV2.defs InlineResponseV2.defs defaultScenarioName_def)
  then show ?thesis by simp
qed

end
