(* ===== verification/Connection_IO.thy ===== *)
theory Connection_IO
  imports Chunked
begin

text \<open>
  The connection of a client (\<^verbatim>\<open>internal/server/connection.go\<close>): the buffered reader and the buffered writer over the socket, their
  wrappers, closing, and the pool of connections.

  The socket is an argument: a function that reads and a function that writes.  \<open>pb_unread\<close> is \<open>buf[rpos:wpos]\<close>, the part of the
  buffer that the code ever looks at again, and \<open>pb_cap\<close> is \<open>len(buf)\<close>.  \<open>pb_held\<close> and \<open>bw_held\<close> say that the memory still
  belongs to the buffer (\<open>bufPtr\<close> is not nil), \<open>cn_puts\<close> counts what was given back.  Loops that read until a byte turns up may not
  end on a socket that sends for ever: they are partial functions.

  The other theories take a connection as a \<^typ>\<open>source\<close>, the bytes that will arrive and the error after them.  The locale
  \<open>byte_stream\<close> is the contract of a socket that delivers a source in pieces of its own choice; the buffer keeps it, and every
  reading operation of the buffer then gives what it gives on the source.
\<close>

section \<open>The buffered reader\<close>

record 'c pooledBuffer =
  pb_rw :: 'c
  pb_err :: "go_error option"
  pb_unread :: string
  pb_cap :: nat
  pb_held :: bool
  pb_closed :: bool

definition newPooledReadBuffer :: "'c \<Rightarrow> nat \<Rightarrow> 'c pooledBuffer" where
  "newPooledReadBuffer rw cap = \<lparr>pb_rw = rw, pb_err = None, pb_unread = [], pb_cap = cap, pb_held = True, pb_closed = False\<rparr>"

text \<open>The common first step of the readers: an error, or at least one unread byte.\<close>

definition pb_refill :: "'c reader \<Rightarrow> 'c pooledBuffer \<Rightarrow> go_error option \<times> 'c pooledBuffer" where
  "pb_refill rd pb =
     (if pb_unread pb \<noteq> [] then (None, pb)
      else (case pb_err pb of
              Some e \<Rightarrow> (Some e, pb\<lparr>pb_err := None\<rparr>)
            | None \<Rightarrow>
                (case rd (pb_rw pb) (pb_cap pb) of
                   ((got, err), c) \<Rightarrow>
                     if got = [] then (Some (case err of None \<Rightarrow> EOF | Some e \<Rightarrow> e), pb\<lparr>pb_rw := c\<rparr>)
                     else (None, pb\<lparr>pb_rw := c, pb_unread := got, pb_err := err\<rparr>))))"

definition pb_Read :: "'c reader \<Rightarrow> 'c pooledBuffer reader" where
  "pb_Read rd pb k =
     (if pb_closed pb then (([], Some ErrClosedPipe), pb)
      else if k = 0 then (([], None), pb)
      else (case pb_refill rd pb of
              (Some e, pb1) \<Rightarrow> (([], Some e), pb1)
            | (None, pb1) \<Rightarrow> ((take k (pb_unread pb1), None), pb1\<lparr>pb_unread := drop k (pb_unread pb1)\<rparr>)))"

definition pb_Write :: "'c writer \<Rightarrow> 'c pooledBuffer writer" where
  "pb_Write wr pb p = (case wr (pb_rw pb) p of (res, c) \<Rightarrow> (res, pb\<lparr>pb_rw := c\<rparr>))"

definition pb_ReadByte :: "'c reader \<Rightarrow> 'c pooledBuffer \<Rightarrow> (go_error + char) \<times> 'c pooledBuffer" where
  "pb_ReadByte rd pb =
     (if pb_closed pb then (Inl ErrClosedPipe, pb)
      else (case pb_refill rd pb of
              (Some e, pb1) \<Rightarrow> (Inl e, pb1)
            | (None, pb1) \<Rightarrow> (Inr (hd (pb_unread pb1)), pb1\<lparr>pb_unread := tl (pb_unread pb1)\<rparr>)))"

definition Buffered :: "'c pooledBuffer \<Rightarrow> nat" where
  "Buffered pb = length (pb_unread pb)"

definition trim_cr :: "string \<Rightarrow> string" where
  "trim_cr line = (if line \<noteq> [] \<and> last line = CR then butlast line else line)"

partial_function (option) pb_until ::
  "'c reader \<Rightarrow> char \<Rightarrow> string \<Rightarrow> 'c pooledBuffer \<Rightarrow> ((string \<times> go_error option) \<times> 'c pooledBuffer) option" where
  "pb_until rd delim acc pb =
     (case pb_refill rd pb of
        (Some e, pb1) \<Rightarrow> Some ((acc, Some e), pb1)
      | (None, pb1) \<Rightarrow>
          (case go_IndexByte (pb_unread pb1) delim of
             Some i \<Rightarrow> Some ((acc @ take (i + 1) (pb_unread pb1), None), pb1\<lparr>pb_unread := drop (i + 1) (pb_unread pb1)\<rparr>)
           | None \<Rightarrow> pb_until rd delim (acc @ pb_unread pb1) (pb1\<lparr>pb_unread := []\<rparr>)))"

declare pb_until.simps [code]

definition pb_ReadBytes :: "'c reader \<Rightarrow> char \<Rightarrow> 'c pooledBuffer \<Rightarrow> ((string \<times> go_error option) \<times> 'c pooledBuffer) option" where
  "pb_ReadBytes rd delim pb = (if pb_closed pb then Some (([], Some ErrClosedPipe), pb) else pb_until rd delim [] pb)"

definition pb_ReadString :: "'c reader \<Rightarrow> char \<Rightarrow> 'c pooledBuffer \<Rightarrow> ((string \<times> go_error option) \<times> 'c pooledBuffer) option" where
  "pb_ReadString rd delim pb = pb_ReadBytes rd delim pb"

partial_function (option) pb_line ::
  "'c reader \<Rightarrow> string \<Rightarrow> 'c pooledBuffer \<Rightarrow> ((string \<times> go_error option) \<times> 'c pooledBuffer) option" where
  "pb_line rd line pb =
     (case pb_refill rd pb of
        (Some e, pb1) \<Rightarrow> Some ((line, Some e), pb1)
      | (None, pb1) \<Rightarrow>
          (case go_IndexByte (pb_unread pb1) LF of
             Some i \<Rightarrow> Some ((trim_cr (line @ take i (pb_unread pb1)), None), pb1\<lparr>pb_unread := drop (i + 1) (pb_unread pb1)\<rparr>)
           | None \<Rightarrow> pb_line rd (line @ pb_unread pb1) (pb1\<lparr>pb_unread := []\<rparr>)))"

declare pb_line.simps [code]

definition pb_ReadLine :: "'c reader \<Rightarrow> 'c pooledBuffer \<Rightarrow> ((string \<times> go_error option) \<times> 'c pooledBuffer) option" where
  "pb_ReadLine rd pb = (if pb_closed pb then Some (([], Some ErrClosedPipe), pb) else pb_line rd [] pb)"

lemma pb_refill_unread: "pb_refill rd pb = (None, pb') \<Longrightarrow> pb_unread pb' \<noteq> []"
  by (auto simp: pb_refill_def split: if_splits option.splits prod.splits)

text \<open>The length of the part of the unread bytes that the next line takes.\<close>

definition segment_len :: "string \<Rightarrow> nat" where
  "segment_len s = (case go_IndexByte s LF of Some i \<Rightarrow> i + 1 | None \<Rightarrow> length s)"

lemma segment_len_bounds: "s \<noteq> [] \<Longrightarrow> 0 < segment_len s \<and> segment_len s \<le> length s"
  by (auto simp: segment_len_def split: option.split dest: go_IndexByte_SomeD)

function pb_bounded ::
  "'c reader \<Rightarrow> nat \<Rightarrow> string \<Rightarrow> 'c pooledBuffer \<Rightarrow> (string \<times> go_error option) \<times> 'c pooledBuffer" where
  "pb_bounded rd limit line pb =
     (case pb_refill rd pb of
        (Some e, pb1) \<Rightarrow> ((line, Some e), pb1)
      | (None, pb1) \<Rightarrow>
          (let buffered = pb_unread pb1; segmentLen = segment_len buffered; remaining = limit - length line in
           if segmentLen > remaining
           then ((line @ take remaining buffered, Some ErrShortBuffer), pb1\<lparr>pb_unread := drop remaining buffered\<rparr>)
           else
             (let line' = line @ take segmentLen buffered; pb2 = pb1\<lparr>pb_unread := drop segmentLen buffered\<rparr> in
              if segmentLen < length buffered \<or> buffered ! (segmentLen - 1) = LF then ((line', None), pb2)
              else if length line' = limit then ((line', Some ErrShortBuffer), pb2)
              else pb_bounded rd limit line' pb2)))"
  by pat_completeness auto
termination
proof (relation "measure (\<lambda>(rd, limit, line, pb). limit - length line)", simp, goal_cases)
  case (1 rd limit line pb e pb1 buffered segmentLen remaining line' pb2)
  then have "buffered \<noteq> []" by (metis pb_refill_unread)
  then have "0 < segmentLen" "segmentLen \<le> length buffered" using 1 segment_len_bounds by auto
  then show ?case using 1 by (auto simp: length_greater_0_conv [symmetric] simp del: length_greater_0_conv)
qed

declare pb_bounded.simps [simp del]

definition pb_ReadBoundedLine :: "'c reader \<Rightarrow> int \<Rightarrow> 'c pooledBuffer \<Rightarrow> (string \<times> go_error option) \<times> 'c pooledBuffer" where
  "pb_ReadBoundedLine rd limit pb =
     (if pb_closed pb then (([], Some ErrClosedPipe), pb)
      else if limit \<le> 0 then (([], Some ErrShortBuffer), pb)
      else pb_bounded rd (nat limit) [] pb)"

text \<open>\<open>Reset\<close> forgets the unread bytes but neither a saved error nor that the buffer is closed.\<close>

definition pb_Reset :: "'c \<Rightarrow> 'c pooledBuffer \<Rightarrow> 'c pooledBuffer" where
  "pb_Reset rw pb = pb\<lparr>pb_unread := [], pb_rw := rw\<rparr>"

text \<open>
  The number is how often the memory is given back.  \<open>rpos\<close> and \<open>wpos\<close> stay as they are: \<open>Buffered\<close> still counts what was
  unread, but every reading operation now fails.
\<close>

definition pb_close :: "'c pooledBuffer \<Rightarrow> nat \<times> 'c pooledBuffer" where
  "pb_close pb =
     (if pb_closed pb then (0, pb)
      else if pb_held pb then (1, pb\<lparr>pb_closed := True, pb_held := False, pb_cap := 0\<rparr>)
      else (0, pb\<lparr>pb_closed := True\<rparr>))"

section \<open>The buffered writer\<close>

record 'w bufferedWriter =
  bw_w :: 'w
  bw_buf :: string
  bw_cap :: nat
  bw_held :: bool
  bw_closed :: bool

definition newBufferedWriter :: "'w \<Rightarrow> nat \<Rightarrow> 'w bufferedWriter" where
  "newBufferedWriter w cap = \<lparr>bw_w = w, bw_buf = [], bw_cap = cap, bw_held = True, bw_closed = False\<rparr>"

definition flushLocked :: "'w writer \<Rightarrow> 'w bufferedWriter \<Rightarrow> go_error option \<times> 'w bufferedWriter" where
  "flushLocked wr bw =
     (if bw_buf bw = [] then (None, bw)
      else (case wr (bw_w bw) (bw_buf bw) of ((n, err), w) \<Rightarrow> (err, bw\<lparr>bw_w := w, bw_buf := []\<rparr>)))"

definition writeLocked :: "'w writer \<Rightarrow> 'w bufferedWriter writer" where
  "writeLocked wr bw p =
     (if p = [] then ((0, None), bw)
      else if length p > bw_cap bw - length (bw_buf bw)
      then (case flushLocked wr bw of
              (Some e, bw1) \<Rightarrow> ((0, Some e), bw1)
            | (None, bw1) \<Rightarrow>
                if length p \<ge> bw_cap bw then (case wr (bw_w bw1) p of (res, w) \<Rightarrow> (res, bw1\<lparr>bw_w := w\<rparr>))
                else ((length p, None), bw1\<lparr>bw_buf := bw_buf bw1 @ p\<rparr>))
      else ((length p, None), bw\<lparr>bw_buf := bw_buf bw @ p\<rparr>))"

definition bw_Write :: "'w writer \<Rightarrow> 'w bufferedWriter writer" where
  "bw_Write wr bw p = (if bw_closed bw then ((0, Some ErrClosedPipe), bw) else writeLocked wr bw p)"

text \<open>\<open>WriteString\<close> has a body of its own, with the same steps; \<open>io.WriteString\<close> writes the bytes of the string.\<close>

definition bw_WriteString :: "'w writer \<Rightarrow> 'w bufferedWriter writer" where
  "bw_WriteString wr bw s =
     (if bw_closed bw then ((0, Some ErrClosedPipe), bw)
      else if s = [] then ((0, None), bw)
      else if length s > bw_cap bw - length (bw_buf bw)
      then (case flushLocked wr bw of
              (Some e, bw1) \<Rightarrow> ((0, Some e), bw1)
            | (None, bw1) \<Rightarrow>
                if length s \<ge> bw_cap bw then (case wr (bw_w bw1) s of (res, w) \<Rightarrow> (res, bw1\<lparr>bw_w := w\<rparr>))
                else ((length s, None), bw1\<lparr>bw_buf := bw_buf bw1 @ s\<rparr>))
      else ((length s, None), bw\<lparr>bw_buf := bw_buf bw @ s\<rparr>))"

definition bw_Flush :: "'w writer \<Rightarrow> 'w bufferedWriter \<Rightarrow> go_error option \<times> 'w bufferedWriter" where
  "bw_Flush wr bw = (if bw_closed bw then (Some ErrClosedPipe, bw) else flushLocked wr bw)"

definition releaseBufferLocked :: "'w bufferedWriter \<Rightarrow> nat \<times> 'w bufferedWriter" where
  "releaseBufferLocked bw = (if bw_held bw then (1, bw\<lparr>bw_held := False, bw_buf := [], bw_cap := 0\<rparr>) else (0, bw))"

definition bw_close :: "'w writer \<Rightarrow> 'w bufferedWriter \<Rightarrow> (go_error option \<times> nat) \<times> 'w bufferedWriter" where
  "bw_close wr bw =
     (if bw_closed bw then ((None, 0), bw)
      else (case flushLocked wr bw of (err, bw1) \<Rightarrow>
              (case releaseBufferLocked (bw1\<lparr>bw_closed := True\<rparr>) of (puts, bw2) \<Rightarrow> ((err, puts), bw2))))"

definition closeDiscard :: "'w bufferedWriter \<Rightarrow> nat \<times> 'w bufferedWriter" where
  "closeDiscard bw = (if bw_closed bw then (0, bw) else releaseBufferLocked (bw\<lparr>bw_closed := True\<rparr>))"

section \<open>The connection\<close>

datatype ConnectionState = ConnStateActive | ConnStateIdle | ConnStateClosed

definition ConnectionState_String :: "ConnectionState \<Rightarrow> string" where
  "ConnectionState_String s = (case s of ConnStateActive \<Rightarrow> ''active'' | ConnStateIdle \<Rightarrow> ''idle'' | ConnStateClosed \<Rightarrow> ''closed'')"

record ConnectionConfig =
  cc_ReadTimeout :: int
  cc_WriteTimeout :: int
  cc_IdleTimeout :: int

text \<open>
  \<open>cn_once\<close> and \<open>cn_socketOnce\<close> say that the \<open>sync.Once\<close> has run; \<open>cn_socket_closes\<close> counts the calls of \<open>conn.Close\<close> on the socket.
\<close>

record ('c, 'w) Connection =
  cn_config :: ConnectionConfig
  cn_reader :: "'c pooledBuffer"
  cn_writer :: "'w bufferedWriter"
  cn_state :: ConnectionState
  cn_closed :: bool
  cn_once :: bool
  cn_socketOnce :: bool
  cn_lastActivity :: int
  cn_socket_closes :: nat
  cn_puts :: nat

definition newConnection :: "'c \<Rightarrow> 'w \<Rightarrow> nat \<Rightarrow> ConnectionConfig \<Rightarrow> int \<Rightarrow> ('c, 'w) Connection" where
  "newConnection c w cap config now =
     \<lparr>cn_config = config, cn_reader = newPooledReadBuffer c cap, cn_writer = newBufferedWriter w cap, cn_state = ConnStateActive,
      cn_closed = False, cn_once = False, cn_socketOnce = False, cn_lastActivity = now, cn_socket_closes = 0, cn_puts = 0\<rparr>"

definition UpdateActivity :: "int \<Rightarrow> ('c, 'w) Connection \<Rightarrow> ('c, 'w) Connection" where
  "UpdateActivity now cn = cn\<lparr>cn_lastActivity := now\<rparr>"

definition IsIdle :: "int \<Rightarrow> ('c, 'w) Connection \<Rightarrow> bool" where
  "IsIdle now cn \<longleftrightarrow> (if cc_IdleTimeout (cn_config cn) \<le> 0 then False else now - cn_lastActivity cn > cc_IdleTimeout (cn_config cn))"

definition IsClosed :: "('c, 'w) Connection \<Rightarrow> bool" where
  "IsClosed cn = cn_closed cn"

definition SetState :: "ConnectionState \<Rightarrow> ('c, 'w) Connection \<Rightarrow> ('c, 'w) Connection" where
  "SetState s cn = cn\<lparr>cn_state := s\<rparr>"

text \<open>\<open>deadline\<close> is the answer of \<open>SetReadDeadline\<close> or \<open>SetWriteDeadline\<close>.\<close>

definition Connection_Read ::
  "'c reader \<Rightarrow> go_error option \<Rightarrow> int \<Rightarrow> ('c, 'w) Connection \<Rightarrow> nat \<Rightarrow> (string \<times> go_error option) \<times> ('c, 'w) Connection" where
  "Connection_Read rd deadline now cn k =
     (case (if cc_ReadTimeout (cn_config cn) > 0 then deadline else None) of
        Some e \<Rightarrow> (([], Some e), cn)
      | None \<Rightarrow>
          (case pb_Read rd (cn_reader cn) k of
             ((got, err), pb) \<Rightarrow>
               ((got, err), (if got \<noteq> [] then UpdateActivity now else id) (cn\<lparr>cn_reader := pb\<rparr>))))"

definition Connection_Write ::
  "'w writer \<Rightarrow> go_error option \<Rightarrow> int \<Rightarrow> ('c, 'w) Connection \<Rightarrow> string \<Rightarrow> (nat \<times> go_error option) \<times> ('c, 'w) Connection" where
  "Connection_Write wr deadline now cn p =
     (case (if cc_WriteTimeout (cn_config cn) > 0 then deadline else None) of
        Some e \<Rightarrow> ((0, Some e), cn)
      | None \<Rightarrow>
          (case bw_Write wr (cn_writer cn) p of
             ((n, err), bw) \<Rightarrow> ((n, err), (if n > 0 then UpdateActivity now else id) (cn\<lparr>cn_writer := bw\<rparr>))))"

text \<open>\<open>sock\<close> is the answer of \<open>conn.Close\<close> on the socket.\<close>

definition close_socket :: "go_error option \<Rightarrow> ('c, 'w) Connection \<Rightarrow> go_error option \<times> ('c, 'w) Connection" where
  "close_socket sock cn =
     (if cn_socketOnce cn then (None, cn)
      else (sock, cn\<lparr>cn_socketOnce := True, cn_socket_closes := cn_socket_closes cn + 1\<rparr>))"

definition release_reader :: "('c, 'w) Connection \<Rightarrow> ('c, 'w) Connection" where
  "release_reader cn = (case pb_close (cn_reader cn) of (puts, pb) \<Rightarrow> cn\<lparr>cn_reader := pb, cn_puts := cn_puts cn + puts\<rparr>)"

definition connection_close ::
  "'w writer \<Rightarrow> bool \<Rightarrow> go_error option \<Rightarrow> ('c, 'w) Connection \<Rightarrow> go_error option \<times> ('c, 'w) Connection" where
  "connection_close wr abort sock cn =
     (if cn_once cn then (None, cn)
      else
        (let cn1 = (SetState ConnStateClosed cn)\<lparr>cn_once := True, cn_closed := True\<rparr> in
         if abort
         then (case closeDiscard (cn_writer cn1) of
                 (puts, bw) \<Rightarrow> (None, release_reader (cn1\<lparr>cn_writer := bw, cn_puts := cn_puts cn1 + puts\<rparr>)))
         else (case bw_close wr (cn_writer cn1) of
                 ((err, puts), bw) \<Rightarrow>
                   (case close_socket sock (cn1\<lparr>cn_writer := bw, cn_puts := cn_puts cn1 + puts\<rparr>) of
                      (closeErr, cn2) \<Rightarrow> (if err \<noteq> None then err else closeErr, release_reader cn2)))))"

definition Connection_Close ::
  "'w writer \<Rightarrow> go_error option \<Rightarrow> ('c, 'w) Connection \<Rightarrow> go_error option \<times> ('c, 'w) Connection" where
  "Connection_Close wr sock cn = connection_close wr False sock cn"

definition Connection_Abort ::
  "'w writer \<Rightarrow> go_error option \<Rightarrow> ('c, 'w) Connection \<Rightarrow> go_error option \<times> ('c, 'w) Connection" where
  "Connection_Abort wr sock cn =
     (case close_socket sock cn of
        (socketErr, cn1) \<Rightarrow>
          (case connection_close wr True sock cn1 of
             (cleanupErr, cn2) \<Rightarrow> (if socketErr \<noteq> None then socketErr else cleanupErr, cn2)))"

definition Connection_Flush :: "'w writer \<Rightarrow> ('c, 'w) Connection \<Rightarrow> go_error option \<times> ('c, 'w) Connection" where
  "Connection_Flush wr cn = (case bw_Flush wr (cn_writer cn) of (err, bw) \<Rightarrow> (err, cn\<lparr>cn_writer := bw\<rparr>))"

section \<open>The pool of connections\<close>

text \<open>Connections are their addresses; \<open>cp_wg\<close> is the counter of the wait group.\<close>

record ConnectionPool =
  cp_connections :: "nat list"
  cp_wg :: int

definition NewConnectionPool :: ConnectionPool where
  "NewConnectionPool = \<lparr>cp_connections = [], cp_wg = 0\<rparr>"

definition Pool_Add :: "nat \<Rightarrow> ConnectionPool \<Rightarrow> ConnectionPool" where
  "Pool_Add c p = p\<lparr>cp_connections := (if c \<in> set (cp_connections p) then cp_connections p else cp_connections p @ [c]), cp_wg := cp_wg p + 1\<rparr>"

definition Pool_Remove :: "nat \<Rightarrow> ConnectionPool \<Rightarrow> ConnectionPool" where
  "Pool_Remove c p =
     (if c \<in> set (cp_connections p) then p\<lparr>cp_connections := removeAll c (cp_connections p), cp_wg := cp_wg p - 1\<rparr> else p)"

definition Pool_Count :: "ConnectionPool \<Rightarrow> nat" where
  "Pool_Count p = length (cp_connections p)"

text \<open>The second component is the connections that \<open>CloseAll\<close> aborts.\<close>

definition Pool_CloseAll :: "ConnectionPool \<Rightarrow> ConnectionPool \<times> nat list" where
  "Pool_CloseAll p = (\<lparr>cp_connections = [], cp_wg = cp_wg p - int (length (cp_connections p))\<rparr>, cp_connections p)"

definition Pool_List :: "ConnectionPool \<Rightarrow> nat list" where
  "Pool_List p = cp_connections p"

section \<open>Wrappers of the reader and the writer\<close>

text \<open>
  The server reads through \<open>activityReader\<close> and \<open>requestDeadlineReader\<close> (\<^verbatim>\<open>lifecycle.go\<close>).  The first notes when bytes have come in;
  the number counts the calls of \<open>touch\<close>.  The second sets the read deadline of a request when its first byte has been read; \<open>activate\<close> is the
  answer of the call that sets it, \<^const>\<open>None\<close> when there is no such function.
\<close>

definition activity_Read :: "'c reader \<Rightarrow> 'c pooledBuffer \<times> nat \<Rightarrow> nat \<Rightarrow> (string \<times> go_error option) \<times> 'c pooledBuffer \<times> nat" where
  "activity_Read rd = (\<lambda>(pb, touched) k.
     (case pb_Read rd pb k of ((got, err), pb1) \<Rightarrow> ((got, err), (pb1, if got \<noteq> [] then touched + 1 else touched))))"

definition activity_ReadByte :: "'c reader \<Rightarrow> 'c pooledBuffer \<times> nat \<Rightarrow> (go_error + char) \<times> 'c pooledBuffer \<times> nat" where
  "activity_ReadByte rd = (\<lambda>(pb, touched).
     (case pb_ReadByte rd pb of
        (Inl e, pb1) \<Rightarrow> (Inl e, (pb1, touched))
      | (Inr b, pb1) \<Rightarrow> (Inr b, (pb1, if Buffered pb = 0 then touched + 1 else touched))))"

definition activity_ReadBoundedLine ::
  "'c reader \<Rightarrow> int \<Rightarrow> 'c pooledBuffer \<times> nat \<Rightarrow> (string \<times> go_error option) \<times> 'c pooledBuffer \<times> nat" where
  "activity_ReadBoundedLine rd limit = (\<lambda>(pb, touched).
     (case pb_ReadBoundedLine rd limit pb of
        ((line, err), pb1) \<Rightarrow>
          ((line, err), (pb1, if line \<noteq> [] \<and> (Buffered pb = 0 \<or> length line > Buffered pb) then touched + 1 else touched))))"

definition activity_ReadString ::
  "'c reader \<Rightarrow> char \<Rightarrow> 'c pooledBuffer \<times> nat \<Rightarrow> ((string \<times> go_error option) \<times> 'c pooledBuffer \<times> nat) option" where
  "activity_ReadString rd delim = (\<lambda>(pb, touched).
     map_option (\<lambda>((s, err), pb1). ((s, err), (pb1, if s \<noteq> [] then touched + 1 else touched))) (pb_ReadString rd delim pb))"

definition activity_Write :: "'w writer \<Rightarrow> ('w bufferedWriter \<times> nat) writer" where
  "activity_Write wr = (\<lambda>(bw, touched) p.
     (case bw_Write wr bw p of ((n, err), bw1) \<Rightarrow> ((n, err), (bw1, if n > 0 then touched + 1 else touched))))"

definition activity_WriteString :: "'w writer \<Rightarrow> ('w bufferedWriter \<times> nat) writer" where
  "activity_WriteString wr = (\<lambda>(bw, touched) s.
     (case bw_WriteString wr bw s of ((n, err), bw1) \<Rightarrow> ((n, err), (bw1, if n > 0 then touched + 1 else touched))))"

record deadline_state =
  dr_started :: bool
  dr_activated :: bool

definition activateOnce ::
  "go_error option option \<Rightarrow> go_error option \<Rightarrow> deadline_state \<Rightarrow> go_error option \<times> deadline_state" where
  "activateOnce activate readErr d =
     (let d1 = d\<lparr>dr_started := True\<rparr> in
      if dr_activated d1 \<or> activate = None then (readErr, d1)
      else
        (let d2 = d1\<lparr>dr_activated := True\<rparr> in
         case the activate of
           None \<Rightarrow> (readErr, d2)
         | Some deadlineErr \<Rightarrow> (if readErr \<noteq> None then go_join [readErr, Some deadlineErr] else Some deadlineErr, d2)))"

definition deadline_Read ::
  "'r reader \<Rightarrow> go_error option option \<Rightarrow> 'r \<times> deadline_state \<Rightarrow> nat \<Rightarrow> (string \<times> go_error option) \<times> 'r \<times> deadline_state" where
  "deadline_Read rd activate = (\<lambda>(r, d) k.
     (case rd r k of
        ((got, err), r1) \<Rightarrow>
          if got \<noteq> [] then (case activateOnce activate err d of (err', d1) \<Rightarrow> ((got, err'), (r1, d1)))
          else ((got, err), (r1, d))))"

definition deadline_ReadByte ::
  "('r \<Rightarrow> (go_error + char) \<times> 'r) \<Rightarrow> go_error option option \<Rightarrow> 'r \<times> deadline_state \<Rightarrow> (go_error + char) \<times> 'r \<times> deadline_state" where
  "deadline_ReadByte rdByte activate = (\<lambda>(r, d).
     (case rdByte r of
        (Inr b, r1) \<Rightarrow>
          (case activateOnce activate None d of (err, d1) \<Rightarrow> (case err of None \<Rightarrow> Inr b | Some e \<Rightarrow> Inl e, (r1, d1)))
      | (Inl e, r1) \<Rightarrow> (Inl e, (r1, d))))"

definition deadline_ReadBoundedLine ::
  "(int \<Rightarrow> 'r \<Rightarrow> (string \<times> go_error option) \<times> 'r) \<Rightarrow> go_error option option \<Rightarrow> int \<Rightarrow> 'r \<times> deadline_state \<Rightarrow>
     (string \<times> go_error option) \<times> 'r \<times> deadline_state" where
  "deadline_ReadBoundedLine rdLine activate limit = (\<lambda>(r, d).
     (case rdLine limit r of
        ((line, err), r1) \<Rightarrow>
          if line \<noteq> [] then (case activateOnce activate err d of (err', d1) \<Rightarrow> ((line, err'), (r1, d1)))
          else ((line, err), (r1, d))))"

section \<open>Reading is independent of how the bytes arrive\<close>

text \<open>What the reading operations give on a source.\<close>

definition src_until :: "char \<Rightarrow> source \<Rightarrow> (string \<times> go_error option) \<times> source" where
  "src_until delim src =
     (case go_IndexByte (pending src) delim of
        Some i \<Rightarrow> ((take (i + 1) (pending src), None), src\<lparr>pending := drop (i + 1) (pending src)\<rparr>)
      | None \<Rightarrow> ((pending src, Some (final_err src)), src\<lparr>pending := []\<rparr>))"

definition src_line :: "source \<Rightarrow> (string \<times> go_error option) \<times> source" where
  "src_line src =
     (case go_IndexByte (pending src) LF of
        Some i \<Rightarrow> ((trim_cr (take i (pending src)), None), src\<lparr>pending := drop (i + 1) (pending src)\<rparr>)
      | None \<Rightarrow> ((pending src, Some (final_err src)), src\<lparr>pending := []\<rparr>))"

definition src_bounded :: "nat \<Rightarrow> source \<Rightarrow> (string \<times> go_error option) \<times> source" where
  "src_bounded room src =
     (if segment_len (pending src) \<le> room \<and> LF \<in> set (pending src)
      then ((take (segment_len (pending src)) (pending src), None), src\<lparr>pending := drop (segment_len (pending src)) (pending src)\<rparr>)
      else if room \<le> length (pending src) then ((take room (pending src), Some ErrShortBuffer), src\<lparr>pending := drop room (pending src)\<rparr>)
      else ((pending src, Some (final_err src)), src\<lparr>pending := []\<rparr>))"

lemma go_IndexByte_app:
  "go_IndexByte (u @ v) c = (case go_IndexByte u c of Some i \<Rightarrow> Some i | None \<Rightarrow> map_option (\<lambda>i. length u + i) (go_IndexByte v c))"
  by (cases "go_IndexByte v c"; induction u; auto split: option.split)

lemma source_same [simp]: "pending src = [] \<Longrightarrow> src\<lparr>pending := []\<rparr> = src"
  by simp

lemma segment_len_app: "segment_len (u @ v) = (if LF \<in> set u then segment_len u else length u + segment_len v)"
  by (auto simp: segment_len_def go_IndexByte_app split: option.split)

lemma segment_len_0 [simp]: "segment_len s = 0 \<longleftrightarrow> s = []"
  by (auto simp: segment_len_def split: option.split)

lemma segment_len_LF:
  assumes "LF \<in> set s"
  shows "s ! (segment_len s - 1) = LF"
proof -
  obtain i where "go_IndexByte s LF = Some i" using assms by (cases "go_IndexByte s LF") auto
  then show ?thesis by (auto simp: segment_len_def dest: go_IndexByte_SomeD)
qed

locale byte_stream =
  fixes rd :: "'c reader"
    and feeds :: "'c \<Rightarrow> source \<Rightarrow> bool"
  assumes read_feeds:
    "feeds c src \<Longrightarrow> rd c (Suc k) = ((got, err), c') \<Longrightarrow>
       length got \<le> Suc k \<and> (\<exists>rest. pending src = got @ rest \<and> feeds c' (src\<lparr>pending := rest\<rparr>) \<and>
         (case err of None \<Rightarrow> got \<noteq> [] | Some e \<Rightarrow> rest = [] \<and> e = final_err src))"
begin

text \<open>The buffer has the first bytes of the source, the socket the others.\<close>

definition holds :: "'c pooledBuffer \<Rightarrow> source \<Rightarrow> bool" where
  "holds pb src \<longleftrightarrow> \<not> pb_closed pb \<and> 0 < pb_cap pb \<and>
     (\<exists>rest. pending src = pb_unread pb @ rest \<and> feeds (pb_rw pb) (src\<lparr>pending := rest\<rparr>) \<and>
       (\<forall>e. pb_err pb = Some e \<longrightarrow> rest = [] \<and> e = final_err src))"

lemma new_holds: "feeds c src \<Longrightarrow> 0 < cap \<Longrightarrow> holds (newPooledReadBuffer c cap) src"
  by (simp add: holds_def newPooledReadBuffer_def)

lemma refill_holds:
  assumes h: "holds pb src" and r: "pb_refill rd pb = (res, pb')"
  shows "holds pb' src \<and> (case res of None \<Rightarrow> pb_unread pb' \<noteq> [] | Some e \<Rightarrow> pending src = [] \<and> e = final_err src)"
proof (cases "pb_unread pb = []")
  case False
  then show ?thesis using h r by (auto simp: pb_refill_def)
next
  case empty: True
  then have f: "feeds (pb_rw pb) src" using h by (auto simp: holds_def)
  show ?thesis
  proof (cases "pb_err pb")
    case (Some e)
    have res: "res = Some e" "pb' = pb\<lparr>pb_err := None\<rparr>" using r empty Some by (auto simp: pb_refill_def)
    have e: "pending src = []" "e = final_err src" using h empty Some by (auto simp: holds_def)
    then have eq: "src\<lparr>pending := []\<rparr> = src" by simp
    show ?thesis using e f h empty by (simp add: res holds_def eq)
  next
    case None
    obtain got err c where g: "rd (pb_rw pb) (pb_cap pb) = ((got, err), c)" by (metis prod.exhaust)
    have "pb_cap pb = Suc (pb_cap pb - 1)" using h by (simp add: holds_def)
    from read_feeds [OF f, of "pb_cap pb - 1", folded this, OF g] obtain rest where rest: "pending src = got @ rest"
      "feeds c (src\<lparr>pending := rest\<rparr>)" "case err of None \<Rightarrow> got \<noteq> [] | Some e \<Rightarrow> rest = [] \<and> e = final_err src" by blast
    show ?thesis
      using h r rest by (auto simp: pb_refill_def holds_def empty None g split: option.splits if_splits)
  qed
qed

lemma holds_drop:
  "holds pb src \<Longrightarrow> n \<le> length (pb_unread pb) \<Longrightarrow>
     holds (pb\<lparr>pb_unread := drop n (pb_unread pb)\<rparr>) (src\<lparr>pending := drop n (pending src)\<rparr>)"
  by (auto simp: holds_def)

lemma holds_unread: "holds pb src \<Longrightarrow> \<exists>rest. pending src = pb_unread pb @ rest"
  by (auto simp: holds_def)

lemma pooled_stream: "byte_stream (pb_Read rd) holds"
proof (unfold_locales, goal_cases)
  case (1 pb src k got err pb')
  then have open_pb: "\<not> pb_closed pb" by (simp add: holds_def)
  obtain res pb1 where r: "pb_refill rd pb = (res, pb1)" by fastforce
  note R = refill_holds [OF 1(1) r]
  show ?case
  proof (cases res)
    case (Some e)
    then show ?thesis using 1 R by (auto simp: pb_Read_def open_pb r)
  next
    case None
    let ?n = "min (Suc k) (length (pb_unread pb1))"
    have got: "got = take (Suc k) (pb_unread pb1)" "err = None" "pb' = pb1\<lparr>pb_unread := drop (Suc k) (pb_unread pb1)\<rparr>"
      using 1(2) None by (auto simp: pb_Read_def open_pb r)
    obtain rest where "pending src = pb_unread pb1 @ rest" using R holds_unread by blast
    moreover have "drop ?n (pb_unread pb1) = drop (Suc k) (pb_unread pb1)" by (simp add: min_def)
    ultimately show ?thesis
      using R holds_drop [of pb1 src ?n] None by (auto simp: got min_def intro!: exI [of _ "drop (Suc k) (pb_unread pb1) @ rest"])
  qed
qed

lemma ReadByte_exact:
  assumes "holds pb src"
  shows "\<exists>pb'. pb_ReadByte rd pb = (fst (go_ReadByte src), pb') \<and> holds pb' (snd (go_ReadByte src))"
proof -
  obtain res pb1 where r: "pb_refill rd pb = (res, pb1)" by fastforce
  note R = refill_holds [OF assms r]
  have op: "\<not> pb_closed pb" using assms by (simp add: holds_def)
  show ?thesis
  proof (cases res)
    case (Some e)
    then show ?thesis using R by (auto simp: pb_ReadByte_def r op go_ReadByte_def)
  next
    case None
    then obtain b bs where b: "pb_unread pb1 = b # bs" using R by (auto simp: neq_Nil_conv)
    moreover obtain rest where "pending src = pb_unread pb1 @ rest" using R holds_unread by blast
    ultimately show ?thesis using R holds_drop [of pb1 src 1] None by (auto simp: pb_ReadByte_def r op go_ReadByte_def)
  qed
qed

lemma until_exact:
  "holds pb src \<Longrightarrow> \<exists>pb'. pb_until rd d acc pb = Some ((acc @ fst (fst (src_until d src)), snd (fst (src_until d src))), pb') \<and>
     holds pb' (snd (src_until d src))"
proof (induction "length (pending src)" arbitrary: pb src acc rule: less_induct)
  case less
  obtain res pb1 where r: "pb_refill rd pb = (res, pb1)" by fastforce
  note R = refill_holds [OF less.prems r]
  obtain rest where rest: "pending src = pb_unread pb1 @ rest" using R holds_unread by blast
  show ?case
  proof (cases res)
    case (Some e)
    then show ?thesis using R by (subst pb_until.simps) (auto simp: r src_until_def)
  next
    case None
    show ?thesis
    proof (cases "go_IndexByte (pb_unread pb1) d")
      case (Some i)
      then have "i < length (pb_unread pb1)" by (blast dest: go_IndexByte_SomeD)
      then show ?thesis using R None Some holds_drop [of pb1 src "i + 1"]
        by (subst pb_until.simps) (auto simp: r src_until_def rest go_IndexByte_app)
    next
      case no: None
      let ?pb = "pb1\<lparr>pb_unread := []\<rparr>" and ?src = "src\<lparr>pending := rest\<rparr>"
      have "holds ?pb ?src" using R holds_drop [of pb1 src "length (pb_unread pb1)"] rest by simp
      moreover have "length rest < length (pending src)" using R None rest by simp
      ultimately obtain pb' where pb': "pb_until rd d (acc @ pb_unread pb1) ?pb =
          Some (((acc @ pb_unread pb1) @ fst (fst (src_until d ?src)), snd (fst (src_until d ?src))), pb')" "holds pb' (snd (src_until d ?src))"
        using less.hyps [of ?src ?pb "acc @ pb_unread pb1"] by auto
      moreover have "pb_until rd d acc pb = pb_until rd d (acc @ pb_unread pb1) ?pb"
        using None no by (subst pb_until.simps) (simp add: r)
      moreover have "src_until d src =
          (case src_until d ?src of ((x, e), s) \<Rightarrow> ((pb_unread pb1 @ x, e), s))"
        using no by (auto simp: src_until_def rest go_IndexByte_app split: option.split)
      ultimately show ?thesis by (auto split: prod.splits)
    qed
  qed
qed

lemma line_exact:
  "holds pb src \<Longrightarrow> LF \<notin> set acc \<Longrightarrow> \<exists>pb'. pb_line rd acc pb =
     (case src_line (src\<lparr>pending := acc @ pending src\<rparr>) of (res, src') \<Rightarrow> Some (res, pb')) \<and> holds pb' (snd (src_line src))"
proof (induction "length (pending src)" arbitrary: pb src acc rule: less_induct)
  case less
  obtain res pb1 where r: "pb_refill rd pb = (res, pb1)" by fastforce
  note R = refill_holds [OF less.prems(1) r]
  obtain rest where rest: "pending src = pb_unread pb1 @ rest" using R holds_unread by blast
  show ?case
  proof (cases res)
    case (Some e)
    then show ?thesis using R less.prems(2) by (subst pb_line.simps) (auto simp: r src_line_def)
  next
    case None
    show ?thesis
    proof (cases "go_IndexByte (pb_unread pb1) LF")
      case (Some i)
      then have "i < length (pb_unread pb1)" by (blast dest: go_IndexByte_SomeD)
      then show ?thesis using R None Some less.prems(2) holds_drop [of pb1 src "i + 1"]
        by (subst pb_line.simps) (auto simp: r src_line_def rest go_IndexByte_app)
    next
      case no: None
      let ?pb = "pb1\<lparr>pb_unread := []\<rparr>" and ?src = "src\<lparr>pending := rest\<rparr>"
      have "holds ?pb ?src" using R holds_drop [of pb1 src "length (pb_unread pb1)"] rest by simp
      moreover have "length rest < length (pending src)" using R None rest by simp
      moreover have "LF \<notin> set (acc @ pb_unread pb1)" using no less.prems(2) by simp
      ultimately obtain pb' where pb': "pb_line rd (acc @ pb_unread pb1) ?pb =
          (case src_line (?src\<lparr>pending := (acc @ pb_unread pb1) @ pending ?src\<rparr>) of (res, src') \<Rightarrow> Some (res, pb'))" "holds pb' (snd (src_line ?src))"
        using less.hyps [of ?src ?pb "acc @ pb_unread pb1"] by auto
      moreover have "pb_line rd acc pb = pb_line rd (acc @ pb_unread pb1) ?pb"
        using None no by (subst pb_line.simps) (simp add: r)
      moreover have "snd (src_line src) = snd (src_line ?src)"
        using no by (auto simp: src_line_def rest go_IndexByte_app split: option.split)
      ultimately show ?thesis by (auto simp: rest)
    qed
  qed
qed

lemma bounded_exact:
  "holds pb src \<Longrightarrow> length line < limit \<Longrightarrow> \<exists>pb'. pb_bounded rd limit line pb =
     ((line @ fst (fst (src_bounded (limit - length line) src)), snd (fst (src_bounded (limit - length line) src))), pb') \<and>
     holds pb' (snd (src_bounded (limit - length line) src))"
proof (induction "length (pending src)" arbitrary: pb src line rule: less_induct)
  case less
  obtain res pb1 where r: "pb_refill rd pb = (res, pb1)" by fastforce
  note R = refill_holds [OF less.prems(1) r]
  obtain rest where rest: "pending src = pb_unread pb1 @ rest" using R holds_unread by blast
  let ?u = "pb_unread pb1" and ?room = "limit - length line"
  show ?case
  proof (cases res)
    case (Some e)
    then show ?thesis using R less.prems(2) by (subst pb_bounded.simps) (auto simp: r src_bounded_def)
  next
    case None
    then have u: "?u \<noteq> []" using R by simp
    note seg = segment_len_bounds [OF u]
    let ?n = "segment_len ?u"
    show ?thesis
    proof (cases "?room < ?n")
      case True
      then show ?thesis
        using R None seg holds_drop [of pb1 src ?room]
        by (subst pb_bounded.simps) (auto simp: r Let_def src_bounded_def rest segment_len_app)
    next
      case fits: False
      show ?thesis
      proof (cases "LF \<in> set ?u")
        case True
        then show ?thesis
          using R None seg fits segment_len_LF [OF True] holds_drop [of pb1 src ?n]
          by (subst pb_bounded.simps) (auto simp: r Let_def src_bounded_def rest segment_len_app)
      next
        case no: False
        then have n: "?n = length ?u" by (simp add: segment_len_def)
        have last: "?u ! (length ?u - 1) \<noteq> LF" using no u by (metis last_conv_nth last_in_set)
        let ?pb = "pb1\<lparr>pb_unread := []\<rparr>" and ?src = "src\<lparr>pending := rest\<rparr>"
        have h: "holds ?pb ?src" using R holds_drop [of pb1 src "length ?u"] rest by simp
        show ?thesis
        proof (cases "length (line @ ?u) = limit")
          case True
          then show ?thesis
            using R None n last h no
            by (subst pb_bounded.simps) (auto simp: r Let_def src_bounded_def rest segment_len_app)
        next
          case more: False
          then have room: "length (line @ ?u) < limit" using fits n less.prems(2) by simp
          have "pb_bounded rd limit line pb = pb_bounded rd limit (line @ ?u) ?pb"
            using R None n last fits more by (subst pb_bounded.simps) (simp add: r Let_def)
          moreover have "src_bounded ?room src = (case src_bounded (limit - length (line @ ?u)) ?src of ((x, e), s) \<Rightarrow> ((?u @ x, e), s))"
            using no room fits n by (auto simp: src_bounded_def rest segment_len_app)
          ultimately show ?thesis using less.hyps [OF _ h room] u rest by (auto split: prod.splits)
        qed
      qed
    qed
  qed
qed

end

subsection \<open>Sequences of reads\<close>

datatype read_cmd = CmdByte | CmdLine | CmdBounded int | CmdString char

definition run_cmd :: "'c reader \<Rightarrow> read_cmd \<Rightarrow> 'c pooledBuffer \<Rightarrow> ((string \<times> go_error option) \<times> 'c pooledBuffer) option" where
  "run_cmd rd c pb =
     (case c of
        CmdByte \<Rightarrow> Some (case pb_ReadByte rd pb of (Inl e, pb1) \<Rightarrow> (([], Some e), pb1) | (Inr b, pb1) \<Rightarrow> (([b], None), pb1))
      | CmdLine \<Rightarrow> pb_ReadLine rd pb
      | CmdBounded limit \<Rightarrow> Some (pb_ReadBoundedLine rd limit pb)
      | CmdString delim \<Rightarrow> pb_ReadString rd delim pb)"

definition src_cmd :: "read_cmd \<Rightarrow> source \<Rightarrow> (string \<times> go_error option) \<times> source" where
  "src_cmd c src =
     (case c of
        CmdByte \<Rightarrow> (case go_ReadByte src of (Inl e, s) \<Rightarrow> (([], Some e), s) | (Inr b, s) \<Rightarrow> (([b], None), s))
      | CmdLine \<Rightarrow> src_line src
      | CmdBounded limit \<Rightarrow> if limit \<le> 0 then (([], Some ErrShortBuffer), src) else src_bounded (nat limit) src
      | CmdString delim \<Rightarrow> src_until delim src)"

fun run_cmds :: "'c reader \<Rightarrow> read_cmd list \<Rightarrow> 'c pooledBuffer \<Rightarrow> ((string \<times> go_error option) list \<times> 'c pooledBuffer) option" where
  "run_cmds rd [] pb = Some ([], pb)"
| "run_cmds rd (c # cs) pb =
     Option.bind (run_cmd rd c pb) (\<lambda>(res, pb1). map_option (\<lambda>(rs, pb2). (res # rs, pb2)) (run_cmds rd cs pb1))"

fun src_cmds :: "read_cmd list \<Rightarrow> source \<Rightarrow> (string \<times> go_error option) list \<times> source" where
  "src_cmds [] src = ([], src)"
| "src_cmds (c # cs) src = (case src_cmd c src of (res, s1) \<Rightarrow> case src_cmds cs s1 of (rs, s2) \<Rightarrow> (res # rs, s2))"

text \<open>\<open>readBoundedLine\<close> of the chunked reader over a reader that has \<open>ReadBoundedLine\<close>, as the connection has.\<close>

definition readBoundedLine_fast :: "'c reader \<Rightarrow> nat \<Rightarrow> go_error \<Rightarrow> 'c pooledBuffer \<Rightarrow> (go_error + string) \<times> 'c pooledBuffer" where
  "readBoundedLine_fast rd limit limitErr pb =
     (case pb_ReadBoundedLine rd (int limit) pb of
        ((line, err), pb1) \<Rightarrow>
          ((if (case err of Some e \<Rightarrow> go_Is e ErrShortBuffer | None \<Rightarrow> False) \<or> length line > limit then Inl limitErr
            else (case err of Some e \<Rightarrow> Inl e | None \<Rightarrow> Inr line)), pb1))"

lemma segment_len_Cons: "segment_len (b # bs) = (if b = LF then 1 else Suc (segment_len bs))"
  by (auto simp: segment_len_def split: option.split)

lemma src_bounded_Cons:
  assumes "pending src = b # bs" "b \<noteq> LF"
  shows "src_bounded (Suc room) src = (case src_bounded room (src\<lparr>pending := bs\<rparr>) of ((x, e), s) \<Rightarrow> ((b # x, e), s))"
  using assms by (auto simp: src_bounded_def segment_len_Cons)

lemma line_loop_bounded:
  "line_loop room line limitErr src =
     (case src_bounded room src of
        ((x, None), s) \<Rightarrow> (Inr (line @ x), s)
      | ((x, Some e), s) \<Rightarrow> (Inl (if room \<le> length (pending src) then limitErr else e), s))"
proof (induction room arbitrary: line src)
  case 0
  then show ?case by (auto simp: src_bounded_def)
next
  case (Suc room)
  show ?case
  proof (cases "pending src")
    case Nil
    then show ?thesis by (simp add: go_ReadByte_def src_bounded_def)
  next
    case (Cons b bs)
    show ?thesis
    proof (cases "b = LF")
      case True
      then show ?thesis using Cons by (simp add: go_ReadByte_def src_bounded_def segment_len_Cons)
    next
      case False
      then show ?thesis
        using Cons by (simp add: go_ReadByte_def src_bounded_Cons [OF Cons] Suc.IH split: prod.split option.split)
    qed
  qed
qed

context byte_stream
begin

lemma cmd_exact:
  assumes h: "holds pb src"
  shows "\<exists>pb'. run_cmd rd c pb = Some (fst (src_cmd c src), pb') \<and> holds pb' (snd (src_cmd c src))"
proof -
  have op: "\<not> pb_closed pb" using h by (simp add: holds_def)
  show ?thesis
  proof (cases c)
    case CmdByte
    then show ?thesis using ReadByte_exact [OF h] by (auto simp: run_cmd_def src_cmd_def split: prod.split sum.split)
  next
    case CmdLine
    then show ?thesis using line_exact [OF h, of "[]"] by (cases "src_line src") (auto simp: run_cmd_def src_cmd_def pb_ReadLine_def op)
  next
    case (CmdBounded limit)
    then show ?thesis
      using bounded_exact [OF h, of "[]" "nat limit"] h op by (auto simp: run_cmd_def src_cmd_def pb_ReadBoundedLine_def)
  next
    case (CmdString delim)
    then show ?thesis
      using until_exact [OF h, of delim "[]"] by (auto simp: run_cmd_def src_cmd_def pb_ReadString_def pb_ReadBytes_def op)
  qed
qed

lemma cmds_exact:
  "holds pb src \<Longrightarrow> \<exists>pb'. run_cmds rd cs pb = Some (fst (src_cmds cs src), pb') \<and> holds pb' (snd (src_cmds cs src))"
proof (induction cs arbitrary: pb src)
  case (Cons c cs)
  obtain pb1 where pb1: "run_cmd rd c pb = Some (fst (src_cmd c src), pb1)" "holds pb1 (snd (src_cmd c src))"
    using cmd_exact [OF Cons.prems] by blast
  from Cons.IH [OF pb1(2)] pb1(1) show ?case by (auto split: prod.splits)
qed simp

lemma fast_line_exact:
  assumes h: "holds pb src" and l: "0 < limit" and e: "\<not> go_Is (final_err src) ErrShortBuffer"
  shows "\<exists>pb'. readBoundedLine_fast rd limit limitErr pb = (fst (readBoundedLine limit limitErr src), pb') \<and>
    holds pb' (snd (readBoundedLine limit limitErr src))"
proof -
  have op: "\<not> pb_closed pb" using h by (simp add: holds_def)
  obtain pb' where pb': "pb_bounded rd limit [] pb = (fst (src_bounded limit src), pb')" "holds pb' (snd (src_bounded limit src))"
    using bounded_exact [OF h, of "[]" limit] l by auto
  have same: "go_Is ErrShortBuffer ErrShortBuffer" by simp
  have pb: "pb_ReadBoundedLine rd (int limit) pb = (fst (src_bounded limit src), pb')" using l pb'(1) by (simp add: pb_ReadBoundedLine_def op)
  show ?thesis
    using pb'(2) e same by (auto simp: readBoundedLine_fast_def readBoundedLine_def line_loop_bounded pb src_bounded_def)
qed

end

subsection \<open>A socket\<close>

text \<open>
  Packets, whether the error comes together with the last of them, and the error.  The locale is interpreted on this socket, and on the
  buffer over it.
\<close>

type_synonym packets = "string list \<times> bool \<times> go_error"

definition packet_read :: "packets reader" where
  "packet_read = (\<lambda>(segs, together, e) k.
     (case dropWhile (\<lambda>s. s = []) segs of
        [] \<Rightarrow> (([], Some e), ([], together, e))
      | s # ss \<Rightarrow>
          (let rest = drop k s # ss in
           ((take k s, if together \<and> concat rest = [] then Some e else None), (rest, together, e)))))"

definition packet_feeds :: "packets \<Rightarrow> source \<Rightarrow> bool" where
  "packet_feeds = (\<lambda>(segs, together, e) src. concat segs = pending src \<and> e = final_err src)"

lemma concat_dropWhile: "concat (dropWhile (\<lambda>s. s = []) segs) = concat segs"
  by (induction segs) auto

interpretation packets: byte_stream packet_read packet_feeds
proof (unfold_locales, goal_cases)
  case (1 c src k got err c')
  obtain segs together e where c: "c = (segs, together, e)" by (metis prod.exhaust)
  show ?case
  proof (cases "dropWhile (\<lambda>s. s = []) segs")
    case Nil
    then have "concat segs = []" using concat_dropWhile [of segs] by simp
    moreover have "concat segs = pending src" using 1 by (simp add: c packet_feeds_def)
    ultimately have "pending src = []" by metis
    then show ?thesis using 1 Nil by (auto simp: c packet_read_def packet_feeds_def)
  next
    case (Cons s ss)
    then have "s \<noteq> []" "concat segs = s @ concat ss"
      using concat_dropWhile [of segs] hd_dropWhile [of "\<lambda>s. s = []" segs] by auto
    moreover from this have "concat segs = take (Suc k) s @ drop (Suc k) s @ concat ss" by (metis append.assoc append_take_drop_id)
    moreover have "concat segs = pending src" "e = final_err src" using 1 by (simp_all add: c packet_feeds_def)
    ultimately have "pending src = take (Suc k) s @ drop (Suc k) s @ concat ss" "s \<noteq> []" "e = final_err src" by metis+
    then show ?thesis
      using 1(2) Cons by (auto simp: c packet_read_def packet_feeds_def Let_def)
  qed
qed

interpretation buffered: byte_stream "pb_Read packet_read" packets.holds
  by (rule packets.pooled_stream)

text \<open>
  C27: \<^bold>\<open>Reads do not depend on the packets.\<close>  Whatever sequence of \<open>ReadByte\<close>, \<open>ReadLine\<close>, \<open>ReadBoundedLine\<close> and \<open>ReadString\<close>
  calls the server makes on a connection, however the network cuts the bytes and whatever the size of the buffer, every call
  returns, and with the result that it has on the plain sequence of the bytes followed by the error.  So the bytes that arrive may be taken for the
  connection, as the parser does.
\<close>

theorem reads_independent_of_packets:
  assumes "0 < cap"
  shows "\<exists>pb. run_cmds packet_read cmds (newPooledReadBuffer (segs, together, e) cap) =
    Some (fst (src_cmds cmds \<lparr>pending = concat segs, final_err = e\<rparr>), pb)"
  using packets.cmds_exact [OF packets.new_holds [OF _ assms], of "(segs, together, e)" "\<lparr>pending = concat segs, final_err = e\<rparr>" cmds]
  by (auto simp: packet_feeds_def)

theorem reads_independent_of_packets_witness:
  "\<exists>pb. run_cmds packet_read [CmdBounded 4, CmdByte, CmdLine, CmdString (CHR ''x''), CmdByte]
      (newPooledReadBuffer ([''ab'', [], [CHR ''c'', LF, CHR ''d''], [CHR ''e'', CR], [LF, CHR ''f'']], True, EOF) 2) =
    Some ([([CHR ''a'', CHR ''b'', CHR ''c'', LF], None), (''d'', None), (''e'', None), (''f'', Some EOF), ([], Some EOF)], pb)"
proof -
  have "src_cmds [CmdBounded 4, CmdByte, CmdLine, CmdString (CHR ''x''), CmdByte]
      \<lparr>pending = concat [''ab'', [], [CHR ''c'', LF, CHR ''d''], [CHR ''e'', CR], [LF, CHR ''f'']], final_err = EOF\<rparr> =
    ([([CHR ''a'', CHR ''b'', CHR ''c'', LF], None), (''d'', None), (''e'', None), (''f'', Some EOF), ([], Some EOF)],
     \<lparr>pending = [], final_err = EOF\<rparr>)" by code_simp
  with reads_independent_of_packets [of 2 "[CmdBounded 4, CmdByte, CmdLine, CmdString (CHR ''x''), CmdByte]"
      "[''ab'', [], [CHR ''c'', LF, CHR ''d''], [CHR ''e'', CR], [LF, CHR ''f'']]" True EOF]
  show ?thesis by simp
qed

text \<open>
  C30: \<^bold>\<open>The fast path of the chunked reader.\<close>  On a connection \<open>readBoundedLine\<close> of the chunked reader takes a line with the connection's own
  \<open>ReadBoundedLine\<close> instead of byte by byte.  The result and the bytes that remain are those of the byte loop, which theory \<open>Chunked\<close> works with.
\<close>

theorem fast_line_is_byte_loop:
  assumes "0 < cap" "0 < limit" "\<not> go_Is e ErrShortBuffer"
  shows "case readBoundedLine_fast packet_read limit limitErr (newPooledReadBuffer (segs, together, e) cap) of
     (res, pb) \<Rightarrow> res = fst (readBoundedLine limit limitErr \<lparr>pending = concat segs, final_err = e\<rparr>) \<and>
       packets.holds pb (snd (readBoundedLine limit limitErr \<lparr>pending = concat segs, final_err = e\<rparr>))"
proof -
  let ?src = "\<lparr>pending = concat segs, final_err = e\<rparr>"
  have h: "packets.holds (newPooledReadBuffer (segs, together, e) cap) ?src"
    by (rule packets.new_holds [OF _ assms(1)]) (simp add: packet_feeds_def)
  have "\<not> go_Is (final_err ?src) ErrShortBuffer" using assms(3) by simp
  from packets.fast_line_exact [OF h assms(2) this, of limitErr] show ?thesis by (elim exE conjE) simp
qed

theorem fast_line_is_byte_loop_witness:
  "fst (readBoundedLine_fast packet_read 4096 ErrChunkHeaderTooLong (newPooledReadBuffer ([''5'', [CR, LF, CHR ''h'']], False, EOF) 8192)) =
     Inr [CHR ''5'', CR, LF]"
proof -
  have "fst (readBoundedLine 4096 ErrChunkHeaderTooLong \<lparr>pending = concat [''5'', [CR, LF, CHR ''h'']], final_err = EOF\<rparr>) = Inr [CHR ''5'', CR, LF]"
    by code_simp
  with fast_line_is_byte_loop [of 8192 4096 EOF ErrChunkHeaderTooLong "[''5'', [CR, LF, CHR ''h'']]" False]
  show ?thesis by (simp add: case_prod_beta)
qed

section \<open>What the buffered writer sends\<close>

context io_writer
begin

definition sent_total :: "'w bufferedWriter \<Rightarrow> string" where
  "sent_total bw = contents (bw_w bw) @ bw_buf bw"

lemma flush_sends:
  assumes "flushLocked wr bw = (err, bw')"
  shows "bw_buf bw' = [] \<and> bw_cap bw' = bw_cap bw \<and> bw_closed bw' = bw_closed bw \<and>
    (err = None \<longrightarrow> contents (bw_w bw') = sent_total bw) \<and> (\<exists>k. contents (bw_w bw') = contents (bw_w bw) @ take k (bw_buf bw))"
proof (cases "bw_buf bw = []")
  case True
  then show ?thesis using assms by (auto simp: flushLocked_def sent_total_def)
next
  case False
  obtain n e w where w: "wr (bw_w bw) (bw_buf bw) = ((n, e), w)" by (metis prod.exhaust)
  then show ?thesis
    using assms False write_contents [OF w] write_ok_contents by (auto simp: flushLocked_def sent_total_def)
qed

lemma write_sends:
  assumes "writeLocked wr bw p = ((n, err), bw')" "length (bw_buf bw) \<le> bw_cap bw"
  shows "length (bw_buf bw') \<le> bw_cap bw' \<and> bw_cap bw' = bw_cap bw \<and> bw_closed bw' = bw_closed bw \<and>
    (err = None \<longrightarrow> n = length p \<and> sent_total bw' = sent_total bw @ p) \<and>
    (err \<noteq> None \<longrightarrow> bw_buf bw' = [] \<and> (\<exists>k. contents (bw_w bw') = contents (bw_w bw) @ take k (bw_buf bw @ p)))"
proof (cases "p \<noteq> [] \<and> length p > bw_cap bw - length (bw_buf bw)")
  case False
  then show ?thesis using assms by (auto simp: writeLocked_def sent_total_def split: if_splits)
next
  case big: True
  obtain ferr bw1 where f: "flushLocked wr bw = (ferr, bw1)" by fastforce
  note F = flush_sends [OF f]
  show ?thesis
  proof (cases ferr)
    case (Some e)
    from F obtain k where "contents (bw_w bw1) = contents (bw_w bw) @ take k (bw_buf bw)" by blast
    moreover have "take k (bw_buf bw) = take (min k (length (bw_buf bw))) (bw_buf bw @ p)" by (simp add: min_def)
    ultimately show ?thesis using assms F big Some by (auto simp: writeLocked_def f intro: exI [of _ "min k (length (bw_buf bw))"])
  next
    case None
    show ?thesis
    proof (cases "length p \<ge> bw_cap bw")
      case False
      then show ?thesis using assms F big None by (auto simp: writeLocked_def f sent_total_def)
    next
      case True
      obtain m e w where w: "wr (bw_w bw1) p = ((m, e), w)" by (metis prod.exhaust)
      have cont: "contents w = sent_total bw @ take m p" using write_contents [OF w] F None by simp
      have "e = None \<Longrightarrow> m = length p" using write_ok w by blast
      moreover have "sent_total bw @ take m p = contents (bw_w bw) @ take (length (bw_buf bw) + m) (bw_buf bw @ p)"
        by (simp add: sent_total_def)
      ultimately show ?thesis using assms F big None True cont w
        by (auto simp: writeLocked_def f sent_total_def intro: exI [of _ "length (bw_buf bw) + m"])
    qed
  qed
qed

end

text \<open>Calls of the writer up to the first error, as the response writer makes them.\<close>

datatype write_cmd = CmdWrite string | CmdWriteString string | CmdFlush

primrec cmd_data :: "write_cmd \<Rightarrow> string" where
  "cmd_data (CmdWrite p) = p"
| "cmd_data (CmdWriteString s) = s"
| "cmd_data CmdFlush = []"

definition write_cmd :: "'w writer \<Rightarrow> write_cmd \<Rightarrow> 'w bufferedWriter \<Rightarrow> go_error option \<times> 'w bufferedWriter" where
  "write_cmd wr c bw =
     (case c of
        CmdWrite p \<Rightarrow> (case bw_Write wr bw p of ((n, err), bw1) \<Rightarrow> (err, bw1))
      | CmdWriteString s \<Rightarrow> (case bw_WriteString wr bw s of ((n, err), bw1) \<Rightarrow> (err, bw1))
      | CmdFlush \<Rightarrow> bw_Flush wr bw)"

fun write_cmds :: "'w writer \<Rightarrow> write_cmd list \<Rightarrow> 'w bufferedWriter \<Rightarrow> go_error option \<times> 'w bufferedWriter" where
  "write_cmds wr [] bw = (None, bw)"
| "write_cmds wr (c # cs) bw = (case write_cmd wr c bw of (Some e, bw1) \<Rightarrow> (Some e, bw1) | (None, bw1) \<Rightarrow> write_cmds wr cs bw1)"

lemma WriteString_is_Write: "bw_WriteString wr bw s = bw_Write wr bw s"
  by (simp add: bw_WriteString_def bw_Write_def writeLocked_def)

context io_writer
begin

lemma cmd_sends:
  assumes "write_cmd wr c bw = (err, bw')" "length (bw_buf bw) \<le> bw_cap bw" "\<not> bw_closed bw"
  shows "length (bw_buf bw') \<le> bw_cap bw' \<and> \<not> bw_closed bw' \<and>
    (err = None \<longrightarrow> sent_total bw' = sent_total bw @ cmd_data c \<and> (c = CmdFlush \<longrightarrow> bw_buf bw' = [])) \<and>
    (err \<noteq> None \<longrightarrow> bw_buf bw' = [] \<and> (\<exists>k. contents (bw_w bw') = contents (bw_w bw) @ take k (bw_buf bw @ cmd_data c)))"
proof (cases c)
  case (CmdWrite p)
  obtain n e where w: "writeLocked wr bw p = ((n, e), bw')" "err = e"
    using assms(1,3) by (auto simp: CmdWrite write_cmd_def bw_Write_def split: prod.splits)
  then show ?thesis using write_sends [OF w(1) assms(2)] assms(3) by (simp add: CmdWrite)
next
  case (CmdWriteString p)
  obtain n e where w: "writeLocked wr bw p = ((n, e), bw')" "err = e"
    using assms(1,3) by (auto simp: CmdWriteString write_cmd_def WriteString_is_Write bw_Write_def split: prod.splits)
  then show ?thesis using write_sends [OF w(1) assms(2)] assms(3) by (simp add: CmdWriteString)
next
  case CmdFlush
  then have "flushLocked wr bw = (err, bw')" using assms(1,3) by (simp add: write_cmd_def bw_Flush_def)
  from flush_sends [OF this] show ?thesis using assms(3) by (auto simp: CmdFlush sent_total_def)
qed

lemma cmds_send:
  "write_cmds wr cs bw = (err, bw') \<Longrightarrow> length (bw_buf bw) \<le> bw_cap bw \<Longrightarrow> \<not> bw_closed bw \<Longrightarrow>
     length (bw_buf bw') \<le> bw_cap bw' \<and>
     (err = None \<longrightarrow> sent_total bw' = sent_total bw @ concat (map cmd_data cs) \<and> (cs \<noteq> [] \<and> last cs = CmdFlush \<longrightarrow> bw_buf bw' = [])) \<and>
     (err \<noteq> None \<longrightarrow> bw_buf bw' = [] \<and> (\<exists>k. contents (bw_w bw') = take k (sent_total bw @ concat (map cmd_data cs))))"
proof (induction cs arbitrary: bw)
  case (Cons c cs)
  obtain e1 bw1 where s: "write_cmd wr c bw = (e1, bw1)" by fastforce
  note S = cmd_sends [OF s Cons.prems(2,3)]
  show ?case
  proof (cases e1)
    case (Some e)
    then obtain k where "contents (bw_w bw1) = contents (bw_w bw) @ take k (bw_buf bw @ cmd_data c)" "bw_buf bw1 = []" using S by auto
    moreover have "contents (bw_w bw) @ take k (bw_buf bw @ cmd_data c) =
        take (length (contents (bw_w bw)) + min k (length (bw_buf bw @ cmd_data c))) (sent_total bw @ concat (map cmd_data (c # cs)))"
      by (auto simp: sent_total_def min_def)
    ultimately show ?thesis using Cons.prems(1) s Some S by auto
  next
    case None
    then have rest: "write_cmds wr cs bw1 = (err, bw')" using Cons.prems(1) s by simp
    from Cons.IH [OF rest] S None rest show ?thesis by (cases cs) auto
  qed
qed (simp add: sent_total_def)

end

text \<open>A socket that has sent some bytes and whose next writes take everything or fail after some bytes.\<close>

type_synonym socket = "string \<times> nat option list"

definition socket_write :: "socket writer" where
  "socket_write = (\<lambda>(sent, answers) p.
     (case answers of
        [] \<Rightarrow> ((length p, None), (sent @ p, []))
      | None # as \<Rightarrow> ((length p, None), (sent @ p, as))
      | Some k # as \<Rightarrow> ((min k (length p), Some (ErrNew ''write'')), (sent @ take k p, as))))"

interpretation socket: io_writer socket_write fst
  by unfold_locales (auto simp: socket_write_def min_def split: prod.splits list.splits option.splits if_splits)

text \<open>
  C29: \<^bold>\<open>Nothing is reordered, lost or repeated on the way to the socket.\<close>  However a socket behaves, while the writes of a
  connection succeed, what was written is on the socket or, at most one buffer of it, still in the buffer, in order; after a flush it is on the
  socket.  When a write or a flush fails, what the socket has is a prefix of what was written.
\<close>

theorem buffered_writer_in_order:
  assumes "write_cmds socket_write cmds (newBufferedWriter (sent, answers) cap) = (err, bw)"
  shows "(err = None \<longrightarrow> fst (bw_w bw) @ bw_buf bw = sent @ concat (map cmd_data cmds) \<and> length (bw_buf bw) \<le> bw_cap bw \<and>
      (cmds \<noteq> [] \<and> last cmds = CmdFlush \<longrightarrow> fst (bw_w bw) = sent @ concat (map cmd_data cmds))) \<and>
    (err \<noteq> None \<longrightarrow> (\<exists>k. fst (bw_w bw) = take k (sent @ concat (map cmd_data cmds))))"
  using socket.cmds_send [OF assms] by (auto simp: newBufferedWriter_def socket.sent_total_def)

theorem buffered_writer_in_order_witness:
  "\<exists>k. fst (bw_w (snd (write_cmds socket_write [CmdWriteString ''ab'', CmdWrite ''cdef'', CmdFlush]
     (newBufferedWriter ([], [None, Some 1]) 4)))) = take k ''abcdef''"
proof -
  let ?r = "write_cmds socket_write [CmdWriteString ''ab'', CmdWrite ''cdef'', CmdFlush] (newBufferedWriter ([], [None, Some 1]) 4)"
  have "fst ?r \<noteq> None" by code_simp
  with buffered_writer_in_order [of "[CmdWriteString ''ab'', CmdWrite ''cdef'', CmdFlush]" "[]" "[None, Some 1]" 4 "fst ?r" "snd ?r"]
  show ?thesis by simp
qed

section \<open>Closing\<close>

datatype conn_cmd =
    CmdClose "go_error option"
  | CmdAbort "go_error option"
  | CmdConnRead nat "go_error option" int
  | CmdConnWrite string "go_error option" int
  | CmdConnFlush

definition conn_cmd :: "'c reader \<Rightarrow> 'w writer \<Rightarrow> conn_cmd \<Rightarrow> ('c, 'w) Connection \<Rightarrow> ('c, 'w) Connection" where
  "conn_cmd rd wr c cn =
     (case c of
        CmdClose sock \<Rightarrow> snd (Connection_Close wr sock cn)
      | CmdAbort sock \<Rightarrow> snd (Connection_Abort wr sock cn)
      | CmdConnRead k deadline now \<Rightarrow> snd (Connection_Read rd deadline now cn k)
      | CmdConnWrite p deadline now \<Rightarrow> snd (Connection_Write wr deadline now cn p)
      | CmdConnFlush \<Rightarrow> snd (Connection_Flush wr cn))"

definition run_conn :: "'c reader \<Rightarrow> 'w writer \<Rightarrow> conn_cmd list \<Rightarrow> ('c, 'w) Connection \<Rightarrow> ('c, 'w) Connection" where
  "run_conn rd wr cs cn = fold (conn_cmd rd wr) cs cn"

definition closing :: "conn_cmd \<Rightarrow> bool" where
  "closing c \<longleftrightarrow> (case c of CmdClose _ \<Rightarrow> True | CmdAbort _ \<Rightarrow> True | _ \<Rightarrow> False)"

definition conn_open :: "('c, 'w) Connection \<Rightarrow> bool" where
  "conn_open cn \<longleftrightarrow> \<not> cn_once cn \<and> \<not> cn_socketOnce cn \<and> \<not> cn_closed cn \<and> cn_state cn = ConnStateActive \<and>
     cn_socket_closes cn = 0 \<and> cn_puts cn = 0 \<and> pb_held (cn_reader cn) \<and> \<not> pb_closed (cn_reader cn) \<and>
     bw_held (cn_writer cn) \<and> \<not> bw_closed (cn_writer cn)"

definition conn_shut :: "('c, 'w) Connection \<Rightarrow> bool" where
  "conn_shut cn \<longleftrightarrow> cn_once cn \<and> cn_socketOnce cn \<and> cn_closed cn \<and> cn_state cn = ConnStateClosed \<and>
     cn_socket_closes cn = 1 \<and> cn_puts cn = 2 \<and> \<not> pb_held (cn_reader cn) \<and> pb_closed (cn_reader cn) \<and>
     \<not> bw_held (cn_writer cn) \<and> bw_closed (cn_writer cn)"

lemma flushLocked_keeps: "flushLocked wr bw = (e, bw') \<Longrightarrow> bw_held bw' = bw_held bw \<and> bw_closed bw' = bw_closed bw"
  by (auto simp: flushLocked_def split: if_splits prod.splits)

lemma bw_Write_keeps: "bw_Write wr bw p = (r, bw') \<Longrightarrow> bw_held bw' = bw_held bw \<and> bw_closed bw' = bw_closed bw"
  by (auto simp: bw_Write_def writeLocked_def dest!: flushLocked_keeps split: if_splits prod.splits option.splits)

lemma pb_Read_keeps: "pb_Read rd pb k = (r, pb') \<Longrightarrow> pb_held pb' = pb_held pb \<and> pb_closed pb' = pb_closed pb"
  by (auto simp: pb_Read_def pb_refill_def split: if_splits prod.splits option.splits)

lemma close_opens_shut: "conn_open cn \<Longrightarrow> conn_shut (snd (connection_close wr False sock cn))"
  by (auto simp: SetState_def conn_open_def conn_shut_def connection_close_def close_socket_def release_reader_def pb_close_def bw_close_def
      releaseBufferLocked_def dest: flushLocked_keeps split: prod.splits if_splits)

lemma abort_opens_shut: "conn_open cn \<Longrightarrow> conn_shut (snd (Connection_Abort wr sock cn))"
  by (auto simp: SetState_def Connection_Abort_def conn_open_def conn_shut_def connection_close_def close_socket_def release_reader_def pb_close_def
      closeDiscard_def releaseBufferLocked_def split: prod.splits if_splits)

lemma cmd_keeps_open:
  assumes "conn_open cn" "\<not> closing c"
  shows "conn_open (conn_cmd rd wr c cn)"
proof (cases c)
  case (CmdConnRead k deadline now)
  then show ?thesis
    using assms(1) by (auto simp: conn_cmd_def Connection_Read_def conn_open_def UpdateActivity_def dest!: pb_Read_keeps
        split: prod.splits option.splits if_splits)
next
  case (CmdConnWrite p deadline now)
  then show ?thesis
    using assms(1) by (auto simp: conn_cmd_def Connection_Write_def conn_open_def UpdateActivity_def dest!: bw_Write_keeps
        split: prod.splits option.splits if_splits)
next
  case CmdConnFlush
  then show ?thesis
    using assms(1) by (auto simp: conn_cmd_def Connection_Flush_def bw_Flush_def conn_open_def dest!: flushLocked_keeps
        split: prod.splits)
qed (use assms(2) in \<open>simp_all add: closing_def\<close>)

lemma cmd_keeps_shut:
  assumes "conn_shut cn"
  shows "conn_shut (conn_cmd rd wr c cn)"
proof (cases c)
  case (CmdConnRead k deadline now)
  then show ?thesis
    using assms by (auto simp: conn_cmd_def Connection_Read_def conn_shut_def pb_Read_def UpdateActivity_def split: option.splits)
next
  case (CmdConnWrite p deadline now)
  then show ?thesis
    using assms by (auto simp: conn_cmd_def Connection_Write_def conn_shut_def bw_Write_def UpdateActivity_def split: option.splits)
qed (use assms in \<open>auto simp: conn_cmd_def Connection_Close_def Connection_Abort_def Connection_Flush_def bw_Flush_def connection_close_def
      close_socket_def conn_shut_def\<close>)

text \<open>
  C28: \<^bold>\<open>A connection is released exactly once.\<close>  In any sequence of reads, writes, flushes, \<open>Close\<close> and \<open>Abort\<close> calls on a new connection, with
  any answers of the socket, the first \<open>Close\<close> or \<open>Abort\<close> closes the socket and gives both buffers back to the pool; nothing before it and nothing after
  it does.  So no buffer is handed to two connections, and none leaks.
\<close>

theorem connection_released_once:
  "(if list_ex closing cmds then conn_shut else conn_open) (run_conn rd wr cmds (newConnection c w cap config now))"
proof -
  have new: "conn_open (newConnection c w cap config now)"
    by (simp add: newConnection_def conn_open_def newPooledReadBuffer_def newBufferedWriter_def)
  have shut: "conn_shut (fold (conn_cmd rd wr) cs k)" if "conn_shut k" for cs k
    using that by (induction cs arbitrary: k) (simp_all add: cmd_keeps_shut)
  have first: "conn_shut (conn_cmd rd wr x k)" if "conn_open k" "closing x" for x k
    using that close_opens_shut abort_opens_shut by (auto simp: conn_cmd_def closing_def Connection_Close_def split: conn_cmd.splits)
  have "conn_open k \<Longrightarrow> (if list_ex closing cmds then conn_shut else conn_open) (fold (conn_cmd rd wr) cmds k)" for k
  proof (induction cmds arbitrary: k)
    case (Cons x cmds)
    then show ?case by (cases "closing x") (simp_all add: shut first cmd_keeps_open)
  qed simp
  then show ?thesis using new by (simp add: run_conn_def)
qed

text \<open>A graceful close sends what is buffered.\<close>

lemma close_sends_buffer:
  assumes "\<not> cn_once cn" "\<not> bw_closed (cn_writer cn)" "Connection_Close socket_write sock cn = (None, cn')"
  shows "fst (bw_w (cn_writer cn')) = fst (bw_w (cn_writer cn)) @ bw_buf (cn_writer cn)"
proof -
  obtain e bw where f: "flushLocked socket_write (cn_writer cn) = (e, bw)" by fastforce
  then have "e = None" "bw_w (cn_writer cn') = bw_w bw"
    using assms by (auto simp: SetState_def Connection_Close_def connection_close_def bw_close_def releaseBufferLocked_def close_socket_def Let_def pb_close_def
        release_reader_def split: if_splits prod.splits)
  then show ?thesis using socket.flush_sends [OF f] by (simp add: socket.sent_total_def)
qed

section \<open>The wait group of the pool\<close>

datatype pool_op = PoolAdd nat | PoolRemove nat | PoolCloseAll

definition pool_op :: "pool_op \<Rightarrow> ConnectionPool \<Rightarrow> ConnectionPool" where
  "pool_op opn p = (case opn of PoolAdd c \<Rightarrow> Pool_Add c p | PoolRemove c \<Rightarrow> Pool_Remove c p | PoolCloseAll \<Rightarrow> fst (Pool_CloseAll p))"

definition pool_ok :: "ConnectionPool \<Rightarrow> bool" where
  "pool_ok p \<longleftrightarrow> distinct (cp_connections p) \<and> cp_wg p = int (Pool_Count p)"

lemma length_removeAll: "distinct xs \<Longrightarrow> x \<in> set xs \<Longrightarrow> int (length (removeAll x xs)) = int (length xs) - 1"
  by (induction xs) auto

text \<open>
  While no connection is added that is in the pool, the counter of the wait group is the number of connections, so that waiting for
  it ends exactly when the pool is empty.
\<close>

lemma pool_ok_op: "pool_ok p \<Longrightarrow> (\<forall>c. opn = PoolAdd c \<longrightarrow> c \<notin> set (cp_connections p)) \<Longrightarrow> pool_ok (pool_op opn p)"
  by (cases opn) (auto simp: pool_ok_def pool_op_def Pool_Add_def Pool_Remove_def Pool_CloseAll_def Pool_Count_def length_removeAll distinct_removeAll)

lemma pool_ok_new: "pool_ok NewConnectionPool"
  by (simp add: pool_ok_def NewConnectionPool_def Pool_Count_def)

end
