(* ===== verification/Request_Store.thy ===== *)
theory Request_Store
  imports Scenario_Match "HOL-Library.Signed_Division" "HOL-Library.Multiset"
begin

text \<open>
  Storing requests: the record that is made of a request (\<^verbatim>\<open>internal/storage/storage.go\<close>) and the queue and the workers that
  save it (\<^verbatim>\<open>internal/middleware/middleware.go\<close>).

  Making the record reads bodies that were not read yet, so it changes the request; \<^const>\<open>None\<close> means that a body reader never
  ends.  The queue is a buffered channel.  Handlers send to it without waiting, workers receive from it, and \<open>Shutdown\<close> closes it; these
  goroutines interleave freely.  \<open>pool_step\<close> is one step of one of them, and a worker saves for any time between two steps.  What
  \<open>SaveRequest\<close> does with the record is outside: it may fail or panic, which the worker survives.
\<close>

section \<open>The record of a request\<close>

record HTTPMessageRecord =
  hr_Method :: string
  hr_URI :: string
  hr_Status :: string
  hr_StatusText :: string
  hr_Proto :: string
  hr_Headers :: header
  hr_Body :: string
  hr_BodyOmittedReason :: string
  hr_BodyTruncated :: bool
  hr_BodyLimit :: int

record StoredRequest =
  sr_ID :: string
  sr_Timestamp :: int
  sr_Method :: string
  sr_URI :: string
  sr_Headers :: header
  sr_HTTPRequest :: "HTTPMessageRecord option"
  sr_HTTPResponse :: "HTTPMessageRecord option"
  sr_ClientIP :: string
  sr_RemoteAddr :: string
  sr_ProcessingTimeMs :: int
  sr_ResponseStatus :: int

definition bodyOmittedTooLarge :: string where "bodyOmittedTooLarge = ''body_size_limit_exceeded''"
definition bodyOmittedReadError :: string where "bodyOmittedReadError = ''body_read_error''"
definition bodyOmittedPreview :: string where "bodyOmittedPreview = ''preview_remainder_not_materialized''"
definition unlimitedBodyLimit :: int where "unlimitedBodyLimit = -1"

definition copyHeaders :: "header option \<Rightarrow> header" where
  "copyHeaders headers = (case headers of None \<Rightarrow> [] | Some h \<Rightarrow> h)"

definition markBodyOmitted :: "HTTPMessageRecord \<Rightarrow> go_error \<Rightarrow> int \<Rightarrow> HTTPMessageRecord" where
  "markBodyOmitted record err maxBodySize =
     (let record1 = (if maxBodySize > 0 then record\<lparr>hr_BodyLimit := maxBodySize\<rparr> else record) in
      if go_Is err ErrBodyTooLarge then record1\<lparr>hr_BodyTruncated := True, hr_BodyOmittedReason := bodyOmittedTooLarge\<rparr>
      else record1\<lparr>hr_BodyOmittedReason := bodyOmittedReadError\<rparr>)"

definition getHTTPBodyForStorage ::
  "'r body_io \<Rightarrow> ('r, 'b) http_message \<Rightarrow> int \<Rightarrow> ((string option \<times> go_error option) \<times> ('r, 'b) http_message) option" where
  "getHTTPBodyForStorage io msg maxBodySize =
     GetBodyLimited (io_read io) (io_size io) (io_grow io) (if maxBodySize \<le> 0 then unlimitedBodyLimit else maxBodySize) msg"

text \<open>\<open>snapshot\<close> gives the preview of a reader that has one.\<close>

definition copyHTTPBody ::
  "'r body_io \<Rightarrow> ('r \<Rightarrow> string option) \<Rightarrow> int \<Rightarrow> HTTPMessageRecord \<Rightarrow> ('r, 'b) http_message \<Rightarrow>
   (HTTPMessageRecord \<times> ('r, 'b) http_message) option" where
  "copyHTTPBody io snapshot maxBodySize record msg =
     (case PreviewBodySnapshot snapshot (Some msg) of
        (preview, True) \<Rightarrow>
          Some ((case preview of Some b \<Rightarrow> if b \<noteq> [] then record\<lparr>hr_Body := b\<rparr> else record | None \<Rightarrow> record)
                  \<lparr>hr_BodyTruncated := True, hr_BodyOmittedReason := bodyOmittedPreview\<rparr>, msg)
      | (_, False) \<Rightarrow>
          (case getHTTPBodyForStorage io msg maxBodySize of
             None \<Rightarrow> None
           | Some ((_, Some err), msg') \<Rightarrow> Some (markBodyOmitted record err maxBodySize, msg')
           | Some ((body, None), msg') \<Rightarrow>
               Some (case body of Some b \<Rightarrow> if b \<noteq> [] then record\<lparr>hr_Body := b\<rparr> else record | None \<Rightarrow> record, msg')))"

definition fromHTTPRequest ::
  "'r body_io \<Rightarrow> ('r \<Rightarrow> string option) \<Rightarrow> int \<Rightarrow> ('r, 'b) http_message \<Rightarrow> (HTTPMessageRecord \<times> ('r, 'b) http_message) option" where
  "fromHTTPRequest io snapshot maxBodySize msg =
     copyHTTPBody io snapshot maxBodySize
       \<lparr>hr_Method = m_Method msg, hr_URI = m_URI msg, hr_Status = [], hr_StatusText = [], hr_Proto = m_Proto msg,
        hr_Headers = copyHeaders (m_Header msg), hr_Body = [], hr_BodyOmittedReason = [], hr_BodyTruncated = False, hr_BodyLimit = 0\<rparr> msg"

definition fromHTTPResponse ::
  "'r body_io \<Rightarrow> ('r \<Rightarrow> string option) \<Rightarrow> int \<Rightarrow> ('r, 'b) http_message \<Rightarrow> (HTTPMessageRecord \<times> ('r, 'b) http_message) option" where
  "fromHTTPResponse io snapshot maxBodySize msg =
     copyHTTPBody io snapshot maxBodySize
       \<lparr>hr_Method = [], hr_URI = [], hr_Status = m_Status msg, hr_StatusText = m_StatusText msg, hr_Proto = m_Proto msg,
        hr_Headers = copyHeaders (m_Header msg), hr_Body = [], hr_BodyOmittedReason = [], hr_BodyTruncated = False, hr_BodyLimit = 0\<rparr> msg"

text \<open>The ID is the time of day, an argument, and the next value of a process-wide counter.\<close>

definition pad6 :: "string \<Rightarrow> string" where
  "pad6 digits = replicate (6 - length digits) (CHR ''0'') @ digits"

definition GenerateRequestID :: "string \<Rightarrow> int \<Rightarrow> string \<times> int" where
  "GenerateRequestID stamp sequence =
     (let seq = (sequence + 1) mod 2 ^ 64 in (''req-'' @ stamp @ ''-'' @ pad6 (go_Itoa seq), seq))"

definition opt_message ::
  "(('r, 'b) http_message \<Rightarrow> (HTTPMessageRecord \<times> ('r, 'b) http_message) option) \<Rightarrow> ('r, 'b) http_message option \<Rightarrow>
   (HTTPMessageRecord option \<times> ('r, 'b) http_message option) option" where
  "opt_message f mo =
     (case mo of
        None \<Rightarrow> Some (None, None)
      | Some m \<Rightarrow> map_option (\<lambda>(record, m'). (Some record, Some m')) (f m))"

definition FromICAPRequestWithBodyLimit ::
  "'r body_io \<Rightarrow> ('r \<Rightarrow> string option) \<Rightarrow> string \<times> int \<Rightarrow> int \<Rightarrow> int \<Rightarrow> int \<Rightarrow> int \<Rightarrow> ('q, 'r, 'b) request \<Rightarrow>
   ((StoredRequest \<times> int) \<times> ('q, 'r, 'b) request) option" where
  "FromICAPRequestWithBodyLimit io snapshot clock responseStatus processingTime maxBodySize sequence req =
     (case GenerateRequestID (fst clock) sequence of
        (uid, seq) \<Rightarrow>
          (case opt_message (fromHTTPRequest io snapshot maxBodySize) (HTTPRequest req) of
             None \<Rightarrow> None
           | Some (hq, q) \<Rightarrow>
               (case opt_message (fromHTTPResponse io snapshot maxBodySize) (HTTPResponse req) of
                  None \<Rightarrow> None
                | Some (hp, p) \<Rightarrow>
                    Some ((\<lparr>sr_ID = uid, sr_Timestamp = snd clock, sr_Method = r_Method req, sr_URI = r_URI req,
                            sr_Headers = copyHeaders (r_Header req), sr_HTTPRequest = hq, sr_HTTPResponse = hp,
                            sr_ClientIP = ClientIP req, sr_RemoteAddr = RemoteAddr req,
                            sr_ProcessingTimeMs = processingTime sdiv 1000000, sr_ResponseStatus = responseStatus\<rparr>, seq),
                          req\<lparr>HTTPRequest := q, HTTPResponse := p\<rparr>))))"

definition FromICAPRequest ::
  "'r body_io \<Rightarrow> ('r \<Rightarrow> string option) \<Rightarrow> string \<times> int \<Rightarrow> int \<Rightarrow> int \<Rightarrow> int \<Rightarrow> ('q, 'r, 'b) request \<Rightarrow>
   ((StoredRequest \<times> int) \<times> ('q, 'r, 'b) request) option" where
  "FromICAPRequest io snapshot clock responseStatus processingTime sequence req =
     FromICAPRequestWithBodyLimit io snapshot clock responseStatus processingTime 0 sequence req"

section \<open>The queue\<close>

text \<open>\<open>sq_jobs\<close> is the buffer of the channel, \<open>sq_stopped\<close> says that it is closed.\<close>

record 'j storage_queue =
  sq_jobs :: "'j list"
  sq_capacity :: nat
  sq_rejected :: int
  sq_stopped :: bool

record StorageMiddlewareConfig =
  smc_Workers :: int
  smc_QueueSize :: int
  smc_MaxBodySize :: int

definition DefaultStorageMiddlewareConfig :: StorageMiddlewareConfig where
  "DefaultStorageMiddlewareConfig = \<lparr>smc_Workers = 4, smc_QueueSize = 1000, smc_MaxBodySize = 0\<rparr>"

text \<open>A full channel refuses.  (A channel without a buffer, which the constructor below never makes, would need a waiting worker.)\<close>

definition trySendJob :: "'j \<Rightarrow> 'j storage_queue \<Rightarrow> bool \<times> 'j storage_queue" where
  "trySendJob job q =
     (if sq_stopped q then (False, q)
      else if length (sq_jobs q) < sq_capacity q then (True, q\<lparr>sq_jobs := sq_jobs q @ [job]\<rparr>)
      else (False, q\<lparr>sq_rejected := wrap64 (sq_rejected q + 1)\<rparr>))"

text \<open>
  Closing a closed channel panics, with the mutex of the queue still held, so that every later call would block: a
  second shutdown is no step of the model.
\<close>

definition Shutdown_begin :: "'j storage_queue \<Rightarrow> 'j storage_queue option" where
  "Shutdown_begin q = (if sq_stopped q then None else Some (q\<lparr>sq_stopped := True\<rparr>))"

section \<open>The workers\<close>

datatype 'j worker = Waiting | Saving 'j | Exited

text \<open>
  \<open>pl_accepted\<close>, \<open>pl_taken\<close> and \<open>pl_saved\<close> are the history: the jobs that were sent, received by a worker, and handed to
  \<open>SaveRequest\<close> with the call returned.
\<close>

record 'j pool =
  pl_queue :: "'j storage_queue"
  pl_workers :: "'j worker list"
  pl_accepted :: "'j list"
  pl_taken :: "'j list"
  pl_saved :: "'j list"

definition StorageMiddlewareWithPool :: "StorageMiddlewareConfig \<Rightarrow> 'j pool" where
  "StorageMiddlewareWithPool cfg =
     \<lparr>pl_queue = \<lparr>sq_jobs = [], sq_capacity = nat (smc_QueueSize cfg), sq_rejected = 0, sq_stopped = False\<rparr>,
      pl_workers = replicate (nat (smc_Workers cfg)) Waiting, pl_accepted = [], pl_taken = [], pl_saved = []\<rparr>"

definition NewStorageMiddlewareWithPool :: "bool \<Rightarrow> StorageMiddlewareConfig \<Rightarrow> go_error + 'j pool" where
  "NewStorageMiddlewareWithPool storeIsNil cfg =
     (if storeIsNil then Inl (ErrNew ''store cannot be nil'')
      else
        (let cfg1 = (if smc_Workers cfg \<le> 0 then cfg\<lparr>smc_Workers := smc_Workers DefaultStorageMiddlewareConfig\<rparr> else cfg);
             cfg2 = (if smc_QueueSize cfg1 \<le> 0 then cfg1\<lparr>smc_QueueSize := smc_QueueSize DefaultStorageMiddlewareConfig\<rparr> else cfg1)
         in Inr (StorageMiddlewareWithPool cfg2)))"

datatype 'j pool_event = Send 'j | Stop | Work nat

text \<open>
  A worker receives the next job; when the channel is closed and empty its loop ends.  \<open>processStorageJob\<close> returns in any case.
\<close>

definition storageWorker :: "nat \<Rightarrow> 'j pool \<Rightarrow> 'j pool option" where
  "storageWorker i p =
     (if i < length (pl_workers p)
      then (case pl_workers p ! i of
              Exited \<Rightarrow> None
            | Saving j \<Rightarrow> Some (p\<lparr>pl_workers := (pl_workers p)[i := Waiting], pl_saved := pl_saved p @ [j]\<rparr>)
            | Waiting \<Rightarrow>
                (case sq_jobs (pl_queue p) of
                   j # js \<Rightarrow>
                     Some (p\<lparr>pl_workers := (pl_workers p)[i := Saving j], pl_queue := (pl_queue p)\<lparr>sq_jobs := js\<rparr>,
                             pl_taken := pl_taken p @ [j]\<rparr>)
                 | [] \<Rightarrow> if sq_stopped (pl_queue p) then Some (p\<lparr>pl_workers := (pl_workers p)[i := Exited]\<rparr>) else None))
      else None)"

fun pool_step :: "'j pool_event \<Rightarrow> 'j pool \<Rightarrow> 'j pool option" where
  "pool_step (Send job) p =
     (case trySendJob job (pl_queue p) of
        (sent, q) \<Rightarrow> Some (p\<lparr>pl_queue := q, pl_accepted := pl_accepted p @ (if sent then [job] else [])\<rparr>))"
| "pool_step Stop p = map_option (\<lambda>q. p\<lparr>pl_queue := q\<rparr>) (Shutdown_begin (pl_queue p))"
| "pool_step (Work i) p = storageWorker i p"

fun pool_run :: "'j pool_event list \<Rightarrow> 'j pool \<Rightarrow> 'j pool option" where
  "pool_run [] p = Some p"
| "pool_run (e # es) p = (case pool_step e p of None \<Rightarrow> None | Some p1 \<Rightarrow> pool_run es p1)"

text \<open>The pools that occur, whoever sends, stops and works in whatever order.\<close>

inductive pool_reach :: "StorageMiddlewareConfig \<Rightarrow> 'j pool \<Rightarrow> bool" for cfg where
  start: "NewStorageMiddlewareWithPool False cfg = Inr p \<Longrightarrow> pool_reach cfg p"
| step: "pool_reach cfg p \<Longrightarrow> pool_step e p = Some p' \<Longrightarrow> pool_reach cfg p'"

section \<open>What the record keeps of a body\<close>

text \<open>
  C33: \<^bold>\<open>What is stored of a body.\<close>  For a chunked body on the connection that was not read yet: a body within the limit (none, if the
  limit is not positive) is stored in full, whatever the chunks and the buffer sizes, the connection then stands behind the body, and whoever reads the
  body later still gets all of it; a longer body is left out, with the reason, the limit and the mark that it is incomplete.  Start line and
  headers are stored in either case.
\<close>

theorem stored_body_exact:
  assumes "io_read io = multi_read chunked_rd" "unread (Single (NewChunkedReader src)) m" "chunks_ok ps" "ext_ok es"
    and "pending src = concat (map chunk ps) @ zero_chunk es @ rest" "maxBodySize < MaxInt64"
  shows "\<exists>record m'. fromHTTPRequest io (\<lambda>_. None) maxBodySize m = Some (record, m') \<and>
     hr_Method record = m_Method m \<and> hr_URI record = m_URI m \<and> hr_Headers record = copyHeaders (m_Header m) \<and>
     (if 0 < maxBodySize \<and> maxBodySize < int (length (concat ps))
      then hr_Body record = [] \<and> hr_BodyTruncated record \<and> hr_BodyOmittedReason record = bodyOmittedTooLarge \<and>
           hr_BodyLimit record = maxBodySize
      else hr_Body record = concat ps \<and> \<not> hr_BodyTruncated record \<and> hr_BodyOmittedReason record = [] \<and> conn_left m' = rest \<and>
           GetBody (io_read io) (io_size io) (io_grow io) m' = Some ((Some (concat ps), None), m'))"
proof -
  let ?s = "concat ps"
  let ?n = "if maxBodySize \<le> 0 then unlimitedBodyLimit else maxBodySize"
  have n: "?n < MaxInt64" using assms(6) by (simp add: unlimitedBodyLimit_def MaxInt64_def)
  obtain m' where m': "GetBodyLimited (io_read io) (io_size io) (io_grow io) ?n m =
       Some (if over_limit ?n ?s then (None, Some (ErrWrap ''loading body: '' (tooLarge ?n))) else (Some ?s, None), m')"
    "bodyOnce m'" "bodyErr m' = (if over_limit ?n ?s then Some (ErrWrap ''loading body: '' (tooLarge ?n)) else None)"
    "\<not> over_limit ?n ?s \<longrightarrow> Body m' = Some ?s \<and> (\<exists>r'. BodyReader m' = Some r' \<and> chunked.multi_end rest r')"
    using msg.GetBodyLimited_fresh [OF unread_fresh [OF assms(2-5)] n, of "io_size io" "io_grow io"] assms(1) by auto
  have o: "over_limit ?n ?s \<longleftrightarrow> 0 < maxBodySize \<and> maxBodySize < int (length ?s)"
    by (auto simp: over_limit_def unlimitedBodyLimit_def)
  have p: "PreviewBodySnapshot (\<lambda>_. None) (Some m) = (None, False)"
    by (simp add: PreviewBodySnapshot_def split: option.split)
  show ?thesis
  proof (cases "over_limit ?n ?s")
    case True
    then show ?thesis
      using m'(1) o p by (simp add: fromHTTPRequest_def copyHTTPBody_def getHTTPBodyForStorage_def markBodyOmitted_def tooLarge_def)
  next
    case False
    then have "conn_left m' = rest" using m'(4) by (auto simp: conn_left_def chunked.multi_end_base chunked_end_def)
    moreover have "GetBody (io_read io) (io_size io) (io_grow io) m' = Some ((Some ?s, None), m')"
      using False m'(2-4) by (simp add: GetBody_def lazyLoad_again over_limit_def)
    moreover have "GetBodyLimited (io_read io) (io_size io) (io_grow io) ?n m = Some ((Some ?s, None), m')"
      using m'(1) False by simp
    moreover have "\<not> (0 < maxBodySize \<and> maxBodySize < int (length ?s))" using o False by blast
    ultimately show ?thesis
      unfolding fromHTTPRequest_def copyHTTPBody_def getHTTPBodyForStorage_def p by (simp del: concat_eq_Nil_conv)
  qed
qed

theorem stored_body_exact_witness:
  "\<exists>record m'. fromHTTPRequest \<lparr>io_read = multi_read chunked_rd, io_size = \<lambda>_. 511, io_grow = \<lambda>_ n. 2 * n\<rparr> (\<lambda>_. None) 5
       (sample_message (Single (NewChunkedReader (bytes_reader (chunk ''hel'' @ chunk ''lo'' @ zero_chunk [] @ ''NEXT'')))) None) = Some (record, m') \<and>
     hr_Body record = ''hello'' \<and> conn_left m' = ''NEXT''"
proof -
  let ?src = "bytes_reader (chunk ''hel'' @ chunk ''lo'' @ zero_chunk [] @ ''NEXT'')"
  have h: "chunks_ok [''hel'', ''lo'']" "ext_ok []" "pending ?src = concat (map chunk [''hel'', ''lo'']) @ zero_chunk [] @ ''NEXT''"
    by (simp_all add: chunks_ok_def MaxChunkSize_def bytes_reader_def)
  have lt: "(5::int) < MaxInt64" by (simp add: MaxInt64_def)
  show ?thesis
    using stored_body_exact [OF _ unread_sample [where h = None] h lt,
        of "\<lparr>io_read = multi_read chunked_rd, io_size = \<lambda>_. 511, io_grow = \<lambda>_ n. 2 * n\<rparr>"]
    by (simp del: fun_upd_apply) blast
qed

text \<open>
  A body that arrives behind a preview keeps its reader when it has been loaded.  The record is then made from the preview although the
  whole body is there.
\<close>

lemma loaded_preview_stored_truncated:
  assumes "BodyReader m = Some r" "snapshot r = Some preview" "preview \<noteq> []" "bodyOnce m" "bodyErr m = None" "Body m = Some body"
  shows "GetBody (io_read io) (io_size io) (io_grow io) m = Some ((Some body, None), m) \<and>
    (\<exists>record. fromHTTPRequest io snapshot maxBodySize m = Some (record, m) \<and> hr_Body record = preview \<and> hr_BodyTruncated record)"
  using assms by (simp add: GetBody_def lazyLoad_again over_limit_def fromHTTPRequest_def copyHTTPBody_def PreviewBodySnapshot_def)

section \<open>Every accepted job is saved once\<close>

primrec in_hand :: "'j worker \<Rightarrow> 'j list" where
  "in_hand Waiting = []"
| "in_hand (Saving j) = [j]"
| "in_hand Exited = []"

definition in_progress :: "'j pool \<Rightarrow> 'j multiset" where
  "in_progress p = (\<Sum>w \<in># mset (pl_workers p). mset (in_hand w))"

definition workers_ok :: "StorageMiddlewareConfig \<Rightarrow> 'j pool \<Rightarrow> bool" where
  "workers_ok cfg p \<longleftrightarrow>
     pl_accepted p = pl_taken p @ sq_jobs (pl_queue p) \<and>
     mset (pl_taken p) = mset (pl_saved p) + in_progress p \<and>
     length (sq_jobs (pl_queue p)) \<le> sq_capacity (pl_queue p) \<and>
     pl_workers p \<noteq> [] \<and>
     (Exited \<in> set (pl_workers p) \<longrightarrow> sq_stopped (pl_queue p) \<and> sq_jobs (pl_queue p) = [])"

lemma sum_update:
  assumes "i < length ws"
  shows "(\<Sum>w \<in># mset (ws[i := v]). f w) + f (ws ! i) = (\<Sum>w \<in># mset ws. f w) + (f v :: 'a multiset)"
proof -
  have "mset ws = add_mset (ws ! i) (mset ws - {#ws ! i#})" using assms by simp
  then have "(\<Sum>w \<in># mset ws. f w) = f (ws ! i) + (\<Sum>w \<in># mset ws - {#ws ! i#}. f w)"
    by (metis image_mset_add_mset sum_mset.insert)
  then show ?thesis using assms by (simp add: mset_update ac_simps)
qed

lemma in_progress_update:
  "i < length (pl_workers p) \<Longrightarrow> in_progress (p\<lparr>pl_workers := (pl_workers p)[i := v]\<rparr>) + mset (in_hand (pl_workers p ! i)) =
     in_progress p + mset (in_hand v)"
  using sum_update [where f = "\<lambda>w. mset (in_hand w)"] by (simp add: in_progress_def)

lemma in_progress_cong: "pl_workers p = pl_workers p' \<Longrightarrow> in_progress p = in_progress p'"
  by (simp add: in_progress_def)

lemma workers_ok_new:
  assumes "NewStorageMiddlewareWithPool False cfg = Inr p"
  shows "workers_ok cfg p"
proof -
  have "(\<Sum>w \<in># mset (replicate n Waiting). mset (in_hand w)) = {#}" for n :: nat
    by (induction n) auto
  moreover have "0 < nat (if smc_Workers cfg \<le> 0 then 4 else smc_Workers cfg)" by simp
  ultimately show ?thesis
    using assms by (auto simp: NewStorageMiddlewareWithPool_def StorageMiddlewareWithPool_def workers_ok_def in_progress_def
        DefaultStorageMiddlewareConfig_def Let_def split: if_splits)
qed

lemma storageWorker_ok:
  assumes "workers_ok cfg p" "storageWorker i p = Some p'"
  shows "workers_ok cfg p'"
proof -
  have i: "i < length (pl_workers p)" using assms(2) by (auto simp: storageWorker_def split: if_splits)
  show ?thesis
  proof (cases "pl_workers p ! i")
    case (Saving j)
    have e: "in_progress p' + {#j#} = in_progress p"
      using in_progress_update [OF i, of Waiting] assms(2) i Saving by (auto simp: storageWorker_def in_progress_def)
    then show ?thesis
      using assms i Saving by (auto simp: storageWorker_def workers_ok_def dest!: set_update_subset_insert [THEN subsetD])
  next
    case Exited
    then show ?thesis using assms(2) i by (simp add: storageWorker_def)
  next
    case Waiting
    show ?thesis
    proof (cases "sq_jobs (pl_queue p)")
      case Nil
      have e: "in_progress p' = in_progress p"
        using in_progress_update [OF i, of Exited] assms(2) i Waiting Nil
        by (auto simp: storageWorker_def in_progress_def split: if_splits)
      then show ?thesis
        using assms i Waiting Nil by (auto simp: storageWorker_def workers_ok_def split: if_splits)
    next
      case (Cons j js)
      have e: "in_progress p' = in_progress p + {#j#}"
        using in_progress_update [OF i, of "Saving j"] assms(2) i Waiting Cons by (auto simp: storageWorker_def in_progress_def)
      then show ?thesis
        using assms i Waiting Cons by (auto simp: storageWorker_def workers_ok_def dest!: set_update_subset_insert [THEN subsetD])
    qed
  qed
qed

lemma workers_step_ok:
  assumes "workers_ok cfg p" "pool_step e p = Some p'"
  shows "workers_ok cfg p'"
proof (cases e)
  case (Work i)
  then show ?thesis using storageWorker_ok assms by simp
qed (use assms in \<open>auto simp: trySendJob_def Shutdown_begin_def workers_ok_def in_progress_def split: if_splits\<close>)

lemma workers_reach_ok: "pool_reach cfg p \<Longrightarrow> workers_ok cfg p"
  by (induction rule: pool_reach.induct) (auto intro: workers_ok_new workers_step_ok)

text \<open>
  C31: \<^bold>\<open>Every accepted request is saved once, in order of acceptance.\<close>  In every state that sending, stopping and the workers can
  reach: the accepted jobs are the ones that workers have received, in order, followed by those in the channel, which never holds more than its
  capacity; each received job has been handed to \<open>SaveRequest\<close> once or is in the hands of one worker.  When the workers have ended, which is what
  \<open>Shutdown\<close> waits for, the middleware is stopped and exactly the accepted jobs have been saved.
\<close>

theorem accepted_jobs_saved_once:
  assumes "pool_reach cfg p"
  shows "pl_accepted p = pl_taken p @ sq_jobs (pl_queue p) \<and>
    length (sq_jobs (pl_queue p)) \<le> sq_capacity (pl_queue p) \<and>
    mset (pl_taken p) = mset (pl_saved p) + in_progress p \<and>
    (list_all (\<lambda>w. w = Exited) (pl_workers p) \<longrightarrow> sq_stopped (pl_queue p) \<and> mset (pl_saved p) = mset (pl_accepted p))"
proof -
  note ok = workers_reach_ok [OF assms, unfolded workers_ok_def]
  have "sq_stopped (pl_queue p) \<and> mset (pl_saved p) = mset (pl_accepted p)" if a: "list_all (\<lambda>w. w = Exited) (pl_workers p)"
  proof -
    have "Exited \<in> set (pl_workers p)" using a ok by (cases "pl_workers p") auto
    moreover have "in_progress p = {#}"
      unfolding in_progress_def using a by (induction "pl_workers p" arbitrary: p) (auto simp: list_all_iff)
    ultimately show ?thesis using ok by simp
  qed
  then show ?thesis using ok by simp
qed

section \<open>Shutting down ends\<close>

text \<open>The steps that the workers still have to make.\<close>

primrec own_steps :: "'j worker \<Rightarrow> nat" where
  "own_steps Waiting = 1"
| "own_steps (Saving j) = 2"
| "own_steps Exited = 0"

definition steps_left :: "'j pool \<Rightarrow> nat" where
  "steps_left p = 2 * length (sq_jobs (pl_queue p)) + sum_list (map own_steps (pl_workers p))"

lemma sum_list_own_update:
  "i < length ws \<Longrightarrow> sum_list (map own_steps (ws[i := v])) + own_steps (ws ! i) = sum_list (map own_steps ws) + own_steps v"
  by (induction ws arbitrary: i) (auto split: nat.split)

lemma worker_step_left:
  assumes "storageWorker i p = Some p'"
  shows "Suc (steps_left p') = steps_left p"
proof -
  have i: "i < length (pl_workers p)" using assms by (auto simp: storageWorker_def split: if_splits)
  note sum = sum_list_own_update [OF i]
  show ?thesis
  proof (cases "pl_workers p ! i")
    case (Saving j)
    then show ?thesis using assms i sum [of Waiting] by (auto simp: storageWorker_def steps_left_def)
  next
    case Exited
    then show ?thesis using assms i by (simp add: storageWorker_def)
  next
    case Waiting
    then show ?thesis
      using assms i sum [of Exited] sum [of "Saving (hd (sq_jobs (pl_queue p)))"]
      by (cases "sq_jobs (pl_queue p)") (auto simp: storageWorker_def steps_left_def split: if_splits)
  qed
qed

lemma worker_keeps_stopped: "storageWorker i p = Some p' \<Longrightarrow> sq_stopped (pl_queue p') = sq_stopped (pl_queue p)"
  by (auto simp: storageWorker_def split: if_splits worker.splits list.splits)

lemma stopped_can_step:
  assumes "sq_stopped (pl_queue p)" "\<not> list_all (\<lambda>w. w = Exited) (pl_workers p)"
  shows "\<exists>i p'. storageWorker i p = Some p'"
proof -
  obtain i where "i < length (pl_workers p)" "pl_workers p ! i \<noteq> Exited"
    using assms(2) by (auto simp: list_all_length)
  then have "storageWorker i p \<noteq> None" using assms(1) by (auto simp: storageWorker_def split: worker.split list.split)
  then show ?thesis by blast
qed

text \<open>
  C32: \<^bold>\<open>Shutting down ends.\<close>  After \<open>Shutdown\<close> has closed the channel, whatever worker makes the next step, every run of the workers has exactly
  the predicted number of steps left: a run can be continued until all workers have ended, and it cannot go on beyond.  Then all accepted
  jobs have been saved.  (Each call of \<open>SaveRequest\<close> is taken to return.)
\<close>

theorem shutdown_ends:
  assumes "pool_reach cfg p" "sq_stopped (pl_queue p)" "pool_run (map Work is) p = Some p'"
  shows "length is + steps_left p' = steps_left p \<and> sq_stopped (pl_queue p') \<and>
    ((\<exists>i p''. pool_step (Work i) p' = Some p'') \<longleftrightarrow> 0 < steps_left p') \<and>
    (steps_left p' = 0 \<longrightarrow> list_all (\<lambda>w. w = Exited) (pl_workers p') \<and> mset (pl_saved p') = mset (pl_accepted p'))"
proof -
  have run: "pool_reach cfg p' \<and> sq_stopped (pl_queue p') \<and> length is + steps_left p' = steps_left p"
    using assms
  proof (induction "is" arbitrary: p)
    case (Cons i js)
    then obtain p1 where p1: "storageWorker i p = Some p1" "pool_run (map Work js) p1 = Some p'" by (auto split: option.splits)
    have "pool_reach cfg p1" using Cons.prems(1) p1(1) by (auto intro: pool_reach.step [where e = "Work i"])
    then show ?case
      using Cons.IH [OF _ _ p1(2)] worker_step_left [OF p1(1)] worker_keeps_stopped [OF p1(1)] Cons.prems(2) by simp
  qed simp
  note ok = workers_reach_ok [OF run [THEN conjunct1], unfolded workers_ok_def]
  have zero: "steps_left p' = 0 \<longleftrightarrow> list_all (\<lambda>w. w = Exited) (pl_workers p')" (is "_ \<longleftrightarrow> ?E")
  proof
    assume "steps_left p' = 0"
    then have "\<forall>w \<in> set (pl_workers p'). own_steps w = 0" by (auto simp: steps_left_def)
    then show ?E by (auto simp: list_all_iff) (metis own_steps.simps(1,2) worker.exhaust zero_neq_one zero_neq_numeral)
  next
    assume e: ?E
    then have "Exited \<in> set (pl_workers p')" using ok by (cases "pl_workers p'") auto
    moreover have "sum_list (map own_steps (pl_workers p')) = 0" using e by (auto simp: list_all_iff)
    ultimately show "steps_left p' = 0" using ok by (simp add: steps_left_def)
  qed
  have "(\<exists>i p''. pool_step (Work i) p' = Some p'') \<longleftrightarrow> 0 < steps_left p'"
    using stopped_can_step [of p'] run zero worker_step_left [of _ p'] by (auto simp del: neq0_conv simp: neq0_conv [symmetric])
  moreover have "mset (pl_saved p') = mset (pl_accepted p')" if "steps_left p' = 0"
  proof -
    have "Exited \<in> set (pl_workers p')" using that zero ok by (cases "pl_workers p'") auto
    moreover have "in_progress p' = {#}"
      unfolding in_progress_def using that zero by (induction "pl_workers p'" arbitrary: p') (auto simp: list_all_iff)
    ultimately show ?thesis using ok by simp
  qed
  ultimately show ?thesis using run zero by simp
qed

section \<open>A small pool\<close>

definition two_workers :: StorageMiddlewareConfig where
  "two_workers = \<lparr>smc_Workers = 2, smc_QueueSize = 2, smc_MaxBodySize = 0\<rparr>"

definition pool_after :: "nat pool_event list \<Rightarrow> nat pool option" where
  "pool_after es = (case NewStorageMiddlewareWithPool False two_workers of Inl _ \<Rightarrow> None | Inr p \<Rightarrow> pool_run es p)"

lemma pool_run_reach: "pool_run es p = Some p' \<Longrightarrow> pool_reach cfg p \<Longrightarrow> pool_reach cfg p'"
  by (induction es arbitrary: p) (auto intro: pool_reach.step split: option.splits)

lemma pool_after_reach: "pool_after es = Some p \<Longrightarrow> pool_reach two_workers p"
  by (auto simp: pool_after_def intro: pool_run_reach pool_reach.start split: sum.splits)

text \<open>Of four jobs the last finds the channel full.\<close>

theorem accepted_jobs_saved_once_witness:
  "\<exists>p. pool_after [Send 1, Work 0, Send 2, Send 3, Send 4, Work 1, Work 1] = Some p \<and>
     pl_accepted p = [1, 2, 3] \<and> pl_saved p = [2] \<and> in_progress p = {#1#} \<and> sq_jobs (pl_queue p) = [3] \<and> sq_rejected (pl_queue p) = 1"
proof -
  have e: "map_option (\<lambda>p. (pl_accepted p, pl_saved p, pl_taken p, sq_jobs (pl_queue p), sq_rejected (pl_queue p)))
       (pool_after [Send 1, Work 0, Send 2, Send 3, Send 4, Work 1, Work 1]) = Some ([1, 2, 3], [2], [1, 2], [3], 1)"
    by code_simp
  then obtain p where p: "pool_after [Send 1, Work 0, Send 2, Send 3, Send 4, Work 1, Work 1] = Some p"
    "pl_saved p = [2]" "pl_taken p = [1, 2]" "pl_accepted p = [1, 2, 3]" "sq_jobs (pl_queue p) = [3]" "sq_rejected (pl_queue p) = 1"
    by auto
  have "mset [1, 2] = mset [2] + in_progress p" using accepted_jobs_saved_once [OF pool_after_reach [OF p(1)]] p(2,3) by simp
  then have "in_progress p = {#1#}" by (simp add: add_mset_commute)
  then show ?thesis using p by blast
qed

theorem shutdown_ends_witness:
  "\<exists>p p'. pool_after [Send 1, Work 0, Send 2, Stop, Send 3] = Some p \<and> pool_run (map Work [0, 1, 0, 1, 1]) p = Some p' \<and>
     steps_left p' = 0 \<and> mset (pl_saved p') = {#1, 2#}"
proof -
  have "map_option (\<lambda>p. (sq_stopped (pl_queue p), steps_left p, map_option (\<lambda>p'. pl_accepted p') (pool_run (map Work [0, 1, 0, 1, 1]) p)))
       (pool_after [Send 1, Work 0, Send 2, Stop, Send 3]) = Some (True, 5, Some [1, 2])"
    by code_simp
  then obtain p p' where p: "pool_after [Send 1, Work 0, Send 2, Stop, Send 3] = Some p" "sq_stopped (pl_queue p)" "steps_left p = 5"
    "pool_run (map Work [0, 1, 0, 1, 1]) p = Some p'" "pl_accepted p' = [1, 2]"
    by (auto simp del: pool_run.simps)
  have "length [0 :: nat, 1, 0, 1, 1] + steps_left p' = steps_left p"
    "steps_left p' = 0 \<longrightarrow> mset (pl_saved p') = mset (pl_accepted p')"
    using shutdown_ends [OF pool_after_reach [OF p(1)] p(2,4)] by blast+
  then show ?thesis using p by auto
qed

end
