(* ===== verification/Spec2Isabelle.thy ===== *)
theory Spec2Isabelle
  imports Server_Protocol Router_Concurrency Sharded_Search Mock_Processor Scenario_V2 Connection_IO Request_Store
begin

text \<open>
  \<^bold>\<open>A verification development for the ICAP mock server (Go).\<close>

  The server accepts ICAP requests (RFC 3507), finds the first scenario that applies to a request, and
  answers with the response that the scenario configures, optionally as a body that is streamed with a planned
  pace and end.  This development models the path of a request through the program, from the bytes of the connection to the
  bytes of the response, and the data structures on that path.

  \<^bold>\<open>The parts and how they interact.\<close>

  \<^item> \<^verbatim>\<open>internal/server/protocol*.go\<close> parses the request line, the header section and the embedded HTTP messages off the
    connection (\<open>parseICAPRequest\<close>).  Bodies stay on the connection: a request refers to them through lazily loading
    readers of \<^verbatim>\<open>pkg/icap/request.go\<close> on top of the chunked reader of \<^verbatim>\<open>pkg/icap/encoding.go\<close>.
  \<^item> \<^verbatim>\<open>internal/router\<close> finds the handler of a path, through an LRU cache (\<open>Serve\<close>).
  \<^item> The handler calls the processor chain: the mock processor and behind it the echo processor
    (\<^verbatim>\<open>internal/processor\<close>).  The mock processor asks the scenario registry of \<^verbatim>\<open>internal/storage\<close> for a
    scenario (\<open>Match\<close>, \<open>sharded_Match\<close>), chooses a weighted variant (\<^verbatim>\<open>internal/weight\<close>), substitutes captures and
    builds the response (\<open>Process\<close>, \<open>buildResponse\<close>), to which it may attach a body stream (\<open>attachStream\<close>).
  \<^item> \<^verbatim>\<open>pkg/icap/response*.go\<close> and \<^verbatim>\<open>streaming.go\<close> write the response and deliver the stream to the connection.

  \<^bold>\<open>Theories.\<close>  Each theory opens with a text of its own; names are those of the Go functions, and a
  prefix (\<open>Header_Get\<close>, \<open>sharded_Add\<close>) stands for the receiver where two functions share a name.

  \<^item> \<open>Go_Prelude\<close>: strings, maps, 64-bit arithmetic (\<open>wrap64\<close>), the errors of all parts as one datatype
    \<open>go_error\<close> with \<open>errors.Is\<close> (\<open>go_Is\<close>) and \<open>errors.Join\<close>, formatting and parsing of numbers.
    \<open>Go_IO\<close>: the contracts of \<open>io.Writer\<close> and \<open>io.Reader\<close> as locales \<open>io_writer\<close> and \<open>io_reader\<close>.
  \<^item> \<open>Icap_Header\<close> (\<^verbatim>\<open>pkg/icap/header.go\<close>): header maps and canonical keys.  The locale
    \<open>ci_multimap\<close> states the map laws up to case.
  \<^item> \<open>Chunked\<close> (\<^verbatim>\<open>pkg/icap/encoding.go\<close>): chunked reader with previews and trailers, chunked writer.
  \<^item> \<open>Icap_Message\<close> (\<^verbatim>\<open>pkg/icap/request.go\<close>, \<^verbatim>\<open>body_read.go\<close>, \<^verbatim>\<open>release.go\<close>): requests, embedded
    messages, lazy bodies with limits, previews.
  \<^item> \<open>Server_Protocol\<close> (\<^verbatim>\<open>internal/server/protocol.go\<close>, \<^verbatim>\<open>protocol_respmod.go\<close>): the parser of the server.
  \<^item> \<open>Connection_IO\<close> (\<^verbatim>\<open>internal/server/connection.go\<close>, \<^verbatim>\<open>lifecycle.go\<close>): the buffered reader and writer of a connection,
    their wrappers, closing, and the pool of connections.
  \<^item> \<open>Stream_Plan\<close> (\<^verbatim>\<open>pkg/icap/stream_plan.go\<close>) and \<open>Body_Stream\<close> (\<^verbatim>\<open>pkg/icap/streaming.go\<close>): plans of
    chunks with their times, and the delivery loop.
  \<^item> \<open>Icap_Response\<close> (\<^verbatim>\<open>pkg/icap/response.go\<close>, \<^verbatim>\<open>response_write.go\<close>): responses, the
    \<open>Encapsulated\<close> header, the direct writer.
  \<^item> \<open>Route_Cache\<close>, \<open>Router\<close>, \<open>Router_Concurrency\<close> (\<^verbatim>\<open>internal/router\<close>): the cache on an explicit pointer store, the
    routing functions, and the interleavings of concurrent calls as an inductive step relation.
  \<^item> \<open>Weight\<close> (\<^verbatim>\<open>internal/weight/percentage.go\<close>, the total check, the weighted choice).
  \<^item> \<open>Stream_Config\<close> (\<^verbatim>\<open>internal/storage/streaming*.go\<close>): normalisation and validation of the streaming
    section of a scenario.
  \<^item> \<open>Scenario_Match\<close>, \<open>Scenario_Compile\<close>, \<open>Scenario_Registry\<close> (\<^verbatim>\<open>internal/storage/scenario.go\<close>): matching of one
    scenario and choice of its branch, validation and compilation, and the plain registry.
  \<^item> \<open>Scenario_V2\<close> (\<^verbatim>\<open>internal/storage/scenario_v2.go\<close>): the conversion of version 2 scenario files, with defaults, routes,
    templates, variants and branches, to the scenarios that the registry loads.
  \<^item> \<open>Match_Cache\<close>, \<open>Sharded_Registry\<close>, \<open>Sharded_Refinement\<close>, \<open>Sharded_Search\<close>
    (\<^verbatim>\<open>internal/storage/sharded_scenario.go\<close>): the sharded registry with its match cache, and its refinement of the plain one.
    \<open>Match_Effects\<close>: what a match leaves in the request, captures and branch, in both registries.
  \<^item> \<open>Stream_Select\<close>, \<open>Stream_Source\<close>, \<open>Substitution\<close>, \<open>Mock_Processor\<close> (\<^verbatim>\<open>internal/processor\<close>): random choice of
    a stream plan, the payload of a stream with the files it opens, substitution of captures, and processing.

  \<^item> \<open>Request_Store\<close> (\<^verbatim>\<open>internal/storage/storage.go\<close>, \<^verbatim>\<open>internal/middleware/middleware.go\<close>): the record that is stored of a request, the
    queue of the storage middleware and its workers, as steps of concurrent goroutines.

  \<^bold>\<open>State.\<close>  A struct is a record with the fields of the source.  Methods that write through a pointer receiver return the new
  record.  Pointer structures whose aliasing matters (the lists of both caches) live in an explicit store; a scenario is
  identified by its address field \<open>s_addr\<close>.  To the parser the connection is the list of bytes still to come, together with the error
  that ends it; \<open>reads_independent_of_packets\<close> shows that the buffered connection behaves like that however the bytes arrive.  What the outside does at each call (writes, clocks, cancellations, timers, opened files, random words) is an explicit state or an argument,
  so that every failure may happen at every call.  Open files are counted (\<open>files\<close>).

  \<^bold>\<open>What the lemmas show.\<close>

  \<^item> Parsing and writing: requests and header sections round trip, what parses is well formed, framing is bounded
    (\<open>reqmod_pipeline\<close>, \<open>header_section_roundtrip\<close>, \<open>request_parse_sound\<close>, \<open>header_section_bounded\<close>,
    \<open>chunked_roundtrip\<close>, \<open>preview_protocol\<close>, \<open>chunk_framing_bounded\<close>); body limits are exact and previews lose
    nothing (\<open>body_limit_exact\<close>, \<open>preview_then_body\<close>); the response writer sends the reference text or a
    prefix of it, and the announced offsets are the real ones (\<open>response_write_exact\<close>, \<open>encapsulated_offsets_exact\<close>).
  \<^item> Connections: the reads give the same in whatever pieces the bytes arrive, the fast path of the chunked reader included, the buffered writer
    keeps the order and loses nothing, and a connection is released exactly once (\<open>reads_independent_of_packets\<close>,
    \<open>fast_line_is_byte_loop\<close>, \<open>buffered_writer_in_order\<close>, \<open>connection_released_once\<close>).
  \<^item> Routing: the cache refines a list specification and is transparent, in one thread and in every interleaving
    (\<open>route_cache_is_lru\<close>, \<open>serve_routes_exactly\<close>, \<open>concurrent_answers_were_routed\<close>).
  \<^item> Scenarios: validation compiles what is declared (\<open>validated_routes_exact\<close>, \<open>stream_config_accepted\<close>); the registry
    invariant holds after every sequence of operations, the best scenario wins, and the sharded registry with index and cache
    refines the plain one, for files without repeated names and for paths that the index takes literally (\<open>registry_invariant\<close>, \<open>registry_match_best\<close>, \<open>sharded_same_scenarios\<close>,
    \<open>sharded_same_answers\<close>).  A version 2 file is converted, if its templates do not lead back to themselves, to well-formed scenarios, which
    are asked in the order of the file (\<open>v2_conversion_returns\<close>, \<open>v2_scenarios_well_formed\<close>, \<open>v2_load_order\<close>).
  \<^item> Processing: the answer is that of the best scenario and its first branch, the response is what the template says, no request
    leaks a file, chains fall through exactly on what they should (\<open>process_answers_best\<close>, \<open>build_response_exact\<close>,
    \<open>process_leaks_no_file\<close>, \<open>attach_stream_files\<close>, \<open>chain_first_answer\<close>); substitution is one expansion
    (\<open>substitution_is_expansion\<close>); weights are exact (\<open>weight_parse_exact\<close>, \<open>weighted_choice_exact\<close>).
  \<^item> Streaming: planning terminates for validated configurations and stays in the configured ranges, plans split the body exactly and
    never overflow, reported success means complete delivery, and an undisturbed delivery succeeds (\<open>stream_planning_succeeds\<close>,
    \<open>plan_splits_body\<close>, \<open>plan_schedule\<close>, \<open>stream_success_exact\<close>, \<open>stream_delivers_source\<close>).
  \<^item> Storing: the record has the whole body or says why not, every accepted request is saved once, and shutting down ends
    (\<open>stored_body_exact\<close>, \<open>accepted_jobs_saved_once\<close>, \<open>shutdown_ends\<close>).
  \<^item> Behaviour that departs from what the code means to do is stated as theorems too: two interleavings in the router
    (\<open>stale_promotion_breaks_bound\<close>, \<open>stale_handler_survives_register\<close>), a path with a dot that the index hides
    (\<open>sharded_index_hides_dotted_path\<close>), the lost branch (\<open>lost_branch_lets_message_pass\<close>), the skipped fallback
    (\<open>echo_fallback_dead\<close>), templates that use each other (\<open>use_cycle_overflows\<close>), leaking captures (\<open>captures_of_all_tried\<close>,
    \<open>captures_leak_between_scenarios\<close>), a name used twice in a file (\<open>duplicate_names_diverge\<close>), and several in parsing
    (\<open>respmod_without_request_skips_response\<close>, \<open>no_encapsulated_header_claims_body\<close>, \<open>oversized_chunk_rejected\<close>,
    \<open>truncated_body_accepted\<close>, \<open>limit_overread\<close>, \<open>limit_overflow_loses_body\<close>).

  \<^bold>\<open>Interfaces.\<close>  The locales are \<open>io_writer\<close> and \<open>io_reader\<close> (connection, buffer, chunked and multi readers),
  \<open>byte_stream\<close> (what a source delivers through a socket, and through the buffer over it), \<open>ci_multimap\<close> (headers), \<open>lookup_cache\<close> (what the router needs of its cache), \<open>stream_selector\<close>
  (what planning needs of the random selector) and \<open>branch_matcher\<close> (what the processor needs of a registry); each is
  interpreted on the definitions of the model that provide it.  The sharded registry does not satisfy \<open>branch_matcher\<close>: that is
  the lost branch.

  \<^bold>\<open>Loops that may not end.\<close>  Reading from an arbitrary \<open>io.Reader\<close> and drawing random numbers until one fits are loops
  without a bound, and so is the recursion through response templates.  They are \<open>partial_function (option)\<close>, so that not returning is \<^const>\<open>None\<close>, and that they return is proved:
  for readers under the contract of \<open>io_reader\<close>, for templates that lead to each other along a falling height (\<open>leveled\<close>), and for streams of random words that hit every residue range again and again
  (\<open>fair\<close>).  A panic or a stack overflow is \<^const>\<open>None\<close> as well.  All other recursion is structural or has a measure; no fuel is used.

  \<^bold>\<open>Arguments that stand for code outside the repository.\<close>  The functions of \<open>regexp\<close>, \<open>mime\<close>, \<open>mime/multipart\<close> and \<open>net\<close>
  (records \<open>golib\<close> and \<open>platform\<close>), \<open>http.StatusText\<close>, files and \<open>os.Stat\<close>, the growth of slices in \<open>append\<close> and
  \<open>io.ReadAll\<close>, the clock, the answers of \<open>ctx.Err\<close>, \<open>time.ParseDuration\<close> (record \<open>timelib\<close>), the addresses of allocated scenarios, the texts of errors, and the words of \<open>math/rand\<close>.
  The only laws assumed of them are hypotheses of single lemmas: literal regular expressions match literally
  (\<open>regexp_literal\<close>), \<open>rand.Intn\<close> stays in its range, the words are fair.

  \<^bold>\<open>Bounds.\<close>  Lengths of strings are unbounded in the model, sizes that the code computes are wrapped at 64 bits.  Strings
  are bytes; case folding is modelled on ASCII.  The iteration order of a Go map is the order of its association list, so
  properties hold for every order.

  \<^bold>\<open>Not modelled, and why.\<close>  Sockets, TLS, goroutines and timers of \<^verbatim>\<open>internal/server\<close> (the accept loop, the loop over the
  requests of a connection, shutdown): their behaviour is that of the operating system and the runtime; the parser and the buffers are modelled.  Decoding of YAML and JSON by \<^verbatim>\<open>gopkg.in/yaml.v3\<close> and
  \<^verbatim>\<open>encoding/json\<close>, and with it configuration files: the decoded values are arguments of \<open>Load\<close> and \<open>ConvertV2ToScenarios\<close>.  Metrics, logging, health endpoints and the
  management API: they observe or delegate.  \<open>ReadResponse\<close>, the client side of the package.  Object pools: what \<open>sync.Pool\<close> returns is up to
  the runtime.  Storage of requests on disk and the disk monitor: file input and output, so that what
  \<open>SaveRequest\<close> does is outside.  The handlers between router and processor, panic recovery, retry and adaptive timeouts.  The moving average of checked scenarios.  Interleavings of registry mutations with
  matches: the generation counter is modelled for one goroutine.
\<close>

end
